(* ===== verification/Prelude.thy ===== *)
theory Prelude
  imports Main "HOL-Library.Word" "HOL-Library.Multiset" "HOL-Library.Product_Lexorder"
    "HOL-Library.List_Lexorder" "HOL-Library.While_Combinator"
begin

text \<open>
  Shared vocabulary of the development: the machine integers of the simulator, C++ exceptions as
  values, programs over a mutable state that may throw, a weakest-precondition calculus for them,
  and the standard containers the sources use (ordered maps, growing vectors).

  A C++ member function that may mutate its object and may throw is a value of type
  \<open>('s, 'a) prog\<close>: from a state it gives either an exception or a result, together with the state
  at that point. The state is kept on the exceptional path because C++ does not roll it back.
\<close>

named_theorems wp_simps \<open>weakest preconditions of the program combinators\<close>
named_theorems frame_simps \<open>parts of the state an operation leaves alone\<close>

section \<open>Machine integers\<close>

type_synonym u8 = "8 word"
type_synonym u32 = "32 word"
type_synonym u64 = "64 word"

text \<open>Container sizes are natural numbers; \<open>size_sub\<close> is the unsigned subtraction on them.\<close>

type_synonym size_t = nat

abbreviation u64_max :: u64 where
  "u64_max \<equiv> - 1"

definition size_sub :: "size_t \<Rightarrow> size_t \<Rightarrow> size_t" where
  "size_sub a b = (if b \<le> a then a - b else a + 2 ^ 64 - b)"

section \<open>Exceptions and programs\<close>

datatype exn =
    InvalidArgument string
  | LogicError string
  | OverflowError string
  | LengthError string
  | OutOfRange string

primrec what :: "exn \<Rightarrow> string" where
  "what (InvalidArgument m) = m"
| "what (LogicError m) = m"
| "what (OverflowError m) = m"
| "what (LengthError m) = m"
| "what (OutOfRange m) = m"

type_synonym ('s, 'a) prog = "'s \<Rightarrow> (exn + 'a) \<times> 's"

definition return :: "'a \<Rightarrow> ('s, 'a) prog" where
  "return x = (\<lambda>s. (Inr x, s))"

definition throw :: "exn \<Rightarrow> ('s, 'a) prog" where
  "throw e = (\<lambda>s. (Inl e, s))"

definition bind :: "('s, 'a) prog \<Rightarrow> ('a \<Rightarrow> ('s, 'b) prog) \<Rightarrow> ('s, 'b) prog" where
  "bind m f = (\<lambda>s. case m s of (Inl e, s') \<Rightarrow> (Inl e, s') | (Inr x, s') \<Rightarrow> f x s')"

definition seq :: "('s, unit) prog \<Rightarrow> ('s, 'b) prog \<Rightarrow> ('s, 'b) prog" where
  "seq m k = bind m (\<lambda>_. k)"

definition gets :: "('s \<Rightarrow> 'a) \<Rightarrow> ('s, 'a) prog" where
  "gets f = (\<lambda>s. (Inr (f s), s))"

definition modify :: "('s \<Rightarrow> 's) \<Rightarrow> ('s, unit) prog" where
  "modify f = (\<lambda>s. (Inr (), f s))"

definition lift_res :: "exn + 'a \<Rightarrow> ('s, 'a) prog" where
  "lift_res r = (\<lambda>s. (r, s))"

text \<open>\<open>throw_if c e\<close> is the guard \<^verbatim>\<open>if (c) { throw e; }\<close>.\<close>

definition throw_if :: "bool \<Rightarrow> exn \<Rightarrow> ('s, unit) prog" where
  "throw_if c e = (if c then throw e else return ())"

definition perform_if :: "bool \<Rightarrow> ('s, unit) prog \<Rightarrow> ('s, unit) prog" where
  "perform_if c m = (if c then m else return ())"

primrec for_each :: "('a \<Rightarrow> ('s, unit) prog) \<Rightarrow> 'a list \<Rightarrow> ('s, unit) prog" where
  "for_each f [] = return ()"
| "for_each f (x # xs) = seq (f x) (for_each f xs)"

primrec repeat_prog :: "nat \<Rightarrow> ('s, 'a) prog \<Rightarrow> ('s, 'a list) prog" where
  "repeat_prog 0 m = return []"
| "repeat_prog (Suc n) m = bind m (\<lambda>x. bind (repeat_prog n m) (\<lambda>xs. return (x # xs)))"

definition try_catch :: "('s, 'a) prog \<Rightarrow> (exn \<Rightarrow> ('s, 'a) prog) \<Rightarrow> ('s, 'a) prog" where
  "try_catch m h = (\<lambda>s. case m s of (Inl e, s') \<Rightarrow> h e s' | (Inr x, s') \<Rightarrow> (Inr x, s'))"

text \<open>
  \<^verbatim>\<open>while (c) { body }\<close>; an exception of the body ends the loop. The library's \<open>while\<close> is only
  meaningful where the loop ends, which a lemma about it has to establish.
\<close>

definition while_prog :: "('s \<Rightarrow> bool) \<Rightarrow> ('s, unit) prog \<Rightarrow> ('s, unit) prog" where
  "while_prog c body =
     (\<lambda>s. while (\<lambda>(r, s). r = Inr () \<and> c s) (\<lambda>(r, s). body s) (Inr (), s))"

text \<open>Running a program of a component inside a state that holds the component.\<close>

definition zoom :: "('w \<Rightarrow> 's) \<Rightarrow> ('s \<Rightarrow> 'w \<Rightarrow> 'w) \<Rightarrow> ('s, 'a) prog \<Rightarrow> ('w, 'a) prog" where
  "zoom get put m = (\<lambda>w. case m (get w) of (r, s) \<Rightarrow> (r, put s w))"

text \<open>Fallible pure functions are sums; this is their sequencing.\<close>

definition bindR :: "exn + 'a \<Rightarrow> ('a \<Rightarrow> exn + 'b) \<Rightarrow> exn + 'b" where
  "bindR r f = (case r of Inl e \<Rightarrow> Inl e | Inr x \<Rightarrow> f x)"

section \<open>Weakest preconditions\<close>

text \<open>
  \<open>wp m Q E s\<close>: from \<open>s\<close>, a normal exit of \<open>m\<close> satisfies \<open>Q\<close> (of the result and the final
  state) and an exceptional one satisfies \<open>E\<close> (of the exception and the final state).
\<close>

definition wp :: "('s, 'a) prog \<Rightarrow> ('a \<Rightarrow> 's \<Rightarrow> bool) \<Rightarrow> (exn \<Rightarrow> 's \<Rightarrow> bool) \<Rightarrow> 's \<Rightarrow> bool" where
  "wp m Q E s = (case m s of (Inl e, s') \<Rightarrow> E e s' | (Inr x, s') \<Rightarrow> Q x s')"

section \<open>Ordered maps\<close>

text \<open>
  \<^verbatim>\<open>std::map\<close> is an association list in key order. \<open>map_of\<close> is the lookup, \<open>omap_put\<close> the
  insertion or assignment, \<open>omap_erase\<close> the erasure, \<open>length\<close> the size.
\<close>

type_synonym ('k, 'v) omap = "('k \<times> 'v) list"

fun omap_put :: "'k::linorder \<Rightarrow> 'v \<Rightarrow> ('k, 'v) omap \<Rightarrow> ('k, 'v) omap" where
  "omap_put k v [] = [(k, v)]"
| "omap_put k v ((k', v') # m) =
     (if k < k' then (k, v) # (k', v') # m
      else if k = k' then (k, v) # m
      else (k', v') # omap_put k v m)"

definition omap_erase :: "'k \<Rightarrow> ('k, 'v) omap \<Rightarrow> ('k, 'v) omap" where
  "omap_erase k m = filter (\<lambda>(k', _). k' \<noteq> k) m"

definition omap_ok :: "('k::linorder, 'v) omap \<Rightarrow> bool" where
  "omap_ok m = sorted_wrt (<) (map fst m)"

section \<open>Lemmas\<close>

subsection \<open>Words and sizes\<close>

lemma unat_max_minus: "unat (- 1 - x :: 'a::len word) = 2 ^ LENGTH('a) - 1 - unat x"
proof -
  have "unat (- 1 - x) = unat (- 1 :: 'a word) - unat x"
    by (rule unat_sub) simp
  then show ?thesis by (simp add: unsigned_minus_1_eq_mask mask_eq_exp_minus_1)
qed

lemma le_max_minus_iff:
  "y \<le> - 1 - x \<longleftrightarrow> unat x + unat y < 2 ^ LENGTH('a)" for x y :: "'a::len word"
proof -
  have "unat x < 2 ^ LENGTH('a)" by (rule unsigned_less)
  then have "unat y \<le> 2 ^ LENGTH('a) - 1 - unat x \<longleftrightarrow> unat x + unat y < 2 ^ LENGTH('a)"
    by linarith
  then show ?thesis by (simp add: word_le_nat_alt unat_max_minus)
qed

lemma max_minus_less_iff:
  "- 1 - x < y \<longleftrightarrow> 2 ^ LENGTH('a) \<le> unat x + unat y" for x y :: "'a::len word"
  using le_max_minus_iff [of y x] by (simp add: not_le [symmetric])

lemma unat_plus_no_overflow:
  "unat x + unat y < 2 ^ LENGTH('a) \<Longrightarrow> unat (x + y) = unat x + unat y" for x y :: "'a::len word"
  by (simp add: unat_word_ariths)

lemma le_max_div_iff:
  fixes a b :: "'a::len word"
  assumes "0 < b"
  shows "a \<le> - 1 div b \<longleftrightarrow> unat a * unat b < 2 ^ LENGTH('a)"
proof -
  have b: "0 < unat b" using assms by (simp add: word_less_nat_alt)
  have "a \<le> - 1 div b \<longleftrightarrow> unat a \<le> (2 ^ LENGTH('a) - 1) div unat b"
    by (simp add: word_le_nat_alt unat_div unsigned_minus_1_eq_mask mask_eq_exp_minus_1)
  also have "\<dots> \<longleftrightarrow> unat a * unat b \<le> 2 ^ LENGTH('a) - 1"
    using b by (simp add: less_eq_div_iff_mult_less_eq)
  also have "\<dots> \<longleftrightarrow> unat a * unat b < 2 ^ LENGTH('a)"
    using zero_less_power [of "2 :: nat" "LENGTH('a)"] by linarith
  finally show ?thesis .
qed

lemma unat_mult_no_overflow:
  "unat x * unat y < 2 ^ LENGTH('a) \<Longrightarrow> unat (x * y) = unat x * unat y" for x y :: "'a::len word"
  by (simp add: unat_word_ariths)

lemma unat_u64_bound: "unat (x :: u64) < 2 ^ 64"
  using unsigned_less [of x, where 'a = nat] by simp

lemma size_sub_simp [simp]: "b \<le> a \<Longrightarrow> size_sub a b = a - b"
  by (simp add: size_sub_def)

lemma finite_words [simp]: "finite (A :: 'a::len word set)"
  by (rule finite_subset [OF subset_UNIV finite])

lemmas prog_defs = bind_def seq_def gets_def modify_def return_def throw_def throw_if_def
  perform_if_def lift_res_def zoom_def

subsection \<open>Weakest preconditions of the combinators\<close>

lemma wp_return [wp_simps]: "wp (return x) Q E = Q x"
  by (simp add: fun_eq_iff wp_def return_def)

lemma wp_throw [wp_simps]: "wp (throw e) Q E = E e"
  by (simp add: fun_eq_iff wp_def throw_def)

lemma wp_bind [wp_simps]: "wp (bind m f) Q E = wp m (\<lambda>x. wp (f x) Q E) E"
  by (simp add: fun_eq_iff wp_def bind_def split: prod.splits sum.splits)

lemma wp_seq [wp_simps]: "wp (seq m k) Q E = wp m (\<lambda>_. wp k Q E) E"
  by (simp add: fun_eq_iff seq_def wp_bind)

lemma wp_gets [wp_simps]: "wp (gets f) Q E = (\<lambda>s. Q (f s) s)"
  by (simp add: fun_eq_iff wp_def gets_def)

lemma wp_modify [wp_simps]: "wp (modify f) Q E = (\<lambda>s. Q () (f s))"
  by (simp add: fun_eq_iff wp_def modify_def)

lemma wp_lift_res [wp_simps]:
  "wp (lift_res r) Q E = (\<lambda>s. case r of Inl e \<Rightarrow> E e s | Inr x \<Rightarrow> Q x s)"
  by (simp add: fun_eq_iff wp_def lift_res_def)

lemma wp_throw_if [wp_simps]: "wp (throw_if c e) Q E = (\<lambda>s. if c then E e s else Q () s)"
  by (simp add: fun_eq_iff throw_if_def wp_throw wp_return)

lemma wp_perform_if [wp_simps]: "wp (perform_if c m) Q E = (\<lambda>s. if c then wp m Q E s else Q () s)"
  by (simp add: fun_eq_iff perform_if_def wp_return)

lemma wp_zoom [wp_simps]:
  "wp (zoom get put m) Q E = (\<lambda>w. wp m (\<lambda>x s. Q x (put s w)) (\<lambda>e s. E e (put s w)) (get w))"
  by (simp add: fun_eq_iff wp_def zoom_def split: prod.splits sum.splits)

lemma wp_try_catch [wp_simps]:
  "wp (try_catch m h) Q E = wp m Q (\<lambda>e. wp (h e) Q E)"
  by (simp add: fun_eq_iff wp_def try_catch_def split: prod.splits sum.splits)

lemma wp_if [wp_simps]:
  "wp (if c then m else k) Q E = (\<lambda>s. if c then wp m Q E s else wp k Q E s)"
  by simp

lemma wp_for_each_Nil [wp_simps]: "wp (for_each f []) Q E = Q ()"
  by (simp add: fun_eq_iff wp_return)

lemma wp_for_each_Cons [wp_simps]:
  "wp (for_each f (x # xs)) Q E = wp (f x) (\<lambda>_. wp (for_each f xs) Q E) E"
  by (simp add: fun_eq_iff wp_seq)

lemma wp_mono:
  assumes "wp m Q E s" and "\<And>x t. Q x t \<Longrightarrow> Q' x t" and "\<And>e t. E e t \<Longrightarrow> E' e t"
  shows "wp m Q' E' s"
  using assms by (auto simp: wp_def split: prod.splits sum.splits)

lemma wp_conj:
  "wp m Q E s \<Longrightarrow> wp m Q' E' s \<Longrightarrow> wp m (\<lambda>x t. Q x t \<and> Q' x t) (\<lambda>e t. E e t \<and> E' e t) s"
  by (auto simp: wp_def split: prod.splits sum.splits)

lemma wp_True [simp]: "wp m (\<lambda>_ _. True) (\<lambda>_ _. True) s"
  by (simp add: wp_def split: prod.splits sum.splits)

lemma wp_normal: "wp m Q E s \<Longrightarrow> m s = (Inr x, t) \<Longrightarrow> Q x t"
  by (simp add: wp_def)

lemma wp_exn: "wp m Q E s \<Longrightarrow> m s = (Inl e, t) \<Longrightarrow> E e t"
  by (simp add: wp_def)

lemma wpI:
  assumes "\<And>x t. m s = (Inr x, t) \<Longrightarrow> Q x t" and "\<And>e t. m s = (Inl e, t) \<Longrightarrow> E e t"
  shows "wp m Q E s"
  using assms by (simp add: wp_def split: prod.splits sum.splits)

text \<open>A loop over a list keeps what its body keeps.\<close>

lemma wp_option:
  "(\<And>x. v = Some x \<Longrightarrow> wp (f x) Q E w) \<Longrightarrow> (v = None \<Longrightarrow> wp m Q E w) \<Longrightarrow> wp (case v of None \<Rightarrow> m | Some x \<Rightarrow> f x) Q E w"
  by (cases v) simp_all

lemma wp_guard:
  "(\<not> c \<Longrightarrow> wp k Q (\<lambda>_ _. True) w) \<Longrightarrow> wp (seq (throw_if c e) k) Q (\<lambda>_ _. True) w"
  by (simp add: wp_seq wp_throw_if)

lemma wp_for_each_inv:
  assumes "\<And>x t. x \<in> set xs \<Longrightarrow> I t \<Longrightarrow> wp (f x) (\<lambda>_. I) E t" and "I s"
  shows "wp (for_each f xs) (\<lambda>_. I) E s"
  using assms
proof (induction xs arbitrary: s)
  case Nil
  then show ?case by (simp add: wp_return)
next
  case (Cons x xs)
  have "wp (f x) (\<lambda>_. I) E s" using Cons.prems by simp
  then have "wp (f x) (\<lambda>_. wp (for_each f xs) (\<lambda>_. I) E) E s"
    by (rule wp_mono) (use Cons in \<open>auto intro!: Cons.IH\<close>)
  then show ?case by (simp add: wp_seq)
qed

text \<open>A loop whose body decreases a measure, or throws, ends.\<close>

lemma wp_while_prog:
  assumes "I s"
    and step: "\<And>t. I t \<Longrightarrow> c t \<Longrightarrow> wp body (\<lambda>_ u. I u \<and> (f u :: nat) < f t) E t"
    and exit: "\<And>t. I t \<Longrightarrow> \<not> c t \<Longrightarrow> Q () t"
  shows "wp (while_prog c body) Q E s"
proof -
  let ?P = "\<lambda>(r, t). case r of Inl e \<Rightarrow> E e t | Inr (_ :: unit) \<Rightarrow> I t"
  let ?m = "\<lambda>(r :: exn + unit, t). case r of Inl e \<Rightarrow> 0 | Inr _ \<Rightarrow> Suc (f t)"
  have "(\<lambda>(r, t). case r of Inl e \<Rightarrow> E e t | Inr x \<Rightarrow> Q x t)
      (while (\<lambda>(r, t). r = Inr () \<and> c t) (\<lambda>(r, t). body t) (Inr (), s))"
  proof (rule while_rule [where P = ?P and r = "measure ?m"])
    show "?P (Inr (), s)" using assms(1) by simp
    fix rt :: "(exn + unit) \<times> 'a"
    assume rt: "?P rt"
    obtain r t where [simp]: "rt = (r, t)" by (cases rt)
    {
      assume "case rt of (r, t) \<Rightarrow> r = Inr () \<and> c t"
      with rt step [of t] have "wp body (\<lambda>_ u. I u \<and> f u < f t) E t" and "r = Inr ()" by auto
      then show "?P (case rt of (r, t) \<Rightarrow> body t)"
        and "((case rt of (r, t) \<Rightarrow> body t), rt) \<in> measure ?m"
        by (auto simp: wp_def split: prod.splits sum.splits)
    }
    {
      assume "\<not> (case rt of (r, t) \<Rightarrow> r = Inr () \<and> c t)"
      with rt exit [of t] show "case rt of (r, t) \<Rightarrow> case r of Inl e \<Rightarrow> E e t | Inr x \<Rightarrow> Q x t"
        by (cases r) auto
    }
  qed simp
  then show ?thesis by (simp add: wp_def while_prog_def case_prod_beta)
qed

lemma while_prog_unfold:
  "while_prog c body s = (if c s then seq body (while_prog c body) s else (Inr (), s))"
proof (cases "c s")
  case False
  then show ?thesis by (simp add: while_prog_def while_unfold)
next
  case True
  let ?w = "while (\<lambda>(r, s). r = Inr () \<and> c s) (\<lambda>(r :: exn + unit, s). body s)"
  have step: "?w (Inr (), s) = ?w (body s)"
    using True by (subst while_unfold) simp
  obtain r t where rt: "body s = (r, t)" by (cases "body s")
  show ?thesis
  proof (cases r)
    case (Inl e)
    have "?w (Inl e, t) = (Inl e, t)" by (subst while_unfold) simp
    with True step rt Inl show ?thesis by (simp add: while_prog_def seq_def bind_def)
  next
    case (Inr u)
    with True step rt show ?thesis by (simp add: while_prog_def seq_def bind_def)
  qed
qed

lemma bindR_Inr [simp]: "bindR (Inr x) f = f x"
  by (simp add: bindR_def)

lemma bindR_Inl [simp]: "bindR (Inl e) f = Inl e"
  by (simp add: bindR_def)

lemma bindR_assoc [simp]: "bindR (bindR r f) g = bindR r (\<lambda>x. bindR (f x) g)"
  by (cases r) simp_all

lemma bindR_eq_Inr: "bindR r f = Inr y \<longleftrightarrow> (\<exists>x. r = Inr x \<and> f x = Inr y)"
  by (cases r) auto

subsection \<open>Ordered maps\<close>

lemma map_of_omap_put [simp]: "map_of (omap_put k v m) = (map_of m)(k \<mapsto> v)"
  by (induction k v m rule: omap_put.induct) (auto simp: fun_eq_iff)

lemma map_of_omap_erase [simp]: "map_of (omap_erase k m) = (map_of m)(k := None)"
  by (induction m) (auto simp: omap_erase_def fun_eq_iff)

lemma keys_omap_put [simp]: "fst ` set (omap_put k v m) = insert k (fst ` set m)"
  by (induction k v m rule: omap_put.induct) auto

lemma omap_ok_Nil [simp]: "omap_ok []"
  by (simp add: omap_ok_def)

lemma omap_ok_put [simp]: "omap_ok m \<Longrightarrow> omap_ok (omap_put k v m)"
proof (induction k v m rule: omap_put.induct)
  case (1 k v)
  then show ?case by (simp add: omap_ok_def)
next
  case (2 k v k' v' m)
  have keys: "x \<in> set (map fst (omap_put k v m)) \<longleftrightarrow> x = k \<or> x \<in> set (map fst m)" for x
    using keys_omap_put [of k v m] by (auto simp del: keys_omap_put)
  from "2" show ?case by (auto simp: omap_ok_def keys simp del: set_map)
qed

lemma omap_ok_erase [simp]: "omap_ok m \<Longrightarrow> omap_ok (omap_erase k m)"
  by (induction m) (auto simp: omap_ok_def omap_erase_def)

lemma omap_ok_distinct: "omap_ok m \<Longrightarrow> distinct (map fst m)"
  by (simp add: omap_ok_def strict_sorted_iff)

lemma length_omap_put:
  "omap_ok m \<Longrightarrow> length (omap_put k v m) = (if map_of m k = None then Suc (length m) else length m)"
proof (induction k v m rule: omap_put.induct)
  case (2 k v k' v' m)
  then show ?case by (auto simp: omap_ok_def map_of_eq_None_iff)
qed simp

lemma omap_erase_absent: "map_of m k = None \<Longrightarrow> omap_erase k m = m"
  by (force simp: omap_erase_def map_of_eq_None_iff filter_id_conv)

lemma omap_put_twice [simp]: "omap_put k v (omap_put k u m) = omap_put k v m"
  by (induction k u m rule: omap_put.induct) auto

lemma sum_omap_put:
  assumes "omap_ok m" and "map_of m k = Some u"
  shows "sum_list (map (f \<circ> snd) (omap_put k v m)) + f u = sum_list (map (f \<circ> snd) m) + (f v :: nat)"
  using assms
proof (induction k v m rule: omap_put.induct)
  case (2 k v k' v' m)
  have lt: "k' < x" if "x \<in> fst ` set m" for x using "2.prems"(1) that by (auto simp: omap_ok_def)
  have "k \<in> fst ` set m" if "k \<noteq> k'" using "2.prems"(2) that by (auto simp: dest: map_of_SomeD intro: rev_image_eqI)
  with lt have "k = k' \<or> k' < k" by blast
  with "2" show ?case by (auto simp: omap_ok_def)
qed simp

lemma set_omap_put: "set (omap_put k v m) \<subseteq> insert (k, v) (set m)"
  by (induction k v m rule: omap_put.induct) auto

lemma sum_update:
  fixes f g :: "'a \<Rightarrow> nat"
  assumes "finite A" and "i \<in> A" and "\<And>j. j \<noteq> i \<Longrightarrow> g j = f j"
  shows "sum g A + f i = sum f A + g i"
proof -
  have "sum g (A - {i}) = sum f (A - {i})" by (rule sum.cong) (use assms(3) in auto)
  then show ?thesis using sum.remove [OF assms(1,2), of f] sum.remove [OF assms(1,2), of g] by simp
qed

end
