(* ===== verification/Time_Ids.thy ===== *)
theory Time_Ids
  imports Prelude
begin

text \<open>
  Simulated time (\<^verbatim>\<open>sim/time.hpp\<close>) and the identifier generators (\<^verbatim>\<open>sim/event_id.hpp\<close>,
  \<^verbatim>\<open>topology/id.hpp\<close>, \<^verbatim>\<open>transport/types.hpp\<close>). The strong integer wrappers of the sources
  (\<^verbatim>\<open>SimTimeNs\<close>, \<^verbatim>\<open>SimDurationNs\<close>, \<^verbatim>\<open>EventId\<close>, \<^verbatim>\<open>StrongId\<close>, \<^verbatim>\<open>StrongUnsigned\<close>) hold one
  64-bit value each and are named by type synonyms. The three generator classes share one contract,
  the locale \<open>id_source\<close>, which each of them is shown to meet.
\<close>

section \<open>Types\<close>

type_synonym sim_time = u64
type_synonym sim_duration = u64
type_synonym event_id = u64
type_synonym gpu_id = u64
type_synonym nic_id = u64
type_synonym switch_id = u64
type_synonym rack_id = u64
type_synonym port_id = u64
type_synonym link_id = u64
type_synonym transfer_id = u64
type_synonym chunk_id = u64
type_synonym job_id = u64
type_synonym collective_id = u64

section \<open>Checked time arithmetic\<close>

datatype sim_time_unit = Nanoseconds | Microseconds | Milliseconds | Seconds

definition checked_duration_from :: "u64 \<Rightarrow> sim_time_unit \<Rightarrow> sim_duration option" where
  "checked_duration_from cnt unit =
     (let multiplier = (case unit of
            Nanoseconds \<Rightarrow> 1
          | Microseconds \<Rightarrow> 1000
          | Milliseconds \<Rightarrow> 1000000
          | Seconds \<Rightarrow> 1000000000)
      in if multiplier = 0 \<or> cnt > u64_max div multiplier then None
         else Some (cnt * multiplier))"

definition checked_add :: "sim_time \<Rightarrow> sim_duration \<Rightarrow> sim_time option" where
  "checked_add time duration =
     (if duration > u64_max - time then None else Some (time + duration))"

definition checked_difference :: "sim_time \<Rightarrow> sim_time \<Rightarrow> sim_duration option" where
  "checked_difference end begin = (if end < begin then None else Some (end - begin))"

section \<open>Identifier generators\<close>

record id_generator =
  next_value :: u64
  exhausted :: bool

definition new_id_generator :: "u64 \<Rightarrow> id_generator" where
  "new_id_generator v = \<lparr>next_value = v, exhausted = False\<rparr>"

text \<open>The step the three \<^verbatim>\<open>next()\<close> members share after their exhaustion test.\<close>

definition issue_id :: "id_generator \<Rightarrow> id_generator" where
  "issue_id g =
     (if next_value g = u64_max then g\<lparr>exhausted := True\<rparr>
      else g\<lparr>next_value := next_value g + 1\<rparr>)"

definition event_id_next :: "(id_generator, event_id) prog" where
  "event_id_next =
     bind (gets exhausted) (\<lambda>ex.
     seq (throw_if ex (OverflowError ''event ID sequence exhausted''))
     (bind (gets next_value) (\<lambda>result.
      seq (modify issue_id) (return result))))"

definition topology_id_next :: "(id_generator, u64) prog" where
  "topology_id_next =
     bind (gets exhausted) (\<lambda>ex.
     seq (throw_if ex (OverflowError ''topology ID sequence exhausted''))
     (bind (gets next_value) (\<lambda>result.
      seq (modify issue_id) (return result))))"

definition can_generate :: "u64 \<Rightarrow> id_generator \<Rightarrow> bool" where
  "can_generate cnt g =
     (if cnt = 0 then True
      else if exhausted g then False
      else cnt - 1 \<le> u64_max - next_value g)"

definition transport_id_next :: "(id_generator, u64) prog" where
  "transport_id_next =
     bind (gets (can_generate 1)) (\<lambda>ok.
     seq (throw_if (\<not> ok) (OverflowError ''transport ID sequence exhausted''))
     (bind (gets next_value) (\<lambda>result.
      seq (modify issue_id) (return result))))"

definition advance_past :: "u64 \<Rightarrow> id_generator \<Rightarrow> id_generator" where
  "advance_past i g =
     (if exhausted g \<or> i < next_value g then g
      else if i = u64_max then g\<lparr>exhausted := True\<rparr>
      else g\<lparr>next_value := i + 1\<rparr>)"

text \<open>How many identifiers a generator has issued or skipped: the least one it may still issue.\<close>

definition id_position :: "id_generator \<Rightarrow> nat" where
  "id_position g = (if exhausted g then 2 ^ 64 else unat (next_value g))"

section \<open>The contract of an identifier source\<close>

locale id_source =
  fixes next_id :: "('g, u64) prog"
    and position :: "'g \<Rightarrow> nat"
  assumes position_bound: "position g \<le> 2 ^ 64"
    and next_issues: "position g < 2 ^ 64 \<Longrightarrow>
      \<exists>g'. next_id g = (Inr (of_nat (position g)), g') \<and> position g' = Suc (position g)"
    and next_exhausted: "position g = 2 ^ 64 \<Longrightarrow> \<exists>m. next_id g = (Inl (OverflowError m), g)"
begin

lemma next_id_value:
  assumes "next_id g = (Inr i, g')"
  shows "unat i = position g \<and> position g' = Suc (position g)"
proof -
  have "position g \<noteq> 2 ^ 64" using assms next_exhausted [of g] by auto
  then have lt: "position g < 2 ^ 64" using position_bound [of g] by simp
  with next_issues [of g] assms show ?thesis by (auto simp: unat_of_nat take_bit_nat_eq_self)
qed

lemma next_id_fails_iff: "(\<exists>e g'. next_id g = (Inl e, g')) \<longleftrightarrow> position g = 2 ^ 64"
  using position_bound [of g] next_issues [of g] next_exhausted [of g] by fastforce

lemma repeat_next_id:
  assumes "position g + n \<le> 2 ^ 64"
  shows "\<exists>g'. repeat_prog n next_id g = (Inr (map of_nat [position g..<position g + n]), g')
              \<and> position g' = position g + n"
  using assms
proof (induction n arbitrary: g)
  case 0
  then show ?case by (simp add: return_def)
next
  case (Suc n)
  then obtain g1 where g1: "next_id g = (Inr (of_nat (position g)), g1)"
      and pos: "position g1 = Suc (position g)"
    using next_issues [of g] by auto
  with Suc.prems have "position g1 + n \<le> 2 ^ 64" by simp
  from Suc.IH [OF this] obtain g' where
    "repeat_prog n next_id g1 = (Inr (map of_nat [position g1..<position g1 + n]), g')"
    "position g' = position g1 + n" by blast
  with g1 pos show ?case
    by (simp add: bind_def return_def upt_conv_Cons [of "position g"] del: upt_Suc)
qed

lemma repeat_next_id_distinct:
  assumes "repeat_prog n next_id g = (Inr ids, g')" and "position g + n \<le> 2 ^ 64"
  shows "distinct ids \<and> length ids = n"
proof -
  from repeat_next_id [OF assms(2)] assms(1)
  have ids: "ids = map of_nat [position g..<position g + n]" by auto
  have "inj_on (of_nat :: nat \<Rightarrow> u64) {position g..<position g + n}"
    using assms(2) by (intro inj_onI) (auto simp: of_nat_eq_iff word_of_nat_eq_iff take_bit_nat_eq_self)
  then show ?thesis by (simp add: ids distinct_map)
qed

end

section \<open>Lemmas\<close>

lemma checked_add_Some_iff:
  "checked_add t d = Some r \<longleftrightarrow> unat t + unat d < 2 ^ 64 \<and> r = t + d"
  by (auto simp: checked_add_def max_minus_less_iff not_less)

lemma checked_add_unat: "checked_add t d = Some r \<Longrightarrow> unat r = unat t + unat d"
  by (auto simp: checked_add_Some_iff unat_plus_no_overflow)

lemma checked_add_le: "checked_add t d = Some r \<Longrightarrow> t \<le> r"
  by (auto simp: checked_add_unat word_le_nat_alt)

lemma checked_difference_Some_iff:
  "checked_difference e b = Some r \<longleftrightarrow> b \<le> e \<and> r = e - b"
  by (auto simp: checked_difference_def)

lemma checked_difference_unat:
  "checked_difference e b = Some r \<Longrightarrow> unat r = unat e - unat b"
  by (auto simp: checked_difference_Some_iff unat_sub)

lemma id_position_issue:
  "\<not> exhausted g \<Longrightarrow> id_position (issue_id g) = Suc (id_position g)"
proof -
  assume "\<not> exhausted g"
  moreover have "unat (next_value g + 1) = Suc (unat (next_value g))" if "next_value g \<noteq> u64_max"
    using that by (simp add: unatSuc add.commute add_eq_0_iff)
  ultimately show ?thesis
    by (auto simp: id_position_def issue_id_def unsigned_minus_1_eq_mask mask_eq_exp_minus_1)
qed

lemma id_position_bound: "id_position g \<le> 2 ^ 64"
  using unat_u64_bound [of "next_value g"] by (simp add: id_position_def)

lemma can_generate_iff: "can_generate n g \<longleftrightarrow> id_position g + unat n \<le> 2 ^ 64"
proof (cases "n = 0 \<or> exhausted g")
  case True
  moreover have "0 < unat n" if "n \<noteq> 0" using that by (simp add: unat_gt_0)
  ultimately show ?thesis using id_position_bound [of g] by (auto simp: can_generate_def id_position_def)
next
  case False
  then have n: "unat (n - 1) = unat n - 1" and pos: "0 < unat n"
    by (auto simp: unat_minus_one unat_gt_0)
  from False have "can_generate n g \<longleftrightarrow> unat (next_value g) + (unat n - 1) < 2 ^ 64"
    by (simp add: can_generate_def le_max_minus_iff n)
  with False pos show ?thesis by (simp add: id_position_def) linarith
qed

lemma event_id_next_eq:
  "event_id_next g =
     (if exhausted g then (Inl (OverflowError ''event ID sequence exhausted''), g)
      else (Inr (next_value g), issue_id g))"
  by (simp add: event_id_next_def prog_defs)

lemma topology_id_next_eq:
  "topology_id_next g =
     (if exhausted g then (Inl (OverflowError ''topology ID sequence exhausted''), g)
      else (Inr (next_value g), issue_id g))"
  by (simp add: topology_id_next_def prog_defs)

lemma transport_id_next_eq:
  "transport_id_next g =
     (if exhausted g then (Inl (OverflowError ''transport ID sequence exhausted''), g)
      else (Inr (next_value g), issue_id g))"
  by (simp add: transport_id_next_def prog_defs can_generate_def)

text \<open>A generator whose \<open>next\<close> has this shape meets the contract.\<close>

lemma id_source_intro:
  assumes "\<And>g. nxt g = (if exhausted g then (Inl (OverflowError m), g)
                        else (Inr (next_value g), issue_id g))"
  shows "id_source nxt id_position"
proof
  fix g :: id_generator
  show "id_position g \<le> 2 ^ 64" by (rule id_position_bound)
  have ex: "exhausted g \<longleftrightarrow> id_position g = 2 ^ 64"
    using unat_u64_bound [of "next_value g"] by (auto simp: id_position_def)
  show "\<exists>g'. nxt g = (Inr (of_nat (id_position g)), g') \<and> id_position g' = Suc (id_position g)"
    if "id_position g < 2 ^ 64"
  proof -
    from that ex have ok: "\<not> exhausted g" by simp
    then have "of_nat (id_position g) = next_value g" by (simp add: id_position_def)
    then show ?thesis using ok id_position_issue [OF ok] assms [of g] by simp
  qed
  show "\<exists>m. nxt g = (Inl (OverflowError m), g)" if "id_position g = 2 ^ 64"
    using that ex by (simp add: assms)
qed

interpretation event_ids: id_source event_id_next id_position
  by (rule id_source_intro) (rule event_id_next_eq)

interpretation topology_ids: id_source topology_id_next id_position
  by (rule id_source_intro) (rule topology_id_next_eq)

interpretation transport_ids: id_source transport_id_next id_position
  by (rule id_source_intro) (rule transport_id_next_eq)

lemma id_position_advance_past:
  "id_position (advance_past i g) = max (id_position g) (Suc (unat i))"
proof -
  consider "exhausted g" | "\<not> exhausted g" "i < next_value g"
    | "\<not> exhausted g" "\<not> i < next_value g" "i = u64_max"
    | "\<not> exhausted g" "\<not> i < next_value g" "i \<noteq> u64_max" by blast
  then show ?thesis
  proof cases
    case 1
    have "Suc (unat i) \<le> 2 ^ 64" using unat_u64_bound [of i] by simp
    with 1 show ?thesis by (simp add: advance_past_def id_position_def)
  next
    case 2
    then show ?thesis by (simp add: advance_past_def id_position_def word_less_nat_alt)
  next
    case 3
    then have "unat i = 2 ^ 64 - 1" by (simp add: unsigned_minus_1_eq_mask mask_eq_exp_minus_1)
    moreover have "unat (next_value g) \<le> 2 ^ 64" using unat_u64_bound [of "next_value g"] by simp
    ultimately show ?thesis using 3 by (simp add: advance_past_def id_position_def)
  next
    case 4
    then have "unat (i + 1) = Suc (unat i)" by (simp add: unatSuc add.commute add_eq_0_iff)
    with 4 show ?thesis by (simp add: advance_past_def id_position_def word_less_nat_alt max_def)
  qed
qed

text \<open>Past the end of the sequence every further request throws.\<close>

lemma repeat_next_id_throws:
  assumes eq: "\<And>g. nxt g = (if exhausted g then (Inl (OverflowError m), g)
                            else (Inr (next_value g), issue_id g))"
    and "2 ^ 64 < id_position g + n"
  shows "\<exists>g'. repeat_prog n nxt g = (Inl (OverflowError m), g')"
  using assms(2)
proof (induction n arbitrary: g)
  case 0
  then show ?case using id_position_bound [of g] by simp
next
  case (Suc n)
  show ?case
  proof (cases "exhausted g")
    case True
    then show ?thesis by (simp add: eq bind_def)
  next
    case False
    then have "2 ^ 64 < id_position (issue_id g) + n"
      using Suc.prems by (simp add: id_position_issue)
    from Suc.IH [OF this] False show ?thesis by (auto simp: eq bind_def)
  qed
qed

section \<open>Properties\<close>

text \<open>\<^verbatim>\<open>TransportIdGenerator::can_generate\<close> is exact: it answers true precisely when the next
  \<open>n\<close> calls of \<^verbatim>\<open>next\<close> all succeed, and then they issue \<open>n\<close> distinct consecutive identifiers; when
  it answers false, one of the \<open>n\<close> calls throws \<^verbatim>\<open>overflow_error\<close> (the sequence never wraps).\<close>

theorem can_generate_exact:
  "if can_generate n g
   then \<exists>ids g'. repeat_prog (unat n) transport_id_next g = (Inr ids, g')
          \<and> ids = map of_nat [id_position g..<id_position g + unat n] \<and> distinct ids
          \<and> id_position g' = id_position g + unat n
   else \<exists>g'. repeat_prog (unat n) transport_id_next g
          = (Inl (OverflowError ''transport ID sequence exhausted''), g')"
proof (cases "can_generate n g")
  case True
  then have pos: "id_position g + unat n \<le> 2 ^ 64" by (simp add: can_generate_iff)
  from transport_ids.repeat_next_id [OF pos] obtain g' where
    "repeat_prog (unat n) transport_id_next g
       = (Inr (map of_nat [id_position g..<id_position g + unat n]), g')"
    "id_position g' = id_position g + unat n" by blast
  with transport_ids.repeat_next_id_distinct [OF _ pos] True show ?thesis by simp
next
  case False
  then have "2 ^ 64 < id_position g + unat n" by (simp add: can_generate_iff not_le)
  from repeat_next_id_throws [OF transport_id_next_eq this] False show ?thesis by simp
qed

end
