(* ===== verification/Entities.thy ===== *)
theory Entities
  imports Time_Ids
begin

text \<open>
  The entities of a cluster (\<^verbatim>\<open>topology/entities.hpp\<close>, \<^verbatim>\<open>topology/entities.cpp\<close>): enumerations,
  node and directed-link identifiers with their ordering, and the structs of the topology graph.
  An enumeration ranges over its enumerators, so the \<^verbatim>\<open>default\<close> branches that reject values
  outside of them have no counterpart here.
\<close>

section \<open>Enumerations\<close>

datatype node_kind = Gpu | Nic | Switch

datatype switch_role = Leaf | Spine

datatype port_role = Local | FabricDownlink | FabricUplink

datatype link_kind = LocalAttachment | Fabric

datatype operational_state = Up | Down

datatype link_direction = AToB | BToA

primrec node_kind_code :: "node_kind \<Rightarrow> u64" where
  "node_kind_code Gpu = 1"
| "node_kind_code Nic = 2"
| "node_kind_code Switch = 3"

primrec link_direction_code :: "link_direction \<Rightarrow> u64" where
  "link_direction_code AToB = 1"
| "link_direction_code BToA = 2"

section \<open>Identifiers\<close>

datatype node_id = NodeId (kind: node_kind) (node_value: u64)

datatype directed_link_id = DirectedLinkId (dl_link: link_id) (dl_direction: link_direction)

text \<open>The defaulted three-way comparison is lexicographic in declaration order.\<close>

definition node_key :: "node_id \<Rightarrow> u64 \<times> u64" where
  "node_key n = (node_kind_code (kind n), node_value n)"

definition directed_link_key :: "directed_link_id \<Rightarrow> u64 \<times> u64" where
  "directed_link_key d = (dl_link d, link_direction_code (dl_direction d))"

lemma node_key_eq_iff: "node_key a = node_key b \<longleftrightarrow> a = b"
  by (cases a; cases b; cases "kind a"; cases "kind b") (auto simp: node_key_def)

lemma directed_link_key_eq_iff: "directed_link_key a = directed_link_key b \<longleftrightarrow> a = b"
  by (cases a; cases b; cases "dl_direction a"; cases "dl_direction b")
    (auto simp: directed_link_key_def)

instantiation node_id :: linorder
begin

definition less_eq_node_id :: "node_id \<Rightarrow> node_id \<Rightarrow> bool" where
  "a \<le> b \<longleftrightarrow> node_key a \<le> node_key b"

definition less_node_id :: "node_id \<Rightarrow> node_id \<Rightarrow> bool" where
  "a < b \<longleftrightarrow> node_key a < node_key b"

instance
  by standard (auto simp: less_eq_node_id_def less_node_id_def node_key_eq_iff [symmetric])

end

instantiation directed_link_id :: linorder
begin

definition less_eq_directed_link_id :: "directed_link_id \<Rightarrow> directed_link_id \<Rightarrow> bool" where
  "a \<le> b \<longleftrightarrow> directed_link_key a \<le> directed_link_key b"

definition less_directed_link_id :: "directed_link_id \<Rightarrow> directed_link_id \<Rightarrow> bool" where
  "a < b \<longleftrightarrow> directed_link_key a < directed_link_key b"

instance
  by standard (auto simp: less_eq_directed_link_id_def less_directed_link_id_def
      directed_link_key_eq_iff [symmetric])

end

section \<open>Structs\<close>

record gpu_worker =
  gpu_id :: gpu_id
  gpu_rack :: rack_id
  attached_nic :: nic_id
  gpu_port :: port_id

record nic =
  nic_id :: nic_id
  nic_rack :: rack_id
  attached_gpus :: "gpu_id list"
  nic_ports :: "port_id list"

record switch =
  switch_id :: switch_id
  switch_rack :: "rack_id option"
  switch_role :: switch_role
  switch_ports :: "port_id list"
  switch_state :: operational_state

record rack =
  rack_id :: rack_id
  rack_gpus :: "gpu_id list"
  rack_nics :: "nic_id list"
  leaf_switches :: "switch_id list"

record port =
  port_id :: port_id
  port_owner :: node_id
  port_role :: port_role
  port_state :: operational_state

record physical_link =
  link_id :: link_id
  endpoint_a :: port_id
  endpoint_b :: port_id
  link_kind :: link_kind
  link_state :: operational_state

record directed_link =
  arc_id :: directed_link_id
  arc_source :: port_id
  arc_destination :: port_id

definition directed_link_a_to_b :: "physical_link \<Rightarrow> directed_link" where
  "directed_link_a_to_b l =
     \<lparr>arc_id = DirectedLinkId (link_id l) AToB, arc_source = endpoint_a l,
      arc_destination = endpoint_b l\<rparr>"

definition directed_link_b_to_a :: "physical_link \<Rightarrow> directed_link" where
  "directed_link_b_to_a l =
     \<lparr>arc_id = DirectedLinkId (link_id l) BToA, arc_source = endpoint_b l,
      arc_destination = endpoint_a l\<rparr>"

definition directed_links :: "physical_link \<Rightarrow> directed_link list" where
  "directed_links l = [directed_link_a_to_b l, directed_link_b_to_a l]"

end
