(* ===== verification/Metrics.thy ===== *)
theory Metrics
  imports Entities
begin

unbundle bit_operations_syntax

text \<open>
  Telemetry metrics (\<^verbatim>\<open>telemetry/metrics.hpp\<close>, \<^verbatim>\<open>telemetry/metrics.cpp\<close>): modes and limits, metric
  labels, the static catalog of metric definitions and its validation, and the registry of metric
  series (counters, gauges and histograms). Metric identifiers and labels are kept as their 8-bit
  enumeration values, so that the checks against unknown values stay meaningful.
\<close>

section \<open>Modes, limits and names\<close>

datatype telemetry_mode = ModeOff | ModeSummary | ModeSampled | ModeFull

record telemetry_limits =
  metric_series :: size_t
  decision_records :: size_t
  domain_records :: size_t
  max_samples :: size_t
  histogram_boundaries :: size_t
  correlation_edges :: size_t
  serialized_bytes :: u64

record telemetry_configuration =
  mode :: telemetry_mode
  sample_interval_ns :: u64
  limits :: telemetry_limits

primrec mode_name :: "telemetry_mode \<Rightarrow> string" where
  "mode_name ModeOff = ''off''"
| "mode_name ModeSummary = ''summary''"
| "mode_name ModeSampled = ''sampled''"
| "mode_name ModeFull = ''full''"

definition parse_mode :: "string \<Rightarrow> exn + telemetry_mode" where
  "parse_mode m =
     (if m = ''off'' then Inr ModeOff
      else if m = ''summary'' then Inr ModeSummary
      else if m = ''sampled'' then Inr ModeSampled
      else if m = ''full'' then Inr ModeFull
      else Inl (InvalidArgument ''unknown telemetry mode''))"

datatype metric_kind = KindCounter | KindGauge | KindHistogram | KindDerivedSummary

datatype metric_unit =
  UnitCount | UnitBytes | UnitChunks | UnitNanoseconds | UnitBitsPerSecond | UnitRatioPartsPerMillion

primrec kind_name :: "metric_kind \<Rightarrow> string" where
  "kind_name KindCounter = ''counter''"
| "kind_name KindGauge = ''gauge''"
| "kind_name KindHistogram = ''histogram''"
| "kind_name KindDerivedSummary = ''derived_summary''"

primrec unit_name :: "metric_unit \<Rightarrow> string" where
  "unit_name UnitCount = ''count''"
| "unit_name UnitBytes = ''bytes''"
| "unit_name UnitChunks = ''chunks''"
| "unit_name UnitNanoseconds = ''nanoseconds''"
| "unit_name UnitBitsPerSecond = ''bits_per_second''"
| "unit_name UnitRatioPartsPerMillion = ''ratio_parts_per_million''"

definition policy_label_value :: "string \<Rightarrow> u64" where
  "policy_label_value policy =
     (if policy = ''ecmp'' then 1
      else if policy = ''shortest-path'' then 2
      else if policy = ''least-loaded'' then 3
      else if policy = ''queue-aware'' then 4
      else if policy = ''first-fit'' then 10
      else if policy = ''random'' then 11
      else if policy = ''rack-local'' then 12
      else if policy = ''compact'' then 13
      else 1000)"

section \<open>Labels\<close>

type_synonym metric_label = u8
type_synonym label_mask = u32
type_synonym metric_labels = "(metric_label \<times> u64) list"

abbreviation LabelJob :: metric_label where "LabelJob \<equiv> 1"

abbreviation LabelCollective :: metric_label where "LabelCollective \<equiv> 2"

abbreviation LabelLink :: metric_label where "LabelLink \<equiv> 3"

abbreviation LabelDirection :: metric_label where "LabelDirection \<equiv> 4"

abbreviation LabelPolicy :: metric_label where "LabelPolicy \<equiv> 5"

abbreviation LabelOutcome :: metric_label where "LabelOutcome \<equiv> 6"

abbreviation LabelReason :: metric_label where "LabelReason \<equiv> 7"

abbreviation LabelFailure :: metric_label where "LabelFailure \<equiv> 8"

abbreviation LabelResource :: metric_label where "LabelResource \<equiv> 9"

definition label_mask :: "metric_label \<Rightarrow> label_mask" where
  "label_mask value =
     (if value < LabelJob \<or> value > LabelResource then 0 else push_bit (unat (value - 1)) 1)"

fun adjacent_duplicate :: "metric_labels \<Rightarrow> bool" where
  "adjacent_duplicate (x # y # zs) = (fst x = fst y \<or> adjacent_duplicate (y # zs))"
| "adjacent_duplicate _ = False"

definition make_labels :: "(metric_label \<times> u64) list \<Rightarrow> exn + metric_labels" where
  "make_labels values =
     (if length values > 4 then Inl (LengthError ''telemetry metric label limit exceeded'')
      else if list_ex (\<lambda>v. label_mask (fst v) = 0) values
      then Inl (InvalidArgument ''unknown telemetry metric label'')
      else let sorted_values = sort values
           in if adjacent_duplicate sorted_values
              then Inl (InvalidArgument ''duplicate telemetry metric label'')
              else Inr sorted_values)"

definition labels_mask :: "metric_labels \<Rightarrow> label_mask" where
  "labels_mask ls = fold (\<lambda>v m. m OR label_mask (fst v)) ls 0"

section \<open>The catalog\<close>

type_synonym metric_id = u8

abbreviation MetricSimulationDispatchedEvents :: metric_id where
  "MetricSimulationDispatchedEvents \<equiv> 1"

abbreviation MetricSimulationCancelledEvents :: metric_id where
  "MetricSimulationCancelledEvents \<equiv> 2"

abbreviation MetricSimulationFinalTimeNs :: metric_id where
  "MetricSimulationFinalTimeNs \<equiv> 3"

abbreviation MetricSimulationRngDraws :: metric_id where
  "MetricSimulationRngDraws \<equiv> 4"

abbreviation MetricSimulationTerminalTotal :: metric_id where
  "MetricSimulationTerminalTotal \<equiv> 5"

abbreviation MetricJobCompletionTimeNs :: metric_id where
  "MetricJobCompletionTimeNs \<equiv> 10"

abbreviation MetricJobSchedulingWaitNs :: metric_id where
  "MetricJobSchedulingWaitNs \<equiv> 11"

abbreviation MetricJobComputeGpuNs :: metric_id where
  "MetricJobComputeGpuNs \<equiv> 12"

abbreviation MetricJobCommunicationNs :: metric_id where
  "MetricJobCommunicationNs \<equiv> 13"

abbreviation MetricJobSynchronizationWaitNs :: metric_id where
  "MetricJobSynchronizationWaitNs \<equiv> 14"

abbreviation MetricJobStragglerDelayNs :: metric_id where
  "MetricJobStragglerDelayNs \<equiv> 15"

abbreviation MetricJobGpuIdleNs :: metric_id where
  "MetricJobGpuIdleNs \<equiv> 16"

abbreviation MetricJobCompletedSteps :: metric_id where
  "MetricJobCompletedSteps \<equiv> 17"

abbreviation MetricJobTerminalTotal :: metric_id where
  "MetricJobTerminalTotal \<equiv> 18"

abbreviation MetricCollectiveDurationNs :: metric_id where
  "MetricCollectiveDurationNs \<equiv> 30"

abbreviation MetricCollectivePlannedBytes :: metric_id where
  "MetricCollectivePlannedBytes \<equiv> 31"

abbreviation MetricCollectiveIssuedFabricBytes :: metric_id where
  "MetricCollectiveIssuedFabricBytes \<equiv> 32"

abbreviation MetricCollectiveIssuedLocalBytes :: metric_id where
  "MetricCollectiveIssuedLocalBytes \<equiv> 33"

abbreviation MetricCollectiveDeliveredBytes :: metric_id where
  "MetricCollectiveDeliveredBytes \<equiv> 34"

abbreviation MetricLinkAcceptedBytes :: metric_id where
  "MetricLinkAcceptedBytes \<equiv> 50"

abbreviation MetricLinkAcceptedChunks :: metric_id where
  "MetricLinkAcceptedChunks \<equiv> 51"

abbreviation MetricLinkSerializedBytes :: metric_id where
  "MetricLinkSerializedBytes \<equiv> 52"

abbreviation MetricLinkSerializedChunks :: metric_id where
  "MetricLinkSerializedChunks \<equiv> 53"

abbreviation MetricLinkMarkedBytes :: metric_id where
  "MetricLinkMarkedBytes \<equiv> 54"

abbreviation MetricLinkMarkedChunks :: metric_id where
  "MetricLinkMarkedChunks \<equiv> 55"

abbreviation MetricLinkDroppedBufferFullBytes :: metric_id where
  "MetricLinkDroppedBufferFullBytes \<equiv> 56"

abbreviation MetricLinkDroppedBufferFullChunks :: metric_id where
  "MetricLinkDroppedBufferFullChunks \<equiv> 57"

abbreviation MetricLinkDroppedDownBytes :: metric_id where
  "MetricLinkDroppedDownBytes \<equiv> 58"

abbreviation MetricLinkDroppedDownChunks :: metric_id where
  "MetricLinkDroppedDownChunks \<equiv> 59"

abbreviation MetricLinkQueueWaitingBytes :: metric_id where
  "MetricLinkQueueWaitingBytes \<equiv> 60"

abbreviation MetricLinkQueueWaitingChunks :: metric_id where
  "MetricLinkQueueWaitingChunks \<equiv> 61"

abbreviation MetricLinkMaximumWaitingBytes :: metric_id where
  "MetricLinkMaximumWaitingBytes \<equiv> 62"

abbreviation MetricLinkSerializerBusyNs :: metric_id where
  "MetricLinkSerializerBusyNs \<equiv> 63"

abbreviation MetricLinkUtilizationPpm :: metric_id where
  "MetricLinkUtilizationPpm \<equiv> 64"

abbreviation MetricTransferTerminalTotal :: metric_id where
  "MetricTransferTerminalTotal \<equiv> 70"

abbreviation MetricRoutingDecisionTotal :: metric_id where
  "MetricRoutingDecisionTotal \<equiv> 80"

abbreviation MetricPlacementDecisionTotal :: metric_id where
  "MetricPlacementDecisionTotal \<equiv> 81"

abbreviation MetricPlacementCrossRackRingEdges :: metric_id where
  "MetricPlacementCrossRackRingEdges \<equiv> 82"

abbreviation MetricPlacementRackCount :: metric_id where
  "MetricPlacementRackCount \<equiv> 83"

abbreviation MetricPlacementNicCount :: metric_id where
  "MetricPlacementNicCount \<equiv> 84"

abbreviation MetricFailureStateTransitionTotal :: metric_id where
  "MetricFailureStateTransitionTotal \<equiv> 100"

abbreviation MetricFailureAffectedJobs :: metric_id where
  "MetricFailureAffectedJobs \<equiv> 101"

abbreviation MetricFailureAffectedTrafficBytes :: metric_id where
  "MetricFailureAffectedTrafficBytes \<equiv> 102"

abbreviation MetricFailureDetectionTimeNs :: metric_id where
  "MetricFailureDetectionTimeNs \<equiv> 103"

abbreviation MetricFailureRecoveryTimeNs :: metric_id where
  "MetricFailureRecoveryTimeNs \<equiv> 104"

record metric_definition =
  def_id :: metric_id
  def_name :: string
  def_description :: string
  def_kind :: metric_kind
  def_unit :: metric_unit
  required_labels :: label_mask
  allowed_labels :: label_mask
  def_boundaries :: "u64 list"

definition metric_def :: "metric_id \<Rightarrow> string \<Rightarrow> string \<Rightarrow> metric_kind \<Rightarrow> metric_unit \<Rightarrow> label_mask \<Rightarrow> label_mask
    \<Rightarrow> u64 list \<Rightarrow> metric_definition" where
  "metric_def i name description k u required allowed boundaries =
     \<lparr>def_id = i, def_name = name, def_description = description, def_kind = k, def_unit = u,
      required_labels = required, allowed_labels = allowed, def_boundaries = boundaries\<rparr>"

definition outcome_label :: label_mask where
  "outcome_label = label_mask LabelOutcome"

definition link_labels :: label_mask where
  "link_labels = label_mask LabelLink OR label_mask LabelDirection"

definition policy_outcome_labels :: label_mask where
  "policy_outcome_labels = label_mask LabelPolicy OR label_mask LabelOutcome"

definition failure_labels :: label_mask where
  "failure_labels = label_mask LabelFailure OR label_mask LabelResource"

definition latency_boundaries :: "u64 list" where
  "latency_boundaries =
     [1000, 10000, 100000, 1000000, 10000000, 100000000, 1000000000, 10000000000, 60000000000]"

definition count_boundaries :: "u64 list" where
  "count_boundaries = [0, 1, 2, 4, 8, 16, 32, 64, 128, 256, 512, 1024, 2048, 8192]"

definition metric_catalog :: "metric_definition list" where
  "metric_catalog =
     [metric_def MetricSimulationDispatchedEvents ''simulation_dispatched_events_total'' ''Events dispatched by the simulation kernel'' KindCounter UnitCount 0 0 [],
      metric_def MetricSimulationCancelledEvents ''simulation_cancelled_events_total'' ''Events cancelled by the simulation kernel'' KindCounter UnitCount 0 0 [],
      metric_def MetricSimulationFinalTimeNs ''simulation_final_time_ns'' ''Final simulated timestamp'' KindGauge UnitNanoseconds 0 0 [],
      metric_def MetricSimulationRngDraws ''simulation_rng_draws_total'' ''Deterministic random-number draws'' KindCounter UnitCount 0 0 [],
      metric_def MetricSimulationTerminalTotal ''simulation_terminal_total'' ''Terminal simulation outcomes'' KindCounter UnitCount outcome_label outcome_label [],
      metric_def MetricJobCompletionTimeNs ''job_completion_time_ns'' ''Terminal job elapsed time'' KindHistogram UnitNanoseconds 0 0 latency_boundaries,
      metric_def MetricJobSchedulingWaitNs ''job_scheduling_wait_ns'' ''Arrival-to-allocation scheduling wait'' KindHistogram UnitNanoseconds 0 0 latency_boundaries,
      metric_def MetricJobComputeGpuNs ''job_compute_gpu_ns'' ''Allocated GPU compute resource time'' KindCounter UnitNanoseconds 0 0 [],
      metric_def MetricJobCommunicationNs ''job_communication_ns'' ''Job critical-path communication time'' KindCounter UnitNanoseconds 0 0 [],
      metric_def MetricJobSynchronizationWaitNs ''job_synchronization_wait_ns'' ''Job critical-path synchronization wait'' KindCounter UnitNanoseconds 0 0 [],
      metric_def MetricJobStragglerDelayNs ''job_straggler_delay_ns'' ''Configured worker straggler delay'' KindCounter UnitNanoseconds 0 0 [],
      metric_def MetricJobGpuIdleNs ''job_gpu_idle_ns'' ''Allocated idle GPU resource time'' KindCounter UnitNanoseconds 0 0 [],
      metric_def MetricJobCompletedSteps ''job_completed_steps'' ''Completed training steps'' KindCounter UnitCount 0 0 [],
      metric_def MetricJobTerminalTotal ''job_terminal_total'' ''Terminal job outcomes'' KindCounter UnitCount outcome_label outcome_label [],
      metric_def MetricCollectiveDurationNs ''collective_duration_ns'' ''Terminal collective duration'' KindHistogram UnitNanoseconds 0 0 latency_boundaries,
      metric_def MetricCollectivePlannedBytes ''collective_planned_bytes_total'' ''Logical collective bytes planned'' KindCounter UnitBytes 0 0 [],
      metric_def MetricCollectiveIssuedFabricBytes ''collective_issued_fabric_bytes_total'' ''Collective bytes issued to the fabric'' KindCounter UnitBytes 0 0 [],
      metric_def MetricCollectiveIssuedLocalBytes ''collective_issued_local_bytes_total'' ''Collective bytes issued locally'' KindCounter UnitBytes 0 0 [],
      metric_def MetricCollectiveDeliveredBytes ''collective_delivered_bytes_total'' ''Collective bytes delivered'' KindCounter UnitBytes 0 0 [],
      metric_def MetricLinkAcceptedBytes ''link_accepted_bytes_total'' ''Bytes accepted by a link queue'' KindCounter UnitBytes link_labels link_labels [],
      metric_def MetricLinkAcceptedChunks ''link_accepted_chunks_total'' ''Chunks accepted by a link queue'' KindCounter UnitChunks link_labels link_labels [],
      metric_def MetricLinkSerializedBytes ''link_serialized_bytes_total'' ''Bytes fully serialized'' KindCounter UnitBytes link_labels link_labels [],
      metric_def MetricLinkSerializedChunks ''link_serialized_chunks_total'' ''Chunks fully serialized'' KindCounter UnitChunks link_labels link_labels [],
      metric_def MetricLinkMarkedBytes ''link_marked_bytes_total'' ''Bytes congestion marked at a link'' KindCounter UnitBytes link_labels link_labels [],
      metric_def MetricLinkMarkedChunks ''link_marked_chunks_total'' ''Chunks congestion marked at a link'' KindCounter UnitChunks link_labels link_labels [],
      metric_def MetricLinkDroppedBufferFullBytes ''link_dropped_buffer_full_bytes_total'' ''Bytes dropped because the waiting buffer was full'' KindCounter UnitBytes link_labels link_labels [],
      metric_def MetricLinkDroppedBufferFullChunks ''link_dropped_buffer_full_chunks_total'' ''Chunks dropped because the waiting buffer was full'' KindCounter UnitChunks link_labels link_labels [],
      metric_def MetricLinkDroppedDownBytes ''link_dropped_down_bytes_total'' ''Bytes dropped because a resource was down'' KindCounter UnitBytes link_labels link_labels [],
      metric_def MetricLinkDroppedDownChunks ''link_dropped_down_chunks_total'' ''Chunks dropped because a resource was down'' KindCounter UnitChunks link_labels link_labels [],
      metric_def MetricLinkQueueWaitingBytes ''link_queue_waiting_bytes'' ''Current waiting queue bytes'' KindGauge UnitBytes link_labels link_labels [],
      metric_def MetricLinkQueueWaitingChunks ''link_queue_waiting_chunks'' ''Current waiting queue chunks'' KindGauge UnitChunks link_labels link_labels [],
      metric_def MetricLinkMaximumWaitingBytes ''link_maximum_waiting_bytes'' ''Maximum observed waiting queue bytes'' KindGauge UnitBytes link_labels link_labels [],
      metric_def MetricLinkSerializerBusyNs ''link_serializer_busy_ns_total'' ''Elapsed link serializer busy time'' KindCounter UnitNanoseconds link_labels link_labels [],
      metric_def MetricLinkUtilizationPpm ''link_utilization_ratio_ppm'' ''Link serializer utilization in parts per million'' KindDerivedSummary UnitRatioPartsPerMillion link_labels link_labels [],
      metric_def MetricTransferTerminalTotal ''transfer_terminal_total'' ''Terminal transfer outcomes'' KindCounter UnitCount outcome_label outcome_label [],
      metric_def MetricRoutingDecisionTotal ''routing_decision_total'' ''Routing decisions'' KindCounter UnitCount policy_outcome_labels policy_outcome_labels [],
      metric_def MetricPlacementDecisionTotal ''placement_decision_total'' ''Placement decisions'' KindCounter UnitCount policy_outcome_labels policy_outcome_labels [],
      metric_def MetricPlacementCrossRackRingEdges ''placement_cross_rack_ring_edges'' ''Cross-rack edges in the selected rank ring'' KindHistogram UnitCount 0 0 count_boundaries,
      metric_def MetricPlacementRackCount ''placement_rack_count'' ''Racks used by a placement'' KindHistogram UnitCount 0 0 count_boundaries,
      metric_def MetricPlacementNicCount ''placement_nic_count'' ''NICs used by a placement'' KindHistogram UnitCount 0 0 count_boundaries,
      metric_def MetricFailureStateTransitionTotal ''failure_state_transition_total'' ''Failure resource-state transitions'' KindCounter UnitCount failure_labels failure_labels [],
      metric_def MetricFailureAffectedJobs ''failure_affected_jobs_total'' ''Jobs affected by failures'' KindCounter UnitCount (label_mask LabelFailure) failure_labels [],
      metric_def MetricFailureAffectedTrafficBytes ''failure_affected_traffic_bytes_total'' ''Traffic bytes affected by failures'' KindCounter UnitBytes (label_mask LabelFailure) failure_labels [],
      metric_def MetricFailureDetectionTimeNs ''failure_detection_time_ns'' ''Failure detection latency'' KindHistogram UnitNanoseconds 0 (label_mask LabelResource) latency_boundaries,
      metric_def MetricFailureRecoveryTimeNs ''failure_recovery_time_ns'' ''Failure recovery latency'' KindHistogram UnitNanoseconds 0 (label_mask LabelResource) latency_boundaries]"

definition known_label_mask :: label_mask where
  "known_label_mask =
     label_mask LabelJob OR label_mask LabelCollective OR label_mask LabelLink
     OR label_mask LabelDirection OR label_mask LabelPolicy OR label_mask LabelOutcome
     OR label_mask LabelReason OR label_mask LabelFailure OR label_mask LabelResource"

definition metric_definition_of :: "metric_id \<Rightarrow> exn + metric_definition" where
  "metric_definition_of i =
     (case find (\<lambda>d. def_id d = i) metric_catalog of
        None \<Rightarrow> Inl (InvalidArgument ''unknown telemetry metric identifier'')
      | Some d \<Rightarrow> Inr d)"

definition char_between :: "char \<Rightarrow> char \<Rightarrow> char \<Rightarrow> bool" where
  "char_between lo c hi =
     ((of_char lo :: nat) \<le> of_char c \<and> (of_char c :: nat) \<le> of_char hi)"

definition valid_external_name :: "string \<Rightarrow> bool" where
  "valid_external_name name =
     (if name = [] \<or> hd name = CHR ''_'' \<or> last name = CHR ''_'' then False
      else list_all (\<lambda>c. (char_between CHR ''a'' c CHR ''z'') \<or> (char_between CHR ''0'' c CHR ''9'')
                         \<or> c = CHR ''_'') name)"

fun has_adjacent_equal :: "u64 list \<Rightarrow> bool" where
  "has_adjacent_equal (x # y # zs) = (x = y \<or> has_adjacent_equal (y # zs))"
| "has_adjacent_equal _ = False"

definition validate_definition :: "metric_definition list \<Rightarrow> metric_definition \<Rightarrow> size_t \<Rightarrow> exn + unit" where
  "validate_definition prior d maximum =
     (if \<not> valid_external_name (def_name d) \<or> def_description d = []
      then Inl (InvalidArgument ''invalid telemetry metric definition text'')
      else if required_labels d AND NOT (allowed_labels d) \<noteq> 0
              \<or> allowed_labels d AND NOT known_label_mask \<noteq> 0
      then Inl (InvalidArgument ''invalid telemetry metric label mask'')
      else if (def_kind d = KindHistogram) \<noteq> (def_boundaries d \<noteq> [])
      then Inl (InvalidArgument ''telemetry histogram boundaries do not match metric kind'')
      else if length (def_boundaries d) > maximum \<or> \<not> sorted (def_boundaries d)
              \<or> has_adjacent_equal (def_boundaries d)
      then Inl (InvalidArgument ''invalid telemetry histogram boundaries'')
      else if list_ex (\<lambda>p. def_id p = def_id d \<or> def_name p = def_name d) prior
      then Inl (InvalidArgument ''duplicate telemetry metric definition'')
      else Inr ())"

fun validate_definitions :: "metric_definition list \<Rightarrow> metric_definition list \<Rightarrow> size_t \<Rightarrow> exn + unit" where
  "validate_definitions prior [] maximum = Inr ()"
| "validate_definitions prior (d # ds) maximum =
     bindR (validate_definition prior d maximum)
       (\<lambda>_. validate_definitions (prior @ [d]) ds maximum)"

definition validate_metric_catalog :: "metric_definition list \<Rightarrow> size_t \<Rightarrow> exn + unit" where
  "validate_metric_catalog catalog maximum =
     (if catalog = [] then Inl (InvalidArgument ''telemetry metric catalog must be nonempty'')
      else validate_definitions [] catalog maximum)"

definition validate_configuration :: "telemetry_configuration \<Rightarrow> exn + unit" where
  "validate_configuration c =
     (if sample_interval_ns c = 0 \<or> metric_series (limits c) = 0 \<or> decision_records (limits c) = 0
         \<or> domain_records (limits c) = 0 \<or> max_samples (limits c) = 0
         \<or> histogram_boundaries (limits c) = 0 \<or> correlation_edges (limits c) = 0
         \<or> serialized_bytes (limits c) = 0
      then Inl (InvalidArgument ''telemetry limits and sample interval must be positive'')
      else validate_metric_catalog metric_catalog (histogram_boundaries (limits c)))"

section \<open>The registry\<close>

record series_state =
  series_kind :: metric_kind
  scalar :: u64
  histogram_buckets :: "u64 list"
  histogram_count :: u64
  histogram_sum :: u64

type_synonym series_key = "metric_id \<times> metric_labels"

record metric_registry =
  maximum_series :: size_t
  series :: "(series_key, series_state) omap"

record series_snapshot =
  snap_metric :: metric_id
  snap_labels :: metric_labels
  snap_kind :: metric_kind
  snap_scalar :: u64
  snap_buckets :: "u64 list"
  snap_count :: u64
  snap_sum :: u64

definition new_registry :: "size_t \<Rightarrow> size_t \<Rightarrow> exn + metric_registry" where
  "new_registry max_series max_boundaries =
     (if max_series = 0 \<or> max_boundaries = 0
      then Inl (InvalidArgument ''telemetry metric catalog limits must be positive'')
      else bindR (validate_metric_catalog metric_catalog max_boundaries)
             (\<lambda>_. Inr \<lparr>maximum_series = max_series, series = []\<rparr>))"

definition metric_checked_add :: "u64 \<Rightarrow> u64 \<Rightarrow> exn + u64" where
  "metric_checked_add left right =
     (if right > u64_max - left then Inl (OverflowError ''telemetry metric value overflow'')
      else Inr (left + right))"

definition validate_labels :: "metric_definition \<Rightarrow> metric_labels \<Rightarrow> exn + unit" where
  "validate_labels d labels =
     (let supplied = labels_mask labels
      in if supplied AND required_labels d \<noteq> required_labels d
         then Inl (InvalidArgument ''telemetry metric is missing a required label'')
         else if supplied AND NOT (allowed_labels d) \<noteq> 0
         then Inl (InvalidArgument ''telemetry metric received an unsupported label'')
         else Inr ())"

definition validate_series ::
  "metric_registry \<Rightarrow> metric_id \<Rightarrow> metric_labels \<Rightarrow> metric_kind \<Rightarrow> exn + series_state option" where
  "validate_series r metric labels expected =
     bindR (metric_definition_of metric) (\<lambda>d.
     bindR (validate_labels d labels) (\<lambda>_.
       if def_kind d \<noteq> expected
       then Inl (InvalidArgument ''telemetry metric operation does not match metric kind'')
       else case map_of (series r) (metric, labels) of
              Some st \<Rightarrow> Inr (Some st)
            | None \<Rightarrow>
                if length (series r) \<ge> maximum_series r
                then Inl (LengthError ''telemetry metric series limit exceeded'')
                else Inr None))"

definition fresh_series :: "metric_id \<Rightarrow> metric_kind \<Rightarrow> exn + series_state" where
  "fresh_series metric expected =
     bindR (if expected = KindHistogram
            then bindR (metric_definition_of metric)
                   (\<lambda>d. Inr (replicate (Suc (length (def_boundaries d))) 0))
            else Inr [])
       (\<lambda>buckets. Inr \<lparr>series_kind = expected, scalar = 0, histogram_buckets = buckets,
                        histogram_count = 0, histogram_sum = 0\<rparr>)"

definition require_series ::
  "metric_id \<Rightarrow> metric_labels \<Rightarrow> metric_kind \<Rightarrow> (metric_registry, series_state) prog" where
  "require_series metric labels expected =
     bind (gets (\<lambda>r. validate_series r metric labels expected)) (\<lambda>v.
     bind (lift_res v) (\<lambda>found.
       case found of
         Some st \<Rightarrow> return st
       | None \<Rightarrow>
           bind (lift_res (fresh_series metric expected)) (\<lambda>st.
           seq (modify (\<lambda>r. r\<lparr>series := omap_put (metric, labels) st (series r)\<rparr>))
             (return st))))"

definition store_series :: "metric_id \<Rightarrow> metric_labels \<Rightarrow> series_state \<Rightarrow> (metric_registry, unit) prog" where
  "store_series metric labels st =
     modify (\<lambda>r. r\<lparr>series := omap_put (metric, labels) st (series r)\<rparr>)"

definition registry_increment :: "metric_id \<Rightarrow> metric_labels \<Rightarrow> u64 \<Rightarrow> (metric_registry, unit) prog" where
  "registry_increment metric labels amount =
     bind (require_series metric labels KindCounter) (\<lambda>st.
     bind (lift_res (metric_checked_add (scalar st) amount)) (\<lambda>v.
     store_series metric labels (st\<lparr>scalar := v\<rparr>)))"

definition registry_set_gauge :: "metric_id \<Rightarrow> metric_labels \<Rightarrow> u64 \<Rightarrow> (metric_registry, unit) prog" where
  "registry_set_gauge metric labels value =
     bind (require_series metric labels KindGauge) (\<lambda>st.
     store_series metric labels (st\<lparr>scalar := value\<rparr>))"

text \<open>\<^verbatim>\<open>std::lower_bound\<close> on the ascending boundaries: the first one that is not below the value.\<close>

definition bucket_index :: "u64 list \<Rightarrow> u64 \<Rightarrow> nat" where
  "bucket_index boundaries value = length (takeWhile (\<lambda>b. b < value) boundaries)"

definition observe_step :: "metric_definition \<Rightarrow> series_state \<Rightarrow> u64 \<Rightarrow> exn + series_state" where
  "observe_step d st value =
     (let bucket = bucket_index (def_boundaries d) value
      in bindR (metric_checked_add (histogram_buckets st ! bucket) 1) (\<lambda>next_bucket.
         bindR (metric_checked_add (histogram_count st) 1) (\<lambda>next_count.
         bindR (metric_checked_add (histogram_sum st) value) (\<lambda>next_sum.
         Inr (st\<lparr>histogram_buckets := (histogram_buckets st)[bucket := next_bucket],
                 histogram_count := next_count, histogram_sum := next_sum\<rparr>)))))"

definition registry_observe :: "metric_id \<Rightarrow> metric_labels \<Rightarrow> u64 \<Rightarrow> (metric_registry, unit) prog" where
  "registry_observe metric labels value =
     bind (require_series metric labels KindHistogram) (\<lambda>st.
     bind (lift_res (metric_definition_of metric)) (\<lambda>d.
     bind (lift_res (observe_step d st value)) (\<lambda>st'.
     store_series metric labels st')))"

definition validate_increment :: "metric_registry \<Rightarrow> metric_id \<Rightarrow> metric_labels \<Rightarrow> u64 \<Rightarrow> exn + unit" where
  "validate_increment r metric labels amount =
     bindR (validate_series r metric labels KindCounter) (\<lambda>found.
       case found of
         None \<Rightarrow> Inr ()
       | Some st \<Rightarrow> bindR (metric_checked_add (scalar st) amount) (\<lambda>_. Inr ()))"

definition validate_set_gauge :: "metric_registry \<Rightarrow> metric_id \<Rightarrow> metric_labels \<Rightarrow> u64 \<Rightarrow> exn + unit" where
  "validate_set_gauge r metric labels value =
     bindR (validate_series r metric labels KindGauge) (\<lambda>_. Inr ())"

definition validate_observe :: "metric_registry \<Rightarrow> metric_id \<Rightarrow> metric_labels \<Rightarrow> u64 \<Rightarrow> exn + unit" where
  "validate_observe r metric labels value =
     bindR (validate_series r metric labels KindHistogram) (\<lambda>found.
       case found of
         None \<Rightarrow> Inr ()
       | Some st \<Rightarrow>
           bindR (metric_definition_of metric) (\<lambda>d.
           let bucket = bucket_index (def_boundaries d) value
           in bindR (metric_checked_add (histogram_buckets st ! bucket) 1) (\<lambda>_.
              bindR (metric_checked_add (histogram_count st) 1) (\<lambda>_.
              bindR (metric_checked_add (histogram_sum st) value) (\<lambda>_. Inr ())))))"

definition series_snapshot_of :: "metric_id \<Rightarrow> metric_labels \<Rightarrow> series_state \<Rightarrow> series_snapshot" where
  "series_snapshot_of metric labels st =
     \<lparr>snap_metric = metric, snap_labels = labels, snap_kind = series_kind st,
      snap_scalar = scalar st, snap_buckets = histogram_buckets st,
      snap_count = histogram_count st, snap_sum = histogram_sum st\<rparr>"

definition registry_find :: "metric_registry \<Rightarrow> metric_id \<Rightarrow> metric_labels \<Rightarrow> exn + series_snapshot option" where
  "registry_find r metric labels =
     bindR (metric_definition_of metric)
       (\<lambda>_. Inr (map_option (series_snapshot_of metric labels) (map_of (series r) (metric, labels))))"

definition registry_snapshots :: "metric_registry \<Rightarrow> series_snapshot list" where
  "registry_snapshots r = map (\<lambda>((m, l), st). series_snapshot_of m l st) (series r)"

definition registry_size :: "metric_registry \<Rightarrow> size_t" where
  "registry_size r = length (series r)"

section \<open>The registry invariant\<close>

text \<open>
  A stored series belongs to a metric of the catalog, carries labels that metric admits, has the
  kind of the metric, and, when it is a histogram, one bucket per boundary and one above, whose
  counts add up to the number of observations.
\<close>

definition series_ok :: "series_key \<Rightarrow> series_state \<Rightarrow> bool" where
  "series_ok k st \<longleftrightarrow>
     (case metric_definition_of (fst k) of
        Inl _ \<Rightarrow> False
      | Inr d \<Rightarrow> validate_labels d (snd k) = Inr () \<and> series_kind st = def_kind d
          \<and> (if def_kind d = KindHistogram
             then length (histogram_buckets st) = Suc (length (def_boundaries d))
             else histogram_buckets st = [])
          \<and> sum_list (map unat (histogram_buckets st)) = unat (histogram_count st))"

definition registry_ok :: "metric_registry \<Rightarrow> bool" where
  "registry_ok r \<longleftrightarrow> omap_ok (series r) \<and> length (series r) \<le> maximum_series r
     \<and> (\<forall>(k, st)\<in>set (series r). series_ok k st)"

section \<open>Lemmas\<close>

lemma metric_checked_add_Inr_iff:
  "metric_checked_add a b = Inr c \<longleftrightarrow> unat a + unat b < 2 ^ 64 \<and> c = a + b"
  by (auto simp: metric_checked_add_def max_minus_less_iff not_less)

lemma metric_checked_add_0 [simp]: "metric_checked_add 0 a = Inr a"
  using unat_u64_bound [of a] by (simp add: metric_checked_add_Inr_iff)

lemma bucket_index_le: "bucket_index bs v \<le> length bs"
  by (simp add: bucket_index_def length_takeWhile_le)

lemma bucket_index_spec:
  assumes "sorted bs" and "i < length bs"
  shows "bs ! i < v \<longleftrightarrow> i < bucket_index bs v"
proof
  assume "i < bucket_index bs v"
  then show "bs ! i < v"
    unfolding bucket_index_def using nth_mem [of i "takeWhile (\<lambda>b. b < v) bs"]
    by (auto simp: takeWhile_nth dest: set_takeWhileD)
next
  assume lt: "bs ! i < v"
  show "i < bucket_index bs v"
  proof (rule ccontr)
    let ?n = "bucket_index bs v"
    assume "\<not> i < ?n"
    then have "?n \<le> i" by simp
    with assms have "bs ! ?n \<le> bs ! i" by (simp add: sorted_nth_mono)
    moreover have "\<not> bs ! ?n < v"
      unfolding bucket_index_def
      by (rule nth_length_takeWhile) (use \<open>?n \<le> i\<close> assms(2) in \<open>simp add: bucket_index_def\<close>)
    ultimately show False using lt by simp
  qed
qed

lemma validate_series_None:
  assumes "validate_series r m l k = Inr None"
  obtains d where "metric_definition_of m = Inr d" "validate_labels d l = Inr ()" "def_kind d = k"
    "map_of (series r) (m, l) = None" "length (series r) < maximum_series r"
  using assms by (auto simp: validate_series_def bindR_eq_Inr split: if_splits option.splits)

lemma validate_series_Some:
  assumes "validate_series r m l k = Inr (Some st)"
  obtains d where "metric_definition_of m = Inr d" "validate_labels d l = Inr ()" "def_kind d = k"
    "map_of (series r) (m, l) = Some st"
  using assms by (auto simp: validate_series_def bindR_eq_Inr split: if_splits option.splits)

lemma fresh_series_eq:
  "metric_definition_of m = Inr d \<Longrightarrow>
   fresh_series m k =
     Inr \<lparr>series_kind = k, scalar = 0,
          histogram_buckets = (if k = KindHistogram then replicate (Suc (length (def_boundaries d))) 0 else []),
          histogram_count = 0, histogram_sum = 0\<rparr>"
  by (simp add: fresh_series_def)

lemma require_series_eq:
  "require_series m l k r =
     (case validate_series r m l k of
        Inl e \<Rightarrow> (Inl e, r)
      | Inr (Some st) \<Rightarrow> (Inr st, r)
      | Inr None \<Rightarrow>
          (case fresh_series m k of
             Inl e \<Rightarrow> (Inl e, r)
           | Inr st \<Rightarrow> (Inr st, r\<lparr>series := omap_put (m, l) st (series r)\<rparr>)))"
  by (simp add: require_series_def prog_defs split: sum.splits option.splits)

text \<open>One series is changed, from its current value or from a fresh one, by a step that may throw.\<close>

lemma update_series_eq:
  assumes fresh: "\<And>d. metric_definition_of m = Inr d \<Longrightarrow> def_kind d = k \<Longrightarrow>
      \<exists>st. bindR (fresh_series m k) f = Inr st"
  shows "bind (require_series m l k) (\<lambda>st. bind (lift_res (f st)) (store_series m l)) r =
     (case bindR (validate_series r m l k)
             (\<lambda>v. case v of None \<Rightarrow> bindR (fresh_series m k) f | Some st \<Rightarrow> f st) of
        Inl e \<Rightarrow> (Inl e, r)
      | Inr st \<Rightarrow> (Inr (), r\<lparr>series := omap_put (m, l) st (series r)\<rparr>))"
proof (cases "validate_series r m l k")
  case (Inl e)
  then show ?thesis by (simp add: require_series_eq prog_defs)
next
  case (Inr v)
  show ?thesis
  proof (cases v)
    case (Some st)
    with Inr show ?thesis
      by (simp add: require_series_eq prog_defs store_series_def split: sum.splits)
  next
    case None
    with Inr obtain d where d: "metric_definition_of m = Inr d" "def_kind d = k"
      by (auto elim: validate_series_None)
    from fresh [OF d] obtain st where "bindR (fresh_series m k) f = Inr st" by blast
    then obtain st0 where "fresh_series m k = Inr st0" "f st0 = Inr st" by (auto simp: bindR_eq_Inr)
    with Inr None show ?thesis
      by (simp add: require_series_eq prog_defs store_series_def)
  qed
qed

definition series_step ::
  "metric_registry \<Rightarrow> metric_id \<Rightarrow> metric_labels \<Rightarrow> metric_kind \<Rightarrow> (series_state \<Rightarrow> exn + series_state)
   \<Rightarrow> exn + series_state" where
  "series_step r m l k f =
     bindR (validate_series r m l k)
       (\<lambda>v. case v of None \<Rightarrow> bindR (fresh_series m k) f | Some st \<Rightarrow> f st)"

definition put_series ::
  "metric_id \<Rightarrow> metric_labels \<Rightarrow> exn + series_state \<Rightarrow> metric_registry \<Rightarrow> (exn + unit) \<times> metric_registry" where
  "put_series m l res r =
     (case res of
        Inl e \<Rightarrow> (Inl e, r)
      | Inr st \<Rightarrow> (Inr (), r\<lparr>series := omap_put (m, l) st (series r)\<rparr>))"

definition increment_step :: "u64 \<Rightarrow> series_state \<Rightarrow> exn + series_state" where
  "increment_step a st = bindR (metric_checked_add (scalar st) a) (\<lambda>v. Inr (st\<lparr>scalar := v\<rparr>))"

lemma bind_lift_bindR: "bind (lift_res r) (\<lambda>x. k (g x)) = bind (lift_res (bindR r (\<lambda>x. Inr (g x)))) k"
  by (cases r) (simp_all add: fun_eq_iff bind_def lift_res_def)

lemma registry_increment_eq:
  "registry_increment m l a r = put_series m l (series_step r m l KindCounter (increment_step a)) r"
proof -
  have "registry_increment m l a =
      bind (require_series m l KindCounter) (\<lambda>st. bind (lift_res (increment_step a st)) (store_series m l))"
    unfolding registry_increment_def increment_step_def
    by (rule arg_cong [where f = "bind _"], rule ext) (rule bind_lift_bindR)
  moreover have "\<exists>st. bindR (fresh_series m KindCounter) (increment_step a) = Inr st"
    if "metric_definition_of m = Inr d" for d
    using that by (simp add: fresh_series_eq increment_step_def)
  ultimately show ?thesis by (simp add: update_series_eq series_step_def put_series_def)
qed

lemma registry_set_gauge_eq:
  "registry_set_gauge m l x r = put_series m l (series_step r m l KindGauge (\<lambda>st. Inr (st\<lparr>scalar := x\<rparr>))) r"
proof -
  have "registry_set_gauge m l x =
      bind (require_series m l KindGauge) (\<lambda>st. bind (lift_res (Inr (st\<lparr>scalar := x\<rparr>))) (store_series m l))"
    unfolding registry_set_gauge_def by (simp add: fun_eq_iff bind_def lift_res_def split: sum.splits prod.splits)
  moreover have "\<exists>st. bindR (fresh_series m KindGauge) (\<lambda>st. Inr (st\<lparr>scalar := x\<rparr>)) = Inr st"
    if "metric_definition_of m = Inr d" for d
    using that by (simp add: fresh_series_eq)
  ultimately show ?thesis by (simp add: update_series_eq series_step_def put_series_def)
qed

lemma registry_observe_eq:
  "registry_observe m l x r =
     put_series m l (series_step r m l KindHistogram
       (\<lambda>st. bindR (metric_definition_of m) (\<lambda>d. observe_step d st x))) r"
proof -
  let ?f = "\<lambda>st. bindR (metric_definition_of m) (\<lambda>d. observe_step d st x)"
  have "registry_observe m l x =
      bind (require_series m l KindHistogram) (\<lambda>st. bind (lift_res (?f st)) (store_series m l))"
    unfolding registry_observe_def
    by (cases "metric_definition_of m") (simp_all add: fun_eq_iff bind_def lift_res_def)
  moreover have "\<exists>st. bindR (fresh_series m KindHistogram) ?f = Inr st"
    if "metric_definition_of m = Inr d" for d
    using that bucket_index_le [of "def_boundaries d" x]
    by (simp add: fresh_series_eq observe_step_def del: replicate_Suc)
  ultimately show ?thesis by (simp add: update_series_eq series_step_def put_series_def)
qed

lemmas registry_op_eqs = registry_increment_eq registry_set_gauge_eq registry_observe_eq

text \<open>The validation of an operation is its result without its effect.\<close>

lemma validate_increment_eq:
  "validate_increment r m l a = bindR (series_step r m l KindCounter (increment_step a)) (\<lambda>_. Inr ())"
proof (cases "validate_series r m l KindCounter")
  case (Inr v)
  show ?thesis
  proof (cases v)
    case None
    with Inr obtain d where "metric_definition_of m = Inr d" by (auto elim: validate_series_None)
    with Inr None show ?thesis
      by (simp add: validate_increment_def series_step_def fresh_series_eq increment_step_def)
  qed (simp add: Inr validate_increment_def series_step_def increment_step_def)
qed (simp add: validate_increment_def series_step_def)

lemma validate_set_gauge_eq:
  "validate_set_gauge r m l x =
     bindR (series_step r m l KindGauge (\<lambda>st. Inr (st\<lparr>scalar := x\<rparr>))) (\<lambda>_. Inr ())"
proof (cases "validate_series r m l KindGauge")
  case (Inr v)
  show ?thesis
  proof (cases v)
    case None
    with Inr obtain d where "metric_definition_of m = Inr d" by (auto elim: validate_series_None)
    with Inr None show ?thesis by (simp add: validate_set_gauge_def series_step_def fresh_series_eq)
  qed (simp add: Inr validate_set_gauge_def series_step_def)
qed (simp add: validate_set_gauge_def series_step_def)

lemma validate_observe_eq:
  "validate_observe r m l x =
     bindR (series_step r m l KindHistogram
       (\<lambda>st. bindR (metric_definition_of m) (\<lambda>d. observe_step d st x))) (\<lambda>_. Inr ())"
proof (cases "validate_series r m l KindHistogram")
  case (Inr v)
  show ?thesis
  proof (cases v)
    case None
    with Inr obtain d where "metric_definition_of m = Inr d" by (auto elim: validate_series_None)
    with Inr None bucket_index_le [of "def_boundaries d" x] show ?thesis
      by (simp add: validate_observe_def series_step_def fresh_series_eq observe_step_def del: replicate_Suc)
  next
    case (Some st)
    with Inr show ?thesis
      by (simp add: validate_observe_def series_step_def observe_step_def Let_def)
  qed
qed (simp add: validate_observe_def series_step_def)

lemmas validate_op_eqs = validate_increment_eq validate_set_gauge_eq validate_observe_eq

lemma fst_put_series: "fst (put_series m l res r) = bindR res (\<lambda>_. Inr ())"
  by (cases res) (simp_all add: put_series_def)

lemma sum_list_bucket_update:
  assumes "i < length bs" and "unat (bs ! i) + 1 < 2 ^ 64"
  shows "sum_list (map unat (bs[i := bs ! i + 1])) = Suc (sum_list (map unat (bs :: u64 list)))"
proof -
  have "unat (bs ! i + 1) = Suc (unat (bs ! i))"
    using assms(2) unat_plus_no_overflow [of "bs ! i" 1] by simp
  with assms(1) show ?thesis
  proof (induction bs arbitrary: i)
    case (Cons b bs)
    then show ?case by (cases i) auto
  qed simp
qed

lemma series_ok_fresh:
  "metric_definition_of m = Inr d \<Longrightarrow> validate_labels d l = Inr () \<Longrightarrow> def_kind d = k \<Longrightarrow>
   \<exists>st. fresh_series m k = Inr st \<and> series_ok (m, l) st"
  by (simp add: fresh_series_eq series_ok_def)

lemma series_ok_scalar [simp]: "series_ok k (st\<lparr>scalar := v\<rparr>) = series_ok k st"
  by (simp add: series_ok_def split: sum.splits)

lemma series_ok_observe:
  assumes ok: "series_ok (m, l) st" and d: "metric_definition_of m = Inr d" "def_kind d = KindHistogram"
    and step: "observe_step d st v = Inr st'"
  shows "series_ok (m, l) st'"
proof -
  let ?i = "bucket_index (def_boundaries d) v"
  have i: "?i < length (histogram_buckets st)"
    using ok d bucket_index_le [of "def_boundaries d" v] by (simp add: series_ok_def)
  from step have st': "st' = st\<lparr>histogram_buckets := (histogram_buckets st)[?i := histogram_buckets st ! ?i + 1],
      histogram_count := histogram_count st + 1, histogram_sum := histogram_sum st + v\<rparr>"
    and no: "unat (histogram_buckets st ! ?i) + 1 < 2 ^ 64" "unat (histogram_count st) + 1 < 2 ^ 64"
    by (auto simp: observe_step_def Let_def bindR_eq_Inr metric_checked_add_Inr_iff)
  have "unat (histogram_count st + 1) = Suc (unat (histogram_count st))"
    using no(2) unat_plus_no_overflow [of "histogram_count st" 1] by simp
  with ok d i no(1) show ?thesis
    by (simp add: series_ok_def st' sum_list_bucket_update)
qed

lemma registry_ok_map_of: "registry_ok r \<Longrightarrow> map_of (series r) k = Some st \<Longrightarrow> series_ok k st"
  by (auto simp: registry_ok_def dest: map_of_SomeD)

text \<open>A step that keeps a series well formed keeps the registry well formed.\<close>

lemma registry_ok_put_series:
  assumes ok: "registry_ok r"
    and step: "\<And>d st st'. metric_definition_of m = Inr d \<Longrightarrow> def_kind d = k \<Longrightarrow>
        series_ok (m, l) st \<Longrightarrow> f st = Inr st' \<Longrightarrow> series_ok (m, l) st'"
  shows "registry_ok (snd (put_series m l (series_step r m l k f) r))"
proof (cases "series_step r m l k f")
  case (Inl e)
  then show ?thesis using ok by (simp add: put_series_def)
next
  case (Inr st')
  then obtain v where v: "validate_series r m l k = Inr v"
    by (auto simp: series_step_def bindR_eq_Inr)
  have "series_ok (m, l) st' \<and> (map_of (series r) (m, l) = None \<longrightarrow> length (series r) < maximum_series r)"
  proof (cases v)
    case None
    with v obtain d where d: "metric_definition_of m = Inr d" "validate_labels d l = Inr ()"
        "def_kind d = k" "length (series r) < maximum_series r" by (auto elim: validate_series_None)
    with series_ok_fresh [OF d(1-3)] Inr v None step show ?thesis
      by (auto simp: series_step_def bindR_eq_Inr)
  next
    case (Some st)
    with v obtain d where d: "metric_definition_of m = Inr d" "def_kind d = k"
        "map_of (series r) (m, l) = Some st" by (auto elim: validate_series_Some)
    with registry_ok_map_of [OF ok d(3)] Inr v Some step show ?thesis by (auto simp: series_step_def)
  qed
  with ok Inr set_omap_put [of "(m, l)" st' "series r"] show ?thesis
    by (auto simp: registry_ok_def put_series_def length_omap_put)
qed

lemma registry_ok_increment: "registry_ok r \<Longrightarrow> registry_ok (snd (registry_increment m l a r))"
  unfolding registry_increment_eq
  by (erule registry_ok_put_series) (auto simp: increment_step_def bindR_eq_Inr)

lemma registry_ok_set_gauge: "registry_ok r \<Longrightarrow> registry_ok (snd (registry_set_gauge m l a r))"
  unfolding registry_set_gauge_eq by (erule registry_ok_put_series) auto

lemma registry_ok_observe: "registry_ok r \<Longrightarrow> registry_ok (snd (registry_observe m l a r))"
  unfolding registry_observe_eq
  by (erule registry_ok_put_series) (auto simp: bindR_eq_Inr intro: series_ok_observe)

lemmas registry_ok_ops = registry_ok_increment registry_ok_set_gauge registry_ok_observe

section \<open>Validated operations\<close>

text \<open>
  What the telemetry session relies on: an operation that can be validated beforehand. Validation
  predicts the outcome exactly, a rejected operation changes nothing, and an invariant is kept.
\<close>

locale validated_operation =
  fixes validate :: "'s \<Rightarrow> 'q \<Rightarrow> exn + unit"
    and perform :: "'q \<Rightarrow> ('s, unit) prog"
    and inv :: "'s \<Rightarrow> bool"
  assumes validate_exact: "fst (perform q s) = validate s q"
    and rejected_unchanged: "validate s q = Inl e \<Longrightarrow> perform q s = (Inl e, s)"
    and keeps_inv: "inv s \<Longrightarrow> inv (snd (perform q s))"
begin

lemma validated_succeeds: "validate s q = Inr () \<Longrightarrow> \<exists>s'. perform q s = (Inr (), s')"
  using validate_exact [of q s] by (cases "perform q s") simp

lemma wp_perform:
  "inv s \<Longrightarrow> wp (perform q) (\<lambda>_ t. inv t) (\<lambda>e t. t = s \<and> validate s q = Inl e) s"
  using validate_exact [of q s] rejected_unchanged [of s q] keeps_inv [of s q]
  by (cases "perform q s"; cases "validate s q") (auto simp: wp_def)

lemma all_perform_keep_inv: "inv s \<Longrightarrow> inv (snd (for_each perform qs s))"
proof (induction qs arbitrary: s)
  case Nil
  then show ?case by (simp add: return_def)
next
  case (Cons q qs)
  obtain r t where rt: "perform q s = (r, t)" by (cases "perform q s")
  with keeps_inv [OF Cons.prems, of q] have "inv t" by simp
  with Cons.IH [of t] rt show ?case by (cases r) (simp_all add: seq_def bind_def)
qed

end

text \<open>The three kinds of update as requests, dispatched the way the session dispatches them.\<close>

datatype metric_request =
    Increment metric_id metric_labels u64
  | SetGauge metric_id metric_labels u64
  | Observe metric_id metric_labels u64

primrec perform_metric :: "metric_request \<Rightarrow> (metric_registry, unit) prog" where
  "perform_metric (Increment m l a) = registry_increment m l a"
| "perform_metric (SetGauge m l a) = registry_set_gauge m l a"
| "perform_metric (Observe m l a) = registry_observe m l a"

fun validate_metric :: "metric_registry \<Rightarrow> metric_request \<Rightarrow> exn + unit" where
  "validate_metric r (Increment m l a) = validate_increment r m l a"
| "validate_metric r (SetGauge m l a) = validate_set_gauge r m l a"
| "validate_metric r (Observe m l a) = validate_observe r m l a"

interpretation metric_ops: validated_operation validate_metric perform_metric registry_ok
proof
  fix q and s :: metric_registry and e
  show "fst (perform_metric q s) = validate_metric s q"
    by (cases q) (simp_all add: registry_op_eqs validate_op_eqs fst_put_series)
  show "perform_metric q s = (Inl e, s)" if "validate_metric s q = Inl e"
    using that by (cases q) (auto simp: registry_op_eqs validate_op_eqs put_series_def bindR_def split: sum.splits)
  show "registry_ok (snd (perform_metric q s))" if "registry_ok s"
    using that by (cases q) (simp_all add: registry_ok_ops)
qed

lemma registry_ok_new: "new_registry n b = Inr r \<Longrightarrow> registry_ok r"
  by (auto simp: new_registry_def registry_ok_def bindR_eq_Inr split: if_splits)

section \<open>Properties\<close>

text \<open>C29. Registry updates have the strong exception guarantee and validation predicts them exactly:
  for every counter increment, gauge assignment and histogram observation, \<^verbatim>\<open>validate_*\<close> throws
  precisely the exception the update would throw, an update that throws leaves the registry as it
  was, and one that was validated succeeds.\<close>

theorem metric_validation_exact:
  "fst (perform_metric q r) = validate_metric r q
   \<and> (case validate_metric r q of
        Inl e \<Rightarrow> perform_metric q r = (Inl e, r)
      | Inr _ \<Rightarrow> \<exists>r'. perform_metric q r = (Inr (), r'))"
  using metric_ops.validate_exact [of q r] metric_ops.rejected_unchanged [of r q]
    metric_ops.validated_succeeds [of r q]
  by (auto split: sum.splits)

end
