(* ===== verification/Metric_Catalog.thy ===== *)
theory Metric_Catalog
  imports Metrics
begin

unbundle bit_operations_syntax

text \<open>
  The static catalog of metrics passes the validation the registry's constructor runs on it, for
  every histogram-boundary limit of at least 14; so registries can be built, and the registry
  invariant is not vacuous.
\<close>

section \<open>The catalog is valid\<close>

text \<open>The checks of one definition that do not depend on the definitions before it.\<close>

definition definition_self_valid :: "size_t \<Rightarrow> metric_definition \<Rightarrow> bool" where
  "definition_self_valid n d \<longleftrightarrow>
     valid_external_name (def_name d) \<and> def_description d \<noteq> []
     \<and> required_labels d AND NOT (allowed_labels d) = 0 \<and> allowed_labels d AND NOT known_label_mask = 0
     \<and> (def_kind d = KindHistogram \<longleftrightarrow> def_boundaries d \<noteq> [])
     \<and> length (def_boundaries d) \<le> n \<and> sorted (def_boundaries d)
     \<and> \<not> has_adjacent_equal (def_boundaries d)"

lemma validate_definitions_iff:
  "distinct (map def_id prior) \<Longrightarrow> distinct (map def_name prior) \<Longrightarrow>
   validate_definitions prior ds n = Inr () \<longleftrightarrow>
     list_all (definition_self_valid n) ds
     \<and> distinct (map def_id (prior @ ds)) \<and> distinct (map def_name (prior @ ds))"
proof (induction ds arbitrary: prior)
  case Nil
  then show ?case by simp
next
  case (Cons d ds)
  have one: "validate_definition prior d n = Inr () \<longleftrightarrow>
      definition_self_valid n d \<and> def_id d \<notin> def_id ` set prior \<and> def_name d \<notin> def_name ` set prior"
    by (auto simp: validate_definition_def definition_self_valid_def list_ex_iff not_less
        intro: rev_image_eqI)
  show ?case
  proof (cases "validate_definition prior d n")
    case (Inl e)
    with one show ?thesis by auto
  next
    case (Inr u)
    with one Cons.prems have "distinct (map def_id (prior @ [d]))" "distinct (map def_name (prior @ [d]))"
      by auto
    from Cons.IH [OF this] one Inr show ?thesis by auto
  qed
qed

lemma catalog_ids_distinct: "distinct (map def_id metric_catalog)"
  by code_simp

lemma catalog_names_distinct: "distinct (map def_name metric_catalog)"
  unfolding metric_catalog_def metric_def_def by simp

lemma catalog_names_valid:
  "list_all (\<lambda>d. valid_external_name (def_name d) \<and> def_description d \<noteq> []) metric_catalog"
  by code_simp

lemma catalog_masks_valid:
  "list_all (\<lambda>d. required_labels d AND NOT (allowed_labels d) = 0
     \<and> allowed_labels d AND NOT known_label_mask = 0) metric_catalog"
  by code_simp

lemma catalog_boundaries_valid:
  "list_all (\<lambda>d. (def_kind d = KindHistogram) = (def_boundaries d \<noteq> [])
     \<and> length (def_boundaries d) \<le> 14 \<and> sorted (def_boundaries d)
     \<and> \<not> has_adjacent_equal (def_boundaries d)) metric_catalog"
  by code_simp

lemma catalog_needs_14: "list_all (\<lambda>d. length (def_boundaries d) \<le> n) metric_catalog \<Longrightarrow> 14 \<le> n"
  by (simp add: metric_catalog_def metric_def_def count_boundaries_def)

lemma catalog_valid_iff: "validate_metric_catalog metric_catalog n = Inr () \<longleftrightarrow> 14 \<le> n"
proof -
  have nonempty: "metric_catalog \<noteq> []" by (simp add: metric_catalog_def)
  have "list_all (definition_self_valid n) metric_catalog \<longleftrightarrow> 14 \<le> n"
    using catalog_names_valid catalog_masks_valid catalog_boundaries_valid catalog_needs_14 [of n]
    unfolding list_all_iff definition_self_valid_def by (meson order_trans)
  with nonempty show ?thesis
    by (simp add: validate_metric_catalog_def validate_definitions_iff catalog_ids_distinct
        catalog_names_distinct)
qed

section \<open>Properties\<close>

text \<open>The compiled-in metric catalog passes its own validation (names well formed and distinct,
  identifiers distinct, masks consistent, boundaries strictly ascending) exactly for boundary limits
  of at least 14, the size of its largest boundary table.\<close>

theorem metric_catalog_valid: "validate_metric_catalog metric_catalog n = Inr () \<longleftrightarrow> 14 \<le> n"
  by (rule catalog_valid_iff)

text \<open>C30. Whatever sequence of updates is applied to a new registry (until one throws), the registry
  stays within its series limit, every series has labels and a kind its metric admits, and each
  histogram has one bucket per boundary plus an overflow bucket whose counts sum to the number of
  observations.\<close>

theorem registry_invariant:
  assumes "new_registry n b = Inr r" and "snd (for_each perform_metric qs r) = r'"
  shows "registry_ok r'"
  using metric_ops.all_perform_keep_inv [OF registry_ok_new [OF assms(1)], of qs] assms(2) by simp

theorem registry_invariant_witness:
  "\<exists>r r'. new_registry 2 14 = Inr r
     \<and> snd (for_each perform_metric
         [Observe MetricJobCompletionTimeNs [] 5000, Observe MetricJobCompletionTimeNs [] 7] r) = r'
     \<and> registry_ok r' \<and> length (series r') = 1"
proof -
  have new: "new_registry 2 14 = Inr \<lparr>maximum_series = 2, series = []\<rparr>"
    using catalog_valid_iff [of 14] by (simp add: new_registry_def)
  let ?qs = "[Observe MetricJobCompletionTimeNs [] 5000, Observe MetricJobCompletionTimeNs [] 7]"
  have "length (series (snd (for_each perform_metric ?qs \<lparr>maximum_series = 2, series = []\<rparr>))) = 1"
    by code_simp
  with registry_invariant [OF new, of ?qs] new show ?thesis by simp
qed

end
