(* ===== verification/Timing.thy ===== *)
theory Timing
  imports Time_Ids
begin

text \<open>
  Serialization delays (\<^verbatim>\<open>transport/timing.hpp\<close>, \<^verbatim>\<open>transport/timing.cpp\<close>): a long division by
  shifting in 64-bit registers, and the delay of a byte count at a bandwidth. The lemmas show that no
  intermediate value wraps and that the result is the quotient of the unbounded product, rounded up.
\<close>

unbundle bit_operations_syntax

type_synonym byte_count = u64
type_synonym bits_per_second = u64

section \<open>Definitions\<close>

definition bit_nanoseconds_per_byte :: u64 where
  "bit_nanoseconds_per_byte = 8000000000"

record division_result =
  quotient :: u64
  remainder :: u64

text \<open>One iteration of the loop, for the multiplier bit \<open>b\<close>.\<close>

definition fraction_step :: "u64 \<Rightarrow> u64 \<Rightarrow> u64 \<Rightarrow> nat \<Rightarrow> division_result \<Rightarrow> division_result" where
  "fraction_step numerator multiplier denominator b d =
     (let q = quotient d * 2; r = remainder d;
          (q, r) = (if r \<ge> denominator - r then (q + 1, r - (denominator - r)) else (q, r * 2))
      in if drop_bit b multiplier AND 1 = 0 then \<lparr>quotient = q, remainder = r\<rparr>
         else if r \<ge> denominator - numerator
         then \<lparr>quotient = q + 1, remainder = r - (denominator - numerator)\<rparr>
         else \<lparr>quotient = q, remainder = r + numerator\<rparr>)"

text \<open>The bits from \<open>n - 1\<close> down to 0.\<close>

fun fraction_loop :: "u64 \<Rightarrow> u64 \<Rightarrow> u64 \<Rightarrow> nat \<Rightarrow> division_result \<Rightarrow> division_result" where
  "fraction_loop numerator multiplier denominator 0 d = d"
| "fraction_loop numerator multiplier denominator (Suc b) d =
     fraction_loop numerator multiplier denominator b (fraction_step numerator multiplier denominator b d)"

definition multiply_fraction :: "u64 \<Rightarrow> u64 \<Rightarrow> u64 \<Rightarrow> division_result" where
  "multiply_fraction numerator multiplier denominator =
     fraction_loop numerator multiplier denominator 64 \<lparr>quotient = 0, remainder = 0\<rparr>"

definition serialization_delay :: "byte_count \<Rightarrow> bits_per_second \<Rightarrow> sim_duration option" where
  "serialization_delay bytes bandwidth =
     (if bytes = 0 \<or> bandwidth = 0 then None
      else let whole_seconds = bytes div bandwidth; fractional_bytes = bytes mod bandwidth
           in if whole_seconds > u64_max div bit_nanoseconds_per_byte then None
              else let nanoseconds = whole_seconds * bit_nanoseconds_per_byte;
                       fractional = multiply_fraction fractional_bytes bit_nanoseconds_per_byte bandwidth
                   in if quotient fractional > u64_max - nanoseconds then None
                      else let nanoseconds = nanoseconds + quotient fractional
                           in if remainder fractional \<noteq> 0
                              then if nanoseconds = u64_max then None else Some (nanoseconds + 1)
                              else Some nanoseconds)"

section \<open>The division\<close>

text \<open>
  After the bits above \<open>b\<close>, the registers hold quotient and remainder of the product of the
  numerator with those bits of the multiplier.
\<close>

definition partial_division :: "u64 \<Rightarrow> u64 \<Rightarrow> nat \<Rightarrow> division_result \<Rightarrow> bool" where
  "partial_division numerator denominator m d \<longleftrightarrow>
     unat numerator * m = unat (quotient d) * unat denominator + unat (remainder d)
     \<and> remainder d < denominator"

lemma unat_drop_bit: "unat (drop_bit b m) = unat m div 2 ^ b" for m :: u64
proof -
  have "unat (drop_bit b m) = drop_bit b (unat m)"
    using take_bit_nat_eq_self [OF unat_u64_bound, of m] by (simp add: unsigned_drop_bit_eq)
  then show ?thesis by (simp only: drop_bit_eq_div)
qed

lemma shifted_bit:
  "unat (drop_bit b m) = 2 * unat (drop_bit (Suc b) m) + (if drop_bit b m AND 1 = 0 then 0 else 1)" for m :: u64
proof -
  have "drop_bit b m AND 1 = 0 \<longleftrightarrow> even (unat (drop_bit b m))"
    by (simp add: and_one_eq unat_arith_simps(3) even_iff_mod_2_eq_zero unat_mod)
  moreover have "unat (drop_bit (Suc b) m) = unat (drop_bit b m) div 2"
    by (simp only: unat_drop_bit power_Suc2 div_mult2_eq)
  ultimately show ?thesis by simp
qed

text \<open>The quotient of a product by a larger denominator is below the multiplier, so it does not wrap.\<close>

lemma partial_quotient_bound:
  assumes "n * m = q * d + r" and "n < d"
  shows "q \<le> (m :: nat)"
proof (rule ccontr)
  assume "\<not> q \<le> m"
  then have "m * d < q * d" using assms(2) by simp
  moreover have "n * m \<le> d * m" using assms(2) by simp
  moreover have "q * d \<le> n * m" using assms(1) by simp
  ultimately show False by (simp only: mult.commute [of d m])
qed

lemma doubling_step:
  fixes q r den :: u64
  assumes "r < den" and "2 * unat q + 1 < 2 ^ 64"
  defines "qr \<equiv> (if r \<ge> den - r then (q * 2 + 1, r - (den - r)) else (q * 2, r * 2))"
  shows "unat (fst qr) * unat den + unat (snd qr) = 2 * (unat q * unat den + unat r)" "snd qr < den"
    "unat (fst qr) \<le> 2 * unat q + 1"
proof -
  have r: "unat r < unat den" using assms(1) by (simp add: word_less_nat_alt)
  have sub: "unat (den - r) = unat den - unat r" using assms(1) by (simp add: unat_sub)
  have q2: "unat (q * 2) = 2 * unat q" using assms(2) unat_mult_no_overflow [of q 2] by simp
  have q3: "unat (q * 2 + 1) = 2 * unat q + 1" using assms(2) q2 unat_plus_no_overflow [of "q * 2" 1] by simp
  have "unat (fst qr) * unat den + unat (snd qr) = 2 * (unat q * unat den + unat r) \<and> unat (snd qr) < unat den
      \<and> unat (fst qr) \<le> 2 * unat q + 1"
  proof (cases "r \<ge> den - r")
    case True
    then have ge: "unat den - unat r \<le> unat r" using sub by (simp add: word_le_nat_alt)
    have "unat (r - (den - r)) = unat r - (unat den - unat r)" using unat_sub [OF True] sub by simp
    with True ge r q3 show ?thesis by (simp add: qr_def algebra_simps)
  next
    case False
    then have lt: "unat r + unat r < unat den" using sub r by (simp add: word_le_nat_alt)
    then have "unat (r * 2) = 2 * unat r"
      using unat_mult_no_overflow [of r 2] unat_u64_bound [of den] by simp
    with False lt q2 show ?thesis by (simp add: qr_def algebra_simps)
  qed
  then show "unat (fst qr) * unat den + unat (snd qr) = 2 * (unat q * unat den + unat r)" "snd qr < den"
    "unat (fst qr) \<le> 2 * unat q + 1"
    by (simp_all add: word_less_nat_alt)
qed

lemma adding_step:
  fixes q r num den :: u64
  assumes "r < den" and "num < den" and "unat q + 1 < 2 ^ 64"
  defines "qr \<equiv> (if r \<ge> den - num then (q + 1, r - (den - num)) else (q, r + num))"
  shows "unat (fst qr) * unat den + unat (snd qr) = unat q * unat den + unat r + unat num" "snd qr < den"
proof -
  have r: "unat r < unat den" "unat num < unat den" using assms(1,2) by (simp_all add: word_less_nat_alt)
  have sub: "unat (den - num) = unat den - unat num" using assms(2) by (simp add: unat_sub)
  have q1: "unat (q + 1) = unat q + 1" using assms(3) unat_plus_no_overflow [of q 1] by simp
  have "unat (fst qr) * unat den + unat (snd qr) = unat q * unat den + unat r + unat num \<and> unat (snd qr) < unat den"
  proof (cases "r \<ge> den - num")
    case True
    then have ge: "unat den - unat num \<le> unat r" using sub by (simp add: word_le_nat_alt)
    have "unat (r - (den - num)) = unat r - (unat den - unat num)" using unat_sub [OF True] sub by simp
    with True ge r q1 show ?thesis by (simp add: qr_def algebra_simps)
  next
    case False
    then have lt: "unat r + unat num < unat den" using sub r by (simp add: word_le_nat_alt)
    then have "unat (r + num) = unat r + unat num"
      using unat_plus_no_overflow [of r num] unat_u64_bound [of den] by simp
    with False lt show ?thesis by (simp add: qr_def)
  qed
  then show "unat (fst qr) * unat den + unat (snd qr) = unat q * unat den + unat r + unat num" "snd qr < den"
    by (simp_all add: word_less_nat_alt)
qed

lemma fraction_step_division:
  assumes "numerator < denominator"
    and "partial_division numerator denominator (unat (drop_bit (Suc b) multiplier)) d"
  shows "partial_division numerator denominator (unat (drop_bit b multiplier))
           (fraction_step numerator multiplier denominator b d)"
proof -
  let ?m = "unat (drop_bit (Suc b) multiplier)" and ?n = "unat numerator" and ?d = "unat denominator"
  have lt: "?n < ?d" using assms(1) by (simp add: word_less_nat_alt)
  have inv: "?n * ?m = unat (quotient d) * ?d + unat (remainder d)" and r: "remainder d < denominator"
    using assms(2) by (simp_all add: partial_division_def)
  have "2 * ?m + 1 < 2 ^ 64"
  proof -
    have "?m = unat multiplier div 2 ^ Suc b" by (rule unat_drop_bit)
    also have "\<dots> \<le> unat multiplier div 2" by (simp add: div_le_mono2)
    finally have "2 * ?m \<le> unat multiplier" by linarith
    moreover have "even (2 ^ 64 :: nat)" by simp
    ultimately show ?thesis using unat_u64_bound [of multiplier] by presburger
  qed
  moreover have "unat (quotient d) \<le> ?m" by (rule partial_quotient_bound [OF inv lt])
  ultimately have q: "2 * unat (quotient d) + 1 < 2 ^ 64" by linarith
  obtain q' r' where qr: "(if remainder d \<ge> denominator - remainder d
       then (quotient d * 2 + 1, remainder d - (denominator - remainder d))
       else (quotient d * 2, remainder d * 2)) = (q', r')" by fastforce
  note dbl = doubling_step [OF r q, unfolded qr, simplified]
  have two: "?n * (2 * ?m) = unat q' * ?d + unat r'" using dbl(1) inv by simp
  have step: "fraction_step numerator multiplier denominator b d =
      (if drop_bit b multiplier AND 1 = 0 then \<lparr>quotient = q', remainder = r'\<rparr>
       else if r' \<ge> denominator - numerator
       then \<lparr>quotient = q' + 1, remainder = r' - (denominator - numerator)\<rparr>
       else \<lparr>quotient = q', remainder = r' + numerator\<rparr>)"
    unfolding fraction_step_def Let_def qr by simp
  show ?thesis
  proof (cases "drop_bit b multiplier AND 1 = 0")
    case True
    then show ?thesis using two dbl(2) shifted_bit [of b multiplier] by (simp add: step partial_division_def)
  next
    case False
    then have bits: "unat (drop_bit b multiplier) = 2 * ?m + 1" using shifted_bit [of b multiplier] by simp
    have "unat q' \<le> 2 * ?m" by (rule partial_quotient_bound [OF two lt])
    then have "unat q' + 1 < 2 ^ 64" using bits unat_u64_bound [of "drop_bit b multiplier"] by linarith
    from adding_step [OF dbl(2) assms(1) this] two False bits show ?thesis
      by (simp add: step partial_division_def distrib_left split: if_splits)
  qed
qed

lemma fraction_loop_division:
  assumes "numerator < denominator"
  shows "partial_division numerator denominator (unat (drop_bit b multiplier)) d \<Longrightarrow>
     partial_division numerator denominator (unat multiplier) (fraction_loop numerator multiplier denominator b d)"
  by (induction b arbitrary: d) (simp_all add: fraction_step_division [OF assms])

lemma multiply_fraction_exact:
  assumes "numerator < denominator"
  shows "unat (quotient (multiply_fraction numerator multiplier denominator))
           = unat numerator * unat multiplier div unat denominator"
    and "unat (remainder (multiply_fraction numerator multiplier denominator))
           = unat numerator * unat multiplier mod unat denominator"
proof -
  have "unat (drop_bit 64 multiplier) = 0" using unat_u64_bound [of multiplier] by (simp add: unat_drop_bit)
  then have "partial_division numerator denominator (unat (drop_bit 64 multiplier)) \<lparr>quotient = 0, remainder = 0\<rparr>"
    using assms by (simp add: partial_division_def word_less_nat_alt)
  from fraction_loop_division [OF assms this]
  have "unat numerator * unat multiplier =
      unat (quotient (multiply_fraction numerator multiplier denominator)) * unat denominator
      + unat (remainder (multiply_fraction numerator multiplier denominator))"
    "unat (remainder (multiply_fraction numerator multiplier denominator)) < unat denominator"
    by (simp_all add: partial_division_def multiply_fraction_def word_less_nat_alt)
  then show "unat (quotient (multiply_fraction numerator multiplier denominator))
           = unat numerator * unat multiplier div unat denominator"
    "unat (remainder (multiply_fraction numerator multiplier denominator))
           = unat numerator * unat multiplier mod unat denominator"
    by simp_all
qed

section \<open>The delay\<close>

definition ceiling_div :: "nat \<Rightarrow> nat \<Rightarrow> nat" where
  "ceiling_div a b = (a + b - 1) div b"

lemma ceiling_div_eq: "0 < b \<Longrightarrow> ceiling_div a b = a div b + (if a mod b = 0 then 0 else 1)"
proof -
  assume b: "0 < b"
  have "a + b - 1 = a div b * b + (a mod b + b - 1)" using b div_mult_mod_eq [of a b] by linarith
  then have "ceiling_div a b = a div b + (a mod b + b - 1) div b"
    using b unfolding ceiling_div_def by (metis div_mult_self3 add.commute less_not_refl2)
  moreover have "(a mod b + b - 1) div b = (if a mod b = 0 then 0 else 1)"
  proof (cases "a mod b = 0")
    case False
    then have "a mod b + b - 1 = b + (a mod b - 1)" by simp
    moreover have "(b + (a mod b - 1)) div b = Suc 0"
      using b by (simp add: div_add_self1 div_less less_imp_diff_less del: Nat.add_diff_assoc Nat.add_diff_assoc2)
    ultimately show ?thesis using False by simp
  qed (use b in simp)
  ultimately show ?thesis by simp
qed

lemma split_division:
  fixes n m d :: nat
  assumes "0 < d"
  shows "n * m div d = n div d * m + (n mod d) * m div d" "n * m mod d = (n mod d) * m mod d"
proof -
  have "n * m = (n div d * m) * d + (n mod d) * m"
    by (metis add_mult_distrib div_mult_mod_eq mult.assoc mult.commute)
  then show "n * m div d = n div d * m + (n mod d) * m div d" using assms by simp
  show "n * m mod d = (n mod d) * m mod d" by (simp add: mod_mult_left_eq)
qed

lemma u64_succ_fits: "n \<noteq> u64_max \<Longrightarrow> unat (n + 1) = unat n + 1" for n :: u64
  using unat_plus_no_overflow [of n 1] max_minus_less_iff [of n 1] le_max_minus_iff [of 1 n]
    unat_u64_bound [of n]
  by (cases "unat n + 1 < 2 ^ 64")
    (auto simp: word_unat_eq_iff unsigned_minus_1_eq_mask mask_eq_exp_minus_1)

lemma unat_eq_0_iff: "unat x = 0 \<longleftrightarrow> x = 0" for x :: u64
  by (rule unsigned_eq_0_iff)

lemma unat_u64_max: "unat (u64_max) = 2 ^ 64 - 1"
  by (simp add: unsigned_minus_1_eq_mask mask_eq_exp_minus_1)

lemma serialization_delay_eq:
  assumes "bytes \<noteq> 0" and "bandwidth \<noteq> 0"
  defines "t \<equiv> ceiling_div (unat bytes * 8000000000) (unat bandwidth)"
  shows "serialization_delay bytes bandwidth = (if t < 2 ^ 64 then Some (of_nat t) else None)"
proof -
  let ?B = "unat bandwidth" and ?b = "unat bytes" and ?k = "8000000000 :: nat"
  have B: "0 < ?B" using assms(2) by (simp add: unat_gt_0)
  have k: "unat bit_nanoseconds_per_byte = ?k" by (simp add: bit_nanoseconds_per_byte_def)
  have lt: "bytes mod bandwidth < bandwidth" using assms(2) by (simp add: word_mod_less_divisor word_gt_0)
  let ?f = "multiply_fraction (bytes mod bandwidth) bit_nanoseconds_per_byte bandwidth"
  let ?w = "bytes div bandwidth"
  have q: "unat (quotient ?f) = ?b mod ?B * ?k div ?B" and r: "unat (remainder ?f) = ?b mod ?B * ?k mod ?B"
    using multiply_fraction_exact [OF lt, of bit_nanoseconds_per_byte] by (simp_all add: k unat_mod)
  have w: "unat ?w = ?b div ?B" by (simp add: unat_div)
  have t: "t = unat ?w * ?k + unat (quotient ?f) + (if remainder ?f = 0 then 0 else 1)"
    using split_division [OF B, of ?b ?k] q r w unat_eq_0_iff [of "remainder ?f"]
    unfolding t_def ceiling_div_eq [OF B] by (simp only:)
  have g1: "?w > u64_max div bit_nanoseconds_per_byte \<longleftrightarrow> 2 ^ 64 \<le> unat ?w * ?k"
    using le_max_div_iff [of bit_nanoseconds_per_byte ?w] k
    by (simp add: word_gt_0 not_le [symmetric] bit_nanoseconds_per_byte_def)
  show ?thesis
  proof (cases "2 ^ 64 \<le> unat ?w * ?k")
    case True
    then have "\<not> t < 2 ^ 64" using t by linarith
    with True g1 assms(1,2) show ?thesis by (simp add: serialization_delay_def Let_def)
  next
    case False
    let ?n = "?w * bit_nanoseconds_per_byte"
    have n: "unat ?n = unat ?w * ?k" using False unat_mult_no_overflow [of ?w bit_nanoseconds_per_byte] by (simp add: k)
    have g2: "quotient ?f > u64_max - ?n \<longleftrightarrow> 2 ^ 64 \<le> unat ?n + unat (quotient ?f)"
      using max_minus_less_iff [of ?n "quotient ?f"] by simp
    show ?thesis
    proof (cases "2 ^ 64 \<le> unat ?n + unat (quotient ?f)")
      case True
      then have "\<not> t < 2 ^ 64" using t n by linarith
      with True False g1 g2 assms(1,2) show ?thesis by (simp add: serialization_delay_def Let_def)
    next
      case nofit: False
      let ?s = "?n + quotient ?f"
      have s: "unat ?s = unat ?n + unat (quotient ?f)" using nofit unat_plus_no_overflow [of ?n "quotient ?f"] by simp
      have val: "serialization_delay bytes bandwidth =
          (if remainder ?f \<noteq> 0 then if ?s = u64_max then None else Some (?s + 1) else Some ?s)"
        using False nofit g1 g2 assms(1,2) by (simp add: serialization_delay_def Let_def)
      have max: "?s = u64_max \<longleftrightarrow> unat ?s = 2 ^ 64 - 1" using unat_u64_max by (metis word_unat_eq_iff)
      have of: "of_nat (unat x) = x" for x :: u64 by simp
      show ?thesis
      proof (cases "remainder ?f = 0")
        case True
        then have "t = unat ?s" using t n s by simp
        with val True show ?thesis using unat_u64_bound [of ?s] by simp
      next
        case odd: False
        show ?thesis
        proof (cases "?s = u64_max")
          case True
          then have "t = 2 ^ 64" using t n s odd max by simp
          with val odd True show ?thesis by simp
        next
          case False
          then have "t = unat (?s + 1)" using t n s odd u64_succ_fits [OF False] by simp
          with val odd False show ?thesis using unat_u64_bound [of "?s + 1"] by simp
        qed
      qed
    qed
  qed
qed

text \<open>Evaluation uses the closed form.\<close>

lemma serialization_delay_code [code]:
  "serialization_delay bytes bandwidth =
     (if bytes = 0 \<or> bandwidth = 0 then None
      else let t = (uint bytes * 8000000000 + uint bandwidth - 1) div uint bandwidth
           in if t < 18446744073709551616 then Some (of_int t) else None)"
proof (cases "bytes = 0 \<or> bandwidth = 0")
  case False
  define t where "t = ceiling_div (unat bytes * 8000000000) (unat bandwidth)"
  have "0 < unat bandwidth" using False by (simp add: unat_gt_0)
  then have "int (unat bytes * 8000000000 + unat bandwidth - 1) = uint bytes * 8000000000 + uint bandwidth - 1"
    by (simp add: of_nat_diff)
  then have t: "int t = (uint bytes * 8000000000 + uint bandwidth - 1) div uint bandwidth"
    by (simp only: t_def ceiling_div_def zdiv_int) simp
  have "serialization_delay bytes bandwidth = (if t < 2 ^ 64 then Some (of_nat t) else None)"
    unfolding t_def using False by (intro serialization_delay_eq) simp_all
  also have "\<dots> = (if int t < 18446744073709551616 then Some (of_int (int t)) else None)" by simp
  finally show ?thesis using False by (simp only: t Let_def if_False)
qed (auto simp: serialization_delay_def)

section \<open>Properties\<close>

text \<open>C33. \<^verbatim>\<open>serialization_delay\<close> is exact over the full 64-bit range: it is the bit time
  \<open>8000000000 * bytes / bandwidth\<close> in nanoseconds, rounded up, computed without a wider product, and
  it is absent exactly for a zero byte count, a zero bandwidth or a delay of \<open>2 ^ 64\<close> ns or more.\<close>

theorem serialization_delay_exact:
  "serialization_delay bytes bandwidth =
     (let t = ceiling_div (unat bytes * 8000000000) (unat bandwidth)
      in if bytes = 0 \<or> bandwidth = 0 \<or> 2 ^ 64 \<le> t then None else Some (of_nat t))"
proof (cases "bytes = 0 \<or> bandwidth = 0")
  case True
  then show ?thesis by (auto simp: serialization_delay_def)
next
  case False
  then show ?thesis using serialization_delay_eq [of bytes bandwidth] by (simp add: Let_def not_le)
qed

end
