(* ===== verification/Link_Queue.thy ===== *)
theory Link_Queue
  imports Entities Timing
begin

text \<open>
  The queue of a directed link (\<^verbatim>\<open>transport/link_queue.hpp\<close>, \<^verbatim>\<open>transport/link_queue.cpp\<close>): one chunk in
  service, a bounded FIFO buffer of waiting chunks with congestion marking, and high-water marks. The
  lemmas relate it to a plain list of chunks, the contract \<open>fifo_link\<close>.
\<close>

section \<open>State\<close>

record directed_link_configuration =
  cfg_link :: directed_link_id
  bandwidth :: bits_per_second
  propagation_delay :: sim_duration
  waiting_buffer_capacity :: byte_count
  marking_threshold :: "byte_count option"

record transfer_chunk =
  tc_transfer :: transfer_id
  tc_id :: chunk_id
  tc_bytes :: byte_count
  tc_hop_index :: u32
  tc_marked :: bool

datatype admission_disposition = ServiceStarted | Queued | DroppedBufferFull

record admission_result =
  disposition :: admission_disposition
  marked_here :: bool

record service_transition =
  completed_chunk :: transfer_chunk
  next_started :: "transfer_chunk option"

record queue_snapshot =
  snap_waiting_bytes :: byte_count
  snap_waiting_chunks :: size_t
  snap_maximum_waiting_bytes :: byte_count
  snap_maximum_waiting_chunks :: size_t
  snap_busy :: bool

record queue_drain =
  drained_active :: "transfer_chunk option"
  drained_waiting :: "transfer_chunk list"

record link_queue =
  lq_configuration :: directed_link_configuration
  lq_active :: "transfer_chunk option"
  lq_waiting :: "transfer_chunk list"
  waiting_bytes :: u64
  maximum_waiting_bytes :: u64
  maximum_waiting_chunks :: size_t

section \<open>Operations\<close>

definition validate_link_configuration :: "directed_link_configuration \<Rightarrow> exn + unit" where
  "validate_link_configuration c =
     (if bandwidth c = 0 then Inl (InvalidArgument ''directed-link bandwidth must be nonzero'')
      else case marking_threshold c of
        None \<Rightarrow> Inr ()
      | Some threshold \<Rightarrow>
          if threshold = 0
          then Inl (InvalidArgument ''marking threshold must be nonzero when enabled'')
          else if threshold > waiting_buffer_capacity c
          then Inl (InvalidArgument ''marking threshold exceeds waiting-buffer capacity'')
          else Inr ())"

definition new_link_queue :: "directed_link_configuration \<Rightarrow> exn + link_queue" where
  "new_link_queue c =
     bindR (validate_link_configuration c) (\<lambda>_.
     Inr \<lparr>lq_configuration = c, lq_active = None, lq_waiting = [], waiting_bytes = 0,
          maximum_waiting_bytes = 0, maximum_waiting_chunks = 0\<rparr>)"

definition next_waiting :: "link_queue \<Rightarrow> transfer_chunk option" where
  "next_waiting q = (case lq_waiting q of [] \<Rightarrow> None | c # _ \<Rightarrow> Some c)"

definition queue_snapshot_of :: "link_queue \<Rightarrow> queue_snapshot" where
  "queue_snapshot_of q =
     \<lparr>snap_waiting_bytes = waiting_bytes q, snap_waiting_chunks = length (lq_waiting q),
      snap_maximum_waiting_bytes = maximum_waiting_bytes q,
      snap_maximum_waiting_chunks = maximum_waiting_chunks q, snap_busy = (lq_active q \<noteq> None)\<rparr>"

definition queue_admit :: "transfer_chunk \<Rightarrow> (link_queue, admission_result) prog" where
  "queue_admit chunk =
     seq (throw_if (tc_bytes chunk = 0) (InvalidArgument ''transfer chunk must contain nonzero bytes''))
    (bind (gets lq_active) (\<lambda>act.
     case act of
       None \<Rightarrow>
         seq (modify (\<lambda>q. q\<lparr>lq_active := Some chunk\<rparr>))
             (return \<lparr>disposition = ServiceStarted, marked_here = False\<rparr>)
     | Some _ \<Rightarrow>
         bind (gets (\<lambda>q. (waiting_buffer_capacity (lq_configuration q), waiting_bytes q,
                         marking_threshold (lq_configuration q)))) (\<lambda>(capacity, waiting, threshold).
         if tc_bytes chunk > capacity - waiting
         then return \<lparr>disposition = DroppedBufferFull, marked_here = False\<rparr>
         else
           let admitted = waiting + tc_bytes chunk;
               marked = (case threshold of None \<Rightarrow> False | Some t \<Rightarrow> admitted \<ge> t)
           in seq (modify (\<lambda>q. q\<lparr>lq_waiting := lq_waiting q @ [chunk\<lparr>tc_marked := tc_marked chunk \<or> marked\<rparr>],
                                waiting_bytes := admitted,
                                maximum_waiting_bytes := max (maximum_waiting_bytes q) admitted,
                                maximum_waiting_chunks :=
                                  max (maximum_waiting_chunks q) (Suc (length (lq_waiting q)))\<rparr>))
                  (return \<lparr>disposition = Queued, marked_here = marked\<rparr>))))"

definition complete_service :: "link_queue \<Rightarrow> service_transition option \<times> link_queue" where
  "complete_service q =
     (case lq_active q of
        None \<Rightarrow> (None, q)
      | Some done_chunk \<Rightarrow>
          (case lq_waiting q of
             [] \<Rightarrow> (Some \<lparr>completed_chunk = done_chunk, next_started = None\<rparr>, q\<lparr>lq_active := None\<rparr>)
           | c # cs \<Rightarrow> (Some \<lparr>completed_chunk = done_chunk, next_started = Some c\<rparr>,
                        q\<lparr>lq_active := Some c, lq_waiting := cs, waiting_bytes := waiting_bytes q - tc_bytes c\<rparr>)))"

definition drain_queue :: "link_queue \<Rightarrow> queue_drain \<times> link_queue" where
  "drain_queue q =
     (\<lparr>drained_active = lq_active q, drained_waiting = lq_waiting q\<rparr>,
      q\<lparr>lq_active := None, lq_waiting := [], waiting_bytes := 0\<rparr>)"

section \<open>The contract: a bounded first-in first-out buffer\<close>

definition chunk_total :: "transfer_chunk list \<Rightarrow> nat" where
  "chunk_total cs = sum_list (map (unat \<circ> tc_bytes) cs)"

definition queue_contents :: "link_queue \<Rightarrow> transfer_chunk list" where
  "queue_contents q = (case lq_active q of None \<Rightarrow> [] | Some c \<Rightarrow> c # lq_waiting q)"

definition queue_inv :: "link_queue \<Rightarrow> bool" where
  "queue_inv q \<longleftrightarrow>
     validate_link_configuration (lq_configuration q) = Inr ()
     \<and> (lq_active q = None \<longrightarrow> lq_waiting q = [])
     \<and> unat (waiting_bytes q) = chunk_total (lq_waiting q)
     \<and> waiting_bytes q \<le> maximum_waiting_bytes q
     \<and> maximum_waiting_bytes q \<le> waiting_buffer_capacity (lq_configuration q)
     \<and> length (lq_waiting q) \<le> maximum_waiting_chunks q
     \<and> list_all (\<lambda>c. tc_bytes c \<noteq> 0) (queue_contents q)"

text \<open>The chunk an accepting queue stores, with its congestion mark.\<close>

definition stored_chunk :: "transfer_chunk \<Rightarrow> admission_result \<Rightarrow> transfer_chunk" where
  "stored_chunk c r = c\<lparr>tc_marked := tc_marked c \<or> marked_here r\<rparr>"

definition accepted_chunk :: "transfer_chunk \<Rightarrow> admission_result \<Rightarrow> transfer_chunk list" where
  "accepted_chunk c r = (if disposition r = DroppedBufferFull then [] else [stored_chunk c r])"

datatype link_op = LinkAdmit transfer_chunk | LinkComplete

text \<open>
  A step of a history, with the chunks accepted and the chunks served so far.
\<close>

fun link_step ::
  "(transfer_chunk \<Rightarrow> ('q, admission_result) prog) \<Rightarrow> ('q \<Rightarrow> service_transition option \<times> 'q) \<Rightarrow> link_op
   \<Rightarrow> 'q \<times> transfer_chunk list \<times> transfer_chunk list \<Rightarrow> 'q \<times> transfer_chunk list \<times> transfer_chunk list" where
  "link_step admit complete (LinkAdmit c) (q, accepted, served) =
     (case admit c q of
        (Inl e, q') \<Rightarrow> (q', accepted, served)
      | (Inr r, q') \<Rightarrow> (q', accepted @ accepted_chunk c r, served))"
| "link_step admit complete LinkComplete (q, accepted, served) =
     (case complete q of
        (None, q') \<Rightarrow> (q', accepted, served)
      | (Some t, q') \<Rightarrow> (q', accepted, served @ [completed_chunk t]))"

text \<open>
  A link that keeps its chunks in order: admission appends what it accepts, completion takes the
  first. A history of operations then hands out the accepted chunks in order, without loss.
\<close>

locale fifo_link =
  fixes admit :: "transfer_chunk \<Rightarrow> ('q, admission_result) prog"
    and complete :: "'q \<Rightarrow> service_transition option \<times> 'q"
    and contents :: "'q \<Rightarrow> transfer_chunk list"
    and inv :: "'q \<Rightarrow> bool"
  assumes admit_appends: "inv q \<Longrightarrow> admit c q = (Inr r, q') \<Longrightarrow>
      inv q' \<and> contents q' = contents q @ accepted_chunk c r"
    and admit_rejects: "inv q \<Longrightarrow> admit c q = (Inl e, q') \<Longrightarrow> q' = q"
    and complete_takes: "inv q \<Longrightarrow> complete q = (t, q') \<Longrightarrow>
      inv q' \<and> contents q = map completed_chunk (case t of None \<Rightarrow> [] | Some x \<Rightarrow> [x]) @ contents q'"
begin

lemma link_step_fifo:
  assumes "inv q" and "accepted = served @ contents q" and "link_step admit complete op (q, accepted, served) = (q', acc', srv')"
  shows "inv q' \<and> acc' = srv' @ contents q'"
proof (cases op)
  case (LinkAdmit c)
  obtain x t where x: "admit c q = (x, t)" by (cases "admit c q")
  show ?thesis
  proof (cases x)
    case (Inl e)
    with admit_rejects [OF assms(1)] x assms LinkAdmit show ?thesis by auto
  next
    case (Inr r)
    with admit_appends [OF assms(1)] x assms LinkAdmit show ?thesis by auto
  qed
next
  case LinkComplete
  obtain x t where x: "complete q = (x, t)" by (cases "complete q")
  with complete_takes [OF assms(1) x] assms LinkComplete show ?thesis by (auto split: option.splits)
qed

lemma link_history_fifo:
  assumes "inv q" and "accepted = served @ contents q" and "fold (link_step admit complete) ops (q, accepted, served) = (q', acc', srv')"
  shows "inv q' \<and> acc' = srv' @ contents q'"
  using assms
proof (induction ops arbitrary: q accepted served)
  case (Cons op ops)
  obtain q1 a1 s1 where step: "link_step admit complete op (q, accepted, served) = (q1, a1, s1)"
    by (cases "link_step admit complete op (q, accepted, served)") auto
  from link_step_fifo [OF Cons.prems(1,2) step] Cons.IH [of q1 a1 s1] Cons.prems(3) step show ?case by simp
qed simp

end

section \<open>The queue meets the contract\<close>

lemma chunk_total_simps [simp]:
  "chunk_total [] = 0" "chunk_total (c # cs) = unat (tc_bytes c) + chunk_total cs"
  "chunk_total (cs @ ds) = chunk_total cs + chunk_total ds"
  by (simp_all add: chunk_total_def)

lemma new_link_queue_inv: "new_link_queue c = Inr q \<Longrightarrow> queue_inv q \<and> queue_contents q = [] \<and> lq_configuration q = c"
  by (auto simp: new_link_queue_def bindR_eq_Inr queue_inv_def queue_contents_def)

definition admitted_queue :: "transfer_chunk \<Rightarrow> link_queue \<Rightarrow> link_queue" where
  "admitted_queue c q =
     q\<lparr>lq_waiting := lq_waiting q @ [c], waiting_bytes := waiting_bytes q + tc_bytes c,
       maximum_waiting_bytes := max (maximum_waiting_bytes q) (waiting_bytes q + tc_bytes c),
       maximum_waiting_chunks := max (maximum_waiting_chunks q) (Suc (length (lq_waiting q)))\<rparr>"

definition marks :: "link_queue \<Rightarrow> transfer_chunk \<Rightarrow> bool" where
  "marks q c = (case marking_threshold (lq_configuration q) of
     None \<Rightarrow> False | Some t \<Rightarrow> waiting_bytes q + tc_bytes c \<ge> t)"

definition overflows :: "link_queue \<Rightarrow> transfer_chunk \<Rightarrow> bool" where
  "overflows q c \<longleftrightarrow> lq_active q \<noteq> None
     \<and> tc_bytes c > waiting_buffer_capacity (lq_configuration q) - waiting_bytes q"

definition admission_outcome :: "transfer_chunk \<Rightarrow> link_queue \<Rightarrow> admission_result \<times> link_queue" where
  "admission_outcome c q =
     (if lq_active q = None
      then (\<lparr>disposition = ServiceStarted, marked_here = False\<rparr>, q\<lparr>lq_active := Some c\<rparr>)
      else if overflows q c then (\<lparr>disposition = DroppedBufferFull, marked_here = False\<rparr>, q)
      else (\<lparr>disposition = Queued, marked_here = marks q c\<rparr>,
            admitted_queue (c\<lparr>tc_marked := tc_marked c \<or> marks q c\<rparr>) q))"

lemma queue_admit_eq:
  "queue_admit c q =
     (if tc_bytes c = 0 then (Inl (InvalidArgument ''transfer chunk must contain nonzero bytes''), q)
      else (case admission_outcome c q of (r, q') \<Rightarrow> (Inr r, q')))"
  by (simp add: queue_admit_def prog_defs admission_outcome_def overflows_def admitted_queue_def marks_def Let_def
      split: option.splits)

lemma capacity_room:
  fixes c w b :: u64
  assumes "w \<le> c" and "\<not> b > c - w"
  shows "unat (w + b) = unat w + unat b" "w + b \<le> c"
proof -
  have "unat b \<le> unat c - unat w" using assms by (simp add: word_le_nat_alt unat_sub not_less)
  then have le: "unat w + unat b \<le> unat c" using assms(1) by (simp add: word_le_nat_alt)
  then show eq: "unat (w + b) = unat w + unat b"
    using unat_plus_no_overflow [of w b] unat_u64_bound [of c] by simp
  then show "w + b \<le> c" using le by (simp add: word_le_nat_alt)
qed

lemma admission_outcome_inv:
  assumes inv: "queue_inv q" and "tc_bytes c \<noteq> 0" and out: "admission_outcome c q = (r, q')"
  shows "queue_inv q'" "queue_contents q' = queue_contents q @ accepted_chunk c r"
    "lq_configuration q' = lq_configuration q"
proof -
  have le: "waiting_bytes q \<le> waiting_buffer_capacity (lq_configuration q)"
    using inv by (meson order.trans queue_inv_def)
  have "queue_inv q' \<and> queue_contents q' = queue_contents q @ accepted_chunk c r
      \<and> lq_configuration q' = lq_configuration q"
  proof (cases "lq_active q = None \<or> overflows q c")
    case True
    then show ?thesis
      using inv assms(2) out
      by (auto simp: admission_outcome_def queue_inv_def queue_contents_def accepted_chunk_def stored_chunk_def
          overflows_def split: option.splits)
  next
    case False
    let ?c = "c\<lparr>tc_marked := tc_marked c \<or> marks q c\<rparr>"
    have "\<not> tc_bytes c > waiting_buffer_capacity (lq_configuration q) - waiting_bytes q"
      using False by (auto simp: overflows_def)
    note room = capacity_room [OF le this]
    from False out have "q' = admitted_queue ?c q" "r = \<lparr>disposition = Queued, marked_here = marks q c\<rparr>"
      by (auto simp: admission_outcome_def)
    with inv assms(2) False room show ?thesis
      by (auto simp: queue_inv_def queue_contents_def accepted_chunk_def stored_chunk_def admitted_queue_def
          max_def split: option.splits)
  qed
  then show "queue_inv q'" "queue_contents q' = queue_contents q @ accepted_chunk c r"
    "lq_configuration q' = lq_configuration q" by simp_all
qed

lemma complete_service_inv:
  assumes inv: "queue_inv q" and out: "complete_service q = (t, q')"
  shows "queue_inv q'" "queue_contents q = map completed_chunk (case t of None \<Rightarrow> [] | Some x \<Rightarrow> [x]) @ queue_contents q'"
    "lq_configuration q' = lq_configuration q"
proof -
  have "queue_inv q' \<and> queue_contents q = map completed_chunk (case t of None \<Rightarrow> [] | Some x \<Rightarrow> [x]) @ queue_contents q'
      \<and> lq_configuration q' = lq_configuration q"
  proof (cases "lq_waiting q")
    case Nil
    then show ?thesis using inv out
      by (auto simp: complete_service_def queue_inv_def queue_contents_def split: option.splits)
  next
    case (Cons c cs)
    then obtain a where a: "lq_active q = Some a" using inv by (auto simp: queue_inv_def)
    have tot: "unat (waiting_bytes q) = unat (tc_bytes c) + chunk_total cs" using inv Cons by (simp add: queue_inv_def)
    then have "tc_bytes c \<le> waiting_bytes q" by (simp add: word_le_nat_alt)
    then have sub: "unat (waiting_bytes q - tc_bytes c) = chunk_total cs" using tot by (simp add: unat_sub)
    then have "waiting_bytes q - tc_bytes c \<le> waiting_bytes q" using tot by (simp add: word_le_nat_alt)
    then have "waiting_bytes q - tc_bytes c \<le> maximum_waiting_bytes q"
      using inv by (meson order.trans queue_inv_def)
    with sub a Cons inv out show ?thesis
      by (auto simp: complete_service_def queue_inv_def queue_contents_def)
  qed
  then show "queue_inv q'" "queue_contents q = map completed_chunk (case t of None \<Rightarrow> [] | Some x \<Rightarrow> [x]) @ queue_contents q'"
    "lq_configuration q' = lq_configuration q" by simp_all
qed

lemma drain_queue_inv:
  assumes "queue_inv q" and "drain_queue q = (d, q')"
  shows "queue_inv q'" "queue_contents q' = []" "lq_configuration q' = lq_configuration q"
    "queue_contents q = (case drained_active d of None \<Rightarrow> [] | Some c \<Rightarrow> c # drained_waiting d)"
    "drained_active d = None \<Longrightarrow> drained_waiting d = []"
  using assms by (auto simp: drain_queue_def queue_inv_def queue_contents_def split: option.splits)

lemma queue_admit_fifo:
  assumes "queue_inv q" and "queue_admit c q = (Inr r, q')"
  shows "queue_inv q' \<and> queue_contents q' = queue_contents q @ accepted_chunk c r"
proof -
  obtain x t where x: "admission_outcome c q = (x, t)" by (cases "admission_outcome c q")
  with assms(2) have "tc_bytes c \<noteq> 0" "r = x" "q' = t" by (auto simp: queue_admit_eq split: if_splits)
  with admission_outcome_inv [OF assms(1) _ x] show ?thesis by simp
qed

interpretation link_fifo: fifo_link queue_admit complete_service queue_contents queue_inv
proof
  show "queue_inv q' \<and> queue_contents q' = queue_contents q @ accepted_chunk c r"
    if "queue_inv q" "queue_admit c q = (Inr r, q')" for q c r q'
    using that by (rule queue_admit_fifo)
  show "q' = q" if "queue_inv q" "queue_admit c q = (Inl e, q')" for q c e q'
    using that by (auto simp: queue_admit_eq split: if_splits prod.splits)
  show "queue_inv q' \<and> queue_contents q = map completed_chunk (case t of None \<Rightarrow> [] | Some x \<Rightarrow> [x]) @ queue_contents q'"
    if "queue_inv q" "complete_service q = (t, q')" for q t q'
    using complete_service_inv [OF that] by simp
qed

section \<open>Properties\<close>


definition example_link :: directed_link_configuration where
  "example_link = \<lparr>cfg_link = DirectedLinkId 0 AToB, bandwidth = 8000000000, propagation_delay = 5,
     waiting_buffer_capacity = 100, marking_threshold = Some 50\<rparr>"

definition example_chunk :: "chunk_id \<Rightarrow> byte_count \<Rightarrow> transfer_chunk" where
  "example_chunk i n = \<lparr>tc_transfer = 0, tc_id = i, tc_bytes = n, tc_hop_index = 0, tc_marked = False\<rparr>"


text \<open>Admission decides exactly: a chunk without bytes is refused and changes nothing; an idle link
  starts service at once, unmarked; a busy link drops the chunk precisely when the buffer would exceed
  its capacity, leaving the queue as it was, and otherwise queues it, marked precisely when a threshold
  is configured and the waiting bytes with the chunk reach it. No sum wraps.\<close>

theorem queue_admit_exact:
  assumes "queue_inv q"
  shows "queue_admit c q =
     (if tc_bytes c = 0 then (Inl (InvalidArgument ''transfer chunk must contain nonzero bytes''), q)
      else if lq_active q = None
      then (Inr \<lparr>disposition = ServiceStarted, marked_here = False\<rparr>, q\<lparr>lq_active := Some c\<rparr>)
      else let total = chunk_total (lq_waiting q) + unat (tc_bytes c);
               mark = (\<exists>t. marking_threshold (lq_configuration q) = Some t \<and> unat t \<le> total)
           in if unat (waiting_buffer_capacity (lq_configuration q)) < total
              then (Inr \<lparr>disposition = DroppedBufferFull, marked_here = False\<rparr>, q)
              else (Inr \<lparr>disposition = Queued, marked_here = mark\<rparr>,
                    admitted_queue (c\<lparr>tc_marked := tc_marked c \<or> mark\<rparr>) q))"
proof -
  have le: "waiting_bytes q \<le> waiting_buffer_capacity (lq_configuration q)"
    and w: "unat (waiting_bytes q) = chunk_total (lq_waiting q)"
    using assms by (auto simp: queue_inv_def)
  let ?cap = "waiting_buffer_capacity (lq_configuration q)"
  have over: "tc_bytes c > ?cap - waiting_bytes q \<longleftrightarrow> unat ?cap < chunk_total (lq_waiting q) + unat (tc_bytes c)"
    using le w by (auto simp: word_less_nat_alt word_le_nat_alt unat_sub)
  have mark: "marks q c \<longleftrightarrow> (\<exists>t. marking_threshold (lq_configuration q) = Some t
      \<and> unat t \<le> chunk_total (lq_waiting q) + unat (tc_bytes c))" if "\<not> tc_bytes c > ?cap - waiting_bytes q"
    using capacity_room(1) [OF le that] w by (simp add: marks_def word_le_nat_alt split: option.splits)
  show ?thesis
    using over mark by (simp add: queue_admit_eq admission_outcome_def overflows_def Let_def)
qed

theorem queue_admit_exact_witness:
  "\<exists>q. new_link_queue example_link = Inr q \<and> queue_inv q
     \<and> queue_admit (example_chunk 4 0) q = (Inl (InvalidArgument ''transfer chunk must contain nonzero bytes''), q)"
proof -
  obtain q where new: "new_link_queue example_link = Inr q"
    by (auto simp: new_link_queue_def validate_link_configuration_def example_link_def)
  with new_link_queue_inv [OF new] queue_admit_exact [of q "example_chunk 4 0"] show ?thesis
    by (auto simp: example_chunk_def)
qed

end
