(* ===== verification/Trace.thy ===== *)
theory Trace
  imports Entities
begin

unbundle bit_operations_syntax

text \<open>
  Events and the event trace (\<^verbatim>\<open>sim/event.hpp\<close>, \<^verbatim>\<open>sim/trace.hpp\<close>, \<^verbatim>\<open>sim/trace.cpp\<close>, the event
  structs of \<^verbatim>\<open>transport/events.hpp\<close>, \<^verbatim>\<open>workload/events.hpp\<close> and \<^verbatim>\<open>collective/model.hpp\<close>). A trace
  log keeps its records and a running FNV-1a hash of an explicit byte encoding of them. The lemmas
  show that the hash is the hash of the concatenated encodings, and that the encoding of a log
  determines the log: different logs are never hashed from the same bytes.
\<close>

section \<open>Events\<close>

datatype event_priority = Critical | Control | Normal | Background

primrec priority_code :: "event_priority \<Rightarrow> u8" where
  "priority_code Critical = 0"
| "priority_code Control = 64"
| "priority_code Normal = 128"
| "priority_code Background = 192"

datatype workload_event_kind =
  Arrival | ComputeReady | CancelJob | WorkerFailure | GpuDown | GpuUp

datatype phase = ReduceScatter | AllGather | PhaseSucceeded | PhaseFailed | PhaseCancelled

datatype event_payload =
    NoOpEvent u64
  | ChunkArrivalEvent chunk_id u32
  | TransmissionCompleteEvent link_id chunk_id u32 link_direction
  | LinkStateChangeEvent link_id operational_state
  | PortStateChangeEvent port_id operational_state
  | SwitchStateChangeEvent switch_id operational_state
  | WorkloadEvent job_id workload_event_kind u32 u32 u32
  | LocalCompletionEvent collective_id u32 u32 phase

record event_spec =
  spec_timestamp :: sim_time
  spec_priority :: event_priority
  spec_payload :: event_payload

record event =
  timestamp :: sim_time
  priority :: event_priority
  event_id :: event_id
  cause :: "event_id option"
  payload :: event_payload

section \<open>Trace records\<close>

datatype trace_mode = TraceDisabled | TraceEnabled

datatype trace_action =
  Scheduled | Dispatched | Cancelled | StopRequested | Completed | Failed

primrec trace_action_code :: "trace_action \<Rightarrow> u8" where
  "trace_action_code Scheduled = 1"
| "trace_action_code Dispatched = 2"
| "trace_action_code Cancelled = 3"
| "trace_action_code StopRequested = 4"
| "trace_action_code Completed = 5"
| "trace_action_code Failed = 6"

datatype payload_kind =
    KindNoOp | KindChunkArrival | KindTransmissionComplete | KindLinkStateChange
  | KindPortStateChange | KindSwitchStateChange | KindWorkload | KindLocalCollectiveCompletion

primrec payload_kind_code :: "payload_kind \<Rightarrow> u8" where
  "payload_kind_code KindNoOp = 1"
| "payload_kind_code KindChunkArrival = 2"
| "payload_kind_code KindTransmissionComplete = 3"
| "payload_kind_code KindLinkStateChange = 4"
| "payload_kind_code KindPortStateChange = 5"
| "payload_kind_code KindSwitchStateChange = 6"
| "payload_kind_code KindWorkload = 7"
| "payload_kind_code KindLocalCollectiveCompletion = 8"

datatype stop_reason = Requested

primrec stop_reason_code :: "stop_reason \<Rightarrow> u8" where
  "stop_reason_code Requested = 1"

record trace_record =
  action :: trace_action
  recorded_at :: sim_time
  rec_event_id :: "event_id option"
  rec_cause :: "event_id option"
  event_timestamp :: "sim_time option"
  rec_priority :: "event_priority option"
  rec_payload_kind :: "payload_kind option"
  rec_stop_reason :: "stop_reason option"
  rec_error :: "string option"

primrec payload_kind_of :: "event_payload \<Rightarrow> payload_kind" where
  "payload_kind_of (NoOpEvent _) = KindNoOp"
| "payload_kind_of (ChunkArrivalEvent _ _) = KindChunkArrival"
| "payload_kind_of (TransmissionCompleteEvent _ _ _ _) = KindTransmissionComplete"
| "payload_kind_of (LinkStateChangeEvent _ _) = KindLinkStateChange"
| "payload_kind_of (PortStateChangeEvent _ _) = KindPortStateChange"
| "payload_kind_of (SwitchStateChangeEvent _ _) = KindSwitchStateChange"
| "payload_kind_of (WorkloadEvent _ _ _ _ _) = KindWorkload"
| "payload_kind_of (LocalCompletionEvent _ _ _ _) = KindLocalCollectiveCompletion"

section \<open>The hash\<close>

definition fnv_prime :: u64 where
  "fnv_prime = 1099511628211"

definition fnv_offset_basis :: u64 where
  "fnv_offset_basis = 14695981039346656037"

definition hash_byte :: "u64 \<Rightarrow> u8 \<Rightarrow> u64" where
  "hash_byte h value = (h XOR ucast value) * fnv_prime"

definition u64_byte :: "u64 \<Rightarrow> nat \<Rightarrow> u8" where
  "u64_byte value index = ucast (drop_bit (index * 8) value AND 0xFF)"

definition hash_u64 :: "u64 \<Rightarrow> u64 \<Rightarrow> u64" where
  "hash_u64 h value = fold (\<lambda>index h. hash_byte h (u64_byte value index)) [0..<8] h"

definition hash_optional :: "(u64 \<Rightarrow> 'a \<Rightarrow> u64) \<Rightarrow> u64 \<Rightarrow> 'a option \<Rightarrow> u64" where
  "hash_optional encoder h value =
     (case value of None \<Rightarrow> hash_byte h 0 | Some v \<Rightarrow> encoder (hash_byte h 1) v)"

definition hash_priority :: "u64 \<Rightarrow> event_priority \<Rightarrow> u64" where
  "hash_priority h p = hash_byte h (priority_code p)"

definition hash_payload_kind :: "u64 \<Rightarrow> payload_kind \<Rightarrow> u64" where
  "hash_payload_kind h k = hash_byte h (payload_kind_code k)"

definition hash_stop_reason :: "u64 \<Rightarrow> stop_reason \<Rightarrow> u64" where
  "hash_stop_reason h r = hash_byte h (stop_reason_code r)"

definition hash_error :: "u64 \<Rightarrow> string \<Rightarrow> u64" where
  "hash_error h error =
     fold (\<lambda>c h. hash_byte h (of_char c)) error (hash_u64 h (of_nat (length error)))"

definition hash_record :: "trace_record \<Rightarrow> u64 \<Rightarrow> u64" where
  "hash_record r h0 =
     (let h1 = hash_byte h0 (trace_action_code (action r));
          h2 = hash_u64 h1 (recorded_at r);
          h3 = hash_optional hash_u64 h2 (rec_event_id r);
          h4 = hash_optional hash_u64 h3 (rec_cause r);
          h5 = hash_optional hash_u64 h4 (event_timestamp r);
          h6 = hash_optional hash_priority h5 (rec_priority r);
          h7 = hash_optional hash_payload_kind h6 (rec_payload_kind r);
          h8 = hash_optional hash_stop_reason h7 (rec_stop_reason r)
      in hash_optional hash_error h8 (rec_error r))"

section \<open>The log\<close>

record trace_log =
  log_mode :: trace_mode
  log_records :: "trace_record list"
  log_hash :: u64

definition new_trace_log :: "trace_mode \<Rightarrow> trace_log" where
  "new_trace_log mode = \<lparr>log_mode = mode, log_records = [], log_hash = fnv_offset_basis\<rparr>"

definition log_enabled :: "trace_log \<Rightarrow> bool" where
  "log_enabled l = (log_mode l = TraceEnabled)"

definition log_append :: "trace_record \<Rightarrow> trace_log \<Rightarrow> trace_log" where
  "log_append r l =
     (if \<not> log_enabled l then l
      else l\<lparr>log_records := log_records l @ [r], log_hash := hash_record r (log_hash l)\<rparr>)"

definition log_digest :: "trace_log \<Rightarrow> u64 option" where
  "log_digest l = (if log_enabled l then Some (log_hash l) else None)"

text \<open>The running hash is the hash of the records kept.\<close>

definition log_ok :: "trace_log \<Rightarrow> bool" where
  "log_ok l \<longleftrightarrow> log_hash l = fold hash_record (log_records l) fnv_offset_basis
              \<and> (log_mode l = TraceDisabled \<longrightarrow> log_records l = [])"

section \<open>The byte encoding behind the hash\<close>

definition encode_u64 :: "u64 \<Rightarrow> u8 list" where
  "encode_u64 v = map (u64_byte v) [0..<8]"

definition encode_optional :: "('a \<Rightarrow> u8 list) \<Rightarrow> 'a option \<Rightarrow> u8 list" where
  "encode_optional enc v = (case v of None \<Rightarrow> [0] | Some x \<Rightarrow> 1 # enc x)"

definition encode_error :: "string \<Rightarrow> u8 list" where
  "encode_error e = encode_u64 (of_nat (length e)) @ map of_char e"

definition encode_record :: "trace_record \<Rightarrow> u8 list" where
  "encode_record r =
     [trace_action_code (action r)] @ encode_u64 (recorded_at r)
     @ encode_optional encode_u64 (rec_event_id r) @ encode_optional encode_u64 (rec_cause r)
     @ encode_optional encode_u64 (event_timestamp r)
     @ encode_optional (\<lambda>p. [priority_code p]) (rec_priority r)
     @ encode_optional (\<lambda>k. [payload_kind_code k]) (rec_payload_kind r)
     @ encode_optional (\<lambda>s. [stop_reason_code s]) (rec_stop_reason r)
     @ encode_optional encode_error (rec_error r)"

definition encode_log :: "trace_record list \<Rightarrow> u8 list" where
  "encode_log rs = concat (map encode_record rs)"

text \<open>Error texts are shorter than the 64-bit size field that precedes them.\<close>

definition error_fits :: "trace_record \<Rightarrow> bool" where
  "error_fits r = (case rec_error r of None \<Rightarrow> True | Some e \<Rightarrow> length e < 2 ^ 64)"

text \<open>A code whose words can be read off the front of any stream.\<close>

definition self_delimiting :: "('a \<Rightarrow> bool) \<Rightarrow> ('a \<Rightarrow> u8 list) \<Rightarrow> bool" where
  "self_delimiting ok enc \<longleftrightarrow>
     (\<forall>x y a b. ok x \<longrightarrow> ok y \<longrightarrow> enc x @ a = enc y @ b \<longrightarrow> x = y \<and> a = b)"

section \<open>Lemmas\<close>

lemma hash_u64_encode: "hash_u64 h v = fold (\<lambda>b h. hash_byte h b) (encode_u64 v) h"
  by (simp add: hash_u64_def encode_u64_def fold_map comp_def)

lemma hash_optional_encode:
  assumes "\<And>h x. hsh h x = fold (\<lambda>b h. hash_byte h b) (enc x) h"
  shows "hash_optional hsh h v = fold (\<lambda>b h. hash_byte h b) (encode_optional enc v) h"
  by (simp add: hash_optional_def encode_optional_def assms split: option.splits)

lemma hash_error_encode: "hash_error h e = fold (\<lambda>b h. hash_byte h b) (encode_error e) h"
  by (simp add: hash_error_def encode_error_def hash_u64_encode fold_map comp_def)

lemmas hash_encode = hash_u64_encode
  hash_optional_encode [where enc = encode_u64, OF hash_u64_encode]
  hash_optional_encode [where enc = encode_error, OF hash_error_encode]
  hash_optional_encode [where enc = "\<lambda>p. [priority_code p]" and hsh = hash_priority]
  hash_optional_encode [where enc = "\<lambda>p. [payload_kind_code p]" and hsh = hash_payload_kind]
  hash_optional_encode [where enc = "\<lambda>p. [stop_reason_code p]" and hsh = hash_stop_reason]

lemma hash_record_encode: "hash_record r h = fold (\<lambda>b h. hash_byte h b) (encode_record r) h"
  by (simp add: hash_record_def encode_record_def hash_encode hash_priority_def
      hash_payload_kind_def hash_stop_reason_def Let_def)

lemma fold_hash_record:
  "fold hash_record rs h = fold (\<lambda>b h. hash_byte h b) (encode_log rs) h"
  by (induction rs arbitrary: h) (simp_all add: encode_log_def hash_record_encode)

lemma log_ok_new: "log_ok (new_trace_log m)"
  by (simp add: log_ok_def new_trace_log_def)

lemma log_ok_append: "log_ok l \<Longrightarrow> log_ok (log_append r l)"
  by (auto simp: log_ok_def log_append_def log_enabled_def)

lemma log_mode_append [simp]: "log_mode (log_append r l) = log_mode l"
  by (simp add: log_append_def)

lemma encode_u64_inject: "encode_u64 v = encode_u64 w \<Longrightarrow> v = w"
proof (rule bit_word_eqI)
  fix n
  assume eq: "encode_u64 v = encode_u64 w" and n: "n < LENGTH(64)"
  have bit: "bit (u64_byte x (n div 8)) (n mod 8) = bit x n" for x
  proof -
    have mask: "(0xFF :: u64) = mask 8" by (simp add: mask_eq_exp_minus_1)
    have "bit (u64_byte x (n div 8)) (n mod 8) \<longleftrightarrow> bit x (n div 8 * 8 + n mod 8) \<and> n mod 8 < 64"
      unfolding u64_byte_def mask by (simp add: bit_simps)
    then show ?thesis by (simp add: order_less_trans [OF mod_less_divisor [of 8 n]])
  qed
  from n have "n div 8 < 8" by simp
  with eq have "u64_byte v (n div 8) = u64_byte w (n div 8)"
    by (auto simp: encode_u64_def)
  then show "bit v n = bit w n" using bit by metis
qed

lemma length_encode_u64 [simp]: "length (encode_u64 v) = 8"
  by (simp add: encode_u64_def)

lemma self_delimiting_u64: "self_delimiting (\<lambda>_. True) encode_u64"
  by (auto simp: self_delimiting_def dest: encode_u64_inject)

lemma self_delimiting_byte: "inj code \<Longrightarrow> self_delimiting (\<lambda>_. True) (\<lambda>x. [code x])"
  by (auto simp: self_delimiting_def dest: injD)

lemma self_delimitingD:
  "self_delimiting ok enc \<Longrightarrow> ok x \<Longrightarrow> ok y \<Longrightarrow> enc x @ a = enc y @ b \<Longrightarrow> x = y \<and> a = b"
  unfolding self_delimiting_def by blast

lemma self_delimiting_optional:
  assumes "self_delimiting ok enc"
  shows "self_delimiting (\<lambda>v. \<forall>x. v = Some x \<longrightarrow> ok x) (encode_optional enc)"
  unfolding self_delimiting_def
proof (intro allI impI)
  fix v w a b
  assume ok: "\<forall>x. v = Some x \<longrightarrow> ok x" "\<forall>x. w = Some x \<longrightarrow> ok x"
    and eq: "encode_optional enc v @ a = encode_optional enc w @ b"
  show "v = w \<and> a = b"
  proof (cases "v = None \<or> w = None")
    case True
    with eq show ?thesis by (cases v; cases w) (simp_all add: encode_optional_def)
  next
    case False
    then obtain x y where vw: "v = Some x" "w = Some y" by auto
    with eq have "enc x @ a = enc y @ b" by (simp add: encode_optional_def)
    from self_delimitingD [OF assms _ _ this] ok vw show ?thesis by simp
  qed
qed

lemma self_delimiting_error: "self_delimiting (\<lambda>e. length e < 2 ^ 64) encode_error"
  unfolding self_delimiting_def
proof (intro allI impI)
  fix e f a b
  assume len: "length e < 2 ^ 64" "length f < 2 ^ 64"
    and eq: "encode_error e @ a = encode_error f @ b"
  from eq have "(of_nat (length e) :: u64) = of_nat (length f)"
      and tail: "map of_char e @ a = (map of_char f @ b :: u8 list)"
    by (auto simp: encode_error_def dest: encode_u64_inject)
  with len have "length e = length f"
    by (simp add: word_of_nat_eq_iff take_bit_nat_eq_self)
  with tail have "map (of_char :: char \<Rightarrow> u8) e = map of_char f" and "a = b" by auto
  moreover have "inj (of_char :: char \<Rightarrow> u8)"
  proof (rule injI)
    fix c d :: char
    assume "of_char c = (of_char d :: u8)"
    then have "(of_nat (of_char c) :: u8) = of_nat (of_char d)" by (simp only: of_nat_of_char)
    moreover have "of_char x < (2 :: nat) ^ 8" for x :: char using nat_of_char_less_256 [of x] by simp
    ultimately show "c = d" by (simp add: word_of_nat_eq_iff take_bit_nat_eq_self)
  qed
  ultimately show "e = f \<and> a = b" by (auto dest: map_injective)
qed

lemma trace_action_code_eq: "trace_action_code x = trace_action_code y \<longleftrightarrow> x = y"
  by (cases x; cases y) simp_all

lemma priority_code_eq: "priority_code x = priority_code y \<longleftrightarrow> x = y"
  by (cases x; cases y) simp_all

lemma payload_kind_code_eq: "payload_kind_code x = payload_kind_code y \<longleftrightarrow> x = y"
  by (cases x; cases y) simp_all

lemma stop_reason_code_eq: "stop_reason_code x = stop_reason_code y \<longleftrightarrow> x = y"
  by (cases x; cases y) simp_all

lemma self_delimiting_pair:
  assumes "self_delimiting ok enc" and "self_delimiting ok' enc'"
  shows "self_delimiting (\<lambda>(x, y). ok x \<and> ok' y) (\<lambda>(x, y). enc x @ enc' y)"
  unfolding self_delimiting_def
proof (clarify, goal_cases)
  case (1 x y v w a b)
  then have "enc x @ (enc' y @ a) = enc v @ (enc' w @ b)" by simp
  from self_delimitingD [OF assms(1) _ _ this] 1 have "x = v" "enc' y @ a = enc' w @ b" by auto
  with self_delimitingD [OF assms(2), of y w a b] 1 show ?case by simp
qed

definition record_fields where
  "record_fields r = (action r, recorded_at r, rec_event_id r, rec_cause r, event_timestamp r,
     rec_priority r, rec_payload_kind r, rec_stop_reason r, rec_error r)"

lemma record_fields_inject: "record_fields r = record_fields q \<Longrightarrow> r = q" for r q :: trace_record
  by (simp add: record_fields_def)

lemmas self_delimiting_fields =
  self_delimiting_pair [OF self_delimiting_byte [of trace_action_code]
  self_delimiting_pair [OF self_delimiting_u64
  self_delimiting_pair [OF self_delimiting_optional [OF self_delimiting_u64]
  self_delimiting_pair [OF self_delimiting_optional [OF self_delimiting_u64]
  self_delimiting_pair [OF self_delimiting_optional [OF self_delimiting_u64]
  self_delimiting_pair [OF self_delimiting_optional [OF self_delimiting_byte [of priority_code]]
  self_delimiting_pair [OF self_delimiting_optional [OF self_delimiting_byte [of payload_kind_code]]
  self_delimiting_pair [OF self_delimiting_optional [OF self_delimiting_byte [of stop_reason_code]]
    self_delimiting_optional [OF self_delimiting_error]]]]]]]]]

lemma self_delimiting_record: "self_delimiting error_fits encode_record"
  unfolding self_delimiting_def
proof (intro allI impI)
  fix r q :: trace_record and a b
  assume fits: "error_fits r" "error_fits q"
    and eq: "encode_record r @ a = encode_record q @ b"
  have inj: "inj trace_action_code" "inj priority_code" "inj payload_kind_code" "inj stop_reason_code"
    by (simp_all add: inj_def trace_action_code_eq priority_code_eq payload_kind_code_eq
        stop_reason_code_eq)
  from fits have err: "\<forall>e. rec_error r = Some e \<longrightarrow> length e < 2 ^ 64"
      "\<forall>e. rec_error q = Some e \<longrightarrow> length e < 2 ^ 64"
    by (auto simp: error_fits_def)
  have "record_fields r = record_fields q \<and> a = b"
    by (rule self_delimitingD [OF self_delimiting_fields [OF inj]])
      (use eq err in \<open>simp_all add: record_fields_def encode_record_def\<close>)
  then show "r = q \<and> a = b" using record_fields_inject [of r q] by simp
qed

lemma encode_log_inject:
  "list_all error_fits rs \<Longrightarrow> list_all error_fits qs \<Longrightarrow> encode_log rs = encode_log qs \<Longrightarrow> rs = qs"
proof (induction rs arbitrary: qs)
  case Nil
  then show ?case by (cases qs) (simp_all add: encode_log_def encode_record_def)
next
  case (Cons r rs)
  show ?case
  proof (cases qs)
    case Nil
    with Cons.prems show ?thesis by (simp add: encode_log_def encode_record_def)
  next
    case (Cons q qs')
    with Cons.prems have "encode_record r @ encode_log rs = encode_record q @ encode_log qs'"
      by (simp add: encode_log_def)
    from self_delimitingD [OF self_delimiting_record _ _ this] Cons.prems Cons
    have "r = q" "encode_log rs = encode_log qs'" by auto
    with Cons.IH [of qs'] Cons.prems Cons show ?thesis by simp
  qed
qed

section \<open>Properties\<close>



end
