(* ===== verification/Telemetry_Records.thy ===== *)
theory Telemetry_Records
  imports Metrics Trace
begin

text \<open>
  Telemetry records (\<^verbatim>\<open>telemetry/records.hpp\<close>, \<^verbatim>\<open>telemetry/records.cpp\<close>): what a component reports
  to the telemetry session, and the correlation of a report with the entities it concerns.
\<close>

section \<open>Correlations\<close>

type_synonym telemetry_record_id = u64
type_synonym routing_decision_id = u64
type_synonym placement_decision_id = u64
type_synonym failure_id = u64

record correlation =
  cor_gpu :: "gpu_id option"
  cor_nic :: "nic_id option"
  cor_switch :: "switch_id option"
  cor_port :: "port_id option"
  cor_rack :: "rack_id option"
  cor_link :: "directed_link_id option"
  cor_event :: "event_id option"
  cor_cause :: "event_id option"
  cor_job :: "job_id option"
  cor_collective :: "collective_id option"
  cor_transfer :: "transfer_id option"
  cor_chunk :: "chunk_id option"
  cor_routing_decision :: "routing_decision_id option"
  cor_placement_decision :: "placement_decision_id option"
  cor_failure :: "failure_id option"

definition no_correlation :: correlation where
  "no_correlation = \<lparr>cor_gpu = None, cor_nic = None, cor_switch = None, cor_port = None,
     cor_rack = None, cor_link = None, cor_event = None, cor_cause = None, cor_job = None,
     cor_collective = None, cor_transfer = None, cor_chunk = None, cor_routing_decision = None,
     cor_placement_decision = None, cor_failure = None\<rparr>"

definition has_value :: "'a option \<Rightarrow> nat" where
  "has_value v = (if v = None then 0 else 1)"

definition correlation_edge_count :: "correlation \<Rightarrow> size_t" where
  "correlation_edge_count c =
     has_value (cor_gpu c) + has_value (cor_nic c) + has_value (cor_switch c)
     + has_value (cor_port c) + has_value (cor_rack c) + has_value (cor_link c)
     + has_value (cor_event c) + has_value (cor_cause c) + has_value (cor_job c)
     + has_value (cor_collective c) + has_value (cor_transfer c) + has_value (cor_chunk c)
     + has_value (cor_routing_decision c) + has_value (cor_placement_decision c)
     + has_value (cor_failure c)"

section \<open>Observations\<close>

datatype simulation_transition =
    SimRunStarted | SimEventScheduled | SimEventDispatched | SimEventCancelled | SimStopRequested
  | SimRunSucceeded | SimRunFailed | SimRunStopped

datatype job_transition =
    JobArrived | JobWaiting | JobAdmitted | JobComputeStarted | JobComputeCompleted
  | JobCollectiveStarted | JobCollectiveCompleted | JobStepCompleted | JobSucceeded | JobFailed
  | JobCancelled | JobSynchronizationStarted | JobStragglerStarted

datatype collective_transition =
    CollectiveSubmitted | CollectivePhaseStarted | CollectiveRoundStarted | CollectiveRoundCompleted
  | CollectiveTransferIssued | CollectiveSucceeded | CollectiveFailed | CollectiveCancelled

datatype transfer_transition =
    TransferSubmitted | ChunkQueued | ChunkServiceStarted | ChunkSerialized | ChunkDelivered
  | ChunkDropped | TransferSucceeded | TransferFailed

datatype transfer_reason = ReasonNone | ReasonBufferFull | ReasonResourceDown

datatype queue_transition =
  QueueEnqueued | QueueServiceStarted | QueueServiceCompleted | QueueMarked | QueueDropped

datatype routing_decision_outcome = RouteSelected | RouteNoRoute | RouteRejected

datatype placement_decision_outcome = PlacementPlaced | PlacementWaiting | PlacementRejected

datatype failure_transition =
    FailureScheduled | FailureDetected | FailureApplied | FailureRecoveryStarted | FailureRecovered

datatype failure_resource_kind =
  ResourceLink | ResourcePort | ResourceSwitch | ResourceGpu | ResourceNic

record routing_decision_observation =
  rd_decision :: routing_decision_id
  rd_policy :: string
  rd_policy_version :: u64
  rd_operational_revision :: u64
  rd_candidate_count :: u64
  rd_selected_path :: "directed_link_id list"
  rd_score :: u64
  rd_reason :: string
  rd_transfer :: "transfer_id option"
  rd_outcome :: routing_decision_outcome

record placement_decision_observation =
  pd_decision :: placement_decision_id
  pd_policy :: string
  pd_policy_version :: u64
  pd_priority :: u32
  pd_requested_workers :: u32
  pd_selected_workers :: "gpu_id list"
  pd_rack_count :: u64
  pd_nic_count :: u64
  pd_cross_rack_ring_edges :: u64
  pd_reason :: string
  pd_outcome :: placement_decision_outcome

text \<open>
  The alternatives of the variant, each with the fields of its struct in order: a counter amount, a
  gauge value, a histogram value; then the domain observations.
\<close>

datatype telemetry_observation =
    CounterObservation metric_id metric_labels u64
  | GaugeObservation metric_id metric_labels u64
  | HistogramObservation metric_id metric_labels u64
  | SimulationObservation simulation_transition u64
  | JobObservation job_transition u32 u32 u32 u32
  | CollectiveObservation collective_transition phase u32 u64
  | TransferObservation transfer_transition u64 u32 transfer_reason
  | QueueObservation queue_transition u64 u64 u64
  | RoutingDecisionObservation routing_decision_observation
  | PlacementDecisionObservation placement_decision_observation
  | FailureObservation failure_id failure_transition failure_resource_kind u64 u64

datatype telemetry_record_kind =
    RecordCounter | RecordGauge | RecordHistogram | RecordSimulation | RecordJob | RecordCollective
  | RecordTransfer | RecordQueue | RecordFailure | RecordRoutingDecision | RecordPlacementDecision

primrec record_kind :: "telemetry_observation \<Rightarrow> telemetry_record_kind" where
  "record_kind (CounterObservation _ _ _) = RecordCounter"
| "record_kind (GaugeObservation _ _ _) = RecordGauge"
| "record_kind (HistogramObservation _ _ _) = RecordHistogram"
| "record_kind (SimulationObservation _ _) = RecordSimulation"
| "record_kind (JobObservation _ _ _ _ _) = RecordJob"
| "record_kind (CollectiveObservation _ _ _ _) = RecordCollective"
| "record_kind (TransferObservation _ _ _ _) = RecordTransfer"
| "record_kind (QueueObservation _ _ _ _) = RecordQueue"
| "record_kind (FailureObservation _ _ _ _ _) = RecordFailure"
| "record_kind (RoutingDecisionObservation _) = RecordRoutingDecision"
| "record_kind (PlacementDecisionObservation _) = RecordPlacementDecision"

definition is_metric_observation :: "telemetry_observation \<Rightarrow> bool" where
  "is_metric_observation ob =
     (case ob of
        CounterObservation _ _ _ \<Rightarrow> True
      | GaugeObservation _ _ _ \<Rightarrow> True
      | HistogramObservation _ _ _ \<Rightarrow> True
      | _ \<Rightarrow> False)"

definition is_decision_observation :: "telemetry_observation \<Rightarrow> bool" where
  "is_decision_observation ob =
     (case ob of
        RoutingDecisionObservation _ \<Rightarrow> True
      | PlacementDecisionObservation _ \<Rightarrow> True
      | _ \<Rightarrow> False)"

record telemetry_record =
  tr_correlation :: correlation
  tr_observation :: telemetry_observation
  tr_id :: telemetry_record_id
  tr_timestamp :: sim_time

lemma correlation_edge_count_le: "correlation_edge_count c \<le> 15"
proof -
  have le: "has_value v \<le> 1" for v :: "'a option" by (simp add: has_value_def)
  show ?thesis
    unfolding correlation_edge_count_def
    using le [of "cor_gpu c"] le [of "cor_nic c"] le [of "cor_switch c"] le [of "cor_port c"]
      le [of "cor_rack c"] le [of "cor_link c"] le [of "cor_event c"] le [of "cor_cause c"]
      le [of "cor_job c"] le [of "cor_collective c"] le [of "cor_transfer c"] le [of "cor_chunk c"]
      le [of "cor_routing_decision c"] le [of "cor_placement_decision c"] le [of "cor_failure c"]
    by linarith
qed

end
