(* ===== verification/Summary.thy ===== *)
theory Summary
  imports Telemetry_Records
begin

text \<open>
  The telemetry summary (\<^verbatim>\<open>telemetry/summary.hpp\<close>, \<^verbatim>\<open>telemetry/summary.cpp\<close>): the metric
  registry together with the attribution of every job's elapsed time to phases.
\<close>

section \<open>State\<close>

record job_attribution =
  att_job :: job_id
  scheduling_wait_ns :: u64
  compute_ns :: u64
  communication_ns :: u64
  synchronization_wait_ns :: u64
  straggler_delay_ns :: u64
  terminal_other_ns :: u64
  terminal :: bool

datatype job_phase =
    SchedulingWait | Compute | Communication | SynchronizationWait | StragglerDelay | TerminalOther
  | Terminal

record job_attribution_state =
  att_snapshot :: job_attribution
  last_transition :: sim_time
  att_phase :: job_phase

record summary_builder =
  sum_metrics :: metric_registry
  sum_jobs :: "(job_id, job_attribution_state) omap"
  sum_last_timestamp :: "sim_time option"
  sum_maximum_metric_series :: size_t
  sum_finalized :: bool

text \<open>A timestamp before the last one seen, if there was one.\<close>

definition regressed :: "sim_time option \<Rightarrow> sim_time \<Rightarrow> bool" where
  "regressed previous time = (case previous of None \<Rightarrow> False | Some t \<Rightarrow> time < t)"

section \<open>Attribution of time\<close>

definition attribution_add :: "u64 \<Rightarrow> u64 \<Rightarrow> exn + u64" where
  "attribution_add left right =
     (if right > u64_max - left then Inl (OverflowError ''telemetry attribution duration overflow'')
      else Inr (left + right))"

definition accounted_ns :: "job_attribution \<Rightarrow> exn + u64" where
  "accounted_ns a =
     bindR (attribution_add (scheduling_wait_ns a) (compute_ns a)) (\<lambda>r.
     bindR (attribution_add r (communication_ns a)) (\<lambda>r.
     bindR (attribution_add r (synchronization_wait_ns a)) (\<lambda>r.
     bindR (attribution_add r (straggler_delay_ns a)) (\<lambda>r.
     attribution_add r (terminal_other_ns a)))))"

definition terminal_transition :: "job_transition \<Rightarrow> bool" where
  "terminal_transition t \<longleftrightarrow> t = JobSucceeded \<or> t = JobFailed \<or> t = JobCancelled"

primrec next_phase :: "job_phase \<Rightarrow> job_transition \<Rightarrow> bool \<Rightarrow> job_phase" where
  "next_phase cur JobArrived active = SchedulingWait"
| "next_phase cur JobWaiting active = SchedulingWait"
| "next_phase cur JobAdmitted active =
     (if cur = Compute \<or> cur = StragglerDelay then cur else TerminalOther)"
| "next_phase cur JobComputeStarted active = Compute"
| "next_phase cur JobComputeCompleted active =
     (if active then Communication else SynchronizationWait)"
| "next_phase cur JobCollectiveStarted active =
     (if cur = Compute \<or> cur = StragglerDelay then cur else Communication)"
| "next_phase cur JobCollectiveCompleted active =
     (if cur = Compute \<or> cur = StragglerDelay then cur else TerminalOther)"
| "next_phase cur JobStepCompleted active =
     (if cur = Compute \<or> cur = StragglerDelay then cur else TerminalOther)"
| "next_phase cur JobSucceeded active = Terminal"
| "next_phase cur JobFailed active = Terminal"
| "next_phase cur JobCancelled active = Terminal"
| "next_phase cur JobSynchronizationStarted active = SynchronizationWait"
| "next_phase cur JobStragglerStarted active = StragglerDelay"

definition add_interval :: "job_attribution \<Rightarrow> job_phase \<Rightarrow> u64 \<Rightarrow> exn + job_attribution" where
  "add_interval a p duration =
     (case p of
        SchedulingWait \<Rightarrow> bindR (attribution_add (scheduling_wait_ns a) duration)
          (\<lambda>v. Inr (a\<lparr>scheduling_wait_ns := v\<rparr>))
      | Compute \<Rightarrow> bindR (attribution_add (compute_ns a) duration)
          (\<lambda>v. Inr (a\<lparr>compute_ns := v\<rparr>))
      | Communication \<Rightarrow> bindR (attribution_add (communication_ns a) duration)
          (\<lambda>v. Inr (a\<lparr>communication_ns := v\<rparr>))
      | SynchronizationWait \<Rightarrow> bindR (attribution_add (synchronization_wait_ns a) duration)
          (\<lambda>v. Inr (a\<lparr>synchronization_wait_ns := v\<rparr>))
      | StragglerDelay \<Rightarrow> bindR (attribution_add (straggler_delay_ns a) duration)
          (\<lambda>v. Inr (a\<lparr>straggler_delay_ns := v\<rparr>))
      | TerminalOther \<Rightarrow> bindR (attribution_add (terminal_other_ns a) duration)
          (\<lambda>v. Inr (a\<lparr>terminal_other_ns := v\<rparr>))
      | Terminal \<Rightarrow> Inr a)"

definition new_attribution :: "job_id \<Rightarrow> job_attribution" where
  "new_attribution j = \<lparr>att_job = j, scheduling_wait_ns = 0, compute_ns = 0, communication_ns = 0,
     synchronization_wait_ns = 0, straggler_delay_ns = 0, terminal_other_ns = 0, terminal = False\<rparr>"

definition transition ::
  "job_attribution_state option \<Rightarrow> job_id \<Rightarrow> sim_time \<Rightarrow> job_transition \<Rightarrow> bool
   \<Rightarrow> exn + job_attribution_state" where
  "transition current j time t active =
     (case current of
        None \<Rightarrow>
          if t \<noteq> JobArrived \<and> \<not> terminal_transition t
          then Inl (LogicError ''job attribution must begin with arrival or termination'')
          else
            let st = \<lparr>att_snapshot = new_attribution j, last_transition = time, att_phase = SchedulingWait\<rparr>
            in Inr (if terminal_transition t
                    then st\<lparr>att_phase := Terminal, att_snapshot := (att_snapshot st)\<lparr>terminal := True\<rparr>\<rparr>
                    else st)
      | Some cur \<Rightarrow>
          if terminal (att_snapshot cur)
          then Inl (LogicError ''job attribution received a transition after termination'')
          else if t = JobArrived
          then Inl (LogicError ''job attribution received duplicate arrival'')
          else if time < last_transition cur
          then Inl (InvalidArgument ''job attribution timestamp regressed'')
          else
            bindR (add_interval (att_snapshot cur) (att_phase cur) (time - last_transition cur)) (\<lambda>a.
            let p = next_phase (att_phase cur) t active
            in Inr \<lparr>att_snapshot = a\<lparr>terminal := (p = Terminal)\<rparr>, last_transition = time, att_phase = p\<rparr>))"

section \<open>Building the summary\<close>

definition new_summary :: "size_t \<Rightarrow> size_t \<Rightarrow> exn + summary_builder" where
  "new_summary max_series max_boundaries =
     bindR (new_registry max_series max_boundaries) (\<lambda>r.
     Inr \<lparr>sum_metrics = r, sum_jobs = [], sum_last_timestamp = None,
          sum_maximum_metric_series = max_series, sum_finalized = False\<rparr>)"

definition validate_metric_observation :: "metric_registry \<Rightarrow> telemetry_observation \<Rightarrow> exn + unit" where
  "validate_metric_observation r ob =
     (case ob of
        CounterObservation m l a \<Rightarrow> validate_increment r m l a
      | GaugeObservation m l v \<Rightarrow> validate_set_gauge r m l v
      | HistogramObservation m l v \<Rightarrow> validate_observe r m l v
      | _ \<Rightarrow> Inr ())"

definition apply_metric_observation :: "telemetry_observation \<Rightarrow> (metric_registry, unit) prog" where
  "apply_metric_observation ob =
     (case ob of
        CounterObservation m l a \<Rightarrow> registry_increment m l a
      | GaugeObservation m l v \<Rightarrow> registry_set_gauge m l v
      | HistogramObservation m l v \<Rightarrow> registry_observe m l v
      | _ \<Rightarrow> return ())"

definition terminal_metrics :: "job_attribution \<Rightarrow> (metric_id \<times> u64) list" where
  "terminal_metrics a =
     [(MetricJobCommunicationNs, communication_ns a),
      (MetricJobSynchronizationWaitNs, synchronization_wait_ns a),
      (MetricJobStragglerDelayNs, straggler_delay_ns a)]"

fun count_missing_metrics :: "metric_registry \<Rightarrow> (metric_id \<times> u64) list \<Rightarrow> size_t \<Rightarrow> exn + size_t" where
  "count_missing_metrics r [] missing = Inr missing"
| "count_missing_metrics r ((m, v) # ms) missing =
     bindR (registry_find r m []) (\<lambda>found.
     bindR (validate_increment r m [] v) (\<lambda>_.
     count_missing_metrics r ms (if found = None then Suc missing else missing)))"

definition validate_terminal_metrics :: "summary_builder \<Rightarrow> job_attribution_state \<Rightarrow> exn + unit" where
  "validate_terminal_metrics s st =
     bindR (count_missing_metrics (sum_metrics s) (terminal_metrics (att_snapshot st)) 0) (\<lambda>missing.
       if missing > size_sub (sum_maximum_metric_series s) (registry_size (sum_metrics s))
       then Inl (LengthError ''telemetry metric series limit exceeded'')
       else Inr ())"

definition apply_terminal_metrics :: "job_attribution_state \<Rightarrow> (metric_registry, unit) prog" where
  "apply_terminal_metrics st =
     for_each (\<lambda>(m, v). registry_increment m [] v) (terminal_metrics (att_snapshot st))"

definition summary_validate ::
  "summary_builder \<Rightarrow> sim_time \<Rightarrow> correlation \<Rightarrow> telemetry_observation \<Rightarrow> exn + unit" where
  "summary_validate s time c ob =
     (if sum_finalized s then Inl (LogicError ''cannot add to a finalized telemetry summary'')
      else if regressed (sum_last_timestamp s) time
      then Inl (InvalidArgument ''telemetry summary timestamp regressed'')
      else
        bindR (validate_metric_observation (sum_metrics s) ob) (\<lambda>_.
        case ob of
          JobObservation t _ _ _ _ \<Rightarrow>
            (case cor_job c of
               None \<Rightarrow> Inl (InvalidArgument ''job telemetry observation requires job correlation'')
             | Some j \<Rightarrow>
                 bindR (transition (map_of (sum_jobs s) j) j time t (cor_collective c \<noteq> None)) (\<lambda>nxt.
                   if terminal (att_snapshot nxt) then validate_terminal_metrics s nxt else Inr ()))
        | _ \<Rightarrow> Inr ()))"

definition zoom_metrics :: "(metric_registry, 'a) prog \<Rightarrow> (summary_builder, 'a) prog" where
  "zoom_metrics = zoom sum_metrics (\<lambda>r s. s\<lparr>sum_metrics := r\<rparr>)"

definition summary_consume ::
  "sim_time \<Rightarrow> correlation \<Rightarrow> telemetry_observation \<Rightarrow> (summary_builder, unit) prog" where
  "summary_consume time c ob =
     bind (gets (\<lambda>s. summary_validate s time c ob)) (\<lambda>v.
     bind (lift_res v) (\<lambda>_.
     seq (zoom_metrics (apply_metric_observation ob))
     (seq (case ob of
             JobObservation t _ _ _ _ \<Rightarrow>
               (case cor_job c of
                  None \<Rightarrow> throw (LogicError ''validated job telemetry lost its correlation'')
                | Some j \<Rightarrow>
                    bind (gets (\<lambda>s. transition (map_of (sum_jobs s) j) j time t (cor_collective c \<noteq> None))) (\<lambda>r.
                    bind (lift_res r) (\<lambda>nxt.
                    seq (perform_if (terminal (att_snapshot nxt)) (zoom_metrics (apply_terminal_metrics nxt)))
                        (modify (\<lambda>s. s\<lparr>sum_jobs := omap_put j nxt (sum_jobs s)\<rparr>)))))
           | _ \<Rightarrow> return ())
          (modify (\<lambda>s. s\<lparr>sum_last_timestamp := Some time\<rparr>)))))"

text \<open>
  The loop of \<^verbatim>\<open>finalize\<close> closes the open interval of every job in key order; an overflow leaves
  the jobs visited before it updated.
\<close>

definition close_job :: "sim_time \<Rightarrow> job_attribution_state \<Rightarrow> exn + job_attribution_state" where
  "close_job time st =
     (if terminal (att_snapshot st) then Inr st
      else bindR (add_interval (att_snapshot st) (att_phase st) (time - last_transition st))
             (\<lambda>a. Inr (st\<lparr>att_snapshot := a, last_transition := time\<rparr>)))"

fun close_jobs ::
  "sim_time \<Rightarrow> (job_id, job_attribution_state) omap
   \<Rightarrow> exn option \<times> (job_id, job_attribution_state) omap" where
  "close_jobs time [] = (None, [])"
| "close_jobs time ((j, st) # js) =
     (case close_job time st of
        Inl e \<Rightarrow> (Some e, (j, st) # js)
      | Inr st' \<Rightarrow> (case close_jobs time js of (r, js') \<Rightarrow> (r, (j, st') # js')))"

definition summary_finalize :: "sim_time \<Rightarrow> (summary_builder, unit) prog" where
  "summary_finalize time = (\<lambda>s.
     if sum_finalized s then (Inl (LogicError ''telemetry summary is already finalized''), s)
     else if regressed (sum_last_timestamp s) time
     then (Inl (InvalidArgument ''telemetry summary final timestamp regressed''), s)
     else
       case close_jobs time (sum_jobs s) of
         (Some e, js) \<Rightarrow> (Inl e, s\<lparr>sum_jobs := js\<rparr>)
       | (None, js) \<Rightarrow>
           (Inr (), s\<lparr>sum_jobs := js, sum_last_timestamp := Some time, sum_finalized := True\<rparr>))"

definition summary_find_metric ::
  "summary_builder \<Rightarrow> metric_id \<Rightarrow> metric_labels \<Rightarrow> exn + series_snapshot option" where
  "summary_find_metric s = registry_find (sum_metrics s)"

definition summary_metric_snapshots :: "summary_builder \<Rightarrow> series_snapshot list" where
  "summary_metric_snapshots s = registry_snapshots (sum_metrics s)"

definition job_attributions :: "summary_builder \<Rightarrow> job_attribution list" where
  "job_attributions s = map (\<lambda>(j, st). att_snapshot st) (sum_jobs s)"

section \<open>Lemmas: attribution\<close>

text \<open>The time a job has been charged for, as a number.\<close>

definition accounted_total :: "job_attribution \<Rightarrow> nat" where
  "accounted_total a = unat (scheduling_wait_ns a) + unat (compute_ns a) + unat (communication_ns a)
     + unat (synchronization_wait_ns a) + unat (straggler_delay_ns a) + unat (terminal_other_ns a)"

text \<open>A job that arrived at \<open>arrival\<close> has been charged for every nanosecond up to its last transition.\<close>

definition attributed :: "sim_time \<Rightarrow> job_attribution_state \<Rightarrow> bool" where
  "attributed arrival st \<longleftrightarrow>
     arrival \<le> last_transition st
     \<and> accounted_total (att_snapshot st) = unat (last_transition st) - unat arrival
     \<and> (terminal (att_snapshot st) \<longleftrightarrow> att_phase st = Terminal)"

lemma attribution_add_Inr_iff:
  "attribution_add a b = Inr c \<longleftrightarrow> unat a + unat b < 2 ^ 64 \<and> c = a + b"
  by (auto simp: attribution_add_def max_minus_less_iff not_less)

lemma attribution_add_ok:
  "unat a + unat b < 2 ^ 64 \<Longrightarrow> attribution_add a b = Inr (a + b)"
  by (simp add: attribution_add_Inr_iff)

lemma add_interval_total:
  assumes "accounted_total a + unat d < 2 ^ 64" and "p \<noteq> Terminal"
  shows "\<exists>a'. add_interval a p d = Inr a' \<and> accounted_total a' = accounted_total a + unat d
           \<and> terminal a' = terminal a \<and> att_job a' = att_job a"
proof -
  have ok: "attribution_add x d = Inr (x + d)" "unat (x + d) = unat x + unat d"
    if "unat x \<le> accounted_total a" for x
    using that assms(1) by (simp_all add: attribution_add_ok unat_plus_no_overflow)
  have le: "unat (scheduling_wait_ns a) \<le> accounted_total a" "unat (compute_ns a) \<le> accounted_total a"
    "unat (communication_ns a) \<le> accounted_total a"
    "unat (synchronization_wait_ns a) \<le> accounted_total a"
    "unat (straggler_delay_ns a) \<le> accounted_total a" "unat (terminal_other_ns a) \<le> accounted_total a"
    by (simp_all add: accounted_total_def)
  note oks = le [THEN ok(1)] le [THEN ok(2)]
  show ?thesis
    using assms(2) by (cases p) (simp_all add: add_interval_def oks, simp_all add: accounted_total_def oks)
qed

lemma next_phase_Terminal: "next_phase p t active = Terminal \<longleftrightarrow> terminal_transition t"
  by (cases t) (auto simp: terminal_transition_def)

text \<open>A transition of a live job charges the elapsed interval and never overflows.\<close>

lemma transition_attributed:
  assumes ok: "attributed arrival cur" and "\<not> terminal (att_snapshot cur)"
    and "t \<noteq> JobArrived" and le: "last_transition cur \<le> time"
  shows "\<exists>nxt. transition (Some cur) j time t active = Inr nxt \<and> attributed arrival nxt
           \<and> last_transition nxt = time
           \<and> att_phase nxt = next_phase (att_phase cur) t active
           \<and> att_job (att_snapshot nxt) = att_job (att_snapshot cur)"
proof -
  have live: "att_phase cur \<noteq> Terminal" using assms(1,2) by (simp add: attributed_def)
  have elapsed: "unat (time - last_transition cur) = unat time - unat (last_transition cur)"
    using le by (rule unat_sub)
  have ord: "unat arrival \<le> unat (last_transition cur)" "unat (last_transition cur) \<le> unat time"
    using ok le by (simp_all add: attributed_def word_le_nat_alt)
  with ok elapsed have sum: "accounted_total (att_snapshot cur) + unat (time - last_transition cur)
      = unat time - unat arrival" by (simp add: attributed_def)
  then have "accounted_total (att_snapshot cur) + unat (time - last_transition cur) < 2 ^ 64"
    using unat_u64_bound [of time] by simp
  from add_interval_total [OF this live] obtain a where
    a: "add_interval (att_snapshot cur) (att_phase cur) (time - last_transition cur) = Inr a"
      "accounted_total a = unat time - unat arrival" "att_job a = att_job (att_snapshot cur)"
    using sum by auto
  have "accounted_total (a\<lparr>terminal := b\<rparr>) = accounted_total a" for b
    by (simp add: accounted_total_def)
  with a assms(2,3) le ord show ?thesis
    by (simp add: transition_def attributed_def Let_def word_le_nat_alt word_less_nat_alt)
qed

lemma attributed_new:
  "transition None j time t active = Inr nxt \<Longrightarrow> attributed time nxt \<and> last_transition nxt = time"
  by (auto simp: transition_def attributed_def accounted_total_def new_attribution_def Let_def
      split: if_splits)

lemma transition_Some_Inr:
  assumes "transition (Some cur) j time t active = Inr nxt" and "attributed arrival cur"
  shows "attributed arrival nxt \<and> last_transition nxt = time \<and> last_transition cur \<le> time
    \<and> \<not> terminal (att_snapshot cur) \<and> t \<noteq> JobArrived"
proof -
  from assms(1) have g: "\<not> terminal (att_snapshot cur)" "t \<noteq> JobArrived" "last_transition cur \<le> time"
    by (auto simp: transition_def not_less split: if_splits)
  from transition_attributed [OF assms(2) g, of j active] assms(1) g show ?thesis by auto
qed

lemma accounted_ns_eq:
  assumes "accounted_total a < 2 ^ 64"
  shows "\<exists>v. accounted_ns a = Inr v \<and> unat v = accounted_total a"
proof -
  let ?s = "scheduling_wait_ns a" and ?c = "compute_ns a" and ?m = "communication_ns a"
    and ?y = "synchronization_wait_ns a" and ?g = "straggler_delay_ns a" and ?o = "terminal_other_ns a"
  have 1: "unat (?s + ?c) = unat ?s + unat ?c" "attribution_add ?s ?c = Inr (?s + ?c)"
    using assms by (simp_all add: accounted_total_def unat_plus_no_overflow attribution_add_ok)
  have 2: "unat (?s + ?c + ?m) = unat ?s + unat ?c + unat ?m"
    "attribution_add (?s + ?c) ?m = Inr (?s + ?c + ?m)"
    using assms 1 by (simp_all add: accounted_total_def unat_plus_no_overflow attribution_add_ok)
  have 3: "unat (?s + ?c + ?m + ?y) = unat ?s + unat ?c + unat ?m + unat ?y"
    "attribution_add (?s + ?c + ?m) ?y = Inr (?s + ?c + ?m + ?y)"
    using assms 2 by (simp_all add: accounted_total_def unat_plus_no_overflow attribution_add_ok)
  have 4: "unat (?s + ?c + ?m + ?y + ?g) = unat ?s + unat ?c + unat ?m + unat ?y + unat ?g"
    "attribution_add (?s + ?c + ?m + ?y) ?g = Inr (?s + ?c + ?m + ?y + ?g)"
    using assms 3 by (simp_all add: accounted_total_def unat_plus_no_overflow attribution_add_ok)
  have 5: "unat (?s + ?c + ?m + ?y + ?g + ?o) = accounted_total a"
    "attribution_add (?s + ?c + ?m + ?y + ?g) ?o = Inr (?s + ?c + ?m + ?y + ?g + ?o)"
    using assms 4 by (simp_all add: accounted_total_def unat_plus_no_overflow attribution_add_ok)
  show ?thesis by (simp add: accounted_ns_def 1 2 3 4 5)
qed

section \<open>Lemmas: the builder\<close>

definition summary_ok :: "summary_builder \<Rightarrow> bool" where
  "summary_ok s \<longleftrightarrow>
     registry_ok (sum_metrics s) \<and> maximum_series (sum_metrics s) = sum_maximum_metric_series s
     \<and> omap_ok (sum_jobs s)
     \<and> (\<forall>(j, st)\<in>set (sum_jobs s). (\<exists>arrival. attributed arrival st)
          \<and> (\<exists>t. sum_last_timestamp s = Some t \<and> last_transition st \<le> t))"

lemma summary_ok_job:
  assumes "summary_ok s" and "map_of (sum_jobs s) j = Some st"
  obtains arrival where "attributed arrival st"
  using assms by (auto simp: summary_ok_def dest!: map_of_SomeD)

lemma maximum_series_put_series [simp]:
  "maximum_series (snd (put_series m l res r)) = maximum_series r"
  by (cases res) (simp_all add: put_series_def)

lemma put_series_Inr:
  "put_series m l res r = (Inr (), r') \<Longrightarrow>
   \<exists>st. res = Inr st \<and> r' = r\<lparr>series := omap_put (m, l) st (series r)\<rparr>"
  by (cases res) (auto simp: put_series_def)

lemma validate_increment_other:
  assumes "validate_increment r m [] v = Inr ()"
    and "map_of (series r') (m, []) = map_of (series r) (m, [])" "maximum_series r' = maximum_series r"
    and "map_of (series r) (m, []) = None \<Longrightarrow> length (series r') < maximum_series r'"
  shows "validate_increment r' m [] v = Inr ()"
  using assms
  by (auto simp: validate_increment_def validate_series_def bindR_eq_Inr split: option.splits if_splits)

definition missing :: "metric_registry \<Rightarrow> (metric_id \<times> u64) list \<Rightarrow> (metric_id \<times> u64) list" where
  "missing r ms = filter (\<lambda>(m, v). map_of (series r) (m, []) = None) ms"

text \<open>
  Increments of distinct unlabelled counters that validate one by one succeed one after the other,
  as long as the registry has room for all the series they create.
\<close>

lemma increments_succeed:
  assumes "\<forall>(m, v)\<in>set ms. validate_increment r m [] v = Inr ()" and "distinct (map fst ms)"
    and "length (series r) + length (missing r ms) \<le> maximum_series r" and "omap_ok (series r)"
  shows "\<exists>r'. for_each (\<lambda>(m, v). registry_increment m [] v) ms r = (Inr (), r')"
  using assms
proof (induction ms arbitrary: r)
  case Nil
  then show ?case by (simp add: return_def)
next
  case (Cons mv ms)
  obtain m v where mv [simp]: "mv = (m, v)" by (cases mv)
  from Cons.prems(1) have "validate_metric r (Increment m [] v) = Inr ()" by simp
  from metric_ops.validated_succeeds [OF this] obtain r1 where
    r1: "registry_increment m [] v r = (Inr (), r1)" by auto
  then obtain st where eq: "r1 = r\<lparr>series := omap_put (m, []) st (series r)\<rparr>"
    by (auto simp: registry_increment_eq dest: put_series_Inr)
  have other: "map_of (series r1) (m', []) = map_of (series r) (m', [])" if "m' \<in> fst ` set ms" for m'
    using that Cons.prems(2) by (auto simp: eq)
  then have miss: "missing r1 ms = missing r ms"
    unfolding missing_def by (intro filter_cong) (force intro: rev_image_eqI)+
  have room: "length (series r1) + length (missing r1 ms) \<le> maximum_series r1"
  proof -
    have "length (missing r (mv # ms))
        = (if map_of (series r) (m, []) = None then 1 else 0) + length (missing r ms)"
      by (simp add: missing_def)
    moreover have "length (series r1)
        = (if map_of (series r) (m, []) = None then 1 else 0) + length (series r)"
      using Cons.prems(4) by (simp add: eq length_omap_put)
    moreover have "maximum_series r1 = maximum_series r" by (simp add: eq)
    ultimately show ?thesis using Cons.prems(3) by (simp only: miss)
  qed
  have "\<forall>(m', v')\<in>set ms. validate_increment r1 m' [] v' = Inr ()"
  proof clarify
    fix m' v' assume in_ms: "(m', v') \<in> set ms"
    show "validate_increment r1 m' [] v' = Inr ()"
    proof (rule validate_increment_other)
      show "validate_increment r m' [] v' = Inr ()" using in_ms Cons.prems(1) by auto
      show "map_of (series r1) (m', []) = map_of (series r) (m', [])"
        using in_ms by (intro other) force
      show "maximum_series r1 = maximum_series r" by (simp add: eq)
      assume "map_of (series r) (m', []) = None"
      with in_ms have "(m', v') \<in> set (missing r1 ms)" by (simp add: miss) (simp add: missing_def)
      then have "0 < length (missing r1 ms)" by (rule length_pos_if_in_set)
      with room show "length (series r1) < maximum_series r1" by linarith
    qed
  qed
  from Cons.IH [OF this _ room] Cons.prems(2,4) obtain r2 where
    "for_each (\<lambda>(m, v). registry_increment m [] v) ms r1 = (Inr (), r2)"
    by (auto simp: eq)
  with r1 show ?case by (simp add: seq_def bind_def)
qed

lemma count_missing_metrics_Inr:
  "count_missing_metrics r ms k = Inr n \<Longrightarrow>
   n = k + length (missing r ms) \<and> (\<forall>(m, v)\<in>set ms. validate_increment r m [] v = Inr ())"
proof (induction r ms k rule: count_missing_metrics.induct)
  case (2 r m v ms k)
  from "2.prems" obtain found where found: "registry_find r m [] = Inr found"
    and v: "validate_increment r m [] v = Inr ()"
    and rest: "count_missing_metrics r ms (if found = None then Suc k else k) = Inr n"
    by (auto simp: bindR_eq_Inr)
  have "found = None \<longleftrightarrow> map_of (series r) (m, []) = None"
    using found by (auto simp: registry_find_def bindR_eq_Inr)
  with "2.IH" [OF rest] v show ?case by (auto simp: missing_def split: if_splits)
qed (simp add: missing_def)

lemma apply_terminal_metrics_succeeds:
  assumes "validate_terminal_metrics s st = Inr ()" and ok: "summary_ok s"
  shows "\<exists>r'. apply_terminal_metrics st (sum_metrics s) = (Inr (), r')"
proof -
  let ?ms = "terminal_metrics (att_snapshot st)"
  from assms(1) obtain n where n: "count_missing_metrics (sum_metrics s) ?ms 0 = Inr n"
    and room: "n \<le> size_sub (sum_maximum_metric_series s) (registry_size (sum_metrics s))"
    by (auto simp: validate_terminal_metrics_def bindR_eq_Inr not_less split: if_splits)
  from ok have "registry_size (sum_metrics s) \<le> sum_maximum_metric_series s"
    by (simp add: summary_ok_def registry_ok_def registry_size_def)
  with room count_missing_metrics_Inr [OF n] ok
  have "length (series (sum_metrics s)) + length (missing (sum_metrics s) ?ms)
      \<le> maximum_series (sum_metrics s)"
    by (simp add: summary_ok_def registry_size_def)
  moreover have "distinct (map fst ?ms)" by (simp add: terminal_metrics_def)
  ultimately show ?thesis
    unfolding apply_terminal_metrics_def
    using count_missing_metrics_Inr [OF n] ok
    by (intro increments_succeed) (simp_all add: summary_ok_def registry_ok_def)
qed

lemma maximum_series_ops:
  "maximum_series (snd (registry_increment m l a r)) = maximum_series r"
  "maximum_series (snd (registry_set_gauge m l a r)) = maximum_series r"
  "maximum_series (snd (registry_observe m l a r)) = maximum_series r"
  by (simp_all add: registry_op_eqs)

lemma apply_metric_observation_exact:
  assumes "registry_ok r"
  shows "case validate_metric_observation r ob of
           Inl e \<Rightarrow> apply_metric_observation ob r = (Inl e, r)
         | Inr _ \<Rightarrow> \<exists>r'. apply_metric_observation ob r = (Inr (), r') \<and> registry_ok r'
                     \<and> maximum_series r' = maximum_series r"
proof -
  have op: "case validate_metric r q of
           Inl e \<Rightarrow> perform_metric q r = (Inl e, r)
         | Inr _ \<Rightarrow> \<exists>r'. perform_metric q r = (Inr (), r') \<and> registry_ok r'
                     \<and> maximum_series r' = maximum_series r" for q
  proof -
    have "maximum_series (snd (perform_metric q r)) = maximum_series r"
      by (cases q) (simp_all add: maximum_series_ops)
    then show ?thesis
      using metric_ops.rejected_unchanged [of r q] metric_ops.validate_exact [of q r]
        metric_ops.keeps_inv [OF assms, of q]
      by (cases "perform_metric q r"; cases "validate_metric r q") simp_all
  qed
  have "(\<exists>q. validate_metric_observation r ob = validate_metric r q
              \<and> apply_metric_observation ob = perform_metric q)
      \<or> (validate_metric_observation r ob = Inr () \<and> apply_metric_observation ob = return ())"
    unfolding validate_metric_observation_def apply_metric_observation_def
    by (cases ob) (auto intro: exI [of _ "Increment _ _ _"] exI [of _ "SetGauge _ _ _"]
        exI [of _ "Observe _ _ _"])
  then show ?thesis
  proof (elim disjE exE conjE)
    fix q
    assume "validate_metric_observation r ob = validate_metric r q"
      "apply_metric_observation ob = perform_metric q"
    then show ?thesis using op [of q] by (simp only:)
  next
    assume "validate_metric_observation r ob = Inr ()" "apply_metric_observation ob = return ()"
    then show ?thesis using assms by (simp add: return_def)
  qed
qed

lemma registry_ok_increments:
  "registry_ok r \<Longrightarrow> for_each (\<lambda>(m, v). registry_increment m [] v) ms r = (Inr (), r') \<Longrightarrow>
   registry_ok r' \<and> maximum_series r' = maximum_series r"
proof (induction ms arbitrary: r)
  case (Cons mv ms)
  obtain m v where mv: "mv = (m, v)" by (cases mv)
  obtain x r1 where r1: "registry_increment m [] v r = (x, r1)" by (cases "registry_increment m [] v r")
  with Cons.prems mv obtain "registry_ok r1" "maximum_series r1 = maximum_series r"
      "for_each (\<lambda>(m, v). registry_increment m [] v) ms r1 = (Inr (), r')"
    using registry_ok_increment [of r m "[]" v] maximum_series_ops(1) [of m "[]" v r]
    by (cases x) (simp_all add: seq_def bind_def)
  with Cons.IH [of r1] show ?case by simp
qed (simp add: return_def)

lemma summary_ok_put_job:
  assumes "summary_ok s" and "attributed arrival nxt" and "last_transition nxt = time"
    and "\<not> regressed (sum_last_timestamp s) time"
    and "registry_ok r" and "maximum_series r = maximum_series (sum_metrics s)"
  shows "summary_ok (s\<lparr>sum_metrics := r, sum_jobs := omap_put j nxt (sum_jobs s),
                      sum_last_timestamp := Some time\<rparr>)"
proof -
  have "last_transition st \<le> time" if "(k, st) \<in> set (sum_jobs s)" for k st
    using that assms(1,4) by (fastforce simp: summary_ok_def regressed_def not_less)
  with assms set_omap_put [of j nxt "sum_jobs s"] show ?thesis
    by (fastforce simp: summary_ok_def)
qed

lemma summary_ok_timestamp:
  assumes "summary_ok s" and "\<not> regressed (sum_last_timestamp s) time"
    and "registry_ok r" and "maximum_series r = maximum_series (sum_metrics s)"
  shows "summary_ok (s\<lparr>sum_metrics := r, sum_last_timestamp := Some time\<rparr>)"
proof -
  have "last_transition st \<le> time" if "(k, st) \<in> set (sum_jobs s)" for k st
    using that assms(1,2) by (fastforce simp: summary_ok_def regressed_def not_less)
  with assms show ?thesis by (fastforce simp: summary_ok_def)
qed

text \<open>Consumption is validation followed by an update that cannot fail.\<close>

lemma summary_consume_job:
  assumes ok: "summary_ok s" and ob: "ob = JobObservation t a b d e"
    and valid: "summary_validate s time c ob = Inr ()"
  shows "\<exists>s'. summary_consume time c ob s = (Inr (), s') \<and> summary_ok s'"
proof -
  from valid ob have time: "\<not> regressed (sum_last_timestamp s) time"
    by (auto simp: summary_validate_def split: if_splits)
  from valid ob obtain j nxt where j: "cor_job c = Some j"
    and nxt: "transition (map_of (sum_jobs s) j) j time t (cor_collective c \<noteq> None) = Inr nxt"
    and tv: "terminal (att_snapshot nxt) \<Longrightarrow> validate_terminal_metrics s nxt = Inr ()"
    by (auto simp: summary_validate_def bindR_eq_Inr split: if_splits option.splits)
  have "\<exists>arrival. attributed arrival nxt \<and> last_transition nxt = time"
  proof (cases "map_of (sum_jobs s) j")
    case None
    with nxt have "transition None j time t (cor_collective c \<noteq> None) = Inr nxt" by simp
    from attributed_new [OF this] show ?thesis by blast
  next
    case (Some st)
    with ok obtain arrival where "attributed arrival st" by (rule summary_ok_job)
    with nxt Some transition_Some_Inr show ?thesis by fastforce
  qed
  then obtain arrival where att: "attributed arrival nxt" "last_transition nxt = time" by blast
  have "\<exists>r'. (if terminal (att_snapshot nxt) then apply_terminal_metrics nxt (sum_metrics s)
              else (Inr (), sum_metrics s)) = (Inr (), r')
          \<and> registry_ok r' \<and> maximum_series r' = maximum_series (sum_metrics s)"
  proof (cases "terminal (att_snapshot nxt)")
    case True
    from apply_terminal_metrics_succeeds [OF tv [OF True] ok] obtain r' where
      "apply_terminal_metrics nxt (sum_metrics s) = (Inr (), r')" by blast
    with True ok registry_ok_increments [of "sum_metrics s" "terminal_metrics (att_snapshot nxt)" r']
    show ?thesis by (simp add: apply_terminal_metrics_def summary_ok_def)
  qed (use ok in \<open>simp add: summary_ok_def\<close>)
  then obtain r' where r': "(if terminal (att_snapshot nxt) then apply_terminal_metrics nxt (sum_metrics s)
              else (Inr (), sum_metrics s)) = (Inr (), r')"
    "registry_ok r'" "maximum_series r' = maximum_series (sum_metrics s)" by blast
  have "summary_consume time c ob s = (Inr (), s\<lparr>sum_metrics := r',
      sum_jobs := omap_put j nxt (sum_jobs s), sum_last_timestamp := Some time\<rparr>)"
    using r'(1) valid ob j nxt
    by (auto simp: summary_consume_def prog_defs zoom_metrics_def apply_metric_observation_def
        split: if_splits)
  with summary_ok_put_job [OF ok att time r'(2,3)] show ?thesis by simp
qed

lemma summary_consume_other:
  assumes ok: "summary_ok s" and ob: "\<And>t a b d e. ob \<noteq> JobObservation t a b d e"
    and valid: "summary_validate s time c ob = Inr ()"
  shows "\<exists>s'. summary_consume time c ob s = (Inr (), s') \<and> summary_ok s'"
proof -
  from valid have time: "\<not> regressed (sum_last_timestamp s) time"
    and v: "validate_metric_observation (sum_metrics s) ob = Inr ()"
    by (auto simp: summary_validate_def bindR_eq_Inr split: if_splits)
  from apply_metric_observation_exact [of "sum_metrics s" ob] v ok obtain r' where
    r': "apply_metric_observation ob (sum_metrics s) = (Inr (), r')" "registry_ok r'"
      "maximum_series r' = maximum_series (sum_metrics s)"
    by (auto simp: summary_ok_def)
  have "summary_consume time c ob s = (Inr (), s\<lparr>sum_metrics := r', sum_last_timestamp := Some time\<rparr>)"
  proof -
    have "(case ob of JobObservation t a b d e \<Rightarrow> f t | _ \<Rightarrow> return ()) = return ()"
      for f :: "job_transition \<Rightarrow> (summary_builder, unit) prog"
      using ob by (cases ob) (simp_all, metis)
    then show ?thesis
      using r'(1) valid by (simp add: summary_consume_def prog_defs zoom_metrics_def)
  qed
  with summary_ok_timestamp [OF ok time r'(2,3)] show ?thesis by simp
qed

lemma summary_consume_exact:
  assumes "summary_ok s"
  shows "case summary_validate s time c ob of
           Inl e \<Rightarrow> summary_consume time c ob s = (Inl e, s)
         | Inr _ \<Rightarrow> \<exists>s'. summary_consume time c ob s = (Inr (), s') \<and> summary_ok s'"
proof (cases "summary_validate s time c ob")
  case (Inl e)
  then show ?thesis by (simp add: summary_consume_def prog_defs)
next
  case (Inr u)
  then have "summary_validate s time c ob = Inr ()" by simp
  then have "\<exists>s'. summary_consume time c ob s = (Inr (), s') \<and> summary_ok s'"
    using summary_consume_job [OF assms, of ob] summary_consume_other [OF assms, of ob] by blast
  with Inr show ?thesis by simp
qed

lemma close_job_attributed:
  assumes ok: "attributed arrival st" and le: "last_transition st \<le> time"
  shows "\<exists>st'. close_job time st = Inr st' \<and> attributed arrival st'
     \<and> last_transition st' = (if terminal (att_snapshot st) then last_transition st else time)"
proof (cases "terminal (att_snapshot st)")
  case True
  then show ?thesis using ok by (simp add: close_job_def)
next
  case False
  have live: "att_phase st \<noteq> Terminal" using ok False by (simp add: attributed_def)
  have ord: "unat arrival \<le> unat (last_transition st)" "unat (last_transition st) \<le> unat time"
    using ok le by (simp_all add: attributed_def word_le_nat_alt)
  have sum: "accounted_total (att_snapshot st) + unat (time - last_transition st)
      = unat time - unat arrival"
    using ok ord unat_sub [OF le] by (simp add: attributed_def)
  then have "accounted_total (att_snapshot st) + unat (time - last_transition st) < 2 ^ 64"
    using unat_u64_bound [of time] by simp
  from add_interval_total [OF this live] sum ord False live show ?thesis
    by (auto simp: close_job_def attributed_def word_le_nat_alt)
qed

lemma close_jobs_ok:
  assumes "\<forall>(j, st)\<in>set js. (\<exists>arrival. attributed arrival st) \<and> last_transition st \<le> time"
  shows "\<exists>js'. close_jobs time js = (None, js') \<and> map fst js' = map fst js
     \<and> (\<forall>(j, st)\<in>set js'. (\<exists>arrival. attributed arrival st) \<and> last_transition st \<le> time)
     \<and> (\<forall>(j, st)\<in>set js'. terminal (att_snapshot st) \<or> last_transition st = time)"
  using assms
proof (induction js)
  case (Cons x js)
  obtain j st where x [simp]: "x = (j, st)" by (cases x)
  from Cons.prems obtain arrival where st: "attributed arrival st" "last_transition st \<le> time" by auto
  from close_job_attributed [OF this] obtain st' where st': "close_job time st = Inr st'"
    "attributed arrival st'"
    "last_transition st' = (if terminal (att_snapshot st) then last_transition st else time)" by blast
  have "terminal (att_snapshot st) \<Longrightarrow> terminal (att_snapshot st')"
    using st'(1) by (simp add: close_job_def)
  with st' st Cons show ?case by (fastforce split: if_splits)
qed simp

lemma summary_finalize_ok:
  assumes ok: "summary_ok s" and "\<not> sum_finalized s" and time: "\<not> regressed (sum_last_timestamp s) time"
  shows "\<exists>s'. summary_finalize time s = (Inr (), s') \<and> summary_ok s' \<and> sum_finalized s'
     \<and> (\<forall>(j, st)\<in>set (sum_jobs s'). terminal (att_snapshot st) \<or> last_transition st = time)"
proof -
  have "\<forall>(j, st)\<in>set (sum_jobs s). (\<exists>arrival. attributed arrival st) \<and> last_transition st \<le> time"
    using ok time by (fastforce simp: summary_ok_def regressed_def not_less)
  from close_jobs_ok [OF this] obtain js' where js': "close_jobs time (sum_jobs s) = (None, js')"
    "map fst js' = map fst (sum_jobs s)"
    "\<forall>(j, st)\<in>set js'. (\<exists>arrival. attributed arrival st) \<and> last_transition st \<le> time"
    "\<forall>(j, st)\<in>set js'. terminal (att_snapshot st) \<or> last_transition st = time" by blast
  with assms show ?thesis
    by (simp add: summary_finalize_def summary_ok_def omap_ok_def)
qed

text \<open>The history of one job: the transitions it is reported to make, in order.\<close>

fun job_history ::
  "job_id \<Rightarrow> (sim_time \<times> job_transition \<times> bool) list \<Rightarrow> job_attribution_state option
   \<Rightarrow> exn + job_attribution_state option" where
  "job_history j [] cur = Inr cur"
| "job_history j ((time, t, active) # hs) cur =
     bindR (transition cur j time t active) (\<lambda>nxt. job_history j hs (Some nxt))"

lemma job_history_attributed:
  "attributed arrival cur \<Longrightarrow> job_history j hs (Some cur) = Inr (Some st) \<Longrightarrow> attributed arrival st"
proof (induction hs arbitrary: cur)
  case (Cons h hs)
  obtain time t active where h: "h = (time, t, active)" by (cases h)
  with Cons.prems obtain nxt where nxt: "transition (Some cur) j time t active = Inr nxt"
    "job_history j hs (Some nxt) = Inr (Some st)" by (auto simp: bindR_eq_Inr)
  with transition_Some_Inr [OF nxt(1) Cons.prems(1)] Cons.IH show ?case by blast
qed simp

section \<open>Properties\<close>



text \<open>C27. \<^verbatim>\<open>SummaryBuilder::consume\<close> is atomic: on a well-formed summary it throws exactly when
  \<^verbatim>\<open>validate\<close> does, with the same exception and without changing anything, and otherwise it succeeds
  (including the three terminal job counters, for whose series there is room) and keeps the summary
  well formed; finalisation then closes every open interval and cannot overflow.\<close>

theorem summary_consume_atomic:
  assumes "summary_ok s"
  shows "(case summary_validate s time c ob of
            Inl e \<Rightarrow> summary_consume time c ob s = (Inl e, s)
          | Inr _ \<Rightarrow> \<exists>s'. summary_consume time c ob s = (Inr (), s') \<and> summary_ok s')
         \<and> (\<not> sum_finalized s \<and> \<not> regressed (sum_last_timestamp s) time \<longrightarrow>
            (\<exists>s'. summary_finalize time s = (Inr (), s') \<and> summary_ok s' \<and> sum_finalized s'
              \<and> (\<forall>(j, st)\<in>set (sum_jobs s'). terminal (att_snapshot st) \<or> last_transition st = time)))"
  using summary_consume_exact [OF assms] summary_finalize_ok [OF assms] by blast

theorem summary_consume_atomic_witness:
  "let s = \<lparr>sum_metrics = \<lparr>maximum_series = 3, series = []\<rparr>, sum_jobs = [], sum_last_timestamp = None,
            sum_maximum_metric_series = 3, sum_finalized = False\<rparr>;
       ob = JobObservation JobFailed 0 0 0 0; c = no_correlation\<lparr>cor_job := Some 1\<rparr>
   in summary_ok s \<and> summary_validate s 5 c ob = Inr ()
      \<and> (\<exists>s'. summary_consume 5 c ob s = (Inr (), s') \<and> summary_ok s')"
proof -
  define s where "s = \<lparr>sum_metrics = \<lparr>maximum_series = 3, series = []\<rparr>, sum_jobs = [],
      sum_last_timestamp = None, sum_maximum_metric_series = 3, sum_finalized = False\<rparr>"
  have ok: "summary_ok s" by (simp add: s_def summary_ok_def registry_ok_def)
  have v: "summary_validate s 5 (no_correlation\<lparr>cor_job := Some 1\<rparr>) (JobObservation JobFailed 0 0 0 0) = Inr ()"
    unfolding s_def by code_simp
  from summary_consume_atomic [OF ok, of 5 "no_correlation\<lparr>cor_job := Some 1\<rparr>"
      "JobObservation JobFailed 0 0 0 0"] ok v
  show ?thesis unfolding Let_def s_def [symmetric] by simp
qed

end
