(* ===== verification/Session.thy ===== *)
theory Session
  imports Summary
begin

text \<open>
  The telemetry session (\<^verbatim>\<open>telemetry/session.hpp\<close>, \<^verbatim>\<open>telemetry/session.cpp\<close>,
  \<^verbatim>\<open>telemetry/samples.hpp\<close>): the sink every component reports to. It enforces the configured
  limits, feeds the summary, samples the metrics at fixed simulated intervals and retains records.
\<close>

section \<open>State\<close>

record metric_sample =
  ms_metric :: metric_id
  ms_labels :: metric_labels
  ms_kind :: metric_kind
  ms_value :: u64
  ms_timestamp :: sim_time

definition is_sampled_metric_kind :: "metric_kind \<Rightarrow> bool" where
  "is_sampled_metric_kind k \<longleftrightarrow> k = KindCounter \<or> k = KindGauge"

record session =
  configuration :: telemetry_configuration
  summary :: "summary_builder option"
  records :: "telemetry_record list"
  samples :: "metric_sample list"
  last_timestamp :: "sim_time option"
  next_sample_timestamp :: "sim_time option"
  retained_edges :: size_t
  retained_decisions :: size_t
  retained_domain_records :: size_t
  next_record_id :: u64
  record_ids_exhausted :: bool
  is_finalized :: bool

definition new_session :: "telemetry_configuration \<Rightarrow> exn + session" where
  "new_session c =
     bindR (validate_configuration c) (\<lambda>_.
     bindR (if mode c \<noteq> ModeOff
            then bindR (new_summary (metric_series (limits c)) (histogram_boundaries (limits c)))
                   (\<lambda>b. Inr (Some b))
            else Inr None) (\<lambda>sm.
     Inr \<lparr>configuration = c, summary = sm, records = [], samples = [], last_timestamp = None,
          next_sample_timestamp = Some (sample_interval_ns c), retained_edges = 0,
          retained_decisions = 0, retained_domain_records = 0, next_record_id = 0,
          record_ids_exhausted = False, is_finalized = False\<rparr>))"

definition session_enabled :: "session \<Rightarrow> bool" where
  "session_enabled s = (mode (configuration s) \<noteq> ModeOff)"

section \<open>Sampling\<close>

text \<open>
  \<^verbatim>\<open>summary->\<close> on a null pointer is undefined in the source; the model gives it an exception of its
  own, which the invariant below excludes: every call is behind a mode test.
\<close>

definition summary_of :: "session \<Rightarrow> exn + summary_builder" where
  "summary_of s = (case summary s of None \<Rightarrow> Inl (LogicError ''null summary'') | Some b \<Rightarrow> Inr b)"

definition with_summary :: "(summary_builder, 'a) prog \<Rightarrow> (session, 'a) prog" where
  "with_summary m =
     bind (gets summary_of) (\<lambda>r.
     bind (lift_res r) (\<lambda>b s. case m b of (x, b') \<Rightarrow> (x, s\<lparr>summary := Some b'\<rparr>)))"

definition retains_samples :: "session \<Rightarrow> bool" where
  "retains_samples s \<longleftrightarrow> mode (configuration s) = ModeSampled \<or> mode (configuration s) = ModeFull"

definition sample_of :: "sim_time \<Rightarrow> series_snapshot \<Rightarrow> metric_sample" where
  "sample_of time sn = \<lparr>ms_metric = snap_metric sn, ms_labels = snap_labels sn, ms_kind = snap_kind sn,
     ms_value = snap_scalar sn, ms_timestamp = time\<rparr>"

definition append_sample_frame :: "sim_time \<Rightarrow> (session, unit) prog" where
  "append_sample_frame time =
     bind (with_summary (gets summary_metric_snapshots)) (\<lambda>snaps.
     let sampled = filter (\<lambda>sn. is_sampled_metric_kind (snap_kind sn)) snaps
     in bind (gets (\<lambda>s. size_sub (max_samples (limits (configuration s))) (length (samples s)))) (\<lambda>room.
        seq (throw_if (length sampled > room) (LengthError ''telemetry sample limit exceeded''))
            (modify (\<lambda>s. s\<lparr>samples := samples s @ map (sample_of time) sampled\<rparr>))))"

definition advance_sample_timestamp :: "sim_time \<Rightarrow> (session, unit) prog" where
  "advance_sample_timestamp cur =
     modify (\<lambda>s. s\<lparr>next_sample_timestamp :=
       (if sample_interval_ns (configuration s) > u64_max - cur then None
        else Some (cur + sample_interval_ns (configuration s)))\<rparr>)"

definition skip_empty_sample_boundaries :: "sim_time \<Rightarrow> bool \<Rightarrow> (session, unit) prog" where
  "skip_empty_sample_boundaries time inclusive =
     modify (\<lambda>s.
       case next_sample_timestamp s of
         None \<Rightarrow> s
       | Some first \<Rightarrow>
           if \<not> inclusive \<and> time = 0 then s
           else
             let last_eligible = (if inclusive then time else time - 1)
             in if first > last_eligible then s
                else
                  let interval = sample_interval_ns (configuration s);
                      complete_intervals = (last_eligible - first) div interval;
                      last_boundary = first + complete_intervals * interval
                  in s\<lparr>next_sample_timestamp :=
                        (if interval > u64_max - last_boundary then None
                         else Some (last_boundary + interval))\<rparr>)"

definition sample_due :: "sim_time \<Rightarrow> bool \<Rightarrow> session \<Rightarrow> bool" where
  "sample_due time inclusive s =
     (case next_sample_timestamp s of
        None \<Rightarrow> False
      | Some t \<Rightarrow> t < time \<or> (inclusive \<and> t = time))"

definition emit_sample :: "(session, unit) prog" where
  "emit_sample =
     bind (gets next_sample_timestamp) (\<lambda>t.
     seq (append_sample_frame (the t)) (advance_sample_timestamp (the t)))"

definition emit_samples_until :: "sim_time \<Rightarrow> bool \<Rightarrow> (session, unit) prog" where
  "emit_samples_until time inclusive =
     bind (gets retains_samples) (\<lambda>on.
     if \<not> on then return ()
     else
       bind (with_summary (gets summary_metric_snapshots)) (\<lambda>snaps.
       if \<not> list_ex (\<lambda>sn. is_sampled_metric_kind (snap_kind sn)) snaps
       then skip_empty_sample_boundaries time inclusive
       else while_prog (sample_due time inclusive) emit_sample))"

section \<open>Recording\<close>

definition checked_add_size :: "size_t \<Rightarrow> size_t \<Rightarrow> exn + size_t" where
  "checked_add_size left right =
     (if right > size_sub (2 ^ 64 - 1) left
      then Inl (OverflowError ''telemetry correlation edge overflow'')
      else Inr (left + right))"

text \<open>The guards of \<^verbatim>\<open>record\<close> for a retained record, and the edge count after it.\<close>

definition check_retention :: "session \<Rightarrow> bool \<Rightarrow> size_t \<Rightarrow> exn + size_t" where
  "check_retention s decision edges =
     (if decision \<and> retained_decisions s \<ge> decision_records (limits (configuration s))
      then Inl (LengthError ''telemetry decision record limit exceeded'')
      else if \<not> decision \<and> retained_domain_records s \<ge> domain_records (limits (configuration s))
      then Inl (LengthError ''telemetry domain record limit exceeded'')
      else
        bindR (checked_add_size (retained_edges s) edges) (\<lambda>next_edge_count.
          if next_edge_count > correlation_edges (limits (configuration s))
          then Inl (LengthError ''telemetry correlation edge limit exceeded'')
          else if record_ids_exhausted s
          then Inl (OverflowError ''telemetry record ID sequence exhausted'')
          else Inr next_edge_count))"

definition retain_record ::
  "sim_time \<Rightarrow> correlation \<Rightarrow> telemetry_observation \<Rightarrow> bool \<Rightarrow> size_t \<Rightarrow> session \<Rightarrow> session" where
  "retain_record time c ob decision next_edge_count s =
     (let s1 = s\<lparr>records := records s @ [\<lparr>tr_correlation = c, tr_observation = ob,
                    tr_id = next_record_id s, tr_timestamp = time\<rparr>],
                 retained_edges := next_edge_count\<rparr>;
          s2 = (if decision then s1\<lparr>retained_decisions := retained_decisions s1 + 1\<rparr>
                else s1\<lparr>retained_domain_records := retained_domain_records s1 + 1\<rparr>)
      in if next_record_id s2 = u64_max then s2\<lparr>record_ids_exhausted := True\<rparr>
         else s2\<lparr>next_record_id := next_record_id s2 + 1\<rparr>)"

definition session_record ::
  "sim_time \<Rightarrow> correlation \<Rightarrow> telemetry_observation \<Rightarrow> (session, unit) prog" where
  "session_record time c ob =
     bind (gets session_enabled) (\<lambda>on.
     if \<not> on then return ()
     else
       bind (gets is_finalized) (\<lambda>fin.
       seq (throw_if fin (LogicError ''cannot record telemetry after finalization''))
       (bind (gets (\<lambda>s. regressed (last_timestamp s) time)) (\<lambda>back.
       seq (throw_if back (InvalidArgument ''telemetry observation timestamp regressed''))
       (bind (gets (mode \<circ> configuration)) (\<lambda>md.
       let decision = is_decision_observation ob;
           retain = (md = ModeFull \<or> (md = ModeSampled \<and> decision));
           edges = correlation_edge_count c
       in bind (gets (\<lambda>s. if retain then check_retention s decision edges else Inr (retained_edges s))) (\<lambda>checked.
          bind (lift_res checked) (\<lambda>next_edge_count.
          bind (with_summary (gets (\<lambda>b. summary_validate b time c ob))) (\<lambda>valid.
          bind (lift_res valid) (\<lambda>_.
          seq (emit_samples_until time False)
          (seq (with_summary (summary_consume time c ob))
          (seq (perform_if retain (modify (retain_record time c ob decision next_edge_count)))
               (modify (\<lambda>s. s\<lparr>last_timestamp := Some time\<rparr>))))))))))))))"

definition session_finalize :: "sim_time \<Rightarrow> (session, unit) prog" where
  "session_finalize time =
     bind (gets is_finalized) (\<lambda>fin.
     seq (throw_if fin (LogicError ''telemetry session is already finalized''))
     (bind (gets (\<lambda>s. session_enabled s \<and> regressed (last_timestamp s) time)) (\<lambda>back.
     seq (throw_if back (InvalidArgument ''telemetry final timestamp regressed''))
     (seq (emit_samples_until time True)
     (bind (gets (\<lambda>s. summary s \<noteq> None)) (\<lambda>has.
      seq (perform_if has (with_summary (summary_finalize time)))
          (modify (\<lambda>s. s\<lparr>last_timestamp := Some time, is_finalized := True\<rparr>))))))))"

section \<open>Sinks and queries\<close>

text \<open>A sink is a nullable pointer to the session: present or not.\<close>

definition sink_enabled :: "bool \<Rightarrow> session \<Rightarrow> bool" where
  "sink_enabled present s = (present \<and> session_enabled s)"

definition sink_record ::
  "bool \<Rightarrow> sim_time \<Rightarrow> correlation \<Rightarrow> telemetry_observation \<Rightarrow> (session, unit) prog" where
  "sink_record present time c ob =
     bind (gets (sink_enabled present)) (\<lambda>on. perform_if on (session_record time c ob))"

definition session_find_metric :: "session \<Rightarrow> metric_id \<Rightarrow> metric_labels \<Rightarrow> exn + series_snapshot option" where
  "session_find_metric s m l =
     (if \<not> session_enabled s then Inr None
      else bindR (summary_of s) (\<lambda>b. summary_find_metric b m l))"

definition session_metric_snapshots :: "session \<Rightarrow> exn + series_snapshot list" where
  "session_metric_snapshots s =
     (if \<not> session_enabled s then Inr []
      else bindR (summary_of s) (\<lambda>b. Inr (summary_metric_snapshots b)))"

definition session_job_attributions :: "session \<Rightarrow> exn + job_attribution list" where
  "session_job_attributions s =
     (if \<not> session_enabled s then Inr []
      else bindR (summary_of s) (\<lambda>b. Inr (job_attributions b)))"

record telemetry_snapshot =
  ts_configuration :: telemetry_configuration
  ts_metrics :: "series_snapshot list"
  ts_job_attributions :: "job_attribution list"
  ts_records :: "telemetry_record list"
  ts_samples :: "metric_sample list"
  ts_retained_correlation_edges :: size_t
  ts_finalized :: bool

definition session_snapshot :: "session \<Rightarrow> exn + telemetry_snapshot" where
  "session_snapshot s =
     bindR (session_metric_snapshots s) (\<lambda>ms.
     bindR (session_job_attributions s) (\<lambda>js.
     Inr \<lparr>ts_configuration = configuration s, ts_metrics = ms, ts_job_attributions = js,
          ts_records = records s, ts_samples = samples s,
          ts_retained_correlation_edges = retained_edges s, ts_finalized = is_finalized s\<rparr>))"

section \<open>The invariant\<close>

text \<open>
  Records are numbered from 0 without gaps, in time order; the retention counters are the numbers of
  records of each class and of correlation edges, all within the limits; the summary exists exactly
  when telemetry is on and agrees with the session on the last timestamp and on finality.
\<close>

definition record_position :: "session \<Rightarrow> nat" where
  "record_position s = id_position \<lparr>next_value = next_record_id s, exhausted = record_ids_exhausted s\<rparr>"

definition retention_ok :: "session \<Rightarrow> bool" where
  "retention_ok s \<longleftrightarrow>
     retained_edges s = sum_list (map (correlation_edge_count \<circ> tr_correlation) (records s))
     \<and> retained_edges s \<le> correlation_edges (limits (configuration s))
     \<and> retained_decisions s = length (filter (is_decision_observation \<circ> tr_observation) (records s))
     \<and> retained_decisions s \<le> decision_records (limits (configuration s))
     \<and> retained_domain_records s
         = length (filter (\<lambda>r. \<not> is_decision_observation (tr_observation r)) (records s))
     \<and> retained_domain_records s \<le> domain_records (limits (configuration s))
     \<and> map tr_id (records s) = map of_nat [0..<length (records s)]
     \<and> record_position s = length (records s)
     \<and> sorted (map tr_timestamp (records s))
     \<and> (\<forall>r\<in>set (records s). \<exists>t. last_timestamp s = Some t \<and> tr_timestamp r \<le> t)"

definition summary_agrees :: "session \<Rightarrow> bool" where
  "summary_agrees s \<longleftrightarrow>
     (case summary s of
        None \<Rightarrow> mode (configuration s) = ModeOff \<and> records s = []
      | Some b \<Rightarrow> mode (configuration s) \<noteq> ModeOff \<and> summary_ok b
          \<and> sum_last_timestamp b = last_timestamp s \<and> sum_finalized b = is_finalized s)"

definition session_ok :: "session \<Rightarrow> bool" where
  "session_ok s \<longleftrightarrow>
     0 < sample_interval_ns (configuration s) \<and> retention_ok s \<and> summary_agrees s
     \<and> length (samples s) \<le> max_samples (limits (configuration s))"

text \<open>Sampling touches the samples and the next sample time only.\<close>

definition sampled_only :: "session \<Rightarrow> session \<Rightarrow> bool" where
  "sampled_only s t \<longleftrightarrow>
     t = s\<lparr>samples := samples t, next_sample_timestamp := next_sample_timestamp t\<rparr>
     \<and> length (samples t) \<le> max_samples (limits (configuration s))
     \<and> (\<exists>new. samples t = samples s @ new)"

section \<open>Lemmas: sampling\<close>

lemma sampled_only_refl: "session_ok s \<Longrightarrow> sampled_only s s"
  by (simp add: sampled_only_def session_ok_def)

lemma sampled_only_fields:
  assumes "sampled_only s t"
  shows "configuration t = configuration s" "summary t = summary s" "records t = records s"
    "last_timestamp t = last_timestamp s" "is_finalized t = is_finalized s"
    "retained_edges t = retained_edges s" "retained_decisions t = retained_decisions s"
    "retained_domain_records t = retained_domain_records s" "next_record_id t = next_record_id s"
    "record_ids_exhausted t = record_ids_exhausted s"
proof -
  from assms have t: "t = s\<lparr>samples := samples t, next_sample_timestamp := next_sample_timestamp t\<rparr>"
    by (simp add: sampled_only_def)
  show "configuration t = configuration s" "summary t = summary s" "records t = records s"
    "last_timestamp t = last_timestamp s" "is_finalized t = is_finalized s"
    "retained_edges t = retained_edges s" "retained_decisions t = retained_decisions s"
    "retained_domain_records t = retained_domain_records s" "next_record_id t = next_record_id s"
    "record_ids_exhausted t = record_ids_exhausted s"
    by (subst t, simp)+
qed

lemma session_ok_sampled_only: "session_ok s \<Longrightarrow> sampled_only s t \<Longrightarrow> session_ok t"
  using sampled_only_fields [of s t]
  by (cases "summary s") (simp_all add: session_ok_def retention_ok_def summary_agrees_def record_position_def,
    simp_all add: sampled_only_def)

lemma wp_with_summary [wp_simps]:
  "wp (with_summary m) Q E =
     (\<lambda>s. case summary s of
        None \<Rightarrow> E (LogicError ''null summary'') s
      | Some b \<Rightarrow> wp m (\<lambda>x b'. Q x (s\<lparr>summary := Some b'\<rparr>)) (\<lambda>e b'. E e (s\<lparr>summary := Some b'\<rparr>)) b)"
  by (simp add: fun_eq_iff wp_def with_summary_def prog_defs summary_of_def split: option.splits prod.splits sum.splits)

lemma session_summary_self: "summary s = Some b \<Longrightarrow> s\<lparr>summary := Some b\<rparr> = s" for s :: session
  by simp

abbreviation sample_limit_exn :: exn where
  "sample_limit_exn \<equiv> LengthError ''telemetry sample limit exceeded''"

lemma wp_append_sample_frame:
  assumes "sampled_only s u" and ok: "session_ok s" and "summary s \<noteq> None"
  shows "wp (append_sample_frame time)
           (\<lambda>_ t. sampled_only s t \<and> next_sample_timestamp t = next_sample_timestamp u)
           (\<lambda>e t. e = sample_limit_exn \<and> t = u) u"
proof -
  from assms(3) obtain b where b: "summary s = Some b" by auto
  note f = sampled_only_fields [OF assms(1)]
  from assms(1) have len: "length (samples u) \<le> max_samples (limits (configuration s))"
    and u: "u = s\<lparr>samples := samples u, next_sample_timestamp := next_sample_timestamp u\<rparr>"
    and "\<exists>new. samples u = samples s @ new" by (auto simp: sampled_only_def)
  then have app: "\<exists>new. samples u @ xs = samples s @ new" for xs by auto
  have self: "u\<lparr>summary := Some b\<rparr> = u" using f(2) b by simp
  have upd: "(u\<lparr>samples := xs\<rparr> :: session)
      = s\<lparr>samples := xs, next_sample_timestamp := next_sample_timestamp u\<rparr>" for xs
    by (subst u, simp)
  show ?thesis
    unfolding append_sample_frame_def
    using len app
    by (auto simp: wp_simps f(1,2) b Let_def self sampled_only_def size_sub_simp not_less upd)
qed

text \<open>The next sample time moves forward, or ends.\<close>

definition sample_distance :: "session \<Rightarrow> nat" where
  "sample_distance s = (case next_sample_timestamp s of None \<Rightarrow> 0 | Some t \<Rightarrow> 2 ^ 64 - unat t)"

lemma sample_distance_advance:
  assumes "next_sample_timestamp s = Some t" and "0 < interval"
  shows "sample_distance (s\<lparr>next_sample_timestamp :=
      (if interval > u64_max - t then None else Some (t + interval))\<rparr>) < sample_distance s"
proof (cases "interval > u64_max - t")
  case True
  then show ?thesis using unat_u64_bound [of t] assms(1) by (simp add: sample_distance_def)
next
  case False
  then have "unat t + unat interval < 2 ^ 64" by (simp add: not_less le_max_minus_iff)
  with False assms unat_u64_bound [of t] show ?thesis
    by (simp add: sample_distance_def unat_plus_no_overflow word_less_nat_alt)
qed

lemma wp_emit_samples_loop:
  assumes ok: "session_ok s" and has: "summary s \<noteq> None"
  shows "wp (while_prog (sample_due time inclusive) emit_sample)
           (\<lambda>_ t. sampled_only s t \<and> \<not> sample_due time inclusive t)
           (\<lambda>e t. e = sample_limit_exn \<and> sampled_only s t) s"
proof (rule wp_while_prog [where I = "sampled_only s" and f = sample_distance])
  show "sampled_only s s" using ok by (rule sampled_only_refl)
next
  fix t assume I: "sampled_only s t" and due: "sample_due time inclusive t"
  from due obtain n where n: "next_sample_timestamp t = Some n"
    by (auto simp: sample_due_def split: option.splits)
  have "wp (append_sample_frame n)
     (\<lambda>_ u. sampled_only s u \<and> next_sample_timestamp u = Some n) (\<lambda>e u. e = sample_limit_exn \<and> u = t) t"
    using wp_append_sample_frame [OF I ok has] n by simp
  then have "wp (append_sample_frame n)
     (\<lambda>_ u. wp (advance_sample_timestamp n) (\<lambda>_ u. sampled_only s u \<and> sample_distance u < sample_distance t)
              (\<lambda>e t. e = sample_limit_exn \<and> sampled_only s t) u)
     (\<lambda>e u. e = sample_limit_exn \<and> sampled_only s u) t"
  proof (rule wp_mono)
    fix u assume u: "sampled_only s u \<and> next_sample_timestamp u = Some n"
    let ?u' = "u\<lparr>next_sample_timestamp :=
       (if sample_interval_ns (configuration u) > u64_max - n then None
        else Some (n + sample_interval_ns (configuration u)))\<rparr>"
    have pos: "0 < sample_interval_ns (configuration u)"
      using u ok sampled_only_fields(1) [of s u] by (simp add: session_ok_def)
    have "sample_distance u = sample_distance t" using u n by (simp add: sample_distance_def)
    then have "sample_distance ?u' < sample_distance t"
      using sample_distance_advance [of u n, OF _ pos] u by simp
    moreover have "sampled_only s ?u'"
    proof -
      from u have eq: "u = s\<lparr>samples := samples u, next_sample_timestamp := next_sample_timestamp u\<rparr>"
        unfolding sampled_only_def by blast
      have "u\<lparr>next_sample_timestamp := x\<rparr> = s\<lparr>samples := samples u, next_sample_timestamp := x\<rparr>" for x
        by (subst eq, simp)
      with u show ?thesis by (simp add: sampled_only_def)
    qed
    ultimately show "wp (advance_sample_timestamp n)
        (\<lambda>_ u. sampled_only s u \<and> sample_distance u < sample_distance t)
        (\<lambda>e t. e = sample_limit_exn \<and> sampled_only s t) u"
      by (simp add: advance_sample_timestamp_def wp_simps)
  qed (use I in simp)
  then show "wp emit_sample (\<lambda>_ u. sampled_only s u \<and> sample_distance u < sample_distance t)
      (\<lambda>e t. e = sample_limit_exn \<and> sampled_only s t) t"
    by (simp add: emit_sample_def wp_simps n)
qed simp

lemma sampled_only_skip:
  assumes "session_ok s"
  shows "\<exists>t. skip_empty_sample_boundaries time inclusive s = (Inr (), t) \<and> sampled_only s t"
  using assms
  by (simp add: skip_empty_sample_boundaries_def modify_def sampled_only_def session_ok_def Let_def
      split: option.splits)

text \<open>Sampling either completes, or stops at the sample limit; the rest of the session is as before.\<close>

lemma wp_emit_samples_until:
  assumes ok: "session_ok s"
  shows "wp (emit_samples_until time inclusive) (\<lambda>_ t. sampled_only s t)
           (\<lambda>e t. e = sample_limit_exn \<and> sampled_only s t) s"
proof (cases "retains_samples s")
  case False
  then show ?thesis using ok by (simp add: emit_samples_until_def wp_simps sampled_only_refl)
next
  case True
  then obtain b where b: "summary s = Some b"
    using ok by (auto simp: session_ok_def summary_agrees_def retains_samples_def split: option.splits)
  have skip: "wp (skip_empty_sample_boundaries time inclusive) (\<lambda>_ t. sampled_only s t)
           (\<lambda>e t. e = sample_limit_exn \<and> sampled_only s t) s"
    using sampled_only_skip [OF ok, of time inclusive] by (auto simp: wp_def)
  have "wp (while_prog (sample_due time inclusive) emit_sample) (\<lambda>_ t. sampled_only s t)
           (\<lambda>e t. e = sample_limit_exn \<and> sampled_only s t) s"
    by (rule wp_mono [OF wp_emit_samples_loop [OF ok]]) (use b in simp_all)
  with skip show ?thesis
    by (simp add: emit_samples_until_def wp_simps True b session_summary_self)
qed

section \<open>Lemmas: skipping empty boundaries\<close>

text \<open>The step the sampling loop takes, without the frame.\<close>

definition advance_only :: "(session, unit) prog" where
  "advance_only = bind (gets next_sample_timestamp) (\<lambda>t. advance_sample_timestamp (the t))"

definition skip_target :: "u64 \<Rightarrow> u64 \<Rightarrow> u64 \<Rightarrow> u64 option" where
  "skip_target interval limit first =
     (let boundary = first + (limit - first) div interval * interval
      in if interval > u64_max - boundary then None else Some (boundary + interval))"

lemma unat_last_boundary:
  fixes first limit interval :: u64
  assumes "first \<le> limit" and "0 < interval"
  shows "unat (first + (limit - first) div interval * interval)
       = unat first + (unat limit - unat first) div unat interval * unat interval"
    (is "_ = _ + ?m")
proof -
  have sub: "unat (limit - first) = unat limit - unat first" using assms(1) by (rule unat_sub)
  have m: "?m \<le> unat limit - unat first" by (rule div_times_less_eq_dividend)
  moreover have "unat limit < 2 ^ 64" by (rule unat_u64_bound)
  moreover have "unat first \<le> unat limit" using assms(1) by (simp add: word_le_nat_alt)
  ultimately have lt: "unat first + ?m < 2 ^ 64" "?m < 2 ^ 64" by linarith+
  have "unat ((limit - first) div interval * interval) = ?m"
    using lt(2) by (subst unat_mult_no_overflow) (simp_all add: unat_div sub)
  then show ?thesis using lt(1) by (subst unat_plus_no_overflow) simp_all
qed

lemma skip_target_step:
  assumes "first \<le> limit" and pos: "0 < interval"
  shows "skip_target interval limit first =
     (if interval > u64_max - first then None
      else if first + interval \<le> limit then skip_target interval limit (first + interval)
      else Some (first + interval))"
proof (cases "unat first + unat interval \<le> unat limit")
  case True
  then have fits: "unat first + unat interval < 2 ^ 64" using unat_u64_bound [of limit] by linarith
  then have sum: "unat (first + interval) = unat first + unat interval"
    by (simp add: unat_plus_no_overflow)
  have le: "first + interval \<le> limit" using True sum by (simp add: word_le_nat_alt)
  have ipos: "0 < unat interval" using pos by (simp add: word_less_nat_alt)
  have "(unat limit - unat first) div unat interval
      = Suc ((unat limit - (unat first + unat interval)) div unat interval)"
    using True ipos le_div_geq [of "unat interval" "unat limit - unat first"] by simp
  then have "first + (limit - first) div interval * interval
      = first + interval + (limit - (first + interval)) div interval * interval"
    using unat_last_boundary [OF assms] unat_last_boundary [OF le pos] sum
    by (simp add: word_unat_eq_iff)
  then have "skip_target interval limit first = skip_target interval limit (first + interval)"
    by (simp only: skip_target_def)
  moreover have "\<not> interval > u64_max - first" using fits by (simp add: not_less le_max_minus_iff)
  ultimately show ?thesis using le by simp
next
  case False
  then have "(unat limit - unat first) div unat interval = 0"
    using assms(1) by (simp add: word_le_nat_alt)
  then have boundary: "first + (limit - first) div interval * interval = first"
    using unat_last_boundary [OF assms] by (simp add: word_unat_eq_iff)
  moreover have "\<not> first + interval \<le> limit" if "\<not> interval > u64_max - first"
  proof -
    from that have "unat first + unat interval < 2 ^ 64" by (simp add: not_less le_max_minus_iff)
    then show ?thesis using False by (simp add: word_le_nat_alt unat_plus_no_overflow)
  qed
  ultimately show ?thesis by (simp add: skip_target_def Let_def)
qed

text \<open>The last time at which a sample would be due.\<close>

definition sample_limit :: "sim_time \<Rightarrow> bool \<Rightarrow> u64" where
  "sample_limit time inclusive = (if inclusive then time else time - 1)"

lemma sample_due_iff:
  "sample_due time inclusive s \<longleftrightarrow>
     (\<exists>t. next_sample_timestamp s = Some t \<and> (inclusive \<or> time \<noteq> 0) \<and> t \<le> sample_limit time inclusive)"
proof -
  have "t < time \<longleftrightarrow> time \<noteq> 0 \<and> t \<le> time - 1" for t :: u64
  proof (cases "time = 0")
    case False
    then have "0 < unat time" by (simp add: unat_gt_0)
    with False show ?thesis by (auto simp: word_le_nat_alt word_less_nat_alt unat_minus_one)
  qed simp
  then show ?thesis
    by (auto simp: sample_due_def sample_limit_def le_less split: option.splits)
qed

lemma skip_empty_sample_boundaries_eq:
  "skip_empty_sample_boundaries time inclusive s =
     (Inr (), if sample_due time inclusive s
              then s\<lparr>next_sample_timestamp := skip_target (sample_interval_ns (configuration s))
                       (sample_limit time inclusive) (the (next_sample_timestamp s))\<rparr>
              else s)"
  by (auto simp: skip_empty_sample_boundaries_def modify_def sample_due_iff sample_limit_def
      skip_target_def Let_def split: option.splits)

text \<open>Skipping computes in one step what advancing boundary by boundary reaches.\<close>

lemma skip_eq_advance_loop:
  assumes "0 < sample_interval_ns (configuration s)"
  shows "skip_empty_sample_boundaries time inclusive s
       = while_prog (sample_due time inclusive) advance_only s"
  using assms
proof (induction "sample_distance s" arbitrary: s rule: less_induct)
  case less
  show ?case
  proof (cases "sample_due time inclusive s")
    case False
    then show ?thesis by (simp add: while_prog_unfold skip_empty_sample_boundaries_eq)
  next
    case True
    let ?i = "sample_interval_ns (configuration s)" and ?l = "sample_limit time inclusive"
    from True obtain t where t: "next_sample_timestamp s = Some t" "t \<le> ?l"
      by (auto simp: sample_due_iff)
    let ?s' = "s\<lparr>next_sample_timestamp := (if ?i > u64_max - t then None else Some (t + ?i))\<rparr>"
    have adv: "advance_only s = (Inr (), ?s')"
      by (simp add: advance_only_def advance_sample_timestamp_def prog_defs t)
    have IH: "skip_empty_sample_boundaries time inclusive ?s'
        = while_prog (sample_due time inclusive) advance_only ?s'"
      by (rule less.hyps) (use less.prems sample_distance_advance [OF t(1) less.prems] in simp_all)
    have due: "sample_due time inclusive ?s' \<longleftrightarrow> \<not> ?i > u64_max - t \<and> t + ?i \<le> ?l"
      using True by (auto simp: sample_due_iff)
    have "skip_empty_sample_boundaries time inclusive ?s'
        = (Inr (), s\<lparr>next_sample_timestamp := skip_target ?i ?l t\<rparr>)"
      unfolding skip_target_step [OF t(2) less.prems]
      by (simp add: skip_empty_sample_boundaries_eq due)
    also have "\<dots> = skip_empty_sample_boundaries time inclusive s"
      by (simp add: skip_empty_sample_boundaries_eq True t)
    finally have "skip_empty_sample_boundaries time inclusive s
        = while_prog (sample_due time inclusive) advance_only ?s'" by (simp add: IH)
    then show ?thesis
      by (subst while_prog_unfold) (simp add: True seq_def bind_def adv)
  qed
qed

section \<open>Lemmas: recording\<close>

lemma check_retention_Inr:
  "check_retention s decision edges = Inr n \<Longrightarrow>
   n = retained_edges s + edges \<and> n \<le> correlation_edges (limits (configuration s))
   \<and> (decision \<longrightarrow> retained_decisions s < decision_records (limits (configuration s)))
   \<and> (\<not> decision \<longrightarrow> retained_domain_records s < domain_records (limits (configuration s)))
   \<and> \<not> record_ids_exhausted s"
  by (auto simp: check_retention_def checked_add_size_def bindR_eq_Inr split: if_splits)

lemma record_position_retain:
  assumes "\<not> record_ids_exhausted s"
  shows "record_position (retain_record time c ob d n s) = Suc (record_position s)"
proof -
  have "record_position (retain_record time c ob d n s)
      = id_position (issue_id \<lparr>next_value = next_record_id s, exhausted = record_ids_exhausted s\<rparr>)"
    by (simp add: record_position_def retain_record_def issue_id_def Let_def)
  then show ?thesis using assms by (simp add: id_position_issue record_position_def)
qed

lemma retain_record_fields:
  "records (retain_record time c ob d n s) = records s @ [\<lparr>tr_correlation = c, tr_observation = ob,
     tr_id = next_record_id s, tr_timestamp = time\<rparr>]"
  "retained_edges (retain_record time c ob d n s) = n"
  "retained_decisions (retain_record time c ob d n s) = retained_decisions s + (if d then 1 else 0)"
  "retained_domain_records (retain_record time c ob d n s) = retained_domain_records s + (if d then 0 else 1)"
  "configuration (retain_record time c ob d n s) = configuration s"
  "summary (retain_record time c ob d n s) = summary s"
  "samples (retain_record time c ob d n s) = samples s"
  "is_finalized (retain_record time c ob d n s) = is_finalized s"
  by (simp_all add: retain_record_def Let_def)

lemma retention_ok_retain:
  assumes ok: "retention_ok s" and time: "\<not> regressed (last_timestamp s) time"
    and check: "check_retention s (is_decision_observation ob) (correlation_edge_count c) = Inr n"
  shows "retention_ok ((retain_record time c ob (is_decision_observation ob) n s)\<lparr>last_timestamp := Some time\<rparr>)"
proof -
  note n = check_retention_Inr [OF check]
  from n ok have "length (records s) = unat (next_record_id s)"
    by (simp add: retention_ok_def record_position_def id_position_def)
  then have "next_record_id s = of_nat (length (records s))" by simp
  with ok have ids: "map tr_id (records s) @ [next_record_id s] = map of_nat [0..<Suc (length (records s))]"
    by (simp add: retention_ok_def)
  have le: "tr_timestamp r \<le> time" if "r \<in> set (records s)" for r
    using that ok time by (fastforce simp: retention_ok_def regressed_def not_less)
  have pos: "record_position ((retain_record time c ob d n s)\<lparr>last_timestamp := Some time\<rparr>)
      = Suc (record_position s)" for d
    using record_position_retain [of s time c ob d n] n by (simp add: record_position_def)
  show ?thesis
    using n ok le ids unfolding retention_ok_def pos
    by (simp add: retain_record_fields sorted_append Suc_le_eq)
qed

lemma retention_ok_timestamp:
  "retention_ok s \<Longrightarrow> \<not> regressed (last_timestamp s) time \<Longrightarrow> retention_ok (s\<lparr>last_timestamp := Some time\<rparr>)"
  by (fastforce simp: retention_ok_def regressed_def not_less record_position_def)

lemma retention_ok_summary [simp]: "retention_ok (s\<lparr>summary := b\<rparr>) = retention_ok s"
  by (simp add: retention_ok_def record_position_def)

lemma summary_consume_last_timestamp:
  "summary_consume time c ob b = (Inr (), b') \<Longrightarrow>
   sum_last_timestamp b' = Some time \<and> sum_finalized b' = sum_finalized b"
  unfolding summary_consume_def
  by (auto simp: prog_defs zoom_metrics_def split: prod.splits sum.splits telemetry_observation.splits
      option.splits if_splits)

lemma summary_validate_unfinalized:
  "summary_validate b time c ob = Inr () \<Longrightarrow> \<not> sum_finalized b \<and> \<not> regressed (sum_last_timestamp b) time"
  by (auto simp: summary_validate_def split: if_splits)

text \<open>
  What a call of \<^verbatim>\<open>record\<close> may do: succeed and keep the invariant; throw and leave the session as it
  was; or throw at the sample limit, with nothing but samples added.
\<close>

lemma wp_session_record:
  assumes ok: "session_ok s"
  shows "wp (session_record time c ob) (\<lambda>_ t. session_ok t \<and> configuration t = configuration s)
           (\<lambda>e t. session_ok t \<and> sampled_only s t \<and> (t = s \<or> e = sample_limit_exn)) s"
proof (cases "session_enabled s \<and> \<not> is_finalized s \<and> \<not> regressed (last_timestamp s) time")
  case False
  then show ?thesis
    using ok by (auto simp: session_record_def wp_simps sampled_only_refl)
next
  case True
  let ?d = "is_decision_observation ob" and ?md = "mode (configuration s)"
  let ?retain = "?md = ModeFull \<or> (?md = ModeSampled \<and> ?d)"
  let ?checked = "if ?retain then check_retention s ?d (correlation_edge_count c) else Inr (retained_edges s)"
  from True ok obtain b where b: "summary s = Some b"
    and agrees: "summary_ok b" "sum_last_timestamp b = last_timestamp s" "sum_finalized b = is_finalized s"
    by (auto simp: session_ok_def summary_agrees_def session_enabled_def split: option.splits)
  let ?E = "\<lambda>e t. session_ok t \<and> sampled_only s t \<and> (t = s \<or> e = sample_limit_exn)"
  let ?rest = "\<lambda>n. seq (with_summary (summary_consume time c ob))
        (seq (perform_if ?retain (modify (retain_record time c ob ?d n)))
             (modify (\<lambda>s. s\<lparr>last_timestamp := Some time\<rparr>)))"
  have rest: "wp (?rest n) (\<lambda>_ t. session_ok t \<and> configuration t = configuration s) ?E u"
    if n: "?checked = Inr n" and v: "summary_validate b time c ob = Inr ()" and u: "sampled_only s u" for n u
  proof -
    from summary_consume_exact [OF agrees(1), of time c ob] v obtain b' where
      b': "summary_consume time c ob b = (Inr (), b')" "summary_ok b'" by auto
    note f = sampled_only_fields [OF u]
    have okU: "session_ok u" using ok u by (rule session_ok_sampled_only)
    then have ret: "retention_ok u" by (simp add: session_ok_def)
    have tu: "\<not> regressed (last_timestamp u) time" using True f by simp
    have chk: "check_retention u ?d (correlation_edge_count c) = Inr n" if ?retain
      using that n by (simp add: check_retention_def f cong: if_cong)
    let ?u = "u\<lparr>summary := Some b'\<rparr>"
    let ?t = "(if ?retain then retain_record time c ob ?d n ?u else ?u)\<lparr>last_timestamp := Some time\<rparr>"
    have "check_retention ?u ?d (correlation_edge_count c) = Inr n" if ?retain
      using chk [OF that] by (simp add: check_retention_def cong: if_cong)
    with ret tu have "retention_ok ?t"
      using retention_ok_retain [of ?u time ob c n] retention_ok_timestamp [of ?u time]
      by (cases ?retain) auto
    moreover have "summary_agrees ?t"
      using summary_consume_last_timestamp [OF b'(1)] b'(2) True agrees f
      by (simp add: summary_agrees_def session_enabled_def retain_record_fields)
    ultimately have "session_ok ?t \<and> configuration ?t = configuration s"
      using okU f(1) by (simp add: session_ok_def retain_record_fields)
    then show ?thesis
      using b f(2) b'(1) by (simp add: wp_simps) (auto simp: wp_def)
  qed
  have emit: "wp (emit_samples_until time False) (\<lambda>_. wp (?rest n) (\<lambda>_ t. session_ok t \<and> configuration t = configuration s) ?E) ?E s"
    if "?checked = Inr n" "summary_validate b time c ob = Inr ()" for n
    by (rule wp_mono [OF wp_emit_samples_until [OF ok]])
      (use rest [OF that] ok session_ok_sampled_only in auto)
  show ?thesis
  proof (cases ?checked)
    case (Inl e)
    then show ?thesis using True ok sampled_only_refl [OF ok] by (simp add: session_record_def wp_simps Let_def)
  next
    case (Inr n)
    show ?thesis
    proof (cases "summary_validate b time c ob")
      case (Inl e)
      then show ?thesis
        using True ok Inr b sampled_only_refl [OF ok]
        by (simp add: session_record_def wp_simps Let_def session_summary_self)
    next
      case v: (Inr w)
      then have "summary_validate b time c ob = Inr ()" by simp
      from emit [OF Inr this] True Inr b v show ?thesis
        by (simp add: session_record_def wp_simps Let_def session_summary_self comp_def)
    qed
  qed
qed

lemma wp_session_finalize:
  assumes ok: "session_ok s"
  shows "wp (session_finalize time) (\<lambda>_ t. session_ok t \<and> is_finalized t \<and> records t = records s)
           (\<lambda>e t. session_ok t \<and> sampled_only s t \<and> (t = s \<or> e = sample_limit_exn)) s"
proof (cases "is_finalized s \<or> (session_enabled s \<and> regressed (last_timestamp s) time)")
  case True
  then show ?thesis using ok by (auto simp: session_finalize_def wp_simps sampled_only_refl)
next
  case False
  let ?E = "\<lambda>e t. session_ok t \<and> sampled_only s t \<and> (t = s \<or> e = sample_limit_exn)"
  have rest: "wp (perform_if (summary u \<noteq> None) (with_summary (summary_finalize time)))
      (\<lambda>_ t. session_ok (t\<lparr>last_timestamp := Some time, is_finalized := True\<rparr>)
        \<and> records t = records s) ?E u" if u: "sampled_only s u" for u
  proof -
    note f = sampled_only_fields [OF u]
    have okU: "session_ok u" using ok u by (rule session_ok_sampled_only)
    have ret: "retention_ok (t\<lparr>is_finalized := True\<rparr>) = retention_ok t" for t
      by (simp add: retention_ok_def record_position_def)
    show ?thesis
    proof (cases "summary u")
      case None
      then show ?thesis
        using okU f(3) by (simp add: wp_simps session_ok_def summary_agrees_def retention_ok_def record_position_def)
    next
      case (Some b)
      with okU have b: "summary_ok b" "sum_last_timestamp b = last_timestamp u"
        "sum_finalized b = is_finalized u" "mode (configuration u) \<noteq> ModeOff"
        by (simp_all add: session_ok_def summary_agrees_def)
      have t: "\<not> regressed (last_timestamp u) time" "\<not> is_finalized u"
        using False f b(4) by (auto simp: session_enabled_def)
      from summary_finalize_ok [OF b(1), of time] b t obtain b' where
        b': "summary_finalize time b = (Inr (), b')" "summary_ok b'" "sum_finalized b'" by auto
      have last: "sum_last_timestamp b' = Some time"
        using b'(1) by (auto simp: summary_finalize_def split: if_splits prod.splits option.splits)
      have "retention_ok (u\<lparr>summary := Some b', last_timestamp := Some time, is_finalized := True\<rparr>)"
        using okU retention_ok_timestamp [of "u\<lparr>summary := Some b'\<rparr>" time] t(1)
        by (simp add: ret session_ok_def)
      with Some b b' last okU f show ?thesis
        by (simp add: wp_simps) (simp add: wp_def session_ok_def summary_agrees_def)
    qed
  qed
  have "wp (emit_samples_until time True) (\<lambda>_ u. wp (perform_if (summary u \<noteq> None) (with_summary (summary_finalize time)))
      (\<lambda>_ t. session_ok (t\<lparr>last_timestamp := Some time, is_finalized := True\<rparr>)
        \<and> records t = records s) ?E u) ?E s"
    by (rule wp_mono [OF wp_emit_samples_until [OF ok]]) (use rest ok session_ok_sampled_only in auto)
  with False show ?thesis by (auto simp: session_finalize_def wp_simps)
qed

lemma new_session_ok: "new_session c = Inr s \<Longrightarrow> session_ok s"
proof -
  assume new: "new_session c = Inr s"
  then have "0 < sample_interval_ns c"
    by (auto simp: new_session_def validate_configuration_def bindR_eq_Inr word_gt_0 split: if_splits)
  with new show ?thesis
    by (auto simp: new_session_def new_summary_def bindR_eq_Inr session_ok_def retention_ok_def
        summary_agrees_def summary_ok_def record_position_def id_position_def registry_ok_def
        new_registry_def split: if_splits)
qed

text \<open>A sequence of calls, each of whose exceptions the caller may have caught.\<close>

definition session_calls ::
  "(sim_time \<times> correlation \<times> telemetry_observation) list \<Rightarrow> session \<Rightarrow> session" where
  "session_calls calls s = fold (\<lambda>(time, c, ob) s. snd (session_record time c ob s)) calls s"

lemma session_record_ok: "session_ok s \<Longrightarrow> session_ok (snd (session_record time c ob s))"
  using wp_session_record [of s time c ob] by (auto simp: wp_def split: prod.splits sum.splits)

lemma session_calls_ok: "session_ok s \<Longrightarrow> session_ok (session_calls calls s)"
  unfolding session_calls_def
  by (induction calls arbitrary: s) (auto intro: session_record_ok)

section \<open>Properties\<close>

text \<open>C28. Skipping the empty sample boundaries with one division reaches exactly the sample time that
  advancing boundary by boundary would reach, including the end of the time range, where there is no
  further boundary; the loop it replaces ends.\<close>

theorem skip_boundaries_equivalent:
  assumes "0 < sample_interval_ns (configuration s)"
  shows "skip_empty_sample_boundaries time inclusive s
         = while_prog (sample_due time inclusive) advance_only s"
  using assms by (rule skip_eq_advance_loop)

theorem skip_boundaries_equivalent_witness:
  "let s = \<lparr>configuration = \<lparr>mode = ModeFull, sample_interval_ns = 10, limits = undefined\<rparr>, summary = None,
            records = [], samples = [], last_timestamp = None, next_sample_timestamp = Some 10,
            retained_edges = 0, retained_decisions = 0, retained_domain_records = 0,
            next_record_id = 0, record_ids_exhausted = False, is_finalized = False\<rparr>
   in while_prog (sample_due 35 False) advance_only s = (Inr (), s\<lparr>next_sample_timestamp := Some 40\<rparr>)"
proof -
  define s where "s = \<lparr>configuration = \<lparr>mode = ModeFull, sample_interval_ns = 10, limits = undefined\<rparr>,
      summary = None, records = [], samples = [], last_timestamp = None,
      next_sample_timestamp = Some 10, retained_edges = 0, retained_decisions = 0,
      retained_domain_records = 0, next_record_id = 0, record_ids_exhausted = False,
      is_finalized = False\<rparr>"
  have "skip_empty_sample_boundaries 35 False s = (Inr (), s\<lparr>next_sample_timestamp := Some 40\<rparr>)"
    by (simp add: s_def skip_empty_sample_boundaries_def modify_def Let_def)
  with skip_boundaries_equivalent [of s 35 False] show ?thesis
    unfolding Let_def s_def [symmetric] by (simp add: s_def)
qed

end
