(* ===== verification/Event_Queue.thy ===== *)
theory Event_Queue
  imports Trace
begin

text \<open>
  The event queue (\<^verbatim>\<open>sim/event_queue.hpp\<close>, \<^verbatim>\<open>sim/event_queue.cpp\<close>): a
  \<^verbatim>\<open>std::priority_queue\<close> under the comparator \<^verbatim>\<open>LaterEvent\<close>. The model keeps the queued events in
  a list; the top is one that no other queued event precedes. The locale \<open>timed_queue\<close> is what the
  simulation relies on.
\<close>

section \<open>Definitions\<close>

type_synonym event_queue = "event list"

definition later_event :: "event \<Rightarrow> event \<Rightarrow> bool" where
  "later_event left right =
     (if timestamp left \<noteq> timestamp right then timestamp left > timestamp right
      else if priority left \<noteq> priority right
      then priority_code (priority left) > priority_code (priority right)
      else event_id left > event_id right)"

definition queue_push :: "event \<Rightarrow> event_queue \<Rightarrow> event_queue" where
  "queue_push e q = e # q"

fun queue_top :: "event_queue \<Rightarrow> event option" where
  "queue_top [] = None"
| "queue_top (e # q) =
     (case queue_top q of
        None \<Rightarrow> Some e
      | Some t \<Rightarrow> if later_event e t then Some t else Some e)"

definition queue_pop :: "event_queue \<Rightarrow> event option \<times> event_queue" where
  "queue_pop q = (case queue_top q of None \<Rightarrow> (None, q) | Some e \<Rightarrow> (Some e, remove1 e q))"

definition queue_empty :: "event_queue \<Rightarrow> bool" where
  "queue_empty q = (q = [])"

definition queue_size :: "event_queue \<Rightarrow> size_t" where
  "queue_size q = length q"

text \<open>The dispatch order: earlier time first, then smaller priority value, then older identifier.\<close>

definition event_key :: "event \<Rightarrow> u64 \<times> u8 \<times> u64" where
  "event_key e = (timestamp e, priority_code (priority e), event_id e)"

text \<open>Popping until the queue is empty; \<open>n\<close> bounds the number of pops.\<close>

primrec queue_drain :: "nat \<Rightarrow> event_queue \<Rightarrow> event list" where
  "queue_drain 0 q = []"
| "queue_drain (Suc n) q =
     (case queue_pop q of (None, _) \<Rightarrow> [] | (Some e, q') \<Rightarrow> e # queue_drain n q')"

section \<open>What a client relies on\<close>

locale timed_queue =
  fixes push :: "event \<Rightarrow> 'q \<Rightarrow> 'q"
    and pop :: "'q \<Rightarrow> event option \<times> 'q"
    and contents :: "'q \<Rightarrow> event multiset"
  assumes contents_push: "contents (push e q) = add_mset e (contents q)"
    and pop_None: "pop q = (None, q') \<Longrightarrow> contents q = {#} \<and> q' = q"
    and pop_Some: "pop q = (Some e, q') \<Longrightarrow> contents q = add_mset e (contents q')"
    and pop_least: "pop q = (Some e, q') \<Longrightarrow> x \<in># contents q \<Longrightarrow> event_key e \<le> event_key x"
begin

lemma pop_nonempty: "contents q \<noteq> {#} \<Longrightarrow> \<exists>e q'. pop q = (Some e, q')"
  using pop_None [of q] by (metis option.exhaust surj_pair)

lemma pop_size: "pop q = (Some e, q') \<Longrightarrow> size (contents q') < size (contents q)"
  by (simp add: pop_Some)

text \<open>Everything still queued after a pop is strictly later, when identifiers are distinct.\<close>

lemma pop_strictly_least:
  assumes "pop q = (Some e, q')" and "x \<in># contents q'"
    and "\<forall>y\<in>#contents q'. event_id y \<noteq> event_id e"
  shows "event_key e < event_key x"
proof -
  have "x \<in># contents q" using assms(1,2) by (simp add: pop_Some)
  then have "event_key e \<le> event_key x" by (rule pop_least [OF assms(1)])
  moreover have "event_key e \<noteq> event_key x" using assms(2,3) by (auto simp: event_key_def)
  ultimately show ?thesis by simp
qed

end

section \<open>Lemmas\<close>

lemma later_event_iff: "later_event l r \<longleftrightarrow> event_key r < event_key l"
  using priority_code_eq [of "priority l" "priority r"]
  by (auto simp: later_event_def event_key_def)

lemma queue_top_None: "queue_top q = None \<longleftrightarrow> q = []"
  by (cases q) (auto split: option.splits)

lemma queue_top_in: "queue_top q = Some e \<Longrightarrow> e \<in> set q"
  by (induction q arbitrary: e) (auto split: option.splits if_splits)

lemma queue_top_least: "queue_top q = Some e \<Longrightarrow> x \<in> set q \<Longrightarrow> event_key e \<le> event_key x"
proof (induction q arbitrary: e x)
  case Nil
  then show ?case by simp
next
  case (Cons y q)
  show ?case
  proof (cases "queue_top q")
    case None
    with Cons.prems show ?thesis by (simp add: queue_top_None)
  next
    case (Some t)
    with Cons.prems Cons.IH [OF Some] show ?thesis
      by (auto simp: later_event_iff not_less split: if_splits intro: order_trans less_imp_le)
  qed
qed

interpretation event_queue: timed_queue queue_push queue_pop mset
proof
  fix e x :: event and q q' :: event_queue
  show "mset (queue_push e q) = add_mset e (mset q)" by (simp add: queue_push_def)
  show "mset q = {#} \<and> q' = q" if "queue_pop q = (None, q')"
    using that by (auto simp: queue_pop_def queue_top_None split: option.splits)
  show "mset q = add_mset e (mset q')" if "queue_pop q = (Some e, q')"
    using that by (auto simp: queue_pop_def dest: queue_top_in split: option.splits)
  show "event_key e \<le> event_key x" if "queue_pop q = (Some e, q')" "x \<in># mset q"
    using that by (auto simp: queue_pop_def dest: queue_top_least split: option.splits)
qed

lemma queue_pop_cases:
  obtains "q = []" and "queue_pop q = (None, [])"
  | e q' where "queue_pop q = (Some e, q')" and "mset q = add_mset e (mset q')"
      and "length q = Suc (length q')" and "\<forall>x\<in>set q. event_key e \<le> event_key x"
proof (cases "queue_pop q")
  case (Pair r q')
  show thesis
  proof (cases r)
    case None
    with Pair event_queue.pop_None [of q q'] show ?thesis by (auto intro: that(1))
  next
    case (Some e)
    have eq: "mset q = add_mset e (mset q')" using Pair Some event_queue.pop_Some by simp
    then have "length q = Suc (length q')" by (metis size_add_mset size_mset)
    moreover have "\<forall>x\<in>set q. event_key e \<le> event_key x"
      using Pair Some event_queue.pop_least [of q e q'] by (metis set_mset_mset)
    ultimately show ?thesis using Pair Some eq that(2) by simp
  qed
qed

lemma queue_drain_mset: "length q \<le> n \<Longrightarrow> mset (queue_drain n q) = mset q"
proof (induction n arbitrary: q)
  case 0
  then show ?case by simp
next
  case (Suc n)
  show ?case by (rule queue_pop_cases [of q]) (use Suc in auto)
qed

lemma queue_drain_sorted: "sorted (map event_key (queue_drain n q))"
proof (induction n arbitrary: q)
  case 0
  then show ?case by simp
next
  case (Suc n)
  show ?case
  proof (rule queue_pop_cases [of q])
    assume "queue_pop q = (None, [])"
    then show ?thesis by simp
  next
    fix e q'
    assume q: "queue_pop q = (Some e, q')" "mset q = add_mset e (mset q')"
      and least: "\<forall>x\<in>set q. event_key e \<le> event_key x"
    have sub: "set (queue_drain m q'') \<subseteq> set q''" for m q''
      by (induction m arbitrary: q'')
        (auto split: prod.splits option.splits, (metis event_queue.pop_Some set_mset_mset
            set_mset_add_mset_insert insertCI insertI1 subsetD)+)
    have "set q' \<subseteq> set q" using q(2) by (metis set_mset_add_mset_insert set_mset_mset subset_insertI)
    with sub [of n q'] least Suc [of q'] q(1) show ?thesis by (auto simp: sorted_simps)
  qed
qed

section \<open>Properties\<close>

text \<open>C21. Draining the event queue dispatches every queued event exactly once, in the order of the
  comparator (time, then priority, then identifier); with distinct identifiers the order is strict,
  so the dispatch sequence does not depend on the order in which the events were pushed.\<close>

theorem queue_drain_deterministic:
  assumes "distinct (map event_id q)" and "mset q = mset p"
  shows "mset (queue_drain (length q) q) = mset q
         \<and> sorted_wrt (\<lambda>a b. event_key a < event_key b) (queue_drain (length q) q)
         \<and> queue_drain (length p) p = queue_drain (length q) q"
proof -
  have inj: "inj_on event_key (set q)"
  proof (rule inj_onI)
    fix x y assume "x \<in> set q" "y \<in> set q" "event_key x = event_key y"
    with assms(1) show "x = y" by (auto simp: event_key_def distinct_map dest: inj_onD)
  qed
  have m: "mset (queue_drain (length q) q) = mset q" "mset (queue_drain (length p) p) = mset q"
    using queue_drain_mset [of q] queue_drain_mset [of p] assms(2) by simp_all
  then have sets: "set (queue_drain (length q) q) = set q" "set (queue_drain (length p) p) = set q"
    by (metis set_mset_mset)+
  have "distinct q" using assms(1) by (simp add: distinct_map)
  then have "distinct (queue_drain (length q) q)" using m(1) mset_eq_imp_distinct_iff by blast
  then have "distinct (map event_key (queue_drain (length q) q))"
    using inj sets by (simp add: distinct_map)
  with queue_drain_sorted [of "length q" q]
  have strict: "sorted_wrt (<) (map event_key (queue_drain (length q) q))"
    by (simp add: strict_sorted_iff)
  have "map event_key (queue_drain (length q) q) = map event_key (queue_drain (length p) p)"
  proof -
    have "sort (map event_key q) = map event_key (queue_drain (length q) q)"
      "sort (map event_key q) = map event_key (queue_drain (length p) p)"
      by (rule properties_for_sort; simp add: m queue_drain_sorted)+
    then show ?thesis by simp
  qed
  then have "queue_drain (length q) q = queue_drain (length p) p"
    by (rule map_inj_on) (use inj sets in simp)
  then show ?thesis using m strict by (simp add: sorted_wrt_map)
qed

theorem queue_drain_deterministic_witness:
  "let a = \<lparr>timestamp = 5, priority = Normal, event_id = 1, cause = None, payload = NoOpEvent 0\<rparr>;
       b = \<lparr>timestamp = 5, priority = Control, event_id = 2, cause = None, payload = NoOpEvent 0\<rparr>
   in queue_drain 2 [b, a] = queue_drain 2 [a, b] \<and> queue_drain 2 [a, b] = [b, a]"
proof -
  define a where "a = \<lparr>timestamp = 5, priority = Normal, event_id = 1, cause = None, payload = NoOpEvent 0\<rparr>"
  define b where "b = \<lparr>timestamp = 5, priority = Control, event_id = 2, cause = None, payload = NoOpEvent 0\<rparr>"
  have "queue_drain 2 [b, a] = queue_drain 2 [a, b]"
    using queue_drain_deterministic [of "[a, b]" "[b, a]"] by (simp add: a_def b_def numeral_2_eq_2)
  moreover have "queue_drain 2 [a, b] = [b, a]"
    unfolding a_def b_def by code_simp
  ultimately show ?thesis by (simp add: Let_def a_def b_def)
qed

end
