(* ===== verification/Rng.thy ===== *)
theory Rng
  imports Time_Ids
begin

unbundle bit_operations_syntax

text \<open>
  The deterministic random number generator (\<^verbatim>\<open>sim/deterministic_rng.hpp\<close>,
  \<^verbatim>\<open>sim/deterministic_rng.cpp\<close>): draws of \<^verbatim>\<open>std::mt19937_64\<close>, counted, and a bounded draw by
  rejection. The engine is the 64-bit Mersenne twister the language standard fixes; its state is the
  list of its last 312 words, the oldest first.
\<close>

section \<open>The engine\<close>

type_synonym mt19937_64 = "u64 list"

primrec mt_fill :: "nat \<Rightarrow> u64 \<Rightarrow> u64 \<Rightarrow> u64 list" where
  "mt_fill 0 i x = []"
| "mt_fill (Suc n) i x =
     x # mt_fill n (i + 1) (6364136223846793005 * (x XOR drop_bit 62 x) + i)"

definition mt_seed :: "u64 \<Rightarrow> mt19937_64" where
  "mt_seed seed = mt_fill 312 1 seed"

definition mt_twist :: "mt19937_64 \<Rightarrow> u64" where
  "mt_twist xs =
     (let y = (xs ! 0 AND 0xFFFFFFFF80000000) OR (xs ! 1 AND 0x7FFFFFFF)
      in xs ! 156 XOR drop_bit 1 y XOR (if y AND 1 = 0 then 0 else 0xB5026F5AA96619E9))"

definition mt_temper :: "u64 \<Rightarrow> u64" where
  "mt_temper x =
     (let z1 = x XOR (drop_bit 29 x AND 0x5555555555555555);
          z2 = z1 XOR (push_bit 17 z1 AND 0x71D67FFFEDA60000);
          z3 = z2 XOR (push_bit 37 z2 AND 0xFFF7EEE000000000)
      in z3 XOR drop_bit 43 z3)"

definition mt_draw :: "mt19937_64 \<Rightarrow> u64 \<times> mt19937_64" where
  "mt_draw xs = (let x = mt_twist xs in (mt_temper x, tl xs @ [x]))"

section \<open>Counted draws\<close>

record rng =
  engine :: mt19937_64
  draw_count :: u64

definition new_rng :: "u64 \<Rightarrow> rng" where
  "new_rng seed = \<lparr>engine = mt_seed seed, draw_count = 0\<rparr>"

definition next_u64 :: "rng \<Rightarrow> u64 \<times> rng" where
  "next_u64 g =
     (case mt_draw (engine g) of (v, e) \<Rightarrow> (v, \<lparr>engine = e, draw_count = draw_count g + 1\<rparr>))"

text \<open>
  \<^verbatim>\<open>uniform_below\<close> redraws while the value is below the rejection threshold. The loop has no bound
  of its own: not returning is \<open>None\<close>.
\<close>

definition rejection_threshold :: "u64 \<Rightarrow> u64" where
  "rejection_threshold upper = (0 - upper) mod upper"

partial_function (option) draw_accepted :: "u64 \<Rightarrow> u64 \<Rightarrow> rng \<Rightarrow> (u64 \<times> rng) option" where
  "draw_accepted upper threshold g =
     (let r = next_u64 g
      in if fst r \<ge> threshold then Some (fst r mod upper, snd r)
         else draw_accepted upper threshold (snd r))"

definition uniform_below :: "u64 \<Rightarrow> rng \<Rightarrow> ((exn + u64) \<times> rng) option" where
  "uniform_below upper g =
     (if upper = 0
      then Some (Inl (InvalidArgument ''uniform_below requires a nonzero upper bound''), g)
      else map_option (\<lambda>(v, g'). (Inr v, g')) (draw_accepted upper (rejection_threshold upper) g))"

text \<open>The generator after \<open>n\<close> draws, and the value of draw \<open>n\<close>.\<close>

definition rng_after :: "nat \<Rightarrow> rng \<Rightarrow> rng" where
  "rng_after n g = ((snd \<circ> next_u64) ^^ n) g"

definition rng_value :: "nat \<Rightarrow> rng \<Rightarrow> u64" where
  "rng_value n g = fst (next_u64 (rng_after n g))"

section \<open>Lemmas\<close>

lemma unat_rejection_threshold:
  assumes "0 < u"
  shows "unat (rejection_threshold u) = 2 ^ 64 mod unat u"
proof -
  have u: "0 < unat u" using assms by (simp add: word_less_nat_alt)
  have "unat (0 - u) = 2 ^ 64 - 1 - (unat u - 1)"
    using assms unat_max_minus [of "u - 1"] by (simp add: unat_minus_one word_gt_0)
  with u have neg: "unat (0 - u) = 2 ^ 64 - unat u" by linarith
  have "(2 ^ 64 - unat u) mod unat u = 2 ^ 64 mod unat u"
    using unat_u64_bound [of u] by (metis le_mod_geq less_imp_le)
  then show ?thesis by (simp only: rejection_threshold_def unat_mod neg)
qed

lemma inj_on_mod_block: "inj_on (\<lambda>n. n mod u) {b..<b + u}" for b u :: nat
proof (rule linorder_inj_onI')
  fix n m
  assume nm: "n \<in> {b..<b + u}" "m \<in> {b..<b + u}" "n < m"
  then have "\<not> u dvd m - n" by (auto dest!: dvd_imp_le)
  then show "n mod u \<noteq> m mod u"
    using nm(3) by (metis less_imp_le mod_eq_dvd_iff_nat)
qed

lemma mod_block_onto: "0 < u \<Longrightarrow> (\<lambda>n. n mod u) ` {b..<b + u} = {..<u}" for b u :: nat
  by (rule card_subset_eq) (auto simp: card_image inj_on_mod_block)

lemma card_residue_block:
  fixes a q u r :: nat
  assumes "r < u"
  shows "card {n \<in> {a..<a + q * u}. n mod u = r} = q"
proof (induction q)
  case 0
  then show ?case by simp
next
  case (Suc q)
  define b where "b = a + q * u"
  have split: "{n \<in> {a..<a + Suc q * u}. n mod u = r}
      = {n \<in> {a..<b}. n mod u = r} \<union> {n \<in> {b..<b + u}. n mod u = r}"
    by (auto simp: b_def algebra_simps)
  from assms mod_block_onto [of u b] obtain n where n: "n \<in> {b..<b + u}" "n mod u = r"
    by (metis (no_types, lifting) imageE lessThan_iff less_nat_zero_code neq0_conv)
  then have "{n \<in> {b..<b + u}. n mod u = r} = {n}"
    using inj_on_mod_block [of u b] by (auto dest: inj_onD)
  moreover have "{n \<in> {a..<b}. n mod u = r} \<inter> {n \<in> {b..<b + u}. n mod u = r} = {}" by auto
  ultimately have "card {n \<in> {a..<a + Suc q * u}. n mod u = r}
      = card {n \<in> {a..<b}. n mod u = r} + 1"
    unfolding split by (subst card_Un_disjoint) auto
  then show ?case using Suc by (simp add: b_def)
qed

lemma draw_accepted_returns:
  assumes "rng_value k g \<ge> t"
  shows "\<exists>n\<le>k. draw_accepted u t g = Some (rng_value n g mod u, rng_after (Suc n) g)
           \<and> rng_value n g \<ge> t \<and> (\<forall>i<n. rng_value i g < t)"
  using assms
proof (induction k arbitrary: g)
  case 0
  then show ?case
    by (subst draw_accepted.simps) (simp add: rng_value_def rng_after_def Let_def)
next
  case (Suc k)
  show ?case
  proof (cases "rng_value 0 g \<ge> t")
    case True
    then show ?thesis
      by (intro exI [of _ 0], subst draw_accepted.simps)
        (simp add: rng_value_def rng_after_def Let_def)
  next
    case False
    have shift: "rng_value i (snd (next_u64 g)) = rng_value (Suc i) g"
      "rng_after i (snd (next_u64 g)) = rng_after (Suc i) g" for i
      by (simp_all add: rng_value_def rng_after_def funpow_swap1)
    from Suc.prems have "t \<le> rng_value k (snd (next_u64 g))" by (simp add: shift)
    from Suc.IH [OF this] obtain n where n: "n \<le> k"
      "draw_accepted u t (snd (next_u64 g)) = Some (rng_value (Suc n) g mod u, rng_after (Suc (Suc n)) g)"
      "rng_value (Suc n) g \<ge> t" "\<forall>i<n. rng_value (Suc i) g < t"
      by (auto simp: shift)
    have "draw_accepted u t g = draw_accepted u t (snd (next_u64 g))"
      using False by (subst draw_accepted.simps) (simp add: rng_value_def rng_after_def Let_def)
    moreover have "\<forall>i<Suc n. rng_value i g < t"
      using n(4) False by (auto simp: less_Suc_eq_0_disj not_le)
    ultimately show ?thesis using n by (intro exI [of _ "Suc n"]) simp
  qed
qed

lemma draw_accepted_bound:
  assumes ret: "draw_accepted u t g = Some r" and "0 < u"
  shows "fst r < u"
proof (rule draw_accepted.raw_induct [where P = "\<lambda>u t g r. 0 < u \<longrightarrow> fst r < u", OF _ ret,
      THEN mp, OF _ \<open>0 < u\<close>])
  fix f :: "u64 \<Rightarrow> u64 \<Rightarrow> rng \<Rightarrow> (u64 \<times> rng) option" and u t g r
  assume IH: "\<And>u t g r. f u t g = Some r \<Longrightarrow> 0 < u \<longrightarrow> fst r < u"
    and eq: "(let r = next_u64 g in if fst r \<ge> t then Some (fst r mod u, snd r)
              else f u t (snd r)) = Some r"
  then show "0 < u \<longrightarrow> fst r < u"
    by (auto simp: Let_def word_mod_less_divisor split: if_splits)
qed

lemma card_accepted_residue:
  assumes u: "0 < u" and r: "r < u"
  shows "card {w :: u64. rejection_threshold u \<le> w \<and> w mod u = r} = 2 ^ 64 div unat u"
proof -
  have pos: "0 < unat u" using u by (simp add: word_less_nat_alt)
  have split: "2 ^ 64 = 2 ^ 64 mod unat u + 2 ^ 64 div unat u * unat u"
    by (metis add.commute div_mult_mod_eq)
  let ?N = "{n \<in> {2 ^ 64 mod unat u..<2 ^ 64 mod unat u + 2 ^ 64 div unat u * unat u}.
              n mod unat u = unat r}"
  have iff: "rejection_threshold u \<le> w \<and> w mod u = r \<longleftrightarrow> unat w \<in> ?N" for w :: u64
  proof -
    have "unat w < 2 ^ 64 mod unat u + 2 ^ 64 div unat u * unat u"
      using unat_u64_bound [of w] split by metis
    moreover have "w mod u = r \<longleftrightarrow> unat w mod unat u = unat r"
      by (metis unat_mod word_unat_eq_iff)
    ultimately show ?thesis
      by (simp only: word_le_nat_alt unat_rejection_threshold [OF u] mem_Collect_eq
          atLeastLessThan_iff) blast
  qed
  have "bij_betw unat {w :: u64. rejection_threshold u \<le> w \<and> w mod u = r} ?N"
  proof (rule bij_betw_imageI)
    show "inj_on unat {w :: u64. rejection_threshold u \<le> w \<and> w mod u = r}"
      by (auto intro: inj_onI simp: word_unat_eq_iff)
    show "unat ` {w :: u64. rejection_threshold u \<le> w \<and> w mod u = r} = ?N"
    proof
      show "unat ` {w :: u64. rejection_threshold u \<le> w \<and> w mod u = r} \<subseteq> ?N"
        using iff by blast
      show "?N \<subseteq> unat ` {w :: u64. rejection_threshold u \<le> w \<and> w mod u = r}"
      proof
        fix n assume n: "n \<in> ?N"
        then have "n < 2 ^ 64" using split by (metis (no_types, lifting) atLeastLessThan_iff mem_Collect_eq)
        then have "unat (of_nat n :: u64) = n" by (simp add: unat_of_nat take_bit_nat_eq_self)
        with n iff [of "of_nat n"] show "n \<in> unat ` {w :: u64. rejection_threshold u \<le> w \<and> w mod u = r}"
          by (metis (mono_tags, lifting) image_eqI mem_Collect_eq)
      qed
    qed
  qed
  then have "card {w :: u64. rejection_threshold u \<le> w \<and> w mod u = r} = card ?N"
    by (rule bij_betw_same_card)
  also have "\<dots> = 2 ^ 64 div unat u"
    by (rule card_residue_block) (use r in \<open>simp add: word_less_nat_alt\<close>)
  finally show ?thesis .
qed

section \<open>Properties\<close>

text \<open>C32. \<^verbatim>\<open>DeterministicRng::uniform_below\<close> is unbiased and lazy: it returns the residue of the
  first draw that is not below the rejection threshold, every residue below the bound has the same
  number (the quotient of \<open>2 ^ 64\<close> by the bound) of accepted 64-bit draws, the result is below the bound and the
  generator has advanced exactly past the accepted draw. It returns as soon as one draw is accepted.\<close>

theorem uniform_below_unbiased:
  assumes "0 < u" and "rejection_threshold u \<le> rng_value k g"
  shows "(\<exists>n\<le>k. uniform_below u g = Some (Inr (rng_value n g mod u), rng_after (Suc n) g)
            \<and> rejection_threshold u \<le> rng_value n g
            \<and> (\<forall>i<n. rng_value i g < rejection_threshold u)
            \<and> rng_value n g mod u < u)
         \<and> (\<forall>r<u. card {w :: u64. rejection_threshold u \<le> w \<and> w mod u = r} = 2 ^ 64 div unat u)"
proof
  from draw_accepted_returns [OF assms(2), of u] assms(1)
  show "\<exists>n\<le>k. uniform_below u g = Some (Inr (rng_value n g mod u), rng_after (Suc n) g)
           \<and> rejection_threshold u \<le> rng_value n g
           \<and> (\<forall>i<n. rng_value i g < rejection_threshold u)
           \<and> rng_value n g mod u < u"
    by (auto simp: uniform_below_def word_mod_less_divisor word_gt_0)
  show "\<forall>r<u. card {w :: u64. rejection_threshold u \<le> w \<and> w mod u = r} = 2 ^ 64 div unat u"
    using card_accepted_residue [OF assms(1)] by blast
qed

theorem uniform_below_unbiased_witness:
  "0 < (6 :: u64) \<and> rejection_threshold 6 \<le> rng_value 0 (new_rng 7)
   \<and> uniform_below 6 (new_rng 7)
       = Some (Inr (rng_value 0 (new_rng 7) mod 6), rng_after 1 (new_rng 7))"
proof -
  have hyp: "rejection_threshold 6 \<le> rng_value 0 (new_rng 7)" by code_simp
  from uniform_below_unbiased [OF _ this] hyp show ?thesis by simp
qed

end
