(* ===== verification/Simulation.thy ===== *)
theory Simulation
  imports Session Event_Queue Rng
begin

text \<open>
  The simulation kernel (\<^verbatim>\<open>sim/simulation.hpp\<close>, \<^verbatim>\<open>sim/simulation.cpp\<close>): scheduling, cancelling
  and stopping, the trace and telemetry it keeps, and the dispatch loop. The telemetry session the
  kernel's sink points to is part of the state; the sink itself is the flag \<open>sim_sink\<close>. A dispatcher
  is a program over the simulation paired with the state of the components it drives.
\<close>

section \<open>State\<close>

datatype simulation_status = StatusCompleted | StatusStopped | StatusFailed

primrec status_code :: "simulation_status \<Rightarrow> u64" where
  "status_code StatusCompleted = 0"
| "status_code StatusStopped = 1"
| "status_code StatusFailed = 2"

record simulation_result =
  res_status :: simulation_status
  res_stop_reason :: "stop_reason option"
  res_final_time :: sim_time
  res_dispatched_events :: u64
  res_cancelled_events :: u64
  res_pending_events :: size_t
  res_rng_draw_count :: u64
  res_trace_hash :: "u64 option"
  res_error :: "string option"

datatype lifecycle = Created | Running | Finished

record event_trace_metadata =
  meta_timestamp :: sim_time
  meta_priority :: event_priority
  meta_id :: event_id
  meta_cause :: "event_id option"
  meta_payload_kind :: payload_kind

record simulation =
  sim_now :: sim_time
  sim_event_ids :: id_generator
  sim_queue :: event_queue
  sim_rng :: rng
  sim_trace :: trace_log
  sim_sink :: bool
  sim_session :: session
  pending_ids :: "u64 set"
  cancelled_ids :: "u64 set"
  trace_metadata :: "u64 \<rightharpoonup> event_trace_metadata"
  current_event :: "event option"
  sim_stop_reason :: "stop_reason option"
  sim_lifecycle :: lifecycle
  dispatched_events :: u64
  cancelled_events :: u64
  telemetry_failed :: bool

definition new_simulation :: "u64 \<Rightarrow> trace_mode \<Rightarrow> bool \<Rightarrow> session \<Rightarrow> simulation" where
  "new_simulation seed tmode sink s =
     \<lparr>sim_now = 0, sim_event_ids = new_id_generator 0, sim_queue = [], sim_rng = new_rng seed,
      sim_trace = new_trace_log tmode, sim_sink = sink, sim_session = s, pending_ids = {},
      cancelled_ids = {}, trace_metadata = Map.empty, current_event = None, sim_stop_reason = None,
      sim_lifecycle = Created, dispatched_events = 0, cancelled_events = 0, telemetry_failed = False\<rparr>"

section \<open>Trace and telemetry\<close>

definition event_trace_metadata :: "event \<Rightarrow> event_trace_metadata" where
  "event_trace_metadata e = \<lparr>meta_timestamp = timestamp e, meta_priority = priority e,
     meta_id = event_id e, meta_cause = cause e, meta_payload_kind = payload_kind_of (payload e)\<rparr>"

definition trace_enabled :: "simulation \<Rightarrow> bool" where
  "trace_enabled s = log_enabled (sim_trace s)"

definition telemetry_enabled :: "simulation \<Rightarrow> bool" where
  "telemetry_enabled s = sink_enabled (sim_sink s) (sim_session s)"

definition trace_append :: "trace_record \<Rightarrow> (simulation, unit) prog" where
  "trace_append r = modify (\<lambda>s. s\<lparr>sim_trace := log_append r (sim_trace s)\<rparr>)"

definition record_event ::
  "trace_action \<Rightarrow> sim_time \<Rightarrow> event_trace_metadata \<Rightarrow> stop_reason option \<Rightarrow> (simulation, unit) prog" where
  "record_event act at m reason =
     trace_append \<lparr>action = act, recorded_at = at, rec_event_id = Some (meta_id m),
       rec_cause = meta_cause m, event_timestamp = Some (meta_timestamp m),
       rec_priority = Some (meta_priority m), rec_payload_kind = Some (meta_payload_kind m),
       rec_stop_reason = reason, rec_error = None\<rparr>"

definition record_terminal :: "trace_action \<Rightarrow> string option \<Rightarrow> (simulation, unit) prog" where
  "record_terminal act err =
     bind (gets trace_enabled) (\<lambda>on.
     if \<not> on then return ()
     else
       bind (gets (\<lambda>s. (sim_now s, map_option event_trace_metadata (current_event s)))) (\<lambda>(at, m).
       trace_append \<lparr>action = act, recorded_at = at, rec_event_id = map_option meta_id m,
         rec_cause = Option.bind m meta_cause, event_timestamp = map_option meta_timestamp m,
         rec_priority = map_option meta_priority m, rec_payload_kind = map_option meta_payload_kind m,
         rec_stop_reason = None, rec_error = err\<rparr>))"

definition zoom_session :: "(session, 'a) prog \<Rightarrow> (simulation, 'a) prog" where
  "zoom_session = zoom sim_session (\<lambda>t s. s\<lparr>sim_session := t\<rparr>)"

text \<open>Recording through the kernel's sink; a failure is remembered and passed on.\<close>

definition guarded_record :: "correlation \<Rightarrow> telemetry_observation \<Rightarrow> (simulation, unit) prog" where
  "guarded_record c ob =
     bind (gets sim_now) (\<lambda>t.
     bind (gets sim_sink) (\<lambda>sink.
     try_catch (zoom_session (sink_record sink t c ob))
       (\<lambda>e. seq (modify (\<lambda>s. s\<lparr>telemetry_failed := True\<rparr>)) (throw e))))"

definition pending_count :: "simulation \<Rightarrow> size_t" where
  "pending_count s = size_sub (card (pending_ids s)) (card (cancelled_ids s))"

definition emit_simulation_observation ::
  "simulation_transition \<Rightarrow> event_id option \<Rightarrow> event_id option \<Rightarrow> (simulation, unit) prog" where
  "emit_simulation_observation tr ev cs =
     bind (gets telemetry_enabled) (\<lambda>on.
     if \<not> on then return ()
     else
       bind (gets pending_count) (\<lambda>n.
       guarded_record (no_correlation\<lparr>cor_event := ev, cor_cause := cs\<rparr>)
         (SimulationObservation tr (of_nat n))))"

definition emit_metric :: "telemetry_observation \<Rightarrow> (simulation, unit) prog" where
  "emit_metric ob =
     bind (gets telemetry_enabled) (\<lambda>on.
     if \<not> on then return ()
     else
       bind (gets current_event) (\<lambda>cur.
       guarded_record
         (case cur of
            None \<Rightarrow> no_correlation
          | Some e \<Rightarrow> no_correlation\<lparr>cor_event := Some (event_id e), cor_cause := cause e\<rparr>)
         ob))"

definition emit_terminal_telemetry :: "simulation_status \<Rightarrow> (simulation, unit) prog" where
  "emit_terminal_telemetry st =
     bind (gets (\<lambda>s. \<not> telemetry_enabled s \<or> telemetry_failed s)) (\<lambda>off.
     if off then return ()
     else
       bind (gets current_event) (\<lambda>cur.
       seq (emit_simulation_observation
              (if st = StatusCompleted then SimRunSucceeded
               else if st = StatusStopped then SimRunStopped
               else SimRunFailed)
              (map_option event_id cur) (Option.bind cur cause))
       (bind (gets sim_now) (\<lambda>t.
        seq (emit_metric (GaugeObservation MetricSimulationFinalTimeNs [] t))
       (bind (gets (draw_count \<circ> sim_rng)) (\<lambda>n.
        seq (emit_metric (CounterObservation MetricSimulationRngDraws [] n))
            (emit_metric (CounterObservation MetricSimulationTerminalTotal
               [(LabelOutcome, status_code st)] 1))))))))"

section \<open>Operations\<close>

definition event_ids_next :: "(simulation, event_id) prog" where
  "event_ids_next = zoom sim_event_ids (\<lambda>g s. s\<lparr>sim_event_ids := g\<rparr>) event_id_next"

text \<open>The guarded block of \<^verbatim>\<open>schedule\<close>: a failure undoes the insertions made for the event.\<close>

definition insert_event :: "event \<Rightarrow> bool \<Rightarrow> (simulation, unit) prog" where
  "insert_event e on =
     try_catch
       (seq (if on
             then bind (gets (\<lambda>s. trace_metadata s (event_id e))) (\<lambda>old.
                  seq (throw_if (old \<noteq> None) (LogicError ''duplicate event trace metadata''))
                      (modify (\<lambda>s. s\<lparr>trace_metadata :=
                         (trace_metadata s)(event_id e \<mapsto> event_trace_metadata e)\<rparr>)))
             else return ())
            (modify (\<lambda>s. s\<lparr>sim_queue := queue_push e (sim_queue s)\<rparr>)))
       (\<lambda>x. seq (modify (\<lambda>s. s\<lparr>pending_ids := pending_ids s - {event_id e},
                                 trace_metadata := (trace_metadata s)(event_id e := None)\<rparr>))
                 (throw x))"

definition schedule :: "event_spec \<Rightarrow> (simulation, event_id) prog" where
  "schedule spec =
     bind (gets sim_lifecycle) (\<lambda>lc.
     seq (throw_if (lc = Finished) (LogicError ''cannot schedule on a finished simulation''))
     (bind (gets sim_now) (\<lambda>t.
      seq (throw_if (spec_timestamp spec < t)
            (InvalidArgument ''cannot schedule an event in the simulated past''))
     (bind event_ids_next (\<lambda>i.
      bind (gets (\<lambda>s. map_option event_id (current_event s))) (\<lambda>cs.
      let e = \<lparr>timestamp = spec_timestamp spec, priority = spec_priority spec, event_id = i,
               cause = cs, payload = spec_payload spec\<rparr>
      in bind (gets pending_ids) (\<lambda>pending.
         seq (throw_if (i \<in> pending) (LogicError ''duplicate pending event ID''))
         (seq (modify (\<lambda>s. s\<lparr>pending_ids := insert i (pending_ids s)\<rparr>))
         (bind (gets (\<lambda>s. trace_enabled s \<or> telemetry_enabled s)) (\<lambda>on.
          seq (insert_event e on)
         (seq (perform_if on (record_event Scheduled t (event_trace_metadata e) None))
         (seq (emit_simulation_observation SimEventScheduled (Some i) cs)
              (return i)))))))))))))"

definition cancel :: "event_id \<Rightarrow> (simulation, bool) prog" where
  "cancel i =
     bind (gets (\<lambda>s. sim_lifecycle s = Finished \<or> i \<notin> pending_ids s)) (\<lambda>gone.
     if gone then return False
     else
       bind (gets (\<lambda>s. trace_enabled s \<or> telemetry_enabled s)) (\<lambda>on.
       bind (gets (\<lambda>s. if on then trace_metadata s i else None)) (\<lambda>m.
       seq (throw_if (on \<and> m = None) (LogicError ''missing event trace metadata''))
       (bind (gets (\<lambda>s. i \<in> cancelled_ids s)) (\<lambda>already.
        if already then return False
        else
          seq (modify (\<lambda>s. s\<lparr>cancelled_ids := insert i (cancelled_ids s),
                             cancelled_events := cancelled_events s + 1\<rparr>))
         (seq (emit_simulation_observation SimEventCancelled (Some i) (Option.bind m meta_cause))
         (seq (emit_metric (CounterObservation MetricSimulationCancelledEvents [] 1))
         (bind (gets sim_now) (\<lambda>t.
          seq (case m of None \<Rightarrow> return () | Some md \<Rightarrow> record_event Cancelled t md None)
              (return True))))))))))"

definition stop :: "stop_reason \<Rightarrow> (simulation, unit) prog" where
  "stop reason =
     bind (gets sim_lifecycle) (\<lambda>lc.
     seq (throw_if (lc \<noteq> Running) (LogicError ''simulation can only be stopped while running''))
     (bind (gets current_event) (\<lambda>cur.
      case cur of
        None \<Rightarrow> throw (LogicError ''simulation can only be stopped during event dispatch'')
      | Some e \<Rightarrow>
          bind (gets (\<lambda>s. sim_stop_reason s = None)) (\<lambda>fresh.
          perform_if fresh
            (bind (gets (\<lambda>s. (trace_enabled s, sim_now s))) (\<lambda>(on, t).
             seq (perform_if on (record_event StopRequested t (event_trace_metadata e) (Some reason)))
            (seq (modify (\<lambda>s. s\<lparr>sim_stop_reason := Some reason\<rparr>))
                 (emit_simulation_observation SimStopRequested (Some (event_id e)) (cause e)))))))))"

definition current_event_id :: "(simulation, event_id) prog" where
  "current_event_id =
     bind (gets current_event) (\<lambda>cur.
     case cur of
       None \<Rightarrow> throw (LogicError ''no event is currently being dispatched'')
     | Some e \<Rightarrow> return (event_id e))"

definition current_cause :: "(simulation, event_id option) prog" where
  "current_cause =
     bind (gets current_event) (\<lambda>cur.
     case cur of
       None \<Rightarrow> throw (LogicError ''no event is currently being dispatched'')
     | Some e \<Rightarrow> return (cause e))"

definition random_u64 :: "(simulation, u64) prog" where
  "random_u64 = (\<lambda>s. case next_u64 (sim_rng s) of (v, g) \<Rightarrow> (Inr v, s\<lparr>sim_rng := g\<rparr>))"

definition random_below :: "u64 \<Rightarrow> simulation \<Rightarrow> ((exn + u64) \<times> simulation) option" where
  "random_below upper s =
     map_option (\<lambda>(r, g). (r, s\<lparr>sim_rng := g\<rparr>)) (uniform_below upper (sim_rng s))"

section \<open>The run\<close>

definition begin_run :: "(simulation, unit) prog" where
  "begin_run =
     bind (gets sim_lifecycle) (\<lambda>lc.
     seq (throw_if (lc \<noteq> Created) (LogicError ''simulation can only be run once''))
         (modify (\<lambda>s. s\<lparr>sim_lifecycle := Running\<rparr>)))"

lemma queue_pop_shorter: "queue_pop q = (Some e, q') \<Longrightarrow> length q' < length q"
  by (rule queue_pop_cases [of q]) auto

function next_dispatchable_event :: "simulation \<Rightarrow> event option \<times> simulation" where
  "next_dispatchable_event s =
     (case queue_pop (sim_queue s) of
        (None, q) \<Rightarrow> (None, s\<lparr>sim_queue := q\<rparr>)
      | (Some e, q) \<Rightarrow>
          let i = event_id e;
              s' = s\<lparr>sim_queue := q, pending_ids := pending_ids s - {i},
                     trace_metadata := (trace_metadata s)(i := None),
                     cancelled_ids := cancelled_ids s - {i}\<rparr>
          in if i \<in> cancelled_ids s then next_dispatchable_event s' else (Some e, s'))"
  by pat_completeness auto
termination
  by (relation "measure (length \<circ> sim_queue)") (auto dest: queue_pop_shorter [OF sym])

declare next_dispatchable_event.simps [simp del]

definition finish :: "simulation_status \<Rightarrow> string option \<Rightarrow> (simulation, simulation_result) prog" where
  "finish st err =
     seq (emit_terminal_telemetry st)
     (seq (if st = StatusCompleted then record_terminal Completed None
           else if st = StatusFailed then record_terminal Failed err
           else return ())
     (seq (modify (\<lambda>s. s\<lparr>sim_lifecycle := Finished, current_event := None\<rparr>))
     (gets (\<lambda>s. \<lparr>res_status = st, res_stop_reason = sim_stop_reason s, res_final_time = sim_now s,
        res_dispatched_events = dispatched_events s, res_cancelled_events = cancelled_events s,
        res_pending_events = pending_count s, res_rng_draw_count = draw_count (sim_rng s),
        res_trace_hash = log_digest (sim_trace s), res_error = err\<rparr>))))"

definition fail_run :: "string \<Rightarrow> (simulation, simulation_result) prog" where
  "fail_run err =
     try_catch (finish StatusFailed (Some err))
       (\<lambda>e. seq (modify (\<lambda>s. s\<lparr>telemetry_failed := True\<rparr>)) (finish StatusFailed (Some (what e))))"

definition zoom_sim :: "(simulation, 'a) prog \<Rightarrow> (simulation \<times> 'c, 'a) prog" where
  "zoom_sim = zoom fst (\<lambda>s w. (s, snd w))"

text \<open>The body of the loop: false when no event is left, true after a dispatch.\<close>

definition dispatch_next :: "(event_payload \<Rightarrow> (simulation \<times> 'c, unit) prog) \<Rightarrow> (simulation \<times> 'c, bool) prog" where
  "dispatch_next dispatcher =
     bind (zoom_sim (\<lambda>s. case next_dispatchable_event s of (e, s') \<Rightarrow> (Inr e, s'))) (\<lambda>nxt.
     case nxt of
       None \<Rightarrow> return False
     | Some e \<Rightarrow>
         seq (zoom_sim
           (seq (modify (\<lambda>s. s\<lparr>current_event := Some e, sim_now := timestamp e,
                              dispatched_events := dispatched_events s + 1\<rparr>))
           (seq (emit_simulation_observation SimEventDispatched (Some (event_id e)) (cause e))
           (seq (emit_metric (CounterObservation MetricSimulationDispatchedEvents [] 1))
           (bind (gets (\<lambda>s. (trace_enabled s, sim_now s))) (\<lambda>(on, t).
            perform_if on (record_event Dispatched t (event_trace_metadata e) None)))))))
         (seq (dispatcher (payload e))
         (seq (zoom_sim (modify (\<lambda>s. s\<lparr>current_event := None\<rparr>)))
              (return True))))"

partial_function (option) run_loop ::
  "(event_payload \<Rightarrow> (simulation \<times> 'c, unit) prog) \<Rightarrow> simulation \<times> 'c
   \<Rightarrow> ((exn + simulation_result) \<times> simulation \<times> 'c) option" where
  "run_loop dispatcher w =
     (if sim_stop_reason (fst w) \<noteq> None then Some (zoom_sim (finish StatusStopped None) w)
      else case dispatch_next dispatcher w of
        (Inl e, w') \<Rightarrow> Some (Inl e, w')
      | (Inr again, w') \<Rightarrow>
          if again then run_loop dispatcher w'
          else Some (zoom_sim (finish StatusCompleted None) w'))"

definition run ::
  "(event_payload \<Rightarrow> (simulation \<times> 'c, unit) prog) \<Rightarrow> simulation \<times> 'c
   \<Rightarrow> ((exn + simulation_result) \<times> simulation \<times> 'c) option" where
  "run dispatcher w =
     (case zoom_sim begin_run w of
        (Inl e, w1) \<Rightarrow> Some (Inl e, w1)
      | (Inr _, w1) \<Rightarrow>
          (case zoom_sim (emit_simulation_observation SimRunStarted None None) w1 of
             (Inl e, w2) \<Rightarrow> Some (zoom_sim (fail_run (what e)) w2)
           | (Inr _, w2) \<Rightarrow>
               map_option (\<lambda>(r, w3). case r of Inl e \<Rightarrow> zoom_sim (fail_run (what e)) w3
                                              | Inr res \<Rightarrow> (Inr res, w3))
                 (run_loop dispatcher w2)))"

section \<open>The invariant\<close>

text \<open>
  Every issued identifier is accounted for: it was dispatched, cancelled, or is pending and live.
  The counters are 64-bit words; \<open>k\<close> is the number of events taken from the queue and not counted yet.
\<close>

definition balanced :: "nat \<Rightarrow> simulation \<Rightarrow> bool" where
  "balanced k s \<longleftrightarrow>
     (\<exists>d c. dispatched_events s = of_nat d \<and> cancelled_events s = of_nat c
        \<and> d + c + k + (card (pending_ids s) - card (cancelled_ids s)) = id_position (sim_event_ids s))"

definition metadata_ok :: "simulation \<Rightarrow> bool" where
  "metadata_ok s \<longleftrightarrow>
     (\<forall>i m. trace_metadata s i = Some m \<longleftrightarrow>
        (trace_enabled s \<or> telemetry_enabled s)
        \<and> (\<exists>e\<in>set (sim_queue s). event_id e = i \<and> m = event_trace_metadata e))"

text \<open>
  The queued events have distinct identifiers, all issued, which are exactly the pending ones; the
  cancelled ones are pending; no queued event lies in the past.
\<close>

definition queue_ok :: "simulation \<Rightarrow> bool" where
  "queue_ok s \<longleftrightarrow>
     distinct (map event_id (sim_queue s))
     \<and> pending_ids s = event_id ` set (sim_queue s)
     \<and> cancelled_ids s \<subseteq> pending_ids s
     \<and> (\<forall>e\<in>set (sim_queue s). sim_now s \<le> timestamp e
          \<and> unat (event_id e) < id_position (sim_event_ids s))"

definition sim_inv :: "nat \<Rightarrow> simulation \<Rightarrow> bool" where
  "sim_inv k s \<longleftrightarrow> queue_ok s \<and> metadata_ok s \<and> balanced k s \<and> log_ok (sim_trace s)
     \<and> session_ok (sim_session s)"

abbreviation sim_ok :: "simulation \<Rightarrow> bool" where
  "sim_ok \<equiv> sim_inv 0"

section \<open>Lemmas: trace and telemetry\<close>

lemma enabled_updates [simp]:
  "trace_enabled (s\<lparr>sim_event_ids := g\<rparr>) = trace_enabled s"
  "trace_enabled (s\<lparr>pending_ids := p\<rparr>) = trace_enabled s"
  "trace_enabled (s\<lparr>cancelled_ids := p\<rparr>) = trace_enabled s"
  "trace_enabled (s\<lparr>trace_metadata := m\<rparr>) = trace_enabled s"
  "trace_enabled (s\<lparr>sim_queue := q\<rparr>) = trace_enabled s"
  "trace_enabled (s\<lparr>cancelled_events := n\<rparr>) = trace_enabled s"
  "trace_enabled (s\<lparr>dispatched_events := n\<rparr>) = trace_enabled s"
  "trace_enabled (s\<lparr>sim_now := u\<rparr>) = trace_enabled s"
  "trace_enabled (s\<lparr>current_event := e\<rparr>) = trace_enabled s"
  "trace_enabled (s\<lparr>sim_lifecycle := l\<rparr>) = trace_enabled s"
  "trace_enabled (s\<lparr>sim_stop_reason := r\<rparr>) = trace_enabled s"
  "telemetry_enabled (s\<lparr>sim_event_ids := g\<rparr>) = telemetry_enabled s"
  "telemetry_enabled (s\<lparr>pending_ids := p\<rparr>) = telemetry_enabled s"
  "telemetry_enabled (s\<lparr>cancelled_ids := p\<rparr>) = telemetry_enabled s"
  "telemetry_enabled (s\<lparr>trace_metadata := m\<rparr>) = telemetry_enabled s"
  "telemetry_enabled (s\<lparr>sim_queue := q\<rparr>) = telemetry_enabled s"
  "telemetry_enabled (s\<lparr>cancelled_events := n\<rparr>) = telemetry_enabled s"
  "telemetry_enabled (s\<lparr>dispatched_events := n\<rparr>) = telemetry_enabled s"
  "telemetry_enabled (s\<lparr>sim_now := u\<rparr>) = telemetry_enabled s"
  "telemetry_enabled (s\<lparr>current_event := e\<rparr>) = telemetry_enabled s"
  "telemetry_enabled (s\<lparr>sim_lifecycle := l\<rparr>) = telemetry_enabled s"
  "telemetry_enabled (s\<lparr>sim_stop_reason := r\<rparr>) = telemetry_enabled s"
  by (simp_all add: trace_enabled_def telemetry_enabled_def)

text \<open>A quiet step changes only the trace, the session and the record of a telemetry failure.\<close>

definition quiet :: "simulation \<Rightarrow> simulation \<Rightarrow> bool" where
  "quiet s t \<longleftrightarrow>
     t = s\<lparr>sim_trace := sim_trace t, sim_session := sim_session t, telemetry_failed := telemetry_failed t\<rparr>
     \<and> log_mode (sim_trace t) = log_mode (sim_trace s)
     \<and> configuration (sim_session t) = configuration (sim_session s)
     \<and> log_ok (sim_trace t) \<and> session_ok (sim_session t)"

abbreviation telemetry_ok :: "simulation \<Rightarrow> bool" where
  "telemetry_ok s \<equiv> log_ok (sim_trace s) \<and> session_ok (sim_session s)"

lemma quiet_refl: "telemetry_ok s \<Longrightarrow> quiet s s"
  by (simp add: quiet_def)

lemma quiet_ok: "quiet s t \<Longrightarrow> telemetry_ok t"
  by (simp add: quiet_def)

lemma quiet_fields:
  assumes "quiet s t"
  shows "sim_now t = sim_now s" "sim_event_ids t = sim_event_ids s" "sim_queue t = sim_queue s"
    "sim_rng t = sim_rng s" "sim_sink t = sim_sink s" "pending_ids t = pending_ids s"
    "cancelled_ids t = cancelled_ids s" "trace_metadata t = trace_metadata s"
    "current_event t = current_event s" "sim_stop_reason t = sim_stop_reason s"
    "sim_lifecycle t = sim_lifecycle s" "dispatched_events t = dispatched_events s"
    "cancelled_events t = cancelled_events s"
proof -
  from assms have t: "t = s\<lparr>sim_trace := sim_trace t, sim_session := sim_session t,
      telemetry_failed := telemetry_failed t\<rparr>" by (simp add: quiet_def)
  show "sim_now t = sim_now s" "sim_event_ids t = sim_event_ids s" "sim_queue t = sim_queue s"
    "sim_rng t = sim_rng s" "sim_sink t = sim_sink s" "pending_ids t = pending_ids s"
    "cancelled_ids t = cancelled_ids s" "trace_metadata t = trace_metadata s"
    "current_event t = current_event s" "sim_stop_reason t = sim_stop_reason s"
    "sim_lifecycle t = sim_lifecycle s" "dispatched_events t = dispatched_events s"
    "cancelled_events t = cancelled_events s"
    by (subst t, simp)+
qed

lemma quiet_trans: "quiet s t \<Longrightarrow> quiet t u \<Longrightarrow> quiet s u"
proof -
  assume st: "quiet s t" and tu: "quiet t u"
  from st have t: "t = s\<lparr>sim_trace := sim_trace t, sim_session := sim_session t,
      telemetry_failed := telemetry_failed t\<rparr>" by (simp add: quiet_def)
  from tu have u: "u = t\<lparr>sim_trace := sim_trace u, sim_session := sim_session u,
      telemetry_failed := telemetry_failed u\<rparr>" by (simp add: quiet_def)
  have "u = s\<lparr>sim_trace := sim_trace u, sim_session := sim_session u,
      telemetry_failed := telemetry_failed u\<rparr>"
    by (subst u, subst t, simp)
  with st tu show ?thesis by (simp add: quiet_def)
qed

lemma quiet_enabled:
  "quiet s t \<Longrightarrow> trace_enabled t = trace_enabled s \<and> telemetry_enabled t = telemetry_enabled s"
  using quiet_fields(5) [of s t]
  by (simp add: quiet_def trace_enabled_def telemetry_enabled_def log_enabled_def sink_enabled_def
      session_enabled_def)

text \<open>A program that is quiet whatever happens.\<close>

definition quietly :: "(simulation, 'a) prog \<Rightarrow> bool" where
  "quietly m \<longleftrightarrow> (\<forall>s. telemetry_ok s \<longrightarrow> wp m (\<lambda>_ t. quiet s t) (\<lambda>_ t. quiet s t) s)"

lemma quietlyD: "quietly m \<Longrightarrow> telemetry_ok s \<Longrightarrow> wp m (\<lambda>_ t. quiet s t) (\<lambda>_ t. quiet s t) s"
  by (simp add: quietly_def)

lemma quietly_return [simp]: "quietly (return x)"
  by (simp add: quietly_def wp_simps quiet_refl)

lemma quietly_throw [simp]: "quietly (throw e)"
  by (simp add: quietly_def wp_simps quiet_refl)

lemma quietly_gets [simp]: "quietly (gets f)"
  by (simp add: quietly_def wp_simps quiet_refl)

lemma quietly_bind: "quietly m \<Longrightarrow> (\<And>x. quietly (f x)) \<Longrightarrow> quietly (bind m f)"
  unfolding quietly_def wp_bind
proof (intro allI impI)
  fix s
  assume m: "\<forall>s. telemetry_ok s \<longrightarrow> wp m (\<lambda>_ t. quiet s t) (\<lambda>_ t. quiet s t) s"
    and f: "\<And>x. \<forall>s. telemetry_ok s \<longrightarrow> wp (f x) (\<lambda>_ t. quiet s t) (\<lambda>_ t. quiet s t) s"
    and s: "telemetry_ok s"
  show "wp m (\<lambda>x. wp (f x) (\<lambda>_ t. quiet s t) (\<lambda>_ t. quiet s t)) (\<lambda>_ t. quiet s t) s"
  proof (rule wp_mono [OF m [rule_format, OF s]])
    fix x t assume st: "quiet s t"
    from f [rule_format, OF quiet_ok [OF st]]
    show "wp (f x) (\<lambda>_ t. quiet s t) (\<lambda>_ t. quiet s t) t"
      by (rule wp_mono) (auto intro: quiet_trans [OF st])
  qed
qed

lemma quietly_seq: "quietly m \<Longrightarrow> quietly k \<Longrightarrow> quietly (seq m k)"
  unfolding seq_def by (rule quietly_bind)

lemma quietly_perform_if: "quietly m \<Longrightarrow> quietly (perform_if c m)"
  by (simp add: perform_if_def)

lemma quietly_if: "quietly m \<Longrightarrow> quietly k \<Longrightarrow> quietly (if c then m else k)"
  by simp

lemmas quietly_rules = quietly_bind quietly_seq quietly_perform_if quietly_if
  quietly_return quietly_throw quietly_gets

lemma quietly_trace_append: "quietly (trace_append r)"
  by (simp add: quietly_def trace_append_def wp_simps quiet_def log_ok_append)

lemma quietly_record_event: "quietly (record_event a t m r)"
  by (simp add: record_event_def quietly_trace_append)

lemma quietly_record_terminal: "quietly (record_terminal a err)"
  unfolding record_terminal_def
  by (intro quietly_rules) (auto intro!: quietly_rules quietly_trace_append split: prod.splits)

lemma quietly_guarded_record: "quietly (guarded_record c ob)"
  unfolding quietly_def
proof (intro allI impI)
  fix s assume s: "telemetry_ok s"
  have "wp (session_record (sim_now s) c ob)
     (\<lambda>_ t. session_ok t \<and> configuration t = configuration (sim_session s))
     (\<lambda>_ t. session_ok t \<and> configuration t = configuration (sim_session s)) (sim_session s)"
    using s by (intro wp_mono [OF wp_session_record]) (auto dest: sampled_only_fields(1))
  then show "wp (guarded_record c ob) (\<lambda>_ t. quiet s t) (\<lambda>_ t. quiet s t) s"
    using s
    by (simp add: guarded_record_def wp_simps zoom_session_def sink_record_def quiet_def)
      (auto simp: quiet_def elim!: wp_mono)
qed

lemma quietly_emit_simulation_observation: "quietly (emit_simulation_observation tr ev cs)"
  unfolding emit_simulation_observation_def by (intro quietly_rules quietly_guarded_record)

lemma quietly_emit_metric: "quietly (emit_metric ob)"
  unfolding emit_metric_def by (intro quietly_rules quietly_guarded_record)

lemma quietly_emit_terminal_telemetry: "quietly (emit_terminal_telemetry st)"
  unfolding emit_terminal_telemetry_def
  by (intro quietly_rules quietly_emit_simulation_observation quietly_emit_metric)

lemmas quietly_emits = quietly_record_event quietly_record_terminal quietly_emit_simulation_observation
  quietly_emit_metric quietly_emit_terminal_telemetry quietly_trace_append

lemma sim_inv_quiet: "sim_inv k s \<Longrightarrow> quiet s t \<Longrightarrow> sim_inv k t"
proof -
  assume s: "sim_inv k s" and st: "quiet s t"
  have "queue_ok t = queue_ok s" "metadata_ok t = metadata_ok s" "balanced k t = balanced k s"
    unfolding queue_ok_def metadata_ok_def balanced_def
    using quiet_enabled [OF st] by (simp_all only: quiet_fields [OF st])
  with s quiet_ok [OF st] show ?thesis by (simp add: sim_inv_def)
qed

section \<open>Lemmas: scheduling and cancelling\<close>

text \<open>What a handler may not do through its context: move time, or end or change the dispatch.\<close>

definition context_frame :: "simulation \<Rightarrow> simulation \<Rightarrow> bool" where
  "context_frame s t \<longleftrightarrow>
     sim_now t = sim_now s \<and> current_event t = current_event s \<and> sim_lifecycle t = sim_lifecycle s
     \<and> dispatched_events t = dispatched_events s \<and> sim_sink t = sim_sink s
     \<and> log_mode (sim_trace t) = log_mode (sim_trace s)
     \<and> configuration (sim_session t) = configuration (sim_session s)"

lemma context_frame_refl [simp]: "context_frame s s"
  by (simp add: context_frame_def)

lemma context_frame_trans: "context_frame s t \<Longrightarrow> context_frame t u \<Longrightarrow> context_frame s u"
  by (simp add: context_frame_def)

lemma quiet_context_frame: "quiet s t \<Longrightarrow> context_frame s t"
  using quiet_fields [of s t] by (simp add: quiet_def context_frame_def)

definition spec_event :: "simulation \<Rightarrow> event_spec \<Rightarrow> event" where
  "spec_event s spec = \<lparr>timestamp = spec_timestamp spec, priority = spec_priority spec,
     event_id = next_value (sim_event_ids s), cause = map_option event_id (current_event s),
     payload = spec_payload spec\<rparr>"

definition scheduled :: "event_spec \<Rightarrow> simulation \<Rightarrow> simulation" where
  "scheduled spec s =
     (let e = spec_event s spec
      in s\<lparr>sim_event_ids := issue_id (sim_event_ids s),
           pending_ids := insert (event_id e) (pending_ids s),
           trace_metadata := (if trace_enabled s \<or> telemetry_enabled s
             then (trace_metadata s)(event_id e \<mapsto> event_trace_metadata e) else trace_metadata s),
           sim_queue := e # sim_queue s\<rparr>)"

lemma queue_ok_pending: "queue_ok s \<Longrightarrow> e \<in> set (sim_queue s) \<Longrightarrow> event_id e \<in> pending_ids s"
  by (simp add: queue_ok_def)

lemma metadata_ok_pending:
  "metadata_ok s \<Longrightarrow> queue_ok s \<Longrightarrow> i \<notin> pending_ids s \<Longrightarrow> trace_metadata s i = None"
  by (cases "trace_metadata s i") (auto simp: metadata_ok_def dest: queue_ok_pending)

lemma queue_ok_fresh:
  assumes "queue_ok s" and "\<not> exhausted (sim_event_ids s)"
  shows "next_value (sim_event_ids s) \<notin> pending_ids s"
proof
  assume "next_value (sim_event_ids s) \<in> pending_ids s"
  with assms(1) obtain e where "e \<in> set (sim_queue s)" "event_id e = next_value (sim_event_ids s)"
    by (auto simp: queue_ok_def)
  with assms show False by (auto simp: queue_ok_def id_position_def)
qed

lemma sim_inv_scheduled:
  assumes ok: "sim_inv k s" and "\<not> exhausted (sim_event_ids s)" and past: "sim_now s \<le> spec_timestamp spec"
  shows "sim_inv k (scheduled spec s)"
proof -
  let ?i = "next_value (sim_event_ids s)" and ?e = "spec_event s spec" and ?t = "scheduled spec s"
  have q: "queue_ok s" and m: "metadata_ok s" and b: "balanced k s" using ok by (simp_all add: sim_inv_def)
  have i: "event_id ?e = ?i" "timestamp ?e = spec_timestamp spec" by (simp_all add: spec_event_def)
  have fresh: "?i \<notin> pending_ids s" using q assms(2) by (rule queue_ok_fresh)
  have pos: "id_position (issue_id (sim_event_ids s)) = Suc (id_position (sim_event_ids s))"
    using assms(2) by (rule id_position_issue)
  have idx: "unat ?i = id_position (sim_event_ids s)" using assms(2) by (simp add: id_position_def)
  have "queue_ok ?t"
    using q fresh past i idx pos by (auto simp: queue_ok_def scheduled_def Let_def less_Suc_eq)
  moreover have "metadata_ok ?t"
  proof -
    have en: "trace_enabled ?t = trace_enabled s" "telemetry_enabled ?t = telemetry_enabled s"
      by (simp_all add: scheduled_def Let_def trace_enabled_def telemetry_enabled_def)
    show ?thesis
    proof (cases "trace_enabled s \<or> telemetry_enabled s")
      case True
      have neq: "event_id e \<noteq> ?i" if "e \<in> set (sim_queue s)" for e
        using queue_ok_pending [OF q that] fresh by auto
      have "(trace_metadata ?t j = Some md) \<longleftrightarrow>
          (\<exists>e\<in>set (sim_queue ?t). event_id e = j \<and> md = event_trace_metadata e)" for j md
        using m True neq i by (cases "j = ?i") (auto simp: metadata_ok_def scheduled_def Let_def)
      with en True show ?thesis by (simp add: metadata_ok_def)
    next
      case False
      with m en show ?thesis by (simp add: metadata_ok_def scheduled_def Let_def)
    qed
  qed
  moreover have "balanced k ?t"
  proof -
    have sub: "card (cancelled_ids s) \<le> card (pending_ids s)"
      using q by (intro card_mono) (auto simp: queue_ok_def)
    have "card (pending_ids ?t) = Suc (card (pending_ids s))"
      using fresh i by (simp add: scheduled_def Let_def)
    then have "card (pending_ids ?t) - card (cancelled_ids ?t)
        = Suc (card (pending_ids s) - card (cancelled_ids s))"
      using sub by (simp add: scheduled_def Let_def Suc_diff_le)
    moreover obtain d c where "dispatched_events s = of_nat d" "cancelled_events s = of_nat c"
        "d + c + k + (card (pending_ids s) - card (cancelled_ids s)) = id_position (sim_event_ids s)"
      using b by (auto simp: balanced_def)
    ultimately show ?thesis
      unfolding balanced_def
      by (intro exI [of _ d] exI [of _ c]) (simp add: scheduled_def Let_def pos)
  qed
  ultimately show ?thesis using ok by (simp add: sim_inv_def scheduled_def Let_def)
qed

text \<open>
  Scheduling either rejects the request and changes nothing, or queues the event; it may still throw
  afterwards, when the report of the new event to the telemetry session fails.
\<close>

definition schedule_rejection :: "event_spec \<Rightarrow> simulation \<Rightarrow> exn option" where
  "schedule_rejection spec s =
     (if sim_lifecycle s = Finished then Some (LogicError ''cannot schedule on a finished simulation'')
      else if spec_timestamp spec < sim_now s
      then Some (InvalidArgument ''cannot schedule an event in the simulated past'')
      else if exhausted (sim_event_ids s) then Some (OverflowError ''event ID sequence exhausted'')
      else None)"

lemma insert_event_eq:
  "trace_metadata s (event_id e) = None \<Longrightarrow>
   insert_event e on s = (Inr (), s\<lparr>trace_metadata := (if on
      then (trace_metadata s)(event_id e \<mapsto> event_trace_metadata e) else trace_metadata s),
      sim_queue := e # sim_queue s\<rparr>)"
  by (simp add: insert_event_def try_catch_def bind_def seq_def gets_def modify_def return_def
      throw_if_def queue_push_def)

lemma schedule_rejected: "schedule_rejection spec s = Some e \<Longrightarrow> schedule spec s = (Inl e, s)"
  by (auto simp: schedule_rejection_def schedule_def prog_defs event_ids_next_def event_id_next_eq
      split: if_splits)

lemma schedule_accepted:
  assumes ok: "sim_inv k s" and acc: "schedule_rejection spec s = None"
  shows "\<exists>r t. schedule spec s = (r, t) \<and> quiet (scheduled spec s) t
           \<and> (\<forall>i. r = Inr i \<longrightarrow> i = next_value (sim_event_ids s))"
proof -
  let ?e = "spec_event s spec" and ?i = "next_value (sim_event_ids s)"
  let ?on = "trace_enabled s \<or> telemetry_enabled s"
  from acc have g: "sim_lifecycle s \<noteq> Finished" "\<not> spec_timestamp spec < sim_now s"
      "\<not> exhausted (sim_event_ids s)"
    by (auto simp: schedule_rejection_def split: if_splits)
  have fresh: "?i \<notin> pending_ids s"
    using ok g(3) by (intro queue_ok_fresh) (simp add: sim_inv_def)
  then have nometa: "trace_metadata s ?i = None"
    using ok by (intro metadata_ok_pending) (simp_all add: sim_inv_def)
  define tail where "tail = seq (perform_if ?on (record_event Scheduled (sim_now s) (event_trace_metadata ?e) None))
     (seq (emit_simulation_observation SimEventScheduled (Some ?i) (map_option event_id (current_event s)))
          (return ?i))"
  have "telemetry_ok (scheduled spec s)"
    using ok by (simp add: sim_inv_def scheduled_def Let_def)
  moreover have "quietly tail" unfolding tail_def by (intro quietly_rules quietly_emits)
  ultimately have tail: "wp tail (\<lambda>_ t. quiet (scheduled spec s) t) (\<lambda>_ t. quiet (scheduled spec s) t)
      (scheduled spec s)" by (rule quietlyD [rotated])
  have "schedule spec s = tail (scheduled spec s)"
    using g fresh nometa
    by (simp add: schedule_def bind_def seq_def gets_def modify_def return_def throw_def throw_if_def
        zoom_def event_ids_next_def event_id_next_eq Let_def scheduled_def spec_event_def tail_def
        insert_event_eq cong: prod.case_cong sum.case_cong)
  moreover have "fst (tail u) = Inr i \<Longrightarrow> i = ?i" for u i
    by (auto simp: tail_def prog_defs split: prod.splits sum.splits if_splits)
  moreover obtain r t where "tail (scheduled spec s) = (r, t)" by (cases "tail (scheduled spec s)")
  moreover from this tail have "quiet (scheduled spec s) t" by (cases r) (simp_all add: wp_def)
  ultimately show ?thesis by (metis fst_conv)
qed

definition cancelled :: "event_id \<Rightarrow> simulation \<Rightarrow> simulation" where
  "cancelled i s = s\<lparr>cancelled_ids := insert i (cancelled_ids s),
     cancelled_events := cancelled_events s + 1\<rparr>"

text \<open>A cancellation takes effect for a pending event that has not been cancelled yet.\<close>

definition cancellable :: "event_id \<Rightarrow> simulation \<Rightarrow> bool" where
  "cancellable i s \<longleftrightarrow> sim_lifecycle s \<noteq> Finished \<and> i \<in> pending_ids s \<and> i \<notin> cancelled_ids s"

lemma sim_inv_cancelled:
  assumes ok: "sim_inv k s" and c: "cancellable i s"
  shows "sim_inv k (cancelled i s)"
proof -
  have q: "queue_ok s" and b: "balanced k s" using ok by (simp_all add: sim_inv_def)
  have "insert i (cancelled_ids s) \<subseteq> pending_ids s"
    using q c by (auto simp: queue_ok_def cancellable_def)
  then have le: "Suc (card (cancelled_ids s)) \<le> card (pending_ids s)"
    using c card_mono [of "pending_ids s" "insert i (cancelled_ids s)"] by (simp add: cancellable_def)
  obtain d n where dn: "dispatched_events s = of_nat d" "cancelled_events s = of_nat n"
      "d + n + k + (card (pending_ids s) - card (cancelled_ids s)) = id_position (sim_event_ids s)"
    using b by (auto simp: balanced_def)
  have "balanced k (cancelled i s)"
    unfolding balanced_def
    by (intro exI [of _ d] exI [of _ "Suc n"]) (use dn le c in \<open>simp add: cancelled_def cancellable_def\<close>)
  moreover have "queue_ok (cancelled i s)" using q c by (auto simp: queue_ok_def cancelled_def cancellable_def)
  ultimately show ?thesis using ok by (simp add: sim_inv_def metadata_ok_def cancelled_def)
qed

lemma cancel_ignored: "sim_inv k s \<Longrightarrow> \<not> cancellable i s \<Longrightarrow> cancel i s = (Inr False, s)"
proof -
  assume ok: "sim_inv k s" and c: "\<not> cancellable i s"
  have "trace_metadata s i \<noteq> None" if "i \<in> pending_ids s" "trace_enabled s \<or> telemetry_enabled s"
    using ok that by (fastforce simp: sim_inv_def queue_ok_def metadata_ok_def)
  with c show ?thesis by (auto simp: cancel_def cancellable_def prog_defs)
qed

lemma cancel_effective:
  assumes ok: "sim_inv k s" and c: "cancellable i s"
  shows "\<exists>r t. cancel i s = (r, t) \<and> quiet (cancelled i s) t \<and> (\<forall>b. r = Inr b \<longrightarrow> b)"
proof -
  let ?on = "trace_enabled s \<or> telemetry_enabled s"
  let ?m = "if ?on then trace_metadata s i else None"
  define tail where "tail =
     seq (emit_simulation_observation SimEventCancelled (Some i) (Option.bind ?m meta_cause))
         (seq (emit_metric (CounterObservation MetricSimulationCancelledEvents [] 1))
         (bind (gets sim_now) (\<lambda>t.
          seq (case ?m of None \<Rightarrow> return () | Some md \<Rightarrow> record_event Cancelled t md None)
              (return True))))"
  have "trace_metadata s i \<noteq> None" if ?on
    using ok c that by (fastforce simp: sim_inv_def queue_ok_def metadata_ok_def cancellable_def)
  then have "cancel i s = tail (cancelled i s)"
    using c by (auto simp: cancel_def cancellable_def prog_defs tail_def cancelled_def)
  moreover have "quietly tail"
    unfolding tail_def by (intro quietly_rules quietly_emits) (auto intro: quietly_emits split: option.splits)
  moreover have "telemetry_ok (cancelled i s)" using ok by (simp add: sim_inv_def cancelled_def)
  moreover have "fst (tail u) = Inr b \<Longrightarrow> b" for u b
    by (auto simp: tail_def prog_defs split: prod.splits sum.splits if_splits option.splits)
  moreover obtain r t where rt: "tail (cancelled i s) = (r, t)" by (cases "tail (cancelled i s)")
  ultimately have "quiet (cancelled i s) t"
    using quietlyD [of tail "cancelled i s"] by (cases r) (simp_all add: wp_def)
  with rt \<open>cancel i s = tail (cancelled i s)\<close> \<open>\<And>u b. fst (tail u) = Inr b \<Longrightarrow> b\<close>
  show ?thesis by (metis fst_conv)
qed

lemma stop_cases:
  assumes ok: "sim_inv k s"
  shows "\<exists>r t. stop reason s = (r, t) \<and> (t = s \<or> quiet (s\<lparr>sim_stop_reason := Some reason\<rparr>) t)"
proof (cases "sim_lifecycle s = Running \<and> current_event s \<noteq> None \<and> sim_stop_reason s = None")
  case False
  then show ?thesis
    by (cases "current_event s"; cases "sim_lifecycle s"; cases "sim_stop_reason s")
      (simp_all add: stop_def prog_defs)
next
  case True
  then obtain e where e: "current_event s = Some e" by auto
  let ?r = "\<lparr>action = StopRequested, recorded_at = sim_now s, rec_event_id = Some (event_id e),
      rec_cause = cause e, event_timestamp = Some (timestamp e), rec_priority = Some (priority e),
      rec_payload_kind = Some (payload_kind_of (payload e)), rec_stop_reason = Some reason,
      rec_error = None\<rparr>"
  let ?s1 = "if trace_enabled s then s\<lparr>sim_trace := log_append ?r (sim_trace s)\<rparr> else s"
  let ?s2 = "?s1\<lparr>sim_stop_reason := Some reason\<rparr>"
  let ?tail = "emit_simulation_observation SimStopRequested (Some (event_id e)) (cause e)"
  have "stop reason s = ?tail ?s2"
    using True e
    by (cases "trace_enabled s")
      (simp_all add: stop_def prog_defs record_event_def trace_append_def event_trace_metadata_def)
  moreover have q: "quiet (s\<lparr>sim_stop_reason := Some reason\<rparr>) ?s2"
    using ok by (simp add: quiet_def sim_inv_def log_ok_append)
  moreover have "wp ?tail (\<lambda>_ t. quiet ?s2 t) (\<lambda>_ t. quiet ?s2 t) ?s2"
    using quiet_ok [OF q] by (intro quietlyD quietly_emits)
  ultimately show ?thesis
    by (cases "?tail ?s2") (auto simp: wp_def split: sum.splits intro: quiet_trans)
qed

lemma sim_inv_stop_reason [simp]: "sim_inv k (s\<lparr>sim_stop_reason := r\<rparr>) = sim_inv k s"
  by (simp add: sim_inv_def queue_ok_def metadata_ok_def balanced_def)

text \<open>The operations of the context keep the invariant and the frame, whether or not they throw.\<close>

definition context_op :: "(simulation, 'a) prog \<Rightarrow> bool" where
  "context_op m \<longleftrightarrow> (\<forall>k s. sim_inv k s \<longrightarrow>
     wp m (\<lambda>_ t. sim_inv k t \<and> context_frame s t) (\<lambda>_ t. sim_inv k t \<and> context_frame s t) s)"

lemma context_op_schedule: "context_op (schedule spec)"
  unfolding context_op_def
proof (intro allI impI)
  fix k s assume ok: "sim_inv k s"
  show "wp (schedule spec) (\<lambda>_ t. sim_inv k t \<and> context_frame s t) (\<lambda>_ t. sim_inv k t \<and> context_frame s t) s"
  proof (cases "schedule_rejection spec s")
    case (Some e)
    then show ?thesis using ok by (simp add: wp_def schedule_rejected)
  next
    case None
    from schedule_accepted [OF ok None] obtain r t where
      rt: "schedule spec s = (r, t)" "quiet (scheduled spec s) t" by blast
    from None have "\<not> exhausted (sim_event_ids s)" "sim_now s \<le> spec_timestamp spec"
      by (auto simp: schedule_rejection_def split: if_splits)
    from sim_inv_scheduled [OF ok this] rt(2) have "sim_inv k t" by (rule sim_inv_quiet)
    moreover have "context_frame s (scheduled spec s)"
      by (simp add: context_frame_def scheduled_def Let_def)
    ultimately show ?thesis
      using rt quiet_context_frame context_frame_trans by (auto simp: wp_def split: sum.splits)
  qed
qed

lemma context_op_cancel: "context_op (cancel i)"
  unfolding context_op_def
proof (intro allI impI)
  fix k s assume ok: "sim_inv k s"
  show "wp (cancel i) (\<lambda>_ t. sim_inv k t \<and> context_frame s t) (\<lambda>_ t. sim_inv k t \<and> context_frame s t) s"
  proof (cases "cancellable i s")
    case False
    then show ?thesis using ok by (simp add: wp_def cancel_ignored)
  next
    case True
    from cancel_effective [OF ok True] obtain r t where
      rt: "cancel i s = (r, t)" "quiet (cancelled i s) t" by blast
    from sim_inv_cancelled [OF ok True] rt(2) have "sim_inv k t" by (rule sim_inv_quiet)
    moreover have "context_frame s (cancelled i s)" by (simp add: context_frame_def cancelled_def)
    ultimately show ?thesis
      using rt quiet_context_frame context_frame_trans by (auto simp: wp_def split: sum.splits)
  qed
qed

lemma context_op_stop: "context_op (stop reason)"
  unfolding context_op_def
proof (intro allI impI)
  fix k s assume ok: "sim_inv k s"
  from stop_cases [OF ok] obtain r t where rt: "stop reason s = (r, t)"
    "t = s \<or> quiet (s\<lparr>sim_stop_reason := Some reason\<rparr>) t" by blast
  have "context_frame s (s\<lparr>sim_stop_reason := Some reason\<rparr>)" by (simp add: context_frame_def)
  then have "sim_inv k t \<and> context_frame s t"
    using rt(2) ok sim_inv_quiet [of k "s\<lparr>sim_stop_reason := Some reason\<rparr>" t]
      quiet_context_frame context_frame_trans by auto
  then show "wp (stop reason) (\<lambda>_ t. sim_inv k t \<and> context_frame s t) (\<lambda>_ t. sim_inv k t \<and> context_frame s t) s"
    using rt(1) by (simp add: wp_def split: sum.splits)
qed

lemma context_op_quietly: "quietly m \<Longrightarrow> context_op m"
  unfolding context_op_def
proof (intro allI impI)
  fix k s assume m: "quietly m" and ok: "sim_inv k s"
  then have "wp m (\<lambda>_ t. quiet s t) (\<lambda>_ t. quiet s t) s"
    by (intro quietlyD) (simp_all add: sim_inv_def)
  then show "wp m (\<lambda>_ t. sim_inv k t \<and> context_frame s t) (\<lambda>_ t. sim_inv k t \<and> context_frame s t) s"
    by (rule wp_mono) (auto intro: sim_inv_quiet [OF ok] quiet_context_frame)
qed

section \<open>Lemmas: the dispatch loop\<close>

definition popped :: "event \<Rightarrow> event_queue \<Rightarrow> simulation \<Rightarrow> simulation" where
  "popped e q s = s\<lparr>sim_queue := q, pending_ids := pending_ids s - {event_id e},
     trace_metadata := (trace_metadata s)(event_id e := None),
     cancelled_ids := cancelled_ids s - {event_id e}\<rparr>"

lemma next_dispatchable_event_eq:
  "next_dispatchable_event s =
     (case queue_pop (sim_queue s) of
        (None, q) \<Rightarrow> (None, s\<lparr>sim_queue := q\<rparr>)
      | (Some e, q) \<Rightarrow>
          if event_id e \<in> cancelled_ids s then next_dispatchable_event (popped e q s)
          else (Some e, popped e q s))"
  by (subst next_dispatchable_event.simps) (simp add: popped_def Let_def split: prod.splits option.splits)

lemma sim_inv_popped:
  assumes ok: "sim_inv k s" and pop: "queue_pop (sim_queue s) = (Some e, q)"
  shows "sim_inv (if event_id e \<in> cancelled_ids s then k else Suc k) (popped e q s)"
    and "event_id e \<notin> event_id ` set q" and "set (sim_queue s) = insert e (set q)"
    and "\<forall>x\<in>set (sim_queue s). event_key e \<le> event_key x"
proof -
  have Q: "queue_ok s" and M: "metadata_ok s" and B: "balanced k s" using ok by (simp_all add: sim_inv_def)
  have mset: "mset (sim_queue s) = add_mset e (mset q)" using pop by (rule event_queue.pop_Some)
  then show set: "set (sim_queue s) = insert e (set q)"
    by (metis set_mset_add_mset_insert set_mset_mset)
  have "mset (map event_id (sim_queue s)) = mset (event_id e # map event_id q)" using mset by simp
  then have dist: "distinct (event_id e # map event_id q)"
    using Q mset_eq_imp_distinct_iff by (fastforce simp: queue_ok_def)
  then show e: "event_id e \<notin> event_id ` set q" by simp
  show "\<forall>x\<in>set (sim_queue s). event_key e \<le> event_key x"
    using event_queue.pop_least [OF pop] by simp
  have qok: "queue_ok (popped e q s)"
    using Q set dist e by (auto simp: queue_ok_def popped_def)
  have "(trace_metadata (popped e q s) i = Some m) \<longleftrightarrow> (trace_enabled s \<or> telemetry_enabled s)
      \<and> (\<exists>x\<in>set q. event_id x = i \<and> m = event_trace_metadata x)" for i m
  proof (cases "i = event_id e")
    case True
    moreover have "\<forall>x\<in>set q. event_id x \<noteq> event_id e" using e by (metis image_eqI)
    ultimately show ?thesis by (auto simp: popped_def)
  next
    case False
    then show ?thesis using M set by (auto simp: popped_def metadata_ok_def)
  qed
  then have mok: "metadata_ok (popped e q s)"
    unfolding metadata_ok_def by (simp add: popped_def)
  obtain d c where dc: "dispatched_events s = of_nat d" "cancelled_events s = of_nat c"
      "d + c + k + (card (pending_ids s) - card (cancelled_ids s)) = id_position (sim_event_ids s)"
    using B by (auto simp: balanced_def)
  have pend: "event_id e \<in> pending_ids s" "cancelled_ids s \<subseteq> pending_ids s"
    using Q set by (auto simp: queue_ok_def)
  have "card (pending_ids s) = Suc (card (pending_ids s - {event_id e}))"
    by (rule card.remove) (simp_all add: pend(1))
  moreover have "event_id e \<in> cancelled_ids s \<Longrightarrow>
      card (cancelled_ids s) = Suc (card (cancelled_ids s - {event_id e}))" by (rule card.remove) simp_all
  moreover have "event_id e \<notin> cancelled_ids s \<Longrightarrow> card (cancelled_ids s) \<le> card (pending_ids s - {event_id e})"
    using pend(2) by (intro card_mono) auto
  ultimately have "balanced (if event_id e \<in> cancelled_ids s then k else Suc k) (popped e q s)"
    unfolding balanced_def using dc
    by (intro exI [of _ d] exI [of _ c]) (auto simp: popped_def)
  with qok mok ok show "sim_inv (if event_id e \<in> cancelled_ids s then k else Suc k) (popped e q s)"
    by (simp add: sim_inv_def popped_def)
qed

text \<open>
  The next event to dispatch is the least live one in the queue; cancelled events before it are
  discarded; without one, the queue is left empty.
\<close>

lemma next_dispatchable_event_spec:
  assumes "sim_inv k s" and "next_dispatchable_event s = (r, t)"
  shows "context_frame s t \<and> sim_stop_reason t = sim_stop_reason s
       \<and> cancelled_events t = cancelled_events s
       \<and> (case r of
            None \<Rightarrow> sim_inv k t \<and> sim_queue t = [] \<and> event_id ` set (sim_queue s) \<subseteq> cancelled_ids s
          | Some e \<Rightarrow> sim_inv (Suc k) t \<and> e \<in> set (sim_queue s) \<and> event_id e \<notin> cancelled_ids s
              \<and> (\<forall>x\<in>set (sim_queue s). event_id x \<notin> cancelled_ids s \<longrightarrow> event_key e \<le> event_key x)
              \<and> (\<forall>x\<in>set (sim_queue t). event_key e \<le> event_key x) \<and> event_id e \<notin> pending_ids t)"
  using assms
proof (induction s rule: next_dispatchable_event.induct)
  case (1 s)
  show ?case
  proof (cases "queue_pop (sim_queue s)")
    case (Pair p q)
    show ?thesis
    proof (cases p)
      case None
      with Pair have "sim_queue s = []" "q = []"
        using event_queue.pop_None [of "sim_queue s" q] by auto
      then have "s\<lparr>sim_queue := q\<rparr> = s" by simp
      with "1.prems" Pair None \<open>sim_queue s = []\<close> show ?thesis
        by (subst (asm) next_dispatchable_event_eq) auto
    next
      case (Some e)
      with Pair have pop: "queue_pop (sim_queue s) = (Some e, q)" by simp
      note step = sim_inv_popped [OF "1.prems"(1) pop]
      have frame: "context_frame s (popped e q s)" "sim_stop_reason (popped e q s) = sim_stop_reason s"
          "cancelled_events (popped e q s) = cancelled_events s"
        by (simp_all add: context_frame_def popped_def)
      show ?thesis
      proof (cases "event_id e \<in> cancelled_ids s")
        case False
        with "1.prems"(2) pop have rt: "r = Some e" "t = popped e q s"
          by (simp_all add: next_dispatchable_event_eq [of s])
        then show ?thesis
          using step False frame by (auto simp: popped_def queue_ok_def sim_inv_def)
      next
        case True
        have tail: "next_dispatchable_event (popped e q s) = (r, t)"
          using "1.prems"(2) pop True by (simp add: next_dispatchable_event_eq [of s])
        have inv: "sim_inv k (popped e q s)" using step(1) True by simp
        have IH: "context_frame (popped e q s) t \<and> sim_stop_reason t = sim_stop_reason (popped e q s)
           \<and> cancelled_events t = cancelled_events (popped e q s)
           \<and> (case r of
                None \<Rightarrow> sim_inv k t \<and> sim_queue t = []
                  \<and> event_id ` set (sim_queue (popped e q s)) \<subseteq> cancelled_ids (popped e q s)
              | Some x \<Rightarrow> sim_inv (Suc k) t \<and> x \<in> set (sim_queue (popped e q s))
                  \<and> event_id x \<notin> cancelled_ids (popped e q s)
                  \<and> (\<forall>y\<in>set (sim_queue (popped e q s)). event_id y \<notin> cancelled_ids (popped e q s)
                       \<longrightarrow> event_key x \<le> event_key y)
                  \<and> (\<forall>y\<in>set (sim_queue t). event_key x \<le> event_key y) \<and> event_id x \<notin> pending_ids t)"
          using "1.IH" [OF pop [symmetric] refl refl refl, folded popped_def] True inv tail by simp
        have q: "sim_queue (popped e q s) = q" "cancelled_ids (popped e q s) = cancelled_ids s - {event_id e}"
          by (simp_all add: popped_def)
        have "event_id x \<in> cancelled_ids (popped e q s) \<longleftrightarrow> event_id x \<in> cancelled_ids s" if "x \<in> set q" for x
          using image_eqI [OF refl that, of event_id] step(2) q by auto
        with IH frame True step(3) show ?thesis
          unfolding q by (auto split: option.splits intro: context_frame_trans)
      qed
    qed
  qed
qed

lemma event_key_timestamp: "event_key e \<le> event_key x \<Longrightarrow> timestamp e \<le> timestamp x"
  by (auto simp: event_key_def less_eq_prod_def)

text \<open>Starting the dispatch of a taken event advances time to it and counts it.\<close>

definition dispatching :: "event \<Rightarrow> simulation \<Rightarrow> simulation" where
  "dispatching e s = s\<lparr>current_event := Some e, sim_now := timestamp e,
     dispatched_events := dispatched_events s + 1\<rparr>"

lemma sim_inv_dispatching:
  assumes ok: "sim_inv (Suc k) s" and least: "\<forall>x\<in>set (sim_queue s). event_key e \<le> event_key x"
  shows "sim_inv k (dispatching e s)"
proof -
  obtain d c where dc: "dispatched_events s = of_nat d" "cancelled_events s = of_nat c"
      "d + c + Suc k + (card (pending_ids s) - card (cancelled_ids s)) = id_position (sim_event_ids s)"
    using ok by (auto simp: sim_inv_def balanced_def)
  have "balanced k (dispatching e s)"
    unfolding balanced_def
    by (intro exI [of _ "Suc d"] exI [of _ c]) (use dc in \<open>simp add: dispatching_def\<close>)
  moreover have "queue_ok (dispatching e s)"
    using ok least by (auto simp: sim_inv_def queue_ok_def dispatching_def event_key_timestamp)
  ultimately show ?thesis using ok by (simp add: sim_inv_def metadata_ok_def dispatching_def)
qed

lemma sim_inv_current_event [simp]: "sim_inv k (s\<lparr>current_event := c\<rparr>) = sim_inv k s"
  by (simp add: sim_inv_def queue_ok_def metadata_ok_def balanced_def)

lemma sim_inv_lifecycle [simp]: "sim_inv k (s\<lparr>sim_lifecycle := c\<rparr>) = sim_inv k s"
  by (simp add: sim_inv_def queue_ok_def metadata_ok_def balanced_def)

lemma sim_inv_telemetry_failed [simp]: "sim_inv k (s\<lparr>telemetry_failed := c\<rparr>) = sim_inv k s"
  by (simp add: sim_inv_def queue_ok_def metadata_ok_def balanced_def trace_enabled_def telemetry_enabled_def)

text \<open>What a result says of the state the run ends in.\<close>

definition result_of :: "simulation_result \<Rightarrow> simulation \<Rightarrow> bool" where
  "result_of res t \<longleftrightarrow>
     res_stop_reason res = sim_stop_reason t \<and> res_final_time res = sim_now t
     \<and> res_dispatched_events res = dispatched_events t \<and> res_cancelled_events res = cancelled_events t
     \<and> res_pending_events res = card (pending_ids t) - card (cancelled_ids t)
     \<and> res_rng_draw_count res = draw_count (sim_rng t) \<and> res_trace_hash res = log_digest (sim_trace t)"

lemma sim_inv_cards: "sim_inv k s \<Longrightarrow> card (cancelled_ids s) \<le> card (pending_ids s)"
  by (intro card_mono) (auto simp: sim_inv_def queue_ok_def)

lemma pending_count_eq: "sim_inv k s \<Longrightarrow> pending_count s = card (pending_ids s) - card (cancelled_ids s)"
  by (simp add: pending_count_def sim_inv_cards)

lemma wp_finish:
  assumes ok: "sim_ok s"
  shows "wp (finish st err)
     (\<lambda>res t. sim_ok t \<and> sim_lifecycle t = Finished \<and> result_of res t \<and> res_status res = st
        \<and> res_error res = err \<and> sim_queue t = sim_queue s \<and> sim_now t = sim_now s
        \<and> sim_stop_reason t = sim_stop_reason s)
     (\<lambda>e t. quiet s t) s"
proof -
  let ?m = "seq (emit_terminal_telemetry st)
     (if st = StatusCompleted then record_terminal Completed None
      else if st = StatusFailed then record_terminal Failed err else return ())"
  have "quietly ?m" by (intro quietly_rules quietly_emits)
  moreover have "telemetry_ok s" using ok by (simp add: sim_inv_def)
  ultimately have "wp ?m (\<lambda>_ t. quiet s t) (\<lambda>_ t. quiet s t) s" by (rule quietlyD)
  then have "wp ?m (\<lambda>_ t. wp (seq (modify (\<lambda>s. s\<lparr>sim_lifecycle := Finished, current_event := None\<rparr>))
     (gets (\<lambda>s. \<lparr>res_status = st, res_stop_reason = sim_stop_reason s, res_final_time = sim_now s,
        res_dispatched_events = dispatched_events s, res_cancelled_events = cancelled_events s,
        res_pending_events = pending_count s, res_rng_draw_count = draw_count (sim_rng s),
        res_trace_hash = log_digest (sim_trace s), res_error = err\<rparr>)))
      (\<lambda>res t. sim_ok t \<and> sim_lifecycle t = Finished \<and> result_of res t \<and> res_status res = st
        \<and> res_error res = err \<and> sim_queue t = sim_queue s \<and> sim_now t = sim_now s
        \<and> sim_stop_reason t = sim_stop_reason s)
      (\<lambda>e t. quiet s t) t) (\<lambda>e t. quiet s t) s"
  proof (rule wp_mono)
    fix t assume st: "quiet s t"
    have "sim_ok t" using ok st by (rule sim_inv_quiet)
    moreover from this have "pending_count (t\<lparr>sim_lifecycle := Finished, current_event := None\<rparr>)
        = card (pending_ids t) - card (cancelled_ids t)"
      by (subst pending_count_eq [where k = 0]) simp_all
    ultimately show "wp (seq (modify (\<lambda>s. s\<lparr>sim_lifecycle := Finished, current_event := None\<rparr>))
     (gets (\<lambda>s. \<lparr>res_status = st, res_stop_reason = sim_stop_reason s, res_final_time = sim_now s,
        res_dispatched_events = dispatched_events s, res_cancelled_events = cancelled_events s,
        res_pending_events = pending_count s, res_rng_draw_count = draw_count (sim_rng s),
        res_trace_hash = log_digest (sim_trace s), res_error = err\<rparr>)))
      (\<lambda>res t. sim_ok t \<and> sim_lifecycle t = Finished \<and> result_of res t \<and> res_status res = st
        \<and> res_error res = err \<and> sim_queue t = sim_queue s \<and> sim_now t = sim_now s
        \<and> sim_stop_reason t = sim_stop_reason s)
      (\<lambda>e t. quiet s t) t"
      using quiet_fields [OF st] by (simp add: wp_simps result_of_def)
  qed simp
  then show ?thesis unfolding finish_def wp_seq by simp
qed

lemma emit_terminal_telemetry_off: "telemetry_failed s \<Longrightarrow> emit_terminal_telemetry st s = (Inr (), s)"
  by (simp add: emit_terminal_telemetry_def prog_defs)

lemma finish_no_throw: "telemetry_failed s \<Longrightarrow> \<exists>res t. finish st err s = (Inr res, t)"
  by (cases st)
    (auto simp: finish_def emit_terminal_telemetry_off prog_defs record_terminal_def trace_append_def
      split: prod.splits)

lemma wp_fail_run:
  assumes ok: "sim_ok s"
  shows "wp (fail_run err)
     (\<lambda>res t. sim_ok t \<and> sim_lifecycle t = Finished \<and> result_of res t \<and> res_status res = StatusFailed
        \<and> sim_now t = sim_now s)
     (\<lambda>e t. False) s"
proof -
  have "wp (finish StatusFailed (Some (what e)))
     (\<lambda>res t. sim_ok t \<and> sim_lifecycle t = Finished \<and> result_of res t \<and> res_status res = StatusFailed
        \<and> sim_now t = sim_now s) (\<lambda>e t. False) (t\<lparr>telemetry_failed := True\<rparr>)"
    if "quiet s t" for e t
  proof -
    have okt: "sim_ok (t\<lparr>telemetry_failed := True\<rparr>)" using sim_inv_quiet [OF ok that] by simp
    obtain res u where u: "finish StatusFailed (Some (what e)) (t\<lparr>telemetry_failed := True\<rparr>) = (Inr res, u)"
      using finish_no_throw [of "t\<lparr>telemetry_failed := True\<rparr>" StatusFailed "Some (what e)"] by auto
    with wp_finish [OF okt, of StatusFailed "Some (what e)"] quiet_fields(1) [OF that]
    show ?thesis by (simp add: wp_def)
  qed
  then have "wp (finish StatusFailed (Some err))
     (\<lambda>res t. sim_ok t \<and> sim_lifecycle t = Finished \<and> result_of res t \<and> res_status res = StatusFailed
        \<and> sim_now t = sim_now s)
     (\<lambda>e. wp (seq (modify (\<lambda>s. s\<lparr>telemetry_failed := True\<rparr>)) (finish StatusFailed (Some (what e))))
        (\<lambda>res t. sim_ok t \<and> sim_lifecycle t = Finished \<and> result_of res t \<and> res_status res = StatusFailed
           \<and> sim_now t = sim_now s) (\<lambda>e t. False)) s"
    by (intro wp_mono [OF wp_finish [OF ok]]) (auto simp: wp_simps)
  then show ?thesis by (simp add: fail_run_def wp_simps)
qed

section \<open>Dispatchers\<close>

text \<open>
  What the kernel needs of a dispatcher: whatever handler it runs, and whether or not the handler
  throws, the simulation stays well formed and the dispatch in progress is not disturbed. Handlers
  made of the operations of the context satisfy it, by the lemmas on \<open>context_op\<close>.
\<close>

locale event_dispatcher =
  fixes dispatcher :: "event_payload \<Rightarrow> (simulation \<times> 'c, unit) prog"
  assumes handler_keeps: "sim_ok (fst w) \<Longrightarrow> current_event (fst w) \<noteq> None \<Longrightarrow>
    wp (dispatcher p) (\<lambda>_ w'. sim_ok (fst w') \<and> context_frame (fst w) (fst w'))
      (\<lambda>_ w'. sim_ok (fst w') \<and> context_frame (fst w) (fst w')) w"
begin

abbreviation progress :: "simulation \<Rightarrow> simulation \<Rightarrow> bool" where
  "progress s t \<equiv> sim_ok t \<and> sim_lifecycle t = Running \<and> sim_now s \<le> sim_now t"

lemma wp_dispatch_next:
  assumes ok: "sim_ok (fst w)" and run: "sim_lifecycle (fst w) = Running"
  shows "wp (dispatch_next dispatcher)
     (\<lambda>again w'. progress (fst w) (fst w') \<and> (\<not> again \<longrightarrow> sim_queue (fst w') = []))
     (\<lambda>_ w'. progress (fst w) (fst w')) w"
proof -
  obtain nxt t where nt: "next_dispatchable_event (fst w) = (nxt, t)" by (cases "next_dispatchable_event (fst w)")
  note spec = next_dispatchable_event_spec [OF ok nt]
  show ?thesis
  proof (cases nxt)
    case None
    with spec run nt show ?thesis
      by (simp add: dispatch_next_def wp_simps zoom_sim_def)
        (simp add: wp_def context_frame_def return_def)
  next
    case (Some e)
    let ?s1 = "dispatching e t"
    let ?report = "seq (emit_simulation_observation SimEventDispatched (Some (event_id e)) (cause e))
           (seq (emit_metric (CounterObservation MetricSimulationDispatchedEvents [] 1))
           (bind (gets (\<lambda>s. (trace_enabled s, sim_now s))) (\<lambda>(on, t).
            perform_if on (record_event Dispatched t (event_trace_metadata e) None))))"
    have ok1: "sim_ok ?s1" using spec Some by (intro sim_inv_dispatching) simp_all
    have "e \<in> set (sim_queue (fst w))" using spec Some by simp
    then have now: "sim_now (fst w) \<le> sim_now ?s1"
      using ok by (auto simp: sim_inv_def queue_ok_def dispatching_def)
    have run1: "sim_lifecycle ?s1 = Running" "current_event ?s1 = Some e"
      using spec run by (simp_all add: context_frame_def dispatching_def)
    have "quietly ?report"
      by (intro quietly_rules quietly_emits) (auto intro!: quietly_rules quietly_emits split: prod.splits)
    then have rep: "wp ?report (\<lambda>_ u. quiet ?s1 u) (\<lambda>_ u. quiet ?s1 u) ?s1"
      by (rule quietlyD) (use ok1 in \<open>simp add: sim_inv_def\<close>)
    have good: "progress (fst w) u \<and> current_event u = Some e" if "quiet ?s1 u" for u
      using that sim_inv_quiet [OF ok1 that] quiet_fields [OF that] now run1 by simp
    have handle: "wp (dispatcher (payload e))
        (\<lambda>_ v. progress (fst w) (fst v)) (\<lambda>_ v. progress (fst w) (fst v)) (u, snd w)"
      if q: "quiet ?s1 u" for u
    proof -
      have "wp (dispatcher (payload e)) (\<lambda>_ v. sim_ok (fst v) \<and> context_frame u (fst v))
          (\<lambda>_ v. sim_ok (fst v) \<and> context_frame u (fst v)) (u, snd w)"
        using handler_keeps [of "(u, snd w)" "payload e"] good [OF q] by simp
      then show ?thesis by (rule wp_mono) (use good [OF q] in \<open>auto simp: context_frame_def\<close>)
    qed
    have "wp ?report
       (\<lambda>_ u. wp (seq (dispatcher (payload e)) (seq (zoom_sim (modify (\<lambda>s. s\<lparr>current_event := None\<rparr>))) (return True)))
          (\<lambda>again w'. progress (fst w) (fst w') \<and> (\<not> again \<longrightarrow> sim_queue (fst w') = []))
          (\<lambda>_ w'. progress (fst w) (fst w')) (u, snd w))
       (\<lambda>_ u. progress (fst w) u) ?s1"
    proof (rule wp_mono [OF rep])
      fix u assume q: "quiet ?s1 u"
      show "wp (seq (dispatcher (payload e)) (seq (zoom_sim (modify (\<lambda>s. s\<lparr>current_event := None\<rparr>))) (return True)))
          (\<lambda>again w'. progress (fst w) (fst w') \<and> (\<not> again \<longrightarrow> sim_queue (fst w') = []))
          (\<lambda>_ w'. progress (fst w) (fst w')) (u, snd w)"
        using handle [OF q] by (simp add: wp_simps zoom_sim_def)
    qed (use good in auto)
    then have "wp (seq (zoom_sim (seq (modify (dispatching e)) ?report))
         (seq (dispatcher (payload e)) (seq (zoom_sim (modify (\<lambda>s. s\<lparr>current_event := None\<rparr>))) (return True))))
       (\<lambda>again w'. progress (fst w) (fst w') \<and> (\<not> again \<longrightarrow> sim_queue (fst w') = []))
       (\<lambda>_ w'. progress (fst w) (fst w')) (t, snd w)"
      unfolding wp_seq zoom_sim_def wp_zoom wp_modify by simp
    moreover have "dispatch_next dispatcher w = seq (zoom_sim (seq (modify (dispatching e)) ?report))
         (seq (dispatcher (payload e)) (seq (zoom_sim (modify (\<lambda>s. s\<lparr>current_event := None\<rparr>))) (return True)))
         (t, snd w)"
      using nt Some
      by (simp add: dispatch_next_def dispatching_def [abs_def] bind_def zoom_sim_def zoom_def)
    ultimately show ?thesis by (simp only: wp_def)
  qed
qed

definition loop_ends :: "simulation \<Rightarrow> exn + simulation_result \<Rightarrow> simulation \<Rightarrow> bool" where
  "loop_ends s r t \<longleftrightarrow> sim_ok t \<and> sim_now s \<le> sim_now t
     \<and> (case r of
          Inl _ \<Rightarrow> True
        | Inr res \<Rightarrow> sim_lifecycle t = Finished \<and> result_of res t
            \<and> (res_status res = StatusCompleted \<longrightarrow> sim_queue t = [])
            \<and> (res_status res = StatusStopped \<longrightarrow> sim_stop_reason t \<noteq> None)
            \<and> res_status res \<noteq> StatusFailed)"

lemma loop_ends_finish:
  assumes "sim_ok (fst w)" and "st = StatusCompleted \<and> sim_queue (fst w) = [] \<or> st = StatusStopped \<and> sim_stop_reason (fst w) \<noteq> None"
    and "zoom_sim (finish st None) w = (r, w')" and "sim_now s \<le> sim_now (fst w)"
  shows "loop_ends s r (fst w')"
proof -
  obtain x t where x: "finish st None (fst w) = (x, t)" by (cases "finish st None (fst w)")
  then have "r = x" "fst w' = t" using assms(3) by (auto simp: zoom_sim_def zoom_def)
  with x wp_finish [OF assms(1), of st None] assms(2,4) show ?thesis
    by (cases x)
      (auto simp: wp_def loop_ends_def intro: sim_inv_quiet [OF assms(1)] dest: quiet_fields(1))
qed

lemma run_loop_ends:
  assumes ret: "run_loop dispatcher w = Some r"
    and "sim_ok (fst w)" and "sim_lifecycle (fst w) = Running"
  shows "loop_ends (fst w) (fst r) (fst (snd r))"
proof -
  have "dispatcher = dispatcher \<and> sim_ok (fst w) \<and> sim_lifecycle (fst w) = Running \<longrightarrow>
      loop_ends (fst w) (fst r) (fst (snd r))"
  proof (rule run_loop.raw_induct [where P = "\<lambda>d w r. d = dispatcher \<and> sim_ok (fst w)
      \<and> sim_lifecycle (fst w) = Running \<longrightarrow> loop_ends (fst w) (fst r) (fst (snd r))", OF _ ret], rule impI)
  fix f d w r
  assume IH: "\<And>d w r. f d w = Some r \<Longrightarrow> d = dispatcher \<and> sim_ok (fst w)
      \<and> sim_lifecycle (fst w) = Running \<longrightarrow> loop_ends (fst w) (fst r) (fst (snd r))"
    and eq: "(if sim_stop_reason (fst w) \<noteq> None then Some (zoom_sim (finish StatusStopped None) w)
      else case dispatch_next d w of
        (Inl e, w') \<Rightarrow> Some (Inl e, w')
      | (Inr again, w') \<Rightarrow>
          if again then f d w' else Some (zoom_sim (finish StatusCompleted None) w')) = Some r"
    and pre: "d = dispatcher \<and> sim_ok (fst w) \<and> sim_lifecycle (fst w) = Running"
  from pre have d: "d = dispatcher" and ok: "sim_ok (fst w)" and run: "sim_lifecycle (fst w) = Running"
    by auto
  show "loop_ends (fst w) (fst r) (fst (snd r))"
  proof (cases "sim_stop_reason (fst w) = None")
    case False
    with eq have "zoom_sim (finish StatusStopped None) w = (fst r, snd r)" by simp
    from loop_ends_finish [OF ok _ this] False show ?thesis by simp
  next
    case True
    obtain x w' where x: "dispatch_next dispatcher w = (x, w')" by (cases "dispatch_next dispatcher w")
    note step = wp_dispatch_next [OF ok run]
    show ?thesis
    proof (cases x)
      case (Inl e)
      with eq True d x step show ?thesis by (auto simp: wp_def loop_ends_def)
    next
      case (Inr again)
      with x step have p: "progress (fst w) (fst w')" "\<not> again \<Longrightarrow> sim_queue (fst w') = []"
        by (auto simp: wp_def)
      show ?thesis
      proof (cases again)
        case True
        with eq \<open>sim_stop_reason (fst w) = None\<close> d x Inr have "f dispatcher w' = Some r" by simp
        from IH [OF this] p have "loop_ends (fst w') (fst r) (fst (snd r))" by blast
        with p show ?thesis by (auto simp: loop_ends_def)
      next
        case False
        with eq True d x Inr have "zoom_sim (finish StatusCompleted None) w' = (fst r, snd r)" by simp
        from loop_ends_finish [OF _ _ this] p False show ?thesis by blast
      qed
    qed
  qed
  qed
  with assms show ?thesis by simp
qed

text \<open>
  A run of a fresh simulation that comes back never throws: it ends in a result, which describes the
  final state; the simulation is finished, well formed, and time has not gone back.
\<close>

lemma run_ends:
  assumes ok: "sim_ok (fst w)" and created: "sim_lifecycle (fst w) = Created"
    and ret: "run dispatcher w = Some (r, w')"
  shows "\<exists>res. r = Inr res \<and> sim_ok (fst w') \<and> sim_lifecycle (fst w') = Finished
     \<and> result_of res (fst w') \<and> sim_now (fst w) \<le> sim_now (fst w')
     \<and> (res_status res = StatusCompleted \<longrightarrow> sim_queue (fst w') = [])
     \<and> (res_status res = StatusStopped \<longrightarrow> res_stop_reason res \<noteq> None)"
proof -
  let ?w1 = "((fst w)\<lparr>sim_lifecycle := Running\<rparr>, snd w)"
  have started: "zoom_sim begin_run w = (Inr (), ?w1)"
    using created by (simp add: zoom_sim_def begin_run_def prog_defs)
  have ok1: "sim_ok (fst ?w1)" using ok by simp
  obtain x t where x: "emit_simulation_observation SimRunStarted None None (fst ?w1) = (x, t)"
    by (cases "emit_simulation_observation SimRunStarted None None (fst ?w1)")
  have "wp (emit_simulation_observation SimRunStarted None None) (\<lambda>_ t. quiet (fst ?w1) t)
      (\<lambda>_ t. quiet (fst ?w1) t) (fst ?w1)"
    by (rule quietlyD [OF quietly_emit_simulation_observation]) (use ok1 in \<open>simp add: sim_inv_def\<close>)
  with x have q: "quiet (fst ?w1) t" by (cases x) (simp_all add: wp_def)
  have okt: "sim_ok t" and runt: "sim_lifecycle t = Running" and nowt: "sim_now t = sim_now (fst w)"
    using sim_inv_quiet [OF ok1 q] quiet_fields [OF q] by simp_all
  have emit: "zoom_sim (emit_simulation_observation SimRunStarted None None) ?w1 = (x, t, snd w)"
    using x by (simp add: zoom_sim_def zoom_def)
  have fails: "\<exists>res. p = Inr res \<and> sim_ok (fst v') \<and> sim_lifecycle (fst v') = Finished
     \<and> result_of res (fst v') \<and> sim_now (fst v') = sim_now (fst v) \<and> res_status res = StatusFailed"
    if "zoom_sim (fail_run err) v = (p, v')" "sim_ok (fst v)" for err v p v'
    using that wp_fail_run [OF that(2), of err]
    by (cases "fail_run err (fst v)"; cases p) (auto simp: zoom_sim_def zoom_def wp_def)
  show ?thesis
  proof (cases x)
    case (Inl e)
    with ret started x have "zoom_sim (fail_run (what e)) (t, snd w) = (r, w')"
      using emit by (simp add: run_def)
    from fails [OF this] okt nowt show ?thesis by auto
  next
    case (Inr u)
    with ret started x obtain q2 where q2: "run_loop dispatcher (t, snd w) = Some q2"
        and r: "(case fst q2 of Inl e \<Rightarrow> zoom_sim (fail_run (what e)) (snd q2) | Inr res \<Rightarrow> (Inr res, snd q2)) = (r, w')"
      using emit by (auto simp: run_def case_prod_beta)
    from run_loop_ends [OF q2] okt runt have ends: "loop_ends t (fst q2) (fst (snd q2))" by simp
    show ?thesis
    proof (cases "fst q2")
      case (Inl e)
      with r have "zoom_sim (fail_run (what e)) (snd q2) = (r, w')" by simp
      from fails [OF this] ends nowt show ?thesis by (auto simp: loop_ends_def)
    next
      case (Inr res)
      with r have "r = Inr res" "w' = snd q2" by auto
      with ends Inr nowt show ?thesis by (auto simp: loop_ends_def result_of_def)
    qed
  qed
qed

end

lemma run_once: "sim_lifecycle (fst w) \<noteq> Created \<Longrightarrow>
  run d w = Some (Inl (LogicError ''simulation can only be run once''), w)"
  by (simp add: run_def zoom_sim_def begin_run_def prog_defs)

lemma context_op_zoom:
  assumes "context_op m" and "sim_ok (fst w)"
  shows "wp (zoom_sim m) (\<lambda>_ w'. sim_ok (fst w') \<and> context_frame (fst w) (fst w'))
           (\<lambda>_ w'. sim_ok (fst w') \<and> context_frame (fst w) (fst w')) w"
  using assms by (simp add: zoom_sim_def wp_simps context_op_def)

section \<open>Calls from outside a run\<close>

datatype kernel_call = CallSchedule event_spec | CallCancel event_id | CallStop stop_reason

primrec kernel_call_step :: "kernel_call \<Rightarrow> simulation \<Rightarrow> simulation" where
  "kernel_call_step (CallSchedule spec) s = snd (schedule spec s)"
| "kernel_call_step (CallCancel i) s = snd (cancel i s)"
| "kernel_call_step (CallStop r) s = snd (stop r s)"

lemma context_op_snd: "context_op m \<Longrightarrow> sim_inv k s \<Longrightarrow> sim_inv k (snd (m s)) \<and> context_frame s (snd (m s))"
  by (cases "m s"; cases "fst (m s)") (force simp: context_op_def wp_def)+

lemma kernel_call_step_inv: "sim_inv k s \<Longrightarrow> sim_inv k (kernel_call_step c s) \<and> context_frame s (kernel_call_step c s)"
  by (cases c) (simp_all add: context_op_snd context_op_schedule context_op_cancel context_op_stop)

lemma kernel_calls_inv: "sim_inv k s \<Longrightarrow> sim_inv k (fold kernel_call_step cs s)
    \<and> context_frame s (fold kernel_call_step cs s)"
proof (induction cs arbitrary: s)
  case (Cons c cs)
  from kernel_call_step_inv [OF Cons.prems, of c] Cons.IH [of "kernel_call_step c s"]
  show ?case by (auto intro: context_frame_trans)
qed simp

lemma new_simulation_ok: "session_ok ss \<Longrightarrow> sim_ok (new_simulation seed m sink ss)"
  by (simp add: sim_inv_def new_simulation_def queue_ok_def metadata_ok_def balanced_def log_ok_new
      new_id_generator_def id_position_def exI [of _ 0])

section \<open>Properties\<close>

text \<open>A telemetry session that is off, for the concrete inputs below.\<close>

definition off_session :: session where
  "off_session = \<lparr>configuration = \<lparr>mode = ModeOff, sample_interval_ns = 1,
       limits = \<lparr>metric_series = 1, decision_records = 1, domain_records = 1, max_samples = 1,
                 histogram_boundaries = 14, correlation_edges = 1, serialized_bytes = 1\<rparr>\<rparr>,
     summary = None, records = [], samples = [], last_timestamp = None,
     next_sample_timestamp = Some 1, retained_edges = 0, retained_decisions = 0,
     retained_domain_records = 0, next_record_id = 0, record_ids_exhausted = False,
     is_finalized = False\<rparr>"

lemma off_session_ok: "session_ok off_session"
  by (simp add: session_ok_def off_session_def retention_ok_def record_position_def id_position_def
      summary_agrees_def)

definition noop_spec :: "sim_time \<Rightarrow> event_spec" where
  "noop_spec t = \<lparr>spec_timestamp = t, spec_priority = Normal, spec_payload = NoOpEvent 0\<rparr>"

text \<open>C17. Whatever sequence of schedule, cancel and stop requests is made of a new simulation (any of
  them may throw), the kernel's books stay in order: queued identifiers are distinct, issued, and
  exactly the pending ones, cancelled ones are pending, no queued event is in the past, trace metadata
  matches the queue, and issued identifiers = dispatched + cancelled + live pending.\<close>

theorem kernel_invariant:
  assumes "session_ok ss" and "s = fold kernel_call_step cs (new_simulation seed tmode sink ss)"
  shows "queue_ok s \<and> metadata_ok s \<and> log_ok (sim_trace s) \<and> session_ok (sim_session s)
         \<and> (\<exists>d c. dispatched_events s = of_nat d \<and> cancelled_events s = of_nat c
              \<and> d + c + (card (pending_ids s) - card (cancelled_ids s)) = id_position (sim_event_ids s))
         \<and> sim_now s = 0 \<and> dispatched_events s = 0"
proof -
  have inv: "sim_ok s \<and> context_frame (new_simulation seed tmode sink ss) s"
    unfolding assms(2) by (rule kernel_calls_inv [OF new_simulation_ok [OF assms(1)]])
  then have "sim_now s = 0 \<and> dispatched_events s = 0"
    by (simp add: context_frame_def) (simp add: new_simulation_def)
  with inv show ?thesis by (simp add: sim_inv_def balanced_def)
qed

theorem kernel_invariant_witness:
  "let s = fold kernel_call_step [CallSchedule (noop_spec 5), CallCancel 0, CallSchedule (noop_spec 3)] (new_simulation 1 TraceDisabled False off_session)
   in queue_ok s \<and> map event_id (sim_queue s) = [1, 0]"
proof -
  let ?cs = "[CallSchedule (noop_spec 5), CallCancel 0, CallSchedule (noop_spec 3)]"
  let ?s = "fold kernel_call_step ?cs (new_simulation 1 TraceDisabled False off_session)"
  have "map event_id (sim_queue ?s) = [1, 0]"
    by code_simp
  with kernel_invariant [OF off_session_ok refl, of ?cs 1 TraceDisabled False] show ?thesis
    by (simp only: Let_def simp_thms)
qed

text \<open>C18. The event taken for dispatch is the least live event of the queue in the order (time,
  priority, identifier): it is queued, was not cancelled, precedes or equals every queued event that
  was not cancelled, and leaves the pending set; when none is taken, all queued events had been
  cancelled and the queue is drained. Time never moves backwards.\<close>

theorem dispatch_selects_least_live:
  assumes "sim_ok s" and "next_dispatchable_event s = (r, t)"
  shows "case r of
           None \<Rightarrow> sim_queue t = [] \<and> event_id ` set (sim_queue s) \<subseteq> cancelled_ids s
         | Some e \<Rightarrow> e \<in> set (sim_queue s) \<and> event_id e \<notin> cancelled_ids s \<and> sim_now s \<le> timestamp e
             \<and> (\<forall>x\<in>set (sim_queue s). event_id x \<notin> cancelled_ids s \<longrightarrow> event_key e \<le> event_key x)
             \<and> event_id e \<notin> pending_ids t \<and> sim_ok (dispatching e t)"
  using next_dispatchable_event_spec [OF assms] assms(1)
  by (auto simp: sim_inv_dispatching sim_inv_def [of _ s] queue_ok_def split: option.splits)

theorem dispatch_selects_least_live_witness:
  "let s = fold kernel_call_step [CallSchedule (noop_spec 5), CallSchedule (noop_spec 3), CallCancel 1]
             (new_simulation 1 TraceDisabled False off_session)
   in \<exists>e t. next_dispatchable_event s = (Some e, t) \<and> event_id e = 0 \<and> sim_ok (dispatching e t)"
proof -
  let ?cs = "[CallSchedule (noop_spec 5), CallSchedule (noop_spec 3), CallCancel 1]"
  define s where "s = fold kernel_call_step ?cs (new_simulation 1 TraceDisabled False off_session)"
  have ok: "sim_ok s"
    using kernel_calls_inv [OF new_simulation_ok [OF off_session_ok], of ?cs] by (simp add: s_def)
  have "map_option event_id (fst (next_dispatchable_event s)) = Some 0"
    unfolding s_def by code_simp
  then obtain e t where et: "next_dispatchable_event s = (Some e, t)" "event_id e = 0"
    by (cases "next_dispatchable_event s") auto
  with dispatch_selects_least_live [OF ok et(1)] show ?thesis unfolding Let_def s_def [symmetric] by auto
qed

text \<open>C19. Scheduling is exact about errors: it throws without any effect precisely when the simulation
  is finished, the time lies in the past, or the identifiers are exhausted; otherwise the event (with
  a fresh identifier and the event being dispatched as its cause) is queued and pending, and the
  identifier is returned unless reporting it to the telemetry session fails.\<close>

theorem schedule_exact:
  assumes "sim_ok s"
  shows "case schedule_rejection spec s of
           Some e \<Rightarrow> schedule spec s = (Inl e, s)
         | None \<Rightarrow> \<exists>r t. schedule spec s = (r, t) \<and> sim_ok t
             \<and> sim_queue t = spec_event s spec # sim_queue s
             \<and> event_id (spec_event s spec) \<notin> pending_ids s
             \<and> pending_ids t = insert (event_id (spec_event s spec)) (pending_ids s)
             \<and> cancelled_ids t = cancelled_ids s \<and> context_frame s t
             \<and> (\<forall>i. r = Inr i \<longrightarrow> i = event_id (spec_event s spec))"
proof (cases "schedule_rejection spec s")
  case (Some e)
  then show ?thesis by (simp add: schedule_rejected)
next
  case None
  then have g: "\<not> exhausted (sim_event_ids s)" "sim_now s \<le> spec_timestamp spec"
    by (auto simp: schedule_rejection_def split: if_splits)
  from schedule_accepted [OF assms None] obtain r t where rt: "schedule spec s = (r, t)"
    "quiet (scheduled spec s) t" "\<forall>i. r = Inr i \<longrightarrow> i = next_value (sim_event_ids s)" by blast
  have "sim_ok t" using sim_inv_scheduled [OF assms g] rt(2) by (rule sim_inv_quiet)
  moreover have "context_frame s t"
    using quiet_context_frame [OF rt(2)] by (simp add: context_frame_def scheduled_def Let_def)
  moreover have "next_value (sim_event_ids s) \<notin> pending_ids s"
    using assms g(1) by (intro queue_ok_fresh) (simp_all add: sim_inv_def)
  ultimately show ?thesis
    using None rt quiet_fields [OF rt(2)] by (simp add: scheduled_def spec_event_def Let_def)
qed

theorem schedule_exact_witness:
  "sim_ok (new_simulation 1 TraceEnabled False off_session)
   \<and> (\<exists>r t. schedule (noop_spec 9) (new_simulation 1 TraceEnabled False off_session) = (r, t) \<and> sim_ok t
        \<and> length (sim_queue t) = 1)"
  using schedule_exact [OF new_simulation_ok [OF off_session_ok], of "noop_spec 9" 1 TraceEnabled False]
    new_simulation_ok [OF off_session_ok, of 1 TraceEnabled False]
  by (auto simp: schedule_rejection_def new_simulation_def new_id_generator_def noop_spec_def)

text \<open>C20. Cancelling takes effect exactly once: for a pending event that was not cancelled before, in a
  simulation that is not finished, the event is marked and counted (and true is returned unless the
  telemetry report fails); every other request returns false and changes nothing.\<close>

theorem cancel_exact:
  assumes "sim_ok s"
  shows "if cancellable i s
         then \<exists>r t. cancel i s = (r, t) \<and> sim_ok t \<and> cancelled_ids t = insert i (cancelled_ids s)
                \<and> cancelled_events t = cancelled_events s + 1 \<and> sim_queue t = sim_queue s
                \<and> (\<forall>b. r = Inr b \<longrightarrow> b) \<and> \<not> cancellable i t
         else cancel i s = (Inr False, s)"
proof (cases "cancellable i s")
  case False
  then show ?thesis using cancel_ignored [OF assms] by simp
next
  case True
  from cancel_effective [OF assms True] obtain r t where rt: "cancel i s = (r, t)"
    "quiet (cancelled i s) t" "\<forall>b. r = Inr b \<longrightarrow> b" by blast
  have "sim_ok t" using sim_inv_cancelled [OF assms True] rt(2) by (rule sim_inv_quiet)
  with True rt quiet_fields [OF rt(2)] show ?thesis by (simp add: cancelled_def cancellable_def)
qed

theorem cancel_exact_witness:
  "sim_ok (new_simulation 1 TraceEnabled False off_session)
   \<and> cancel 4 (new_simulation 1 TraceEnabled False off_session)
       = (Inr False, new_simulation 1 TraceEnabled False off_session)"
  using cancel_exact [OF new_simulation_ok [OF off_session_ok], of 4 1 TraceEnabled False]
    new_simulation_ok [OF off_session_ok, of 1 TraceEnabled False]
  by (simp add: cancellable_def new_simulation_def)

end
