(* ===== verification/Link_Service.thy ===== *)
theory Link_Service
  imports Link_Queue Simulation
begin

text \<open>
  The service of a directed link (\<^verbatim>\<open>transport/link_service.hpp\<close>, \<^verbatim>\<open>transport/link_service.cpp\<close>,
  \<^verbatim>\<open>transport/statistics.hpp\<close>): a queue together with the completion event scheduled for the chunk in
  service, traffic counters and the busy time of the serializer. Its operations run in a simulation
  context, so they are programs over the simulation paired with the service.
\<close>

section \<open>Traffic counters\<close>

record traffic_count =
  traffic_bytes :: u64
  traffic_chunks :: u64

definition no_traffic :: traffic_count where
  "no_traffic = \<lparr>traffic_bytes = 0, traffic_chunks = 0\<rparr>"

definition one_chunk :: "transfer_chunk \<Rightarrow> traffic_count" where
  "one_chunk c = \<lparr>traffic_bytes = tc_bytes c, traffic_chunks = 1\<rparr>"

definition add_traffic :: "traffic_count \<Rightarrow> traffic_count \<Rightarrow> exn + traffic_count" where
  "add_traffic l r =
     (if traffic_bytes r > u64_max - traffic_bytes l \<or> traffic_chunks r > u64_max - traffic_chunks l
      then Inl (OverflowError ''transport counter overflow'')
      else Inr \<lparr>traffic_bytes = traffic_bytes l + traffic_bytes r,
                traffic_chunks = traffic_chunks l + traffic_chunks r\<rparr>)"

record link_statistics =
  ls_enqueued :: traffic_count
  ls_started :: traffic_count
  ls_completed :: traffic_count
  ls_marked :: traffic_count
  ls_dropped_buffer_full :: traffic_count
  ls_dropped_link_down :: traffic_count
  ls_busy_time :: sim_duration

definition no_statistics :: link_statistics where
  "no_statistics = \<lparr>ls_enqueued = no_traffic, ls_started = no_traffic, ls_completed = no_traffic,
     ls_marked = no_traffic, ls_dropped_buffer_full = no_traffic, ls_dropped_link_down = no_traffic,
     ls_busy_time = 0\<rparr>"

section \<open>The service\<close>

record link_service =
  svc_queue :: link_queue
  scheduled_completion :: "event_id option"
  svc_statistics :: link_statistics
  busy_since :: "sim_time option"

definition new_link_service :: "directed_link_configuration \<Rightarrow> exn + link_service" where
  "new_link_service c =
     bindR (new_link_queue c) (\<lambda>q.
     Inr \<lparr>svc_queue = q, scheduled_completion = None, svc_statistics = no_statistics, busy_since = None\<rparr>)"

definition completion_time ::
  "transfer_chunk \<Rightarrow> directed_link_configuration \<Rightarrow> sim_time \<Rightarrow> exn + sim_time" where
  "completion_time chunk config now =
     (case serialization_delay (tc_bytes chunk) (bandwidth config) of
        None \<Rightarrow> Inl (OverflowError ''serialization delay exceeds simulated-time range'')
      | Some delay \<Rightarrow>
          (case checked_add now delay of
             None \<Rightarrow> Inl (OverflowError ''serialization completion exceeds simulated-time range'')
           | Some time \<Rightarrow>
               if checked_add time (propagation_delay config) = None
               then Inl (OverflowError ''propagation arrival exceeds simulated-time range'')
               else Inr time))"

definition service_statistics :: "sim_time \<Rightarrow> link_service \<Rightarrow> exn + link_statistics" where
  "service_statistics now s =
     (case busy_since s of
        None \<Rightarrow> Inr (svc_statistics s)
      | Some since \<Rightarrow>
          (case checked_difference now since of
             None \<Rightarrow> Inl (InvalidArgument ''statistics time precedes active service'')
           | Some elapsed \<Rightarrow>
               (case checked_add (ls_busy_time (svc_statistics s)) elapsed of
                  None \<Rightarrow> Inl (OverflowError ''serializer busy time overflow'')
                | Some busy \<Rightarrow> Inr ((svc_statistics s)\<lparr>ls_busy_time := busy\<rparr>))))"

type_synonym service_state = "simulation \<times> link_service"

definition zoom_svc :: "(link_service, 'a) prog \<Rightarrow> (service_state, 'a) prog" where
  "zoom_svc = zoom snd (\<lambda>s w. (fst w, s))"

definition zoom_svc_queue :: "(link_queue, 'a) prog \<Rightarrow> (service_state, 'a) prog" where
  "zoom_svc_queue m = zoom_svc (zoom svc_queue (\<lambda>q s. s\<lparr>svc_queue := q\<rparr>) m)"

definition schedule_completion :: "transfer_chunk \<Rightarrow> (service_state, event_id) prog" where
  "schedule_completion chunk =
     bind (gets (\<lambda>(sim, s). (sim_now sim, lq_configuration (svc_queue s)))) (\<lambda>(now, config).
     bind (lift_res (completion_time chunk config now)) (\<lambda>time.
     zoom_sim (schedule \<lparr>spec_timestamp = time, spec_priority = Control,
       spec_payload = TransmissionCompleteEvent (dl_link (cfg_link config)) (tc_id chunk)
         (tc_hop_index chunk) (dl_direction (cfg_link config))\<rparr>)))"

text \<open>The counters after an admission, computed before anything is changed.\<close>

definition admission_statistics :: "transfer_chunk \<Rightarrow> link_service \<Rightarrow> exn + link_statistics" where
  "admission_statistics chunk s =
     (let count = one_chunk chunk; next = svc_statistics s; q = svc_queue s;
          threshold = marking_threshold (lq_configuration q); idle = (lq_active q = None);
          snapshot = queue_snapshot_of q;
          dropped = (\<not> idle \<and> tc_bytes chunk > waiting_buffer_capacity (lq_configuration q) - snap_waiting_bytes snapshot)
      in if dropped
         then bindR (add_traffic (ls_dropped_buffer_full next) count) (\<lambda>t. Inr (next\<lparr>ls_dropped_buffer_full := t\<rparr>))
         else bindR (add_traffic (ls_enqueued next) count) (\<lambda>t.
              let next = next\<lparr>ls_enqueued := t\<rparr>
              in if idle
                 then bindR (add_traffic (ls_started next) count) (\<lambda>t. Inr (next\<lparr>ls_started := t\<rparr>))
                 else case threshold of
                   None \<Rightarrow> Inr next
                 | Some limit \<Rightarrow>
                     if snap_waiting_bytes snapshot + tc_bytes chunk \<ge> limit
                     then bindR (add_traffic (ls_marked next) count) (\<lambda>t. Inr (next\<lparr>ls_marked := t\<rparr>))
                     else Inr next))"

definition service_admit :: "transfer_chunk \<Rightarrow> (service_state, admission_result) prog" where
  "service_admit chunk =
     seq (throw_if (tc_bytes chunk = 0) (InvalidArgument ''transfer chunk must contain nonzero bytes''))
    (bind (gets (\<lambda>(sim, s). (sim_now sim, s))) (\<lambda>(now, s).
     bind (lift_res (completion_time chunk (lq_configuration (svc_queue s)) now)) (\<lambda>_.
     bind (lift_res (admission_statistics chunk s)) (\<lambda>next.
     let idle = (lq_active (svc_queue s) = None)
     in bind (if idle then bind (schedule_completion chunk) (\<lambda>i. return (Some i)) else return None) (\<lambda>completion.
        bind (zoom_svc_queue (queue_admit chunk)) (\<lambda>result.
        seq (zoom_svc (modify (\<lambda>s. s\<lparr>svc_statistics := next\<rparr>)))
       (seq (perform_if idle (zoom_svc (modify (\<lambda>s. s\<lparr>scheduled_completion := completion, busy_since := Some now\<rparr>))))
            (return result))))))))"

text \<open>The counters after a completion.\<close>

definition completion_statistics :: "sim_time \<Rightarrow> transfer_chunk \<Rightarrow> link_service \<Rightarrow> exn + link_statistics" where
  "completion_statistics now act s =
     bindR (service_statistics now s) (\<lambda>next.
     bindR (add_traffic (ls_completed next) (one_chunk act)) (\<lambda>t.
     let next = next\<lparr>ls_completed := t\<rparr>
     in case next_waiting (svc_queue s) of
          None \<Rightarrow> Inr next
        | Some w \<Rightarrow> bindR (add_traffic (ls_started next) (one_chunk w)) (\<lambda>t. Inr (next\<lparr>ls_started := t\<rparr>))))"

definition service_handle_completion ::
  "link_id \<Rightarrow> chunk_id \<Rightarrow> u32 \<Rightarrow> link_direction \<Rightarrow> (service_state, service_transition) prog" where
  "service_handle_completion link chunk hop direction =
     bind (gets (scheduled_completion \<circ> snd)) (\<lambda>expected.
     bind (case expected of
             None \<Rightarrow> return True
           | Some i \<Rightarrow> bind (zoom_sim current_event_id) (\<lambda>cur. return (i \<noteq> cur))) (\<lambda>unexpected.
     seq (throw_if unexpected (LogicError ''unexpected transmission-completion event''))
    (bind (gets (\<lambda>(sim, s). (sim_now sim, s))) (\<lambda>(now, s).
     let config = lq_configuration (svc_queue s)
     in case lq_active (svc_queue s) of
          None \<Rightarrow> throw (LogicError ''transmission-completion event does not match active service'')
        | Some act \<Rightarrow>
            seq (throw_if (link \<noteq> dl_link (cfg_link config) \<or> direction \<noteq> dl_direction (cfg_link config)
                           \<or> chunk \<noteq> tc_id act \<or> hop \<noteq> tc_hop_index act)
                  (LogicError ''transmission-completion event does not match active service''))
           (bind (lift_res (completion_statistics now act s)) (\<lambda>next.
            bind (case next_waiting (svc_queue s) of
                    None \<Rightarrow> return None
                  | Some w \<Rightarrow> bind (schedule_completion w) (\<lambda>i. return (Some i))) (\<lambda>completion.
            bind (zoom_svc (zoom svc_queue (\<lambda>q s. s\<lparr>svc_queue := q\<rparr>)
                    (\<lambda>q. case complete_service q of (t, q') \<Rightarrow> (Inr t, q')))) (\<lambda>transition.
            case transition of
              None \<Rightarrow> throw (LogicError ''active service disappeared before completion'')
            | Some t \<Rightarrow>
                seq (zoom_svc (modify (\<lambda>s. s\<lparr>svc_statistics := next, scheduled_completion := completion,
                       busy_since := (if completion = None then None else Some now)\<rparr>)))
                    (return t)))))))))"

definition record_link_down :: "transfer_chunk \<Rightarrow> (link_service, unit) prog" where
  "record_link_down chunk =
     bind (gets (\<lambda>s. add_traffic (ls_dropped_link_down (svc_statistics s)) (one_chunk chunk))) (\<lambda>r.
     bind (lift_res r) (\<lambda>t.
     modify (\<lambda>s. s\<lparr>svc_statistics := (svc_statistics s)\<lparr>ls_dropped_link_down := t\<rparr>\<rparr>)))"

definition down_statistics :: "sim_time \<Rightarrow> link_service \<Rightarrow> exn + link_statistics" where
  "down_statistics now s =
     bindR (service_statistics now s) (\<lambda>next.
     let snapshot = queue_snapshot_of (svc_queue s);
         waiting = \<lparr>traffic_bytes = snap_waiting_bytes snapshot, traffic_chunks = of_nat (snap_waiting_chunks snapshot)\<rparr>
     in bindR (case lq_active (svc_queue s) of None \<Rightarrow> Inr waiting | Some act \<Rightarrow> add_traffic waiting (one_chunk act)) (\<lambda>dropped.
        bindR (add_traffic (ls_dropped_link_down next) dropped) (\<lambda>t. Inr (next\<lparr>ls_dropped_link_down := t\<rparr>))))"

definition reconcile_down :: "(service_state, queue_drain) prog" where
  "reconcile_down =
     bind (gets (\<lambda>(sim, s). (sim_now sim, s))) (\<lambda>(now, s).
     bind (lift_res (down_statistics now s)) (\<lambda>next.
     seq (case scheduled_completion s of
            None \<Rightarrow> return ()
          | Some i \<Rightarrow>
              bind (zoom_sim (cancel i)) (\<lambda>ok.
              throw_if (\<not> ok) (LogicError ''active transmission completion could not be cancelled'')))
    (bind (zoom_svc_queue (\<lambda>q. case drain_queue q of (d, q') \<Rightarrow> (Inr d, q'))) (\<lambda>drained.
     seq (zoom_svc (modify (\<lambda>s. s\<lparr>scheduled_completion := None, busy_since := None, svc_statistics := next\<rparr>)))
         (return drained)))))"

end
