(* ===== verification/Topology_Graph.thy ===== *)
theory Topology_Graph
  imports Entities
begin

text \<open>
  The topology graph (\<^verbatim>\<open>topology/graph.hpp\<close>, \<^verbatim>\<open>topology/graph.cpp\<close>): racks, NICs, GPUs, switches,
  ports and links in vectors indexed by their identifiers, an adjacency list of directed links per
  node, operational states with a revision counter, and breadth-first shortest paths.
\<close>

section \<open>State\<close>

record topology_graph =
  gpu_ids :: id_generator
  nic_ids :: id_generator
  switch_ids :: id_generator
  rack_ids :: id_generator
  port_ids :: id_generator
  link_ids :: id_generator
  operational_revision :: u64
  gpus :: "gpu_worker list"
  nics :: "nic list"
  switches :: "switch list"
  racks :: "rack list"
  ports :: "port list"
  links :: "physical_link list"
  gpu_adjacency :: "directed_link list list"
  nic_adjacency :: "directed_link list list"
  switch_adjacency :: "directed_link list list"

definition empty_graph :: topology_graph where
  "empty_graph = \<lparr>gpu_ids = new_id_generator 0, nic_ids = new_id_generator 0,
     switch_ids = new_id_generator 0, rack_ids = new_id_generator 0, port_ids = new_id_generator 0,
     link_ids = new_id_generator 0, operational_revision = 0, gpus = [], nics = [], switches = [],
     racks = [], ports = [], links = [], gpu_adjacency = [], nic_adjacency = [], switch_adjacency = []\<rparr>"

section \<open>Lookups\<close>

text \<open>The comparison with the largest \<^verbatim>\<open>size_t\<close> is never true for a 64-bit identifier.\<close>

definition find_dense :: "('e \<Rightarrow> u64) \<Rightarrow> 'e list \<Rightarrow> u64 \<Rightarrow> 'e option" where
  "find_dense idf es i =
     (let index = unat i
      in if index \<ge> length es \<or> idf (es ! index) \<noteq> i then None else Some (es ! index))"

definition find_gpu :: "topology_graph \<Rightarrow> gpu_id \<Rightarrow> gpu_worker option" where
  "find_gpu g = find_dense gpu_id (gpus g)"

definition find_nic :: "topology_graph \<Rightarrow> nic_id \<Rightarrow> nic option" where
  "find_nic g = find_dense nic_id (nics g)"

definition find_switch :: "topology_graph \<Rightarrow> switch_id \<Rightarrow> switch option" where
  "find_switch g = find_dense switch_id (switches g)"

definition find_rack :: "topology_graph \<Rightarrow> rack_id \<Rightarrow> rack option" where
  "find_rack g = find_dense rack_id (racks g)"

definition find_port :: "topology_graph \<Rightarrow> port_id \<Rightarrow> port option" where
  "find_port g = find_dense port_id (ports g)"

definition find_link :: "topology_graph \<Rightarrow> link_id \<Rightarrow> physical_link option" where
  "find_link g = find_dense link_id (links g)"

definition contains_node :: "topology_graph \<Rightarrow> node_id \<Rightarrow> bool" where
  "contains_node g n =
     (case kind n of
        Gpu \<Rightarrow> find_gpu g (node_value n) \<noteq> None
      | Nic \<Rightarrow> find_nic g (node_value n) \<noteq> None
      | Switch \<Rightarrow> find_switch g (node_value n) \<noteq> None)"

definition node_is_operational :: "topology_graph \<Rightarrow> node_id \<Rightarrow> bool" where
  "node_is_operational g n =
     (if \<not> contains_node g n then False
      else if kind n \<noteq> Switch then True
      else (case find_switch g (node_value n) of
              None \<Rightarrow> False
            | Some s \<Rightarrow> switch_state s = Up))"

definition is_operational :: "topology_graph \<Rightarrow> directed_link \<Rightarrow> bool" where
  "is_operational g d =
     (case (find_link g (dl_link (arc_id d)), find_port g (arc_source d), find_port g (arc_destination d)) of
        (Some l, Some src, Some dst) \<Rightarrow>
          d \<in> set (directed_links l) \<and> link_state l = Up \<and> port_state src = Up \<and> port_state dst = Up
          \<and> node_is_operational g (port_owner src) \<and> node_is_operational g (port_owner dst)
      | _ \<Rightarrow> False)"

definition adjacency_lists :: "topology_graph \<Rightarrow> node_kind \<Rightarrow> directed_link list list" where
  "adjacency_lists g k =
     (case k of Gpu \<Rightarrow> gpu_adjacency g | Nic \<Rightarrow> nic_adjacency g | Switch \<Rightarrow> switch_adjacency g)"

definition outgoing :: "topology_graph \<Rightarrow> node_id \<Rightarrow> exn + directed_link list" where
  "outgoing g n =
     (if \<not> contains_node g n
      then Inl (OutOfRange ''cannot query adjacency for an unknown topology node'')
      else Inr (adjacency_lists g (kind n) ! unat (node_value n)))"

fun connects_to :: "topology_graph \<Rightarrow> node_id \<Rightarrow> directed_link list \<Rightarrow> exn + bool" where
  "connects_to g b [] = Inr False"
| "connects_to g b (d # ds) =
     (case find_port g (arc_destination d) of
        None \<Rightarrow> Inl (LogicError ''topology adjacency references an unknown port'')
      | Some p \<Rightarrow> if port_owner p = b then Inr True else connects_to g b ds)"

definition directly_connected :: "topology_graph \<Rightarrow> node_id \<Rightarrow> node_id \<Rightarrow> exn + bool" where
  "directly_connected g a b = bindR (outgoing g a) (connects_to g b)"

section \<open>Building\<close>

definition next_gpu_id :: "(topology_graph, gpu_id) prog" where
  "next_gpu_id = zoom gpu_ids (\<lambda>i g. g\<lparr>gpu_ids := i\<rparr>) topology_id_next"

definition next_nic_id :: "(topology_graph, nic_id) prog" where
  "next_nic_id = zoom nic_ids (\<lambda>i g. g\<lparr>nic_ids := i\<rparr>) topology_id_next"

definition next_switch_id :: "(topology_graph, switch_id) prog" where
  "next_switch_id = zoom switch_ids (\<lambda>i g. g\<lparr>switch_ids := i\<rparr>) topology_id_next"

definition next_rack_id :: "(topology_graph, rack_id) prog" where
  "next_rack_id = zoom rack_ids (\<lambda>i g. g\<lparr>rack_ids := i\<rparr>) topology_id_next"

definition next_port_id :: "(topology_graph, port_id) prog" where
  "next_port_id = zoom port_ids (\<lambda>i g. g\<lparr>port_ids := i\<rparr>) topology_id_next"

definition next_link_id :: "(topology_graph, link_id) prog" where
  "next_link_id = zoom link_ids (\<lambda>i g. g\<lparr>link_ids := i\<rparr>) topology_id_next"

definition update_nth :: "nat \<Rightarrow> ('e \<Rightarrow> 'e) \<Rightarrow> 'e list \<Rightarrow> 'e list" where
  "update_nth i f xs = xs[i := f (xs ! i)]"

text \<open>
  \<^verbatim>\<open>vector::at\<close> throws \<^verbatim>\<open>out_of_range\<close>; the text of that exception is the library's own.
\<close>

definition push_adjacency :: "node_id \<Rightarrow> directed_link \<Rightarrow> (topology_graph, unit) prog" where
  "push_adjacency n d =
     bind (gets (\<lambda>g. length (adjacency_lists g (kind n)))) (\<lambda>len.
     seq (throw_if (unat (node_value n) \<ge> len) (OutOfRange ''vector::at''))
         (modify (\<lambda>g. case kind n of
            Gpu \<Rightarrow> g\<lparr>gpu_adjacency := update_nth (unat (node_value n)) (\<lambda>ds. ds @ [d]) (gpu_adjacency g)\<rparr>
          | Nic \<Rightarrow> g\<lparr>nic_adjacency := update_nth (unat (node_value n)) (\<lambda>ds. ds @ [d]) (nic_adjacency g)\<rparr>
          | Switch \<Rightarrow> g\<lparr>switch_adjacency := update_nth (unat (node_value n)) (\<lambda>ds. ds @ [d]) (switch_adjacency g)\<rparr>)))"

definition append_link :: "physical_link \<Rightarrow> node_id \<Rightarrow> node_id \<Rightarrow> (topology_graph, unit) prog" where
  "append_link l a b =
     seq (modify (\<lambda>g. g\<lparr>links := links g @ [l]\<rparr>))
    (seq (push_adjacency a (directed_link_a_to_b l))
         (push_adjacency b (directed_link_b_to_a l)))"

definition append_owner_port :: "node_id \<Rightarrow> port_id \<Rightarrow> (topology_graph, unit) prog" where
  "append_owner_port n p =
     (case kind n of
        Gpu \<Rightarrow> throw (LogicError ''GPU workers have exactly one local port'')
      | Nic \<Rightarrow>
          bind (gets (\<lambda>g. length (nics g))) (\<lambda>len.
          seq (throw_if (unat (node_value n) \<ge> len) (OutOfRange ''vector::at''))
              (modify (\<lambda>g. g\<lparr>nics := update_nth (unat (node_value n))
                 (\<lambda>x. x\<lparr>nic_ports := nic_ports x @ [p]\<rparr>) (nics g)\<rparr>)))
      | Switch \<Rightarrow>
          bind (gets (\<lambda>g. length (switches g))) (\<lambda>len.
          seq (throw_if (unat (node_value n) \<ge> len) (OutOfRange ''vector::at''))
              (modify (\<lambda>g. g\<lparr>switches := update_nth (unat (node_value n))
                 (\<lambda>x. x\<lparr>switch_ports := switch_ports x @ [p]\<rparr>) (switches g)\<rparr>))))"

definition add_rack :: "(topology_graph, rack_id) prog" where
  "add_rack =
     bind next_rack_id (\<lambda>i.
     seq (modify (\<lambda>g. g\<lparr>racks := racks g @ [\<lparr>rack_id = i, rack_gpus = [], rack_nics = [], leaf_switches = []\<rparr>]\<rparr>))
         (return i))"

definition add_nic :: "rack_id \<Rightarrow> (topology_graph, nic_id) prog" where
  "add_nic r =
     bind (gets (\<lambda>g. find_rack g r)) (\<lambda>found.
     seq (throw_if (found = None) (InvalidArgument ''cannot add NIC to an unknown rack''))
    (bind next_nic_id (\<lambda>i.
     seq (modify (\<lambda>g. g\<lparr>nics := nics g @ [\<lparr>nic_id = i, nic_rack = r, attached_gpus = [], nic_ports = []\<rparr>],
                         nic_adjacency := nic_adjacency g @ [[]],
                         racks := update_nth (unat r) (\<lambda>x. x\<lparr>rack_nics := rack_nics x @ [i]\<rparr>) (racks g)\<rparr>))
         (return i))))"

definition add_gpu :: "nic_id \<Rightarrow> (topology_graph, gpu_id) prog" where
  "add_gpu n =
     bind (gets (\<lambda>g. find_nic g n)) (\<lambda>found.
     case found of
       None \<Rightarrow> throw (InvalidArgument ''cannot add GPU to an unknown NIC'')
     | Some nic_entity \<Rightarrow>
         bind next_gpu_id (\<lambda>i.
         bind next_port_id (\<lambda>gport.
         bind next_port_id (\<lambda>nport.
         bind next_link_id (\<lambda>l.
         let r = nic_rack nic_entity
         in seq (modify (\<lambda>g. g\<lparr>gpus := gpus g @ [\<lparr>gpu_id = i, gpu_rack = r, attached_nic = n, gpu_port = gport\<rparr>],
              gpu_adjacency := gpu_adjacency g @ [[]],
              nics := update_nth (unat n) (\<lambda>x. x\<lparr>attached_gpus := attached_gpus x @ [i],
                                                 nic_ports := nic_ports x @ [nport]\<rparr>) (nics g),
              racks := update_nth (unat r) (\<lambda>x. x\<lparr>rack_gpus := rack_gpus x @ [i]\<rparr>) (racks g),
              ports := ports g @ [\<lparr>port_id = gport, port_owner = NodeId Gpu i, port_role = Local, port_state = Up\<rparr>,
                                  \<lparr>port_id = nport, port_owner = NodeId Nic n, port_role = Local, port_state = Up\<rparr>]\<rparr>))
           (seq (append_link \<lparr>link_id = l, endpoint_a = gport, endpoint_b = nport,
                   link_kind = LocalAttachment, link_state = Up\<rparr> (NodeId Gpu i) (NodeId Nic n))
                (return i)))))))"

definition add_leaf_switch :: "rack_id \<Rightarrow> (topology_graph, switch_id) prog" where
  "add_leaf_switch r =
     bind (gets (\<lambda>g. find_rack g r)) (\<lambda>found.
     seq (throw_if (found = None) (InvalidArgument ''cannot add leaf switch to an unknown rack''))
    (bind next_switch_id (\<lambda>i.
     seq (modify (\<lambda>g. g\<lparr>switches := switches g @ [\<lparr>switch_id = i, switch_rack = Some r, switch_role = Leaf,
                           switch_ports = [], switch_state = Up\<rparr>],
                         switch_adjacency := switch_adjacency g @ [[]],
                         racks := update_nth (unat r) (\<lambda>x. x\<lparr>leaf_switches := leaf_switches x @ [i]\<rparr>) (racks g)\<rparr>))
         (return i))))"

definition add_spine_switch :: "(topology_graph, switch_id) prog" where
  "add_spine_switch =
     bind next_switch_id (\<lambda>i.
     seq (modify (\<lambda>g. g\<lparr>switches := switches g @ [\<lparr>switch_id = i, switch_rack = None, switch_role = Spine,
                           switch_ports = [], switch_state = Up\<rparr>],
                         switch_adjacency := switch_adjacency g @ [[]]\<rparr>))
         (return i))"

definition connect_fabric :: "node_id \<Rightarrow> port_role \<Rightarrow> node_id \<Rightarrow> port_role \<Rightarrow> (topology_graph, link_id) prog" where
  "connect_fabric a role_a b role_b =
     bind (gets (\<lambda>g. contains_node g a \<and> contains_node g b)) (\<lambda>known.
     seq (throw_if (\<not> known) (InvalidArgument ''cannot connect an unknown topology node''))
    (seq (throw_if (a = b) (InvalidArgument ''cannot connect a topology node to itself''))
    (seq (throw_if (kind a = Gpu \<or> kind b = Gpu)
            (InvalidArgument ''GPU fabric connections must use the attached NIC''))
    (seq (throw_if (role_a = Local \<or> role_b = Local)
            (InvalidArgument ''fabric connections require fabric port roles''))
    (bind (gets (\<lambda>g. directly_connected g a b)) (\<lambda>r.
     bind (lift_res r) (\<lambda>connected.
     seq (throw_if connected (InvalidArgument ''parallel physical links are not supported''))
    (bind next_port_id (\<lambda>pa.
     bind next_port_id (\<lambda>pb.
     bind next_link_id (\<lambda>l.
     seq (append_owner_port a pa)
    (seq (append_owner_port b pb)
    (seq (modify (\<lambda>g. g\<lparr>ports := ports g @
             [\<lparr>port_id = pa, port_owner = a, port_role = role_a, port_state = Up\<rparr>,
              \<lparr>port_id = pb, port_owner = b, port_role = role_b, port_state = Up\<rparr>]\<rparr>))
    (seq (append_link \<lparr>link_id = l, endpoint_a = pa, endpoint_b = pb, link_kind = Fabric, link_state = Up\<rparr> a b)
         (return l)))))))))))))))"

section \<open>Operational states\<close>

text \<open>
  The tests that the new state is \<^verbatim>\<open>Up\<close> or \<^verbatim>\<open>Down\<close> cannot fail for a value of the enumeration.
\<close>

definition set_link_state :: "link_id \<Rightarrow> operational_state \<Rightarrow> topology_graph \<Rightarrow> bool \<times> topology_graph" where
  "set_link_state i st g =
     (case find_link g i of
        None \<Rightarrow> (False, g)
      | Some l \<Rightarrow>
          if link_state l \<noteq> st
          then if operational_revision g = u64_max then (False, g)
               else (True, g\<lparr>operational_revision := operational_revision g + 1,
                             links := update_nth (unat i) (\<lambda>x. x\<lparr>link_state := st\<rparr>) (links g)\<rparr>)
          else (True, g))"

definition set_port_state :: "port_id \<Rightarrow> operational_state \<Rightarrow> topology_graph \<Rightarrow> bool \<times> topology_graph" where
  "set_port_state i st g =
     (case find_port g i of
        None \<Rightarrow> (False, g)
      | Some p \<Rightarrow>
          if port_state p \<noteq> st
          then if operational_revision g = u64_max then (False, g)
               else (True, g\<lparr>operational_revision := operational_revision g + 1,
                             ports := update_nth (unat i) (\<lambda>x. x\<lparr>port_state := st\<rparr>) (ports g)\<rparr>)
          else (True, g))"

definition set_switch_state :: "switch_id \<Rightarrow> operational_state \<Rightarrow> topology_graph \<Rightarrow> bool \<times> topology_graph" where
  "set_switch_state i st g =
     (case find_switch g i of
        None \<Rightarrow> (False, g)
      | Some s \<Rightarrow>
          if switch_state s \<noteq> st
          then if operational_revision g = u64_max then (False, g)
               else (True, g\<lparr>operational_revision := operational_revision g + 1,
                             switches := update_nth (unat i) (\<lambda>x. x\<lparr>switch_state := st\<rparr>) (switches g)\<rparr>)
          else (True, g))"

section \<open>The invariant\<close>

definition dense :: "('e \<Rightarrow> u64) \<Rightarrow> 'e list \<Rightarrow> bool" where
  "dense idf xs \<longleftrightarrow> (\<forall>i<length xs. unat (idf (xs ! i)) = i)"

definition adjacent :: "topology_graph \<Rightarrow> node_id \<Rightarrow> directed_link list" where
  "adjacent g n = adjacency_lists g (kind n) ! unat (node_value n)"

definition source_owner :: "topology_graph \<Rightarrow> directed_link \<Rightarrow> node_id option" where
  "source_owner g d = map_option port_owner (find_port g (arc_source d))"

text \<open>
  Entities sit at the index of their identifier and the generators are at the ends of the vectors
  (a GPU identifier is lost only when the port identifiers have run out); link \<open>i\<close> joins the ports
  \<open>2 i\<close> and \<open>2 i + 1\<close>; port owners exist; and the adjacency list of a node holds exactly the directed
  links that leave one of its ports, in the order in which the links were made.
\<close>

definition ids_ok :: "topology_graph \<Rightarrow> bool" where
  "ids_ok g \<longleftrightarrow>
     dense gpu_id (gpus g) \<and> dense nic_id (nics g) \<and> dense switch_id (switches g)
     \<and> dense rack_id (racks g) \<and> dense port_id (ports g) \<and> dense link_id (links g)
     \<and> length (nics g) = id_position (nic_ids g) \<and> length (switches g) = id_position (switch_ids g)
     \<and> length (racks g) = id_position (rack_ids g) \<and> length (ports g) = id_position (port_ids g)
     \<and> length (links g) = id_position (link_ids g) \<and> length (ports g) = 2 * length (links g)
     \<and> (if exhausted (port_ids g) then length (gpus g) \<le> id_position (gpu_ids g)
        else length (gpus g) = id_position (gpu_ids g))
     \<and> length (gpu_adjacency g) = length (gpus g) \<and> length (nic_adjacency g) = length (nics g)
     \<and> length (switch_adjacency g) = length (switches g)"

definition wiring_ok :: "topology_graph \<Rightarrow> bool" where
  "wiring_ok g \<longleftrightarrow>
     (\<forall>p\<in>set (ports g). contains_node g (port_owner p))
     \<and> (\<forall>i<length (links g). unat (endpoint_a (links g ! i)) = 2 * i
          \<and> unat (endpoint_b (links g ! i)) = Suc (2 * i))
     \<and> (\<forall>n. contains_node g n \<longrightarrow>
          adjacent g n = filter (\<lambda>d. source_owner g d = Some n) (concat (map directed_links (links g))))"

definition graph_ok :: "topology_graph \<Rightarrow> bool" where
  "graph_ok g \<longleftrightarrow> ids_ok g \<and> wiring_ok g"

section \<open>Lemmas: lookups\<close>

lemma dense_Nil [simp]: "dense idf []"
  by (simp add: dense_def)

lemma dense_snoc: "dense idf xs \<Longrightarrow> unat (idf x) = length xs \<Longrightarrow> dense idf (xs @ [x])"
  by (auto simp: dense_def nth_append less_Suc_eq)

lemma dense_update: "dense idf xs \<Longrightarrow> (\<And>x. idf (f x) = idf x) \<Longrightarrow> dense idf (update_nth i f xs)"
  by (cases "i < length xs") (auto simp: dense_def update_nth_def nth_list_update list_update_beyond)

lemma length_update_nth [simp]: "length (update_nth i f xs) = length xs"
  by (simp add: update_nth_def)

lemma map_update_nth: "(\<And>x. f (u x) = f x) \<Longrightarrow> map f (update_nth i u xs) = map f xs"
  by (cases "i < length xs") (auto simp: update_nth_def nth_list_update list_update_beyond intro!: nth_equalityI)

lemma find_dense_eq:
  assumes "dense idf xs"
  shows "find_dense idf xs i = (if unat i < length xs then Some (xs ! unat i) else None)"
proof -
  have "idf (xs ! unat i) = i" if "unat i < length xs"
    using assms that by (simp add: dense_def word_unat_eq_iff)
  then show ?thesis by (simp add: find_dense_def Let_def)
qed

lemmas find_defs = find_gpu_def find_nic_def find_switch_def find_rack_def find_port_def find_link_def

lemma find_eqs:
  assumes "ids_ok g"
  shows "find_gpu g i = (if unat i < length (gpus g) then Some (gpus g ! unat i) else None)"
    "find_nic g i = (if unat i < length (nics g) then Some (nics g ! unat i) else None)"
    "find_switch g i = (if unat i < length (switches g) then Some (switches g ! unat i) else None)"
    "find_rack g i = (if unat i < length (racks g) then Some (racks g ! unat i) else None)"
    "find_port g i = (if unat i < length (ports g) then Some (ports g ! unat i) else None)"
    "find_link g i = (if unat i < length (links g) then Some (links g ! unat i) else None)"
  using assms by (simp_all add: find_defs ids_ok_def find_dense_eq)

definition entity_count :: "topology_graph \<Rightarrow> node_kind \<Rightarrow> nat" where
  "entity_count g k = (case k of Gpu \<Rightarrow> length (gpus g) | Nic \<Rightarrow> length (nics g) | Switch \<Rightarrow> length (switches g))"

lemma contains_node_iff:
  "ids_ok g \<Longrightarrow> contains_node g n \<longleftrightarrow> unat (node_value n) < entity_count g (kind n)"
  by (cases "kind n") (simp_all add: contains_node_def find_eqs entity_count_def)

lemma length_adjacency_lists: "ids_ok g \<Longrightarrow> length (adjacency_lists g k) = entity_count g k"
  by (cases k) (simp_all add: ids_ok_def adjacency_lists_def entity_count_def)

lemma exhausted_iff: "exhausted i \<longleftrightarrow> id_position i = 2 ^ 64"
  using unat_u64_bound [of "next_value i"] by (auto simp: id_position_def)

lemma next_value_position: "\<not> exhausted i \<Longrightarrow> unat (next_value i) = id_position i"
  by (simp add: id_position_def)

text \<open>Ports are issued in pairs, so a first port identifier implies a second and a link identifier.\<close>

lemma port_pair:
  assumes "ids_ok g" and "\<not> exhausted (port_ids g)"
  shows "\<not> exhausted (issue_id (port_ids g))" and "\<not> exhausted (link_ids g)"
proof -
  have "id_position (port_ids g) = 2 * length (links g)" "id_position (link_ids g) = length (links g)"
    using assms(1) by (simp_all add: ids_ok_def)
  moreover have "id_position (port_ids g) < 2 ^ 64"
    using assms(2) id_position_bound [of "port_ids g"] by (simp add: exhausted_iff)
  moreover have "(2 :: nat) ^ 64 = 2 * 2 ^ 63" by simp
  ultimately have lt: "length (links g) < 2 ^ 63" by linarith
  then show "\<not> exhausted (link_ids g)"
    using \<open>id_position (link_ids g) = length (links g)\<close> by (simp add: exhausted_iff)
  show "\<not> exhausted (issue_id (port_ids g))"
    using lt \<open>id_position (port_ids g) = 2 * length (links g)\<close> assms(2)
    by (simp add: exhausted_iff id_position_issue)
qed

section \<open>Lemmas: building\<close>

definition push_at :: "node_id \<Rightarrow> directed_link \<Rightarrow> topology_graph \<Rightarrow> topology_graph" where
  "push_at n d g =
     (case kind n of
        Gpu \<Rightarrow> g\<lparr>gpu_adjacency := update_nth (unat (node_value n)) (\<lambda>ds. ds @ [d]) (gpu_adjacency g)\<rparr>
      | Nic \<Rightarrow> g\<lparr>nic_adjacency := update_nth (unat (node_value n)) (\<lambda>ds. ds @ [d]) (nic_adjacency g)\<rparr>
      | Switch \<Rightarrow> g\<lparr>switch_adjacency := update_nth (unat (node_value n)) (\<lambda>ds. ds @ [d]) (switch_adjacency g)\<rparr>)"

lemma push_adjacency_eq:
  "unat (node_value n) < length (adjacency_lists g (kind n)) \<Longrightarrow>
   push_adjacency n d g = (Inr (), push_at n d g)"
  by (cases "kind n") (simp_all add: push_adjacency_def prog_defs push_at_def)

lemma push_at_fields [simp]:
  "gpus (push_at n d g) = gpus g" "nics (push_at n d g) = nics g" "switches (push_at n d g) = switches g"
  "racks (push_at n d g) = racks g" "ports (push_at n d g) = ports g" "links (push_at n d g) = links g"
  "gpu_ids (push_at n d g) = gpu_ids g" "nic_ids (push_at n d g) = nic_ids g"
  "switch_ids (push_at n d g) = switch_ids g" "rack_ids (push_at n d g) = rack_ids g"
  "port_ids (push_at n d g) = port_ids g" "link_ids (push_at n d g) = link_ids g"
  "operational_revision (push_at n d g) = operational_revision g"
  "length (gpu_adjacency (push_at n d g)) = length (gpu_adjacency g)"
  "length (nic_adjacency (push_at n d g)) = length (nic_adjacency g)"
  "length (switch_adjacency (push_at n d g)) = length (switch_adjacency g)"
  "length (adjacency_lists (push_at n d g) k) = length (adjacency_lists g k)"
  by (cases "kind n"; cases k; simp add: push_at_def adjacency_lists_def)+

lemma adjacent_push_at:
  assumes "unat (node_value m) < length (adjacency_lists g (kind m))"
  shows "adjacent (push_at n d g) m = adjacent g m @ (if m = n then [d] else [])"
proof -
  have "m = n \<longleftrightarrow> kind m = kind n \<and> unat (node_value m) = unat (node_value n)"
    by (cases m; cases n) (simp add: word_unat_eq_iff)
  then show ?thesis
    using assms
    by (cases "kind n"; cases "kind m")
      (auto simp: adjacent_def push_at_def adjacency_lists_def update_nth_def nth_list_update)
qed

definition linked ::
  "node_id \<Rightarrow> port_role \<Rightarrow> node_id \<Rightarrow> port_role \<Rightarrow> link_kind \<Rightarrow> topology_graph \<Rightarrow> topology_graph" where
  "linked a ra b rb k g =
     (let pa = next_value (port_ids g); pb = next_value (issue_id (port_ids g));
          l = \<lparr>link_id = next_value (link_ids g), endpoint_a = pa, endpoint_b = pb, link_kind = k, link_state = Up\<rparr>
      in push_at b (directed_link_b_to_a l) (push_at a (directed_link_a_to_b l)
           (g\<lparr>port_ids := issue_id (issue_id (port_ids g)), link_ids := issue_id (link_ids g),
              ports := ports g @ [\<lparr>port_id = pa, port_owner = a, port_role = ra, port_state = Up\<rparr>,
                                  \<lparr>port_id = pb, port_owner = b, port_role = rb, port_state = Up\<rparr>],
              links := links g @ [l]\<rparr>)))"

lemma ids_ok_linked:
  assumes ok: "ids_ok g" and ne: "\<not> exhausted (port_ids g)"
  shows "ids_ok (linked a ra b rb k g)"
proof -
  note pp = port_pair [OF ok ne]
  have pos: "id_position (issue_id (issue_id (port_ids g))) = Suc (Suc (id_position (port_ids g)))"
      "id_position (issue_id (link_ids g)) = Suc (id_position (link_ids g))"
    using ne pp by (simp_all add: id_position_issue)
  have ids: "unat (next_value (port_ids g)) = length (ports g)"
      "unat (next_value (issue_id (port_ids g))) = Suc (length (ports g))"
      "unat (next_value (link_ids g)) = length (links g)"
    using ne pp ok by (simp_all add: next_value_position id_position_issue ids_ok_def)
  have "dense port_id (ports g @ [x, y])" if "unat (port_id x) = length (ports g)"
      "unat (port_id y) = Suc (length (ports g))" for x y
    using dense_snoc [OF dense_snoc [of port_id "ports g" x], of y] that ok by (simp add: ids_ok_def)
  then show ?thesis
    using ok pos ids ne unfolding ids_ok_def linked_def Let_def
    by (auto intro!: dense_snoc)
qed

lemma find_port_append:
  assumes "ids_ok g" and "ids_ok h" and "ports h = ports g @ ps" and "unat p < length (ports g)"
  shows "find_port h p = find_port g p"
  using assms by (simp add: find_eqs nth_append)

lemma unat_endpoints:
  assumes "wiring_ok g" and "d \<in> set (concat (map directed_links (links g)))"
  shows "unat (arc_source d) < 2 * length (links g)" "unat (arc_destination d) < 2 * length (links g)"
proof -
  from assms(2) obtain l where l: "l \<in> set (links g)" "d \<in> set (directed_links l)" by auto
  then obtain i where i: "i < length (links g)" "l = links g ! i" by (auto simp: in_set_conv_nth)
  with assms(1) have "unat (endpoint_a l) = 2 * i" "unat (endpoint_b l) = Suc (2 * i)"
    by (simp_all add: wiring_ok_def)
  with l(2) i(1) show "unat (arc_source d) < 2 * length (links g)"
      "unat (arc_destination d) < 2 * length (links g)"
    by (auto simp: directed_links_def directed_link_a_to_b_def directed_link_b_to_a_def)
qed

lemma filter_owner_pair:
  "so x = Some a \<Longrightarrow> so y = Some b \<Longrightarrow>
   filter (\<lambda>d. so d = Some n) [x, y] = (if n = a then [x] else []) @ (if n = b then [y] else [])"
  by auto

lemma wiring_ok_linked:
  assumes ok: "ids_ok g" and wire: "wiring_ok g" and ne: "\<not> exhausted (port_ids g)"
    and nodes: "contains_node g a" "contains_node g b"
  shows "wiring_ok (linked a ra b rb k g)"
proof -
  let ?h = "linked a ra b rb k g"
  have okh: "ids_ok ?h" using ok ne by (rule ids_ok_linked)
  let ?pa = "next_value (port_ids g)" and ?pb = "next_value (issue_id (port_ids g))"
  let ?l = "\<lparr>link_id = next_value (link_ids g), endpoint_a = ?pa, endpoint_b = ?pb, link_kind = k, link_state = Up\<rparr>"
  let ?xa = "\<lparr>port_id = ?pa, port_owner = a, port_role = ra, port_state = Up\<rparr>"
  let ?xb = "\<lparr>port_id = ?pb, port_owner = b, port_role = rb, port_state = Up\<rparr>"
  have fields: "ports ?h = ports g @ [?xa, ?xb]" "links ?h = links g @ [?l]"
    by (simp_all add: linked_def Let_def)
  have cont: "contains_node ?h n = contains_node g n" for n
    using ok okh by (cases "kind n") (simp_all add: contains_node_iff entity_count_def linked_def Let_def)
  have len: "length (ports g) = 2 * length (links g)" using ok by (simp add: ids_ok_def)
  have ids: "unat ?pa = length (ports g)" "unat ?pb = Suc (length (ports g))"
    using ne port_pair [OF ok ne] ok by (simp_all add: next_value_position id_position_issue ids_ok_def)
  have src: "source_owner ?h d = source_owner g d" if "d \<in> set (concat (map directed_links (links g)))" for d
    using find_port_append [OF ok okh fields(1)] unat_endpoints [OF wire that] len
    by (simp add: source_owner_def)
  have new: "source_owner ?h (directed_link_a_to_b ?l) = Some a" "source_owner ?h (directed_link_b_to_a ?l) = Some b"
    using ids by (simp_all add: source_owner_def directed_link_a_to_b_def directed_link_b_to_a_def
        find_eqs [OF okh] fields nth_append)
  have "adjacent ?h n = filter (\<lambda>d. source_owner ?h d = Some n) (concat (map directed_links (links ?h)))"
    if n: "contains_node g n" for n
  proof -
    let ?g = "g\<lparr>port_ids := issue_id (issue_id (port_ids g)), link_ids := issue_id (link_ids g),
              ports := ports g @ [?xa, ?xb], links := links g @ [?l]\<rparr>"
    have lists: "adjacency_lists ?g m = adjacency_lists g m" for m
      by (cases m) (simp_all add: adjacency_lists_def)
    have rng: "unat (node_value n) < length (adjacency_lists g (kind n))"
      using n ok by (simp add: contains_node_iff length_adjacency_lists)
    have "adjacent ?h n = adjacent g n @ (if n = a then [directed_link_a_to_b ?l] else [])
        @ (if n = b then [directed_link_b_to_a ?l] else [])"
      using rng by (simp add: linked_def Let_def adjacent_push_at lists) (simp add: adjacent_def lists)
    also have "adjacent g n = filter (\<lambda>d. source_owner ?h d = Some n) (concat (map directed_links (links g)))"
    proof -
      have "filter (\<lambda>d. source_owner g d = Some n) (concat (map directed_links (links g)))
          = filter (\<lambda>d. source_owner ?h d = Some n) (concat (map directed_links (links g)))"
        by (rule filter_cong [OF refl]) (simp only: src)
      then show ?thesis using wire n by (simp add: wiring_ok_def)
    qed
    finally show ?thesis
      by (simp only: fields directed_links_def map_append concat_append filter_append list.map concat.simps
          append_Nil2 filter_owner_pair [of "source_owner ?h", OF new])
  qed
  moreover have "\<forall>p\<in>set (ports ?h). contains_node ?h (port_owner p)"
    using wire nodes by (simp add: fields cont wiring_ok_def)
  moreover have "\<forall>i<length (links ?h). unat (endpoint_a (links ?h ! i)) = 2 * i
      \<and> unat (endpoint_b (links ?h ! i)) = Suc (2 * i)"
    using wire ids len by (auto simp: fields wiring_ok_def nth_append less_Suc_eq)
  ultimately show ?thesis by (simp add: wiring_ok_def cont)
qed

lemma graph_ok_linked:
  "graph_ok g \<Longrightarrow> \<not> exhausted (port_ids g) \<Longrightarrow> contains_node g a \<Longrightarrow> contains_node g b \<Longrightarrow>
   graph_ok (linked a ra b rb k g)"
  by (simp add: graph_ok_def ids_ok_linked wiring_ok_linked)

text \<open>A change that adds nodes without ports, or touches other fields, keeps the wiring.\<close>

lemma wiring_ok_extend:
  assumes okg: "ids_ok g" and wire: "wiring_ok g" and okh: "ids_ok h"
    and "map port_owner (ports h) = map port_owner (ports g)"
    and "map directed_links (links h) = map directed_links (links g)"
    and more: "\<And>k. entity_count g k \<le> entity_count h k"
    and adj: "\<And>n. contains_node g n \<Longrightarrow> adjacent h n = adjacent g n"
    and new: "\<And>n. contains_node h n \<Longrightarrow> \<not> contains_node g n \<Longrightarrow> adjacent h n = []"
  shows "wiring_ok h"
proof -
  have lens: "length (ports h) = length (ports g)" "length (links h) = length (links g)"
    using assms(4,5) by (metis length_map)+
  have owner: "port_owner (ports h ! i) = port_owner (ports g ! i)" if "i < length (ports g)" for i
    using assms(4) that lens by (metis nth_map)
  have src: "source_owner h d = source_owner g d" for d
    using okg okh lens owner by (simp add: source_owner_def find_eqs)
  have cont: "contains_node g n \<Longrightarrow> contains_node h n" for n
    using more [of "kind n"] okg okh by (simp add: contains_node_iff)
  have arcs: "concat (map directed_links (links h)) = concat (map directed_links (links g))"
    using assms(5) by simp
  have ends: "endpoint_a (links h ! i) = endpoint_a (links g ! i) \<and> endpoint_b (links h ! i) = endpoint_b (links g ! i)"
    if "i < length (links g)" for i
  proof -
    have "directed_links (links h ! i) = directed_links (links g ! i)"
      using assms(5) that lens by (metis nth_map)
    then show ?thesis by (simp add: directed_links_def directed_link_a_to_b_def directed_link_b_to_a_def)
  qed
  have owned: "source_owner g d \<noteq> Some n" if "\<not> contains_node g n" for d n
  proof
    assume "source_owner g d = Some n"
    then obtain p where "find_port g (arc_source d) = Some p" "port_owner p = n"
      by (auto simp: source_owner_def)
    then have "p \<in> set (ports g)" using okg by (auto simp: find_eqs split: if_splits)
    with wire that \<open>port_owner p = n\<close> show False by (auto simp: wiring_ok_def)
  qed
  have "adjacent h n = filter (\<lambda>d. source_owner h d = Some n) (concat (map directed_links (links h)))"
    if "contains_node h n" for n
    unfolding arcs src
  proof (cases "contains_node g n")
    case True
    then show "adjacent h n = filter (\<lambda>d. source_owner g d = Some n) (concat (map directed_links (links g)))"
      using wire adj by (simp add: wiring_ok_def)
  next
    case False
    then show "adjacent h n = filter (\<lambda>d. source_owner g d = Some n) (concat (map directed_links (links g)))"
      using new [OF that False] owned by simp
  qed
  moreover have "\<forall>p\<in>set (ports h). contains_node h (port_owner p)"
  proof
    fix p assume "p \<in> set (ports h)"
    then have "port_owner p \<in> set (map port_owner (ports g))" using assms(4) by (metis image_eqI set_map)
    then show "contains_node h (port_owner p)" using wire cont by (auto simp: wiring_ok_def)
  qed
  ultimately show ?thesis using wire lens ends by (simp add: wiring_ok_def)
qed

lemma graph_ok_add_rack: "graph_ok g \<Longrightarrow> graph_ok (snd (add_rack g))"
proof -
  assume ok: "graph_ok g"
  show ?thesis
  proof (cases "exhausted (rack_ids g)")
    case True
    then show ?thesis using ok by (simp add: add_rack_def next_rack_id_def prog_defs topology_id_next_eq)
  next
    case False
    let ?h = "snd (add_rack g)"
    have h: "?h = g\<lparr>rack_ids := issue_id (rack_ids g), racks := racks g @ [\<lparr>rack_id = next_value (rack_ids g),
        rack_gpus = [], rack_nics = [], leaf_switches = []\<rparr>]\<rparr>"
      using False by (simp add: add_rack_def next_rack_id_def prog_defs topology_id_next_eq)
    have okh: "ids_ok ?h"
      using ok False unfolding h
      by (auto simp: graph_ok_def ids_ok_def id_position_issue next_value_position intro!: dense_snoc)
    moreover have "wiring_ok ?h"
      by (rule wiring_ok_extend [of g, OF _ _ okh])
        (use ok okh in \<open>auto simp: graph_ok_def h entity_count_def adjacent_def adjacency_lists_def
            contains_node_iff split: node_kind.splits\<close>)
    ultimately show ?thesis by (simp add: graph_ok_def)
  qed
qed

lemma new_node_adjacent:
  assumes "adjacency_lists h (kind n) = adjacency_lists g (kind n) @ [[]]"
    and "unat (node_value n) < Suc (length (adjacency_lists g (kind n)))"
  shows "adjacent h n = (if unat (node_value n) < length (adjacency_lists g (kind n)) then adjacent g n else [])"
  using assms by (auto simp: adjacent_def nth_append less_Suc_eq)

lemma wiring_ok_new_node:
  assumes okg: "ids_ok g" and wire: "wiring_ok g" and okh: "ids_ok h"
    and "ports h = ports g" "links h = links g"
    and k: "entity_count h k = Suc (entity_count g k)" "adjacency_lists h k = adjacency_lists g k @ [[]]"
    and other: "\<And>j. j \<noteq> k \<Longrightarrow> entity_count h j = entity_count g j \<and> adjacency_lists h j = adjacency_lists g j"
  shows "wiring_ok h"
proof (rule wiring_ok_extend [OF okg wire okh])
  show "entity_count g j \<le> entity_count h j" for j using k(1) other [of j] by (cases "j = k") auto
  fix n
  note len = length_adjacency_lists [OF okg, of "kind n"]
  show "adjacent h n = adjacent g n" if "contains_node g n"
    using that okg len k(2) other [of "kind n"] new_node_adjacent [of h n g]
    by (cases "kind n = k") (simp_all add: contains_node_iff adjacent_def)
  show "adjacent h n = []" if "contains_node h n" "\<not> contains_node g n"
  proof (cases "kind n = k")
    case True
    then show ?thesis
      using that okg okh len k new_node_adjacent [of h n g] by (simp add: contains_node_iff)
  next
    case False
    then show ?thesis using that okg okh other [of "kind n"] by (simp add: contains_node_iff)
  qed
qed (use assms in simp_all)

lemma other_kinds: "j \<noteq> Nic \<Longrightarrow> j = Gpu \<or> j = Switch" "j \<noteq> Switch \<Longrightarrow> j = Gpu \<or> j = Nic" "j \<noteq> Gpu \<Longrightarrow> j = Nic \<or> j = Switch"
  by (cases j; simp)+

lemma graph_ok_add_nic: "graph_ok g \<Longrightarrow> graph_ok (snd (add_nic r g))"
proof -
  assume ok: "graph_ok g"
  show ?thesis
  proof (cases "find_rack g r = None \<or> exhausted (nic_ids g)")
    case True
    then show ?thesis using ok by (auto simp: add_nic_def next_nic_id_def prog_defs topology_id_next_eq)
  next
    case False
    let ?h = "snd (add_nic r g)" and ?i = "next_value (nic_ids g)"
    have h: "?h = g\<lparr>nic_ids := issue_id (nic_ids g),
        nics := nics g @ [\<lparr>nic_id = ?i, nic_rack = r, attached_gpus = [], nic_ports = []\<rparr>],
        nic_adjacency := nic_adjacency g @ [[]],
        racks := update_nth (unat r) (\<lambda>x. x\<lparr>rack_nics := rack_nics x @ [?i]\<rparr>) (racks g)\<rparr>"
      using False by (auto simp: add_nic_def next_nic_id_def prog_defs topology_id_next_eq)
    have okh: "ids_ok ?h"
      using ok False unfolding h
      by (auto simp: graph_ok_def ids_ok_def id_position_issue next_value_position
          intro!: dense_snoc dense_update)
    moreover have "wiring_ok ?h"
      by (rule wiring_ok_new_node [of g ?h Nic, OF _ _ okh])
        (use ok in \<open>auto simp: graph_ok_def h entity_count_def adjacency_lists_def dest: other_kinds\<close>)
    ultimately show ?thesis by (simp add: graph_ok_def)
  qed
qed

lemma ids_ok_new_switch:
  assumes "ids_ok g" and "\<not> exhausted (switch_ids g)" and "unat (switch_id x) = id_position (switch_ids g)"
    and "dense rack_id rs" and "length rs = length (racks g)"
  shows "ids_ok (g\<lparr>switch_ids := issue_id (switch_ids g), switches := switches g @ [x],
     switch_adjacency := switch_adjacency g @ [[]], racks := rs\<rparr>)"
  using assms by (auto simp: ids_ok_def id_position_issue intro!: dense_snoc)

lemma graph_ok_new_switch:
  assumes "graph_ok g" and "\<not> exhausted (switch_ids g)" and "switch_id x = next_value (switch_ids g)"
    and "dense rack_id rs" and "length rs = length (racks g)"
  shows "graph_ok (g\<lparr>switch_ids := issue_id (switch_ids g), switches := switches g @ [x],
     switch_adjacency := switch_adjacency g @ [[]], racks := rs\<rparr>)"
proof -
  let ?h = "g\<lparr>switch_ids := issue_id (switch_ids g), switches := switches g @ [x],
     switch_adjacency := switch_adjacency g @ [[]], racks := rs\<rparr>"
  have okh: "ids_ok ?h"
    using assms by (intro ids_ok_new_switch) (simp_all add: graph_ok_def next_value_position)
  moreover have "wiring_ok ?h"
    by (rule wiring_ok_new_node [of g ?h Switch, OF _ _ okh])
      (use assms(1) in \<open>auto simp: graph_ok_def entity_count_def adjacency_lists_def dest: other_kinds\<close>)
  ultimately show ?thesis by (simp add: graph_ok_def)
qed

lemma graph_ok_racks: "graph_ok g \<Longrightarrow> dense rack_id (racks g)"
  by (simp add: graph_ok_def ids_ok_def)

lemma graph_ok_add_leaf_switch: "graph_ok g \<Longrightarrow> graph_ok (snd (add_leaf_switch r g))"
  by (auto simp: add_leaf_switch_def next_switch_id_def prog_defs topology_id_next_eq
      intro!: graph_ok_new_switch dense_update graph_ok_racks)

lemma graph_ok_add_spine_switch: "graph_ok g \<Longrightarrow> graph_ok (snd (add_spine_switch g))"
  using graph_ok_new_switch [of g _ "racks g"] graph_ok_racks [of g]
  by (auto simp: add_spine_switch_def next_switch_id_def prog_defs topology_id_next_eq)

lemma append_link_eq:
  assumes "unat (node_value a) < length (adjacency_lists g (kind a))"
    and "unat (node_value b) < length (adjacency_lists g (kind b))"
  shows "append_link l a b g = (Inr (), push_at b (directed_link_b_to_a l)
     (push_at a (directed_link_a_to_b l) (g\<lparr>links := links g @ [l]\<rparr>)))"
proof -
  have "adjacency_lists (g\<lparr>links := links g @ [l]\<rparr>) k = adjacency_lists g k" for k
    by (cases k) (simp_all add: adjacency_lists_def)
  with assms show ?thesis
    by (simp add: append_link_def seq_def bind_def modify_def push_adjacency_eq)
qed

definition with_gpu :: "nic_id \<Rightarrow> rack_id \<Rightarrow> topology_graph \<Rightarrow> topology_graph" where
  "with_gpu n r g =
     (let i = next_value (gpu_ids g)
      in g\<lparr>gpu_ids := issue_id (gpu_ids g),
           gpus := gpus g @ [\<lparr>gpu_id = i, gpu_rack = r, attached_nic = n, gpu_port = next_value (port_ids g)\<rparr>],
           gpu_adjacency := gpu_adjacency g @ [[]],
           nics := update_nth (unat n) (\<lambda>x. x\<lparr>attached_gpus := attached_gpus x @ [i],
              nic_ports := nic_ports x @ [next_value (issue_id (port_ids g))]\<rparr>) (nics g),
           racks := update_nth (unat r) (\<lambda>x. x\<lparr>rack_gpus := rack_gpus x @ [i]\<rparr>) (racks g)\<rparr>)"

lemma graph_ok_with_gpu:
  assumes ok: "graph_ok g" and "\<not> exhausted (gpu_ids g)" and "\<not> exhausted (port_ids g)"
  shows "graph_ok (with_gpu n r g)"
proof -
  let ?h = "with_gpu n r g"
  have okh: "ids_ok ?h"
    using assms
    by (auto simp: graph_ok_def ids_ok_def with_gpu_def Let_def id_position_issue next_value_position
        intro!: dense_snoc dense_update)
  moreover have "wiring_ok ?h"
    by (rule wiring_ok_new_node [of g ?h Gpu, OF _ _ okh])
      (use ok in \<open>auto simp: graph_ok_def entity_count_def adjacency_lists_def with_gpu_def Let_def
          dest: other_kinds\<close>)
  ultimately show ?thesis by (simp add: graph_ok_def)
qed

lemma add_gpu_eq:
  assumes ok: "graph_ok g" and nic: "find_nic g n = Some x"
    and ne: "\<not> exhausted (gpu_ids g)" "\<not> exhausted (port_ids g)"
  shows "add_gpu n g = (Inr (next_value (gpu_ids g)),
     linked (NodeId Gpu (next_value (gpu_ids g))) Local (NodeId Nic n) Local LocalAttachment
       (with_gpu n (nic_rack x) g))"
proof -
  have ids: "ids_ok g" using ok by (simp add: graph_ok_def)
  note pp = port_pair [OF ids ne(2)]
  have "unat (next_value (gpu_ids g)) = length (gpus g)" "length (gpu_adjacency g) = length (gpus g)"
      "length (nic_adjacency g) = length (nics g)"
    using ids ne by (simp_all add: next_value_position ids_ok_def)
  moreover have "unat n < length (nics g)" using nic ids by (auto simp: find_eqs split: if_splits)
  ultimately show ?thesis
    using nic ne pp
    by (simp add: add_gpu_def next_gpu_id_def next_port_id_def next_link_id_def prog_defs
        topology_id_next_eq append_link_eq adjacency_lists_def linked_def with_gpu_def push_at_def Let_def)
qed

lemma graph_ok_add_gpu: "graph_ok g \<Longrightarrow> graph_ok (snd (add_gpu n g))"
proof -
  assume ok: "graph_ok g"
  have lost: "graph_ok (g\<lparr>gpu_ids := issue_id (gpu_ids g)\<rparr>)"
    if "\<not> exhausted (gpu_ids g)" "exhausted (port_ids g)"
  proof -
    have okh: "ids_ok (g\<lparr>gpu_ids := issue_id (gpu_ids g)\<rparr>)"
      using ok that by (simp add: graph_ok_def ids_ok_def id_position_issue)
    have "wiring_ok (g\<lparr>gpu_ids := issue_id (gpu_ids g)\<rparr>)"
      by (rule wiring_ok_extend [of g, OF _ _ okh])
        (use ok okh in \<open>auto simp: graph_ok_def entity_count_def adjacent_def adjacency_lists_def
            contains_node_iff split: node_kind.splits\<close>)
    with okh show ?thesis by (simp add: graph_ok_def)
  qed
  show ?thesis
  proof (cases "find_nic g n")
    case None
    then show ?thesis using ok by (simp add: add_gpu_def prog_defs)
  next
    case (Some x)
    consider "exhausted (gpu_ids g)" | "\<not> exhausted (gpu_ids g)" "exhausted (port_ids g)"
      | "\<not> exhausted (gpu_ids g)" "\<not> exhausted (port_ids g)" by blast
    then show ?thesis
    proof cases
      case 1
      then show ?thesis using ok Some by (simp add: add_gpu_def next_gpu_id_def prog_defs topology_id_next_eq)
    next
      case 2
      then show ?thesis using lost Some
        by (simp add: add_gpu_def next_gpu_id_def next_port_id_def prog_defs topology_id_next_eq)
    next
      case 3
      let ?h = "with_gpu n (nic_rack x) g"
      have okh: "graph_ok ?h" using graph_ok_with_gpu [OF ok 3] .
      have ids: "ids_ok g" "ids_ok ?h" using ok okh by (simp_all add: graph_ok_def)
      have "unat (next_value (gpu_ids g)) = length (gpus g)"
        using ids 3 by (simp add: next_value_position ids_ok_def)
      moreover have "unat n < length (nics g)" using Some ids by (auto simp: find_eqs split: if_splits)
      ultimately have "contains_node ?h (NodeId Gpu (next_value (gpu_ids g)))" "contains_node ?h (NodeId Nic n)"
        using ids(2) by (simp_all add: contains_node_iff entity_count_def with_gpu_def Let_def)
      moreover have "\<not> exhausted (port_ids ?h)" using 3 by (simp add: with_gpu_def Let_def)
      ultimately show ?thesis
        using okh by (simp add: add_gpu_eq [OF ok Some 3] graph_ok_linked)
    qed
  qed
qed

definition own_port :: "node_id \<Rightarrow> port_id \<Rightarrow> topology_graph \<Rightarrow> topology_graph" where
  "own_port n p g =
     (case kind n of
        Gpu \<Rightarrow> g
      | Nic \<Rightarrow> g\<lparr>nics := update_nth (unat (node_value n)) (\<lambda>x. x\<lparr>nic_ports := nic_ports x @ [p]\<rparr>) (nics g)\<rparr>
      | Switch \<Rightarrow> g\<lparr>switches := update_nth (unat (node_value n))
                    (\<lambda>x. x\<lparr>switch_ports := switch_ports x @ [p]\<rparr>) (switches g)\<rparr>)"

lemma own_port_fields [simp]:
  "port_ids (own_port n p g) = port_ids g" "link_ids (own_port n p g) = link_ids g"
  "ports (own_port n p g) = ports g" "links (own_port n p g) = links g"
  "adjacency_lists (own_port n p g) k = adjacency_lists g k"
  "entity_count (own_port n p g) k = entity_count g k"
  by (cases "kind n"; cases k; simp add: own_port_def adjacency_lists_def entity_count_def)+

lemma graph_ok_own_port: "graph_ok g \<Longrightarrow> graph_ok (own_port n p g)"
proof -
  assume ok: "graph_ok g"
  have okh: "ids_ok (own_port n p g)"
    using ok by (cases "kind n") (auto simp: graph_ok_def ids_ok_def own_port_def intro!: dense_update)
  have "wiring_ok (own_port n p g)"
    by (rule wiring_ok_extend [of g, OF _ _ okh])
      (use ok okh in \<open>auto simp: graph_ok_def adjacent_def contains_node_iff\<close>)
  with okh show ?thesis by (simp add: graph_ok_def)
qed

lemma append_owner_port_eq:
  "unat (node_value n) < entity_count g (kind n) \<Longrightarrow> kind n \<noteq> Gpu \<Longrightarrow>
   append_owner_port n p g = (Inr (), own_port n p g)"
  by (cases "kind n") (simp_all add: append_owner_port_def prog_defs own_port_def entity_count_def)

definition fabric_ports_exhausted :: exn where
  "fabric_ports_exhausted = OverflowError ''topology ID sequence exhausted''"

definition connect_rejection ::
  "topology_graph \<Rightarrow> node_id \<Rightarrow> port_role \<Rightarrow> node_id \<Rightarrow> port_role \<Rightarrow> exn option" where
  "connect_rejection g a ra b rb =
     (if \<not> (contains_node g a \<and> contains_node g b)
      then Some (InvalidArgument ''cannot connect an unknown topology node'')
      else if a = b then Some (InvalidArgument ''cannot connect a topology node to itself'')
      else if kind a = Gpu \<or> kind b = Gpu
      then Some (InvalidArgument ''GPU fabric connections must use the attached NIC'')
      else if ra = Local \<or> rb = Local
      then Some (InvalidArgument ''fabric connections require fabric port roles'')
      else (case directly_connected g a b of
              Inl e \<Rightarrow> Some e
            | Inr True \<Rightarrow> Some (InvalidArgument ''parallel physical links are not supported'')
            | Inr False \<Rightarrow> if exhausted (port_ids g) then Some fabric_ports_exhausted else None))"

lemma connect_fabric_rejected:
  "connect_rejection g a ra b rb = Some e \<Longrightarrow> connect_fabric a ra b rb g = (Inl e, g)"
  by (auto simp: connect_rejection_def connect_fabric_def prog_defs next_port_id_def topology_id_next_eq
      fabric_ports_exhausted_def split: if_splits sum.splits bool.splits)

lemma connect_fabric_accepted:
  assumes ok: "graph_ok g" and acc: "connect_rejection g a ra b rb = None"
  shows "connect_fabric a ra b rb g = (Inr (next_value (link_ids g)),
     linked a ra b rb Fabric (own_port b (next_value (issue_id (port_ids g)))
       (own_port a (next_value (port_ids g)) g)))"
proof -
  have ids: "ids_ok g" using ok by (simp add: graph_ok_def)
  from acc have g: "contains_node g a" "contains_node g b" "a \<noteq> b" "kind a \<noteq> Gpu" "kind b \<noteq> Gpu"
      "ra \<noteq> Local" "rb \<noteq> Local" "directly_connected g a b = Inr False" "\<not> exhausted (port_ids g)"
    by (auto simp: connect_rejection_def split: if_splits sum.splits bool.splits)
  note pp = port_pair [OF ids g(9)]
  let ?pa = "next_value (port_ids g)" and ?pb = "next_value (issue_id (port_ids g))"
  let ?g1 = "g\<lparr>port_ids := issue_id (issue_id (port_ids g)), link_ids := issue_id (link_ids g)\<rparr>"
  have rng: "unat (node_value a) < entity_count g (kind a)" "unat (node_value b) < entity_count g (kind b)"
    using g ids by (simp_all add: contains_node_iff)
  have upd: "entity_count ?g1 k = entity_count g k" for k by (cases k) (simp_all add: entity_count_def)
  let ?g2 = "own_port b ?pb (own_port a ?pa ?g1)"
  have pushed: "append_link l a b (?g2\<lparr>ports := ps\<rparr>) = (Inr (), push_at b (directed_link_b_to_a l)
     (push_at a (directed_link_a_to_b l) (?g2\<lparr>ports := ps, links := links g @ [l]\<rparr>)))" for l ps
  proof -
    have "adjacency_lists (?g2\<lparr>ports := ps\<rparr>) k = adjacency_lists g k" for k
      by (cases k; cases "kind a"; cases "kind b") (simp_all add: adjacency_lists_def own_port_def)
    then show ?thesis
      using rng length_adjacency_lists [OF ids] by (subst append_link_eq) simp_all
  qed
  have "connect_fabric a ra b rb g = (Inr (next_value (link_ids g)),
     (let l = \<lparr>link_id = next_value (link_ids g), endpoint_a = ?pa, endpoint_b = ?pb, link_kind = Fabric, link_state = Up\<rparr>
      in push_at b (directed_link_b_to_a l) (push_at a (directed_link_a_to_b l)
        (?g2\<lparr>ports := ports g @ [\<lparr>port_id = ?pa, port_owner = a, port_role = ra, port_state = Up\<rparr>,
              \<lparr>port_id = ?pb, port_owner = b, port_role = rb, port_state = Up\<rparr>], links := links g @ [l]\<rparr>))))"
    using g pp rng
    by (simp add: connect_fabric_def bind_def seq_def gets_def modify_def return_def throw_if_def lift_res_def
        zoom_def next_port_id_def next_link_id_def topology_id_next_eq append_owner_port_eq upd pushed Let_def)
  also have "?g2 = (own_port b ?pb (own_port a ?pa g))\<lparr>port_ids := issue_id (issue_id (port_ids g)),
      link_ids := issue_id (link_ids g)\<rparr>"
    by (cases "kind a"; cases "kind b") (simp_all add: own_port_def)
  finally show ?thesis by (simp add: linked_def Let_def)
qed

lemma graph_ok_connect_fabric: "graph_ok g \<Longrightarrow> graph_ok (snd (connect_fabric a ra b rb g))"
proof -
  assume ok: "graph_ok g"
  show ?thesis
  proof (cases "connect_rejection g a ra b rb")
    case (Some e)
    then show ?thesis using ok by (simp add: connect_fabric_rejected)
  next
    case None
    then have g: "contains_node g a" "contains_node g b" "\<not> exhausted (port_ids g)"
      by (auto simp: connect_rejection_def split: if_splits sum.splits bool.splits)
    let ?h = "own_port b (next_value (issue_id (port_ids g))) (own_port a (next_value (port_ids g)) g)"
    have okh: "graph_ok ?h" using ok by (simp add: graph_ok_own_port)
    have "contains_node ?h n = contains_node g n" for n
      using ok okh by (simp add: graph_ok_def contains_node_iff)
    with okh g show ?thesis by (simp add: connect_fabric_accepted [OF ok None] graph_ok_linked)
  qed
qed

lemma graph_ok_set_link_state: "graph_ok g \<Longrightarrow> graph_ok (snd (set_link_state i st g))"
proof -
  assume ok: "graph_ok g"
  let ?h = "g\<lparr>operational_revision := operational_revision g + 1,
     links := update_nth (unat i) (\<lambda>x. x\<lparr>link_state := st\<rparr>) (links g)\<rparr>"
  have okh: "ids_ok ?h" using ok by (auto simp: graph_ok_def ids_ok_def intro!: dense_update)
  have "wiring_ok ?h"
    by (rule wiring_ok_extend [of g, OF _ _ okh])
      (use ok okh in \<open>auto simp: graph_ok_def entity_count_def adjacent_def adjacency_lists_def contains_node_iff
          map_update_nth directed_links_def directed_link_a_to_b_def directed_link_b_to_a_def split: node_kind.splits\<close>)
  with ok okh show ?thesis by (auto simp: set_link_state_def graph_ok_def split: option.splits)
qed

lemma graph_ok_set_port_state: "graph_ok g \<Longrightarrow> graph_ok (snd (set_port_state i st g))"
proof -
  assume ok: "graph_ok g"
  let ?h = "g\<lparr>operational_revision := operational_revision g + 1,
     ports := update_nth (unat i) (\<lambda>x. x\<lparr>port_state := st\<rparr>) (ports g)\<rparr>"
  have okh: "ids_ok ?h" using ok by (auto simp: graph_ok_def ids_ok_def intro!: dense_update)
  have "wiring_ok ?h"
    by (rule wiring_ok_extend [of g, OF _ _ okh])
      (use ok okh in \<open>auto simp: graph_ok_def entity_count_def adjacent_def adjacency_lists_def contains_node_iff
          map_update_nth split: node_kind.splits\<close>)
  with ok okh show ?thesis by (auto simp: set_port_state_def graph_ok_def split: option.splits)
qed

lemma graph_ok_set_switch_state: "graph_ok g \<Longrightarrow> graph_ok (snd (set_switch_state i st g))"
proof -
  assume ok: "graph_ok g"
  let ?h = "g\<lparr>operational_revision := operational_revision g + 1,
     switches := update_nth (unat i) (\<lambda>x. x\<lparr>switch_state := st\<rparr>) (switches g)\<rparr>"
  have okh: "ids_ok ?h" using ok by (auto simp: graph_ok_def ids_ok_def intro!: dense_update)
  have "wiring_ok ?h"
    by (rule wiring_ok_extend [of g, OF _ _ okh])
      (use ok okh in \<open>auto simp: graph_ok_def entity_count_def adjacent_def adjacency_lists_def contains_node_iff
          split: node_kind.splits\<close>)
  with ok okh show ?thesis by (auto simp: set_switch_state_def graph_ok_def split: option.splits)
qed

lemma empty_graph_ok: "graph_ok empty_graph"
  by (auto simp: graph_ok_def ids_ok_def wiring_ok_def empty_graph_def new_id_generator_def id_position_def
      contains_node_def find_defs find_dense_def split: node_kind.splits)

section \<open>Histories of a graph\<close>

datatype graph_call =
    CallAddRack | CallAddNic rack_id | CallAddGpu nic_id | CallAddLeaf rack_id | CallAddSpine
  | CallConnect node_id port_role node_id port_role
  | CallLinkState link_id operational_state | CallPortState port_id operational_state
  | CallSwitchState switch_id operational_state

primrec graph_call_step :: "graph_call \<Rightarrow> topology_graph \<Rightarrow> topology_graph" where
  "graph_call_step CallAddRack g = snd (add_rack g)"
| "graph_call_step (CallAddNic r) g = snd (add_nic r g)"
| "graph_call_step (CallAddGpu n) g = snd (add_gpu n g)"
| "graph_call_step (CallAddLeaf r) g = snd (add_leaf_switch r g)"
| "graph_call_step CallAddSpine g = snd (add_spine_switch g)"
| "graph_call_step (CallConnect a ra b rb) g = snd (connect_fabric a ra b rb g)"
| "graph_call_step (CallLinkState l st) g = snd (set_link_state l st g)"
| "graph_call_step (CallPortState p st) g = snd (set_port_state p st g)"
| "graph_call_step (CallSwitchState s st) g = snd (set_switch_state s st g)"

lemma graph_call_step_ok: "graph_ok g \<Longrightarrow> graph_ok (graph_call_step c g)"
  by (cases c) (simp_all add: graph_ok_add_rack graph_ok_add_nic graph_ok_add_gpu graph_ok_add_leaf_switch
      graph_ok_add_spine_switch graph_ok_connect_fabric graph_ok_set_link_state graph_ok_set_port_state
      graph_ok_set_switch_state)

lemma graph_calls_ok: "graph_ok g \<Longrightarrow> graph_ok (fold graph_call_step cs g)"
  by (induction cs arbitrary: g) (simp_all add: graph_call_step_ok)

text \<open>What the invariant means for a reader of adjacency lists.\<close>

lemma outgoing_eq:
  "graph_ok g \<Longrightarrow> outgoing g n = (if contains_node g n
     then Inr (filter (\<lambda>d. source_owner g d = Some n) (concat (map directed_links (links g))))
     else Inl (OutOfRange ''cannot query adjacency for an unknown topology node''))"
  by (simp add: outgoing_def graph_ok_def wiring_ok_def adjacent_def)

lemma link_ends_known:
  assumes "graph_ok g" and "d \<in> set (concat (map directed_links (links g)))"
  shows "\<exists>p. find_port g (arc_source d) = Some p \<and> contains_node g (port_owner p)"
    and "\<exists>p. find_port g (arc_destination d) = Some p \<and> contains_node g (port_owner p)"
  using assms unat_endpoints [of g d]
  by (auto simp: graph_ok_def find_eqs wiring_ok_def ids_ok_def)

lemma connects_to_eq:
  assumes "\<And>d. d \<in> set ds \<Longrightarrow> find_port g (arc_destination d) \<noteq> None"
  shows "connects_to g b ds = Inr (\<exists>d\<in>set ds. map_option port_owner (find_port g (arc_destination d)) = Some b)"
  using assms by (induction ds) (force split: option.splits)+

lemma directly_connected_eq:
  assumes ok: "graph_ok g" and a: "contains_node g a"
  shows "directly_connected g a b = Inr (\<exists>l\<in>set (links g). \<exists>d\<in>set (directed_links l).
     source_owner g d = Some a \<and> map_option port_owner (find_port g (arc_destination d)) = Some b)"
proof -
  let ?ds = "filter (\<lambda>d. source_owner g d = Some a) (concat (map directed_links (links g)))"
  have "connects_to g b ?ds = Inr (\<exists>d\<in>set ?ds. map_option port_owner (find_port g (arc_destination d)) = Some b)"
    by (rule connects_to_eq) (use link_ends_known [OF ok] in \<open>fastforce\<close>)
  then show ?thesis
    using a by (auto simp: directly_connected_def outgoing_eq [OF ok])
qed

section \<open>The graph is simple\<close>

text \<open>
  No link joins a node to itself and no two links join the same pair of nodes, in either direction.
\<close>

definition link_owners :: "topology_graph \<Rightarrow> physical_link \<Rightarrow> node_id set" where
  "link_owners g l = (case (find_port g (endpoint_a l), find_port g (endpoint_b l)) of
     (Some p, Some q) \<Rightarrow> {port_owner p, port_owner q} | _ \<Rightarrow> {})"

definition simple_graph :: "topology_graph \<Rightarrow> bool" where
  "simple_graph g \<longleftrightarrow> distinct (map (link_owners g) (links g)) \<and> (\<forall>l\<in>set (links g). card (link_owners g l) = 2)"

lemma link_owners_cong:
  assumes "ids_ok g" "ids_ok h" "map port_owner (ports h) = map port_owner (ports g)"
    and "endpoint_a l = endpoint_a k" "endpoint_b l = endpoint_b k"
  shows "link_owners h l = link_owners g k"
proof -
  have len: "length (ports h) = length (ports g)" using assms(3) by (metis length_map)
  then have "port_owner (ports h ! i) = port_owner (ports g ! i)" if "i < length (ports g)" for i
    using assms(3) that by (metis nth_map)
  then show ?thesis using assms len by (simp add: link_owners_def find_eqs)
qed

lemma map_link_owners_cong:
  assumes "ids_ok g" "ids_ok h" "map port_owner (ports h) = map port_owner (ports g)"
    and "map directed_links (links h) = map directed_links (links g)"
  shows "map (link_owners h) (links h) = map (link_owners g) (links g)"
proof (rule nth_equalityI)
  show len: "length (map (link_owners h) (links h)) = length (map (link_owners g) (links g))"
    using assms(4) by (metis length_map)
  fix i assume "i < length (map (link_owners h) (links h))"
  with len have i: "i < length (links h)" "i < length (links g)" by simp_all
  then have "directed_links (links h ! i) = directed_links (links g ! i)" using assms(4) by (metis nth_map)
  then have "endpoint_a (links h ! i) = endpoint_a (links g ! i)" "endpoint_b (links h ! i) = endpoint_b (links g ! i)"
    by (simp_all add: directed_links_def directed_link_a_to_b_def directed_link_b_to_a_def)
  with i show "map (link_owners h) (links h) ! i = map (link_owners g) (links g) ! i"
    using link_owners_cong [OF assms(1-3)] by simp
qed

lemma simple_graph_image:
  "simple_graph g \<longleftrightarrow> distinct (map (link_owners g) (links g)) \<and> (\<forall>x\<in>set (map (link_owners g) (links g)). card x = 2)"
  by (simp add: simple_graph_def)

lemma simple_graph_cong:
  assumes "graph_ok g" "graph_ok h" "map port_owner (ports h) = map port_owner (ports g)"
    and "map directed_links (links h) = map directed_links (links g)" "simple_graph g"
  shows "simple_graph h"
  using map_link_owners_cong [OF _ _ assms(3,4)] assms unfolding simple_graph_image graph_ok_def by metis

definition joined :: "topology_graph \<Rightarrow> node_id \<Rightarrow> node_id \<Rightarrow> bool" where
  "joined g a b \<longleftrightarrow> {a, b} \<in> link_owners g ` set (links g)"

lemma simple_graph_linked:
  assumes ok: "graph_ok g" and okh: "graph_ok (linked a ra b rb k g)" and ne: "\<not> exhausted (port_ids g)"
    and simple: "simple_graph g" and "a \<noteq> b" and nj: "\<not> joined g a b"
  shows "simple_graph (linked a ra b rb k g)"
proof -
  let ?h = "linked a ra b rb k g"
  let ?pa = "next_value (port_ids g)" and ?pb = "next_value (issue_id (port_ids g))"
  let ?l = "\<lparr>link_id = next_value (link_ids g), endpoint_a = ?pa, endpoint_b = ?pb, link_kind = k, link_state = Up\<rparr>"
  let ?xa = "\<lparr>port_id = ?pa, port_owner = a, port_role = ra, port_state = Up\<rparr>"
  let ?xb = "\<lparr>port_id = ?pb, port_owner = b, port_role = rb, port_state = Up\<rparr>"
  have ids: "ids_ok g" "ids_ok ?h" and wire: "wiring_ok g" using ok okh by (simp_all add: graph_ok_def)
  have fields: "ports ?h = ports g @ [?xa, ?xb]" "links ?h = links g @ [?l]"
    by (simp_all add: linked_def Let_def)
  have len: "length (ports g) = 2 * length (links g)" using ids(1) by (simp add: ids_ok_def)
  have pos: "unat ?pa = length (ports g)" "unat ?pb = Suc (length (ports g))"
    using ne port_pair [OF ids(1) ne] ids(1) by (simp_all add: next_value_position id_position_issue ids_ok_def)
  have old: "link_owners ?h l = link_owners g l" if l: "l \<in> set (links g)" for l
  proof -
    obtain i where "i < length (links g)" "l = links g ! i" using l by (auto simp: in_set_conv_nth)
    with wire len have "unat (endpoint_a l) < length (ports g)" "unat (endpoint_b l) < length (ports g)"
      by (auto simp: wiring_ok_def)
    then show ?thesis by (simp add: link_owners_def find_port_append [OF ids fields(1)])
  qed
  have new: "link_owners ?h ?l = {a, b}"
    using pos by (simp add: link_owners_def find_eqs [OF ids(2)] fields nth_append)
  have "map (link_owners ?h) (links ?h) = map (link_owners g) (links g) @ [{a, b}]"
    using old new by (simp add: fields)
  with simple nj \<open>a \<noteq> b\<close> show ?thesis by (simp add: simple_graph_image joined_def)
qed

lemma joined_iff_connected:
  assumes ok: "graph_ok g" and "contains_node g a"
  shows "directly_connected g a b = Inr (joined g a b)"
proof -
  have ends: "\<exists>p q. find_port g (endpoint_a l) = Some p \<and> find_port g (endpoint_b l) = Some q" if "l \<in> set (links g)" for l
    using link_ends_known [OF ok, of "directed_link_a_to_b l"] that
    by (force simp: directed_links_def directed_link_a_to_b_def)
  have "(\<exists>d\<in>set (directed_links l). source_owner g d = Some a
       \<and> map_option port_owner (find_port g (arc_destination d)) = Some b) \<longleftrightarrow> link_owners g l = {a, b}"
    if l: "l \<in> set (links g)" for l
    using ends [OF l]
    by (auto simp: directed_links_def directed_link_a_to_b_def directed_link_b_to_a_def source_owner_def
        link_owners_def doubleton_eq_iff)
  then show ?thesis
    using assms by (auto simp: directly_connected_eq joined_def image_iff)
qed

lemma joined_known:
  assumes ok: "graph_ok g" and "joined g a b"
  shows "contains_node g a \<and> contains_node g b"
proof -
  from assms(2) obtain l where l: "l \<in> set (links g)" "link_owners g l = {a, b}" by (auto simp: joined_def)
  obtain p q where "find_port g (endpoint_a l) = Some p" "contains_node g (port_owner p)"
      "find_port g (endpoint_b l) = Some q" "contains_node g (port_owner q)"
    using link_ends_known [OF ok, of "directed_link_a_to_b l"] l(1)
    by (force simp: directed_links_def directed_link_a_to_b_def)
  with l(2) show ?thesis by (auto simp: link_owners_def doubleton_eq_iff)
qed

lemma joined_cong:
  assumes "graph_ok g" "graph_ok h" "map port_owner (ports h) = map port_owner (ports g)"
    and "map directed_links (links h) = map directed_links (links g)"
  shows "joined h a b = joined g a b"
  using map_link_owners_cong [of g h] assms by (simp add: joined_def graph_ok_def flip: set_map)

lemma simple_connect_fabric:
  assumes ok: "graph_ok g" and simple: "simple_graph g"
  shows "simple_graph (snd (connect_fabric a ra b rb g))"
proof (cases "connect_rejection g a ra b rb")
  case (Some e)
  then show ?thesis using simple by (simp add: connect_fabric_rejected)
next
  case None
  then have g: "contains_node g a" "a \<noteq> b" "directly_connected g a b = Inr False" "\<not> exhausted (port_ids g)"
    by (auto simp: connect_rejection_def split: if_splits sum.splits bool.splits)
  let ?h = "own_port b (next_value (issue_id (port_ids g))) (own_port a (next_value (port_ids g)) g)"
  have okh: "graph_ok ?h" using ok by (simp add: graph_ok_own_port)
  have eq: "snd (connect_fabric a ra b rb g) = linked a ra b rb Fabric ?h"
    by (simp add: connect_fabric_accepted [OF ok None])
  have "graph_ok (linked a ra b rb Fabric ?h)"
    using graph_ok_connect_fabric [OF ok, of a ra b rb] by (simp add: eq)
  moreover have "simple_graph ?h" by (rule simple_graph_cong [OF ok okh]) (use simple in simp_all)
  moreover have "\<not> joined ?h a b"
    using g(3) joined_iff_connected [OF ok g(1), of b] joined_cong [OF ok okh] by simp
  ultimately show ?thesis unfolding eq using g okh by (intro simple_graph_linked) simp_all
qed

lemma simple_add_gpu:
  assumes ok: "graph_ok g" and simple: "simple_graph g"
  shows "simple_graph (snd (add_gpu n g))"
proof -
  consider "find_nic g n = None" | "exhausted (gpu_ids g)" | "\<not> exhausted (gpu_ids g)" "exhausted (port_ids g)"
    | x where "find_nic g n = Some x" "\<not> exhausted (gpu_ids g)" "\<not> exhausted (port_ids g)" by blast
  then show ?thesis
  proof cases
    case 1
    then show ?thesis using simple by (simp add: add_gpu_def prog_defs)
  next
    case 2
    then show ?thesis using simple
      by (cases "find_nic g n") (simp_all add: add_gpu_def next_gpu_id_def prog_defs topology_id_next_eq)
  next
    case 3
    then have "ports (snd (add_gpu n g)) = ports g" "links (snd (add_gpu n g)) = links g"
      by (cases "find_nic g n"; simp add: add_gpu_def next_gpu_id_def next_port_id_def prog_defs topology_id_next_eq)+
    then show ?thesis using simple_graph_cong [OF ok graph_ok_add_gpu [OF ok]] simple by simp
  next
    case (4 x)
    let ?h = "with_gpu n (nic_rack x) g" and ?a = "NodeId Gpu (next_value (gpu_ids g))"
    have okh: "graph_ok ?h" using graph_ok_with_gpu [OF ok 4(2,3)] .
    have same: "map port_owner (ports ?h) = map port_owner (ports g)" "map directed_links (links ?h) = map directed_links (links g)"
      by (simp_all add: with_gpu_def Let_def)
    have eq: "snd (add_gpu n g) = linked ?a Local (NodeId Nic n) Local LocalAttachment ?h"
      by (simp add: add_gpu_eq [OF ok 4])
    have ids: "ids_ok g" using ok by (simp add: graph_ok_def)
    have "unat (next_value (gpu_ids g)) = length (gpus g)"
      using ids 4 by (simp add: next_value_position ids_ok_def)
    then have "\<not> contains_node g ?a" using ids by (simp add: contains_node_iff entity_count_def)
    then have "\<not> joined ?h ?a (NodeId Nic n)"
      using joined_known [OF ok] joined_cong [OF ok okh same] by blast
    moreover have "simple_graph ?h" by (rule simple_graph_cong [OF ok okh same simple])
    moreover have "\<not> exhausted (port_ids ?h)" using 4 by (simp add: with_gpu_def Let_def)
    moreover have "graph_ok (linked ?a Local (NodeId Nic n) Local LocalAttachment ?h)"
      using graph_ok_add_gpu [OF ok, of n] by (simp add: eq)
    ultimately show ?thesis unfolding eq using okh by (intro simple_graph_linked) simp_all
  qed
qed

lemma untouched_links:
  "ports (snd (add_rack g)) = ports g \<and> links (snd (add_rack g)) = links g"
  "ports (snd (add_nic r g)) = ports g \<and> links (snd (add_nic r g)) = links g"
  "ports (snd (add_leaf_switch r g)) = ports g \<and> links (snd (add_leaf_switch r g)) = links g"
  "ports (snd (add_spine_switch g)) = ports g \<and> links (snd (add_spine_switch g)) = links g"
  "ports (snd (set_switch_state s st g)) = ports g \<and> links (snd (set_switch_state s st g)) = links g"
  by (auto simp: add_rack_def add_nic_def add_leaf_switch_def add_spine_switch_def set_switch_state_def
      next_rack_id_def next_nic_id_def next_switch_id_def prog_defs topology_id_next_eq split: option.splits)

lemma states_keep_wiring:
  "map port_owner (ports (snd (set_link_state l st g))) = map port_owner (ports g)"
  "map directed_links (links (snd (set_link_state l st g))) = map directed_links (links g)"
  "map port_owner (ports (snd (set_port_state p st g))) = map port_owner (ports g)"
  "map directed_links (links (snd (set_port_state p st g))) = map directed_links (links g)"
  by (auto simp: set_link_state_def set_port_state_def map_update_nth directed_links_def
      directed_link_a_to_b_def directed_link_b_to_a_def split: option.splits)

lemma graph_call_step_simple:
  assumes "graph_ok g" "simple_graph g"
  shows "simple_graph (graph_call_step c g)"
proof -
  note cong = simple_graph_cong [OF assms(1) graph_call_step_ok [OF assms(1), of c]]
  show ?thesis
    by (cases c) (use assms cong in \<open>simp_all add: simple_add_gpu simple_connect_fabric untouched_links states_keep_wiring\<close>)
qed

lemma graph_calls_simple:
  "graph_ok g \<Longrightarrow> simple_graph g \<Longrightarrow> simple_graph (fold graph_call_step cs g)"
  by (induction cs arbitrary: g) (simp_all add: graph_call_step_simple graph_call_step_ok)

lemma empty_graph_simple: "simple_graph empty_graph"
  by (simp add: simple_graph_def empty_graph_def)

section \<open>The revision counter\<close>

definition state_call :: "graph_call \<Rightarrow> bool" where
  "state_call c = (case c of CallLinkState _ _ \<Rightarrow> True | CallPortState _ _ \<Rightarrow> True | CallSwitchState _ _ \<Rightarrow> True | _ \<Rightarrow> False)"

lemma u64_suc: "x \<noteq> u64_max \<Longrightarrow> unat (x + 1) = Suc (unat x)" for x :: u64
  using unat_plus_no_overflow [of x 1] unat_u64_bound [of x]
  by (cases "unat x = 2 ^ 64 - 1") (auto simp: word_unat_eq_iff unsigned_minus_1_eq_mask mask_eq_exp_minus_1)

lemma state_call_step:
  assumes "state_call c"
  shows "graph_call_step c g = g
     \<or> unat (operational_revision (graph_call_step c g)) = Suc (unat (operational_revision g))"
  using assms u64_suc [of "operational_revision g"]
  by (cases c) (auto simp: state_call_def set_link_state_def set_port_state_def set_switch_state_def split: option.splits)

lemma state_calls_revision:
  assumes "list_all state_call cs"
  shows "fold graph_call_step cs g = g
     \<or> unat (operational_revision g) < unat (operational_revision (fold graph_call_step cs g))"
  using assms
proof (induction cs arbitrary: g)
  case (Cons c cs)
  from Cons.prems state_call_step [of c g] Cons.IH [of "graph_call_step c g"] show ?case by auto
qed simp

section \<open>Properties\<close>

text \<open>C22. Whatever calls are made of a new topology graph, in any order and whether or not they are
  rejected, the adjacency list of a known node holds exactly the directed links that leave one of its
  ports, in creation order, and asking for an unknown node raises the out-of-range error.\<close>

theorem adjacency_exact:
  "let g = fold graph_call_step cs empty_graph
   in outgoing g n = (if contains_node g n
        then Inr (filter (\<lambda>d. source_owner g d = Some n) (concat (map directed_links (links g))))
        else Inl (OutOfRange ''cannot query adjacency for an unknown topology node''))"
  by (simp only: Let_def outgoing_eq [OF graph_calls_ok [OF empty_graph_ok]])

text \<open>C23. A topology graph built by any sequence of calls is simple: every link joins two different
  nodes, and no two links join the same two nodes.\<close>

theorem topology_simple:
  "let g = fold graph_call_step cs empty_graph
   in distinct (map (link_owners g) (links g)) \<and> {card (link_owners g l) | l. l \<in> set (links g)} \<subseteq> {2}"
  using graph_calls_simple [OF empty_graph_ok empty_graph_simple, of cs]
  by (auto simp: Let_def simple_graph_def)

text \<open>C24. Connecting two nodes is exact about errors: it is refused, changing nothing, precisely when a
  node is unknown, the nodes are equal, one is a GPU, a role is local, the nodes are already joined, or
  the port identifiers have run out; otherwise the new link joins them and the graph stays well formed.\<close>

theorem connect_fabric_exact:
  assumes "graph_ok g"
  shows "case connect_rejection g a ra b rb of
           Some e \<Rightarrow> connect_fabric a ra b rb g = (Inl e, g)
         | None \<Rightarrow> \<exists>h. connect_fabric a ra b rb g = (Inr (next_value (link_ids g)), h)
             \<and> graph_ok h \<and> directly_connected h a b = Inr True \<and> length (links h) = Suc (length (links g))"
proof (cases "connect_rejection g a ra b rb")
  case (Some e)
  then show ?thesis by (simp add: connect_fabric_rejected)
next
  case None
  let ?k = "own_port b (next_value (issue_id (port_ids g))) (own_port a (next_value (port_ids g)) g)"
  let ?h = "linked a ra b rb Fabric ?k"
  have h: "connect_fabric a ra b rb g = (Inr (next_value (link_ids g)), ?h)"
    by (rule connect_fabric_accepted [OF assms None])
  then have ok: "graph_ok ?h" using graph_ok_connect_fabric [OF assms, of a ra b rb] by simp
  from None have a: "contains_node g a" and ne: "\<not> exhausted (port_ids ?k)"
    by (auto simp: connect_rejection_def split: if_splits sum.splits bool.splits)
  have okk: "graph_ok ?k" using assms by (simp add: graph_ok_own_port)
  have "contains_node ?h a"
    using a ok okk assms by (cases "kind a") (auto simp: graph_ok_def contains_node_iff entity_count_def linked_def Let_def own_port_def
        split: node_kind.splits)
  moreover have "joined ?h a b"
    using port_pair [of ?k] ne okk ok unfolding joined_def image_iff
    by (intro bexI [of _ "last (links ?h)"])
      (auto simp: linked_def Let_def link_owners_def graph_ok_def find_eqs nth_append next_value_position id_position_issue ids_ok_def)
  moreover have "length (links ?h) = Suc (length (links g))" by (simp add: linked_def Let_def)
  ultimately show ?thesis using None h ok by (simp add: joined_iff_connected)
qed

theorem connect_fabric_exact_witness:
  "let g = fold graph_call_step [CallAddRack, CallAddLeaf 0, CallAddSpine] empty_graph
   in graph_ok g \<and> (\<exists>h. connect_fabric (NodeId Switch 0) FabricUplink (NodeId Switch 1) FabricDownlink g = (Inr 0, h)
        \<and> graph_ok h \<and> directly_connected h (NodeId Switch 0) (NodeId Switch 1) = Inr True)"
proof -
  define g where "g = fold graph_call_step [CallAddRack, CallAddLeaf 0, CallAddSpine] empty_graph"
  have ok: "graph_ok g" unfolding g_def by (rule graph_calls_ok [OF empty_graph_ok])
  have "connect_rejection g (NodeId Switch 0) FabricUplink (NodeId Switch 1) FabricDownlink = None"
      "next_value (link_ids g) = 0"
    unfolding g_def by code_simp+
  with connect_fabric_exact [OF ok, of "NodeId Switch 0" FabricUplink "NodeId Switch 1" FabricDownlink] ok
  show ?thesis unfolding g_def [symmetric] Let_def by auto
qed

text \<open>C25. The revision counter is faithful: after any changes of link, port and switch states, a counter
  that reads the same as before means that the graph is the same as before. (The counter does not wrap:
  a change that would overflow it is refused.)\<close>

theorem revision_faithful:
  assumes "list_all state_call cs"
    and "operational_revision (fold graph_call_step cs g) = operational_revision g"
  shows "fold graph_call_step cs g = g"
  using state_calls_revision [OF assms(1), of g] assms(2) by auto

theorem revision_faithful_witness:
  "let g = fold graph_call_step [CallAddRack, CallAddLeaf 0] empty_graph
   in fold graph_call_step [CallSwitchState 0 Up, CallLinkState 7 Down] g = g"
proof -
  let ?g = "fold graph_call_step [CallAddRack, CallAddLeaf 0] empty_graph"
  have "operational_revision (fold graph_call_step [CallSwitchState 0 Up, CallLinkState 7 Down] ?g) = operational_revision ?g"
    by code_simp
  then show ?thesis unfolding Let_def by (intro revision_faithful) (simp_all add: state_call_def)
qed

end
