(* ===== verification/Transport.thy ===== *)
theory Transport
  imports Link_Service Topology_Graph
begin

text \<open>
  The transport runtime (\<^verbatim>\<open>transport/runtime.hpp\<close>, \<^verbatim>\<open>transport/runtime.cpp\<close>, \<^verbatim>\<open>transport/progress.cpp\<close>,
  \<^verbatim>\<open>transport/failure.cpp\<close>, \<^verbatim>\<open>transport/telemetry.cpp\<close>): registration and submission of transfers, the
  handlers of arrivals, completions and state changes, terminal accounting and snapshots. The runtime
  works on a topology it shares with the other components and in a simulation context, so its
  operations are programs over the simulation paired with the network. The tests that an operational
  state is \<^verbatim>\<open>Up\<close> or \<^verbatim>\<open>Down\<close> cannot fail for a value of the enumeration.
\<close>

section \<open>State\<close>

datatype chunk_transit_state = Registered | AwaitingArrival | Admitted | Delivered | DroppedFull | DroppedDown

datatype transfer_outcome = OutcomePending | OutcomeSucceeded | OutcomeFailed

primrec transfer_outcome_code :: "transfer_outcome \<Rightarrow> u64" where
  "transfer_outcome_code OutcomePending = 1"
| "transfer_outcome_code OutcomeSucceeded = 2"
| "transfer_outcome_code OutcomeFailed = 3"

record routed_chunk =
  rc_chunk :: transfer_chunk
  rc_route :: "directed_link_id list"

record transfer_request =
  req_source :: node_id
  req_destination :: node_id
  req_bytes :: byte_count
  req_maximum_chunk_bytes :: byte_count
  req_route :: "directed_link_id list"

record submitted_transfer =
  sub_id :: transfer_id
  sub_chunks :: "(chunk_id \<times> byte_count) list"

record chunk_transit_snapshot =
  cts_state :: chunk_transit_state
  cts_hop_index :: u32
  cts_marked :: bool

record transfer_completion =
  tcm_transfer :: transfer_id
  tcm_outcome :: transfer_outcome
  tcm_timestamp :: sim_time
  tcm_delivered :: traffic_count
  tcm_dropped_buffer_full :: traffic_count
  tcm_dropped_link_down :: traffic_count

record transfer_snapshot =
  xs_total :: traffic_count
  xs_registered :: traffic_count
  xs_awaiting_initial_arrival :: traffic_count
  xs_waiting :: traffic_count
  xs_active :: traffic_count
  xs_propagating :: traffic_count
  xs_delivered :: traffic_count
  xs_dropped_buffer_full :: traffic_count
  xs_dropped_link_down :: traffic_count
  xs_started_at :: "sim_time option"
  xs_completion :: "transfer_completion option"

record transport_limits =
  maximum_chunks :: size_t
  maximum_route_entries :: size_t
  maximum_route_hops :: size_t

record chunk_record =
  cr_chunk :: transfer_chunk
  cr_route :: "directed_link_id list"
  cr_state :: chunk_transit_state
  cr_hop_index :: u32
  scheduled_arrival :: "event_id option"

record transfer_record =
  xr_chunks :: "chunk_id list"
  xr_total :: traffic_count
  xr_delivered :: traffic_count
  xr_dropped_buffer_full :: traffic_count
  xr_dropped_link_down :: traffic_count
  xr_started_at :: "sim_time option"
  xr_completion :: "transfer_completion option"

definition new_transfer_record :: transfer_record where
  "new_transfer_record = \<lparr>xr_chunks = [], xr_total = no_traffic, xr_delivered = no_traffic,
     xr_dropped_buffer_full = no_traffic, xr_dropped_link_down = no_traffic, xr_started_at = None,
     xr_completion = None\<rparr>"

record network =
  net_topology :: topology_graph
  net_limits :: transport_limits
  net_sink :: bool
  route_entries :: size_t
  transfers :: "(transfer_id, transfer_record) omap"
  completions :: "transfer_completion list"
  transfer_ids :: id_generator
  chunk_ids :: id_generator
  services :: "(directed_link_id, link_service) omap"
  reported_busy_time :: "(directed_link_id, u64) omap"
  chunks :: "(chunk_id, chunk_record) omap"

type_synonym world = "simulation \<times> network"

definition zoom_net :: "(network, 'a) prog \<Rightarrow> (world, 'a) prog" where
  "zoom_net = zoom snd (\<lambda>n w. (fst w, n))"

definition getn :: "(network \<Rightarrow> 'a) \<Rightarrow> (world, 'a) prog" where
  "getn f = gets (f \<circ> snd)"

definition modn :: "(network \<Rightarrow> network) \<Rightarrow> (world, unit) prog" where
  "modn f = zoom_net (modify f)"

definition now :: "(world, sim_time) prog" where
  "now = gets (sim_now \<circ> fst)"

section \<open>Lookups and checks\<close>

definition require_fabric_arc :: "network \<Rightarrow> directed_link_id \<Rightarrow> exn + directed_link" where
  "require_fabric_arc n link =
     (case find_link (net_topology n) (dl_link link) of
        None \<Rightarrow> Inl (InvalidArgument ''transport link must identify a known fabric arc'')
      | Some physical \<Rightarrow>
          if link_kind physical \<noteq> Fabric
          then Inl (InvalidArgument ''transport link must identify a known fabric arc'')
          else (case dl_direction link of
                  AToB \<Rightarrow> Inr (directed_link_a_to_b physical)
                | BToA \<Rightarrow> Inr (directed_link_b_to_a physical)))"

definition find_service :: "network \<Rightarrow> directed_link_id \<Rightarrow> link_service option" where
  "find_service n link = map_of (services n) link"

definition validate_capacity :: "network \<Rightarrow> size_t \<Rightarrow> size_t \<Rightarrow> exn + unit" where
  "validate_capacity n cnt hops =
     (if hops > maximum_route_hops (net_limits n)
         \<or> cnt > size_sub (maximum_chunks (net_limits n)) (length (chunks n))
         \<or> hops \<noteq> 0 \<and> cnt > size_sub (maximum_route_entries (net_limits n)) (route_entries n) div hops
      then Inl (LengthError ''transport retained-state limit exceeded'')
      else Inr ())"

fun validate_timing :: "network \<Rightarrow> byte_count \<Rightarrow> directed_link_id list \<Rightarrow> sim_time \<Rightarrow> exn + unit" where
  "validate_timing n bytes [] time = Inr ()"
| "validate_timing n bytes (link # route) time =
     (case find_service n link of
        None \<Rightarrow> Inl (InvalidArgument ''route uses an unconfigured link'')
      | Some service \<Rightarrow>
          let config = lq_configuration (svc_queue service)
          in case serialization_delay bytes (bandwidth config) of
               None \<Rightarrow> Inl (OverflowError ''serialization delay exceeds simulated-time range'')
             | Some delay \<Rightarrow>
                 (case Option.bind (checked_add time delay) (\<lambda>serialized. checked_add serialized (propagation_delay config)) of
                    None \<Rightarrow> Inl (OverflowError ''route timing exceeds simulated-time range'')
                  | Some propagated \<Rightarrow> validate_timing n bytes route propagated))"

definition port_owner_of :: "network \<Rightarrow> port_id \<Rightarrow> node_id option" where
  "port_owner_of n p = map_option port_owner (find_port (net_topology n) p)"

text \<open>The loop over the links after the first: each must start where the previous one ended.\<close>

fun check_hops :: "network \<Rightarrow> directed_link \<Rightarrow> directed_link_id list \<Rightarrow> exn + directed_link" where
  "check_hops n previous [] = Inr previous"
| "check_hops n previous (link # route) =
     bindR (require_fabric_arc n link) (\<lambda>directed.
     if find_service n link = None
     then Inl (InvalidArgument ''routed chunk path uses an unconfigured directed link'')
     else if port_owner_of n (arc_destination previous) = None \<or> port_owner_of n (arc_source directed) = None
          \<or> port_owner_of n (arc_destination previous) \<noteq> port_owner_of n (arc_source directed)
     then Inl (InvalidArgument ''routed chunk path is not contiguous'')
     else check_hops n directed route)"

definition validate_route ::
  "network \<Rightarrow> directed_link_id list \<Rightarrow> node_id option \<Rightarrow> node_id option \<Rightarrow> exn + unit" where
  "validate_route n route expected_source expected_destination =
     bindR (validate_capacity n 0 (length route)) (\<lambda>_.
     case route of
       [] \<Rightarrow> Inl (InvalidArgument ''routed chunk path must be nonempty'')
     | link # rest \<Rightarrow>
         if int (length route) > 4294967295
         then Inl (OverflowError ''routed chunk path exceeds hop-index range'')
         else
           bindR (require_fabric_arc n link) (\<lambda>first.
           if find_service n link = None
           then Inl (InvalidArgument ''routed chunk path uses an unconfigured directed link'')
           else
             bindR (check_hops n first rest) (\<lambda>last_arc.
             if expected_source \<noteq> None \<and> (port_owner_of n (arc_source first) = None
                  \<or> port_owner_of n (arc_source first) \<noteq> expected_source)
             then Inl (InvalidArgument ''routed transfer source does not match path'')
             else if expected_destination \<noteq> None \<and> (port_owner_of n (arc_destination last_arc) = None
                  \<or> port_owner_of n (arc_destination last_arc) \<noteq> expected_destination)
             then Inl (InvalidArgument ''routed transfer destination does not match path'')
             else Inr ())))"

definition require_chunk :: "chunk_id \<Rightarrow> (world, chunk_record) prog" where
  "require_chunk i =
     bind (getn (\<lambda>n. map_of (chunks n) i)) (\<lambda>found.
     case found of
       None \<Rightarrow> throw (InvalidArgument ''unknown routed chunk identifier'')
     | Some r \<Rightarrow> return r)"

definition require_service :: "directed_link_id \<Rightarrow> (world, link_service) prog" where
  "require_service link =
     bind (getn (\<lambda>n. find_service n link)) (\<lambda>found.
     case found of
       None \<Rightarrow> throw (InvalidArgument ''unknown directed-link transport service'')
     | Some s \<Rightarrow> return s)"

text \<open>Assignments through the references the sources take into the maps.\<close>

definition put_chunk :: "chunk_id \<Rightarrow> chunk_record \<Rightarrow> (world, unit) prog" where
  "put_chunk i r = modn (\<lambda>n. n\<lparr>chunks := omap_put i r (chunks n)\<rparr>)"

definition put_transfer :: "transfer_id \<Rightarrow> transfer_record \<Rightarrow> (world, unit) prog" where
  "put_transfer i r = modn (\<lambda>n. n\<lparr>transfers := omap_put i r (transfers n)\<rparr>)"

definition in_service :: "directed_link_id \<Rightarrow> (service_state, 'a) prog \<Rightarrow> (world, 'a) prog" where
  "in_service link m =
     bind (require_service link) (\<lambda>svc w.
       case m (fst w, svc) of
         (r, sim, svc') \<Rightarrow> (r, sim, (snd w)\<lparr>services := omap_put link svc' (services (snd w))\<rparr>))"

definition link_statistics_now :: "directed_link_id \<Rightarrow> (world, link_statistics) prog" where
  "link_statistics_now link =
     bind (require_service link) (\<lambda>svc.
     bind now (\<lambda>t. lift_res (service_statistics t svc)))"

definition transfer_at :: "transfer_id \<Rightarrow> (world, transfer_record) prog" where
  "transfer_at i =
     bind (getn (\<lambda>n. map_of (transfers n) i)) (\<lambda>found.
     case found of None \<Rightarrow> throw (OutOfRange ''map::at'') | Some x \<Rightarrow> return x)"

section \<open>Telemetry\<close>

definition net_telemetry_enabled :: "(world, bool) prog" where
  "net_telemetry_enabled = gets (\<lambda>(sim, n). sink_enabled (net_sink n) (sim_session sim))"

definition net_record :: "correlation \<Rightarrow> telemetry_observation \<Rightarrow> (world, unit) prog" where
  "net_record c ob =
     bind now (\<lambda>t.
     bind (getn net_sink) (\<lambda>sink.
     zoom_sim (zoom_session (sink_record sink t c ob))))"

definition event_correlation :: "(world, correlation) prog" where
  "event_correlation =
     bind (zoom_sim current_event_id) (\<lambda>i.
     bind (zoom_sim current_cause) (\<lambda>cs.
     return (no_correlation\<lparr>cor_event := Some i, cor_cause := cs\<rparr>)))"

definition transport_link_labels :: "directed_link_id \<Rightarrow> metric_labels" where
  "transport_link_labels link =
     [(LabelLink, dl_link link), (LabelDirection, link_direction_code (dl_direction link))]"

definition emit_transfer ::
  "chunk_record \<Rightarrow> transfer_transition \<Rightarrow> directed_link_id option \<Rightarrow> transfer_reason \<Rightarrow> (world, unit) prog" where
  "emit_transfer r tr link reason =
     bind net_telemetry_enabled (\<lambda>on.
     perform_if on
       (bind event_correlation (\<lambda>c.
        net_record (c\<lparr>cor_transfer := Some (tc_transfer (cr_chunk r)), cor_chunk := Some (tc_id (cr_chunk r)),
                      cor_link := link\<rparr>)
          (TransferObservation tr (tc_bytes (cr_chunk r)) (cr_hop_index r) reason))))"

definition emit_queue :: "chunk_record \<Rightarrow> directed_link_id \<Rightarrow> queue_transition \<Rightarrow> (world, unit) prog" where
  "emit_queue r link tr =
     bind net_telemetry_enabled (\<lambda>on.
     perform_if on
       (bind event_correlation (\<lambda>c.
        bind (require_service link) (\<lambda>svc.
        let snapshot = queue_snapshot_of (svc_queue svc)
        in net_record (c\<lparr>cor_transfer := Some (tc_transfer (cr_chunk r)), cor_chunk := Some (tc_id (cr_chunk r)),
                      cor_link := Some link\<rparr>)
             (QueueObservation tr (tc_bytes (cr_chunk r)) (snap_waiting_bytes snapshot)
                (of_nat (snap_waiting_chunks snapshot)))))))"

definition counter_delta :: "u64 \<Rightarrow> u64 \<Rightarrow> exn + u64" where
  "counter_delta before after =
     (if after < before then Inl (LogicError ''transport telemetry counter regressed'') else Inr (after - before))"

definition emit_delta ::
  "correlation \<Rightarrow> metric_labels \<Rightarrow> metric_id \<Rightarrow> metric_id \<Rightarrow> traffic_count \<Rightarrow> traffic_count \<Rightarrow> (world, unit) prog" where
  "emit_delta c labels bytes_metric chunks_metric earlier later =
     bind (lift_res (counter_delta (traffic_bytes earlier) (traffic_bytes later))) (\<lambda>bytes.
     bind (lift_res (counter_delta (traffic_chunks earlier) (traffic_chunks later))) (\<lambda>cnt.
     seq (perform_if (bytes \<noteq> 0) (net_record c (CounterObservation bytes_metric labels bytes)))
         (perform_if (cnt \<noteq> 0) (net_record c (CounterObservation chunks_metric labels cnt)))))"

definition emit_busy_time :: "correlation \<Rightarrow> metric_labels \<Rightarrow> directed_link_id \<Rightarrow> u64 \<Rightarrow> (world, unit) prog" where
  "emit_busy_time c labels link busy =
     bind (getn (\<lambda>n. map_of (reported_busy_time n) link)) (\<lambda>found.
     case found of
       None \<Rightarrow> throw (OutOfRange ''map::at'')
     | Some reported \<Rightarrow>
         bind (lift_res (counter_delta reported busy)) (\<lambda>elapsed.
         seq (perform_if (elapsed \<noteq> 0)
               (net_record c (CounterObservation MetricLinkSerializerBusyNs labels elapsed)))
             (modn (\<lambda>n. n\<lparr>reported_busy_time := omap_put link busy (reported_busy_time n)\<rparr>))))"

definition emit_link_metrics ::
  "directed_link_id \<Rightarrow> link_statistics \<Rightarrow> link_statistics \<Rightarrow> (world, unit) prog" where
  "emit_link_metrics link before after =
     bind net_telemetry_enabled (\<lambda>on.
     perform_if on
       (bind event_correlation (\<lambda>c0.
        let c = c0\<lparr>cor_link := Some link\<rparr>; labels = transport_link_labels link
        in seq (emit_delta c labels MetricLinkAcceptedBytes MetricLinkAcceptedChunks (ls_enqueued before) (ls_enqueued after))
          (seq (emit_delta c labels MetricLinkSerializedBytes MetricLinkSerializedChunks (ls_completed before) (ls_completed after))
          (seq (emit_delta c labels MetricLinkMarkedBytes MetricLinkMarkedChunks (ls_marked before) (ls_marked after))
          (seq (emit_delta c labels MetricLinkDroppedBufferFullBytes MetricLinkDroppedBufferFullChunks
                  (ls_dropped_buffer_full before) (ls_dropped_buffer_full after))
          (seq (emit_delta c labels MetricLinkDroppedDownBytes MetricLinkDroppedDownChunks
                  (ls_dropped_link_down before) (ls_dropped_link_down after))
               (emit_busy_time c labels link (ls_busy_time after)))))))))"

definition emit_queue_gauges :: "directed_link_id \<Rightarrow> queue_snapshot \<Rightarrow> (world, unit) prog" where
  "emit_queue_gauges link snapshot =
     bind net_telemetry_enabled (\<lambda>on.
     perform_if on
       (bind event_correlation (\<lambda>c0.
        let c = c0\<lparr>cor_link := Some link\<rparr>; labels = transport_link_labels link
        in seq (net_record c (GaugeObservation MetricLinkQueueWaitingBytes labels (snap_waiting_bytes snapshot)))
          (seq (net_record c (GaugeObservation MetricLinkQueueWaitingChunks labels (of_nat (snap_waiting_chunks snapshot))))
               (net_record c (GaugeObservation MetricLinkMaximumWaitingBytes labels (snap_maximum_waiting_bytes snapshot)))))))"

definition emit_gauges_now :: "directed_link_id \<Rightarrow> (world, unit) prog" where
  "emit_gauges_now link =
     bind (require_service link) (\<lambda>svc. emit_queue_gauges link (queue_snapshot_of (svc_queue svc)))"

section \<open>Construction and registration\<close>

definition add_service :: "directed_link_configuration \<Rightarrow> (network, unit) prog" where
  "add_service config =
     bind (gets (\<lambda>n. require_fabric_arc n (cfg_link config))) (\<lambda>arc.
     bind (lift_res arc) (\<lambda>_.
     bind (gets (\<lambda>n. find_service n (cfg_link config))) (\<lambda>present.
     bind (if present = None then lift_res (new_link_service config)
           else throw (InvalidArgument ''duplicate directed-link transport configuration'')) (\<lambda>svc.
     modify (\<lambda>n. n\<lparr>services := omap_put (cfg_link config) svc (services n),
                   reported_busy_time := omap_put (cfg_link config) 0 (reported_busy_time n)\<rparr>)))))"

definition new_transport ::
  "topology_graph \<Rightarrow> directed_link_configuration list \<Rightarrow> transport_limits \<Rightarrow> bool \<Rightarrow> exn + network" where
  "new_transport g configurations lim sink =
     (if maximum_chunks lim = 0 \<or> maximum_route_entries lim = 0 \<or> maximum_route_hops lim = 0
      then Inl (InvalidArgument ''transport limits must be positive'')
      else case for_each add_service configurations
             \<lparr>net_topology = g, net_limits = lim, net_sink = sink, route_entries = 0, transfers = [],
              completions = [], transfer_ids = new_id_generator 0, chunk_ids = new_id_generator 0,
              services = [], reported_busy_time = [], chunks = []\<rparr> of
             (Inl e, _) \<Rightarrow> Inl e
           | (Inr _, n) \<Rightarrow> Inr n)"

text \<open>The second test for a duplicate identifier repeats the first and cannot fail after it.\<close>

definition register_chunk :: "routed_chunk \<Rightarrow> (network, unit) prog" where
  "register_chunk rc =
     (let c = rc_chunk rc; i = tc_id c; t = tc_transfer c; route = rc_route rc
      in seq (throw_if (tc_bytes c = 0) (InvalidArgument ''routed chunk must contain nonzero bytes''))
        (seq (throw_if (tc_hop_index c \<noteq> 0) (InvalidArgument ''new routed chunk must begin at hop zero''))
        (bind (gets (\<lambda>n. validate_route n route None None)) (\<lambda>v.
         bind (lift_res v) (\<lambda>_.
         bind (gets (\<lambda>n. validate_capacity n 1 (length route))) (\<lambda>v.
         bind (lift_res v) (\<lambda>_.
         bind (gets (\<lambda>n. validate_timing n (tc_bytes c) route 0)) (\<lambda>v.
         bind (lift_res v) (\<lambda>_.
         bind (gets (\<lambda>n. map_of (chunks n) i)) (\<lambda>duplicate.
         seq (throw_if (duplicate \<noteq> None) (InvalidArgument ''duplicate routed chunk identifier''))
        (bind (gets (\<lambda>n. map_of (transfers n) t)) (\<lambda>existing.
         seq (throw_if (case existing of None \<Rightarrow> False | Some x \<Rightarrow> xr_started_at x \<noteq> None)
               (InvalidArgument ''cannot append chunks to a sealed transfer''))
        (bind (lift_res (add_traffic (case existing of None \<Rightarrow> no_traffic | Some x \<Rightarrow> xr_total x) (one_chunk c))) (\<lambda>total_count.
         modify (\<lambda>n.
           let x = (case existing of None \<Rightarrow> new_transfer_record | Some x \<Rightarrow> x)
           in n\<lparr>chunks := omap_put i \<lparr>cr_chunk = c, cr_route = route, cr_state = Registered, cr_hop_index = 0,
                                     scheduled_arrival = None\<rparr> (chunks n),
                transfers := omap_put t (x\<lparr>xr_chunks := xr_chunks x @ [i], xr_total := total_count\<rparr>) (transfers n),
                route_entries := route_entries n + length route,
                transfer_ids := advance_past t (transfer_ids n),
                chunk_ids := advance_past i (chunk_ids n)\<rparr>)))))))))))))))"

definition schedule_initial_arrival :: "chunk_id \<Rightarrow> (world, event_id) prog" where
  "schedule_initial_arrival i =
     bind (require_chunk i) (\<lambda>r.
     seq (throw_if (cr_state r \<noteq> Registered) (LogicError ''routed chunk initial arrival is already scheduled''))
    (bind now (\<lambda>t.
     bind (getn (\<lambda>n. validate_timing n (tc_bytes (cr_chunk r)) (cr_route r) t)) (\<lambda>v.
     bind (lift_res v) (\<lambda>_.
     bind (zoom_sim (schedule \<lparr>spec_timestamp = t, spec_priority = Normal, spec_payload = ChunkArrivalEvent i 0\<rparr>)) (\<lambda>ev.
     seq (put_chunk i (r\<lparr>cr_state := AwaitingArrival, scheduled_arrival := Some ev\<rparr>))
    (bind (transfer_at (tc_transfer (cr_chunk r))) (\<lambda>x.
     seq (perform_if (xr_started_at x = None)
           (seq (put_transfer (tc_transfer (cr_chunk r)) (x\<lparr>xr_started_at := Some t\<rparr>))
           (bind net_telemetry_enabled (\<lambda>on.
            perform_if on
              (bind event_correlation (\<lambda>c.
               net_record (c\<lparr>cor_transfer := Some (tc_transfer (cr_chunk r))\<rparr>)
                 (TransferObservation TransferSubmitted (traffic_bytes (xr_total x)) 0 ReasonNone)))))))
         (return ev)))))))))"

text \<open>The loop of \<^verbatim>\<open>submit_transfer\<close> that makes the chunks, over the ordinals.\<close>

fun submit_chunks ::
  "transfer_request \<Rightarrow> transfer_id \<Rightarrow> u64 \<Rightarrow> u64 \<Rightarrow> nat list \<Rightarrow> (network, (chunk_id \<times> byte_count) list) prog" where
  "submit_chunks request transfer full_chunks remaining [] = return []"
| "submit_chunks request transfer full_chunks remaining (ordinal # ordinals) =
     (let bytes = (if of_nat ordinal < full_chunks then req_maximum_chunk_bytes request else remaining)
      in bind (zoom chunk_ids (\<lambda>g n. n\<lparr>chunk_ids := g\<rparr>) transport_id_next) (\<lambda>i.
         seq (register_chunk \<lparr>rc_chunk = \<lparr>tc_transfer = transfer, tc_id = i, tc_bytes = bytes, tc_hop_index = 0,
                                         tc_marked = False\<rparr>, rc_route = req_route request\<rparr>)
        (bind (submit_chunks request transfer full_chunks remaining ordinals) (\<lambda>rest.
         return ((i, bytes) # rest)))))"

definition submit_transfer :: "transfer_request \<Rightarrow> (world, submitted_transfer) prog" where
  "submit_transfer request =
     seq (throw_if (req_bytes request = 0) (InvalidArgument ''transfer byte count must be nonzero''))
    (seq (throw_if (req_maximum_chunk_bytes request = 0)
           (InvalidArgument ''maximum chunk byte count must be nonzero''))
    (bind (getn (\<lambda>n. validate_route n (req_route request) (Some (req_source request)) (Some (req_destination request)))) (\<lambda>v.
     bind (lift_res v) (\<lambda>_.
     let full_chunks = req_bytes request div req_maximum_chunk_bytes request;
         remaining = req_bytes request mod req_maximum_chunk_bytes request;
         chunk_count = full_chunks + (if remaining \<noteq> 0 then 1 else 0)
     in bind (getn (\<lambda>n. can_generate 1 (transfer_ids n) \<and> can_generate chunk_count (chunk_ids n))) (\<lambda>ok.
        seq (throw_if (\<not> ok) (OverflowError ''transport ID sequence cannot represent submitted transfer''))
       (bind (getn (\<lambda>n. validate_capacity n (unat chunk_count) (length (req_route request)))) (\<lambda>v.
        bind (lift_res v) (\<lambda>_.
        bind now (\<lambda>t.
        bind (getn (\<lambda>n. if full_chunks \<noteq> 0 then validate_timing n (req_maximum_chunk_bytes request) (req_route request) t else Inr ())) (\<lambda>v.
        bind (lift_res v) (\<lambda>_.
        bind (getn (\<lambda>n. if remaining \<noteq> 0 then validate_timing n remaining (req_route request) t else Inr ())) (\<lambda>v.
        bind (lift_res v) (\<lambda>_.
        bind (zoom_net (zoom transfer_ids (\<lambda>g n. n\<lparr>transfer_ids := g\<rparr>) transport_id_next)) (\<lambda>transfer.
        bind (zoom_net (submit_chunks request transfer full_chunks remaining [0..<unat chunk_count])) (\<lambda>made.
        seq (for_each (\<lambda>(i, _). bind (schedule_initial_arrival i) (\<lambda>_. return ())) made)
            (return \<lparr>sub_id = transfer, sub_chunks = made\<rparr>))))))))))))))))"

section \<open>Terminal accounting\<close>

definition record_terminal_counts :: "chunk_record \<Rightarrow> transfer_record \<Rightarrow> exn + transfer_record" where
  "record_terminal_counts r x =
     (case cr_state r of
        Delivered \<Rightarrow> bindR (add_traffic (xr_delivered x) (one_chunk (cr_chunk r))) (\<lambda>t. Inr (x\<lparr>xr_delivered := t\<rparr>))
      | DroppedFull \<Rightarrow> bindR (add_traffic (xr_dropped_buffer_full x) (one_chunk (cr_chunk r))) (\<lambda>t. Inr (x\<lparr>xr_dropped_buffer_full := t\<rparr>))
      | DroppedDown \<Rightarrow> bindR (add_traffic (xr_dropped_link_down x) (one_chunk (cr_chunk r))) (\<lambda>t. Inr (x\<lparr>xr_dropped_link_down := t\<rparr>))
      | _ \<Rightarrow> Inl (LogicError ''nonterminal chunk cannot finish a transfer''))"

definition emit_terminal_transfer :: "transfer_completion \<Rightarrow> transfer_record \<Rightarrow> (world, unit) prog" where
  "emit_terminal_transfer c x =
     bind net_telemetry_enabled (\<lambda>on.
     perform_if on
       (bind event_correlation (\<lambda>cor0.
        let cor = cor0\<lparr>cor_transfer := Some (tcm_transfer c)\<rparr>;
            reason = (if traffic_chunks (tcm_dropped_buffer_full c) \<noteq> 0 then ReasonBufferFull
                      else if traffic_chunks (tcm_dropped_link_down c) \<noteq> 0 then ReasonResourceDown
                      else ReasonNone)
        in seq (net_record cor (TransferObservation
                  (if tcm_outcome c = OutcomeSucceeded then TransferSucceeded else TransferFailed)
                  (traffic_bytes (xr_total x)) 0 reason))
               (net_record cor (CounterObservation MetricTransferTerminalTotal
                  [(LabelOutcome, transfer_outcome_code (tcm_outcome c))] 1)))))"

text \<open>
  The counter of the transfer is assigned before the sums are formed, so it is kept when they overflow.
\<close>

definition net_record_terminal :: "chunk_record \<Rightarrow> (world, unit) prog" where
  "net_record_terminal r =
     (let i = tc_transfer (cr_chunk r)
      in bind now (\<lambda>t.
         bind (transfer_at i) (\<lambda>x.
         seq (throw_if (xr_completion x \<noteq> None) (LogicError ''transfer already completed''))
        (bind (lift_res (record_terminal_counts r x)) (\<lambda>x.
         seq (put_transfer i x)
        (bind (lift_res (add_traffic (xr_dropped_buffer_full x) (xr_dropped_link_down x))) (\<lambda>drops.
         bind (lift_res (add_traffic (xr_delivered x) drops)) (\<lambda>ended.
         perform_if (traffic_chunks ended = traffic_chunks (xr_total x))
           (seq (throw_if (traffic_bytes ended \<noteq> traffic_bytes (xr_total x))
                  (LogicError ''terminal transfer byte accounting mismatch''))
           (let c = \<lparr>tcm_transfer = i,
                     tcm_outcome = (if traffic_chunks drops = 0 then OutcomeSucceeded else OutcomeFailed),
                     tcm_timestamp = t, tcm_delivered = xr_delivered x,
                     tcm_dropped_buffer_full = xr_dropped_buffer_full x,
                     tcm_dropped_link_down = xr_dropped_link_down x\<rparr>
            in seq (modn (\<lambda>n. n\<lparr>completions := completions n @ [c]\<rparr>))
              (seq (put_transfer i (x\<lparr>xr_completion := Some c\<rparr>))
                   (emit_terminal_transfer c x))))))))))))"

definition mark_dropped :: "directed_link_id \<Rightarrow> transfer_chunk \<Rightarrow> (world, unit) prog" where
  "mark_dropped link c =
     bind (require_chunk (tc_id c)) (\<lambda>r.
     seq (throw_if (cr_state r \<noteq> Admitted \<or> cr_hop_index r \<noteq> tc_hop_index c
                    \<or> unat (cr_hop_index r) \<ge> length (cr_route r)
                    \<or> cr_route r ! unat (cr_hop_index r) \<noteq> link)
           (LogicError ''drained service chunk does not match routed chunk state''))
    (let r' = r\<lparr>cr_chunk := c, cr_state := DroppedDown\<rparr>
     in seq (put_chunk (tc_id c) r')
       (seq (emit_queue r' link QueueDropped)
       (seq (emit_transfer r' ChunkDropped (Some link) ReasonResourceDown)
            (net_record_terminal r')))))"

definition mark_dropped_link_down :: "queue_drain \<Rightarrow> directed_link_id \<Rightarrow> (world, unit) prog" where
  "mark_dropped_link_down drained link =
     seq (case drained_active drained of None \<Rightarrow> return () | Some c \<Rightarrow> mark_dropped link c)
         (for_each (mark_dropped link) (drained_waiting drained))"

section \<open>Handlers\<close>

definition handle_arrival_down :: "chunk_id \<Rightarrow> chunk_record \<Rightarrow> directed_link_id \<Rightarrow> (world, unit) prog" where
  "handle_arrival_down i r link =
     bind (link_statistics_now link) (\<lambda>before.
     seq (in_service link (zoom_svc (record_link_down (cr_chunk r))))
    (bind (link_statistics_now link) (\<lambda>after.
     let r' = r\<lparr>scheduled_arrival := None, cr_state := DroppedDown\<rparr>
     in seq (put_chunk i r')
       (seq (emit_queue r' link QueueDropped)
       (seq (emit_transfer r' ChunkDropped (Some link) ReasonResourceDown)
       (seq (emit_link_metrics link before after)
       (seq (emit_gauges_now link)
            (net_record_terminal r'))))))))"

definition emit_admission :: "chunk_record \<Rightarrow> directed_link_id \<Rightarrow> admission_result \<Rightarrow> (world, unit) prog" where
  "emit_admission r link admission =
     (if cr_state r = DroppedFull
      then seq (emit_queue r link QueueDropped) (emit_transfer r ChunkDropped (Some link) ReasonBufferFull)
      else seq (emit_queue r link QueueEnqueued)
          (seq (perform_if (marked_here admission) (emit_queue r link QueueMarked))
               (if disposition admission = ServiceStarted
                then seq (emit_queue r link QueueServiceStarted) (emit_transfer r ChunkServiceStarted (Some link) ReasonNone)
                else emit_transfer r ChunkQueued (Some link) ReasonNone)))"

definition handle_arrival_admit :: "chunk_id \<Rightarrow> u32 \<Rightarrow> chunk_record \<Rightarrow> directed_link_id \<Rightarrow> (world, unit) prog" where
  "handle_arrival_admit i hop r link =
     (let r = r\<lparr>cr_chunk := (cr_chunk r)\<lparr>tc_hop_index := hop\<rparr>\<rparr>
      in seq (put_chunk i r)
        (bind (link_statistics_now link) (\<lambda>before.
         bind (in_service link (service_admit (cr_chunk r))) (\<lambda>admission.
         bind (link_statistics_now link) (\<lambda>after.
         let r' = r\<lparr>scheduled_arrival := None,
                    cr_chunk := (cr_chunk r)\<lparr>tc_marked := tc_marked (cr_chunk r) \<or> marked_here admission\<rparr>,
                    cr_state := (if disposition admission = DroppedBufferFull then DroppedFull else Admitted)\<rparr>
         in seq (put_chunk i r')
           (seq (emit_admission r' link admission)
           (seq (emit_link_metrics link before after)
           (seq (emit_gauges_now link)
                (perform_if (cr_state r' = DroppedFull) (net_record_terminal r'))))))))))"

definition handle_arrival :: "chunk_id \<Rightarrow> u32 \<Rightarrow> (world, unit) prog" where
  "handle_arrival i hop =
     bind (require_chunk i) (\<lambda>r.
     bind (if cr_state r \<noteq> AwaitingArrival then return True
           else case scheduled_arrival r of
             None \<Rightarrow> return True
           | Some ev \<Rightarrow> bind (zoom_sim current_event_id) (\<lambda>cur. return (ev \<noteq> cur \<or> hop \<noteq> cr_hop_index r))) (\<lambda>unexpected.
     seq (throw_if unexpected (LogicError ''unexpected chunk-arrival event''))
    (if unat hop = length (cr_route r)
     then let r' = r\<lparr>scheduled_arrival := None, cr_state := Delivered\<rparr>
          in seq (put_chunk i r')
            (seq (emit_transfer r' ChunkDelivered None ReasonNone)
                 (net_record_terminal r'))
     else
       let link = cr_route r ! unat hop
       in bind (getn (\<lambda>n. require_fabric_arc n link)) (\<lambda>arc.
          bind (lift_res arc) (\<lambda>directed.
          bind (getn (\<lambda>n. is_operational (net_topology n) directed)) (\<lambda>up.
          if \<not> up then handle_arrival_down i r link else handle_arrival_admit i hop r link))))))"

definition handle_completion :: "link_id \<Rightarrow> chunk_id \<Rightarrow> u32 \<Rightarrow> link_direction \<Rightarrow> (world, unit) prog" where
  "handle_completion l i hop direction =
     (let link = DirectedLinkId l direction
      in bind (require_chunk i) (\<lambda>r.
         seq (throw_if (cr_state r \<noteq> Admitted \<or> hop \<noteq> cr_hop_index r \<or> unat hop \<ge> length (cr_route r)
                        \<or> cr_route r ! unat hop \<noteq> link)
               (LogicError ''unexpected routed transmission-completion event''))
        (bind (link_statistics_now link) (\<lambda>before.
         bind (require_service link) (\<lambda>svc.
         bind now (\<lambda>t.
         case checked_add t (propagation_delay (lq_configuration (svc_queue svc))) of
           None \<Rightarrow> throw (OverflowError ''propagation arrival exceeds simulated-time range'')
         | Some arrival_time \<Rightarrow>
             bind (in_service link (service_handle_completion l i hop direction)) (\<lambda>transition.
             bind (link_statistics_now link) (\<lambda>after.
             seq (throw_if (tc_id (completed_chunk transition) \<noteq> tc_id (cr_chunk r))
                   (LogicError ''completed service chunk does not match routed chunk''))
            (let r1 = r\<lparr>cr_chunk := completed_chunk transition\<rparr>
             in seq (put_chunk i r1)
               (seq (emit_queue r1 link QueueServiceCompleted)
               (seq (emit_transfer r1 ChunkSerialized (Some link) ReasonNone)
               (seq (case next_started transition of
                       None \<Rightarrow> return ()
                     | Some c \<Rightarrow>
                         bind (require_chunk (tc_id c)) (\<lambda>nxt.
                         seq (emit_queue nxt link QueueServiceStarted)
                             (emit_transfer nxt ChunkServiceStarted (Some link) ReasonNone)))
               (seq (emit_link_metrics link before after)
               (seq (emit_gauges_now link)
               (let r2 = r1\<lparr>cr_hop_index := cr_hop_index r1 + 1\<rparr>
                in seq (put_chunk i r2)
                  (bind (zoom_sim (schedule \<lparr>spec_timestamp = arrival_time, spec_priority = Normal,
                          spec_payload = ChunkArrivalEvent (tc_id (cr_chunk r2)) (cr_hop_index r2)\<rparr>)) (\<lambda>ev.
                   put_chunk i (r2\<lparr>cr_state := AwaitingArrival, scheduled_arrival := Some ev\<rparr>))))))))))))))))))"

text \<open>What both failure paths do to a directed link that went down.\<close>

definition drain_link :: "directed_link_id \<Rightarrow> (world, unit) prog" where
  "drain_link link =
     bind (link_statistics_now link) (\<lambda>before.
     bind (in_service link reconcile_down) (\<lambda>drained.
     bind (link_statistics_now link) (\<lambda>after.
     seq (mark_dropped_link_down drained link)
    (seq (emit_link_metrics link before after)
         (emit_gauges_now link)))))"

definition handle_link_state_change :: "link_id \<Rightarrow> operational_state \<Rightarrow> (world, unit) prog" where
  "handle_link_state_change l st =
     bind (getn (\<lambda>n. find_link (net_topology n) l)) (\<lambda>physical.
     seq (throw_if (case physical of None \<Rightarrow> True | Some p \<Rightarrow> link_kind p \<noteq> Fabric)
           (InvalidArgument ''state change must identify a known fabric link''))
    (bind (getn (\<lambda>n. set_link_state l st (net_topology n))) (\<lambda>(ok, g).
     seq (modn (\<lambda>n. n\<lparr>net_topology := g\<rparr>))
    (seq (throw_if (\<not> ok) (LogicError ''known fabric link state could not be changed''))
         (if st = Up then return ()
          else for_each (\<lambda>direction.
                 let link = DirectedLinkId l direction
                 in bind (getn (\<lambda>n. find_service n link)) (\<lambda>svc.
                    perform_if (svc \<noteq> None) (drain_link link))) [AToB, BToA])))))"

definition reconcile_unavailable :: "(world, unit) prog" where
  "reconcile_unavailable =
     bind (getn (map fst \<circ> services)) (\<lambda>ids.
     for_each (\<lambda>link.
       bind (getn (\<lambda>n. require_fabric_arc n link)) (\<lambda>arc.
       bind (lift_res arc) (\<lambda>directed.
       bind (getn (\<lambda>n. is_operational (net_topology n) directed)) (\<lambda>up.
       perform_if (\<not> up) (drain_link link))))) ids)"

definition handle_port_state_change :: "port_id \<Rightarrow> operational_state \<Rightarrow> (world, unit) prog" where
  "handle_port_state_change p st =
     bind (getn (\<lambda>n. set_port_state p st (net_topology n))) (\<lambda>(ok, g).
     seq (modn (\<lambda>n. n\<lparr>net_topology := g\<rparr>))
    (seq (throw_if (\<not> ok) (InvalidArgument ''unknown port state-change target''))
         reconcile_unavailable))"

definition handle_switch_state_change :: "switch_id \<Rightarrow> operational_state \<Rightarrow> (world, unit) prog" where
  "handle_switch_state_change s st =
     bind (getn (\<lambda>n. set_switch_state s st (net_topology n))) (\<lambda>(ok, g).
     seq (modn (\<lambda>n. n\<lparr>net_topology := g\<rparr>))
    (seq (throw_if (\<not> ok) (InvalidArgument ''unknown switch state-change target''))
         reconcile_unavailable))"

definition schedule_link_state_change :: "link_id \<Rightarrow> operational_state \<Rightarrow> sim_time \<Rightarrow> (world, event_id) prog" where
  "schedule_link_state_change l st t =
     bind (getn (\<lambda>n. find_link (net_topology n) l)) (\<lambda>physical.
     seq (throw_if (case physical of None \<Rightarrow> True | Some p \<Rightarrow> link_kind p \<noteq> Fabric)
           (InvalidArgument ''state change must identify a known fabric link''))
         (zoom_sim (schedule \<lparr>spec_timestamp = t, spec_priority = Critical, spec_payload = LinkStateChangeEvent l st\<rparr>)))"

definition schedule_port_state_change :: "port_id \<Rightarrow> operational_state \<Rightarrow> sim_time \<Rightarrow> (world, event_id) prog" where
  "schedule_port_state_change p st t =
     bind (getn (\<lambda>n. find_port (net_topology n) p)) (\<lambda>found.
     seq (throw_if (found = None) (InvalidArgument ''unknown port state-change target''))
         (zoom_sim (schedule \<lparr>spec_timestamp = t, spec_priority = Critical, spec_payload = PortStateChangeEvent p st\<rparr>)))"

definition schedule_switch_state_change :: "switch_id \<Rightarrow> operational_state \<Rightarrow> sim_time \<Rightarrow> (world, event_id) prog" where
  "schedule_switch_state_change s st t =
     bind (getn (\<lambda>n. find_switch (net_topology n) s)) (\<lambda>found.
     seq (throw_if (found = None) (InvalidArgument ''unknown switch state-change target''))
         (zoom_sim (schedule \<lparr>spec_timestamp = t, spec_priority = Critical, spec_payload = SwitchStateChangeEvent s st\<rparr>)))"

section \<open>Queries\<close>

definition chunk_snapshot :: "network \<Rightarrow> chunk_id \<Rightarrow> chunk_transit_snapshot option" where
  "chunk_snapshot n i =
     map_option (\<lambda>r. \<lparr>cts_state = cr_state r, cts_hop_index = cr_hop_index r, cts_marked = tc_marked (cr_chunk r)\<rparr>)
       (map_of (chunks n) i)"

definition snapshot_chunk :: "network \<Rightarrow> chunk_id \<Rightarrow> transfer_snapshot \<Rightarrow> exn + transfer_snapshot" where
  "snapshot_chunk n i s =
     (case map_of (chunks n) i of
        None \<Rightarrow> Inl (OutOfRange ''map::at'')
      | Some r \<Rightarrow>
          let cnt = one_chunk (cr_chunk r)
          in case cr_state r of
               Registered \<Rightarrow> bindR (add_traffic (xs_registered s) cnt) (\<lambda>t. Inr (s\<lparr>xs_registered := t\<rparr>))
             | AwaitingArrival \<Rightarrow>
                 if cr_hop_index r = 0
                 then bindR (add_traffic (xs_awaiting_initial_arrival s) cnt) (\<lambda>t. Inr (s\<lparr>xs_awaiting_initial_arrival := t\<rparr>))
                 else bindR (add_traffic (xs_propagating s) cnt) (\<lambda>t. Inr (s\<lparr>xs_propagating := t\<rparr>))
             | Admitted \<Rightarrow>
                 if unat (cr_hop_index r) \<ge> length (cr_route r) then Inl (OutOfRange ''vector::at'')
                 else (case find_service n (cr_route r ! unat (cr_hop_index r)) of
                         None \<Rightarrow> Inl (OutOfRange ''map::at'')
                       | Some svc \<Rightarrow>
                           if (case lq_active (svc_queue svc) of None \<Rightarrow> False | Some act \<Rightarrow> tc_id act = i)
                           then bindR (add_traffic (xs_active s) cnt) (\<lambda>t. Inr (s\<lparr>xs_active := t\<rparr>))
                           else bindR (add_traffic (xs_waiting s) cnt) (\<lambda>t. Inr (s\<lparr>xs_waiting := t\<rparr>)))
             | _ \<Rightarrow> Inr s)"

fun snapshot_chunks :: "network \<Rightarrow> chunk_id list \<Rightarrow> transfer_snapshot \<Rightarrow> exn + transfer_snapshot" where
  "snapshot_chunks n [] s = Inr s"
| "snapshot_chunks n (i # is) s = bindR (snapshot_chunk n i s) (snapshot_chunks n is)"

definition transfer_snapshot_of :: "network \<Rightarrow> transfer_id \<Rightarrow> exn + transfer_snapshot option" where
  "transfer_snapshot_of n t =
     (case map_of (transfers n) t of
        None \<Rightarrow> Inr None
      | Some x \<Rightarrow>
          bindR (snapshot_chunks n (xr_chunks x)
            \<lparr>xs_total = xr_total x, xs_registered = no_traffic, xs_awaiting_initial_arrival = no_traffic,
             xs_waiting = no_traffic, xs_active = no_traffic, xs_propagating = no_traffic,
             xs_delivered = xr_delivered x, xs_dropped_buffer_full = xr_dropped_buffer_full x,
             xs_dropped_link_down = xr_dropped_link_down x, xs_started_at = xr_started_at x,
             xs_completion = xr_completion x\<rparr>) (\<lambda>s. Inr (Some s)))"

definition take_completed_transfers :: "(network, transfer_completion list) prog" where
  "take_completed_transfers =
     bind (gets completions) (\<lambda>cs. seq (modify (\<lambda>n. n\<lparr>completions := []\<rparr>)) (return cs))"

text \<open>The events the transport consumes; it has no handler for the others.\<close>

primrec transport_dispatch :: "event_payload \<Rightarrow> (world, unit) prog" where
  "transport_dispatch (NoOpEvent v) = return ()"
| "transport_dispatch (ChunkArrivalEvent i hop) = handle_arrival i hop"
| "transport_dispatch (TransmissionCompleteEvent l i hop d) = handle_completion l i hop d"
| "transport_dispatch (LinkStateChangeEvent l st) = handle_link_state_change l st"
| "transport_dispatch (PortStateChangeEvent p st) = handle_port_state_change p st"
| "transport_dispatch (SwitchStateChangeEvent s st) = handle_switch_state_change s st"
| "transport_dispatch (WorkloadEvent j k a b c) = return ()"
| "transport_dispatch (LocalCompletionEvent a b c d) = return ()"

end
