(* ===== verification/Frames.thy ===== *)
theory Frames
  imports Prelude
begin

text \<open>
  Programs that, on a normal or an exceptional exit, change the state only as a given relation allows.
  The relation is the parameter of a locale that asks for it to be reflexive and transitive on the
  states of an invariant it keeps; the rules for the program combinators are proved there once and
  used by every interpretation.
\<close>

definition moves :: "('s \<Rightarrow> bool) \<Rightarrow> ('s \<Rightarrow> 's \<Rightarrow> bool) \<Rightarrow> ('s, 'a) prog \<Rightarrow> bool" where
  "moves holds rel m \<longleftrightarrow> (\<forall>s. holds s \<longrightarrow> wp m (\<lambda>_ t. rel s t) (\<lambda>_ t. rel s t) s)"

lemma movesD: "moves holds rel m \<Longrightarrow> holds s \<Longrightarrow> wp m (\<lambda>_ t. rel s t) (\<lambda>_ t. rel s t) s"
  unfolding moves_def by blast

lemma movesI: "(\<And>s. holds s \<Longrightarrow> wp m (\<lambda>_ t. rel s t) (\<lambda>_ t. rel s t) s) \<Longrightarrow> moves holds rel m"
  unfolding moves_def by blast

lemma moves_snd: "moves holds rel m \<Longrightarrow> holds s \<Longrightarrow> rel s (snd (m s))"
  using movesD [of holds rel m s] by (cases "m s"; cases "fst (m s)") (simp_all add: wp_def)

lemma moves_mono:
  "moves holds rel m \<Longrightarrow> (\<And>s. holds' s \<Longrightarrow> holds s) \<Longrightarrow> (\<And>s t. holds' s \<Longrightarrow> rel s t \<Longrightarrow> rel' s t) \<Longrightarrow> moves holds' rel' m"
  unfolding moves_def by (blast intro: wp_mono)

text \<open>Stepping over such a program, where nothing is claimed of an exceptional exit.\<close>

lemma wp_moves_bind:
  assumes "moves holds rel m" and "holds s" and "\<And>x t. rel s t \<Longrightarrow> wp (f x) Q (\<lambda>_ _. True) t"
  shows "wp (bind m f) Q (\<lambda>_ _. True) s"
  unfolding wp_bind by (rule wp_mono [OF movesD [OF assms(1,2)]]) (use assms(3) in auto)

lemma wp_moves_seq:
  "moves holds rel m \<Longrightarrow> holds s \<Longrightarrow> (\<And>t. rel s t \<Longrightarrow> wp k Q (\<lambda>_ _. True) t) \<Longrightarrow> wp (seq m k) Q (\<lambda>_ _. True) s"
  unfolding seq_def by (rule wp_moves_bind)

lemma wp_moves_last:
  assumes "moves holds rel m" and "holds s" and "\<And>x t. rel s t \<Longrightarrow> Q x t"
  shows "wp m Q (\<lambda>_ _. True) s"
  by (rule wp_mono [OF movesD [OF assms(1,2)]]) (use assms(3) in auto)

locale state_frame =
  fixes holds :: "'s \<Rightarrow> bool" and rel :: "'s \<Rightarrow> 's \<Rightarrow> bool"
  assumes rel_refl: "holds s \<Longrightarrow> rel s s"
    and rel_trans: "rel s t \<Longrightarrow> rel t u \<Longrightarrow> rel s u"
    and rel_keeps: "holds s \<Longrightarrow> rel s t \<Longrightarrow> holds t"
begin

lemma moves_bind: "moves holds rel m \<Longrightarrow> (\<And>x. moves holds rel (f x)) \<Longrightarrow> moves holds rel (bind m f)"
proof (rule movesI)
  fix s
  assume m: "moves holds rel m" and f: "\<And>x. moves holds rel (f x)" and s: "holds s"
  show "wp (bind m f) (\<lambda>_ t. rel s t) (\<lambda>_ t. rel s t) s"
    unfolding wp_bind
  proof (rule wp_mono [OF movesD [OF m s]])
    fix x t assume st: "rel s t"
    from movesD [OF f rel_keeps [OF s st]]
    show "wp (f x) (\<lambda>_ t. rel s t) (\<lambda>_ t. rel s t) t" by (rule wp_mono) (auto intro: rel_trans [OF st])
  qed
qed

lemma moves_pure:
  "moves holds rel (return x)" "moves holds rel (throw e)" "moves holds rel (gets g)" "moves holds rel (lift_res r)"
  "moves holds rel (throw_if c e)"
  by (auto simp: moves_def wp_simps rel_refl split: sum.splits)

lemma moves_modify: "(\<And>s. holds s \<Longrightarrow> rel s (g s)) \<Longrightarrow> moves holds rel (modify g)"
  by (simp add: moves_def wp_simps)

lemma moves_seq: "moves holds rel m \<Longrightarrow> moves holds rel k \<Longrightarrow> moves holds rel (seq m k)"
  unfolding seq_def by (rule moves_bind)

lemma moves_perform_if: "moves holds rel m \<Longrightarrow> moves holds rel (perform_if c m)"
  by (simp add: perform_if_def moves_pure)

lemma moves_if: "(c \<Longrightarrow> moves holds rel m) \<Longrightarrow> (\<not> c \<Longrightarrow> moves holds rel k) \<Longrightarrow> moves holds rel (if c then m else k)"
  by simp

lemma moves_option:
  "(v = None \<Longrightarrow> moves holds rel m) \<Longrightarrow> (\<And>x. v = Some x \<Longrightarrow> moves holds rel (h x)) \<Longrightarrow>
   moves holds rel (case v of None \<Rightarrow> m | Some x \<Rightarrow> h x)"
  by (cases v) simp_all

lemma moves_pair: "(\<And>x y. v = (x, y) \<Longrightarrow> moves holds rel (h x y)) \<Longrightarrow> moves holds rel (case v of (x, y) \<Rightarrow> h x y)"
  by (cases v) simp

lemma moves_list:
  "(v = [] \<Longrightarrow> moves holds rel m) \<Longrightarrow> (\<And>x xs. v = x # xs \<Longrightarrow> moves holds rel (h x xs)) \<Longrightarrow>
   moves holds rel (case v of [] \<Rightarrow> m | x # xs \<Rightarrow> h x xs)"
  by (cases v) simp_all

lemma moves_for_each: "(\<And>x. x \<in> set xs \<Longrightarrow> moves holds rel (f x)) \<Longrightarrow> moves holds rel (for_each f xs)"
  by (induction xs) (simp_all add: moves_pure moves_seq)

lemma moves_try_catch: "moves holds rel m \<Longrightarrow> (\<And>e. moves holds rel (h e)) \<Longrightarrow> moves holds rel (try_catch m h)"
proof (rule movesI)
  fix s
  assume m: "moves holds rel m" and h: "\<And>e. moves holds rel (h e)" and s: "holds s"
  show "wp (try_catch m h) (\<lambda>_ t. rel s t) (\<lambda>_ t. rel s t) s"
    unfolding wp_try_catch
  proof (rule wp_mono [OF movesD [OF m s]])
    fix e t assume st: "rel s t"
    from movesD [OF h rel_keeps [OF s st]]
    show "wp (h e) (\<lambda>_ t. rel s t) (\<lambda>_ t. rel s t) t" by (rule wp_mono) (auto intro: rel_trans [OF st])
  qed
qed

lemmas moves_rules = moves_bind moves_seq moves_pure moves_perform_if moves_if moves_option moves_pair
  moves_list moves_for_each moves_try_catch

end

end
