(* ===== verification/Handlers.thy ===== *)
theory Handlers
  imports Simulation Frames
begin

text \<open>
  Programs that run inside a simulation context, over the simulation paired with the state of a
  component. \<open>in_context P m\<close> says that \<open>m\<close>, on a normal or an exceptional exit, keeps the kernel's
  invariant, moves neither time nor the dispatch, issues identifiers only upwards, and schedules only
  events whose payload satisfies \<open>P\<close>. It is closed under the program combinators, so that a handler is in context when the kernel
  operations it calls are.
\<close>

section \<open>Definition and rules\<close>

definition others :: "(event_payload \<Rightarrow> bool) \<Rightarrow> simulation \<Rightarrow> event list" where
  "others P s = filter (\<lambda>e. \<not> P (payload e)) (sim_queue s)"

definition stays :: "(event_payload \<Rightarrow> bool) \<Rightarrow> simulation \<Rightarrow> simulation \<Rightarrow> bool" where
  "stays P s t \<longleftrightarrow> sim_ok t \<and> context_frame s t \<and> others P t = others P s
     \<and> id_position (sim_event_ids s) \<le> id_position (sim_event_ids t)"

abbreviation in_context :: "(event_payload \<Rightarrow> bool) \<Rightarrow> (simulation \<times> 'c, 'a) prog \<Rightarrow> bool" where
  "in_context P \<equiv> moves (\<lambda>w. sim_ok (fst w)) (\<lambda>w w'. stays P (fst w) (fst w'))"

named_theorems context_intros \<open>programs that run in a simulation context\<close>

lemma stays_refl: "sim_ok s \<Longrightarrow> stays P s s"
  by (simp add: stays_def)

lemma stays_trans: "stays P s t \<Longrightarrow> stays P t u \<Longrightarrow> stays P s u"
  by (auto simp: stays_def intro: context_frame_trans)

interpretation ctx: state_frame "\<lambda>w. sim_ok (fst w)" "\<lambda>w w'. stays P (fst w) (fst w')" for P
  by standard (auto simp: stays_refl stays_def intro: context_frame_trans)

lemmas [context_intros] = ctx.moves_rules

text \<open>A program of the component alone.\<close>

lemma in_context_component: "in_context P (zoom snd (\<lambda>n w. (fst w, n)) m)"
  by (rule movesI) (simp add: wp_simps stays_refl)

section \<open>Kernel operations in context\<close>

lemma quiet_stays: "sim_ok s \<Longrightarrow> quiet s t \<Longrightarrow> stays P s t"
  using sim_inv_quiet [of 0 s t] quiet_context_frame [of s t] quiet_fields(2,3) [of s t]
  by (simp add: stays_def others_def)

lemma in_context_quietly: "quietly m \<Longrightarrow> in_context P (zoom_sim m)"
  unfolding zoom_sim_def wp_zoom moves_def
proof (intro allI impI)
  fix w assume m: "quietly m" and ok: "sim_ok (fst w)"
  then have tel: "telemetry_ok (fst w)" by (simp add: sim_inv_def)
  show "wp m (\<lambda>_ s. stays P (fst w) (fst (s, snd w))) (\<lambda>_ s. stays P (fst w) (fst (s, snd w))) (fst w)"
    by (rule wp_mono [OF quietlyD [OF m tel]]) (simp_all add: quiet_stays [OF ok])
qed

lemma in_context_schedule [context_intros]:
  assumes "P (spec_payload spec)"
  shows "in_context P (zoom_sim (schedule spec))"
  unfolding zoom_sim_def wp_zoom moves_def
proof (intro allI impI)
  fix w assume ok: "sim_ok (fst w)"
  let ?s = "fst w"
  have "\<exists>r t. schedule spec ?s = (r, t) \<and> stays P ?s t"
  proof (cases "schedule_rejection spec ?s")
    case (Some e)
    then show ?thesis using schedule_rejected [OF Some] stays_refl [OF ok] by auto
  next
    case None
    from schedule_accepted [OF ok None] obtain r t where rt: "schedule spec ?s = (r, t)"
      "quiet (scheduled spec ?s) t" by blast
    have "\<not> exhausted (sim_event_ids ?s)" "sim_now ?s \<le> spec_timestamp spec"
      using None by (auto simp: schedule_rejection_def split: if_splits)
    from sim_inv_scheduled [OF ok this] have "sim_ok (scheduled spec ?s)" .
    then have "stays P (scheduled spec ?s) t" by (rule quiet_stays [OF _ rt(2)])
    moreover have "stays P ?s (scheduled spec ?s)"
      using assms \<open>sim_ok (scheduled spec ?s)\<close> \<open>\<not> exhausted (sim_event_ids ?s)\<close>
      by (simp add: stays_def others_def scheduled_def Let_def context_frame_def spec_event_def id_position_issue)
    ultimately show ?thesis using rt(1) stays_trans by blast
  qed
  then show "wp (schedule spec) (\<lambda>_ s. stays P (fst w) (fst (s, snd w)))
      (\<lambda>_ s. stays P (fst w) (fst (s, snd w))) (fst w)"
    by (auto simp: wp_def split: sum.splits)
qed

lemma in_context_cancel [context_intros]: "in_context P (zoom_sim (cancel i))"
  unfolding zoom_sim_def wp_zoom moves_def
proof (intro allI impI)
  fix w assume ok: "sim_ok (fst w)"
  let ?s = "fst w"
  have "\<exists>r t. cancel i ?s = (r, t) \<and> stays P ?s t"
  proof (cases "cancellable i ?s")
    case False
    then show ?thesis using cancel_ignored [OF ok False] stays_refl [OF ok] by auto
  next
    case True
    from cancel_effective [OF ok True] obtain r t where rt: "cancel i ?s = (r, t)" "quiet (cancelled i ?s) t" by blast
    have "sim_ok (cancelled i ?s)" by (rule sim_inv_cancelled [OF ok True])
    moreover from this have "stays P (cancelled i ?s) t" by (rule quiet_stays [OF _ rt(2)])
    moreover have "stays P ?s (cancelled i ?s)"
      using \<open>sim_ok (cancelled i ?s)\<close> by (simp add: stays_def others_def cancelled_def context_frame_def)
    ultimately show ?thesis using rt(1) stays_trans by blast
  qed
  then show "wp (cancel i) (\<lambda>_ s. stays P (fst w) (fst (s, snd w))) (\<lambda>_ s. stays P (fst w) (fst (s, snd w))) (fst w)"
    by (auto simp: wp_def split: sum.splits)
qed

lemma quietly_current: "quietly current_event_id" "quietly current_cause"
  unfolding current_event_id_def current_cause_def
  by (auto intro!: quietly_rules split: option.splits)

lemma in_context_current [context_intros]:
  "in_context P (zoom_sim current_event_id)" "in_context P (zoom_sim current_cause)"
  by (simp_all add: in_context_quietly quietly_current)

lemma quietly_session_record: "quietly (zoom_session (sink_record sink t c ob))"
  unfolding quietly_def
proof (intro allI impI)
  fix s assume s: "telemetry_ok s"
  have "wp (session_record t c ob)
     (\<lambda>_ u. session_ok u \<and> configuration u = configuration (sim_session s))
     (\<lambda>_ u. session_ok u \<and> configuration u = configuration (sim_session s)) (sim_session s)"
    using s by (intro wp_mono [OF wp_session_record]) (auto dest: sampled_only_fields(1))
  then show "wp (zoom_session (sink_record sink t c ob)) (\<lambda>_ t. quiet s t) (\<lambda>_ t. quiet s t) s"
    using s by (simp add: wp_simps zoom_session_def sink_record_def quiet_def) (auto elim!: wp_mono)
qed

lemma in_context_session_record [context_intros]:
  "in_context P (zoom_sim (zoom_session (sink_record sink t c ob)))"
  by (rule in_context_quietly [OF quietly_session_record])

lemma stays_weaken: "stays P s t \<Longrightarrow> (\<And>p. P p \<Longrightarrow> Q p) \<Longrightarrow> stays Q s t"
proof -
  assume st: "stays P s t" and PQ: "\<And>p. P p \<Longrightarrow> Q p"
  have "others Q u = filter (\<lambda>e. \<not> Q (payload e)) (others P u)" for u
    unfolding others_def filter_filter by (rule filter_cong) (auto dest: PQ)
  with st show ?thesis by (simp add: stays_def)
qed

lemma in_context_weaken: "in_context P m \<Longrightarrow> (\<And>p. P p \<Longrightarrow> Q p) \<Longrightarrow> in_context Q m"
  by (erule moves_mono) (auto intro: stays_weaken)

section \<open>Dispatchers\<close>

lemma in_context_dispatcher:
  assumes "\<And>p. in_context P (d p)"
  shows "event_dispatcher d"
proof
  show "wp (d p) (\<lambda>_ w'. sim_ok (fst w') \<and> context_frame (fst w) (fst w'))
      (\<lambda>_ w'. sim_ok (fst w') \<and> context_frame (fst w) (fst w')) w" if "sim_ok (fst w)" for w p
    by (rule wp_mono [OF movesD [OF assms that]]) (simp_all add: stays_def)
qed

section \<open>Dispatchers with a component invariant\<close>

text \<open>The events that will still be dispatched.\<close>

definition live :: "simulation \<Rightarrow> event set" where
  "live s = {e \<in> set (sim_queue s). event_id e \<notin> cancelled_ids s}"

lemma live_quiet: "quiet s t \<Longrightarrow> live t = live s"
  using quiet_fields [of s t] by (simp add: live_def)

lemma live_inj: "sim_inv k s \<Longrightarrow> inj_on event_id (live s)"
  by (auto simp: live_def sim_inv_def queue_ok_def distinct_map intro: inj_on_subset)

text \<open>Scheduling adds an event, cancelling takes one away.\<close>

lemma live_schedule:
  assumes ok: "sim_ok s"
  shows "wp (schedule spec) (\<lambda>i t. sim_ok t \<and> context_frame s t \<and> live t = insert (spec_event s spec) (live s)
      \<and> spec_event s spec \<notin> live s \<and> i = event_id (spec_event s spec)) (\<lambda>_ _. True) s"
proof (cases "schedule_rejection spec s")
  case (Some e)
  then show ?thesis using schedule_rejected [OF Some] by (simp add: wp_def)
next
  case None
  from schedule_accepted [OF ok None] obtain r t where rt: "schedule spec s = (r, t)"
    "quiet (scheduled spec s) t" "\<forall>i. r = Inr i \<longrightarrow> i = next_value (sim_event_ids s)" by blast
  have g: "\<not> exhausted (sim_event_ids s)" "sim_now s \<le> spec_timestamp spec"
    using None by (auto simp: schedule_rejection_def split: if_splits)
  have q: "queue_ok s" using ok by (simp add: sim_inv_def)
  from queue_ok_fresh [OF q g(1)] have fresh: "next_value (sim_event_ids s) \<notin> pending_ids s" .
  have ev: "event_id (spec_event s spec) = next_value (sim_event_ids s)" by (simp add: spec_event_def)
  with fresh q have "spec_event s spec \<notin> set (sim_queue s)" "next_value (sim_event_ids s) \<notin> cancelled_ids s"
    by (metis queue_ok_pending, auto simp: queue_ok_def)
  then have "live (scheduled spec s) = insert (spec_event s spec) (live s)" "spec_event s spec \<notin> live s"
    using ev by (auto simp: live_def scheduled_def Let_def)
  moreover have "sim_ok t" by (rule sim_inv_quiet [OF sim_inv_scheduled [OF ok g] rt(2)])
  moreover have "context_frame s t"
    by (rule context_frame_trans [OF _ quiet_context_frame [OF rt(2)]]) (simp add: context_frame_def scheduled_def Let_def)
  ultimately show ?thesis
    using rt(1,3) live_quiet [OF rt(2)] by (auto simp: wp_def spec_event_def split: sum.splits)
qed

lemma live_cancel:
  assumes ok: "sim_ok s"
  shows "wp (cancel i) (\<lambda>done t. sim_ok t \<and> context_frame s t
      \<and> live t = (if done then {e \<in> live s. event_id e \<noteq> i} else live s)) (\<lambda>_ _. True) s"
proof (cases "cancellable i s")
  case False
  then show ?thesis using cancel_ignored [OF ok False] ok by (simp add: wp_def)
next
  case True
  from cancel_effective [OF ok True] obtain r t where rt: "cancel i s = (r, t)" "quiet (cancelled i s) t"
    "\<forall>b. r = Inr b \<longrightarrow> b" by blast
  have "live (cancelled i s) = {e \<in> live s. event_id e \<noteq> i}" by (auto simp: live_def cancelled_def)
  moreover have "sim_ok t" by (rule sim_inv_quiet [OF sim_inv_cancelled [OF ok True] rt(2)])
  moreover have "context_frame s t"
    by (rule context_frame_trans [OF _ quiet_context_frame [OF rt(2)]]) (simp add: context_frame_def cancelled_def)
  ultimately show ?thesis using rt(1,3) live_quiet [OF rt(2)] by (auto simp: wp_def split: sum.splits)
qed

lemma live_next_event:
  assumes "sim_inv k s" and "next_dispatchable_event s = (r, t)"
  shows "case r of None \<Rightarrow> live s = {} \<and> live t = {}
       | Some e \<Rightarrow> live s = insert e (live t) \<and> e \<notin> live t
           \<and> length (others P t) + (if P (payload e) then 0 else 1) \<le> length (others P s)"
  using assms
proof (induction s rule: next_dispatchable_event.induct)
  case (1 s)
  show ?case
  proof (rule queue_pop_cases [of "sim_queue s"])
    assume q: "sim_queue s = []" and "queue_pop (sim_queue s) = (None, [])"
    then have "r = None" "t = s\<lparr>sim_queue := []\<rparr>" using "1.prems"(2) by (simp_all add: next_dispatchable_event_eq [of s])
    with q show ?thesis by (simp add: live_def)
  next
    fix e q assume pop: "queue_pop (sim_queue s) = (Some e, q)" and m: "mset (sim_queue s) = add_mset e (mset q)"
    note step = sim_inv_popped [OF "1.prems"(1) pop]
    have set: "set (sim_queue s) = insert e (set q)" using m by (metis set_mset_add_mset_insert set_mset_mset)
    have dist: "event_id x \<noteq> event_id e" if "x \<in> set q" for x
      using step(2) that by (metis image_eqI)
    have pq: "sim_queue (popped e q s) = q" "cancelled_ids (popped e q s) = cancelled_ids s - {event_id e}"
      by (simp_all add: popped_def)
    have lv: "live (popped e q s) = {x \<in> set q. event_id x \<notin> cancelled_ids s}"
      using dist by (auto simp: live_def pq)
    have len: "length (others P (popped e q s)) + (if P (payload e) then 0 else 1) = length (others P s)"
    proof -
      have "mset (others P s) = filter_mset (\<lambda>x. \<not> P (payload x)) (add_mset e (mset q))"
        unfolding others_def mset_filter m ..
      then have "size (mset (others P s)) = size (filter_mset (\<lambda>x. \<not> P (payload x)) (add_mset e (mset q)))" by simp
      moreover have "size (filter_mset (\<lambda>x. \<not> P (payload x)) (mset q)) = length (others P (popped e q s))"
        unfolding others_def pq mset_filter [symmetric] size_mset ..
      ultimately show ?thesis by (simp add: size_mset del: mset_filter)
    qed
    show ?thesis
    proof (cases "event_id e \<in> cancelled_ids s")
      case False
      with "1.prems"(2) pop have rt: "r = Some e" "t = popped e q s"
        by (simp_all add: next_dispatchable_event_eq [of s])
      have "e \<notin> set q" using dist by blast
      with rt False lv set len show ?thesis by (auto simp: live_def)
    next
      case True
      have tail: "next_dispatchable_event (popped e q s) = (r, t)"
        using "1.prems"(2) pop True by (simp add: next_dispatchable_event_eq [of s])
      have inv: "sim_inv k (popped e q s)" using step(1) True by simp
      have "live (popped e q s) = live s" using True lv set by (auto simp: live_def)
      moreover note "1.IH" [OF pop [symmetric] refl refl refl, folded popped_def, OF True inv tail]
      ultimately show ?thesis using len by (auto split: option.splits if_splits)
    qed
  qed
qed

text \<open>
  A dispatcher that keeps an invariant \<open>J\<close> of the time, the events ahead and its component, as long as
  it does not throw, and for which each event it scheduled itself makes a measure of the component
  smaller (the other events do not make it larger).
\<close>

locale guarded_dispatcher =
  fixes d :: "event_payload \<Rightarrow> (simulation \<times> 'c, unit) prog"
    and P :: "event_payload \<Rightarrow> bool"
    and J :: "sim_time \<Rightarrow> event set \<Rightarrow> 'c \<Rightarrow> bool"
    and weight :: "'c \<Rightarrow> nat"
  assumes stays_in_context: "in_context P (d p)"
    and later: "J t E c \<Longrightarrow> t \<le> t' \<Longrightarrow> J t' E c"
    and handles: "sim_ok s \<Longrightarrow> current_event s = Some e \<Longrightarrow> e \<notin> live s \<Longrightarrow> J (sim_now s) (insert e (live s)) c \<Longrightarrow>
      wp (d (payload e)) (\<lambda>_ w'. J (sim_now s) (live (fst w')) (snd w')
          \<and> (if P (payload e) then weight (snd w') < weight c else weight (snd w') \<le> weight c)) (\<lambda>_ _. True) (s, c)"
begin

sublocale event_dispatcher d
  by (rule in_context_dispatcher [OF stays_in_context])

definition mu :: "simulation \<times> 'c \<Rightarrow> nat" where
  "mu w = weight (snd w) + length (others P (fst w))"

definition ready :: "simulation \<times> 'c \<Rightarrow> bool" where
  "ready w \<longleftrightarrow> sim_ok (fst w) \<and> sim_lifecycle (fst w) = Running \<and> J (sim_now (fst w)) (live (fst w)) (snd w)"

lemma handled:
  assumes ok: "sim_ok u" and cur: "current_event u = Some e" "e \<notin> live u" and J: "J (sim_now u) (insert e (live u)) c"
    and len: "length (others P u) + (if P (payload e) then 0 else 1) \<le> n"
  shows "wp (seq (d (payload e)) (seq (zoom_sim (modify (\<lambda>s. s\<lparr>current_event := None\<rparr>))) (return True)))
     (\<lambda>again w'. again \<and> J (sim_now (fst w')) (live (fst w')) (snd w') \<and> mu w' < weight c + n) (\<lambda>_ _. True) (u, c)"
proof -
  have "wp (d (payload e)) (\<lambda>_ w'. stays P u (fst w')) (\<lambda>_ _. True) (u, c)"
    using movesD [OF stays_in_context, of "(u, c)" "payload e"] ok by (auto elim!: wp_mono)
  from wp_conj [OF handles [OF ok cur J] this]
  have "wp (d (payload e)) (\<lambda>_ w'. J (sim_now (fst w')) (live (fst w')) (snd w') \<and> mu w' < weight c + n)
      (\<lambda>_ _. True) (u, c)"
    by (rule wp_mono) (use len in \<open>auto simp: stays_def mu_def context_frame_def split: if_splits\<close>)
  then show ?thesis
    by (simp add: wp_simps zoom_sim_def live_def) (auto elim!: wp_mono simp: mu_def others_def)
qed

lemma dispatch_next_guarded:
  assumes "ready w"
  shows "wp (dispatch_next d) (\<lambda>again w'. ready w' \<and> (again \<longrightarrow> mu w' < mu w)) (\<lambda>_ _. True) w"
proof -
  have ok: "sim_ok (fst w)" and run: "sim_lifecycle (fst w) = Running"
    and J: "J (sim_now (fst w)) (live (fst w)) (snd w)" using assms by (simp_all add: ready_def)
  obtain nxt t where nt: "next_dispatchable_event (fst w) = (nxt, t)" by (cases "next_dispatchable_event (fst w)")
  note spec = next_dispatchable_event_spec [OF ok nt] and lv = live_next_event [OF ok nt, of P]
  have prog: "wp (dispatch_next d) (\<lambda>_ w'. sim_ok (fst w') \<and> sim_lifecycle (fst w') = Running) (\<lambda>_ _. True) w"
    by (rule wp_mono [OF wp_dispatch_next [OF ok run]]) auto
  have "wp (dispatch_next d) (\<lambda>again w'. J (sim_now (fst w')) (live (fst w')) (snd w') \<and> (again \<longrightarrow> mu w' < mu w)) (\<lambda>_ _. True) w"
  proof (cases nxt)
    case None
    with spec lv nt J show ?thesis
      by (simp add: dispatch_next_def wp_simps zoom_sim_def) (simp add: wp_def context_frame_def return_def)
  next
    case (Some e)
    let ?s1 = "dispatching e t"
    let ?report = "seq (emit_simulation_observation SimEventDispatched (Some (event_id e)) (cause e))
           (seq (emit_metric (CounterObservation MetricSimulationDispatchedEvents [] 1))
           (bind (gets (\<lambda>s. (trace_enabled s, sim_now s))) (\<lambda>(on, t).
            perform_if on (record_event Dispatched t (event_trace_metadata e) None))))"
    let ?rest = "seq (d (payload e)) (seq (zoom_sim (modify (\<lambda>s. s\<lparr>current_event := None\<rparr>))) (return True))"
    have ok1: "sim_ok ?s1" using spec Some by (intro sim_inv_dispatching) simp_all
    have "e \<in> set (sim_queue (fst w))" using spec Some by simp
    then have now: "sim_now (fst w) \<le> sim_now ?s1" using ok by (auto simp: sim_inv_def queue_ok_def dispatching_def)
    have "quietly ?report"
      by (intro quietly_rules quietly_emits) (auto intro!: quietly_rules quietly_emits split: prod.splits)
    then have rep: "wp ?report (\<lambda>_ u. quiet ?s1 u) (\<lambda>_ u. True) ?s1"
      by (intro wp_mono [OF quietlyD]) (use ok1 in \<open>auto simp: sim_inv_def\<close>)
    have "wp ?rest (\<lambda>again w'. J (sim_now (fst w')) (live (fst w')) (snd w') \<and> (again \<longrightarrow> mu w' < mu w)) (\<lambda>_ _. True) (u, snd w)"
      if q: "quiet ?s1 u" for u
    proof -
      note f = quiet_fields [OF q]
      have "live u = live t" using live_quiet [OF q] by (simp add: live_def dispatching_def)
      moreover have "J (sim_now u) (live (fst w)) (snd w)" using later [OF J now] f by simp
      moreover have "others P u = others P t" using f by (simp add: others_def dispatching_def)
      ultimately have "wp ?rest (\<lambda>again w'. again \<and> J (sim_now (fst w')) (live (fst w')) (snd w')
          \<and> mu w' < weight (snd w) + length (others P (fst w))) (\<lambda>_ _. True) (u, snd w)"
        using lv Some f sim_inv_quiet [OF ok1 q] by (intro handled) (simp_all add: dispatching_def)
      then show ?thesis by (rule wp_mono) (simp_all add: mu_def)
    qed
    then have "wp ?report (\<lambda>_ u. wp ?rest (\<lambda>again w'. J (sim_now (fst w')) (live (fst w')) (snd w') \<and> (again \<longrightarrow> mu w' < mu w))
        (\<lambda>_ _. True) (u, snd w)) (\<lambda>_ _. True) ?s1"
      by (intro wp_mono [OF rep]) simp_all
    then have "wp (seq (zoom_sim (seq (modify (dispatching e)) ?report)) ?rest)
        (\<lambda>again w'. J (sim_now (fst w')) (live (fst w')) (snd w') \<and> (again \<longrightarrow> mu w' < mu w)) (\<lambda>_ _. True) (t, snd w)"
      unfolding wp_seq zoom_sim_def wp_zoom wp_modify by simp
    moreover have "dispatch_next d w = seq (zoom_sim (seq (modify (dispatching e)) ?report)) ?rest (t, snd w)"
      using nt Some by (simp add: dispatch_next_def dispatching_def [abs_def] bind_def zoom_sim_def zoom_def)
    ultimately show ?thesis by (simp only: wp_def)
  qed
  from wp_conj [OF this prog] show ?thesis by (rule wp_mono) (auto simp: ready_def)
qed

lemma finish_keeps:
  assumes "zoom_sim (finish st err) w = (r, w')" and "sim_ok (fst w)"
  shows "snd w' = snd w \<and> (r \<noteq> Inl e \<longrightarrow> live (fst w') = live (fst w) \<and> sim_now (fst w') = sim_now (fst w))"
proof -
  have tel: "telemetry_ok (fst w)" using assms(2) by (simp add: sim_inv_def)
  let ?report = "seq (emit_terminal_telemetry st)
     (if st = StatusCompleted then record_terminal Completed None
      else if st = StatusFailed then record_terminal Failed err else return ())"
  have "quietly ?report" by (intro quietly_rules quietly_emits)
  from quietlyD [OF this tel]
  have "wp (finish st err) (\<lambda>_ t. live t = live (fst w) \<and> sim_now t = sim_now (fst w))
      (\<lambda>_ t. quiet (fst w) t) (fst w)"
    unfolding finish_def
    by (simp add: wp_simps) (auto elim!: wp_mono simp: live_def quiet_fields wp_return)
  then have "live (fst w') = live (fst w) \<and> sim_now (fst w') = sim_now (fst w)"
    using assms(1) live_quiet [of "fst w"] quiet_fields(1) [of "fst w"]
    by (cases "finish st err (fst w)"; cases r) (auto simp: wp_def zoom_sim_def zoom_def)
  moreover have "snd w' = snd w"
    using assms(1) by (cases "finish st err (fst w)") (auto simp: zoom_sim_def zoom_def)
  ultimately show ?thesis by simp
qed

lemma run_loop_returns:
  assumes "ready w"
  shows "\<exists>r w'. run_loop d w = Some (r, w') \<and> (\<forall>res. r = Inr res \<longrightarrow> J (sim_now (fst w')) (live (fst w')) (snd w'))"
  using assms
proof (induction "mu w" arbitrary: w rule: less_induct)
  case less
  have ok: "sim_ok (fst w)" and J: "J (sim_now (fst w)) (live (fst w)) (snd w)" using less.prems by (simp_all add: ready_def)
  show ?case
  proof (cases "sim_stop_reason (fst w) = None")
    case False
    obtain r w' where f: "zoom_sim (finish StatusStopped None) w = (r, w')" by (meson surj_pair)
    have "run_loop d w = Some (r, w')" using False f by (subst run_loop.simps) simp
    moreover have "r = Inr res \<Longrightarrow> J (sim_now (fst w')) (live (fst w')) (snd w')" for res
      using finish_keeps [OF f ok, of undefined] J by simp
    ultimately show ?thesis by blast
  next
    case True
    obtain x w1 where x: "dispatch_next d w = (x, w1)" by (meson surj_pair)
    note eq = run_loop.simps [of d w]
    show ?thesis
    proof (cases x)
      case (Inl e)
      then show ?thesis using eq True x by simp
    next
      case (Inr again)
      with dispatch_next_guarded [OF less.prems] x have p: "ready w1" "again \<longrightarrow> mu w1 < mu w" by (auto simp: wp_def)
      show ?thesis
      proof (cases again)
        case t: True
        from less.hyps [of w1] p t obtain r w' where "run_loop d w1 = Some (r, w')"
            "\<forall>res. r = Inr res \<longrightarrow> J (sim_now (fst w')) (live (fst w')) (snd w')" by blast
        with eq True x Inr t show ?thesis by simp
      next
        case False
        obtain r w' where f: "zoom_sim (finish StatusCompleted None) w1 = (r, w')" by (meson surj_pair)
        have "run_loop d w = Some (r, w')" using eq True x Inr False f by simp
        moreover have "r = Inr res \<Longrightarrow> J (sim_now (fst w')) (live (fst w')) (snd w')" for res
          using finish_keeps [OF f, of undefined] p(1) by (simp add: ready_def)
        ultimately show ?thesis by blast
      qed
    qed
  qed
qed

text \<open>A run of a fresh simulation returns, and if it does not fail the invariant holds at its end.\<close>

lemma run_guarded:
  assumes ok: "sim_ok (fst w)" and created: "sim_lifecycle (fst w) = Created"
    and J: "J (sim_now (fst w)) (live (fst w)) (snd w)"
  shows "\<exists>res w'. run d w = Some (Inr res, w') \<and> sim_ok (fst w') \<and> sim_lifecycle (fst w') = Finished
     \<and> result_of res (fst w') \<and> sim_now (fst w) \<le> sim_now (fst w')
     \<and> (res_status res = StatusCompleted \<longrightarrow> sim_queue (fst w') = [])
     \<and> (res_status res \<noteq> StatusFailed \<longrightarrow> J (sim_now (fst w')) (live (fst w')) (snd w'))"
proof -
  let ?w1 = "((fst w)\<lparr>sim_lifecycle := Running\<rparr>, snd w)"
  have started: "zoom_sim begin_run w = (Inr (), ?w1)"
    using created by (simp add: zoom_sim_def begin_run_def prog_defs)
  have ok1: "sim_ok (fst ?w1)" using ok by simp
  obtain x t where x: "emit_simulation_observation SimRunStarted None None (fst ?w1) = (x, t)" by (meson surj_pair)
  have "wp (emit_simulation_observation SimRunStarted None None) (\<lambda>_ t. quiet (fst ?w1) t)
      (\<lambda>_ t. quiet (fst ?w1) t) (fst ?w1)"
    by (rule quietlyD [OF quietly_emit_simulation_observation]) (use ok1 in \<open>simp add: sim_inv_def\<close>)
  with x have q: "quiet (fst ?w1) t" by (cases x) (simp_all add: wp_def)
  have emit: "zoom_sim (emit_simulation_observation SimRunStarted None None) ?w1 = (x, t, snd w)"
    using x by (simp add: zoom_sim_def zoom_def)
  have rdy: "ready (t, snd w)"
    using sim_inv_quiet [OF ok1 q] quiet_fields [OF q] live_quiet [OF q] J by (simp add: ready_def live_def)
  from run_loop_returns [OF rdy] obtain r2 w2 where r2: "run_loop d (t, snd w) = Some (r2, w2)"
    "\<forall>res. r2 = Inr res \<longrightarrow> J (sim_now (fst w2)) (live (fst w2)) (snd w2)" by blast
  have "run d w \<noteq> None" using started emit r2 by (cases x) (auto simp: run_def)
  then obtain r w' where ret: "run d w = Some (r, w')" by auto
  from run_ends [OF ok created ret] obtain res where res: "r = Inr res" "sim_ok (fst w')"
    "sim_lifecycle (fst w') = Finished" "result_of res (fst w')" "sim_now (fst w) \<le> sim_now (fst w')"
    "res_status res = StatusCompleted \<longrightarrow> sim_queue (fst w') = []" by blast
  have "J (sim_now (fst w')) (live (fst w')) (snd w')" if nf: "res_status res \<noteq> StatusFailed"
  proof -
    have failed: "res_status res = StatusFailed" if "zoom_sim (fail_run err) v = (Inr res, w')" "sim_ok (fst v)" for err v
      using that wp_fail_run [OF that(2), of err]
      by (cases "fail_run err (fst v)") (auto simp: zoom_sim_def zoom_def wp_def split: sum.splits)
    have "x = Inr ()"
    proof (cases x)
      case (Inl e)
      with ret res started emit have "zoom_sim (fail_run (what e)) (t, snd w) = (Inr res, w')" by (simp add: run_def)
      from failed [OF this] rdy nf show ?thesis by (simp add: ready_def)
    qed simp
    moreover have "\<exists>res'. r2 = Inr res'"
    proof (cases r2)
      case (Inl e)
      have "sim_ok (fst w2)" using run_loop_ends [OF r2(1)] rdy by (simp add: ready_def loop_ends_def)
      moreover have "zoom_sim (fail_run (what e)) w2 = (Inr res, w')"
        using ret res started emit r2 Inl \<open>x = Inr ()\<close> by (simp add: run_def)
      ultimately show ?thesis using failed nf by blast
    qed simp
    ultimately show ?thesis using ret res started emit r2 by (auto simp: run_def)
  qed
  with ret res show ?thesis by blast
qed

end

end
