(* ===== verification/Transport_Frame.thy ===== *)
theory Transport_Frame
  imports Transport Handlers
begin

text \<open>
  What the operations of the transport leave alone. Telemetry emission is silent: it changes the
  telemetry session and the reported busy times, nothing else. Every operation runs in the simulation
  context and schedules only arrivals, completions and state changes, so the transport handlers form a
  dispatcher to which the kernel's theorem on runs applies.
\<close>

section \<open>Silent programs\<close>

definition hush :: "world \<Rightarrow> world \<Rightarrow> bool" where
  "hush w w' \<longleftrightarrow> quiet (fst w) (fst w') \<and> snd w' = (snd w)\<lparr>reported_busy_time := reported_busy_time (snd w')\<rparr>"

abbreviation silent :: "(world, 'a) prog \<Rightarrow> bool" where
  "silent \<equiv> moves (\<lambda>w. telemetry_ok (fst w)) hush"

lemma hush_trans: "hush w w1 \<Longrightarrow> hush w1 w2 \<Longrightarrow> hush w w2"
proof -
  assume a: "hush w w1" and b: "hush w1 w2"
  have n1: "snd w1 = (snd w)\<lparr>reported_busy_time := reported_busy_time (snd w1)\<rparr>" using a by (simp add: hush_def)
  have n2: "snd w2 = (snd w1)\<lparr>reported_busy_time := reported_busy_time (snd w2)\<rparr>" using b by (simp add: hush_def)
  have "snd w2 = (snd w)\<lparr>reported_busy_time := reported_busy_time (snd w2)\<rparr>" by (subst n2, subst n1, simp)
  with a b show ?thesis by (auto simp: hush_def intro: quiet_trans)
qed

interpretation silently: state_frame "\<lambda>w. telemetry_ok (fst w)" hush
proof
  show "hush w w" if "telemetry_ok (fst w)" for w using that by (simp add: hush_def quiet_refl)
  show "hush w w2" if "hush w w1" "hush w1 w2" for w w1 w2 using that by (rule hush_trans)
  show "telemetry_ok (fst w')" if "telemetry_ok (fst w)" "hush w w'" for w w'
    using that(2) by (auto simp: hush_def dest: quiet_ok)
qed

lemma silent_quietly: "quietly m \<Longrightarrow> silent (zoom_sim m)"
proof (rule movesI)
  fix w :: world assume m: "quietly m" and ok: "telemetry_ok (fst w)"
  show "wp (zoom_sim m) (\<lambda>_. hush w) (\<lambda>_. hush w) w"
    unfolding zoom_sim_def wp_zoom
    by (rule wp_mono [OF quietlyD [OF m ok]]) (simp_all add: hush_def)
qed

lemmas silent_rules = silently.moves_rules silent_quietly [OF quietly_session_record]
  silent_quietly [OF quietly_current(1)] silent_quietly [OF quietly_current(2)]

lemma silent_getn [simp]: "silent (getn f)" "silent now" "silent net_telemetry_enabled"
  by (simp_all add: getn_def now_def net_telemetry_enabled_def silently.moves_pure)

lemma silent_net_record [simp]: "silent (net_record c ob)"
  unfolding net_record_def by (intro silent_rules silent_getn)

lemma silent_event_correlation [simp]: "silent event_correlation"
  unfolding event_correlation_def by (intro silent_rules)

lemma silent_require [simp]: "silent (require_chunk i)" "silent (require_service l)" "silent (transfer_at t)"
  "silent (link_statistics_now l)"
  unfolding require_chunk_def require_service_def transfer_at_def link_statistics_now_def
  by (intro silent_rules silent_getn)+

lemma silent_emit_transfer [simp]: "silent (emit_transfer r tr l reason)"
  unfolding emit_transfer_def by (intro silent_rules silent_getn silent_net_record silent_event_correlation)

lemma silent_emit_queue [simp]: "silent (emit_queue r l tr)"
  unfolding emit_queue_def Let_def
  by (intro silent_rules silent_getn silent_net_record silent_event_correlation silent_require)

lemma silent_emit_delta [simp]: "silent (emit_delta c ls b k e l)"
  unfolding emit_delta_def by (intro silent_rules silent_net_record)

lemma silent_modn_busy: "silent (modn (\<lambda>n. n\<lparr>reported_busy_time := f n\<rparr>))"
  by (rule movesI) (simp add: modn_def zoom_net_def wp_simps hush_def quiet_refl)

lemma silent_emit_busy_time [simp]: "silent (emit_busy_time c ls l busy)"
  unfolding emit_busy_time_def by (intro silent_rules silent_getn silent_net_record silent_modn_busy)

lemma silent_emit_link_metrics [simp]: "silent (emit_link_metrics l b a)"
  unfolding emit_link_metrics_def Let_def
  by (intro silent_rules silent_getn silent_event_correlation silent_emit_delta silent_emit_busy_time)

lemma silent_emit_queue_gauges [simp]: "silent (emit_queue_gauges l s)"
  unfolding emit_queue_gauges_def Let_def
  by (intro silent_rules silent_getn silent_event_correlation silent_net_record)

lemma silent_emit_gauges_now [simp]: "silent (emit_gauges_now l)"
  unfolding emit_gauges_now_def by (intro silent_rules silent_require silent_emit_queue_gauges)

lemma silent_emit_terminal_transfer [simp]: "silent (emit_terminal_transfer c x)"
  unfolding emit_terminal_transfer_def Let_def
  by (intro silent_rules silent_getn silent_event_correlation silent_net_record)

lemma silent_emit_admission [simp]: "silent (emit_admission r l a)"
  unfolding emit_admission_def by (intro silent_rules silent_emit_queue silent_emit_transfer)

section \<open>Transport programs in context\<close>

primrec transport_payload :: "event_payload \<Rightarrow> bool" where
  "transport_payload (NoOpEvent v) = False"
| "transport_payload (ChunkArrivalEvent i hop) = True"
| "transport_payload (TransmissionCompleteEvent l i hop d) = True"
| "transport_payload (LinkStateChangeEvent l st) = False"
| "transport_payload (PortStateChangeEvent p st) = False"
| "transport_payload (SwitchStateChangeEvent s st) = False"
| "transport_payload (WorkloadEvent j k a b c) = False"
| "transport_payload (LocalCompletionEvent a b c d) = False"

lemma silent_in_context: "silent m \<Longrightarrow> in_context P m"
  by (erule moves_mono) (auto simp: hush_def sim_inv_def intro: quiet_stays)

lemma in_context_net: "in_context P (zoom_net m)" "in_context P (modn f)"
  by (simp_all add: modn_def zoom_net_def in_context_component)

lemma in_context_svc: "in_context P (zoom_svc m)" "in_context P (zoom_svc_queue k)"
  by (simp_all add: zoom_svc_def zoom_svc_queue_def in_context_component)

lemma in_context_put: "in_context P (put_chunk i r)" "in_context P (put_transfer t x)"
  by (simp_all add: put_chunk_def put_transfer_def in_context_net)

lemma in_context_in_service: "in_context P m \<Longrightarrow> in_context P (in_service l m)"
  unfolding in_service_def
proof (intro ctx.moves_bind silent_in_context [OF silent_require(2)] movesI)
  fix svc and w :: world assume m: "in_context P m" and ok: "sim_ok (fst w)"
  have "stays P (fst w) (fst (snd (m (fst w, svc))))" using moves_snd [OF m, of "(fst w, svc)"] ok by simp
  then show "wp (\<lambda>w. case m (fst w, svc) of (r, sim, svc') \<Rightarrow> (r, sim, (snd w)\<lparr>services := omap_put l svc' (services (snd w))\<rparr>))
     (\<lambda>_ w'. stays P (fst w) (fst w')) (\<lambda>_ w'. stays P (fst w) (fst w')) w"
    by (auto simp: wp_def split: prod.splits sum.splits)
qed

lemmas transport_context = context_intros in_context_net in_context_svc in_context_put in_context_in_service
  silent_getn [THEN silent_in_context] silent_net_record [THEN silent_in_context]
  silent_event_correlation [THEN silent_in_context] silent_require [THEN silent_in_context]
  silent_emit_transfer [THEN silent_in_context] silent_emit_queue [THEN silent_in_context]
  silent_emit_link_metrics [THEN silent_in_context] silent_emit_gauges_now [THEN silent_in_context]
  silent_emit_terminal_transfer [THEN silent_in_context] silent_emit_admission [THEN silent_in_context]

lemma in_context_schedule_completion: "in_context transport_payload (schedule_completion c)"
  unfolding schedule_completion_def by (intro transport_context) simp

lemma in_context_service_admit: "in_context transport_payload (service_admit c)"
  unfolding service_admit_def Let_def by (intro transport_context in_context_schedule_completion)

lemma in_context_service_handle_completion: "in_context transport_payload (service_handle_completion l i h d)"
  unfolding service_handle_completion_def Let_def
  by (intro transport_context in_context_schedule_completion)

lemma in_context_reconcile_down: "in_context transport_payload reconcile_down"
  unfolding reconcile_down_def by (intro transport_context)

lemma in_context_net_record_terminal: "in_context transport_payload (net_record_terminal r)"
  unfolding net_record_terminal_def Let_def by (intro transport_context)

lemma in_context_mark_dropped: "in_context transport_payload (mark_dropped l c)"
  unfolding mark_dropped_def Let_def by (intro transport_context in_context_net_record_terminal)

lemma in_context_mark_dropped_link_down: "in_context transport_payload (mark_dropped_link_down d l)"
  unfolding mark_dropped_link_down_def by (intro transport_context in_context_mark_dropped)

lemma in_context_drain_link: "in_context transport_payload (drain_link l)"
  unfolding drain_link_def
  by (intro transport_context in_context_mark_dropped_link_down in_context_reconcile_down)

lemma in_context_handle_arrival: "in_context transport_payload (handle_arrival i h)"
  unfolding handle_arrival_def handle_arrival_down_def handle_arrival_admit_def Let_def
  by (intro transport_context in_context_net_record_terminal in_context_service_admit)

lemma in_context_handle_completion: "in_context transport_payload (handle_completion l i h d)"
  unfolding handle_completion_def Let_def
  by (intro transport_context in_context_service_handle_completion) simp_all

lemma in_context_handle_link_state_change: "in_context transport_payload (handle_link_state_change l st)"
  unfolding handle_link_state_change_def Let_def by (intro transport_context in_context_drain_link)

lemma in_context_reconcile_unavailable: "in_context transport_payload reconcile_unavailable"
  unfolding reconcile_unavailable_def by (intro transport_context in_context_drain_link)

lemma in_context_handle_port_state_change: "in_context transport_payload (handle_port_state_change p st)"
  unfolding handle_port_state_change_def by (intro transport_context in_context_reconcile_unavailable)

lemma in_context_handle_switch_state_change: "in_context transport_payload (handle_switch_state_change s st)"
  unfolding handle_switch_state_change_def by (intro transport_context in_context_reconcile_unavailable)

lemma in_context_transport_dispatch: "in_context transport_payload (transport_dispatch p)"
  by (cases p) (simp_all add: in_context_handle_arrival in_context_handle_completion
      in_context_handle_link_state_change in_context_handle_port_state_change in_context_handle_switch_state_change
      ctx.moves_pure)

interpretation transport: event_dispatcher transport_dispatch
  by (rule in_context_dispatcher [OF in_context_transport_dispatch])

lemma in_context_schedule_initial_arrival: "in_context transport_payload (schedule_initial_arrival i)"
  unfolding schedule_initial_arrival_def by (intro transport_context) simp_all

lemma in_context_submit_transfer: "in_context transport_payload (submit_transfer rq)"
  unfolding submit_transfer_def Let_def
  by (intro transport_context in_context_schedule_initial_arrival)

end
