(* ===== verification/Transport_Run.thy ===== *)
theory Transport_Run
  imports Transport_Frame
begin

text \<open>
  Runs of the transport end. Every chunk carries a potential, the number of events it can still cause;
  an arrival or completion that is handled lowers the potential of its chunk, a state change does not
  raise any, so the dispatch loop returns.
\<close>

section \<open>Potentials\<close>

definition potential :: "chunk_record \<Rightarrow> nat" where
  "potential r =
     (let left = length (cr_route r) - unat (cr_hop_index r)
      in case cr_state r of
           AwaitingArrival \<Rightarrow> Suc (2 * left)
         | Admitted \<Rightarrow> 2 * left
         | _ \<Rightarrow> 0)"

definition net_potential :: "network \<Rightarrow> nat" where
  "net_potential n = sum_list (map (potential \<circ> snd) (chunks n))"

definition routes_ok :: "network \<Rightarrow> bool" where
  "routes_ok n \<longleftrightarrow> omap_ok (chunks n) \<and> (\<forall>(i, r)\<in>set (chunks n). length (cr_route r) < 2 ^ 32)"

lemma net_potential_put:
  assumes "routes_ok n" and "map_of (chunks n) i = Some r" and "chunks n' = omap_put i r' (chunks n)"
    and "cr_route r' = cr_route r"
  shows "routes_ok n'" "net_potential n' + potential r = net_potential n + potential r'"
proof -
  have "(i, r) \<in> set (chunks n)" using assms(2) by (rule map_of_SomeD)
  with assms set_omap_put [of i r' "chunks n"] show "routes_ok n'" by (force simp: routes_ok_def)
  show "net_potential n' + potential r = net_potential n + potential r'"
    using assms(1,3) sum_omap_put [OF _ assms(2), of potential r'] by (simp add: net_potential_def routes_ok_def)
qed

section \<open>Programs that leave the chunks alone\<close>

abbreviation same_chunks :: "(world, 'a) prog \<Rightarrow> bool" where
  "same_chunks \<equiv> moves (\<lambda>w. True) (\<lambda>w w'. chunks (snd w') = chunks (snd w))"

interpretation chunkless: state_frame "\<lambda>w :: world. True" "\<lambda>w w'. chunks (snd w') = chunks (snd w)"
  by standard simp_all

lemma same_chunks_zoom_sim: "same_chunks (zoom_sim m)"
  by (rule movesI) (auto simp: zoom_sim_def zoom_def wp_def split: prod.splits sum.splits)

lemma same_chunks_modn: "(\<And>n. chunks (f n) = chunks n) \<Longrightarrow> same_chunks (modn f)"
  by (rule movesI) (simp add: modn_def zoom_net_def wp_simps)

lemma same_chunks_put_transfer: "same_chunks (put_transfer t x)"
  unfolding put_transfer_def by (rule same_chunks_modn) simp

lemma same_chunks_gets: "same_chunks (getn f)" "same_chunks now" "same_chunks net_telemetry_enabled"
  by (simp_all add: getn_def now_def net_telemetry_enabled_def chunkless.moves_pure)

lemmas same_chunks_rules = chunkless.moves_rules same_chunks_zoom_sim same_chunks_put_transfer same_chunks_gets

lemma same_chunks_require: "same_chunks (require_chunk i)" "same_chunks (require_service l)"
  "same_chunks (transfer_at t)" "same_chunks (link_statistics_now l)"
  unfolding require_chunk_def require_service_def transfer_at_def link_statistics_now_def
  by (intro same_chunks_rules)+

lemma same_chunks_in_service: "same_chunks (in_service l m)"
  unfolding in_service_def
  by (intro chunkless.moves_bind same_chunks_require movesI) (auto simp: wp_def split: prod.splits sum.splits)

lemma same_chunks_net_record: "same_chunks (net_record c ob)" "same_chunks event_correlation"
  unfolding net_record_def event_correlation_def by (intro same_chunks_rules)+

lemmas same_chunks_more = same_chunks_rules same_chunks_require same_chunks_in_service same_chunks_net_record

lemma same_chunks_emit: "same_chunks (emit_transfer r tr ln reason)" "same_chunks (emit_queue r l q)"
  "same_chunks (emit_queue_gauges l s)"
  unfolding emit_transfer_def emit_queue_def emit_queue_gauges_def Let_def by (intro same_chunks_more)+

lemma same_chunks_emit_link_metrics: "same_chunks (emit_link_metrics l b a)"
  unfolding emit_link_metrics_def emit_delta_def emit_busy_time_def Let_def
  by (intro same_chunks_more same_chunks_modn) simp

lemma same_chunks_emit_gauges_now: "same_chunks (emit_gauges_now l)"
  unfolding emit_gauges_now_def by (intro same_chunks_more same_chunks_emit)

lemma same_chunks_emit_admission: "same_chunks (emit_admission r l a)"
  unfolding emit_admission_def by (intro same_chunks_more same_chunks_emit)

lemma same_chunks_net_record_terminal: "same_chunks (net_record_terminal r)"
  unfolding net_record_terminal_def emit_terminal_transfer_def Let_def
  by (intro same_chunks_more same_chunks_modn) simp

lemmas same_chunks_all = same_chunks_more same_chunks_emit same_chunks_emit_link_metrics
  same_chunks_emit_gauges_now same_chunks_emit_admission same_chunks_net_record_terminal

text \<open>Stepping over such a program.\<close>

lemmas wp_over = wp_moves_bind [where holds = "\<lambda>w. True" and rel = "\<lambda>w w'. chunks (snd w') = chunks (snd w)", OF _ TrueI]
lemmas wp_over_seq = wp_moves_seq [where holds = "\<lambda>w. True" and rel = "\<lambda>w w'. chunks (snd w') = chunks (snd w)", OF _ TrueI]
lemmas wp_last = wp_moves_last [where holds = "\<lambda>w. True" and rel = "\<lambda>w w'. chunks (snd w') = chunks (snd w)", OF _ TrueI]

lemma wp_put_chunk: "wp (put_chunk i r) Q E w = Q () (fst w, (snd w)\<lparr>chunks := omap_put i r (chunks (snd w))\<rparr>)"
  by (simp add: put_chunk_def modn_def zoom_net_def wp_simps)

lemma wp_put_seq:
  "wp k Q (\<lambda>_ _. True) (fst w, (snd w)\<lparr>chunks := omap_put i r (chunks (snd w))\<rparr>) \<Longrightarrow> wp (seq (put_chunk i r) k) Q (\<lambda>_ _. True) w"
  by (simp add: wp_seq wp_put_chunk)

lemma wp_final_put:
  "Q () (fst w, (snd w)\<lparr>chunks := omap_put i r (chunks (snd w))\<rparr>) \<Longrightarrow> wp (put_chunk i r) Q (\<lambda>_ _. True) w"
  by (simp add: wp_put_chunk)

lemma wp_require_chunk: "wp (require_chunk i) Q (\<lambda>_ _. True) w \<longleftrightarrow>
   (\<forall>r. map_of (chunks (snd w)) i = Some r \<longrightarrow> Q r w)"
  by (simp add: require_chunk_def getn_def wp_simps split: option.splits)

lemma wp_require:
  "(\<And>r. map_of (chunks (snd w)) i = Some r \<Longrightarrow> wp (f r) Q (\<lambda>_ _. True) w) \<Longrightarrow>
   wp (bind (require_chunk i) f) Q (\<lambda>_ _. True) w"
  by (simp add: wp_bind wp_require_chunk)

section \<open>Handlers lower the potential\<close>

definition advanced :: "chunk_id \<Rightarrow> world \<Rightarrow> world \<Rightarrow> bool" where
  "advanced i w w' \<longleftrightarrow> (\<exists>r r'. map_of (chunks (snd w)) i = Some r \<and> chunks (snd w') = omap_put i r' (chunks (snd w))
     \<and> cr_route r' = cr_route r \<and> potential r' < potential r)"

definition descended :: "world \<Rightarrow> world \<Rightarrow> bool" where
  "descended w w' \<longleftrightarrow> (routes_ok (snd w) \<longrightarrow> routes_ok (snd w') \<and> net_potential (snd w') \<le> net_potential (snd w))"

lemma advanced_descends: "advanced i w w' \<Longrightarrow> routes_ok (snd w) \<Longrightarrow>
   routes_ok (snd w') \<and> net_potential (snd w') < net_potential (snd w)"
  unfolding advanced_def using net_potential_put [of "snd w" i] by fastforce

lemma advancedI:
  "map_of (chunks (snd w)) i = Some r \<Longrightarrow> chunks (snd w') = omap_put i r' (chunks (snd w)) \<Longrightarrow>
   cr_route r' = cr_route r \<Longrightarrow> potential r' < potential r \<Longrightarrow> advanced i w w'"
  by (auto simp: advanced_def)

lemma advanced_handle_arrival_down:
  assumes "map_of (chunks (snd w)) i = Some r" and "cr_state r = AwaitingArrival"
  shows "wp (handle_arrival_down i r l) (\<lambda>_. advanced i w) (\<lambda>_ _. True) w"
  unfolding handle_arrival_down_def Let_def
  by ((rule wp_put_seq wp_over wp_over_seq wp_last, (intro same_chunks_all)?)+,
      rule advancedI [OF assms(1)], simp, simp, simp add: potential_def assms(2))

lemma advanced_handle_arrival_admit:
  assumes "map_of (chunks (snd w)) i = Some r" and "cr_state r = AwaitingArrival"
  shows "wp (handle_arrival_admit i hop r l) (\<lambda>_. advanced i w) (\<lambda>_ _. True) w"
  unfolding handle_arrival_admit_def Let_def
  by ((rule wp_put_seq wp_over wp_over_seq wp_last, (intro same_chunks_all)?)+,
      rule advancedI [OF assms(1)], simp, simp, simp add: potential_def assms(2))

lemma advanced_cong: "chunks (snd w1) = chunks (snd w) \<Longrightarrow> advanced i w1 = advanced i w"
  by (simp add: advanced_def fun_eq_iff)

lemma advanced_handle_arrival: "wp (handle_arrival i hop) (\<lambda>_. advanced i w) (\<lambda>_ _. True) w"
proof -
  have delivered: "advanced i w w'" if "map_of (chunks (snd w)) i = Some r" "cr_state r = AwaitingArrival"
    "chunks (snd w') = omap_put i (r\<lparr>scheduled_arrival := None, cr_state := Delivered\<rparr>) (chunks (snd w))" for w' r
    using that by (auto simp: advanced_def potential_def)
  let ?deliver = "\<lambda>r. seq (put_chunk i (r\<lparr>scheduled_arrival := None, cr_state := Delivered\<rparr>))
       (seq (emit_transfer (r\<lparr>scheduled_arrival := None, cr_state := Delivered\<rparr>) ChunkDelivered None ReasonNone)
            (net_record_terminal (r\<lparr>scheduled_arrival := None, cr_state := Delivered\<rparr>)))"
  let ?forward = "\<lambda>r. bind (getn (\<lambda>n. require_fabric_arc n (cr_route r ! unat hop))) (\<lambda>arc. bind (lift_res arc) (\<lambda>directed.
       bind (getn (\<lambda>n. is_operational (net_topology n) directed)) (\<lambda>up.
       if \<not> up then handle_arrival_down i r (cr_route r ! unat hop) else handle_arrival_admit i hop r (cr_route r ! unat hop))))"
  have main: "wp (if unat hop = length (cr_route r) then ?deliver r else ?forward r) (\<lambda>_. advanced i w) (\<lambda>_ _. True) w1"
    if r: "map_of (chunks (snd w)) i = Some r" "cr_state r = AwaitingArrival" and w1: "chunks (snd w1) = chunks (snd w)" for r w1
  proof (cases "unat hop = length (cr_route r)")
    case True
    have "wp (?deliver r) (\<lambda>_. advanced i w) (\<lambda>_ _. True) w1"
      by ((rule wp_put_seq wp_over wp_over_seq wp_last, (intro same_chunks_all)?)+, use delivered [OF r] w1 in simp)
    with True show ?thesis by simp
  next
    case False
    have "wp (?forward r) (\<lambda>_. advanced i w) (\<lambda>_ _. True) w1"
    proof (rule wp_over, (intro same_chunks_all)[1], rule wp_over, (intro same_chunks_all)[1], rule wp_over, (intro same_chunks_all)[1])
      fix arc directed up and w2 w3 w4 :: world
      assume "chunks (snd w2) = chunks (snd w1)" "chunks (snd w3) = chunks (snd w2)" "chunks (snd w4) = chunks (snd w3)"
      with w1 have w4: "chunks (snd w4) = chunks (snd w)" by simp
      with r have "wp (handle_arrival_down i r (cr_route r ! unat hop)) (\<lambda>_. advanced i w4) (\<lambda>_ _. True) w4"
          "wp (handle_arrival_admit i hop r (cr_route r ! unat hop)) (\<lambda>_. advanced i w4) (\<lambda>_ _. True) w4"
        by (auto intro: advanced_handle_arrival_down advanced_handle_arrival_admit)
      then show "wp (if \<not> up then handle_arrival_down i r (cr_route r ! unat hop)
          else handle_arrival_admit i hop r (cr_route r ! unat hop)) (\<lambda>_. advanced i w) (\<lambda>_ _. True) w4"
        by (simp add: advanced_cong [OF w4])
    qed
    with False show ?thesis by simp
  qed
  have "wp (bind (if cr_state r \<noteq> AwaitingArrival then return True
           else case scheduled_arrival r of None \<Rightarrow> return True
             | Some ev \<Rightarrow> bind (zoom_sim current_event_id) (\<lambda>cur. return (ev \<noteq> cur \<or> hop \<noteq> cr_hop_index r)))
       (\<lambda>unexpected. seq (throw_if unexpected (LogicError ''unexpected chunk-arrival event''))
          (if unat hop = length (cr_route r) then ?deliver r else ?forward r)))
       (\<lambda>_. advanced i w) (\<lambda>_ _. True) w" if r: "map_of (chunks (snd w)) i = Some r" for r
  proof (cases "cr_state r = AwaitingArrival")
    case False
    then show ?thesis by (simp add: wp_simps)
  next
    case True
    show ?thesis
      by (rule wp_over, (intro same_chunks_all)[1], rule wp_over_seq, (intro same_chunks_all)[1], rule main [OF r True]) simp
  qed
  then show ?thesis unfolding handle_arrival_def wp_bind wp_require_chunk Let_def by blast
qed

lemma next_hop:
  assumes "routes_ok n" and "map_of (chunks n) i = Some r" and "\<not> unat (cr_hop_index r) \<ge> length (cr_route r)"
  shows "unat (cr_hop_index r + 1) = Suc (unat (cr_hop_index r))"
proof -
  have "length (cr_route r) < 2 ^ 32" using assms(1) map_of_SomeD [OF assms(2)] by (auto simp: routes_ok_def)
  then show ?thesis using assms(3) unat_plus_no_overflow [of "cr_hop_index r" 1] by simp
qed

lemma advanced_handle_completion:
  assumes routes: "routes_ok (snd w)"
  shows "wp (handle_completion l i hop d) (\<lambda>_. advanced i w) (\<lambda>_ _. True) w"
  unfolding handle_completion_def Let_def
proof (rule wp_require, rule wp_guard, goal_cases)
  case (1 r)
  then have r: "map_of (chunks (snd w)) i = Some r" "cr_state r = Admitted" "\<not> unat (cr_hop_index r) \<ge> length (cr_route r)"
    and hop: "unat (cr_hop_index r + 1) = Suc (unat (cr_hop_index r))"
    using next_hop [OF routes] by auto
  show ?case
    by ((rule wp_put_seq wp_option wp_over wp_over_seq wp_final_put wp_last, (intro same_chunks_all)?)+,
      rule advancedI [OF r(1)], simp, simp, use r hop in \<open>simp add: potential_def Let_def\<close>, simp add: wp_simps)
qed

section \<open>Draining lowers the potential\<close>

abbreviation descends :: "(world, 'a) prog \<Rightarrow> bool" where
  "descends \<equiv> moves (\<lambda>w. True) descended"

interpretation descent: state_frame "\<lambda>w :: world. True" descended
  by standard (auto simp: descended_def)

lemma same_chunks_descends: "same_chunks m \<Longrightarrow> descends m"
  by (erule moves_mono) (simp_all add: descended_def routes_ok_def net_potential_def)

lemma descends_mark_dropped: "descends (mark_dropped l c)"
  unfolding mark_dropped_def Let_def
proof (rule movesI)
  fix w :: world
  let ?r = "\<lambda>r. r\<lparr>cr_chunk := c, cr_state := DroppedDown\<rparr>"
  let ?body = "\<lambda>r. seq (put_chunk (tc_id c) (?r r)) (seq (emit_queue (?r r) l QueueDropped)
       (seq (emit_transfer (?r r) ChunkDropped (Some l) ReasonResourceDown) (net_record_terminal (?r r))))"
  have "wp (?body r) (\<lambda>_. descended w) (\<lambda>_. descended w) w" if r: "map_of (chunks (snd w)) (tc_id c) = Some r" for r
  proof -
    let ?w = "(fst w, (snd w)\<lparr>chunks := omap_put (tc_id c) (?r r) (chunks (snd w))\<rparr>)"
    have put: "descended w ?w"
      using net_potential_put [of "snd w" "tc_id c" r "snd ?w" "?r r"] r
      by (auto simp: descended_def potential_def [of "?r r"])
    have "descends (seq (emit_queue (?r r) l QueueDropped)
       (seq (emit_transfer (?r r) ChunkDropped (Some l) ReasonResourceDown) (net_record_terminal (?r r))))"
      by (intro same_chunks_descends same_chunks_all)
    from movesD [OF this TrueI, of ?w] show ?thesis
      unfolding wp_seq [of "put_chunk _ _"] wp_put_chunk
      by (rule wp_mono) (auto intro: descent.rel_trans [OF put])
  qed
  then show "wp (bind (require_chunk (tc_id c)) (\<lambda>r.
     seq (throw_if (cr_state r \<noteq> Admitted \<or> cr_hop_index r \<noteq> tc_hop_index c
                    \<or> unat (cr_hop_index r) \<ge> length (cr_route r)
                    \<or> cr_route r ! unat (cr_hop_index r) \<noteq> l)
           (LogicError ''drained service chunk does not match routed chunk state'')) (?body r)))
     (\<lambda>_. descended w) (\<lambda>_. descended w) w"
    by (simp add: require_chunk_def getn_def wp_simps descent.rel_refl split: option.splits)
qed

lemma descends_drain_link: "descends (drain_link l)"
  unfolding drain_link_def mark_dropped_link_down_def
  by (intro descent.moves_rules descends_mark_dropped same_chunks_descends same_chunks_all)

lemma descends_modn: "(\<And>n. chunks (f n) = chunks n) \<Longrightarrow> descends (modn f)"
  by (intro same_chunks_descends same_chunks_modn)

lemma descends_state_changes:
  "descends (handle_link_state_change k st)" "descends (handle_port_state_change p st)"
  "descends (handle_switch_state_change s st)"
  unfolding handle_link_state_change_def handle_port_state_change_def handle_switch_state_change_def
    reconcile_unavailable_def Let_def
  by (intro descent.moves_rules descends_drain_link descends_modn same_chunks_gets [THEN same_chunks_descends]; simp)+

lemma transport_dispatch_progress:
  assumes "routes_ok (snd w)"
  shows "wp (transport_dispatch p) (\<lambda>_ w'. routes_ok (snd w')
     \<and> (if transport_payload p then net_potential (snd w') < net_potential (snd w)
        else net_potential (snd w') \<le> net_potential (snd w))) (\<lambda>_ _. True) w"
proof -
  have adv: "wp m (\<lambda>_ w'. routes_ok (snd w') \<and> net_potential (snd w') < net_potential (snd w)) (\<lambda>_ _. True) w"
    if "wp m (\<lambda>_. advanced i w) (\<lambda>_ _. True) w" for m :: "(world, unit) prog" and i
    using that by (rule wp_mono) (use advanced_descends assms in auto)
  have desc: "wp m (\<lambda>_ w'. routes_ok (snd w') \<and> net_potential (snd w') \<le> net_potential (snd w)) (\<lambda>_ _. True) w"
    if "descends m" for m :: "(world, unit) prog"
    by (rule wp_mono [OF movesD [OF that TrueI, of w]]) (use assms in \<open>auto simp: descended_def\<close>)
  show ?thesis
    by (cases p) (use assms in \<open>simp_all add: adv [OF advanced_handle_arrival] adv [OF advanced_handle_completion]
        desc descends_state_changes wp_return\<close>)
qed

interpretation transport_guard: guarded_dispatcher transport_dispatch transport_payload "\<lambda>t E n. routes_ok n" net_potential
proof
  show "in_context transport_payload (transport_dispatch p)" for p by (rule in_context_transport_dispatch)
  show "wp (transport_dispatch (payload e)) (\<lambda>_ w'. routes_ok (snd w')
       \<and> (if transport_payload (payload e) then net_potential (snd w') < net_potential c
          else net_potential (snd w') \<le> net_potential c)) (\<lambda>_ _. True) (s, c)"
    if "routes_ok c" for s e c
    using transport_dispatch_progress [of "(s, c)" "payload e"] that unfolding snd_conv .
qed

section \<open>Example\<close>

text \<open>A rack with two NICs joined by a leaf switch, for the concrete inputs below.\<close>

definition example_topology :: topology_graph where
  "example_topology = fold graph_call_step [CallAddRack, CallAddNic 0, CallAddNic 0, CallAddLeaf 0,
     CallConnect (NodeId Nic 0) FabricUplink (NodeId Switch 0) FabricDownlink,
     CallConnect (NodeId Switch 0) FabricDownlink (NodeId Nic 1) FabricUplink] empty_graph"

definition example_network :: "exn + network" where
  "example_network = new_transport example_topology
     [example_link, example_link\<lparr>cfg_link := DirectedLinkId 1 AToB\<rparr>]
     \<lparr>maximum_chunks = 10, maximum_route_entries = 20, maximum_route_hops = 4\<rparr> False"

definition example_request :: transfer_request where
  "example_request = \<lparr>req_source = NodeId Nic 0, req_destination = NodeId Nic 1, req_bytes = 60,
     req_maximum_chunk_bytes = 40, req_route = [DirectedLinkId 0 AToB, DirectedLinkId 1 AToB]\<rparr>"

text \<open>A new simulation; the state of its random number generator, which the transport does not use, is left out.\<close>

definition example_simulation :: simulation where
  "example_simulation = (new_simulation 1 TraceDisabled False off_session)\<lparr>sim_rng := \<lparr>engine = [], draw_count = 0\<rparr>\<rparr>"

lemma example_simulation_code [code]:
  "example_simulation = \<lparr>sim_now = 0, sim_event_ids = new_id_generator 0, sim_queue = [],
     sim_rng = \<lparr>engine = [], draw_count = 0\<rparr>, sim_trace = new_trace_log TraceDisabled, sim_sink = False,
     sim_session = off_session, pending_ids = {}, cancelled_ids = {}, trace_metadata = Map.empty, current_event = None,
     sim_stop_reason = None, sim_lifecycle = Created, dispatched_events = 0, cancelled_events = 0, telemetry_failed = False\<rparr>"
  by (simp add: example_simulation_def new_simulation_def)

lemma example_simulation_ok: "sim_ok example_simulation" "sim_lifecycle example_simulation = Created"
proof -
  have "sim_ok (s\<lparr>sim_rng := g\<rparr>) = sim_ok s" for s g
    by (simp add: sim_inv_def queue_ok_def metadata_ok_def balanced_def trace_enabled_def telemetry_enabled_def)
  then show "sim_ok example_simulation"
    unfolding example_simulation_def using new_simulation_ok [OF off_session_ok] by blast
  show "sim_lifecycle example_simulation = Created" by (simp add: example_simulation_def new_simulation_def)
qed

text \<open>The world after the request has been submitted to the example network.\<close>

definition example_world :: "exn + world" where
  "example_world = bindR example_network (\<lambda>n.
     Inr (snd (submit_transfer example_request (example_simulation, n))))"

definition example_check :: "network \<Rightarrow> bool" where
  "example_check n \<longleftrightarrow> map (cr_state \<circ> snd) (chunks n) = [AwaitingArrival, AwaitingArrival]
     \<and> list_all (\<lambda>(i, r). length (cr_route r) = 2) (chunks n) \<and> map fst (chunks n) = [0, 1]"

lemma example_world_made: "\<exists>s n. example_world = Inr (s, n) \<and> example_check n"
proof -
  have made: "case example_world of Inl e \<Rightarrow> False | Inr w \<Rightarrow> example_check (snd w)"
    by code_simp
  show ?thesis
  proof (cases example_world)
    case (Inl e)
    from made show ?thesis unfolding Inl by simp
  next
    case (Inr w)
    from made show ?thesis unfolding Inr by (cases w) simp
  qed
qed

lemma example_world_ok:
  assumes "example_world = Inr (s, n)"
  shows "sim_ok s" "sim_lifecycle s = Created" "routes_ok n"
proof -
  from assms obtain n0 where n0: "(s, n) = snd (submit_transfer example_request (example_simulation, n0))"
    by (auto simp: example_world_def bindR_eq_Inr dest: sym)
  let ?s0 = example_simulation
  have "sim_ok ?s0" by (rule example_simulation_ok)
  with moves_snd [OF in_context_submit_transfer, of "(?s0, n0)"] n0 have "stays transport_payload ?s0 s"
    by (metis fst_conv)
  then show "sim_ok s" "sim_lifecycle s = Created" using example_simulation_ok by (simp_all add: stays_def context_frame_def)
  show "routes_ok n"
  proof -
    have ok: "example_check n" using example_world_made assms by (metis prod.inject sum.inject(2))
    then have "\<forall>(i, r)\<in>set (chunks n). length (cr_route r) = 2" by (simp add: example_check_def list_all_iff)
    moreover have "sorted_wrt (<) (map fst (chunks n))" using ok by (simp add: example_check_def)
    ultimately show ?thesis by (fastforce simp: routes_ok_def omap_ok_def)
  qed
qed

section \<open>Properties\<close>

text \<open>C36. A transport simulation is totally correct: from a fresh well-formed simulation, with any events
  scheduled, and chunk routes within the hop-index range, the run comes back with a result and never
  with an exception; the simulation is then finished and well formed, the result describes its final
  state, time has not gone back, and a completed run has dispatched or discarded every event.\<close>

theorem transport_run_terminates:
  assumes "sim_ok s" and "sim_lifecycle s = Created" and "routes_ok n"
  shows "\<exists>res s' n'. run transport_dispatch (s, n) = Some (Inr res, s', n')
           \<and> sim_ok s' \<and> sim_lifecycle s' = Finished \<and> result_of res s' \<and> sim_now s \<le> sim_now s'
           \<and> (res_status res = StatusCompleted \<longrightarrow> sim_queue s' = [])"
  using transport_guard.run_guarded [of "(s, n)"] assms by auto

theorem transport_run_terminates_witness:
  "\<exists>s n res s' n'. example_world = Inr (s, n) \<and> length (chunks n) = 2
     \<and> run transport_dispatch (s, n) = Some (Inr res, s', n') \<and> sim_lifecycle s' = Finished"
proof -
  obtain s n where w: "example_world = Inr (s, n)"
      "example_check n"
    using example_world_made by auto
  then have "length (map (cr_state \<circ> snd) (chunks n)) = 2" by (simp only: example_check_def) simp
  then have "length (chunks n) = 2" by simp
  with transport_run_terminates [OF example_world_ok [OF w(1)]] w(1) show ?thesis by blast
qed

end
