(* ===== verification/Transport_Accounting.thy ===== *)
theory Transport_Accounting
  imports Transport_Run
begin

text \<open>
  The books of the transport: for every transfer, the counters of delivered and dropped traffic are the
  sums over its chunks in those states, the total is the sum over all its chunks, and a transfer is
  completed exactly when all its chunks have come to rest. Every operation that returns normally keeps
  the books.
\<close>

section \<open>The invariant\<close>

definition chunk_bytes :: "(chunk_transit_state \<Rightarrow> bool) \<Rightarrow> (chunk_id, chunk_record) omap \<Rightarrow> chunk_id \<Rightarrow> nat" where
  "chunk_bytes P m i = (case map_of m i of None \<Rightarrow> 0 | Some r \<Rightarrow> if P (cr_state r) then unat (tc_bytes (cr_chunk r)) else 0)"

definition chunk_ticks :: "(chunk_transit_state \<Rightarrow> bool) \<Rightarrow> (chunk_id, chunk_record) omap \<Rightarrow> chunk_id \<Rightarrow> nat" where
  "chunk_ticks P m i = (case map_of m i of None \<Rightarrow> 0 | Some r \<Rightarrow> if P (cr_state r) then 1 else 0)"

definition counted ::
  "(chunk_transit_state \<Rightarrow> bool) \<Rightarrow> (chunk_id, chunk_record) omap \<Rightarrow> chunk_id list \<Rightarrow> traffic_count \<Rightarrow> bool" where
  "counted P m is c \<longleftrightarrow> unat (traffic_bytes c) = sum (chunk_bytes P m) (set is)
     \<and> unat (traffic_chunks c) = sum (chunk_ticks P m) (set is)"

definition terminal_state :: "chunk_transit_state \<Rightarrow> bool" where
  "terminal_state st \<longleftrightarrow> st = Delivered \<or> st = DroppedFull \<or> st = DroppedDown"

definition all_in :: "(chunk_transit_state \<Rightarrow> bool) \<Rightarrow> (chunk_id, chunk_record) omap \<Rightarrow> chunk_id list \<Rightarrow> bool" where
  "all_in P m is \<longleftrightarrow> (\<forall>i\<in>set is. \<exists>r. map_of m i = Some r \<and> P (cr_state r))"

definition transfer_ok :: "(chunk_id, chunk_record) omap \<Rightarrow> transfer_id \<Rightarrow> transfer_record \<Rightarrow> bool" where
  "transfer_ok m t x \<longleftrightarrow>
     distinct (xr_chunks x) \<and> xr_chunks x \<noteq> []
     \<and> (\<forall>i\<in>set (xr_chunks x). \<exists>r. map_of m i = Some r \<and> tc_transfer (cr_chunk r) = t)
     \<and> counted (\<lambda>_. True) m (xr_chunks x) (xr_total x)
     \<and> counted ((=) Delivered) m (xr_chunks x) (xr_delivered x)
     \<and> counted ((=) DroppedFull) m (xr_chunks x) (xr_dropped_buffer_full x)
     \<and> counted ((=) DroppedDown) m (xr_chunks x) (xr_dropped_link_down x)
     \<and> (xr_started_at x = None \<longrightarrow> all_in ((=) Registered) m (xr_chunks x))
     \<and> (xr_completion x \<noteq> None \<longleftrightarrow> all_in terminal_state m (xr_chunks x))
     \<and> (\<forall>c. xr_completion x = Some c \<longrightarrow> tcm_transfer c = t \<and> tcm_delivered c = xr_delivered x
          \<and> tcm_dropped_buffer_full c = xr_dropped_buffer_full x
          \<and> tcm_dropped_link_down c = xr_dropped_link_down x
          \<and> tcm_outcome c = (if all_in ((=) Delivered) m (xr_chunks x) then OutcomeSucceeded else OutcomeFailed))"

type_synonym chunk_map = "(chunk_id, chunk_record) omap"
type_synonym transfer_map = "(transfer_id, transfer_record) omap"
type_synonym service_map = "(directed_link_id, link_service) omap"

definition chunks_ok :: "chunk_map \<Rightarrow> transfer_map \<Rightarrow> bool" where
  "chunks_ok ch tr \<longleftrightarrow> omap_ok ch \<and> (\<forall>i r. map_of ch i = Some r \<longrightarrow>
     tc_id (cr_chunk r) = i \<and> tc_bytes (cr_chunk r) \<noteq> 0 \<and> length (cr_route r) < 2 ^ 32
     \<and> (\<exists>x. map_of tr (tc_transfer (cr_chunk r)) = Some x \<and> i \<in> set (xr_chunks x)))"

definition transfers_ok :: "chunk_map \<Rightarrow> transfer_map \<Rightarrow> bool" where
  "transfers_ok ch tr \<longleftrightarrow> (\<forall>t x. map_of tr t = Some x \<longrightarrow> transfer_ok ch t x)"

text \<open>Queued chunks belong to the records with their identifier.\<close>

definition covered :: "chunk_map \<Rightarrow> transfer_chunk \<Rightarrow> bool" where
  "covered ch c \<longleftrightarrow> (\<exists>r. map_of ch (tc_id c) = Some r \<and> tc_transfer c = tc_transfer (cr_chunk r)
     \<and> tc_bytes c = tc_bytes (cr_chunk r))"

definition services_ok :: "chunk_map \<Rightarrow> service_map \<Rightarrow> bool" where
  "services_ok ch sv \<longleftrightarrow> (\<forall>l svc. map_of sv l = Some svc \<longrightarrow>
     queue_inv (svc_queue svc) \<and> (\<forall>c\<in>set (queue_contents (svc_queue svc)). covered ch c))"

definition books_ok :: "chunk_map \<Rightarrow> transfer_map \<Rightarrow> bool" where
  "books_ok ch tr \<longleftrightarrow> chunks_ok ch tr \<and> transfers_ok ch tr"

section \<open>Sums over the chunks of a transfer\<close>

lemma add_traffic_sum:
  assumes "add_traffic l r = Inr t"
  shows "unat (traffic_bytes t) = unat (traffic_bytes l) + unat (traffic_bytes r)"
    "unat (traffic_chunks t) = unat (traffic_chunks l) + unat (traffic_chunks r)"
proof -
  from assms have "\<not> traffic_bytes r > u64_max - traffic_bytes l" "\<not> traffic_chunks r > u64_max - traffic_chunks l"
    and t: "t = \<lparr>traffic_bytes = traffic_bytes l + traffic_bytes r, traffic_chunks = traffic_chunks l + traffic_chunks r\<rparr>"
    by (auto simp: add_traffic_def split: if_splits)
  then have "unat (traffic_bytes l) + unat (traffic_bytes r) < 2 ^ 64" "unat (traffic_chunks l) + unat (traffic_chunks r) < 2 ^ 64"
    using max_minus_less_iff [of "traffic_bytes l" "traffic_bytes r"] max_minus_less_iff [of "traffic_chunks l" "traffic_chunks r"]
    by (auto simp: not_le)
  then show "unat (traffic_bytes t) = unat (traffic_bytes l) + unat (traffic_bytes r)"
    "unat (traffic_chunks t) = unat (traffic_chunks l) + unat (traffic_chunks r)"
    unfolding t by (simp_all add: unat_plus_no_overflow)
qed

lemma counted_other:
  assumes "i \<notin> set is" and "counted P m is c"
  shows "counted P (omap_put i r m) is c"
proof -
  have "sum (chunk_bytes P (omap_put i r m)) (set is) = sum (chunk_bytes P m) (set is)"
    "sum (chunk_ticks P (omap_put i r m)) (set is) = sum (chunk_ticks P m) (set is)"
    using assms(1) by (auto simp: chunk_bytes_def chunk_ticks_def intro!: sum.cong)
  with assms(2) show ?thesis by (simp add: counted_def)
qed

text \<open>Changing the state of a chunk moves it between the sums.\<close>

lemma counted_put:
  assumes "map_of m i = Some r" and "tc_bytes (cr_chunk r') = tc_bytes (cr_chunk r)" and "counted P m is c" and "i \<in> set is"
  shows "P (cr_state r') = P (cr_state r) \<Longrightarrow> counted P (omap_put i r' m) is c"
    and "P (cr_state r') \<Longrightarrow> \<not> P (cr_state r) \<Longrightarrow> add_traffic c (one_chunk (cr_chunk r')) = Inr d \<Longrightarrow>
      counted P (omap_put i r' m) is d"
proof -
  have b: "sum (chunk_bytes P (omap_put i r' m)) (set is) + chunk_bytes P m i
      = sum (chunk_bytes P m) (set is) + chunk_bytes P (omap_put i r' m) i"
    and t: "sum (chunk_ticks P (omap_put i r' m)) (set is) + chunk_ticks P m i
      = sum (chunk_ticks P m) (set is) + chunk_ticks P (omap_put i r' m) i"
    by (rule sum_update [OF _ assms(4)]; auto simp: chunk_bytes_def chunk_ticks_def)+
  have at: "chunk_bytes P m i = (if P (cr_state r) then unat (tc_bytes (cr_chunk r)) else 0)"
      "chunk_bytes P (omap_put i r' m) i = (if P (cr_state r') then unat (tc_bytes (cr_chunk r)) else 0)"
      "chunk_ticks P m i = (if P (cr_state r) then 1 else 0)"
      "chunk_ticks P (omap_put i r' m) i = (if P (cr_state r') then 1 else 0)"
    using assms(1,2) by (simp_all add: chunk_bytes_def chunk_ticks_def)
  show "counted P (omap_put i r' m) is c" if "P (cr_state r') = P (cr_state r)"
    using b t that assms(3) by (simp add: counted_def at)
  show "counted P (omap_put i r' m) is d" if "P (cr_state r')" "\<not> P (cr_state r)" "add_traffic c (one_chunk (cr_chunk r')) = Inr d"
    using b t that(1,2) assms(2,3) add_traffic_sum [OF that(3)] by (simp add: counted_def at one_chunk_def)
qed

lemma all_in_put:
  "map_of m i = Some r \<Longrightarrow> P (cr_state r') = P (cr_state r) \<Longrightarrow> all_in P (omap_put i r' m) is = all_in P m is"
  by (auto simp: all_in_def)

lemma all_in_other: "i \<notin> set is \<Longrightarrow> all_in P (omap_put i r m) is = all_in P m is"
  by (auto simp: all_in_def)

lemma ticks_terminal:
  "chunk_ticks terminal_state m i = chunk_ticks ((=) Delivered) m i + (chunk_ticks ((=) DroppedFull) m i + chunk_ticks ((=) DroppedDown) m i)"
  by (auto simp: chunk_ticks_def terminal_state_def split: option.splits)

lemma bytes_terminal:
  "chunk_bytes terminal_state m i = chunk_bytes ((=) Delivered) m i + (chunk_bytes ((=) DroppedFull) m i + chunk_bytes ((=) DroppedDown) m i)"
  by (auto simp: chunk_bytes_def terminal_state_def split: option.splits)

lemma ticks_all:
  assumes "\<forall>i\<in>set is. \<exists>r. map_of m i = Some r"
  shows "sum (chunk_ticks P m) (set is) = sum (chunk_ticks (\<lambda>_. True) m) (set is) \<longleftrightarrow> all_in P m is"
proof
  assume eq: "sum (chunk_ticks P m) (set is) = sum (chunk_ticks (\<lambda>_. True) m) (set is)"
  have le: "chunk_ticks P m i \<le> chunk_ticks (\<lambda>_. True) m i" for i by (simp add: chunk_ticks_def split: option.splits)
  show "all_in P m is"
    unfolding all_in_def
  proof (rule ccontr)
    assume "\<not> (\<forall>i\<in>set is. \<exists>r. map_of m i = Some r \<and> P (cr_state r))"
    then obtain i r where "i \<in> set is" "map_of m i = Some r" "\<not> P (cr_state r)" using assms by blast
    then have "\<exists>i\<in>set is. chunk_ticks P m i < chunk_ticks (\<lambda>_. True) m i"
      by (intro bexI [of _ i]) (simp_all add: chunk_ticks_def)
    with le eq sum_strict_mono_ex1 [of "set is" "chunk_ticks P m" "chunk_ticks (\<lambda>_. True) m"] show False by simp
  qed
qed (auto simp: all_in_def chunk_ticks_def intro!: sum.cong)

lemma ticks_none: "sum (chunk_ticks P m) (set is) = 0 \<longleftrightarrow> (\<forall>i\<in>set is. \<forall>r. map_of m i = Some r \<longrightarrow> \<not> P (cr_state r))"
  by (auto simp: chunk_ticks_def split: option.splits)

lemma bytes_all: "all_in P m is \<Longrightarrow> sum (chunk_bytes P m) (set is) = sum (chunk_bytes (\<lambda>_. True) m) (set is)"
  by (auto simp: all_in_def chunk_bytes_def intro!: sum.cong)

lemma add_traffic_counted:
  assumes "counted P m is c" and "counted Q m is d" and "add_traffic c d = Inr e"
  shows "unat (traffic_bytes e) = sum (chunk_bytes P m) (set is) + sum (chunk_bytes Q m) (set is)"
    "unat (traffic_chunks e) = sum (chunk_ticks P m) (set is) + sum (chunk_ticks Q m) (set is)"
  using assms(1,2) add_traffic_sum [OF assms(3)] by (simp_all add: counted_def)

section \<open>Transfers under changes of a chunk\<close>

definition same_chunk :: "chunk_record \<Rightarrow> chunk_record \<Rightarrow> bool" where
  "same_chunk r r' \<longleftrightarrow> tc_id (cr_chunk r') = tc_id (cr_chunk r) \<and> tc_bytes (cr_chunk r') = tc_bytes (cr_chunk r)
     \<and> tc_transfer (cr_chunk r') = tc_transfer (cr_chunk r)"

lemma transfer_ok_members:
  "map_of m i = Some r \<Longrightarrow> same_chunk r r' \<Longrightarrow> \<forall>j\<in>set is. \<exists>q. map_of m j = Some q \<and> tc_transfer (cr_chunk q) = t \<Longrightarrow>
   \<forall>j\<in>set is. \<exists>q. map_of (omap_put i r' m) j = Some q \<and> tc_transfer (cr_chunk q) = t"
  by (auto simp: same_chunk_def)

text \<open>A chunk in transit moves on; or a chunk of another transfer changes.\<close>

lemma transfer_ok_put:
  assumes "transfer_ok m t x" and "map_of m i = Some r" and "same_chunk r r'"
    and "i \<in> set (xr_chunks x) \<Longrightarrow> \<not> terminal_state (cr_state r) \<and> \<not> terminal_state (cr_state r')
       \<and> (cr_state r = Registered \<longleftrightarrow> cr_state r' = Registered)"
  shows "transfer_ok (omap_put i r' m) t x"
proof (cases "i \<in> set (xr_chunks x)")
  case False
  then show ?thesis
    using assms(1) transfer_ok_members [OF assms(2,3)]
    by (simp add: transfer_ok_def counted_other all_in_other)
next
  case True
  with assms(4) have st: "P (cr_state r') = P (cr_state r)" if "P \<in> {\<lambda>_. True, (=) Delivered, (=) DroppedFull, (=) DroppedDown, (=) Registered, terminal_state}" for P
    using that by (auto simp: terminal_state_def)
  have "tc_bytes (cr_chunk r') = tc_bytes (cr_chunk r)" using assms(3) by (simp add: same_chunk_def)
  note put = counted_put(1) [OF assms(2) this _ True] all_in_put [OF assms(2)]
  have mem: "\<forall>j\<in>set (xr_chunks x). \<exists>q. map_of (omap_put i r' m) j = Some q \<and> tc_transfer (cr_chunk q) = t"
    by (rule transfer_ok_members [OF assms(2,3)]) (use assms(1) in \<open>simp add: transfer_ok_def\<close>)
  show ?thesis
    using assms(1) mem st unfolding transfer_ok_def by (simp add: put del: map_of_omap_put)
qed

text \<open>A chunk leaves the registered state.\<close>

lemma transfer_ok_depart:
  assumes "transfer_ok m t x" and "map_of m i = Some r" and "same_chunk r r'" and "i \<in> set (xr_chunks x)"
    and "\<not> terminal_state (cr_state r)" and "\<not> terminal_state (cr_state r')" and "started \<noteq> None"
  shows "transfer_ok (omap_put i r' m) t (x\<lparr>xr_started_at := started\<rparr>)"
proof -
  have st: "P (cr_state r') = P (cr_state r)" if "P \<in> {\<lambda>_. True, (=) Delivered, (=) DroppedFull, (=) DroppedDown, terminal_state}" for P
    using that assms(5,6) by (auto simp: terminal_state_def)
  have "tc_bytes (cr_chunk r') = tc_bytes (cr_chunk r)" using assms(3) by (simp add: same_chunk_def)
  note put = counted_put(1) [OF assms(2) this _ assms(4)] all_in_put [OF assms(2)]
  have mem: "\<forall>j\<in>set (xr_chunks x). \<exists>q. map_of (omap_put i r' m) j = Some q \<and> tc_transfer (cr_chunk q) = t"
    by (rule transfer_ok_members [OF assms(2,3)]) (use assms(1) in \<open>simp add: transfer_ok_def\<close>)
  obtain v where "started = Some v" using assms(7) by auto
  then show ?thesis
    using assms(1) mem st unfolding transfer_ok_def by (simp add: put del: map_of_omap_put)
qed

text \<open>A chunk comes to rest: the counters follow, and the last one completes the transfer.\<close>

definition tallied :: "(chunk_id, chunk_record) omap \<Rightarrow> transfer_id \<Rightarrow> transfer_record \<Rightarrow> bool" where
  "tallied m t x \<longleftrightarrow>
     distinct (xr_chunks x) \<and> xr_chunks x \<noteq> []
     \<and> (\<forall>i\<in>set (xr_chunks x). \<exists>r. map_of m i = Some r \<and> tc_transfer (cr_chunk r) = t)
     \<and> counted (\<lambda>_. True) m (xr_chunks x) (xr_total x)
     \<and> counted ((=) Delivered) m (xr_chunks x) (xr_delivered x)
     \<and> counted ((=) DroppedFull) m (xr_chunks x) (xr_dropped_buffer_full x)
     \<and> counted ((=) DroppedDown) m (xr_chunks x) (xr_dropped_link_down x)
     \<and> xr_started_at x \<noteq> None"

lemma tallied_terminal:
  assumes ok: "transfer_ok m t x" and r: "map_of m i = Some r" and same: "same_chunk r r'" and i: "i \<in> set (xr_chunks x)"
    and "\<not> terminal_state (cr_state r)" and "cr_state r \<noteq> Registered" and term': "terminal_state (cr_state r')"
    and cnt: "record_terminal_counts r' x = Inr x'"
  shows "tallied (omap_put i r' m) t x'" "xr_completion x' = None" "xr_total x' = xr_total x"
proof -
  have bytes: "tc_bytes (cr_chunk r') = tc_bytes (cr_chunk r)" using same by (simp add: same_chunk_def)
  note put = counted_put [OF r bytes _ i]
  have mem: "\<forall>j\<in>set (xr_chunks x). \<exists>q. map_of (omap_put i r' m) j = Some q \<and> tc_transfer (cr_chunk q) = t"
    by (rule transfer_ok_members [OF r same]) (use ok in \<open>simp add: transfer_ok_def\<close>)
  have started: "xr_started_at x \<noteq> None"
    using ok i r assms(6) by (auto simp: transfer_ok_def all_in_def)
  have "\<not> all_in terminal_state m (xr_chunks x)" using i r assms(5) by (force simp: all_in_def)
  with ok have comp: "xr_completion x = None" by (auto simp: transfer_ok_def)
  have keep: "counted ((=) st) (omap_put i r' m) (xr_chunks x) c"
    if "counted ((=) st) m (xr_chunks x) c" "st \<noteq> cr_state r'" "terminal_state st" for st c
    using put(1) [OF that(1)] that(2,3) assms(5) by (auto simp: terminal_state_def)
  have gain: "counted ((=) (cr_state r')) (omap_put i r' m) (xr_chunks x) d"
    if "counted ((=) (cr_state r')) m (xr_chunks x) c" "add_traffic c (one_chunk (cr_chunk r')) = Inr d" for c d
  proof (rule put(2) [OF that(1)])
    show "\<not> cr_state r' = cr_state r" using assms(5) term' by metis
  qed (simp_all add: that(2))
  have tot: "counted (\<lambda>_. True) (omap_put i r' m) (xr_chunks x) (xr_total x)"
    using put(1) [of "\<lambda>_. True"] ok by (simp add: transfer_ok_def)
  have "tallied (omap_put i r' m) t x' \<and> xr_completion x' = None \<and> xr_total x' = xr_total x"
    using ok cnt term' mem started comp tot keep gain
    unfolding transfer_ok_def tallied_def record_terminal_counts_def
    by (auto simp: terminal_state_def bindR_eq_Inr simp del: map_of_omap_put split: chunk_transit_state.splits)
  then show "tallied (omap_put i r' m) t x'" "xr_completion x' = None" "xr_total x' = xr_total x" by simp_all
qed

lemma tallied_sums:
  assumes tal: "tallied m t x"
    and drops: "add_traffic (xr_dropped_buffer_full x) (xr_dropped_link_down x) = Inr drops"
    and ended: "add_traffic (xr_delivered x) drops = Inr ended"
  shows "traffic_chunks ended = traffic_chunks (xr_total x) \<longleftrightarrow> all_in terminal_state m (xr_chunks x)"
    "all_in terminal_state m (xr_chunks x) \<Longrightarrow> traffic_bytes ended = traffic_bytes (xr_total x)"
    "all_in terminal_state m (xr_chunks x) \<Longrightarrow> traffic_chunks drops = 0 \<longleftrightarrow> all_in ((=) Delivered) m (xr_chunks x)"
proof -
  let ?is = "xr_chunks x"
  have known: "\<forall>i\<in>set ?is. \<exists>r. map_of m i = Some r" using tal by (auto simp: tallied_def)
  have c: "counted ((=) Delivered) m ?is (xr_delivered x)" "counted (\<lambda>_. True) m ?is (xr_total x)"
    using tal by (simp_all add: tallied_def)
  have d: "unat (traffic_bytes drops) = sum (chunk_bytes ((=) DroppedFull) m) (set ?is) + sum (chunk_bytes ((=) DroppedDown) m) (set ?is)"
      "unat (traffic_chunks drops) = sum (chunk_ticks ((=) DroppedFull) m) (set ?is) + sum (chunk_ticks ((=) DroppedDown) m) (set ?is)"
    using add_traffic_counted [OF _ _ drops] tal by (simp_all add: tallied_def)
  have e: "unat (traffic_chunks ended) = sum (chunk_ticks terminal_state m) (set ?is)"
      "unat (traffic_bytes ended) = sum (chunk_bytes terminal_state m) (set ?is)"
    using add_traffic_sum [OF ended] c(1) d unfolding counted_def
    by (simp_all add: ticks_terminal bytes_terminal sum.distrib)
  show fin: "traffic_chunks ended = traffic_chunks (xr_total x) \<longleftrightarrow> all_in terminal_state m ?is"
    using ticks_all [OF known, of terminal_state] e c(2) by (simp add: counted_def word_unat_eq_iff)
  show "traffic_bytes ended = traffic_bytes (xr_total x)" if "all_in terminal_state m ?is"
    using bytes_all [OF that] e c(2) by (simp add: counted_def word_unat_eq_iff)
  show "traffic_chunks drops = 0 \<longleftrightarrow> all_in ((=) Delivered) m ?is" if all: "all_in terminal_state m ?is"
  proof -
    have "traffic_chunks drops = 0 \<longleftrightarrow> unat (traffic_chunks drops) = 0" by (simp add: unat_eq_0_iff)
    also have "\<dots> \<longleftrightarrow> sum (chunk_ticks ((=) DroppedFull) m) (set ?is) = 0 \<and> sum (chunk_ticks ((=) DroppedDown) m) (set ?is) = 0"
      unfolding d by simp
    also have "\<dots> \<longleftrightarrow> all_in ((=) Delivered) m ?is"
      unfolding ticks_none using all by (fastforce simp: all_in_def terminal_state_def)
    finally show ?thesis .
  qed
qed

lemma transfer_ok_tallied:
  assumes "tallied m t x" and "xr_completion x = None" and "\<not> all_in terminal_state m (xr_chunks x)"
  shows "transfer_ok m t x"
  using assms by (cases "xr_started_at x") (simp_all add: tallied_def transfer_ok_def)

lemma transfer_ok_completed:
  assumes "tallied m t x" and "all_in terminal_state m (xr_chunks x)"
    and "tcm_transfer c = t" "tcm_delivered c = xr_delivered x" "tcm_dropped_buffer_full c = xr_dropped_buffer_full x"
      "tcm_dropped_link_down c = xr_dropped_link_down x"
      "tcm_outcome c = (if all_in ((=) Delivered) m (xr_chunks x) then OutcomeSucceeded else OutcomeFailed)"
  shows "transfer_ok m t (x\<lparr>xr_completion := Some c\<rparr>)"
  using assms by (cases "xr_started_at x") (simp_all add: tallied_def transfer_ok_def)

section \<open>The books under the steps of the runtime\<close>

lemma same_chunkD: "same_chunk r r' \<Longrightarrow> tc_id (cr_chunk r') = tc_id (cr_chunk r) \<and> tc_bytes (cr_chunk r') = tc_bytes (cr_chunk r)
   \<and> tc_transfer (cr_chunk r') = tc_transfer (cr_chunk r)"
  by (simp add: same_chunk_def)

lemma chunks_ok_put:
  assumes "chunks_ok ch tr" and "map_of ch i = Some r" and "same_chunk r r'" and "cr_route r' = cr_route r"
    and "\<And>t x. map_of tr t = Some x \<Longrightarrow> \<exists>x'. map_of tr' t = Some x' \<and> xr_chunks x' = xr_chunks x"
  shows "chunks_ok (omap_put i r' ch) tr'"
  unfolding chunks_ok_def
proof (intro conjI allI impI)
  show "omap_ok (omap_put i r' ch)" using assms(1) by (simp add: chunks_ok_def)
next
  fix j q assume j: "map_of (omap_put i r' ch) j = Some q"
  obtain q0 where q0: "map_of ch j = Some q0" "same_chunk q0 q" "cr_route q = cr_route q0"
    using j assms(2-4) by (auto simp: same_chunk_def split: if_splits)
  from assms(1) q0(1) obtain x where x: "map_of tr (tc_transfer (cr_chunk q0)) = Some x" "j \<in> set (xr_chunks x)"
    and c: "tc_id (cr_chunk q0) = j" "tc_bytes (cr_chunk q0) \<noteq> 0" "length (cr_route q0) < 2 ^ 32"
    by (auto simp: chunks_ok_def)
  show "tc_id (cr_chunk q) = j" "tc_bytes (cr_chunk q) \<noteq> 0" "length (cr_route q) < 2 ^ 32"
    using c q0(2,3) by (simp_all add: same_chunk_def)
  show "\<exists>x. map_of tr' (tc_transfer (cr_chunk q)) = Some x \<and> j \<in> set (xr_chunks x)"
    using assms(5) [OF x(1)] x(2) same_chunkD [OF q0(2)] by auto
qed

lemma services_ok_put:
  assumes "services_ok ch sv" and "map_of ch i = Some r" and "same_chunk r r'"
  shows "services_ok (omap_put i r' ch) sv"
  using assms by (fastforce simp: services_ok_def covered_def same_chunk_def)

text \<open>A chunk moves on in transit.\<close>

lemma books_ok_transit:
  assumes "books_ok ch tr" and "map_of ch i = Some r" and "same_chunk r r'" and "cr_route r' = cr_route r"
    and "\<not> terminal_state (cr_state r)" and "\<not> terminal_state (cr_state r')"
    and "cr_state r = Registered \<longleftrightarrow> cr_state r' = Registered"
  shows "books_ok (omap_put i r' ch) tr"
proof -
  have "chunks_ok (omap_put i r' ch) tr"
    by (rule chunks_ok_put [OF _ assms(2,3,4)]) (use assms(1) in \<open>auto simp: books_ok_def\<close>)
  moreover have "transfer_ok (omap_put i r' ch) t x" if "map_of tr t = Some x" for t x
    by (rule transfer_ok_put [OF _ assms(2,3)]) (use assms that in \<open>auto simp: books_ok_def transfers_ok_def\<close>)
  ultimately show ?thesis by (simp add: books_ok_def transfers_ok_def)
qed

text \<open>A transfer whose record is replaced by one with the same chunks, while one of its chunks changes.\<close>

lemma books_ok_replace:
  assumes "books_ok ch tr" and "map_of ch i = Some r" and "same_chunk r r'" and "cr_route r' = cr_route r"
    and t: "t = tc_transfer (cr_chunk r)" and x: "map_of tr t = Some x" and "xr_chunks x' = xr_chunks x"
    and ok: "transfer_ok (omap_put i r' ch) t x'" and tr': "map_of tr' = (map_of tr)(t \<mapsto> x')"
  shows "books_ok (omap_put i r' ch) tr'"
proof -
  have "chunks_ok (omap_put i r' ch) tr'"
    by (rule chunks_ok_put [OF _ assms(2,3,4)]) (use assms(1) x assms(7) tr' in \<open>auto simp: books_ok_def\<close>)
  moreover have "transfer_ok (omap_put i r' ch) s y" if y: "map_of tr s = Some y" and "s \<noteq> t" for s y
  proof (rule transfer_ok_put [OF _ assms(2,3)])
    show y': "transfer_ok ch s y" using assms(1) y by (simp add: books_ok_def transfers_ok_def)
    have "i \<notin> set (xr_chunks y)" using y' assms(2) t \<open>s \<noteq> t\<close> by (auto simp: transfer_ok_def)
    then show "\<not> terminal_state (cr_state r) \<and> \<not> terminal_state (cr_state r')
       \<and> (cr_state r = Registered \<longleftrightarrow> cr_state r' = Registered)" if "i \<in> set (xr_chunks y)" using that by simp
  qed
  ultimately show ?thesis using ok tr' by (simp add: books_ok_def transfers_ok_def)
qed

lemma books_ok_member:
  assumes "books_ok ch tr" and "map_of ch i = Some r"
  obtains x where "map_of tr (tc_transfer (cr_chunk r)) = Some x" "i \<in> set (xr_chunks x)"
    "transfer_ok ch (tc_transfer (cr_chunk r)) x"
  using assms by (auto simp: books_ok_def chunks_ok_def transfers_ok_def)

end
