(* ===== verification/Transport_Coherence.thy ===== *)
theory Transport_Coherence
  imports Transport_Accounting
begin

text \<open>
  The coherence of the transport with the simulation it runs in. A chunk that awaits its arrival has a
  live event for it, an admitted chunk is held by the service of the link it is at, and a busy service
  has a live completion event for the chunk it serves. Together with the books this is an invariant of
  every handler that returns normally, so at the end of a completed run nothing is left in transit.
\<close>

section \<open>The invariant\<close>

definition awaited :: "chunk_id set \<Rightarrow> event set \<Rightarrow> chunk_map \<Rightarrow> bool" where
  "awaited K E ch \<longleftrightarrow> (\<forall>i r. map_of ch i = Some r \<longrightarrow>
     (cr_state r = Registered \<longrightarrow> i \<in> K \<and> cr_hop_index r = 0)
     \<and> (cr_state r = AwaitingArrival \<longrightarrow> unat (cr_hop_index r) \<le> length (cr_route r)
          \<and> (\<exists>e\<in>E. scheduled_arrival r = Some (event_id e) \<and> payload e = ChunkArrivalEvent i (cr_hop_index r))))"

definition holds_chunk :: "service_map \<Rightarrow> directed_link_id \<Rightarrow> chunk_id \<Rightarrow> bool" where
  "holds_chunk sv l i \<longleftrightarrow> (\<exists>svc. map_of sv l = Some svc \<and> i \<in> tc_id ` set (queue_contents (svc_queue svc)))"

definition held :: "(directed_link_id \<Rightarrow> chunk_id \<Rightarrow> bool) \<Rightarrow> chunk_map \<Rightarrow> bool" where
  "held H ch \<longleftrightarrow> (\<forall>i r. map_of ch i = Some r \<longrightarrow> cr_state r = Admitted \<longrightarrow>
     unat (cr_hop_index r) < length (cr_route r) \<and> H (cr_route r ! unat (cr_hop_index r)) i)"

definition serving :: "event set \<Rightarrow> directed_link_id \<Rightarrow> link_service \<Rightarrow> bool" where
  "serving E l svc \<longleftrightarrow> cfg_link (lq_configuration (svc_queue svc)) = l
     \<and> (case lq_active (svc_queue svc) of
          None \<Rightarrow> scheduled_completion svc = None
        | Some c \<Rightarrow> \<exists>e\<in>E. scheduled_completion svc = Some (event_id e)
            \<and> payload e = TransmissionCompleteEvent (dl_link l) (tc_id c) (tc_hop_index c) (dl_direction l))"

definition served :: "event set \<Rightarrow> service_map \<Rightarrow> bool" where
  "served E sv \<longleftrightarrow> (\<forall>l svc. map_of sv l = Some svc \<longrightarrow> serving E l svc)"

definition coherent :: "chunk_id set \<Rightarrow> event set \<Rightarrow> chunk_map \<Rightarrow> transfer_map \<Rightarrow> service_map \<Rightarrow> bool" where
  "coherent K E ch tr sv \<longleftrightarrow> books_ok ch tr \<and> services_ok ch sv \<and> awaited K E ch \<and> held (holds_chunk sv) ch \<and> served E sv"

section \<open>Stepping through the handlers\<close>

text \<open>The parts of the world the invariant speaks of.\<close>

definition stands :: "event set \<Rightarrow> event option \<Rightarrow> chunk_map \<Rightarrow> transfer_map \<Rightarrow> service_map \<Rightarrow> world \<Rightarrow> bool" where
  "stands E cur ch tr sv w \<longleftrightarrow> sim_ok (fst w) \<and> live (fst w) = E \<and> current_event (fst w) = cur
     \<and> chunks (snd w) = ch \<and> transfers (snd w) = tr \<and> services (snd w) = sv"

definition unmoved :: "world \<Rightarrow> world \<Rightarrow> bool" where
  "unmoved w w' \<longleftrightarrow> (\<forall>E cur ch tr sv. stands E cur ch tr sv w \<longrightarrow> stands E cur ch tr sv w')"

abbreviation still :: "(world, 'a) prog \<Rightarrow> bool" where
  "still \<equiv> moves (\<lambda>w. sim_ok (fst w)) unmoved"

interpretation stillness: state_frame "\<lambda>w. sim_ok (fst w)" unmoved
proof
  show "sim_ok (fst w')" if "sim_ok (fst w)" "unmoved w w'" for w w'
    using that by (auto simp: unmoved_def stands_def)
qed (simp_all add: unmoved_def)

lemma silent_still: "silent m \<Longrightarrow> still m"
proof (erule moves_mono)
  fix w w' :: world assume "sim_ok (fst w)"
  then show "telemetry_ok (fst w)" by (simp add: sim_inv_def)
  assume "hush w w'"
  then have q: "quiet (fst w) (fst w')" and n: "snd w' = (snd w)\<lparr>reported_busy_time := reported_busy_time (snd w')\<rparr>"
    by (simp_all add: hush_def)
  have "chunks (snd w') = chunks (snd w)" "transfers (snd w') = transfers (snd w)" "services (snd w') = services (snd w)"
    by (subst n, simp)+
  then show "unmoved w w'"
    using sim_inv_quiet [OF _ q] live_quiet [OF q] quiet_fields(9) [OF q] by (simp add: unmoved_def stands_def)
qed

lemmas silent_all = silent_getn silent_net_record silent_event_correlation silent_require silent_emit_transfer
  silent_emit_queue silent_emit_delta silent_emit_link_metrics silent_emit_queue_gauges silent_emit_gauges_now
  silent_emit_terminal_transfer silent_emit_admission silently.moves_pure

lemmas still_all = silent_all [THEN silent_still]

lemma still_modn:
  "(\<And>n. chunks (f n) = chunks n \<and> transfers (f n) = transfers n \<and> services (f n) = services n) \<Longrightarrow> still (modn f)"
  by (rule movesI) (simp add: modn_def zoom_net_def wp_simps unmoved_def stands_def)

lemma stands_ok: "stands E cur ch tr sv w \<Longrightarrow> sim_ok (fst w)"
  by (simp add: stands_def)

lemma stands_inj: "stands E cur ch tr sv w \<Longrightarrow> inj_on event_id E"
  using live_inj by (auto simp: stands_def)

lemma still_bind:
  assumes "stands E cur ch tr sv w" and "still m" and "\<And>x w'. stands E cur ch tr sv w' \<Longrightarrow> wp (f x) Q (\<lambda>_ _. True) w'"
  shows "wp (bind m f) Q (\<lambda>_ _. True) w"
  by (rule wp_moves_bind [OF assms(2) stands_ok [OF assms(1)]]) (use assms(1,3) in \<open>auto simp: unmoved_def\<close>)

lemma still_seq:
  "stands E cur ch tr sv w \<Longrightarrow> still m \<Longrightarrow> (\<And>w'. stands E cur ch tr sv w' \<Longrightarrow> wp k Q (\<lambda>_ _. True) w') \<Longrightarrow>
   wp (seq m k) Q (\<lambda>_ _. True) w"
  unfolding seq_def by (rule still_bind)

lemma still_last:
  assumes "stands E cur ch tr sv w" and "still m" and "\<And>x w'. stands E cur ch tr sv w' \<Longrightarrow> Q x w'"
  shows "wp m Q (\<lambda>_ _. True) w"
  by (rule wp_moves_last [OF assms(2) stands_ok [OF assms(1)]]) (use assms(1,3) in \<open>auto simp: unmoved_def\<close>)

lemma step_put_chunk:
  "stands E cur ch tr sv w \<Longrightarrow> (\<And>w'. stands E cur (omap_put i r ch) tr sv w' \<Longrightarrow> wp k Q (\<lambda>_ _. True) w') \<Longrightarrow>
   wp (seq (put_chunk i r) k) Q (\<lambda>_ _. True) w"
  by (simp add: wp_seq wp_put_chunk stands_def)

lemma step_put_transfer:
  "stands E cur ch tr sv w \<Longrightarrow> (\<And>w'. stands E cur ch (omap_put t x tr) sv w' \<Longrightarrow> wp k Q (\<lambda>_ _. True) w') \<Longrightarrow>
   wp (seq (put_transfer t x) k) Q (\<lambda>_ _. True) w"
  by (simp add: wp_seq put_transfer_def modn_def zoom_net_def wp_simps stands_def)

lemma step_require_chunk:
  "stands E cur ch tr sv w \<Longrightarrow> (\<And>r. map_of ch i = Some r \<Longrightarrow> wp (f r) Q (\<lambda>_ _. True) w) \<Longrightarrow>
   wp (bind (require_chunk i) f) Q (\<lambda>_ _. True) w"
  by (simp add: wp_bind wp_require_chunk stands_def)

lemma step_transfer_at:
  "stands E cur ch tr sv w \<Longrightarrow> (\<And>x. map_of tr t = Some x \<Longrightarrow> wp (f x) Q (\<lambda>_ _. True) w) \<Longrightarrow>
   wp (bind (transfer_at t) f) Q (\<lambda>_ _. True) w"
  by (simp add: transfer_at_def getn_def wp_simps stands_def split: option.splits)

lemma step_lift:
  "(\<And>x. v = Inr x \<Longrightarrow> wp (f x) Q (\<lambda>_ _. True) w) \<Longrightarrow> wp (bind (lift_res v) f) Q (\<lambda>_ _. True) w"
  by (simp add: wp_simps split: sum.splits)

lemma wp_gets_bind: "wp (f (g w)) Q E w \<Longrightarrow> wp (bind (gets g) f) Q E w"
  by (simp add: wp_simps)

lemma wp_total: "wp (\<lambda>s. case g s of (x, t) \<Rightarrow> (Inr x, t)) Q E s = (case g s of (x, t) \<Rightarrow> Q x t)"
  by (simp add: wp_def split: prod.splits)

lemma step_current:
  "stands E (Some e) ch tr sv w \<Longrightarrow> wp (f (event_id e)) Q (\<lambda>_ _. True) w \<Longrightarrow>
   wp (bind (zoom_sim current_event_id) f) Q (\<lambda>_ _. True) w"
  by (simp add: zoom_sim_def current_event_id_def wp_simps stands_def)

lemma wp_zoom_schedule:
  assumes ok: "sim_ok (fst w)"
    and k: "\<And>e t. e \<notin> live (fst w) \<Longrightarrow> payload e = spec_payload spec \<Longrightarrow> sim_ok t \<Longrightarrow> current_event t = current_event (fst w) \<Longrightarrow>
      live t = insert e (live (fst w)) \<Longrightarrow> wp (f (event_id e)) Q (\<lambda>_ _. True) (t, snd w)"
  shows "wp (bind (zoom_sim (schedule spec)) f) Q (\<lambda>_ _. True) w"
  unfolding wp_bind zoom_sim_def wp_zoom
proof (rule wp_mono [OF live_schedule [OF ok]])
  let ?e = "spec_event (fst w) spec"
  fix i t
  assume h: "sim_ok t \<and> context_frame (fst w) t \<and> live t = insert ?e (live (fst w)) \<and> ?e \<notin> live (fst w) \<and> i = event_id ?e"
  have "wp (f (event_id ?e)) Q (\<lambda>_ _. True) (t, snd w)"
    by (rule k) (use h in \<open>simp_all add: context_frame_def, simp add: spec_event_def\<close>)
  with h show "wp (f i) Q (\<lambda>_ _. True) (t, snd w)" by simp
qed simp

lemma step_schedule:
  assumes "stands E cur ch tr sv w"
    and "\<And>e w'. e \<notin> E \<Longrightarrow> payload e = spec_payload spec \<Longrightarrow> stands (insert e E) cur ch tr sv w' \<Longrightarrow> wp (f (event_id e)) Q (\<lambda>_ _. True) w'"
  shows "wp (bind (zoom_sim (schedule spec)) f) Q (\<lambda>_ _. True) w"
  by (rule wp_zoom_schedule) (use assms(1) in \<open>auto simp: stands_def intro!: assms(2)\<close>)

section \<open>Terminal accounting\<close>

lemma terminal_books:
  assumes w: "stands E cur (omap_put i r' ch) tr sv w"
    and ok: "books_ok ch tr" and r: "map_of ch i = Some r" and same: "same_chunk r r'" and route: "cr_route r' = cr_route r"
    and st: "\<not> terminal_state (cr_state r)" "cr_state r \<noteq> Registered" "terminal_state (cr_state r')"
    and Q: "\<And>tr' w'. stands E cur (omap_put i r' ch) tr' sv w' \<Longrightarrow> books_ok (omap_put i r' ch) tr' \<Longrightarrow> Q w'"
  shows "wp (net_record_terminal r') (\<lambda>_. Q) (\<lambda>_ _. True) w"
proof -
  let ?ch = "omap_put i r' ch" and ?t = "tc_transfer (cr_chunk r')"
  have t: "?t = tc_transfer (cr_chunk r)" using same by (simp add: same_chunk_def)
  obtain x where x: "map_of tr ?t = Some x" "i \<in> set (xr_chunks x)" "transfer_ok ch ?t x"
    using books_ok_member [OF ok r] unfolding t by blast
  show ?thesis
    unfolding net_record_terminal_def Let_def
  proof (rule still_bind [OF w still_all(2)], rule step_transfer_at, assumption, rule wp_guard, rule step_lift,
      rule step_put_transfer, assumption, rule step_lift, rule step_lift, goal_cases)
    case (1 now w1 x0 x' w2 drops ended)
    then have x0: "x0 = x" using x(1) by simp
    have cnt: "record_terminal_counts r' x = Inr x'" using 1 x0 by simp
    note tal = tallied_terminal [OF x(3) r same x(2) st cnt]
    have ids: "xr_chunks x' = xr_chunks x"
      using cnt by (auto simp: record_terminal_counts_def bindR_eq_Inr split: chunk_transit_state.splits)
    note sums = tallied_sums [OF tal(1) 1(6) 1(7)]
    have fin: "books_ok ?ch (omap_put ?t y tr)" if "transfer_ok ?ch ?t y" "xr_chunks y = xr_chunks x" for y
      by (rule books_ok_replace [OF ok r same route t x(1) that(2,1)]) simp
    show ?case
    proof (cases "traffic_chunks ended = traffic_chunks (xr_total x')")
      case False
      with sums(1) have "transfer_ok ?ch ?t x'" using transfer_ok_tallied [OF tal(1,2)] by simp
      with fin ids Q [OF 1(5)] False show ?thesis by (simp add: wp_simps)
    next
      case True
      with sums have all: "all_in terminal_state ?ch (xr_chunks x')"
        and drops: "traffic_chunks drops = 0 \<longleftrightarrow> all_in ((=) Delivered) ?ch (xr_chunks x')" by simp_all
      let ?c = "\<lparr>tcm_transfer = ?t, tcm_outcome = (if traffic_chunks drops = 0 then OutcomeSucceeded else OutcomeFailed),
          tcm_timestamp = now, tcm_delivered = xr_delivered x', tcm_dropped_buffer_full = xr_dropped_buffer_full x',
          tcm_dropped_link_down = xr_dropped_link_down x'\<rparr>"
      have "transfer_ok ?ch ?t (x'\<lparr>xr_completion := Some ?c\<rparr>)"
        by (rule transfer_ok_completed [OF tal(1) all]) (simp_all add: drops)
      with fin [of "x'\<lparr>xr_completion := Some ?c\<rparr>"] ids have fin': "books_ok ?ch (omap_put ?t (x'\<lparr>xr_completion := Some ?c\<rparr>) tr)"
        by simp
      have "wp (seq (throw_if (traffic_bytes ended \<noteq> traffic_bytes (xr_total x')) (LogicError ''terminal transfer byte accounting mismatch''))
           (seq (modn (\<lambda>n. n\<lparr>completions := completions n @ [?c]\<rparr>))
              (seq (put_transfer ?t (x'\<lparr>xr_completion := Some ?c\<rparr>)) (emit_terminal_transfer ?c x')))) (\<lambda>_. Q) (\<lambda>_ _. True) w2"
      proof (rule wp_guard, rule still_seq [OF 1(5) still_modn], simp, erule step_put_transfer, erule still_last, rule still_all)
        fix w3 w4 :: world
        assume "stands E cur ?ch (omap_put ?t (x'\<lparr>xr_completion := Some ?c\<rparr>) (omap_put ?t x' tr)) sv w4"
        then have "stands E cur ?ch (omap_put ?t (x'\<lparr>xr_completion := Some ?c\<rparr>) tr) sv w4" by simp
        then show "Q w4" by (rule Q [OF _ fin'])
      qed
      with True show ?thesis by (simp add: wp_perform_if)
    qed
  qed
qed

section \<open>Link services\<close>

text \<open>The parts of a service state the invariant speaks of.\<close>

definition poised :: "event set \<Rightarrow> event option \<Rightarrow> link_service \<Rightarrow> service_state \<Rightarrow> bool" where
  "poised E cur svc u \<longleftrightarrow> sim_ok (fst u) \<and> live (fst u) = E \<and> current_event (fst u) = cur \<and> snd u = svc"

text \<open>What an operation on a service promises: the events ahead, the service and the result.\<close>

definition service_outcome ::
  "event option \<Rightarrow> (event set \<Rightarrow> link_service \<Rightarrow> 'a \<Rightarrow> bool) \<Rightarrow> 'a \<Rightarrow> service_state \<Rightarrow> bool" where
  "service_outcome cur R x u \<longleftrightarrow> (\<exists>E svc. poised E cur svc u \<and> R E svc x)"

lemma wp_in_service:
  "wp (in_service l m) Q E w =
     (case map_of (services (snd w)) l of
        None \<Rightarrow> E (InvalidArgument ''unknown directed-link transport service'') w
      | Some svc \<Rightarrow>
          let put = (\<lambda>u. (fst u, (snd w)\<lparr>services := omap_put l (snd u) (services (snd w))\<rparr>))
          in wp m (\<lambda>x u. Q x (put u)) (\<lambda>e u. E e (put u)) (fst w, svc))"
  unfolding in_service_def wp_bind
  by (simp add: require_service_def getn_def find_service_def wp_simps split: option.splits)
     (auto simp: wp_def split: prod.splits sum.splits)

lemma step_in_service:
  assumes w: "stands E cur ch tr sv w"
    and m: "\<And>svc u. map_of sv l = Some svc \<Longrightarrow> poised E cur svc u \<Longrightarrow> wp m (service_outcome cur (R svc)) (\<lambda>_ _. True) u"
    and k: "\<And>svc x E' svc' w'. map_of sv l = Some svc \<Longrightarrow> R svc E' svc' x \<Longrightarrow> stands E' cur ch tr (omap_put l svc' sv) w' \<Longrightarrow>
      wp (f x) Q (\<lambda>_ _. True) w'"
  shows "wp (bind (in_service l m) f) Q (\<lambda>_ _. True) w"
proof (cases "map_of sv l")
  case None
  with w show ?thesis by (simp add: wp_bind wp_in_service stands_def)
next
  case (Some svc)
  let ?put = "\<lambda>u. (fst u, (snd w)\<lparr>services := omap_put l (snd u) (services (snd w))\<rparr>)"
  have "poised E cur svc (fst w, svc)" using w by (simp add: poised_def stands_def)
  from m [OF Some this] have "wp m (\<lambda>x u. wp (f x) Q (\<lambda>_ _. True) (?put u)) (\<lambda>_ _. True) (fst w, svc)"
  proof (rule wp_mono)
    fix x u assume "service_outcome cur (R svc) x u"
    then obtain E' svc' where u: "poised E' cur svc' u" "R svc E' svc' x" by (auto simp: service_outcome_def)
    show "wp (f x) Q (\<lambda>_ _. True) (?put u)"
      by (rule k [OF Some u(2)]) (use u(1) w in \<open>simp add: poised_def stands_def\<close>)
  qed simp
  with Some w show ?thesis by (simp add: wp_bind wp_in_service stands_def)
qed

lemma poised_schedule_completion:
  assumes u: "poised E cur svc u"
    and k: "\<And>e u'. payload e = TransmissionCompleteEvent (dl_link (cfg_link (lq_configuration (svc_queue svc)))) (tc_id c)
        (tc_hop_index c) (dl_direction (cfg_link (lq_configuration (svc_queue svc)))) \<Longrightarrow> poised (insert e E) cur svc u' \<Longrightarrow>
      wp (f (event_id e)) Q (\<lambda>_ _. True) u'"
  shows "wp (bind (schedule_completion c) f) Q (\<lambda>_ _. True) u"
proof -
  let ?p = "TransmissionCompleteEvent (dl_link (cfg_link (lq_configuration (svc_queue svc)))) (tc_id c)
        (tc_hop_index c) (dl_direction (cfg_link (lq_configuration (svc_queue svc))))"
  have "wp (bind (zoom_sim (schedule \<lparr>spec_timestamp = time, spec_priority = Control, spec_payload = ?p\<rparr>)) f) Q (\<lambda>_ _. True) u" for time
    by (rule wp_zoom_schedule) (use u in \<open>auto simp: poised_def intro!: k\<close>)
  then show ?thesis
    using u by (simp add: schedule_completion_def wp_simps poised_def case_prod_unfold split: sum.splits)
qed

lemma serving_more: "serving E l svc \<Longrightarrow> E \<subseteq> E' \<Longrightarrow> serving E' l svc"
  by (auto simp: serving_def split: option.splits)

lemma serving_same:
  "serving E l svc \<Longrightarrow> lq_active (svc_queue svc') = lq_active (svc_queue svc) \<Longrightarrow>
   lq_configuration (svc_queue svc') = lq_configuration (svc_queue svc) \<Longrightarrow> scheduled_completion svc' = scheduled_completion svc \<Longrightarrow>
   serving E l svc'"
  by (simp add: serving_def split: option.splits)

lemma service_outcomeI: "poised E cur svc u \<Longrightarrow> R E svc x \<Longrightarrow> service_outcome cur R x u"
  by (auto simp: service_outcome_def)

lemma service_admit_outcome:
  assumes u: "poised E cur svc u" and sv: "serving E l svc"
  shows "wp (service_admit c) (service_outcome cur (\<lambda>E' svc' x. E \<subseteq> E' \<and> tc_bytes c \<noteq> 0
      \<and> admission_outcome c (svc_queue svc) = (x, svc_queue svc') \<and> serving E' l svc')) (\<lambda>_ _. True) u"
  (is "wp _ ?Q _ _")
proof -
  let ?idle = "lq_active (svc_queue svc) = None"
  let ?tail = "\<lambda>nxt now completion. bind (zoom_svc_queue (queue_admit c)) (\<lambda>result.
        seq (zoom_svc (modify (\<lambda>s. s\<lparr>svc_statistics := nxt\<rparr>)))
       (seq (perform_if ?idle (zoom_svc (modify (\<lambda>s. s\<lparr>scheduled_completion := completion, busy_since := Some now\<rparr>))))
            (return result)))"
  have busy: "wp (?tail nxt now completion) ?Q (\<lambda>_ _. True) u'"
    if "\<not> ?idle" "tc_bytes c \<noteq> 0" "poised E cur svc u'" for nxt now completion u'
  proof -
    obtain x q' where out: "admission_outcome c (svc_queue svc) = (x, q')" by (cases "admission_outcome c (svc_queue svc)")
    have q': "lq_active q' = lq_active (svc_queue svc)" "lq_configuration q' = lq_configuration (svc_queue svc)"
      using out that(1) by (auto simp: admission_outcome_def admitted_queue_def split: if_splits)
    have "serving E l (svc\<lparr>svc_queue := q', svc_statistics := nxt\<rparr>)" by (rule serving_same [OF sv]) (simp_all add: q')
    then show ?thesis
      using that out
      by (auto simp: wp_simps zoom_svc_def zoom_svc_queue_def poised_def wp_def [of "queue_admit c"] queue_admit_eq service_outcome_def)
  qed
  have idle: "wp (?tail nxt now (Some (event_id e))) ?Q (\<lambda>_ _. True) u'"
    if "?idle" "tc_bytes c \<noteq> 0" "poised (insert e E) cur svc u'"
      "payload e = TransmissionCompleteEvent (dl_link l) (tc_id c) (tc_hop_index c) (dl_direction l)" for nxt now e u'
  proof -
    have out: "admission_outcome c (svc_queue svc) = (\<lparr>disposition = ServiceStarted, marked_here = False\<rparr>, (svc_queue svc)\<lparr>lq_active := Some c\<rparr>)"
      using that(1) by (simp add: admission_outcome_def)
    have "serving (insert e E) l (svc\<lparr>svc_queue := (svc_queue svc)\<lparr>lq_active := Some c\<rparr>, svc_statistics := nxt,
        scheduled_completion := Some (event_id e), busy_since := Some now\<rparr>)" using sv that(4) by (auto simp: serving_def)
    then show ?thesis
      using that out by (simp add: wp_simps zoom_svc_def zoom_svc_queue_def poised_def wp_def [of "queue_admit c"] queue_admit_eq service_outcome_def) blast
  qed
  have cfg: "cfg_link (lq_configuration (svc_queue svc)) = l" using sv by (simp add: serving_def)
  have main: "wp (bind (if ?idle then bind (schedule_completion c) (\<lambda>i. return (Some i)) else return None) (?tail nxt now)) ?Q (\<lambda>_ _. True) u"
    if "tc_bytes c \<noteq> 0" for nxt now
  proof (cases ?idle)
    case False
    then obtain a where "lq_active (svc_queue svc) = Some a" by auto
    then show ?thesis using busy [OF False that u] by (simp add: wp_bind wp_return)
  next
    case True
    have "wp (bind (schedule_completion c) (\<lambda>i. ?tail nxt now (Some i))) ?Q (\<lambda>_ _. True) u"
      by (rule poised_schedule_completion [OF u]) (rule idle [OF True that], simp_all add: cfg)
    with True show ?thesis by (simp add: wp_bind wp_return)
  qed
  obtain sim where "u = (sim, svc)" using u by (cases u) (simp add: poised_def)
  then show ?thesis
    unfolding service_admit_def Let_def using main
    by (auto intro!: wp_guard wp_gets_bind step_lift)
qed

lemma complete_service_next:
  "complete_service q = (Some t, q') \<Longrightarrow> lq_active q' = next_waiting q \<and> lq_configuration q' = lq_configuration q"
  by (auto simp: complete_service_def next_waiting_def split: option.splits list.splits)

lemma service_completion_outcome:
  assumes u: "poised E cur svc u" and cfg: "cfg_link (lq_configuration (svc_queue svc)) = l"
  shows "wp (service_handle_completion k i hop d) (service_outcome cur (\<lambda>E' svc' x. E \<subseteq> E'
      \<and> complete_service (svc_queue svc) = (Some x, svc_queue svc') \<and> serving E' l svc')) (\<lambda>_ _. True) u"
  (is "wp _ ?Q _ _")
proof -
  let ?after = "case next_waiting (svc_queue svc) of None \<Rightarrow> return None
     | Some w \<Rightarrow> bind (schedule_completion w) (\<lambda>i. return (Some i))"
  let ?tail = "\<lambda>nxt now completion. bind (zoom_svc (zoom svc_queue (\<lambda>q s. s\<lparr>svc_queue := q\<rparr>)
                    (\<lambda>q. case complete_service q of (t, q') \<Rightarrow> (Inr t, q')))) (\<lambda>transition.
            case transition of
              None \<Rightarrow> throw (LogicError ''active service disappeared before completion'')
            | Some t \<Rightarrow>
                seq (zoom_svc (modify (\<lambda>s. s\<lparr>svc_statistics := nxt, scheduled_completion := completion,
                       busy_since := (if completion = None then None else Some now)\<rparr>)))
                    (return t))"
  have tail: "wp (?tail nxt now completion) ?Q (\<lambda>_ _. True) u'"
    if u': "poised E' cur svc u'" and sub: "E \<subseteq> E'"
      and ev: "case next_waiting (svc_queue svc) of None \<Rightarrow> completion = None
        | Some c \<Rightarrow> \<exists>e\<in>E'. completion = Some (event_id e)
            \<and> payload e = TransmissionCompleteEvent (dl_link l) (tc_id c) (tc_hop_index c) (dl_direction l)"
    for nxt now completion E' u'
  proof (cases "complete_service (svc_queue svc)")
    case (Pair t q')
    show ?thesis
    proof (cases t)
      case None
      with Pair u' show ?thesis by (simp add: wp_simps zoom_svc_def poised_def wp_total)
    next
      case (Some x)
      let ?svc = "svc\<lparr>svc_queue := q', svc_statistics := nxt, scheduled_completion := completion,
                       busy_since := (if completion = None then None else Some now)\<rparr>"
      have "serving E' l ?svc"
        using complete_service_next Pair Some ev cfg by (auto simp: serving_def split: option.splits)
      with Pair Some u' sub show ?thesis
        by (auto simp: wp_simps zoom_svc_def poised_def wp_total
            intro!: service_outcomeI [where E = E' and svc = ?svc])
    qed
  qed
  have main: "wp (bind ?after (?tail nxt now)) ?Q (\<lambda>_ _. True) u" for nxt now
  proof (cases "next_waiting (svc_queue svc)")
    case None
    have "wp (?tail nxt now None) ?Q (\<lambda>_ _. True) u" by (rule tail [OF u subset_refl]) (simp add: None)
    then show ?thesis unfolding None option.case wp_bind wp_return .
  next
    case (Some c)
    have "wp (bind (schedule_completion c) (\<lambda>i. ?tail nxt now (Some i))) ?Q (\<lambda>_ _. True) u"
      by (rule poised_schedule_completion [OF u], rule tail, assumption) (auto simp: Some cfg)
    then show ?thesis unfolding Some option.case wp_bind wp_return .
  qed
  obtain sim where sim: "u = (sim, svc)" using u by (cases u) (simp add: poised_def)
  have "wp (zoom_sim current_event_id) (\<lambda>j t. t = u) (\<lambda>_ _. True) u"
    by (simp add: zoom_sim_def current_event_id_def wp_simps split: option.splits)
  then have "wp (case scheduled_completion svc of None \<Rightarrow> return True
           | Some i \<Rightarrow> bind (zoom_sim current_event_id) (\<lambda>cur. return (i \<noteq> cur))) (\<lambda>_ t. t = u) (\<lambda>_ _. True) u"
    by (simp add: wp_simps split: option.splits)
  note checked = wp_mono [OF this, where E' = "\<lambda>_ _. True"]
  show ?thesis
    unfolding service_handle_completion_def
  proof (rule wp_gets_bind, unfold sim o_apply snd_conv, subst wp_bind, rule checked [unfolded sim], goal_cases)
    case (1 x t)
    then show ?case
      using main [unfolded sim] unfolding Let_def
      by (auto intro!: wp_guard wp_gets_bind wp_option step_lift simp: wp_throw)
  qed simp
qed

lemma record_down_outcome:
  assumes u: "poised E cur svc u"
  shows "wp (zoom_svc (record_link_down c)) (service_outcome cur (\<lambda>E' svc' x. E' = E \<and> svc_queue svc' = svc_queue svc
      \<and> scheduled_completion svc' = scheduled_completion svc)) (\<lambda>_ _. True) u"
  using u by (auto simp: zoom_svc_def record_link_down_def wp_simps service_outcome_def poised_def split: sum.splits)

text \<open>The events left when the completion of a service has been called off.\<close>

definition called_off :: "event set \<Rightarrow> link_service \<Rightarrow> event set" where
  "called_off E svc = {e \<in> E. scheduled_completion svc \<noteq> Some (event_id e)}"

lemma reconcile_down_outcome:
  assumes u: "poised E cur svc u"
  shows "wp reconcile_down (service_outcome cur (\<lambda>E' svc' x. E' = called_off E svc
      \<and> drain_queue (svc_queue svc) = (x, svc_queue svc') \<and> scheduled_completion svc' = None)) (\<lambda>_ _. True) u"
  (is "wp _ ?Q _ _")
proof -
  let ?tail = "\<lambda>nxt. bind (zoom_svc_queue (\<lambda>q. case drain_queue q of (d, q') \<Rightarrow> (Inr d, q'))) (\<lambda>drained.
     seq (zoom_svc (modify (\<lambda>s. s\<lparr>scheduled_completion := None, busy_since := None, svc_statistics := nxt\<rparr>)))
         (return drained))"
  have tail: "wp (?tail nxt) ?Q (\<lambda>_ _. True) u'" if "poised (called_off E svc) cur svc u'" for nxt u'
    using that by (auto simp: zoom_svc_queue_def zoom_svc_def wp_simps wp_total service_outcome_def poised_def split: prod.splits)
  obtain sim where sim: "u = (sim, svc)" using u by (cases u) (simp add: poised_def)
  have main: "wp (seq (case scheduled_completion svc of None \<Rightarrow> return ()
          | Some i \<Rightarrow> bind (zoom_sim (cancel i)) (\<lambda>ok.
              throw_if (\<not> ok) (LogicError ''active transmission completion could not be cancelled''))) (?tail nxt)) ?Q (\<lambda>_ _. True) u" for nxt
  proof (cases "scheduled_completion svc")
    case None
    then have "called_off E svc = E" by (auto simp: called_off_def)
    with u tail None show ?thesis by (simp add: wp_simps(4) wp_simps(1))
  next
    case (Some i)
    have off: "called_off E svc = {e \<in> E. event_id e \<noteq> i}" using Some by (auto simp: called_off_def)
    have "wp (cancel i) (\<lambda>done t. done \<longrightarrow> wp (?tail nxt) ?Q (\<lambda>_ _. True) (t, svc)) (\<lambda>_ _. True) sim"
    proof (rule wp_mono [OF live_cancel])
      show "sim_ok sim" using u sim by (simp add: poised_def)
      fix b t
      assume h: "sim_ok t \<and> context_frame sim t \<and> live t = (if b then {e \<in> live sim. event_id e \<noteq> i} else live sim)"
      show "b \<longrightarrow> wp (?tail nxt) ?Q (\<lambda>_ _. True) (t, svc)"
      proof
        assume b
        with h u sim have "poised (called_off E svc) cur svc (t, svc)" by (simp add: off poised_def context_frame_def)
        then show "wp (?tail nxt) ?Q (\<lambda>_ _. True) (t, svc)" by (rule tail)
      qed
    qed simp
    then show ?thesis
      unfolding Some option.case sim wp_seq wp_bind zoom_sim_def wp_zoom wp_throw_if fst_conv snd_conv
      by (rule wp_mono) (simp_all add: wp_seq wp_bind)
  qed
  show ?thesis
    using main unfolding reconcile_down_def sim by (auto intro!: wp_gets_bind step_lift)
qed

section \<open>The invariant under single changes\<close>

lemma awaited_mono: "awaited K E ch \<Longrightarrow> E \<subseteq> E' \<Longrightarrow> awaited K E' ch"
  unfolding awaited_def by blast

lemma awaited_put: "awaited K E ch \<Longrightarrow> cr_state r \<noteq> AwaitingArrival \<Longrightarrow> (cr_state r = Registered \<Longrightarrow> i \<in> K \<and> cr_hop_index r = 0) \<Longrightarrow> awaited K E (omap_put i r ch)"
  by (auto simp: awaited_def)

lemma awaited_arrived:
  "awaited K (insert e E) ch \<Longrightarrow> payload e = ChunkArrivalEvent i hop \<Longrightarrow> cr_state r \<noteq> AwaitingArrival \<Longrightarrow> (cr_state r = Registered \<Longrightarrow> i \<in> K \<and> cr_hop_index r = 0) \<Longrightarrow> awaited K E (omap_put i r ch)"
  by (fastforce simp: awaited_def)

lemma awaited_departed:
  "awaited K E ch \<Longrightarrow> e \<in> E \<Longrightarrow> scheduled_arrival r = Some (event_id e) \<Longrightarrow> payload e = ChunkArrivalEvent i (cr_hop_index r) \<Longrightarrow>
   unat (cr_hop_index r) \<le> length (cr_route r) \<Longrightarrow> cr_state r = AwaitingArrival \<Longrightarrow> awaited K E (omap_put i r ch)"
  by (auto simp: awaited_def)

lemma awaited_skip: "awaited K (insert e E) ch \<Longrightarrow> (\<And>i hop. payload e \<noteq> ChunkArrivalEvent i hop) \<Longrightarrow> awaited K E ch"
  unfolding awaited_def by (metis insertE)

lemma held_mono: "held H ch \<Longrightarrow> (\<And>l i. H l i \<Longrightarrow> H' l i) \<Longrightarrow> held H' ch"
  unfolding held_def by blast

lemma held_put: "held H ch \<Longrightarrow> (cr_state r = Admitted \<Longrightarrow> unat (cr_hop_index r) < length (cr_route r)
   \<and> H (cr_route r ! unat (cr_hop_index r)) i) \<Longrightarrow> held H (omap_put i r ch)"
  by (auto simp: held_def)

lemma held_other: "held H ch \<Longrightarrow> cr_state r \<noteq> Admitted \<Longrightarrow> (\<And>l j. H l j \<Longrightarrow> j \<noteq> i \<Longrightarrow> H' l j) \<Longrightarrow> held H' (omap_put i r ch)"
  by (auto simp: held_def)

lemma holds_chunk_put:
  "holds_chunk (omap_put l svc sv) k i \<longleftrightarrow> (if k = l then i \<in> tc_id ` set (queue_contents (svc_queue svc)) else holds_chunk sv k i)"
  by (auto simp: holds_chunk_def)

lemma holds_chunk_at: "map_of sv l = Some svc \<Longrightarrow> holds_chunk sv l i \<longleftrightarrow> i \<in> tc_id ` set (queue_contents (svc_queue svc))"
  by (auto simp: holds_chunk_def)

lemma holds_chunk_same:
  assumes "map_of sv l = Some svc" and "queue_contents (svc_queue svc') = queue_contents (svc_queue svc)"
  shows "holds_chunk (omap_put l svc' sv) = holds_chunk sv"
  using assms by (auto simp: fun_eq_iff holds_chunk_put holds_chunk_at)

lemma served_put: "served E sv \<Longrightarrow> E \<subseteq> E' \<Longrightarrow> serving E' l svc \<Longrightarrow> served E' (omap_put l svc sv)"
  by (auto simp: served_def intro: serving_more)

lemma served_skip:
  assumes "served (insert e E) sv" and "\<And>l i hop d. payload e \<noteq> TransmissionCompleteEvent l i hop d"
  shows "served E sv"
  using assms by (fastforce simp: served_def serving_def split: option.splits)

lemma served_completed:
  assumes "served (insert e E) sv" and "payload e = TransmissionCompleteEvent (dl_link l) i hop (dl_direction l)"
    and "E \<subseteq> E'" and "serving E' l svc"
  shows "served E' (omap_put l svc sv)"
proof -
  have "serving E' k s" if "map_of sv k = Some s" "k \<noteq> l" for k s
  proof -
    have "serving (insert e E) k s" using assms(1) that(1) by (simp add: served_def)
    moreover have "payload e \<noteq> TransmissionCompleteEvent (dl_link k) j h (dl_direction k)" for j h
      using assms(2) that(2) by (cases k; cases l) auto
    ultimately have "serving E k s" by (auto simp: serving_def split: option.splits)
    then show ?thesis by (rule serving_more [OF _ assms(3)])
  qed
  with assms(4) show ?thesis by (auto simp: served_def)
qed

text \<open>Calling off the completion of one service leaves the other events.\<close>

lemma called_off_other:
  assumes "inj_on event_id E" and "serving E l svc" and "e \<in> E"
    and "\<And>i hop. payload e \<noteq> TransmissionCompleteEvent (dl_link l) i hop (dl_direction l)"
  shows "e \<in> called_off E svc"
  using assms by (auto simp: called_off_def serving_def split: option.splits) (metis inj_onD)

lemma awaited_called_off:
  assumes "awaited K E ch" and "inj_on event_id E" and "serving E l svc"
  shows "awaited K (called_off E svc) ch"
  using assms(1) called_off_other [OF assms(2,3)] unfolding awaited_def by fastforce

lemma served_called_off:
  assumes "served E sv" and "inj_on event_id E" and "serving E l svc" and "serving (called_off E svc) l svc'"
  shows "served (called_off E svc) (omap_put l svc' sv)"
proof -
  have "serving (called_off E svc) k s" if "map_of sv k = Some s" "k \<noteq> l" for k s
  proof -
    have "serving E k s" using assms(1) that(1) by (simp add: served_def)
    moreover have "e \<in> called_off E svc"
      if "e \<in> E" "payload e = TransmissionCompleteEvent (dl_link k) i hop (dl_direction k)" for e i hop
      by (rule called_off_other [OF assms(2,3) that(1)]) (use that(2) \<open>k \<noteq> l\<close> in \<open>cases k; cases l; auto\<close>)
    ultimately show ?thesis by (fastforce simp: serving_def split: option.splits)
  qed
  with assms(4) show ?thesis by (auto simp: served_def)
qed

lemma services_ok_service:
  "services_ok ch sv \<Longrightarrow> queue_inv (svc_queue svc) \<Longrightarrow> (\<And>c. c \<in> set (queue_contents (svc_queue svc)) \<Longrightarrow> covered ch c) \<Longrightarrow>
   services_ok ch (omap_put l svc sv)"
  by (auto simp: services_ok_def)

lemma services_okD:
  "services_ok ch sv \<Longrightarrow> map_of sv l = Some svc \<Longrightarrow> queue_inv (svc_queue svc)"
  "services_ok ch sv \<Longrightarrow> map_of sv l = Some svc \<Longrightarrow> c \<in> set (queue_contents (svc_queue svc)) \<Longrightarrow> covered ch c"
  by (simp_all add: services_ok_def)

end
