(* ===== verification/Transport_Liveness.thy ===== *)
theory Transport_Liveness
  imports Transport_Coherence
begin

text \<open>
  The handlers keep the books and the coherence of the transport with the simulation, so a completed
  run leaves every transfer that was started completed.
\<close>

section \<open>Arrivals\<close>

definition sound :: "chunk_id set \<Rightarrow> event option \<Rightarrow> world \<Rightarrow> bool" where
  "sound K cur w \<longleftrightarrow> sim_ok (fst w) \<and> current_event (fst w) = cur
     \<and> coherent K (live (fst w)) (chunks (snd w)) (transfers (snd w)) (services (snd w))"

lemma soundI: "stands E cur ch tr sv w \<Longrightarrow> coherent K E ch tr sv \<Longrightarrow> sound K cur w"
  by (simp add: sound_def stands_def)

lemma sound_stands:
  "sound K cur w \<Longrightarrow> stands (live (fst w)) cur (chunks (snd w)) (transfers (snd w)) (services (snd w)) w"
  "sound K cur w \<Longrightarrow> coherent K (live (fst w)) (chunks (snd w)) (transfers (snd w)) (services (snd w))"
  by (simp_all add: sound_def stands_def)

lemma coherentD:
  assumes "coherent K E ch tr sv"
  shows "books_ok ch tr" "services_ok ch sv" "awaited K E ch" "held (holds_chunk sv) ch" "served E sv"
  using assms by (simp_all add: coherent_def)

text \<open>The situation of a handler of an arrival: its event has been taken from those ahead.\<close>

definition arriving :: "chunk_id set \<Rightarrow> event \<Rightarrow> event set \<Rightarrow> chunk_map \<Rightarrow> transfer_map \<Rightarrow> service_map \<Rightarrow> chunk_id \<Rightarrow> chunk_record \<Rightarrow> bool" where
  "arriving K e E ch tr sv i r \<longleftrightarrow> coherent K (insert e E) ch tr sv \<and> payload e = ChunkArrivalEvent i (cr_hop_index r)
     \<and> map_of ch i = Some r \<and> cr_state r = AwaitingArrival"

lemma arrivingD:
  assumes "arriving K e E ch tr sv i r"
  shows "books_ok ch tr" "services_ok ch sv" "map_of ch i = Some r" "cr_state r = AwaitingArrival" "tc_id (cr_chunk r) = i"
    "unat (cr_hop_index r) \<le> length (cr_route r)" "served E sv" "held (holds_chunk sv) ch"
    "cr_state r' \<noteq> AwaitingArrival \<Longrightarrow> cr_state r' \<noteq> Registered \<Longrightarrow> awaited K E (omap_put i r' ch)"
proof -
  from assms have c: "coherent K (insert e E) ch tr sv" and p: "payload e = ChunkArrivalEvent i (cr_hop_index r)"
    and r: "map_of ch i = Some r" "cr_state r = AwaitingArrival" by (simp_all add: arriving_def)
  show "books_ok ch tr" "services_ok ch sv" "held (holds_chunk sv) ch" by (rule coherentD [OF c])+
  show "map_of ch i = Some r" "cr_state r = AwaitingArrival" by (rule r)+
  show "tc_id (cr_chunk r) = i" using coherentD(1) [OF c] r by (simp add: books_ok_def chunks_ok_def)
  show "unat (cr_hop_index r) \<le> length (cr_route r)" using coherentD(3) [OF c] r by (simp add: awaited_def)
  show "served E sv" by (rule served_skip [OF coherentD(5) [OF c]]) (simp add: p)
  show "awaited K E (omap_put i r' ch)" if "cr_state r' \<noteq> AwaitingArrival" "cr_state r' \<noteq> Registered"
    by (rule awaited_arrived [OF coherentD(3) [OF c] p that(1)]) (use that(2) in simp)
qed

text \<open>An arriving chunk comes to rest.\<close>

lemma arriving_ends:
  assumes a: "arriving K e E ch tr sv i r" and "same_chunk r r'" and "terminal_state (cr_state r')"
    and "books_ok (omap_put i r' ch) tr'" and "served E' sv'" and "E \<subseteq> E'"
    and "services_ok (omap_put i r' ch) sv'" and "\<And>l j. holds_chunk sv l j \<Longrightarrow> holds_chunk sv' l j"
  shows "coherent K E' (omap_put i r' ch) tr' sv'"
proof -
  have st: "cr_state r' \<noteq> AwaitingArrival" "cr_state r' \<noteq> Admitted" "cr_state r' \<noteq> Registered" using assms(3) by (auto simp: terminal_state_def)
  have "awaited K E' (omap_put i r' ch)" by (rule awaited_mono [OF arrivingD(9) [OF a st(1,3)] assms(6)])
  moreover have "held (holds_chunk sv') (omap_put i r' ch)"
    by (rule held_other [OF arrivingD(8) [OF a] st(2)]) (rule assms(8))
  ultimately show ?thesis using assms by (simp add: coherent_def)
qed

lemma sound_delivered:
  assumes w: "stands E (Some e) ch tr sv w" and a: "arriving K e E ch tr sv i r"
  defines "r' \<equiv> r\<lparr>scheduled_arrival := None, cr_state := Delivered\<rparr>"
  shows "wp (seq (put_chunk i r') (seq (emit_transfer r' ChunkDelivered None ReasonNone) (net_record_terminal r')))
    (\<lambda>_. sound K (Some e)) (\<lambda>_ _. True) w"
proof (rule step_put_chunk [OF w], rule still_seq, assumption, rule still_all,
    rule terminal_books [OF _ arrivingD(1) [OF a] arrivingD(3) [OF a]])
  have same: "same_chunk r r'" and term': "terminal_state (cr_state r')"
    by (simp_all add: r'_def same_chunk_def terminal_state_def)
  then show "same_chunk r r'" "terminal_state (cr_state r')" by simp_all
  show "cr_route r' = cr_route r" by (simp add: r'_def)
  show "\<not> terminal_state (cr_state r)" "cr_state r \<noteq> Registered"
    using arrivingD(4) [OF a] by (simp_all add: terminal_state_def)
  fix tr' and w' :: world
  assume w': "stands E (Some e) (omap_put i r' ch) tr' sv w'" and b: "books_ok (omap_put i r' ch) tr'"
  show "sound K (Some e) w'"
    by (rule soundI [OF w' arriving_ends [OF a same term' b arrivingD(7) [OF a] subset_refl
          services_ok_put [OF arrivingD(2,3) [OF a] same]]])
qed

lemma sound_arrival_down:
  assumes w: "stands E (Some e) ch tr sv w" and a: "arriving K e E ch tr sv i r"
  shows "wp (handle_arrival_down i r l) (\<lambda>_. sound K (Some e)) (\<lambda>_ _. True) w"
proof -
  let ?r = "r\<lparr>scheduled_arrival := None, cr_state := DroppedDown\<rparr>"
  have same: "same_chunk r ?r" and term': "terminal_state (cr_state ?r)" and route: "cr_route ?r = cr_route r"
    by (simp_all add: same_chunk_def terminal_state_def)
  have st: "\<not> terminal_state (cr_state r)" "cr_state r \<noteq> Registered"
    using arrivingD(4) [OF a] by (simp_all add: terminal_state_def)
  let ?R = "\<lambda>svc E' svc' x. E' = E \<and> svc_queue svc' = svc_queue svc \<and> scheduled_completion svc' = scheduled_completion svc"
  show ?thesis
    unfolding handle_arrival_down_def Let_def
  proof (rule still_bind [OF w], rule still_all, unfold seq_def [of "in_service _ _"], rule step_in_service [where R = ?R], assumption,
      rule record_down_outcome, assumption, rule still_bind, assumption, rule still_all, rule step_put_chunk, assumption,
      (rule still_seq, assumption, rule still_all)+, rule terminal_books [OF _ arrivingD(1,3) [OF a] same route st term'], assumption, goal_cases)
    case (1 before w1 svc x E' svc' w2 after w3 w4 w5 w6 w7 w8 tr' w')
    then have svc: "map_of sv l = Some svc" "svc_queue svc' = svc_queue svc" "scheduled_completion svc' = scheduled_completion svc"
      and E': "E' = E" by simp_all
    have "serving E l svc" using arrivingD(7) [OF a] svc(1) by (simp add: served_def)
    then have "serving E l svc'" by (rule serving_same) (simp_all add: svc)
    then have sv': "served E (omap_put l svc' sv)" by (rule served_put [OF arrivingD(7) [OF a] subset_refl])
    have ok: "services_ok ch (omap_put l svc' sv)"
      by (rule services_ok_service [OF arrivingD(2) [OF a]]) (use services_okD [OF arrivingD(2) [OF a] svc(1)] svc in simp_all)
    have "coherent K E (omap_put i ?r ch) tr' (omap_put l svc' sv)"
      by (rule arriving_ends [OF a same term' _ sv' subset_refl services_ok_put [OF ok arrivingD(3) [OF a] same]])
        (use 1 svc in \<open>simp_all add: holds_chunk_same\<close>)
    with 1 E' show ?case by (auto intro: soundI)
  qed
qed

text \<open>The services after an admission.\<close>

lemma admission_services:
  assumes ok: "services_ok ch sv" and svc: "map_of sv l = Some svc" and "tc_bytes c \<noteq> 0" and cov: "covered ch c"
    and out: "admission_outcome c (svc_queue svc) = (x, svc_queue svc')"
  shows "services_ok ch (omap_put l svc' sv)" "holds_chunk sv k j \<Longrightarrow> holds_chunk (omap_put l svc' sv) k j"
    "disposition x \<noteq> DroppedBufferFull \<Longrightarrow> holds_chunk (omap_put l svc' sv) l (tc_id c)"
proof -
  note inv = admission_outcome_inv [OF services_okD(1) [OF ok svc] assms(3) out]
  show "services_ok ch (omap_put l svc' sv)"
  proof (rule services_ok_service [OF ok inv(1)])
    fix d assume "d \<in> set (queue_contents (svc_queue svc'))"
    then consider "d \<in> set (queue_contents (svc_queue svc))" | "d = stored_chunk c x"
      by (auto simp: inv(2) accepted_chunk_def split: if_splits)
    then show "covered ch d"
    proof cases
      case 1
      then show ?thesis by (rule services_okD(2) [OF ok svc])
    next
      case 2
      with cov show ?thesis by (simp add: covered_def stored_chunk_def)
    qed
  qed
  show "holds_chunk (omap_put l svc' sv) k j" if "holds_chunk sv k j"
    using that svc by (auto simp: holds_chunk_put holds_chunk_at inv(2))
  show "holds_chunk (omap_put l svc' sv) l (tc_id c)" if "disposition x \<noteq> DroppedBufferFull"
    using that by (simp add: holds_chunk_put inv(2) accepted_chunk_def stored_chunk_def)
qed

lemma covered_put: "map_of ch i = Some r \<Longrightarrow> same_chunk r r' \<Longrightarrow> tc_id (cr_chunk r) = i \<Longrightarrow> covered (omap_put i r' ch) (cr_chunk r')"
  by (auto simp: covered_def same_chunk_def)

lemma sound_arrival_admit:
  assumes w: "stands E (Some e) ch tr sv w" and a: "arriving K e E ch tr sv i r"
    and hop: "hop = cr_hop_index r" "unat hop \<noteq> length (cr_route r)"
  shows "wp (handle_arrival_admit i hop r (cr_route r ! unat hop)) (\<lambda>_. sound K (Some e)) (\<lambda>_ _. True) w"
proof -
  let ?l = "cr_route r ! unat hop" and ?c = "(cr_chunk r)\<lparr>tc_hop_index := hop\<rparr>"
  let ?old = "r\<lparr>cr_chunk := ?c\<rparr>"
  let ?r = "\<lambda>admission. ?old\<lparr>scheduled_arrival := None,
                    cr_chunk := (cr_chunk ?old)\<lparr>tc_marked := tc_marked (cr_chunk ?old) \<or> marked_here admission\<rparr>,
                    cr_state := (if disposition admission = DroppedBufferFull then DroppedFull else Admitted)\<rparr>"
  have same0: "same_chunk r ?old" by (simp add: same_chunk_def)
  have same: "same_chunk r (?r x)" and route: "cr_route (?r x) = cr_route r" for x by (simp_all add: same_chunk_def)
  note ar = arrivingD [OF a]
  have st: "\<not> terminal_state (cr_state r)" "cr_state r \<noteq> Registered" using ar(4) by (simp_all add: terminal_state_def)
  have lt: "unat (cr_hop_index r) < length (cr_route r)" using ar(6) hop by simp
  let ?R = "\<lambda>svc E' svc' x. E \<subseteq> E' \<and> tc_bytes ?c \<noteq> 0 \<and> admission_outcome ?c (svc_queue svc) = (x, svc_queue svc') \<and> serving E' ?l svc'"
  have after: "wp (seq (emit_admission (?r x) ?l x) (seq (emit_link_metrics ?l before aft) (seq (emit_gauges_now ?l)
       (perform_if (cr_state (?r x) = DroppedFull) (net_record_terminal (?r x)))))) (\<lambda>_. sound K (Some e)) (\<lambda>_ _. True) w1"
    if svc: "map_of sv ?l = Some svc" and R: "?R svc E' svc' x"
      and w1: "stands E' (Some e) (omap_put i (?r x) ch) tr (omap_put ?l svc' sv) w1" for svc E' svc' x w1 before aft
  proof -
    have cov: "covered ch ?c" using ar(3,5) by (simp add: covered_def)
    note adm = admission_services [OF ar(2) svc _ cov, of x svc']
    have sv': "served E' (omap_put ?l svc' sv)" using served_put [OF ar(7)] R by blast
    have ok: "services_ok (omap_put i (?r x) ch) (omap_put ?l svc' sv)"
      by (rule services_ok_put [OF adm(1) ar(3) same]) (use R in simp_all)
    have more: "holds_chunk sv k j \<Longrightarrow> holds_chunk (omap_put ?l svc' sv) k j" for k j using adm(2) R by simp
    show ?thesis
    proof (cases "disposition x = DroppedBufferFull")
      case True
      then have term': "terminal_state (cr_state (?r x))" by (simp add: terminal_state_def)
      have "wp (net_record_terminal (?r x)) (\<lambda>_. sound K (Some e)) (\<lambda>_ _. True) w2"
        if "stands E' (Some e) (omap_put i (?r x) ch) tr (omap_put ?l svc' sv) w2" for w2
        by (rule terminal_books [OF that ar(1,3) same route st term'])
          (erule soundI, rule arriving_ends [OF a same term' _ sv' _ ok more], use R in simp_all)
      with True show ?thesis
        by - (rule still_seq [OF w1], rule still_all, (rule still_seq, assumption, rule still_all)+, simp add: wp_perform_if)
    next
      case False
      have b: "books_ok (omap_put i (?r x) ch) tr"
        by (rule books_ok_transit [OF ar(1,3) same route]) (use False ar(4) in \<open>simp_all add: terminal_state_def\<close>)
      have aw: "awaited K E' (omap_put i (?r x) ch)" by (rule awaited_mono [OF ar(9)]) (use R False in simp_all)
      have here: "holds_chunk (omap_put ?l svc' sv) ?l i" using adm(3) False R ar(5) by simp
      have "held (holds_chunk (omap_put ?l svc' sv)) (omap_put i (?r x) ch)"
        by (intro held_put held_mono [OF ar(8) more]) (use lt hop(1) here in simp_all)
      with b ok aw sv' have "coherent K E' (omap_put i (?r x) ch) tr (omap_put ?l svc' sv)" by (simp add: coherent_def)
      with False show ?thesis
        by - (rule still_seq [OF w1], rule still_all, (rule still_seq, assumption, rule still_all)+, simp add: wp_perform_if,
            erule soundI, assumption)
    qed
  qed
  have adm: "wp (service_admit (cr_chunk ?old)) (service_outcome (Some e) (?R svc)) (\<lambda>_ _. True) u"
    if "map_of sv ?l = Some svc" "poised E (Some e) svc u" for svc u
    using service_admit_outcome [OF that(2), of ?l ?c] ar(7) that(1) by (simp add: served_def)
  show ?thesis
    unfolding handle_arrival_admit_def Let_def
  proof (rule step_put_chunk [OF w], rule still_bind, assumption, rule still_all, rule step_in_service [where R = ?R], assumption,
      rule adm, assumption, assumption,
      rule still_bind, assumption, rule still_all, rule step_put_chunk, assumption, goal_cases)
    case (1 w1 before w2 svc x E' svc' w3 aft w4 w5)
    then show ?case using after [of svc E' x svc' w5] by simp
  qed
qed

lemma sound_handle_arrival:
  assumes w: "stands E (Some e) ch tr sv w" and c: "coherent K (insert e E) ch tr sv" and p: "payload e = ChunkArrivalEvent i hop"
  shows "wp (handle_arrival i hop) (\<lambda>_. sound K (Some e)) (\<lambda>_ _. True) w"
  unfolding handle_arrival_def Let_def
proof (rule step_require_chunk [OF w], goal_cases)
  case (1 r)
  let ?deliver = "seq (put_chunk i (r\<lparr>scheduled_arrival := None, cr_state := Delivered\<rparr>))
       (seq (emit_transfer (r\<lparr>scheduled_arrival := None, cr_state := Delivered\<rparr>) ChunkDelivered None ReasonNone)
            (net_record_terminal (r\<lparr>scheduled_arrival := None, cr_state := Delivered\<rparr>)))"
  let ?l = "cr_route r ! unat hop"
  let ?forward = "bind (getn (\<lambda>n. require_fabric_arc n ?l)) (\<lambda>arc. bind (lift_res arc) (\<lambda>directed.
       bind (getn (\<lambda>n. is_operational (net_topology n) directed)) (\<lambda>up.
       if \<not> up then handle_arrival_down i r ?l else handle_arrival_admit i hop r ?l)))"
  have body: "wp (if unat hop = length (cr_route r) then ?deliver else ?forward) (\<lambda>_. sound K (Some e)) (\<lambda>_ _. True) w"
    if "cr_state r = AwaitingArrival" "hop = cr_hop_index r"
  proof -
    have a: "arriving K e E ch tr sv i r" using c p 1 that by (simp add: arriving_def)
    have "wp ?forward (\<lambda>_. sound K (Some e)) (\<lambda>_ _. True) w" if len: "unat hop \<noteq> length (cr_route r)"
    proof (rule still_bind [OF w], rule still_all, rule step_lift, rule still_bind, assumption, rule still_all, goal_cases)
      case (1 arc w1 directed up w2)
      then show ?case
        using sound_arrival_down [OF _ a] sound_arrival_admit [OF _ a _ len] \<open>hop = cr_hop_index r\<close> by (cases up) auto
    qed
    with sound_delivered [OF w a] show ?thesis by simp
  qed
  show ?case
  proof (cases "cr_state r = AwaitingArrival \<and> scheduled_arrival r \<noteq> None")
    case False
    then show ?thesis by (auto simp: wp_simps split: option.splits)
  next
    case True
    then obtain ev where ev: "scheduled_arrival r = Some ev" by auto
    have "wp (bind (zoom_sim current_event_id) (\<lambda>cur. seq (throw_if (ev \<noteq> cur \<or> hop \<noteq> cr_hop_index r) (LogicError ''unexpected chunk-arrival event''))
       (if unat hop = length (cr_route r) then ?deliver else ?forward))) (\<lambda>_. sound K (Some e)) (\<lambda>_ _. True) w"
      by (rule step_current [OF w], rule wp_guard, rule body) (use True in simp_all)
    with True ev show ?thesis by (simp add: wp_bind wp_return)
  qed
qed

section \<open>Completions\<close>

lemma held_completed:
  assumes "held (holds_chunk sv) ch" and svc: "map_of sv l = Some svc" and inv: "queue_inv (svc_queue svc)"
    and done_: "complete_service (svc_queue svc) = (Some x, svc_queue svc')"
    and "tc_id (completed_chunk x) = i" and "cr_state r \<noteq> Admitted"
  shows "held (holds_chunk (omap_put l svc' sv)) (omap_put i r ch)"
proof (rule held_other [OF assms(1,6)])
  have q: "queue_contents (svc_queue svc) = completed_chunk x # queue_contents (svc_queue svc')"
    using complete_service_inv(2) [OF inv done_] by simp
  show "holds_chunk (omap_put l svc' sv) k j" if "holds_chunk sv k j" "j \<noteq> i" for k j
    using that svc assms(5) by (auto simp: holds_chunk_put holds_chunk_at q)
qed

lemma sound_handle_completion:
  assumes w: "stands E (Some e) ch tr sv w" and c: "coherent K (insert e E) ch tr sv"
    and p: "payload e = TransmissionCompleteEvent k i hop d"
  shows "wp (handle_completion k i hop d) (\<lambda>_. sound K (Some e)) (\<lambda>_ _. True) w"
proof -
  let ?l = "DirectedLinkId k d"
  have lk: "dl_link ?l = k" "dl_direction ?l = d" by simp_all
  let ?R = "\<lambda>svc E' svc' x. E \<subseteq> E' \<and> complete_service (svc_queue svc) = (Some x, svc_queue svc') \<and> serving E' ?l svc'"
  have srv: "wp (service_handle_completion k i hop d) (service_outcome (Some e) (?R svc)) (\<lambda>_ _. True) u"
    if "map_of sv ?l = Some svc" "poised E (Some e) svc u" for svc u
    by (rule service_completion_outcome [OF that(2)]) (use coherentD(5) [OF c] that(1) in \<open>simp add: served_def serving_def\<close>)
  have fin: "sound K (Some e) w'"
    if r: "map_of ch i = Some r" "cr_state r = Admitted" "hop = cr_hop_index r" "unat hop < length (cr_route r)" "cr_route r ! unat hop = ?l"
      and svc: "map_of sv ?l = Some svc" and R: "?R svc E' svc' x" and id: "tc_id (completed_chunk x) = tc_id (cr_chunk r)"
      and ev: "payload ev = ChunkArrivalEvent (tc_id (completed_chunk x)) (cr_hop_index r + 1)"
      and w': "stands (insert ev E') (Some e) (omap_put i (r\<lparr>cr_chunk := completed_chunk x, cr_hop_index := cr_hop_index r + 1,
           cr_state := AwaitingArrival, scheduled_arrival := Some (event_id ev)\<rparr>) ch) tr (omap_put ?l svc' sv) w'"
    for r svc E' svc' x ev w'
  proof -
    let ?r = "r\<lparr>cr_chunk := completed_chunk x, cr_hop_index := cr_hop_index r + 1,
           cr_state := AwaitingArrival, scheduled_arrival := Some (event_id ev)\<rparr>"
    let ?sv = "omap_put ?l svc' sv" and ?ch = "omap_put i ?r ch"
    have ch: "chunks_ok ch tr" using coherentD(1) [OF c] by (simp add: books_ok_def)
    have i: "tc_id (cr_chunk r) = i" and len: "length (cr_route r) < 2 ^ 32" using ch r(1) by (auto simp: chunks_ok_def)
    have inv: "queue_inv (svc_queue svc)" by (rule services_okD(1) [OF coherentD(2) [OF c] svc])
    have q: "queue_contents (svc_queue svc) = completed_chunk x # queue_contents (svc_queue svc')"
      using complete_service_inv(2) [OF inv] R by simp
    have "covered ch (completed_chunk x)" by (rule services_okD(2) [OF coherentD(2) [OF c] svc]) (simp add: q)
    then have same: "same_chunk r ?r" using r(1) id i by (simp add: covered_def same_chunk_def)
    have b: "books_ok ?ch tr"
      by (rule books_ok_transit [OF coherentD(1) [OF c] r(1) same]) (use r(2) in \<open>simp_all add: terminal_state_def\<close>)
    have s: "services_ok ?ch ?sv"
    proof (rule services_ok_put [OF services_ok_service [OF coherentD(2) [OF c]] r(1) same])
      show "queue_inv (svc_queue svc')" using complete_service_inv(1) [OF inv] R by simp
      show "covered ch y" if "y \<in> set (queue_contents (svc_queue svc'))" for y
        by (rule services_okD(2) [OF coherentD(2) [OF c] svc]) (simp add: q that)
    qed
    have "awaited K E ch" by (rule awaited_skip [OF coherentD(3) [OF c]]) (simp add: p)
    then have aw: "awaited K (insert ev E') ?ch"
    proof (rule awaited_departed [OF awaited_mono])
      show "E \<subseteq> insert ev E'" using R by blast
      show "payload ev = ChunkArrivalEvent i (cr_hop_index ?r)" using ev id i by simp
      have "unat (cr_hop_index r + 1) = Suc (unat (cr_hop_index r))"
        using len r(3,4) unat_plus_no_overflow [of "cr_hop_index r" 1] by simp
      then show "unat (cr_hop_index ?r) \<le> length (cr_route ?r)" using r(3,4) by simp
    qed simp_all
    have h: "held (holds_chunk ?sv) ?ch"
      by (rule held_completed [OF coherentD(4) [OF c] svc inv]) (use R id i in simp_all)
    have "served (insert ev E') ?sv"
      by (rule served_completed [OF coherentD(5) [OF c]]) (use p R in \<open>auto intro: serving_more\<close>)
    with b s aw h have "coherent K (insert ev E') ?ch tr ?sv" by (simp add: coherent_def)
    with w' show ?thesis by (rule soundI)
  qed
  show ?thesis
    unfolding handle_completion_def Let_def
  proof (rule step_require_chunk [OF w], rule wp_guard, rule still_bind [OF w], rule still_all, rule still_bind, assumption, rule still_all,
      rule still_bind, assumption, rule still_all, rule wp_option, rule step_in_service [where R = ?R], assumption, rule srv, assumption, assumption,
      rule still_bind, assumption, rule still_all, rule wp_guard, rule step_put_chunk, assumption,
      rule still_seq, assumption, rule still_all, rule still_seq, assumption, rule still_all, rule still_seq, assumption, goal_cases)
    case (1 r before w1 svc w2 t w3 at svc0 x E' svc' w4 aft w5 w6 w7 w8)
    then show ?case by (intro stillness.moves_rules still_all)
  next
    case (2 r before w1 svc w2 t w3 at svc0 x E' svc' w4 aft w5 w6 w7 w8 w9)
    have w9: "stands E' (Some e) (omap_put i (r\<lparr>cr_chunk := completed_chunk x\<rparr>) ch) tr (omap_put ?l svc' sv) w9"
      using 2 by blast
    show ?case
    proof (rule still_seq [OF w9], rule still_all, rule still_seq, assumption, rule still_all, rule step_put_chunk, assumption,
        rule step_schedule, assumption, goal_cases)
      case (1 w10 w11 w12 ev w13)
      then show ?case using 2 fin [of r svc0 E' x svc' ev] by (simp add: wp_put_chunk stands_def)
    qed
  next
    case (3 r before w1 svc w2 t w3)
    then show ?case by (simp add: wp_throw)
  qed
qed

section \<open>State changes\<close>

text \<open>A link is being drained: some of the chunks it held are still to be marked.\<close>

definition draining ::
  "chunk_id set \<Rightarrow> directed_link_id \<Rightarrow> transfer_chunk list \<Rightarrow> event set \<Rightarrow> chunk_map \<Rightarrow> transfer_map \<Rightarrow> service_map \<Rightarrow> bool" where
  "draining K l cs E ch tr sv \<longleftrightarrow> books_ok ch tr \<and> services_ok ch sv \<and> awaited K E ch \<and> served E sv
     \<and> held (\<lambda>k j. holds_chunk sv k j \<or> k = l \<and> j \<in> tc_id ` set cs) ch \<and> (\<forall>c\<in>set cs. covered ch c)"

lemma draining_Nil: "draining K l [] E ch tr sv = coherent K E ch tr sv"
  by (auto simp: draining_def coherent_def)

definition drains :: "chunk_id set \<Rightarrow> event option \<Rightarrow> directed_link_id \<Rightarrow> transfer_chunk list \<Rightarrow> world \<Rightarrow> bool" where
  "drains K cur l cs w \<longleftrightarrow> (\<exists>E ch tr sv. stands E cur ch tr sv w \<and> draining K l cs E ch tr sv)"

lemma drains_Nil: "drains K cur l [] w = sound K cur w"
  by (auto simp: drains_def draining_Nil sound_def stands_def)

lemma drains_mark_dropped:
  assumes "drains K cur l (c # cs) w"
  shows "wp (mark_dropped l c) (\<lambda>_. drains K cur l cs) (\<lambda>_ _. True) w"
proof -
  obtain E ch tr sv where w: "stands E cur ch tr sv w" and dr: "draining K l (c # cs) E ch tr sv"
    using assms by (auto simp: drains_def)
  have ok: "books_ok ch tr" "services_ok ch sv" "awaited K E ch" "served E sv"
      "held (\<lambda>k j. holds_chunk sv k j \<or> k = l \<and> j \<in> tc_id ` set (c # cs)) ch"
    and cov: "\<And>d. d \<in> set (c # cs) \<Longrightarrow> covered ch d"
    using dr unfolding draining_def by blast+
  show ?thesis
    unfolding mark_dropped_def Let_def
  proof (rule step_require_chunk [OF w], rule wp_guard, rule step_put_chunk [OF w],
      (rule still_seq, assumption, rule still_all)+, goal_cases)
    case (1 r w1 w2 w3)
    let ?r = "r\<lparr>cr_chunk := c, cr_state := DroppedDown\<rparr>" and ?i = "tc_id c"
    have r: "map_of ch ?i = Some r" and st: "cr_state r = Admitted" using 1 by auto
    have "tc_id (cr_chunk r) = ?i" using ok(1) r by (simp add: books_ok_def chunks_ok_def)
    then have same: "same_chunk r ?r" using cov [of c] r by (simp add: covered_def same_chunk_def)
    have "drains K cur l cs w'" if w': "stands E cur (omap_put ?i ?r ch) tr' sv w'" and b: "books_ok (omap_put ?i ?r ch) tr'" for tr' w'
    proof -
      have "covered (omap_put ?i ?r ch) d" if "d \<in> set cs" for d
        using cov [of d] that r same by (auto simp: covered_def same_chunk_def)
      moreover have "held (\<lambda>k j. holds_chunk sv k j \<or> k = l \<and> j \<in> tc_id ` set cs) (omap_put ?i ?r ch)"
        by (rule held_other [OF ok(5)]) auto
      moreover have "awaited K E (omap_put ?i ?r ch)" by (rule awaited_put [OF ok(3)]) simp_all
      moreover have "services_ok (omap_put ?i ?r ch) sv" by (rule services_ok_put [OF ok(2) r same])
      ultimately have "draining K l cs E (omap_put ?i ?r ch) tr' sv" using b ok(4) by (simp add: draining_def)
      with w' show ?thesis by (auto simp: drains_def)
    qed
    note fin = this
    show ?case
      by (rule terminal_books [OF _ ok(1) r same]) (use 1 st fin in \<open>simp_all add: terminal_state_def\<close>)
  qed
qed

lemma drains_for_each:
  "drains K cur l cs w \<Longrightarrow> wp (for_each (mark_dropped l) cs) (\<lambda>_. sound K cur) (\<lambda>_ _. True) w"
proof (induction cs arbitrary: w)
  case (Cons c cs)
  show ?case unfolding wp_for_each_Cons by (rule wp_mono [OF drains_mark_dropped [OF Cons.prems]]) (simp_all add: Cons.IH)
qed (simp add: wp_simps drains_Nil)

lemma drains_contents:
  assumes "drains K cur l (case drained_active d of None \<Rightarrow> [] | Some c \<Rightarrow> c # drained_waiting d) w"
    and "drained_active d = None \<Longrightarrow> drained_waiting d = []"
  shows "wp (mark_dropped_link_down d l) (\<lambda>_. sound K cur) (\<lambda>_ _. True) w"
  unfolding mark_dropped_link_down_def
  using assms drains_for_each [of K cur l "drained_waiting d"]
  by (cases "drained_active d") (auto simp: wp_simps drains_Nil intro: wp_mono [OF drains_mark_dropped])

lemma sound_drain_link:
  assumes "sound K cur w"
  shows "wp (drain_link l) (\<lambda>_. sound K cur) (\<lambda>_ _. True) w"
proof -
  let ?E = "live (fst w)" and ?ch = "chunks (snd w)" and ?tr = "transfers (snd w)" and ?sv = "services (snd w)"
  note w = sound_stands(1) [OF assms] and c = coherentD [OF sound_stands(2) [OF assms]]
  let ?R = "\<lambda>svc E' svc' x. E' = called_off ?E svc \<and> drain_queue (svc_queue svc) = (x, svc_queue svc') \<and> scheduled_completion svc' = None"
  have dr: "drains K cur l (case drained_active x of None \<Rightarrow> [] | Some c \<Rightarrow> c # drained_waiting x) w'
      \<and> (drained_active x = None \<longrightarrow> drained_waiting x = [])"
    if svc: "map_of ?sv l = Some svc" and R: "?R svc E' svc' x" and w': "stands E' cur ?ch ?tr (omap_put l svc' ?sv) w'" for svc E' svc' x w'
  proof -
    have inv: "queue_inv (svc_queue svc)" by (rule services_okD(1) [OF c(2) svc])
    note q = drain_queue_inv [OF inv, of x "svc_queue svc'"]
    have sv: "serving ?E l svc" using c(5) svc by (simp add: served_def)
    have act: "lq_active (svc_queue svc') = None" using q(2) R by (simp add: queue_contents_def split: option.splits)
    have "serving E' l svc'" using sv act R q(3) by (simp add: serving_def)
    then have "served E' (omap_put l svc' ?sv)" using served_called_off [OF c(5) stands_inj [OF w] sv] R by simp
    moreover have "awaited K E' ?ch" using awaited_called_off [OF c(3) stands_inj [OF w] sv] R by simp
    moreover have "services_ok ?ch (omap_put l svc' ?sv)" by (rule services_ok_service [OF c(2)]) (use q R in simp_all)
    moreover have "held (\<lambda>k j. holds_chunk (omap_put l svc' ?sv) k j \<or> k = l \<and> j \<in> tc_id ` set (queue_contents (svc_queue svc))) ?ch"
      by (rule held_mono [OF c(4)]) (use svc in \<open>auto simp: holds_chunk_put holds_chunk_at\<close>)
    moreover have "\<forall>d\<in>set (queue_contents (svc_queue svc)). covered ?ch d" using services_okD(2) [OF c(2) svc] by blast
    ultimately have "draining K l (queue_contents (svc_queue svc)) E' ?ch ?tr (omap_put l svc' ?sv)"
      using c(1) by (simp add: draining_def)
    with q(4,5) R w' show ?thesis by (auto simp: drains_def)
  qed
  have still_sound: "wp (seq (emit_link_metrics l b a) (emit_gauges_now l)) (\<lambda>_. sound K cur) (\<lambda>_ _. True) w'"
    if "sound K cur w'" for b a w'
    by (rule still_seq [OF sound_stands(1) [OF that]], rule still_all, rule still_last, assumption, rule still_all,
        erule soundI, rule sound_stands(2) [OF that])
  show ?thesis
    unfolding drain_link_def
  proof (rule still_bind [OF w], rule still_all, rule step_in_service [where R = ?R], assumption, rule reconcile_down_outcome, assumption,
      rule still_bind, assumption, rule still_all, goal_cases)
    case (1 before w1 svc x E' svc' w2 aft w3)
    show ?case
      unfolding wp_seq [of "mark_dropped_link_down _ _"]
      by (rule wp_mono [OF drains_contents]) (use dr [OF 1(2,3,5)] still_sound in auto)
  qed
qed

lemma sound_still: "still m \<Longrightarrow> sound K cur w \<Longrightarrow> (\<And>x w'. sound K cur w' \<Longrightarrow> wp (f x) Q (\<lambda>_ _. True) w') \<Longrightarrow> wp (bind m f) Q (\<lambda>_ _. True) w"
  by (rule still_bind [OF sound_stands(1)], assumption, assumption) (blast intro: soundI sound_stands(2))

lemma sound_for_each: "(\<And>x w. sound K cur w \<Longrightarrow> wp (f x) (\<lambda>_. sound K cur) (\<lambda>_ _. True) w) \<Longrightarrow> sound K cur w \<Longrightarrow>
   wp (for_each f xs) (\<lambda>_. sound K cur) (\<lambda>_ _. True) w"
  by (rule wp_for_each_inv)

lemma sound_modn_topology: "sound K cur w \<Longrightarrow> (\<And>w'. sound K cur w' \<Longrightarrow> wp k Q (\<lambda>_ _. True) w') \<Longrightarrow>
   wp (seq (modn (\<lambda>n. n\<lparr>net_topology := g\<rparr>)) k) Q (\<lambda>_ _. True) w"
  unfolding seq_def by (rule sound_still [OF still_modn]) simp_all

lemma sound_reconcile_unavailable:
  assumes "sound K cur w"
  shows "wp reconcile_unavailable (\<lambda>_. sound K cur) (\<lambda>_ _. True) w"
  unfolding reconcile_unavailable_def
  by (rule sound_still [OF still_all(1) assms], rule sound_for_each, rule sound_still [OF still_all(1)], assumption,
      rule step_lift, rule sound_still [OF still_all(1)], assumption)
     (simp_all add: wp_perform_if sound_drain_link)

lemma sound_state_changes:
  assumes w: "sound K cur w"
  shows "wp (handle_link_state_change k st) (\<lambda>_. sound K cur) (\<lambda>_ _. True) w"
    "wp (handle_port_state_change p st) (\<lambda>_. sound K cur) (\<lambda>_ _. True) w"
    "wp (handle_switch_state_change s st) (\<lambda>_. sound K cur) (\<lambda>_ _. True) w"
proof -
  have dirs: "wp (for_each (\<lambda>direction. bind (getn (\<lambda>n. find_service n (DirectedLinkId k direction))) (\<lambda>svc.
      perform_if (svc \<noteq> None) (drain_link (DirectedLinkId k direction)))) ds) (\<lambda>_. sound K cur) (\<lambda>_ _. True) w'" if "sound K cur w'" for ds w'
    by (rule sound_for_each [OF _ that], rule sound_still [OF still_all(1)], assumption) (simp_all add: wp_perform_if sound_drain_link)
  have up: "wp (if st = Up then return () else for_each (\<lambda>direction. bind (getn (\<lambda>n. find_service n (DirectedLinkId k direction))) (\<lambda>svc.
      perform_if (svc \<noteq> None) (drain_link (DirectedLinkId k direction)))) ds) (\<lambda>_. sound K cur) (\<lambda>_ _. True) w'" if "sound K cur w'" for ds w'
    using dirs [OF that] that by (simp add: wp_if wp_return)
  show "wp (handle_link_state_change k st) (\<lambda>_. sound K cur) (\<lambda>_ _. True) w"
    unfolding handle_link_state_change_def Let_def
    by (rule sound_still [OF still_all(1) w], rule wp_guard, rule sound_still [OF still_all(1)], assumption,
        unfold case_prod_beta, rule sound_modn_topology, assumption, rule wp_guard, erule up)
  show "wp (handle_port_state_change p st) (\<lambda>_. sound K cur) (\<lambda>_ _. True) w"
    unfolding handle_port_state_change_def
    by (rule sound_still [OF still_all(1) w]) (auto intro!: sound_modn_topology wp_guard sound_reconcile_unavailable)
  show "wp (handle_switch_state_change s st) (\<lambda>_. sound K cur) (\<lambda>_ _. True) w"
    unfolding handle_switch_state_change_def
    by (rule sound_still [OF still_all(1) w]) (auto intro!: sound_modn_topology wp_guard sound_reconcile_unavailable)
qed

end
