(* ===== verification/Transport_Submission.thy ===== *)
theory Transport_Submission
  imports Transport_Liveness
begin

text \<open>
  Registering chunks, starting them and submitting transfers keep the books and the coherence of the
  transport. With the handlers this gives the properties of whole runs: every run that does not fail
  balances the books of all transfers, and every run that completes has completed all submitted ones.
\<close>

section \<open>Registration\<close>

text \<open>A transfer that has not been started, possibly a new one.\<close>

definition unstarted :: "chunk_map \<Rightarrow> transfer_id \<Rightarrow> transfer_record \<Rightarrow> bool" where
  "unstarted m t x \<longleftrightarrow>
     distinct (xr_chunks x)
     \<and> (\<forall>i\<in>set (xr_chunks x). \<exists>r. map_of m i = Some r \<and> tc_transfer (cr_chunk r) = t)
     \<and> counted (\<lambda>_. True) m (xr_chunks x) (xr_total x)
     \<and> counted ((=) Delivered) m (xr_chunks x) (xr_delivered x)
     \<and> counted ((=) DroppedFull) m (xr_chunks x) (xr_dropped_buffer_full x)
     \<and> counted ((=) DroppedDown) m (xr_chunks x) (xr_dropped_link_down x)
     \<and> all_in ((=) Registered) m (xr_chunks x) \<and> xr_started_at x = None \<and> xr_completion x = None"

lemma unstarted_new: "unstarted m t new_transfer_record"
  by (simp add: unstarted_def new_transfer_record_def counted_def no_traffic_def all_in_def)

lemma unstarted_old: "transfer_ok m t x \<Longrightarrow> xr_started_at x = None \<Longrightarrow> unstarted m t x"
proof -
  assume ok: "transfer_ok m t x" and none: "xr_started_at x = None"
  then have reg: "all_in ((=) Registered) m (xr_chunks x)" "xr_chunks x \<noteq> []" by (simp_all add: transfer_ok_def)
  then have "\<not> all_in terminal_state m (xr_chunks x)" by (cases "xr_chunks x") (auto simp: all_in_def terminal_state_def)
  with ok none reg show ?thesis by (auto simp: transfer_ok_def unstarted_def)
qed

lemma counted_fresh:
  assumes "i \<notin> set is" and "counted P m is c"
  shows "\<not> P (cr_state r) \<Longrightarrow> counted P (omap_put i r m) (is @ [i]) c"
    "P (cr_state r) \<Longrightarrow> add_traffic c (one_chunk (cr_chunk r)) = Inr d \<Longrightarrow> counted P (omap_put i r m) (is @ [i]) d"
proof -
  have "counted P (omap_put i r m) is c" by (rule counted_other [OF assms])
  moreover have "chunk_bytes P (omap_put i r m) i = (if P (cr_state r) then unat (tc_bytes (cr_chunk r)) else 0)"
      "chunk_ticks P (omap_put i r m) i = (if P (cr_state r) then 1 else 0)"
    by (simp_all add: chunk_bytes_def chunk_ticks_def)
  ultimately show "\<not> P (cr_state r) \<Longrightarrow> counted P (omap_put i r m) (is @ [i]) c"
    "P (cr_state r) \<Longrightarrow> add_traffic c (one_chunk (cr_chunk r)) = Inr d \<Longrightarrow> counted P (omap_put i r m) (is @ [i]) d"
    using assms(1) add_traffic_sum [of c "one_chunk (cr_chunk r)" d] by (simp_all add: counted_def one_chunk_def)
qed

lemma transfer_ok_registered:
  assumes x: "unstarted m t x" and new: "map_of m i = None" and r: "cr_state r = Registered" "tc_transfer (cr_chunk r) = t"
    and tot: "add_traffic (xr_total x) (one_chunk (cr_chunk r)) = Inr total_count"
  shows "transfer_ok (omap_put i r m) t (x\<lparr>xr_chunks := xr_chunks x @ [i], xr_total := total_count\<rparr>)"
proof -
  have i: "i \<notin> set (xr_chunks x)" using x new by (auto simp: unstarted_def)
  note cnt = counted_fresh [OF i]
  have reg: "all_in ((=) Registered) (omap_put i r m) (xr_chunks x @ [i])"
    using x i r by (auto simp: unstarted_def all_in_def)
  then have "\<not> all_in terminal_state (omap_put i r m) (xr_chunks x @ [i])"
    using r by (auto simp: all_in_def terminal_state_def)
  moreover have "counted (\<lambda>_. True) (omap_put i r m) (xr_chunks x @ [i]) total_count"
    by (rule cnt(2) [OF _ _ tot]) (use x in \<open>simp_all add: unstarted_def\<close>)
  moreover have "counted ((=) st) (omap_put i r m) (xr_chunks x @ [i]) c"
    if "counted ((=) st) m (xr_chunks x) c" "st \<noteq> Registered" for st c
    by (rule cnt(1) [OF that(1)]) (use that(2) r in simp)
  ultimately show ?thesis
    using x i r reg unfolding unstarted_def transfer_ok_def by (simp del: map_of_omap_put) (auto simp: transfer_ok_def)
qed

lemma transfer_ok_fresh:
  assumes "transfer_ok m t x" and "map_of m i = None"
  shows "transfer_ok (omap_put i r m) t x"
proof -
  have i: "i \<notin> set (xr_chunks x)" using assms by (auto simp: transfer_ok_def)
  then have "\<forall>j\<in>set (xr_chunks x). map_of (omap_put i r m) j = map_of m j" by auto
  with assms i show ?thesis by (simp add: transfer_ok_def counted_other all_in_other)
qed

lemma books_ok_registered:
  assumes ok: "books_ok ch tr" and new: "map_of ch i = None"
    and r: "cr_state r = Registered" "tc_transfer (cr_chunk r) = t" "tc_id (cr_chunk r) = i" "tc_bytes (cr_chunk r) \<noteq> 0"
      "length (cr_route r) < 2 ^ 32"
    and x: "x = (case map_of tr t of None \<Rightarrow> new_transfer_record | Some x \<Rightarrow> x)" and "xr_started_at x = None"
    and tot: "add_traffic (xr_total x) (one_chunk (cr_chunk r)) = Inr total_count"
  shows "books_ok (omap_put i r ch) (omap_put t (x\<lparr>xr_chunks := xr_chunks x @ [i], xr_total := total_count\<rparr>) tr)"
    (is "books_ok ?ch ?tr")
proof -
  have "unstarted ch t x"
    using ok x assms(9) by (auto simp: books_ok_def transfers_ok_def intro: unstarted_old unstarted_new split: option.splits)
  then have "transfer_ok ?ch t (x\<lparr>xr_chunks := xr_chunks x @ [i], xr_total := total_count\<rparr>)"
    by (rule transfer_ok_registered [OF _ new r(1,2) tot])
  then have "transfers_ok ?ch ?tr" using ok transfer_ok_fresh [OF _ new] by (auto simp: books_ok_def transfers_ok_def)
  moreover have "chunks_ok ?ch ?tr"
    unfolding chunks_ok_def
  proof (intro conjI allI impI)
    show "omap_ok ?ch" using ok by (simp add: books_ok_def chunks_ok_def)
  next
    fix j q assume j: "map_of ?ch j = Some q"
    have old: "tc_id (cr_chunk q) = j \<and> tc_bytes (cr_chunk q) \<noteq> 0 \<and> length (cr_route q) < 2 ^ 32
       \<and> (\<exists>y. map_of tr (tc_transfer (cr_chunk q)) = Some y \<and> j \<in> set (xr_chunks y))" if "j \<noteq> i"
      using ok j that by (simp add: books_ok_def chunks_ok_def)
    have at: "j = i \<Longrightarrow> q = r" using j by simp
    show "tc_id (cr_chunk q) = j" "tc_bytes (cr_chunk q) \<noteq> 0" "length (cr_route q) < 2 ^ 32" using old at r by blast+
    show "\<exists>y. map_of ?tr (tc_transfer (cr_chunk q)) = Some y \<and> j \<in> set (xr_chunks y)"
    proof (cases "j = i")
      case True
      then show ?thesis using at r(2) by simp
    next
      case False
      with old x show ?thesis by (cases "tc_transfer (cr_chunk q) = t") auto
    qed
  qed
  ultimately show ?thesis by (simp add: books_ok_def)
qed

text \<open>The network alone; the events ahead stay as they are.\<close>

abbreviation net_coherent :: "chunk_id set \<Rightarrow> event set \<Rightarrow> network \<Rightarrow> bool" where
  "net_coherent K E n \<equiv> coherent K E (chunks n) (transfers n) (services n)"

lemma validate_route_length:
  assumes "validate_route n route a b = Inr ()"
  shows "length route < 2 ^ 32"
proof -
  have "int (length route) \<le> 4294967295"
    using assms by (auto simp: validate_route_def bindR_eq_Inr split: list.splits if_splits)
  then show ?thesis by simp
qed

lemma net_coherent_register:
  assumes c: "net_coherent K E n"
  shows "wp (register_chunk rc) (\<lambda>_ n'. net_coherent (insert (tc_id (rc_chunk rc)) K) E n') (\<lambda>_ _. True) n"
proof -
  let ?c = "rc_chunk rc" and ?i = "tc_id (rc_chunk rc)" and ?t = "tc_transfer (rc_chunk rc)"
  let ?r = "\<lparr>cr_chunk = ?c, cr_route = rc_route rc, cr_state = Registered, cr_hop_index = 0, scheduled_arrival = None\<rparr>"
  have fin: "net_coherent (insert ?i K) E n'"
    if b: "tc_bytes ?c \<noteq> 0" and v: "validate_route n (rc_route rc) None None = Inr ()" and new: "map_of (chunks n) ?i = None"
      and x: "x = (case map_of (transfers n) ?t of None \<Rightarrow> new_transfer_record | Some x \<Rightarrow> x)" and none: "xr_started_at x = None"
      and tot: "add_traffic (xr_total x) (one_chunk ?c) = Inr total_count"
      and n': "chunks n' = omap_put ?i ?r (chunks n)"
        "transfers n' = omap_put ?t (x\<lparr>xr_chunks := xr_chunks x @ [?i], xr_total := total_count\<rparr>) (transfers n)"
        "services n' = services n" for x total_count n'
  proof -
    note ok = coherentD [OF c]
    have "books_ok (chunks n') (transfers n')"
      unfolding n' by (rule books_ok_registered [OF ok(1) new _ _ _ _ _ x none]) (use b tot validate_route_length [OF v] in simp_all)
    moreover have "services_ok (chunks n') (services n')"
      using ok(2) new unfolding n' by (fastforce simp: services_ok_def covered_def)
    moreover have "awaited (insert ?i K) E (chunks n')"
      using ok(3) unfolding n' by (auto simp: awaited_def)
    moreover have "held (holds_chunk (services n')) (chunks n')" unfolding n' by (rule held_put [OF ok(4)]) simp
    ultimately show ?thesis using ok(5) by (simp add: coherent_def n')
  qed
  show ?thesis
    unfolding register_chunk_def Let_def
  proof (rule wp_guard, rule wp_guard, (rule wp_gets_bind, rule step_lift)+, rule wp_gets_bind, rule wp_guard, rule wp_gets_bind, rule wp_guard,
      rule step_lift, goal_cases)
    case (1 u1 u2 u3 total_count)
    then show ?case
      unfolding wp_modify Let_def
      by (intro fin [where x = "case map_of (transfers n) ?t of None \<Rightarrow> new_transfer_record | Some x \<Rightarrow> x"])
         (auto simp: new_transfer_record_def split: option.splits)
  qed
qed

lemma net_coherent_submit_chunks:
  "net_coherent K E n \<Longrightarrow> wp (submit_chunks rq t full rest ordinals)
     (\<lambda>made n'. net_coherent (K \<union> fst ` set made) E n') (\<lambda>_ _. True) n"
proof (induction ordinals arbitrary: n K)
  case Nil
  then show ?case by (simp add: wp_return)
next
  case (Cons k ks)
  let ?bytes = "if of_nat k < full then req_maximum_chunk_bytes rq else rest"
  have next_id: "wp (zoom chunk_ids (\<lambda>g n. n\<lparr>chunk_ids := g\<rparr>) transport_id_next) (\<lambda>_ n'. net_coherent K E n') (\<lambda>_ _. True) n"
    using Cons.prems by (simp add: wp_zoom wp_def split: prod.splits sum.splits)
  show ?case
    unfolding submit_chunks.simps Let_def wp_bind [of "zoom _ _ _"]
  proof (rule wp_mono [OF next_id])
    fix i n1 assume n1: "net_coherent K E n1"
    let ?rc = "\<lparr>rc_chunk = \<lparr>tc_transfer = t, tc_id = i, tc_bytes = ?bytes, tc_hop_index = 0, tc_marked = False\<rparr>, rc_route = req_route rq\<rparr>"
    show "wp (seq (register_chunk ?rc) (bind (submit_chunks rq t full rest ks) (\<lambda>r. return ((i, ?bytes) # r))))
       (\<lambda>made n'. net_coherent (K \<union> fst ` set made) E n') (\<lambda>_ _. True) n1"
      unfolding wp_seq
    proof (rule wp_mono [OF net_coherent_register [OF n1]])
      fix n2 assume "net_coherent (insert (tc_id (rc_chunk ?rc)) K) E n2"
      then have "net_coherent (insert i K) E n2" by simp
      from Cons.IH [OF this] show "wp (bind (submit_chunks rq t full rest ks) (\<lambda>r. return ((i, ?bytes) # r)))
         (\<lambda>made n'. net_coherent (K \<union> fst ` set made) E n') (\<lambda>_ _. True) n2"
        by (simp add: wp_bind wp_return)
    qed simp
  qed simp
qed

section \<open>Start and submission\<close>

lemma books_ok_started:
  assumes ok: "books_ok ch tr" and r: "map_of ch i = Some r" "cr_state r = Registered" and "same_chunk r r'" "cr_route r' = cr_route r"
    and st: "cr_state r' = AwaitingArrival" and t: "t = tc_transfer (cr_chunk r)" and x: "map_of tr t = Some x" and s: "started \<noteq> None"
    and tr': "map_of tr' = (map_of tr)(t \<mapsto> x\<lparr>xr_started_at := started\<rparr>)"
  shows "books_ok (omap_put i r' ch) tr'"
proof (rule books_ok_replace [OF ok r(1) assms(4,5) t x _ _ tr'])
  obtain y where "map_of tr t = Some y" "i \<in> set (xr_chunks y)" "transfer_ok ch t y"
    using books_ok_member [OF ok r(1)] t by blast
  then show "transfer_ok (omap_put i r' ch) t (x\<lparr>xr_started_at := started\<rparr>)"
    using transfer_ok_depart [OF _ r(1) assms(4) _ _ _ s, of t x] x r(2) st by (simp add: terminal_state_def)
qed simp

lemma awaited_started:
  assumes "awaited K E ch" and "E \<subseteq> E'" and "cr_state r = AwaitingArrival" and "cr_hop_index r = 0"
    and "e \<in> E'" and "scheduled_arrival r = Some (event_id e)" and "payload e = ChunkArrivalEvent i 0"
  shows "awaited (K - {i}) E' (omap_put i r ch)"
proof -
  have "awaited K E' ch" by (rule awaited_mono [OF assms(1,2)])
  then show ?thesis using assms(3-7) by (auto simp: awaited_def)
qed

lemma sound_schedule_initial_arrival:
  assumes "sound K cur w"
  shows "wp (schedule_initial_arrival i) (\<lambda>_. sound (K - {i}) cur) (\<lambda>_ _. True) w"
proof -
  let ?E = "live (fst w)" and ?ch = "chunks (snd w)" and ?tr = "transfers (snd w)" and ?sv = "services (snd w)"
  note w = sound_stands(1) [OF assms] and c = coherentD [OF sound_stands(2) [OF assms]]
  show ?thesis
    unfolding schedule_initial_arrival_def
  proof (rule step_require_chunk [OF w], rule wp_guard, rule still_bind [OF w], rule still_all, rule still_bind, assumption, rule still_all,
      rule step_lift, rule step_schedule, assumption, rule step_put_chunk, assumption, rule step_transfer_at, assumption, goal_cases)
    case (1 r t w1 v w2 u e w3 w4 x)
    let ?r = "r\<lparr>cr_state := AwaitingArrival, scheduled_arrival := Some (event_id e)\<rparr>" and ?t = "tc_transfer (cr_chunk r)"
    let ?E' = "insert e ?E" and ?ch' = "omap_put i ?r ?ch"
    have r: "map_of ?ch i = Some r" "cr_state r = Registered" and e: "payload e = ChunkArrivalEvent i 0"
      and w4: "stands ?E' cur ?ch' ?tr ?sv w4" and x: "map_of ?tr ?t = Some x" using 1 by simp_all
    have same: "same_chunk r ?r" by (simp add: same_chunk_def)
    have fin: "coherent (K - {i}) ?E' ?ch' tr' ?sv" if "books_ok ?ch' tr'" for tr'
    proof -
      have "awaited (K - {i}) ?E' ?ch'" by (rule awaited_started [OF c(3)]) (use e c(3) r in \<open>auto simp: awaited_def\<close>)
      moreover have "held (holds_chunk ?sv) ?ch'" by (rule held_put [OF c(4)]) simp
      moreover have "services_ok ?ch' ?sv" by (rule services_ok_put [OF c(2) r(1) same])
      moreover have "served ?E' ?sv" using c(5) by (auto simp: served_def intro: serving_more)
      ultimately show ?thesis using that by (simp add: coherent_def)
    qed
    show ?case
    proof (cases "xr_started_at x")
      case None
      have b: "books_ok ?ch' (omap_put ?t (x\<lparr>xr_started_at := Some t\<rparr>) ?tr)"
        by (rule books_ok_started [OF c(1) r same _ _ refl x]) simp_all
      let ?tel = "bind net_telemetry_enabled (\<lambda>on. perform_if on (bind event_correlation (\<lambda>c.
          net_record (c\<lparr>cor_transfer := Some ?t\<rparr>) (TransferObservation TransferSubmitted (traffic_bytes (xr_total x)) 0 ReasonNone))))"
      have "still ?tel" by (intro stillness.moves_rules still_all)
      then have "wp (seq (put_transfer ?t (x\<lparr>xr_started_at := Some t\<rparr>)) ?tel) (\<lambda>_. sound (K - {i}) cur) (\<lambda>_ _. True) w4"
        by - (rule step_put_transfer [OF w4], erule still_last, assumption, erule soundI, rule fin [OF b])
      with None show ?thesis by (simp add: wp_simps)
    next
      case (Some s)
      have "books_ok ?ch' ?tr"
        by (rule books_ok_started [OF c(1) r same _ _ refl x, where started = "Some s"]) (use Some x in \<open>simp_all add: fun_upd_idem\<close>)
      with Some show ?thesis by (simp add: wp_simps soundI [OF w4 fin])
    qed
  qed
qed

lemma still_zoom_net:
  assumes "\<And>n. wp m (\<lambda>_ n'. chunks n' = chunks n \<and> transfers n' = transfers n \<and> services n' = services n)
     (\<lambda>_ n'. chunks n' = chunks n \<and> transfers n' = transfers n \<and> services n' = services n) n"
  shows "still (zoom_net m)"
proof (rule movesI)
  fix w :: world assume "sim_ok (fst w)"
  show "wp (zoom_net m) (\<lambda>_. unmoved w) (\<lambda>_. unmoved w) w"
    unfolding zoom_net_def wp_zoom by (rule wp_mono [OF assms]) (simp_all add: unmoved_def stands_def)
qed

lemma sound_net:
  assumes "sound K cur w" and "wp m (\<lambda>x n. net_coherent (K' x) (live (fst w)) n) (\<lambda>_ _. True) (snd w)"
    and "\<And>x w'. sound (K' x) cur w' \<Longrightarrow> wp (f x) Q (\<lambda>_ _. True) w'"
  shows "wp (bind (zoom_net m) f) Q (\<lambda>_ _. True) w"
  unfolding wp_bind zoom_net_def wp_zoom
  by (rule wp_mono [OF assms(2)]) (use assms(1,3) in \<open>auto simp: sound_def\<close>)

lemma sound_more: "sound K1 cur w \<Longrightarrow> K1 \<subseteq> K2 \<Longrightarrow> sound K2 cur w"
proof -
  assume "sound K1 cur w" and sub: "K1 \<subseteq> K2"
  moreover have "awaited K1 E ch \<Longrightarrow> awaited K2 E ch" for E ch using sub unfolding awaited_def by blast
  ultimately show ?thesis by (simp add: sound_def coherent_def)
qed

lemma sound_start_all:
  "sound (K \<union> fst ` set made) cur w \<Longrightarrow>
   wp (for_each (\<lambda>(i, _). bind (schedule_initial_arrival i) (\<lambda>_. return ())) made) (\<lambda>_. sound K cur) (\<lambda>_ _. True) w"
proof (induction made arbitrary: w)
  case (Cons p made)
  let ?i = "fst p"
  have "wp (schedule_initial_arrival ?i) (\<lambda>_. sound (K \<union> fst ` set made) cur) (\<lambda>_ _. True) w"
    by (rule wp_mono [OF sound_schedule_initial_arrival [OF Cons.prems]]) (auto intro: sound_more)
  then show ?case
    by (cases p) (simp add: wp_simps, erule wp_mono, simp_all add: Cons.IH)
qed (simp add: wp_simps)

lemma sound_submit_transfer:
  assumes w: "sound K cur w"
  shows "wp (submit_transfer rq) (\<lambda>_. sound K cur) (\<lambda>_ _. True) w"
proof -
  have ids: "still (zoom_net (zoom transfer_ids (\<lambda>g n. n\<lparr>transfer_ids := g\<rparr>) transport_id_next))"
    by (rule still_zoom_net) (simp add: wp_zoom wp_def split: prod.splits sum.splits)
  show ?thesis
    unfolding submit_transfer_def Let_def
    by (rule wp_guard, rule wp_guard, rule sound_still [OF still_all(1) w], rule step_lift, rule sound_still [OF still_all(1)], assumption,
        rule wp_guard, rule sound_still [OF still_all(1)], assumption, rule step_lift, rule sound_still [OF still_all(2)], assumption,
        rule sound_still [OF still_all(1)], assumption, rule step_lift, rule sound_still [OF still_all(1)], assumption, rule step_lift,
        rule sound_still [OF ids], assumption,
        rule sound_net [where K' = "\<lambda>made. K \<union> fst ` set made"], assumption, rule net_coherent_submit_chunks, erule sound_stands(2),
        unfold wp_seq, rule wp_mono [OF sound_start_all], assumption, simp_all add: wp_return)
qed

section \<open>Construction\<close>

lemma new_transport_coherent:
  assumes "new_transport g cfgs lim sink = Inr n"
  shows "net_coherent {} {} n"
proof -
  have step: "wp (add_service cfg) (\<lambda>_ n'. chunks n' = [] \<and> transfers n' = [] \<and> net_coherent {} {} n') (\<lambda>_ _. True) n0"
    if "chunks n0 = [] \<and> transfers n0 = [] \<and> net_coherent {} {} n0" for cfg n0
  proof -
    have "services_ok [] (omap_put (cfg_link cfg) svc (services n0)) \<and> served {} (omap_put (cfg_link cfg) svc (services n0))"
      if svc: "new_link_service cfg = Inr svc" for svc
    proof -
      have q: "queue_inv (svc_queue svc)" "queue_contents (svc_queue svc) = []" "lq_configuration (svc_queue svc) = cfg"
          "scheduled_completion svc = None"
        using svc new_link_queue_inv by (auto simp: new_link_service_def bindR_eq_Inr)
      then have "serving {} (cfg_link cfg) svc" by (auto simp: serving_def queue_contents_def split: option.splits)
      with q \<open>chunks n0 = [] \<and> transfers n0 = [] \<and> net_coherent {} {} n0\<close> show ?thesis
        by (auto simp: coherent_def intro: services_ok_service served_put)
    qed
    then show ?thesis
      using that by (auto simp: add_service_def wp_simps coherent_def held_def split: sum.splits)
  qed
  let ?n0 = "\<lparr>net_topology = g, net_limits = lim, net_sink = sink, route_entries = 0, transfers = [],
              completions = [], transfer_ids = new_id_generator 0, chunk_ids = new_id_generator 0,
              services = [], reported_busy_time = [], chunks = []\<rparr>"
  have "net_coherent {} {} ?n0"
    by (simp add: coherent_def books_ok_def chunks_ok_def transfers_ok_def services_ok_def awaited_def held_def served_def)
  then have "wp (for_each add_service cfgs) (\<lambda>_ n'. chunks n' = [] \<and> transfers n' = [] \<and> net_coherent {} {} n') (\<lambda>_ _. True) ?n0"
    by (intro wp_for_each_inv step) auto
  with assms show ?thesis by (auto simp: new_transport_def wp_def split: if_splits prod.splits sum.splits)
qed

section \<open>Segmentation\<close>

lemma register_chunk_new:
  "wp (register_chunk rc) (\<lambda>_ n'. map_of (chunks n) (tc_id (rc_chunk rc)) = None
     \<and> dom (map_of (chunks n')) = insert (tc_id (rc_chunk rc)) (dom (map_of (chunks n)))) (\<lambda>_ _. True) n"
  unfolding register_chunk_def Let_def
  by (rule wp_guard, rule wp_guard, (rule wp_gets_bind, rule step_lift)+, rule wp_gets_bind, rule wp_guard, rule wp_gets_bind, rule wp_guard,
      rule step_lift) (simp add: wp_modify)

definition segment_bytes :: "transfer_request \<Rightarrow> u64 \<Rightarrow> u64 \<Rightarrow> nat \<Rightarrow> byte_count" where
  "segment_bytes rq full rest k = (if of_nat k < full then req_maximum_chunk_bytes rq else rest)"

lemma submit_chunks_segments:
  "wp (submit_chunks rq t full rest ks) (\<lambda>made n'. map snd made = map (segment_bytes rq full rest) ks
     \<and> distinct (map fst made) \<and> fst ` set made \<inter> dom (map_of (chunks n)) = {}) (\<lambda>_ _. True) n"
proof (induction ks arbitrary: n)
  case Nil
  then show ?case by (simp add: wp_return)
next
  case (Cons k ks)
  let ?P = "\<lambda>ks n made n'. map snd made = map (segment_bytes rq full rest) ks
     \<and> distinct (map fst made) \<and> fst ` set made \<inter> dom (map_of (chunks n)) = {}"
  let ?rc = "\<lambda>i. \<lparr>rc_chunk = \<lparr>tc_transfer = t, tc_id = i, tc_bytes = segment_bytes rq full rest k, tc_hop_index = 0,
       tc_marked = False\<rparr>, rc_route = req_route rq\<rparr>"
  have "wp (zoom chunk_ids (\<lambda>g n. n\<lparr>chunk_ids := g\<rparr>) transport_id_next) (\<lambda>_ n'. chunks n' = chunks n) (\<lambda>_ _. True) n"
    by (simp add: wp_zoom wp_def split: prod.splits sum.splits)
  moreover have "wp (seq (register_chunk (?rc i)) (bind (submit_chunks rq t full rest ks) (\<lambda>r. return ((i, segment_bytes rq full rest k) # r))))
      (?P (k # ks) n) (\<lambda>_ _. True) n1" if n1: "chunks n1 = chunks n" for i n1
    unfolding wp_seq
  proof (rule wp_mono [OF register_chunk_new], goal_cases)
    case (1 u n2)
    then have "wp (submit_chunks rq t full rest ks) (\<lambda>made. ?P (k # ks) n ((i, segment_bytes rq full rest k) # made)) (\<lambda>_ _. True) n2"
      by (intro wp_mono [OF Cons.IH [of n2]]) (use n1 in auto)
    then show ?case by (simp add: wp_bind wp_return)
  qed simp
  ultimately show ?case
    unfolding submit_chunks.simps Let_def wp_bind [of "zoom _ _ _"] segment_bytes_def [symmetric] by (auto elim!: wp_mono)
qed

lemma segments_sum:
  fixes bytes maximum :: u64
  assumes "maximum \<noteq> 0" and "bytes \<noteq> 0" and rq: "req_maximum_chunk_bytes rq = maximum"
  defines "full \<equiv> bytes div maximum" and "rest \<equiv> bytes mod maximum"
  defines "cnt \<equiv> unat (full + (if rest \<noteq> 0 then 1 else 0))"
  shows "cnt = ceiling_div (unat bytes) (unat maximum)"
    "sum_list (map (unat \<circ> segment_bytes rq full rest) [0..<cnt]) = unat bytes"
    "k < cnt \<Longrightarrow> segment_bytes rq full rest k \<noteq> 0 \<and> segment_bytes rq full rest k \<le> maximum"
proof -
  have m: "unat maximum > 0" using assms(1) by (simp add: unat_gt_0)
  have fr: "unat full = unat bytes div unat maximum" "unat rest = unat bytes mod unat maximum"
    by (simp_all add: full_def rest_def unat_div unat_mod)
  have zero: "rest \<noteq> 0 \<longleftrightarrow> unat rest \<noteq> 0" by (simp add: unat_eq_0)
  have big: "unat full + 1 < 2 ^ 64" if "rest \<noteq> 0"
  proof -
    have "unat rest < unat maximum" "unat rest \<noteq> 0" using fr(2) m that zero by auto
    then have "unat bytes div unat maximum \<le> unat bytes div 2" by (intro div_le_mono2) auto
    then show ?thesis using fr(1) unat_u64_bound [of bytes] by simp
  qed
  have cnt: "cnt = unat full + (if rest \<noteq> 0 then 1 else 0)"
    using big by (auto simp: cnt_def unat_plus_no_overflow)
  show "cnt = ceiling_div (unat bytes) (unat maximum)"
    unfolding cnt ceiling_div_eq [OF m] fr zero by (simp add: fr)
  have lt: "of_nat k < full \<longleftrightarrow> k < unat full" if "k < cnt" for k
  proof -
    have "k < 2 ^ 64" using that unat_u64_bound [of "full + (if rest \<noteq> 0 then 1 else 0)"] by (simp add: cnt_def)
    then have "unat (of_nat k :: u64) = k" by (simp add: unat_of_nat take_bit_nat_eq_self)
    then show ?thesis by (simp add: word_less_nat_alt)
  qed
  have seg: "segment_bytes rq full rest k = (if k < unat full then maximum else rest)" if "k < cnt" for k
    using lt [OF that] by (simp add: segment_bytes_def rq)
  have "sum_list (map (unat \<circ> segment_bytes rq full rest) [0..<cnt])
      = sum_list (map (\<lambda>k. if k < unat full then unat maximum else unat rest) [0..<cnt])"
    by (rule arg_cong [where f = sum_list], rule map_cong) (auto simp: seg)
  also have "\<dots> = unat full * unat maximum + unat rest"
  proof -
    have "sum_list (map (\<lambda>k. if k < unat full then unat maximum else unat rest) [0..<unat full]) = unat full * unat maximum"
      by (subst map_cong [OF refl, where g = "\<lambda>_. unat maximum"]) (simp_all add: sum_list_triv)
    then show ?thesis using zero by (auto simp: cnt)
  qed
  also have "\<dots> = unat bytes" by (simp add: fr)
  finally show "sum_list (map (unat \<circ> segment_bytes rq full rest) [0..<cnt]) = unat bytes" .
  have le: "rest \<le> maximum" using fr(2) m by (simp add: word_le_nat_alt mod_le_divisor)
  show "segment_bytes rq full rest k \<noteq> 0 \<and> segment_bytes rq full rest k \<le> maximum" if "k < cnt"
    using seg [OF that] that assms(1) le by (auto simp: cnt split: if_splits)
qed

text \<open>C3. Submission cuts a transfer exactly: when it is accepted, the chunks it made have distinct new
  identifiers, they are as few as the maximum chunk size allows, none is empty or larger than that
  size, and their sizes add up to the bytes requested.\<close>

theorem submit_transfer_segments:
  assumes "submit_transfer rq w = (Inr sub, w')"
  shows "sum_list (map (unat \<circ> snd) (sub_chunks sub)) = unat (req_bytes rq)
     \<and> length (sub_chunks sub) = ceiling_div (unat (req_bytes rq)) (unat (req_maximum_chunk_bytes rq))
     \<and> (\<forall>(i, b)\<in>set (sub_chunks sub). b \<noteq> 0 \<and> b \<le> req_maximum_chunk_bytes rq \<and> map_of (chunks (snd w)) i = None)
     \<and> distinct (map fst (sub_chunks sub))"
proof -
  let ?b = "req_bytes rq" and ?m = "req_maximum_chunk_bytes rq"
  let ?full = "?b div ?m" and ?rest = "?b mod ?m"
  let ?cnt = "unat (?full + (if ?rest \<noteq> 0 then 1 else 0))"
  let ?P = "\<lambda>made. map snd made = map (segment_bytes rq ?full ?rest) [0..<?cnt] \<and> distinct (map fst made)
       \<and> fst ` set made \<inter> dom (map_of (chunks (snd w))) = {}"
  have ids: "same_chunks (zoom_net (zoom transfer_ids (\<lambda>g n. n\<lparr>transfer_ids := g\<rparr>) transport_id_next))"
    by (rule movesI) (simp add: zoom_net_def wp_zoom wp_def split: prod.splits sum.splits)
  have make: "wp (zoom_net (submit_chunks rq t ?full ?rest [0..<?cnt])) (\<lambda>made _. ?P made) (\<lambda>_ _. True) w1"
    if "chunks (snd w1) = chunks (snd w)" for t w1
    unfolding zoom_net_def wp_zoom by (rule wp_mono [OF submit_chunks_segments]) (use that in auto)
  have "wp (submit_transfer rq) (\<lambda>sub _. ?b \<noteq> 0 \<and> ?m \<noteq> 0 \<and> ?P (sub_chunks sub)) (\<lambda>_ _. True) w"
    unfolding submit_transfer_def Let_def
  proof (rule wp_guard, rule wp_guard, (rule wp_over, intro same_chunks_all)+, rule wp_over_seq, intro same_chunks_all,
      (rule wp_over, intro same_chunks_all ids)+, goal_cases)
    case (1 a1 w1 a2 w2 a3 w3 w4 a5 w5 a6 w6 a7 w7 a8 w8 a9 w9 a10 w10 a11 w11 t w12)
    then have "chunks (snd w12) = chunks (snd w)" by simp
    from make [OF this] show ?case
      unfolding wp_bind [of "zoom_net _"]
    proof (rule wp_mono)
      fix made and w13 :: world assume "?P made"
      then show "wp (seq (for_each (\<lambda>(i, _). bind (schedule_initial_arrival i) (\<lambda>_. return ())) made)
          (return \<lparr>sub_id = t, sub_chunks = made\<rparr>)) (\<lambda>sub _. ?b \<noteq> 0 \<and> ?m \<noteq> 0 \<and> ?P (sub_chunks sub)) (\<lambda>_ _. True) w13"
        unfolding wp_seq wp_return by (intro wp_mono [OF wp_True]) (use 1 in simp_all)
    qed simp
  qed
  from wp_normal [OF this assms] have b: "?b \<noteq> 0" "?m \<noteq> 0" and P: "?P (sub_chunks sub)" by auto
  note seg = segments_sum [OF b(2,1) refl]
  have sizes: "map (unat \<circ> snd) (sub_chunks sub) = map (unat \<circ> segment_bytes rq ?full ?rest) [0..<?cnt]"
    unfolding map_map [symmetric] using P by (simp only:)
  have "length (map snd (sub_chunks sub)) = ?cnt" unfolding conjunct1 [OF P] by simp
  then have len: "length (sub_chunks sub) = ?cnt" by simp
  have each: "b \<noteq> 0 \<and> b \<le> ?m \<and> map_of (chunks (snd w)) i = None" if ib: "(i, b) \<in> set (sub_chunks sub)" for i b
  proof -
    have "b \<in> set (map snd (sub_chunks sub))" using ib by (force simp: image_iff)
    then obtain k where "k < ?cnt" "b = segment_bytes rq ?full ?rest k" using P by auto
    moreover have "i \<notin> dom (map_of (chunks (snd w)))" using P ib by force
    ultimately show ?thesis using seg(3) by auto
  qed
  have "sum_list (map (unat \<circ> snd) (sub_chunks sub)) = unat ?b" unfolding sizes by (rule seg(2))
  moreover have "length (sub_chunks sub) = ceiling_div (unat ?b) (unat ?m)" unfolding len by (rule seg(1))
  ultimately show ?thesis using each P by auto
qed

theorem submit_transfer_segments_witness:
  "\<exists>n sub w'. example_network = Inr n \<and> submit_transfer example_request (example_simulation, n) = (Inr sub, w')
     \<and> sum_list (map (unat \<circ> snd) (sub_chunks sub)) = 60"
proof -
  have made: "case example_network of Inl e \<Rightarrow> False
     | Inr n \<Rightarrow> (case submit_transfer example_request (example_simulation, n) of (Inl e, w) \<Rightarrow> False | (Inr s, w) \<Rightarrow> True)"
    by code_simp
  obtain n where n: "example_network = Inr n" using made by (cases example_network) (metis sum.simps(5), blast)
  obtain r w' where r: "submit_transfer example_request (example_simulation, n) = (r, w')" by (metis prod.exhaust)
  from made obtain sub where sub: "r = Inr sub" unfolding n sum.case r prod.case by (cases r) simp_all
  have "req_bytes example_request = 60" by (simp add: example_request_def)
  with submit_transfer_segments [OF r [unfolded sub]] n r sub show ?thesis by auto
qed

end
