(* ===== verification/Transport_Correct.thy ===== *)
theory Transport_Correct
  imports Transport_Submission
begin

text \<open>
  The correctness of the transport as its clients see it: snapshots partition the traffic of a transfer,
  and runs end with every submitted transfer accounted for.
\<close>

section \<open>Runs keep the invariant\<close>

lemma coherent_skip:
  assumes "coherent K (insert e E) ch tr sv" and "\<not> transport_payload (payload e)"
  shows "coherent K E ch tr sv"
proof -
  have "awaited K E ch" by (rule awaited_skip [OF coherentD(3) [OF assms(1)]]) (use assms(2) in auto)
  moreover have "served E sv" by (rule served_skip [OF coherentD(5) [OF assms(1)]]) (use assms(2) in auto)
  ultimately show ?thesis using assms(1) by (simp add: coherent_def)
qed

lemma coherent_routes: "net_coherent K E n \<Longrightarrow> routes_ok n"
  unfolding coherent_def books_ok_def chunks_ok_def routes_ok_def
  by (auto dest!: omap_ok_distinct map_of_is_SomeI)

lemma sound_transport_dispatch:
  assumes w: "stands E (Some e) ch tr sv w" and c: "coherent K (insert e E) ch tr sv"
  shows "wp (transport_dispatch (payload e)) (\<lambda>_. sound K (Some e)) (\<lambda>_ _. True) w"
proof (cases "transport_payload (payload e)")
  case True
  then show ?thesis
    using sound_handle_arrival [OF w c] sound_handle_completion [OF w c] by (cases "payload e") simp_all
next
  case False
  have "sound K (Some e) w" by (rule soundI [OF w coherent_skip [OF c False]])
  with False show ?thesis by (cases "payload e") (simp_all add: sound_state_changes wp_return)
qed

interpretation coherent_guard: guarded_dispatcher transport_dispatch transport_payload "\<lambda>t E n. net_coherent K E n" net_potential for K
proof
  show "in_context transport_payload (transport_dispatch p)" for p by (rule in_context_transport_dispatch)
  show "wp (transport_dispatch (payload e)) (\<lambda>_ w'. net_coherent K (live (fst w')) (snd w')
       \<and> (if transport_payload (payload e) then net_potential (snd w') < net_potential n
          else net_potential (snd w') \<le> net_potential n)) (\<lambda>_ _. True) (s, n)"
    if "sim_ok s" "current_event s = Some e" "net_coherent K (insert e (live s)) n" for s e n
  proof -
    have "stands (live s) (Some e) (chunks n) (transfers n) (services n) (s, n)" using that by (simp add: stands_def)
    from wp_conj [OF sound_transport_dispatch [OF this that(3)]
        transport_dispatch_progress [of "(s, n)" "payload e"]] coherent_routes [OF that(3)]
    show ?thesis by (auto elim!: wp_mono simp: sound_def)
  qed
qed

section \<open>Calls of the clients\<close>

datatype transport_call = CallRegister routed_chunk | CallStart chunk_id | CallSubmit transfer_request

primrec perform_call :: "transport_call \<Rightarrow> (world, unit) prog" where
  "perform_call (CallRegister rc) = zoom_net (register_chunk rc)"
| "perform_call (CallStart i) = bind (schedule_initial_arrival i) (\<lambda>_. return ())"
| "perform_call (CallSubmit rq) = bind (submit_transfer rq) (\<lambda>_. return ())"

definition sound_some :: "event option \<Rightarrow> world \<Rightarrow> bool" where
  "sound_some cur w \<longleftrightarrow> (\<exists>K. sound K cur w)"

lemma sound_perform_call: "sound_some cur w \<Longrightarrow> wp (perform_call c) (\<lambda>_. sound_some cur) (\<lambda>_ _. True) w"
proof -
  assume "sound_some cur w"
  then obtain K where w: "sound K cur w" by (auto simp: sound_some_def)
  show ?thesis
  proof (cases c)
    case (CallRegister rc)
    have "wp (bind (zoom_net (register_chunk rc)) (\<lambda>x. return x)) (\<lambda>_. sound_some cur) (\<lambda>_ _. True) w"
      by (rule sound_net [OF w net_coherent_register [OF sound_stands(2) [OF w]]]) (auto simp: wp_return sound_some_def)
    with CallRegister show ?thesis by (simp add: wp_bind wp_return)
  next
    case (CallStart i)
    then show ?thesis using sound_schedule_initial_arrival [OF w, of i] by (auto simp: wp_simps sound_some_def elim!: wp_mono)
  next
    case (CallSubmit rq)
    then show ?thesis using sound_submit_transfer [OF w, of rq] by (auto simp: wp_simps sound_some_def elim!: wp_mono)
  qed
qed

lemma in_context_perform_call: "in_context transport_payload (perform_call c)"
  by (cases c) (simp_all add: in_context_net ctx.moves_bind ctx.moves_pure in_context_schedule_initial_arrival in_context_submit_transfer)

text \<open>A simulation and a network that are ready to run.\<close>

lemma new_transport_sound:
  assumes "new_transport g cfgs lim sink = Inr n" and "sim_ok s"
  shows "sound {} (current_event s) (s, n)"
proof -
  note c = coherentD [OF new_transport_coherent [OF assms(1)]]
  have "awaited {} (live s) (chunks n)" by (rule awaited_mono [OF c(3)]) simp
  moreover have "served (live s) (services n)" using c(5) by (auto simp: served_def intro: serving_more)
  ultimately show ?thesis using c assms(2) by (simp add: coherent_def sound_def)
qed

lemma calls_created:
  assumes "sim_ok s0" "sim_lifecycle s0 = Created" and "for_each perform_call calls (s0, n0) = (r, s, n)"
  shows "sim_ok s" "sim_lifecycle s = Created"
proof -
  have "in_context transport_payload (for_each perform_call calls)" by (intro ctx.moves_rules in_context_perform_call)
  from moves_snd [OF this, of "(s0, n0)"] assms have "stays transport_payload s0 s" by simp
  then show "sim_ok s" "sim_lifecycle s = Created" using assms by (simp_all add: stays_def context_frame_def)
qed

lemma calls_coherent:
  assumes "new_transport g cfgs lim sink = Inr n0" and "sim_ok s0"
    and calls: "for_each perform_call calls (s0, n0) = (Inr (), s, n)"
  obtains K where "net_coherent K (live s) n"
proof -
  have "sound_some (current_event s0) (s0, n0)" using new_transport_sound [OF assms(1,2)] by (auto simp: sound_some_def)
  then have "wp (for_each perform_call calls) (\<lambda>_. sound_some (current_event s0)) (\<lambda>_ _. True) (s0, n0)"
    by (intro wp_for_each_inv sound_perform_call)
  with calls that show ?thesis by (auto simp: wp_def sound_some_def sound_def)
qed

lemma submissions_coherent:
  assumes "new_transport g cfgs lim sink = Inr n0" and "sim_ok s0"
    and calls: "for_each perform_call (map CallSubmit requests) (s0, n0) = (Inr (), s, n)"
  shows "net_coherent {} (live s) n"
proof -
  have "wp (perform_call c) (\<lambda>_. sound {} (current_event s0)) (\<lambda>_ _. True) w"
    if "c \<in> set (map CallSubmit requests)" "sound {} (current_event s0) w" for c w
    using that(1) sound_submit_transfer [OF that(2)] by (auto simp: wp_bind wp_return)
  then have "wp (for_each perform_call (map CallSubmit requests)) (\<lambda>_. sound {} (current_event s0)) (\<lambda>_ _. True) (s0, n0)"
    using new_transport_sound [OF assms(1,2)] by (rule wp_for_each_inv)
  with calls show ?thesis by (simp add: wp_def sound_def)
qed

section \<open>Snapshots\<close>

text \<open>The traffic of a snapshot that is still in transit.\<close>

definition transit_bytes :: "transfer_snapshot \<Rightarrow> nat" where
  "transit_bytes s = unat (traffic_bytes (xs_registered s)) + unat (traffic_bytes (xs_awaiting_initial_arrival s))
     + unat (traffic_bytes (xs_waiting s)) + unat (traffic_bytes (xs_active s)) + unat (traffic_bytes (xs_propagating s))"

definition transit_chunks :: "transfer_snapshot \<Rightarrow> nat" where
  "transit_chunks s = unat (traffic_chunks (xs_registered s)) + unat (traffic_chunks (xs_awaiting_initial_arrival s))
     + unat (traffic_chunks (xs_waiting s)) + unat (traffic_chunks (xs_active s)) + unat (traffic_chunks (xs_propagating s))"

definition same_account :: "transfer_snapshot \<Rightarrow> transfer_snapshot \<Rightarrow> bool" where
  "same_account s s' \<longleftrightarrow> xs_total s' = xs_total s \<and> xs_delivered s' = xs_delivered s
     \<and> xs_dropped_buffer_full s' = xs_dropped_buffer_full s \<and> xs_dropped_link_down s' = xs_dropped_link_down s
     \<and> xs_started_at s' = xs_started_at s \<and> xs_completion s' = xs_completion s"

abbreviation in_transit :: "chunk_transit_state \<Rightarrow> bool" where
  "in_transit st \<equiv> \<not> terminal_state st"

lemma add_traffic_fits:
  assumes "unat (traffic_bytes a) + unat (traffic_bytes b) < 2 ^ 64" and "unat (traffic_chunks a) + unat (traffic_chunks b) < 2 ^ 64"
  obtains c where "add_traffic a b = Inr c"
    "unat (traffic_bytes c) = unat (traffic_bytes a) + unat (traffic_bytes b)"
    "unat (traffic_chunks c) = unat (traffic_chunks a) + unat (traffic_chunks b)"
proof -
  have "\<not> traffic_bytes b > u64_max - traffic_bytes a" "\<not> traffic_chunks b > u64_max - traffic_chunks a"
    using assms max_minus_less_iff [of "traffic_bytes a" "traffic_bytes b"] max_minus_less_iff [of "traffic_chunks a" "traffic_chunks b"] by auto
  then obtain c where "add_traffic a b = Inr c" by (simp add: add_traffic_def)
  with add_traffic_sum [OF this] that show ?thesis by blast
qed

lemma snapshot_chunk_adds:
  assumes r: "map_of (chunks n) i = Some r"
    and held: "cr_state r = Admitted \<Longrightarrow> unat (cr_hop_index r) < length (cr_route r) \<and> find_service n (cr_route r ! unat (cr_hop_index r)) \<noteq> None"
    and fits: "transit_bytes s + chunk_bytes in_transit (chunks n) i < 2 ^ 64" "transit_chunks s + chunk_ticks in_transit (chunks n) i < 2 ^ 64"
  obtains s' where "snapshot_chunk n i s = Inr s'" "same_account s s'"
    "transit_bytes s' = transit_bytes s + chunk_bytes in_transit (chunks n) i"
    "transit_chunks s' = transit_chunks s + chunk_ticks in_transit (chunks n) i"
proof (cases "terminal_state (cr_state r)")
  case True
  then have "snapshot_chunk n i s = Inr s" using r by (auto simp: snapshot_chunk_def terminal_state_def)
  with True r that show ?thesis by (simp add: same_account_def chunk_bytes_def chunk_ticks_def)
next
  case False
  let ?c = "one_chunk (cr_chunk r)"
  have c: "chunk_bytes in_transit (chunks n) i = unat (traffic_bytes ?c)" "chunk_ticks in_transit (chunks n) i = unat (traffic_chunks ?c)"
    using r False by (simp_all add: chunk_bytes_def chunk_ticks_def one_chunk_def)
  have fit: "\<exists>d. add_traffic (f s) ?c = Inr d \<and> unat (traffic_bytes d) = unat (traffic_bytes (f s)) + unat (traffic_bytes ?c)
      \<and> unat (traffic_chunks d) = unat (traffic_chunks (f s)) + unat (traffic_chunks ?c)"
    if "f \<in> {xs_registered, xs_awaiting_initial_arrival, xs_waiting, xs_active, xs_propagating}" for f
  proof -
    have "unat (traffic_bytes (f s)) + unat (traffic_bytes ?c) < 2 ^ 64" "unat (traffic_chunks (f s)) + unat (traffic_chunks ?c) < 2 ^ 64"
      using that fits unfolding c transit_bytes_def transit_chunks_def by auto
    then show ?thesis using add_traffic_fits by blast
  qed
  note fit = fit [of xs_registered] fit [of xs_awaiting_initial_arrival] fit [of xs_waiting] fit [of xs_active] fit [of xs_propagating]
  have "\<exists>s'. snapshot_chunk n i s = Inr s' \<and> same_account s s' \<and> transit_bytes s' = transit_bytes s + unat (traffic_bytes ?c)
      \<and> transit_chunks s' = transit_chunks s + unat (traffic_chunks ?c)"
    using False fit held r
    by (cases "cr_state r") (auto simp: snapshot_chunk_def same_account_def transit_bytes_def transit_chunks_def terminal_state_def Let_def split: option.splits)
  with that c show ?thesis by auto
qed

lemma snapshot_chunks_add:
  assumes "\<And>i. i \<in> set is \<Longrightarrow> \<exists>r. map_of (chunks n) i = Some r \<and> (cr_state r = Admitted \<longrightarrow>
       unat (cr_hop_index r) < length (cr_route r) \<and> find_service n (cr_route r ! unat (cr_hop_index r)) \<noteq> None)"
    and "transit_bytes s + sum_list (map (chunk_bytes in_transit (chunks n)) is) < 2 ^ 64"
    and "transit_chunks s + sum_list (map (chunk_ticks in_transit (chunks n)) is) < 2 ^ 64"
  shows "\<exists>s'. snapshot_chunks n is s = Inr s' \<and> same_account s s'
     \<and> transit_bytes s' = transit_bytes s + sum_list (map (chunk_bytes in_transit (chunks n)) is)
     \<and> transit_chunks s' = transit_chunks s + sum_list (map (chunk_ticks in_transit (chunks n)) is)"
  using assms
proof (induction "is" arbitrary: s)
  case Nil
  then show ?case by (simp add: same_account_def)
next
  case (Cons i "is")
  from Cons.prems(1) [of i] obtain r where r: "map_of (chunks n) i = Some r"
    and h: "cr_state r = Admitted \<Longrightarrow> unat (cr_hop_index r) < length (cr_route r) \<and> find_service n (cr_route r ! unat (cr_hop_index r)) \<noteq> None"
    by auto
  obtain s1 where s1: "snapshot_chunk n i s = Inr s1" "same_account s s1"
      "transit_bytes s1 = transit_bytes s + chunk_bytes in_transit (chunks n) i"
      "transit_chunks s1 = transit_chunks s + chunk_ticks in_transit (chunks n) i"
    using snapshot_chunk_adds [OF r h, of s] Cons.prems(2,3) by auto
  from Cons.IH [of s1] Cons.prems s1 obtain s2 where "snapshot_chunks n is s1 = Inr s2" "same_account s1 s2"
      "transit_bytes s2 = transit_bytes s1 + sum_list (map (chunk_bytes in_transit (chunks n)) is)"
      "transit_chunks s2 = transit_chunks s1 + sum_list (map (chunk_ticks in_transit (chunks n)) is)" by auto
  with s1 show ?case by (auto simp: same_account_def)
qed

text \<open>Traffic that has come to an end.\<close>

definition ended_bytes :: "transfer_snapshot \<Rightarrow> nat" where
  "ended_bytes s = unat (traffic_bytes (xs_delivered s)) + unat (traffic_bytes (xs_dropped_buffer_full s))
     + unat (traffic_bytes (xs_dropped_link_down s))"

definition ended_chunks :: "transfer_snapshot \<Rightarrow> nat" where
  "ended_chunks s = unat (traffic_chunks (xs_delivered s)) + unat (traffic_chunks (xs_dropped_buffer_full s))
     + unat (traffic_chunks (xs_dropped_link_down s))"

lemma chunk_split:
  "chunk_bytes (\<lambda>_. True) m i = chunk_bytes in_transit m i + (chunk_bytes ((=) Delivered) m i
     + (chunk_bytes ((=) DroppedFull) m i + chunk_bytes ((=) DroppedDown) m i))"
  "chunk_ticks (\<lambda>_. True) m i = chunk_ticks in_transit m i + (chunk_ticks ((=) Delivered) m i
     + (chunk_ticks ((=) DroppedFull) m i + chunk_ticks ((=) DroppedDown) m i))"
  by (auto simp: chunk_bytes_def chunk_ticks_def terminal_state_def split: option.splits)

lemma snapshot_balances:
  assumes c: "net_coherent K E n" and x: "map_of (transfers n) t = Some x"
  shows "\<exists>s. transfer_snapshot_of n t = Inr (Some s) \<and> xs_total s = xr_total x \<and> xs_completion s = xr_completion x
     \<and> unat (traffic_bytes (xs_total s)) = transit_bytes s + ended_bytes s
     \<and> unat (traffic_chunks (xs_total s)) = transit_chunks s + ended_chunks s"
proof -
  let ?is = "xr_chunks x" and ?m = "chunks n"
  let ?s0 = "\<lparr>xs_total = xr_total x, xs_registered = no_traffic, xs_awaiting_initial_arrival = no_traffic,
             xs_waiting = no_traffic, xs_active = no_traffic, xs_propagating = no_traffic,
             xs_delivered = xr_delivered x, xs_dropped_buffer_full = xr_dropped_buffer_full x,
             xs_dropped_link_down = xr_dropped_link_down x, xs_started_at = xr_started_at x,
             xs_completion = xr_completion x\<rparr>"
  have ok: "transfer_ok ?m t x" using c x by (simp add: coherent_def books_ok_def transfers_ok_def)
  have zero: "transit_bytes ?s0 = 0" "transit_chunks ?s0 = 0" by (simp_all add: transit_bytes_def transit_chunks_def no_traffic_def)
  have "distinct ?is" using ok by (simp add: transfer_ok_def)
  then have lists: "sum_list (map f ?is) = sum f (set ?is)" for f :: "chunk_id \<Rightarrow> nat" by (simp add: sum_list_distinct_conv_sum_set)
  have cnt: "counted (\<lambda>_. True) ?m ?is (xr_total x)" "counted ((=) Delivered) ?m ?is (xr_delivered x)"
      "counted ((=) DroppedFull) ?m ?is (xr_dropped_buffer_full x)" "counted ((=) DroppedDown) ?m ?is (xr_dropped_link_down x)"
    using ok by (simp_all add: transfer_ok_def)
  have tot: "unat (traffic_bytes (xr_total x)) = sum (chunk_bytes in_transit ?m) (set ?is) + ended_bytes ?s0"
      "unat (traffic_chunks (xr_total x)) = sum (chunk_ticks in_transit ?m) (set ?is) + ended_chunks ?s0"
    using cnt by (simp_all add: counted_def chunk_split sum.distrib ended_bytes_def ended_chunks_def)
  have known: "\<exists>r. map_of ?m i = Some r \<and> (cr_state r = Admitted \<longrightarrow>
       unat (cr_hop_index r) < length (cr_route r) \<and> find_service n (cr_route r ! unat (cr_hop_index r)) \<noteq> None)" if "i \<in> set ?is" for i
    using ok that coherentD(4) [OF c] by (fastforce simp: transfer_ok_def held_def holds_chunk_def find_service_def)
  have "\<exists>s'. snapshot_chunks n ?is ?s0 = Inr s' \<and> same_account ?s0 s'
     \<and> transit_bytes s' = transit_bytes ?s0 + sum_list (map (chunk_bytes in_transit ?m) ?is)
     \<and> transit_chunks s' = transit_chunks ?s0 + sum_list (map (chunk_ticks in_transit ?m) ?is)"
    by (rule snapshot_chunks_add [OF known], simp_all only: zero lists)
       (use tot unat_u64_bound [of "traffic_bytes (xr_total x)"] unat_u64_bound [of "traffic_chunks (xr_total x)"] in simp_all)
  then obtain s where s: "snapshot_chunks n ?is ?s0 = Inr s" "same_account ?s0 s"
      "transit_bytes s = sum (chunk_bytes in_transit ?m) (set ?is)" "transit_chunks s = sum (chunk_ticks in_transit ?m) (set ?is)"
    by (auto simp: zero lists)
  have "transfer_snapshot_of n t = Inr (Some s)" using x s(1) by (simp add: transfer_snapshot_of_def)
  moreover have "ended_bytes s = ended_bytes ?s0" "ended_chunks s = ended_chunks ?s0"
    using s(2) by (simp_all add: same_account_def ended_bytes_def ended_chunks_def)
  ultimately show ?thesis using s tot by (simp add: same_account_def)
qed

section \<open>Nothing is left in transit\<close>

lemma coherent_idle:
  assumes c: "coherent {} {} ch tr sv" and r: "map_of ch i = Some r"
  shows "terminal_state (cr_state r)"
proof -
  have "cr_state r \<noteq> Registered" "cr_state r \<noteq> AwaitingArrival" using coherentD(3) [OF c] r by (auto simp: awaited_def)
  moreover have "cr_state r \<noteq> Admitted"
  proof
    assume "cr_state r = Admitted"
    with coherentD(4) [OF c] r obtain l svc where svc: "map_of sv l = Some svc" "queue_contents (svc_queue svc) \<noteq> []"
      unfolding held_def holds_chunk_def by fastforce
    from coherentD(5) [OF c] svc(1) have "serving {} l svc" by (simp add: served_def)
    with svc(2) show False by (auto simp: serving_def queue_contents_def split: option.splits)
  qed
  ultimately show ?thesis by (cases "cr_state r") (simp_all add: terminal_state_def)
qed

lemma all_ended:
  assumes ok: "transfer_ok m t x" and all: "all_in terminal_state m (xr_chunks x)"
  shows "\<exists>c. xr_completion x = Some c \<and> tcm_transfer c = t
     \<and> unat (traffic_bytes (tcm_delivered c)) + unat (traffic_bytes (tcm_dropped_buffer_full c))
         + unat (traffic_bytes (tcm_dropped_link_down c)) = unat (traffic_bytes (xr_total x))
     \<and> (tcm_outcome c = OutcomeSucceeded \<longleftrightarrow> traffic_chunks (tcm_delivered c) = traffic_chunks (xr_total x))
     \<and> (tcm_outcome c = OutcomeSucceeded \<or> tcm_outcome c = OutcomeFailed)"
proof -
  let ?is = "xr_chunks x"
  from ok all obtain c where c: "xr_completion x = Some c" "tcm_transfer c = t" "tcm_delivered c = xr_delivered x"
      "tcm_dropped_buffer_full c = xr_dropped_buffer_full x" "tcm_dropped_link_down c = xr_dropped_link_down x"
      "tcm_outcome c = (if all_in ((=) Delivered) m ?is then OutcomeSucceeded else OutcomeFailed)"
    unfolding transfer_ok_def by blast
  have cnt: "counted (\<lambda>_. True) m ?is (xr_total x)" "counted ((=) Delivered) m ?is (xr_delivered x)"
      "counted ((=) DroppedFull) m ?is (xr_dropped_buffer_full x)" "counted ((=) DroppedDown) m ?is (xr_dropped_link_down x)"
    and known: "\<forall>i\<in>set ?is. \<exists>r. map_of m i = Some r"
    using ok by (auto simp: transfer_ok_def)
  have "unat (traffic_bytes (xr_total x)) = sum (chunk_bytes terminal_state m) (set ?is)"
    using cnt(1) bytes_all [OF all] by (simp add: counted_def)
  then have bytes: "unat (traffic_bytes (xr_delivered x)) + unat (traffic_bytes (xr_dropped_buffer_full x))
      + unat (traffic_bytes (xr_dropped_link_down x)) = unat (traffic_bytes (xr_total x))"
    using cnt(2-4) by (simp add: counted_def bytes_terminal sum.distrib)
  have "traffic_chunks (xr_delivered x) = traffic_chunks (xr_total x) \<longleftrightarrow> all_in ((=) Delivered) m ?is"
    using ticks_all [OF known, of "(=) Delivered"] cnt(1,2) by (simp add: counted_def word_unat_eq_iff)
  with c bytes show ?thesis by auto
qed

section \<open>Properties\<close>

text \<open>C1. Every submitted transfer comes to an end. From a new transport and a fresh simulation, after any
  sequence of accepted submissions, the run returns; if it completes, every transfer of the network has
  a completion whose delivered and dropped bytes add up to the bytes of the transfer, and whose outcome
  is success precisely when every chunk was delivered.\<close>

theorem submitted_transfers_complete:
  assumes "new_transport g cfgs lim sink = Inr n0" and "sim_ok s0" and "sim_lifecycle s0 = Created"
    and "for_each perform_call (map CallSubmit requests) (s0, n0) = (Inr (), s, n)"
  shows "\<exists>res s' n'. run transport_dispatch (s, n) = Some (Inr res, s', n')
     \<and> (res_status res = StatusCompleted \<longrightarrow> (\<forall>t x. map_of (transfers n') t = Some x \<longrightarrow>
          (\<exists>c. xr_completion x = Some c \<and> tcm_transfer c = t
             \<and> unat (traffic_bytes (tcm_delivered c)) + unat (traffic_bytes (tcm_dropped_buffer_full c))
                 + unat (traffic_bytes (tcm_dropped_link_down c)) = unat (traffic_bytes (xr_total x))
             \<and> (tcm_outcome c = OutcomeSucceeded \<longleftrightarrow> traffic_chunks (tcm_delivered c) = traffic_chunks (xr_total x))
             \<and> (tcm_outcome c = OutcomeSucceeded \<or> tcm_outcome c = OutcomeFailed))))"
proof -
  have "net_coherent {} (live s) n" by (rule submissions_coherent [OF assms(1,2,4)])
  with coherent_guard.run_guarded [of "(s, n)" "{}"] calls_created [OF assms(2,3,4)]
  obtain res s' n' where run: "run transport_dispatch (s, n) = Some (Inr res, s', n')"
      "res_status res = StatusCompleted \<longrightarrow> sim_queue s' = []"
      "res_status res \<noteq> StatusFailed \<longrightarrow> net_coherent {} (live s') n'" by auto
  have "all_in terminal_state (chunks n') (xr_chunks x) \<and> transfer_ok (chunks n') t x"
    if "res_status res = StatusCompleted" "map_of (transfers n') t = Some x" for t x
  proof -
    have "live s' = {}" using run(2) that(1) by (simp add: live_def)
    then have c: "coherent {} {} (chunks n') (transfers n') (services n')" using run(3) that(1) by simp
    then have "transfer_ok (chunks n') t x" using that(2) by (simp add: coherent_def books_ok_def transfers_ok_def)
    moreover from this coherent_idle [OF c] have "all_in terminal_state (chunks n') (xr_chunks x)"
      unfolding all_in_def transfer_ok_def by blast
    ultimately show ?thesis by simp
  qed
  with run(1) all_ended show ?thesis by blast
qed

text \<open>A run of the example, evaluated.\<close>

declare run_loop.simps [code]

definition example_submitted :: "network \<Rightarrow> (exn + unit) \<times> world" where
  "example_submitted n0 = for_each perform_call (map CallSubmit [example_request]) (example_simulation, n0)"

definition example_run_check :: bool where
  "example_run_check = (case example_network of
     Inl e \<Rightarrow> False
   | Inr n0 \<Rightarrow>
       (case example_submitted n0 of
          (Inl e, w) \<Rightarrow> False
        | (Inr _, w) \<Rightarrow>
            (case run transport_dispatch w of
               Some (Inr res, w') \<Rightarrow> res_status res = StatusCompleted \<and> map fst (transfers (snd w')) = [0]
             | _ \<Rightarrow> False)))"

lemma example_run_checked: "example_run_check"
  by code_simp

lemma example_run:
  obtains n0 s n res s' n' x where "example_network = Inr n0" "example_submitted n0 = (Inr (), s, n)"
    "run transport_dispatch (s, n) = Some (Inr res, s', n')" "res_status res = StatusCompleted"
    "map_of (transfers n') 0 = Some x"
proof -
  obtain n0 where n0: "example_network = Inr n0"
    using example_run_checked unfolding example_run_check_def by (cases example_network) (metis sum.simps(5), blast)
  obtain r s n where c: "example_submitted n0 = (r, s, n)" by (metis prod.exhaust)
  from example_run_checked have chk: "case run transport_dispatch (s, n) of
      Some (Inr res, w') \<Rightarrow> res_status res = StatusCompleted \<and> map fst (transfers (snd w')) = [0] | _ \<Rightarrow> False" and r: "r = Inr ()"
    unfolding example_run_check_def n0 sum.case c prod.case by (cases r, simp_all)+
  then obtain res s' n' where "run transport_dispatch (s, n) = Some (Inr res, s', n')"
    and st: "res_status res = StatusCompleted" and keys: "map fst (transfers n') = [0]"
    by (auto split: option.splits sum.splits prod.splits) (metis sum.exhaust)
  moreover obtain x where "map_of (transfers n') 0 = Some x" using keys by (cases "transfers n'") auto
  ultimately show ?thesis using that n0 c r by blast
qed

theorem submitted_transfers_complete_witness:
  "\<exists>n0 s n res s' n' x c. example_network = Inr n0
     \<and> example_submitted n0 = (Inr (), s, n)
     \<and> run transport_dispatch (s, n) = Some (Inr res, s', n') \<and> res_status res = StatusCompleted
     \<and> map_of (transfers n') 0 = Some x \<and> xr_completion x = Some c \<and> tcm_transfer c = 0"
proof -
  obtain n0 s n res s' n' x where ex: "example_network = Inr n0"
    "example_submitted n0 = (Inr (), s, n)"
    "run transport_dispatch (s, n) = Some (Inr res, s', n')" "res_status res = StatusCompleted"
    "map_of (transfers n') 0 = Some x" by (rule example_run)
  from submitted_transfers_complete [OF ex(1) [unfolded example_network_def] example_simulation_ok ex(2) [unfolded example_submitted_def]] ex show ?thesis by fastforce
qed

text \<open>C2. A snapshot of a transfer is a partition of it. From a new transport and a fresh simulation, after
  any sequence of accepted registrations, starts and submissions and a run that did not fail, the
  snapshot of every transfer exists, and its total, in bytes and in chunks, is the sum of what is
  registered, awaiting its first arrival, waiting, in service, propagating, delivered and dropped.\<close>

theorem transfer_snapshot_partition:
  assumes "new_transport g cfgs lim sink = Inr n0" and "sim_ok s0" and "sim_lifecycle s0 = Created"
    and "for_each perform_call calls (s0, n0) = (Inr (), s, n)"
    and "run transport_dispatch (s, n) = Some (Inr res, s', n')" and "res_status res \<noteq> StatusFailed"
    and "map_of (transfers n') t = Some x"
  shows "\<exists>snap. transfer_snapshot_of n' t = Inr (Some snap) \<and> xs_total snap = xr_total x \<and> xs_completion snap = xr_completion x
     \<and> unat (traffic_bytes (xs_total snap)) = transit_bytes snap + ended_bytes snap
     \<and> unat (traffic_chunks (xs_total snap)) = transit_chunks snap + ended_chunks snap"
proof -
  obtain K where "net_coherent K (live s) n" by (rule calls_coherent [OF assms(1,2,4)])
  with coherent_guard.run_guarded [of "(s, n)" K] calls_created [OF assms(2,3,4)] assms(5,6)
  have "net_coherent K (live s') n'" by auto
  then show ?thesis by (rule snapshot_balances [OF _ assms(7)])
qed

theorem transfer_snapshot_partition_witness:
  "\<exists>n0 s n res s' n' snap. example_network = Inr n0
     \<and> example_submitted n0 = (Inr (), s, n)
     \<and> run transport_dispatch (s, n) = Some (Inr res, s', n')
     \<and> transfer_snapshot_of n' 0 = Inr (Some snap)
     \<and> unat (traffic_bytes (xs_total snap)) = transit_bytes snap + ended_bytes snap"
proof -
  obtain n0 s n res s' n' x where ex: "example_network = Inr n0"
    "example_submitted n0 = (Inr (), s, n)"
    "run transport_dispatch (s, n) = Some (Inr res, s', n')" "res_status res = StatusCompleted"
    "map_of (transfers n') 0 = Some x" by (rule example_run)
  from ex(4) have "res_status res \<noteq> StatusFailed" by simp
  from transfer_snapshot_partition [OF ex(1) [unfolded example_network_def] example_simulation_ok ex(2) [unfolded example_submitted_def] ex(3) this ex(5)] ex show ?thesis
    by fastforce
qed

end
