(* ===== verification/Ring_Plan.thy ===== *)
theory Ring_Plan
  imports Trace Timing
begin

text \<open>
  The plan of a ring all-reduce (\<^verbatim>\<open>collective/model.hpp\<close>, \<^verbatim>\<open>collective/planner.cpp\<close>). The bytes are cut
  into one shard per participant; a round sends one shard from every rank to the next. The lemmas show
  that a round is a partition of the bytes and that the rounds of both phases, executed on data, leave
  every rank with the sum over all ranks of every shard.
\<close>

section \<open>The planner\<close>

record ring_transfer =
  ring_source :: u32
  ring_destination :: u32
  ring_shard :: u32
  ring_bytes :: byte_count

primrec phase_name :: "phase \<Rightarrow> string" where
  "phase_name ReduceScatter = ''reduce_scatter''"
| "phase_name AllGather = ''all_gather''"
| "phase_name PhaseSucceeded = ''succeeded''"
| "phase_name PhaseFailed = ''failed''"
| "phase_name PhaseCancelled = ''cancelled''"

definition planned_volume :: "u32 \<Rightarrow> byte_count \<Rightarrow> exn + u64" where
  "planned_volume participants bytes =
     (if participants = 0 \<or> participants > 8192 \<or> bytes = 0
      then Inl (InvalidArgument ''invalid ring dimensions'')
      else let factor = 2 * (ucast (participants - 1) :: u64)
           in if factor \<noteq> 0 \<and> bytes > u64_max div factor
              then Inl (OverflowError ''ring volume overflow'')
              else Inr (factor * bytes))"

text \<open>The transfer of one rank in a round, the body of the loop.\<close>

definition plan_transfer :: "u32 \<Rightarrow> byte_count \<Rightarrow> phase \<Rightarrow> u32 \<Rightarrow> u32 \<Rightarrow> ring_transfer" where
  "plan_transfer participants bytes ph round rank =
     (let shard = (rank + participants - round + (if ph = AllGather then 1 else 0)) mod participants;
          size = bytes div ucast participants + (if ucast shard < bytes mod ucast participants then 1 else 0)
      in \<lparr>ring_source = rank, ring_destination = (rank + 1) mod participants, ring_shard = shard, ring_bytes = size\<rparr>)"

definition plan_round :: "u32 \<Rightarrow> byte_count \<Rightarrow> phase \<Rightarrow> u32 \<Rightarrow> exn + ring_transfer list" where
  "plan_round participants bytes ph round =
     bindR (planned_volume participants bytes) (\<lambda>_.
     if ph \<noteq> ReduceScatter \<and> ph \<noteq> AllGather \<or> participants < 2 \<or> round \<ge> participants - 1
     then Inl (InvalidArgument ''invalid ring phase or round'')
     else Inr (map (plan_transfer participants bytes ph round \<circ> of_nat) [0..<unat participants]))"

section \<open>Executing a plan on data\<close>

text \<open>
  \<open>d r s\<close> is what rank \<open>r\<close> holds of shard \<open>s\<close>. The transfers of a round take place together: what is
  sent was held before the round. A receiver adds in the first phase and copies in the second.
\<close>

type_synonym 'a ring_data = "nat \<Rightarrow> nat \<Rightarrow> 'a"

definition deliver :: "phase \<Rightarrow> 'a::comm_monoid_add ring_data \<Rightarrow> ring_transfer \<Rightarrow> 'a ring_data \<Rightarrow> 'a ring_data" where
  "deliver ph old t d =
     (let src = unat (ring_source t); dst = unat (ring_destination t); s = unat (ring_shard t)
      in d(dst := (d dst)(s := (if ph = ReduceScatter then old dst s + old src s else old src s))))"

definition run_round :: "phase \<Rightarrow> ring_transfer list \<Rightarrow> 'a::comm_monoid_add ring_data \<Rightarrow> 'a ring_data" where
  "run_round ph ts d = fold (deliver ph d) ts d"

text \<open>The rounds of a phase, one after the other, as the planner gives them.\<close>

fun run_rounds :: "u32 \<Rightarrow> byte_count \<Rightarrow> phase \<Rightarrow> nat \<Rightarrow> 'a::comm_monoid_add ring_data \<Rightarrow> exn + 'a ring_data" where
  "run_rounds n bytes ph 0 d = Inr d"
| "run_rounds n bytes ph (Suc k) d =
     bindR (run_rounds n bytes ph k d) (\<lambda>d'.
     bindR (plan_round n bytes ph (of_nat k)) (\<lambda>ts. Inr (run_round ph ts d')))"

definition all_reduce :: "u32 \<Rightarrow> byte_count \<Rightarrow> 'a::comm_monoid_add ring_data \<Rightarrow> exn + 'a ring_data" where
  "all_reduce n bytes d =
     bindR (run_rounds n bytes ReduceScatter (unat n - 1) d) (run_rounds n bytes AllGather (unat n - 1))"

section \<open>The transfers of a round\<close>

lemma unat_small: "k < 2 ^ 32 \<Longrightarrow> unat (of_nat k :: u32) = k"
  by (simp add: unat_of_nat take_bit_nat_eq_self)

lemma unat_wide: "unat (ucast (w :: u32) :: u64) = unat w"
  using unsigned_less [of w, where 'a = nat]
  by (simp add: unsigned_ucast_eq take_bit_nat_eq_self)

lemma unat_pred: "0 < unat w \<Longrightarrow> unat (w - 1 :: u32) = unat w - 1"
  by (rule unat_minus_one) auto

lemma volume_dimensions:
  assumes "planned_volume n bytes = Inr v"
  shows "0 < unat n" "unat n \<le> 8192" "bytes \<noteq> 0" "unat v = 2 * (unat n - 1) * unat bytes"
proof -
  from assms have n: "n \<noteq> 0" "n \<le> 8192" and b: "bytes \<noteq> 0" by (auto simp: planned_volume_def split: if_splits)
  show n0: "0 < unat n" using n(1) by (simp add: unat_gt_0)
  show n8: "unat n \<le> 8192" using n(2) by (simp add: word_le_nat_alt)
  show "bytes \<noteq> 0" by (rule b)
  let ?f = "2 * (ucast (n - 1) :: u64)"
  have "unat (n - 1) = unat n - 1" using n(1) by (simp add: unat_minus_one)
  then have u: "unat (ucast (n - 1) :: u64) = unat n - 1" by (simp add: unat_wide)
  have f: "unat ?f = 2 * (unat n - 1)"
    using unat_mult_no_overflow [of "2 :: u64" "ucast (n - 1)"] n8 by (simp add: u)
  from assms n b have v: "v = ?f * bytes" "?f = 0 \<or> bytes \<le> u64_max div ?f"
    by (auto simp: planned_volume_def Let_def split: if_splits)
  have "unat bytes * unat ?f < 2 ^ 64"
  proof (cases "?f = 0")
    case True
    then show ?thesis by simp
  next
    case False
    then show ?thesis using v(2) le_max_div_iff [of ?f bytes] by (auto simp: word_neq_0_conv)
  qed
  then show "unat v = 2 * (unat n - 1) * unat bytes"
    unfolding v(1) using unat_mult_no_overflow [of ?f bytes] by (simp add: f mult.commute)
qed

lemma plan_transfer_fields:
  assumes n: "0 < unat n" "unat n \<le> 8192" and r: "r < unat n" and k: "k < unat n"
  shows "unat (ring_source (plan_transfer n bytes ph (of_nat k) (of_nat r))) = r"
    "unat (ring_destination (plan_transfer n bytes ph (of_nat k) (of_nat r))) = (r + 1) mod unat n"
    "unat (ring_shard (plan_transfer n bytes ph (of_nat k) (of_nat r)))
       = (r + unat n - k + (if ph = AllGather then 1 else 0)) mod unat n"
proof -
  have small: "unat (of_nat r :: u32) = r" "unat (of_nat k :: u32) = k" using n r k by (simp_all add: unat_small)
  have one: "unat (of_nat r + 1 :: u32) = r + 1" using n r small(1) unat_plus_no_overflow [of "of_nat r :: u32" 1] by simp
  have sum: "unat (of_nat r + n) = r + unat n" using n r small(1) unat_plus_no_overflow [of "of_nat r" n] by simp
  have "unat (of_nat r + n - of_nat k) = unat (of_nat r + n) - unat (of_nat k :: u32)"
    by (rule unat_sub) (use sum small k in \<open>simp add: word_le_nat_alt\<close>)
  then have diff: "unat (of_nat r + n - of_nat k) = r + unat n - k" using sum small by simp
  have "unat (of_nat r + n - of_nat k + 1) = r + unat n - k + 1"
    using diff n r unat_plus_no_overflow [of "of_nat r + n - of_nat k" 1] by simp
  then show "unat (ring_shard (plan_transfer n bytes ph (of_nat k) (of_nat r)))
       = (r + unat n - k + (if ph = AllGather then 1 else 0)) mod unat n"
    using diff by (simp add: plan_transfer_def Let_def unat_mod)
  show "unat (ring_source (plan_transfer n bytes ph (of_nat k) (of_nat r))) = r"
    "unat (ring_destination (plan_transfer n bytes ph (of_nat k) (of_nat r))) = (r + 1) mod unat n"
    using small one by (simp_all add: plan_transfer_def Let_def unat_mod)
qed

lemma plan_transfer_size:
  assumes n: "0 < unat n" "unat n \<le> 8192" and b: "bytes \<noteq> 0"
  shows "unat (ring_bytes (plan_transfer n bytes ph k r))
    = unat bytes div unat n
      + (if unat (ring_shard (plan_transfer n bytes ph k r)) < unat bytes mod unat n then 1 else 0)"
proof -
  have N: "unat (ucast n :: u64) = unat n" by (simp add: unat_wide)
  have q: "unat (bytes div ucast n) = unat bytes div unat n" by (simp add: unat_div N)
  have m: "unat (bytes mod ucast n) = unat bytes mod unat n" by (simp add: unat_mod N)
  have sh: "ucast s < bytes mod ucast n \<longleftrightarrow> unat s < unat bytes mod unat n" for s :: u32
    by (simp add: word_less_nat_alt m unat_wide)
  have fits: "unat bytes div unat n + 1 < 2 ^ 64" if "unat bytes mod unat n \<noteq> 0"
  proof -
    have "unat bytes div unat n * unat n + unat bytes mod unat n = unat bytes" by simp
    moreover have "unat bytes div unat n \<le> unat bytes div unat n * unat n" using n(1) by simp
    ultimately show ?thesis using that unat_u64_bound [of bytes] n(1)
      by (metis One_nat_def Suc_leI add_mono_thms_linordered_semiring(1) le_less_trans neq0_conv)
  qed
  show ?thesis
    using unat_plus_no_overflow [of "bytes div ucast n" 1] fits
    by (auto simp: plan_transfer_def Let_def sh q)
qed

lemma plan_round_transfers:
  assumes "planned_volume n bytes = Inr v" "2 \<le> unat n" "k + 1 < unat n" "ph = ReduceScatter \<or> ph = AllGather"
  shows "plan_round n bytes ph (of_nat k)
    = Inr (map (plan_transfer n bytes ph (of_nat k) \<circ> of_nat) [0..<unat n])"
proof -
  note d = volume_dimensions [OF assms(1)]
  have k: "unat (of_nat k :: u32) = k" using assms(3) d by (simp add: unat_small)
  have "unat (n - 1) = unat n - 1" by (rule unat_pred [OF d(1)])
  then have "\<not> n - 1 \<le> of_nat k" using assms(3) k by (simp add: word_le_nat_alt)
  moreover have "\<not> n < 2" using assms(2) by (simp add: word_less_nat_alt)
  ultimately show ?thesis using assms by (auto simp: plan_round_def)
qed

lemma plan_round_inv:
  assumes "plan_round n bytes ph k = Inr ts"
  obtains v where "planned_volume n bytes = Inr v" "2 \<le> unat n" "unat k + 1 < unat n"
    "ph = ReduceScatter \<or> ph = AllGather"
    "ts = map (plan_transfer n bytes ph (of_nat (unat k)) \<circ> of_nat) [0..<unat n]"
proof -
  obtain v where v: "planned_volume n bytes = Inr v"
    using assms by (cases "planned_volume n bytes") (auto simp: plan_round_def)
  note d = volume_dimensions [OF v]
  have "unat (n - 1) = unat n - 1" by (rule unat_pred [OF d(1)])
  then show ?thesis using that [OF v] assms v
    by (auto simp: plan_round_def word_le_nat_alt word_less_nat_alt not_le not_less split: if_splits)
qed

section \<open>Arithmetic of the ring\<close>

text \<open>The rank \<open>i\<close> places before \<open>r\<close>.\<close>

definition ago :: "nat \<Rightarrow> nat \<Rightarrow> nat \<Rightarrow> nat" where
  "ago n r i = (r + n - i) mod n"

lemma ago_if: "r < n \<Longrightarrow> i \<le> n \<Longrightarrow> ago n r i = (if i \<le> r then r - i else r + n - i)"
  by (auto simp: ago_def mod_if)

lemma ago_less: "0 < n \<Longrightarrow> ago n r i < n"
  by (simp add: ago_def)

lemma next_ago: "r < n \<Longrightarrow> (ago n r 1 + 1) mod n = r"
  by (auto simp: ago_if mod_if)

lemma fwd_if: "(r :: nat) < n \<Longrightarrow> Suc r mod n = (if Suc r = n then 0 else Suc r)"
  by auto

lemma fwd_ago: "p < n \<Longrightarrow> k < n \<Longrightarrow> (p + n - k + 1) mod n = ago n ((p + 1) mod n) k"
  by (auto simp: ago_if fwd_if mod_if)

lemma sum_ago:
  assumes "r < n"
  shows "(\<Sum>i<n. f (ago n r i)) = (\<Sum>i<n. f i)"
  by (rule sum.reindex_bij_witness [where i = "ago n r" and j = "ago n r"])
    (use assms in \<open>auto simp: ago_if\<close>)

section \<open>The effect of a round\<close>

lemma deliver_at:
  "deliver ph old t d (unat (ring_destination t)) (unat (ring_shard t))
     = (if ph = ReduceScatter
        then old (unat (ring_destination t)) (unat (ring_shard t)) + old (unat (ring_source t)) (unat (ring_shard t))
        else old (unat (ring_source t)) (unat (ring_shard t)))"
  by (simp add: deliver_def Let_def)

lemma deliver_other:
  "r \<noteq> unat (ring_destination t) \<or> s \<noteq> unat (ring_shard t) \<Longrightarrow> deliver ph old t d r s = d r s"
  by (auto simp: deliver_def Let_def)

lemma deliveries_other:
  "\<forall>t\<in>set ts. r \<noteq> unat (ring_destination t) \<or> s \<noteq> unat (ring_shard t)
   \<Longrightarrow> fold (deliver ph old) ts d r s = d r s"
  by (induction ts arbitrary: d) (auto simp: deliver_other)

lemma deliveries_at:
  assumes "t \<in> set ts" "distinct (map ring_destination ts)"
  shows "fold (deliver ph old) ts d (unat (ring_destination t)) (unat (ring_shard t))
    = deliver ph old t d (unat (ring_destination t)) (unat (ring_shard t))"
  using assms
proof (induction ts arbitrary: d)
  case (Cons u ts)
  show ?case
  proof (cases "t = u")
    case True
    then have "\<forall>x\<in>set ts. unat (ring_destination t) \<noteq> unat (ring_destination x)"
      using Cons.prems(2) by (auto simp: image_iff word_unat_eq_iff)
    then show ?thesis using True by (simp add: deliveries_other)
  next
    case False
    then show ?thesis using Cons by (simp add: deliver_at)
  qed
qed simp

text \<open>Every rank receives one shard, from the rank before it.\<close>

lemma run_round_effect:
  fixes d :: "'a::comm_monoid_add ring_data"
  assumes v: "planned_volume n bytes = Inr v" and n: "2 \<le> unat n" "k + 1 < unat n"
    and ph: "ph = ReduceScatter \<or> ph = AllGather" and rs: "r < unat n" "s < unat n"
  defines "prv \<equiv> ago (unat n) r 1"
    and "ts \<equiv> map (plan_transfer n bytes ph (of_nat k) \<circ> of_nat) [0..<unat n]"
  shows "run_round ph ts d r s =
    (if s = (prv + unat n - k + (if ph = AllGather then 1 else 0)) mod unat n
     then (if ph = ReduceScatter then d r s + d prv s else d prv s) else d r s)"
proof -
  note dim = volume_dimensions [OF v]
  note fields = plan_transfer_fields [OF dim(1,2), where k = k and bytes = bytes and ph = ph]
  let ?t = "plan_transfer n bytes ph (of_nat k) (of_nat prv)"
  have prv: "prv < unat n" "(prv + 1) mod unat n = r"
    using rs(1) n ago_less [of "unat n" r 1] next_ago [of r "unat n"] by (simp_all add: prv_def)
  then have t: "?t \<in> set ts" by (auto simp: ts_def)
  have inj: "p = q" if "(p + 1) mod unat n = (q + 1) mod unat n" "p < unat n" "q < unat n" for p q
    using that by (auto simp: mod_if split: if_splits)
  have "distinct (map ring_destination ts)"
  proof (simp add: ts_def distinct_map, rule inj_onI)
    fix p q
    assume pq: "p \<in> {0..<unat n}" "q \<in> {0..<unat n}"
      and "(ring_destination \<circ> (plan_transfer n bytes ph (of_nat k) \<circ> of_nat)) p
        = (ring_destination \<circ> (plan_transfer n bytes ph (of_nat k) \<circ> of_nat)) q"
    then have "(p + 1) mod unat n = (q + 1) mod unat n" using fields(2) [of p] fields(2) [of q] n by simp
    then show "p = q" using pq by (auto intro: inj)
  qed
  note at = deliveries_at [OF t this, of ph d d, unfolded deliver_at]
  have dst: "unat (ring_destination ?t) = r" and src: "unat (ring_source ?t) = prv"
    and sh: "unat (ring_shard ?t) = (prv + unat n - k + (if ph = AllGather then 1 else 0)) mod unat n"
    using fields [of prv] prv n by simp_all
  show ?thesis
  proof (cases "s = unat (ring_shard ?t)")
    case True
    then show ?thesis using at unfolding run_round_def dst src sh by simp
  next
    case False
    have "r \<noteq> unat (ring_destination u) \<or> s \<noteq> unat (ring_shard u)" if "u \<in> set ts" for u
    proof -
      from that obtain p where p: "p < unat n" "u = plan_transfer n bytes ph (of_nat k) (of_nat p)"
        by (auto simp: ts_def)
      show ?thesis
      proof (cases "p = prv")
        case False
        then have "(p + 1) mod unat n \<noteq> r" using inj [of p "prv"] p(1) prv by auto
        then show ?thesis using fields(2) [of p] p n by simp
      qed (use False p in simp)
    qed
    then have "run_round ph ts d r s = d r s" by (simp add: run_round_def deliveries_other)
    then show ?thesis using False sh by simp
  qed
qed

section \<open>The two phases\<close>

text \<open>After \<open>k\<close> rounds of the first phase a rank holds, of a shard \<open>j \<le> k\<close> places before it, the sum over
  the ranks from that shard's own rank up to itself.\<close>

lemma reduce_scatter_state:
  fixes v :: "'a::comm_monoid_add ring_data"
  assumes vol: "planned_volume n bytes = Inr vol" and n: "2 \<le> unat n" and k: "k < unat n"
  shows "\<exists>d. run_rounds n bytes ReduceScatter k v = Inr d \<and>
    (\<forall>r<unat n. \<forall>s<unat n. d r s =
       (if ago (unat n) r s \<le> k then \<Sum>i\<le>ago (unat n) r s. v (ago (unat n) r i) s else v r s))"
  using k
proof (induction k)
  case 0
  then show ?case by (auto simp: ago_if split: if_splits)
next
  case (Suc k)
  let ?N = "unat n"
  obtain d where d: "run_rounds n bytes ReduceScatter k v = Inr d"
    "\<And>r s. r < ?N \<Longrightarrow> s < ?N \<Longrightarrow> d r s = (if ago ?N r s \<le> k then \<Sum>i\<le>ago ?N r s. v (ago ?N r i) s else v r s)"
    using Suc by fastforce
  have k: "k + 1 < ?N" using Suc.prems by simp
  have "run_round ReduceScatter (map (plan_transfer n bytes ReduceScatter (of_nat k) \<circ> of_nat) [0..<?N]) d r s
      = (if ago ?N r s \<le> Suc k then \<Sum>i\<le>ago ?N r s. v (ago ?N r i) s else v r s)" (is "?x = _")
    if rs: "r < ?N" "s < ?N" for r s
  proof -
    let ?p = "ago ?N r 1"
    have p: "?p < ?N" using rs by (simp add: ago_less)
    have x: "?x = (if s = ago ?N ?p k then d r s + d ?p s else d r s)"
      using run_round_effect [OF vol n k _ rs, where ph = ReduceScatter and d = d] by (simp add: ago_def [of _ "ago _ _ _"])
    have shard: "s = ago ?N ?p k \<longleftrightarrow> ago ?N r s = Suc k" using rs k by (auto simp: ago_if split: if_splits)
    show ?thesis
    proof (cases "ago ?N r s = Suc k")
      case True
      then have ps: "ago ?N ?p s = k" using rs k by (auto simp: ago_if split: if_splits)
      have "ago ?N ?p i = ago ?N r (Suc i)" if "i \<le> k" for i using that rs k by (auto simp: ago_if)
      then have "(\<Sum>i\<le>k. v (ago ?N ?p i) s) = (\<Sum>i\<le>k. v (ago ?N r (Suc i)) s)" by simp
      moreover have "ago ?N r 0 = r" using rs by (simp add: ago_if)
      ultimately show ?thesis using x shard True d(2) [OF rs] d(2) [OF p rs(2)] ps
        by (simp add: sum.atMost_Suc_shift del: sum.atMost_Suc)
    next
      case False
      then show ?thesis using x shard d(2) [OF rs] by (auto simp: le_Suc_eq)
    qed
  qed
  then show ?case using d(1) plan_round_transfers [OF vol n k] by simp
qed

text \<open>After \<open>k\<close> rounds of the second phase a rank holds the final value of the \<open>k + 1\<close> shards that end at
  the one after its own.\<close>

lemma all_gather_state:
  fixes dini :: "'a::comm_monoid_add ring_data"
  assumes vol: "planned_volume n bytes = Inr vol" and n: "2 \<le> unat n" and k: "k < unat n"
    and own: "\<And>r. r < unat n \<Longrightarrow> dini r ((r + 1) mod unat n) = full ((r + 1) mod unat n)"
  shows "\<exists>d. run_rounds n bytes AllGather k dini = Inr d \<and>
    (\<forall>r<unat n. \<forall>s<unat n. ago (unat n) ((r + 1) mod unat n) s \<le> k \<longrightarrow> d r s = full s)"
  using k
proof (induction k)
  case 0
  have "s = (r + 1) mod unat n" if "ago (unat n) ((r + 1) mod unat n) s = 0" "s < unat n" "r < unat n" for r s
    using that n by (auto simp: ago_if fwd_if split: if_splits)
  then show ?case using own by (metis le_zero_eq run_rounds.simps(1))
next
  case (Suc k)
  let ?N = "unat n"
  obtain d where d: "run_rounds n bytes AllGather k dini = Inr d"
    "\<And>r s. r < ?N \<Longrightarrow> s < ?N \<Longrightarrow> ago ?N ((r + 1) mod ?N) s \<le> k \<Longrightarrow> d r s = full s"
    using Suc by fastforce
  have k: "k + 1 < ?N" using Suc.prems by simp
  have "run_round AllGather (map (plan_transfer n bytes AllGather (of_nat k) \<circ> of_nat) [0..<?N]) d r s = full s"
    (is "?x = _") if rs: "r < ?N" "s < ?N" and m: "ago ?N ((r + 1) mod ?N) s \<le> Suc k" for r s
  proof -
    let ?p = "ago ?N r 1"
    have p: "?p < ?N" using rs by (simp add: ago_less)
    have fwd: "(?p + 1) mod ?N = r" by (rule next_ago [OF rs(1)])
    then have x: "?x = (if s = ago ?N r k then d ?p s else d r s)"
      using run_round_effect [OF vol n k _ rs, where ph = AllGather and d = d] fwd_ago [OF p, of k] k by simp
    have shard: "s = ago ?N r k \<longleftrightarrow> ago ?N ((r + 1) mod ?N) s = Suc k"
      using rs k by (auto simp: ago_if fwd_if split: if_splits)
    show ?thesis
    proof (cases "ago ?N ((r + 1) mod ?N) s = Suc k")
      case True
      then have "ago ?N ((?p + 1) mod ?N) s = k" unfolding fwd using rs k by (auto simp: ago_if fwd_if split: if_splits)
      then show ?thesis using x shard True d(2) [OF p rs(2)] by simp
    next
      case False
      then show ?thesis using x shard m d(2) [OF rs] by simp
    qed
  qed
  then show ?case using d(1) plan_round_transfers [OF vol n k] by simp
qed

section \<open>Properties of the plan\<close>

lemma plan_shards:
  assumes v: "planned_volume n bytes = Inr v" and k: "k + 1 < unat n"
  shows "(\<lambda>r. unat (ring_shard (plan_transfer n bytes ph (of_nat k) (of_nat r)))) ` {0..<unat n} = {0..<unat n}"
    "inj_on (\<lambda>r. unat (ring_shard (plan_transfer n bytes ph (of_nat k) (of_nat r)))) {0..<unat n}"
proof -
  note dim = volume_dimensions [OF v]
  let ?f = "\<lambda>r. unat (ring_shard (plan_transfer n bytes ph (of_nat k) (of_nat r)))"
  have f: "?f r = ago (unat n) (if ph = AllGather then (r + 1) mod unat n else r) k" if "r < unat n" for r
    using plan_transfer_fields(3) [OF dim(1,2) that, of k bytes ph] k that fwd_ago [OF that, of k]
    by (simp add: Suc_diff_le [symmetric] split: if_splits) (simp add: ago_def)
  show inj: "inj_on ?f {0..<unat n}"
    by (rule inj_onI) (use k in \<open>auto simp: f ago_if fwd_if split: if_splits\<close>)
  have "?f ` {0..<unat n} \<subseteq> {0..<unat n}" using f ago_less dim(1) by auto
  then show "?f ` {0..<unat n} = {0..<unat n}" by (intro endo_inj_surj inj) auto
qed

lemma sum_shares: "0 < n \<Longrightarrow> (\<Sum>s = 0..<n. b div n + (if s < b mod n then 1 else 0)) = (b :: nat)"
proof -
  assume n: "0 < n"
  have "{0..<n} \<inter> {s. s < b mod n} = {0..<b mod n}" using n by (auto intro: order_less_trans [OF _ mod_less_divisor])
  then have "(\<Sum>s = 0..<n. if s < b mod n then 1 else 0) = b mod n"
    by (simp add: sum.If_cases)
  then show ?thesis by (simp add: sum.distrib)
qed

lemma plan_bytes:
  assumes v: "planned_volume n bytes = Inr v" and k: "k + 1 < unat n"
  shows "(\<Sum>t\<leftarrow>map (plan_transfer n bytes ph (of_nat k) \<circ> of_nat) [0..<unat n]. unat (ring_bytes t)) = unat bytes"
proof -
  note dim = volume_dimensions [OF v]
  let ?f = "\<lambda>r. unat (ring_shard (plan_transfer n bytes ph (of_nat k) (of_nat r)))"
  let ?g = "\<lambda>s. unat bytes div unat n + (if s < unat bytes mod unat n then 1 else 0)"
  have "(\<Sum>t\<leftarrow>map (plan_transfer n bytes ph (of_nat k) \<circ> of_nat) [0..<unat n]. unat (ring_bytes t))
      = (\<Sum>r\<leftarrow>[0..<unat n]. ?g (?f r))"
    by (simp add: plan_transfer_size [OF dim(1-3)] o_def)
  also have "\<dots> = (\<Sum>r = 0..<unat n. ?g (?f r))" by (simp add: sum_list_distinct_conv_sum_set)
  also have "\<dots> = sum ?g (?f ` {0..<unat n})" by (simp add: sum.reindex [OF plan_shards(2) [OF v k]])
  also have "\<dots> = unat bytes" unfolding plan_shards(1) [OF v k] by (rule sum_shares [OF dim(1)])
  finally show ?thesis .
qed

text \<open>A round of the ring is a partition of the bytes. In a planned round the ranks send in order, each
  to the rank after it on the ring, no two of them the same shard, and the sizes of the shards sent add up
  to the bytes of the collective.\<close>

theorem ring_round_partition:
  assumes "plan_round n bytes ph round = Inr ts"
  shows "map (unat \<circ> ring_source) ts = [0..<unat n]
    \<and> (\<forall>t\<in>set ts. unat (ring_destination t) = (unat (ring_source t) + 1) mod unat n)
    \<and> distinct (map ring_shard ts) \<and> (unat \<circ> ring_shard) ` set ts = {0..<unat n}
    \<and> (\<Sum>t\<leftarrow>ts. unat (ring_bytes t)) = unat bytes"
proof (rule plan_round_inv [OF assms])
  fix v
  assume v: "planned_volume n bytes = Inr v" and "2 \<le> unat n" and k: "unat round + 1 < unat n"
    and ts: "ts = map (plan_transfer n bytes ph (of_nat (unat round)) \<circ> of_nat) [0..<unat n]"
  note dim = volume_dimensions [OF v]
  note fields = plan_transfer_fields [OF dim(1,2), where k = "unat round" and bytes = bytes and ph = ph]
  have "map (unat \<circ> ring_source) ts = [0..<unat n]" unfolding ts using fields(1) k by (intro nth_equalityI) auto
  moreover have "unat (ring_destination t) = (unat (ring_source t) + 1) mod unat n" if "t \<in> set ts" for t
    using that fields(1,2) k unfolding ts by fastforce
  moreover have "distinct (map unat (map ring_shard ts))" "(unat \<circ> ring_shard) ` set ts = {0..<unat n}"
    using plan_shards [OF v k, of ph] unfolding ts by (simp_all add: distinct_map o_def image_image)
  ultimately show ?thesis using plan_bytes [OF v k, of ph] unfolding ts [symmetric]
    by (auto simp: distinct_map intro: inj_on_imageI2)
qed

theorem ring_round_partition_witness:
  "\<exists>ts. plan_round 3 10 AllGather 1 = Inr ts \<and> map (unat \<circ> ring_source) ts = [0..<3]
    \<and> (\<Sum>t\<leftarrow>ts. unat (ring_bytes t)) = 10"
  using ring_round_partition [of 3 10 AllGather 1] by (auto simp: plan_round_def planned_volume_def word_le_nat_alt)

text \<open>C15. The ring all-reduce is correct. When the planner accepts the dimensions and there are at least two
  ranks, every round of both phases is planned, and executing the planned transfers round by round, adding
  in the reduce-scatter and copying in the all-gather, ends with every rank holding for every shard the sum
  of what all ranks had at the start.\<close>

theorem ring_all_reduce:
  fixes v :: "nat \<Rightarrow> nat \<Rightarrow> 'a::comm_monoid_add"
  assumes "planned_volume n bytes = Inr vol" "2 \<le> unat n"
  shows "\<exists>d. all_reduce n bytes v = Inr d \<and> (\<forall>r<unat n. \<forall>s<unat n. d r s = (\<Sum>i<unat n. v i s))"
proof -
  let ?N = "unat n"
  have last: "?N - 1 < ?N" using assms(2) by simp
  obtain d where d: "run_rounds n bytes ReduceScatter (?N - 1) v = Inr d"
    "\<And>r s. r < ?N \<Longrightarrow> s < ?N \<Longrightarrow> d r s = (if ago ?N r s \<le> ?N - 1 then \<Sum>i\<le>ago ?N r s. v (ago ?N r i) s else v r s)"
    using reduce_scatter_state [OF assms last, of v] by blast
  have own: "d r ((r + 1) mod ?N) = (\<Sum>i<?N. v i ((r + 1) mod ?N))" if "r < ?N" for r
  proof -
    have "ago ?N r ((r + 1) mod ?N) = ?N - 1" using that by (auto simp: fwd_if ago_if)
    moreover have "{..?N - 1} = {..<?N}" using last by auto
    ultimately show ?thesis using d(2) [OF that, of "(r + 1) mod ?N"] that
      by (simp add: sum_ago [OF that, where f = "\<lambda>i. v i (Suc r mod ?N)"])
  qed
  obtain e where "run_rounds n bytes AllGather (?N - 1) d = Inr e"
    "\<forall>r<?N. \<forall>s<?N. ago ?N ((r + 1) mod ?N) s \<le> ?N - 1 \<longrightarrow> e r s = (\<Sum>i<?N. v i s)"
    using all_gather_state [where full = "\<lambda>s. \<Sum>i<?N. v i s" and k = "?N - 1" and dini = d, OF assms last] own by blast
  moreover have "ago ?N x s \<le> ?N - 1" for x s using ago_less [of ?N x s] last by simp
  ultimately show ?thesis using d(1) by (simp add: all_reduce_def)
qed

theorem ring_all_reduce_witness:
  "\<exists>d. all_reduce 4 1000 (\<lambda>r s. int (10 * r + s)) = Inr d \<and> d 2 3 = (\<Sum>i<4. int (10 * i + 3))"
  using ring_all_reduce [of 4 1000 6000 "\<lambda>r s. int (10 * r + s)"]
  by (auto simp: planned_volume_def)

end
