(* ===== verification/Inventory.thy ===== *)
theory Inventory
  imports Topology_Graph
begin

text \<open>
  The scheduler's view of the GPUs of a cluster (\<^verbatim>\<open>scheduling/policy.hpp\<close>,
  \<^verbatim>\<open>scheduling/inventory.cpp\<close>): a vector of resources ordered by GPU, allocation to a job, release,
  health, and the measures of fragmentation and locality. The lemmas characterise a successful allocation
  exactly, relate the inventory to a finite map from GPUs to resources, and show that release undoes
  allocation.
\<close>

section \<open>Standard algorithms\<close>

text \<open>
  \<^verbatim>\<open>std::sort\<close> with a comparator. The orders the sources sort by are free_total on the elements at hand, so
  the result does not depend on the algorithm.
\<close>

fun insert_by :: "('a \<Rightarrow> 'a \<Rightarrow> bool) \<Rightarrow> 'a \<Rightarrow> 'a list \<Rightarrow> 'a list" where
  "insert_by lt x [] = [x]"
| "insert_by lt x (y # ys) = (if lt y x then y # insert_by lt x ys else x # y # ys)"

definition std_sort :: "('a \<Rightarrow> 'a \<Rightarrow> bool) \<Rightarrow> 'a list \<Rightarrow> 'a list" where
  "std_sort lt xs = foldr (insert_by lt) xs []"

text \<open>\<^verbatim>\<open>++m[f(x)]\<close> for every element.\<close>

definition tally_step :: "('a \<Rightarrow> 'k::linorder) \<Rightarrow> 'a \<Rightarrow> ('k, size_t) omap \<Rightarrow> ('k, size_t) omap" where
  "tally_step f x m = omap_put (f x) (case map_of m (f x) of None \<Rightarrow> 1 | Some c \<Rightarrow> c + 1) m"

definition tally :: "('a \<Rightarrow> 'k::linorder) \<Rightarrow> 'a list \<Rightarrow> ('k, size_t) omap" where
  "tally f xs = fold (tally_step f) xs []"

section \<open>The inventory\<close>

record resource =
  res_gpu :: gpu_id
  res_rack :: rack_id
  res_nic :: nic_id
  healthy :: bool
  owner :: "job_id option"

type_synonym inventory = "resource list"

definition new_inventory :: "topology_graph \<Rightarrow> exn + inventory" where
  "new_inventory g =
     (if gpus g = [] \<or> length (gpus g) > 8192
      then Inl (LengthError ''scheduler inventory requires 1..8192 GPUs'')
      else Inr (std_sort (\<lambda>a b. res_gpu a < res_gpu b)
             (map (\<lambda>w. \<lparr>res_gpu = gpu_id w, res_rack = gpu_rack w, res_nic = attached_nic w,
                         healthy = True, owner = None\<rparr>) (gpus g))))"

text \<open>\<^verbatim>\<open>std::lower_bound\<close> on the vector ordered by GPU, as an index.\<close>

definition lower_bound_gpu :: "gpu_id \<Rightarrow> inventory \<Rightarrow> nat" where
  "lower_bound_gpu g rs = length (takeWhile (\<lambda>r. res_gpu r < g) rs)"

fun worker_indices :: "inventory \<Rightarrow> gpu_id set \<Rightarrow> nat list \<Rightarrow> gpu_id list \<Rightarrow> exn + nat list" where
  "worker_indices rs unique indices [] = Inr indices"
| "worker_indices rs unique indices (g # gs) =
     (let found = lower_bound_gpu g rs
      in if found = length rs \<or> res_gpu (rs ! found) \<noteq> g \<or> \<not> healthy (rs ! found)
            \<or> owner (rs ! found) \<noteq> None \<or> g \<in> unique
         then Inl (InvalidArgument ''placement contains unavailable or duplicate GPU'')
         else worker_indices rs (insert g unique) (indices @ [found]) gs)"

definition assign_owner :: "job_id \<Rightarrow> nat \<Rightarrow> inventory \<Rightarrow> inventory" where
  "assign_owner job i rs = rs[i := (rs ! i)\<lparr>owner := Some job\<rparr>]"

definition allocate :: "job_id \<Rightarrow> gpu_id list \<Rightarrow> (inventory, unit) prog" where
  "allocate job workers =
     bind (gets (\<lambda>rs. rs)) (\<lambda>rs.
     seq (throw_if (workers = [] \<or> length workers > length rs \<or> list_ex (\<lambda>r. owner r = Some job) rs)
            (InvalidArgument ''invalid or duplicate allocation''))
     (bind (lift_res (worker_indices rs {} [] workers)) (\<lambda>indices.
      modify (fold (assign_owner job) indices))))"

definition release :: "job_id \<Rightarrow> inventory \<Rightarrow> inventory" where
  "release job rs = map (\<lambda>r. if owner r = Some job then r\<lparr>owner := None\<rparr> else r) rs"

definition set_health :: "gpu_id \<Rightarrow> bool \<Rightarrow> (inventory, job_id option) prog" where
  "set_health g h =
     bind (gets (\<lambda>rs. rs)) (\<lambda>rs.
     let found = lower_bound_gpu g rs
     in seq (throw_if (found = length rs \<or> res_gpu (rs ! found) \<noteq> g) (InvalidArgument ''unknown scheduler GPU''))
        (seq (modify (\<lambda>rs. rs[found := (rs ! found)\<lparr>healthy := h\<rparr>]))
             (gets (\<lambda>rs. owner (rs ! found)))))"

definition available :: "resource \<Rightarrow> bool" where
  "available r \<longleftrightarrow> healthy r \<and> owner r = None"

section \<open>Measures\<close>

definition fragmentation_step ::
  "resource \<Rightarrow> (rack_id, size_t) omap \<times> size_t \<times> size_t \<Rightarrow> (rack_id, size_t) omap \<times> size_t \<times> size_t" where
  "fragmentation_step r st =
     (case st of (free, free_total, largest) \<Rightarrow>
        if healthy r \<and> owner r = None
        then let free' = tally_step res_rack r free
             in (free', free_total + 1, max largest (the (map_of free' (res_rack r))))
        else (free, free_total, largest))"

definition fragmentation :: "inventory \<Rightarrow> size_t" where
  "fragmentation rs =
     (case fold fragmentation_step rs ([], 0, 0) of (_, free_total, largest) \<Rightarrow> size_sub free_total largest)"

record locality =
  loc_racks :: size_t
  loc_nics :: size_t
  cross_rack_ring_edges :: size_t

definition resource_lookup :: "inventory \<Rightarrow> gpu_id \<rightharpoonup> resource" where
  "resource_lookup rs = map_of (map (\<lambda>r. (res_gpu r, r)) rs)"

fun locality_loop ::
  "inventory \<Rightarrow> gpu_id list \<Rightarrow> nat list \<Rightarrow> rack_id set \<times> nic_id set \<times> size_t \<Rightarrow> exn + rack_id set \<times> nic_id set \<times> size_t" where
  "locality_loop rs workers [] acc = Inr acc"
| "locality_loop rs workers (i # is') (rks, ncs, edges) =
     (case resource_lookup rs (workers ! i) of
        None \<Rightarrow> Inl (OutOfRange ''map::at'')
      | Some a \<Rightarrow>
          (case resource_lookup rs (workers ! ((i + 1) mod length workers)) of
             None \<Rightarrow> Inl (OutOfRange ''map::at'')
           | Some b \<Rightarrow>
               locality_loop rs workers is'
                 (insert (res_rack a) rks, insert (res_nic a) ncs,
                  if res_rack a \<noteq> res_rack b then edges + 1 else edges)))"

definition locality_of :: "inventory \<Rightarrow> gpu_id list \<Rightarrow> exn + locality" where
  "locality_of rs workers =
     bindR (locality_loop rs workers [0..<length workers] ({}, {}, 0)) (\<lambda>(rks, ncs, edges).
       Inr \<lparr>loc_racks = card rks, loc_nics = card ncs, cross_rack_ring_edges = edges\<rparr>)"

section \<open>Lemmas on the algorithms\<close>

lemma std_sort_key: "(\<And>a b. lt a b \<longleftrightarrow> key a < (key b :: 'k::linorder)) \<Longrightarrow> std_sort lt xs = sort_key key xs"
proof -
  assume lt: "\<And>a b. lt a b \<longleftrightarrow> key a < key b"
  have "insert_by lt x ys = insort_key key x ys" for x ys
    by (induction ys) (auto simp: lt)
  then have "insert_by lt = insort_key key" by (intro ext)
  then show ?thesis by (simp add: std_sort_def sort_key_def)
qed

lemma mset_insert_by [simp]: "mset (insert_by lt x ys) = add_mset x (mset ys)"
  by (induction ys) auto

lemma mset_std_sort [simp]: "mset (std_sort lt xs) = mset xs"
  by (induction xs) (simp_all add: std_sort_def)

lemma set_std_sort [simp]: "set (std_sort lt xs) = set xs"
  by (rule mset_eq_setD) simp

lemma length_std_sort [simp]: "length (std_sort lt xs) = length xs"
  by (rule mset_eq_length) simp

lemma distinct_map_std_sort [simp]: "distinct (map f (std_sort lt xs)) \<longleftrightarrow> distinct (map f xs)"
proof -
  have "mset (map f (std_sort lt xs)) = mset (map f xs)" by simp
  then show ?thesis by (rule mset_eq_imp_distinct_iff)
qed

lemma tally_step_ok [simp]: "omap_ok m \<Longrightarrow> omap_ok (tally_step f x m)"
  by (simp add: tally_step_def)

lemma map_of_tally_from:
  "map_of (fold (tally_step f) xs m) k =
     (let c = length (filter (\<lambda>x. f x = k) xs)
      in case map_of m k of None \<Rightarrow> if c = 0 then None else Some c | Some d \<Rightarrow> Some (d + c))"
proof (induction xs arbitrary: m)
  case (Cons x xs)
  then show ?case
    by (cases "map_of m k") (auto simp: tally_step_def Let_def split: option.splits)
qed (simp add: Let_def split: option.splits)

lemma map_of_tally:
  "map_of (tally f xs) k = (let c = length (filter (\<lambda>x. f x = k) xs) in if c = 0 then None else Some c)"
  by (simp add: tally_def map_of_tally_from)

lemma omap_ok_tally [simp]: "omap_ok (tally f xs)"
proof -
  have "omap_ok m \<Longrightarrow> omap_ok (fold (tally_step f) xs m)" for m by (induction xs arbitrary: m) simp_all
  then show ?thesis by (simp add: tally_def)
qed

lemma tally_pair:
  "(k, c) \<in> set (tally f xs) \<Longrightarrow> c = length (filter (\<lambda>x. f x = k) xs)"
  using map_of_is_SomeI [OF omap_ok_distinct [OF omap_ok_tally]] map_of_tally [of f xs k]
  by (metis (mono_tags, lifting) option.distinct(1) option.inject)

section \<open>Well-formed inventories\<close>

definition inventory_ok :: "inventory \<Rightarrow> bool" where
  "inventory_ok rs \<longleftrightarrow> sorted_wrt (<) (map res_gpu rs)"

lemma inventory_distinct: "inventory_ok rs \<Longrightarrow> distinct (map res_gpu rs)"
  by (simp add: inventory_ok_def strict_sorted_iff)

lemma inventory_unique: "inventory_ok rs \<Longrightarrow> r \<in> set rs \<Longrightarrow> r' \<in> set rs \<Longrightarrow> res_gpu r = res_gpu r' \<Longrightarrow> r = r'"
  using inventory_distinct by (auto simp: distinct_map dest: inj_onD)

lemma lookup_iff:
  "inventory_ok rs \<Longrightarrow> resource_lookup rs g = Some r \<longleftrightarrow> r \<in> set rs \<and> res_gpu r = g"
  unfolding resource_lookup_def
  by (subst map_of_eq_Some_iff) (auto simp: o_def dest: inventory_distinct)

lemma lookup_None: "resource_lookup rs g = None \<longleftrightarrow> g \<notin> res_gpu ` set rs"
  by (force simp: resource_lookup_def map_of_eq_None_iff)

lemma lower_bound_split:
  assumes "inventory_ok (as @ r # bs)"
  shows "lower_bound_gpu (res_gpu r) (as @ r # bs) = length as"
  using assms by (simp add: lower_bound_gpu_def inventory_ok_def sorted_wrt_append takeWhile_append takeWhile_tail)

text \<open>The binary search finds a GPU exactly when the inventory has it.\<close>

lemma lower_bound_lookup:
  assumes "inventory_ok rs"
  shows "(let i = lower_bound_gpu g rs in if i = length rs \<or> res_gpu (rs ! i) \<noteq> g then None else Some (rs ! i))
    = resource_lookup rs g"
proof (cases "resource_lookup rs g")
  case None
  have "lower_bound_gpu g rs \<le> length rs" by (simp add: lower_bound_gpu_def length_takeWhile_le)
  moreover have "g \<notin> res_gpu ` set rs" using None by (simp add: lookup_None)
  ultimately have "lower_bound_gpu g rs = length rs \<or> res_gpu (rs ! lower_bound_gpu g rs) \<noteq> g"
    by (metis image_eqI le_neq_implies_less nth_mem)
  with None show ?thesis by (simp add: Let_def)
next
  case (Some r)
  then have r: "r \<in> set rs" "res_gpu r = g" using lookup_iff [OF assms] by simp_all
  then obtain as bs where rs: "rs = as @ r # bs" by (auto simp: in_set_conv_decomp)
  with Some r assms show ?thesis by (auto simp: Let_def lower_bound_split)
qed

lemma lower_bound_found:
  assumes "inventory_ok rs" "resource_lookup rs g = Some r"
  shows "lower_bound_gpu g rs < length rs" "rs ! lower_bound_gpu g rs = r"
  using lower_bound_lookup [OF assms(1), of g] assms(2)
  by (auto simp: Let_def lower_bound_gpu_def le_less split: if_splits intro: le_neq_implies_less [OF length_takeWhile_le])

definition claim :: "job_id \<Rightarrow> gpu_id set \<Rightarrow> inventory \<Rightarrow> inventory" where
  "claim job gs rs = map (\<lambda>r. if res_gpu r \<in> gs then r\<lparr>owner := Some job\<rparr> else r) rs"

lemma assign_owner_claim:
  assumes "inventory_ok rs" "resource_lookup rs g = Some r"
  shows "assign_owner job (lower_bound_gpu g rs) (claim job gs rs) = claim job (insert g gs) rs"
proof (rule nth_equalityI)
  fix i assume "i < length (assign_owner job (lower_bound_gpu g rs) (claim job gs rs))"
  then have i: "i < length rs" by (simp add: assign_owner_def claim_def)
  have r: "res_gpu r = g" using lookup_iff [OF assms(1)] assms(2) by simp
  have "i = lower_bound_gpu g rs \<longleftrightarrow> res_gpu (rs ! i) = g"
    using lower_bound_found [OF assms] r i inventory_distinct [OF assms(1)]
    by (metis length_map nth_eq_iff_index_eq nth_map)
  then show "assign_owner job (lower_bound_gpu g rs) (claim job gs rs) ! i = claim job (insert g gs) rs ! i"
    using i lower_bound_found [OF assms] by (auto simp: assign_owner_def claim_def nth_list_update)
qed (simp add: assign_owner_def claim_def)

lemma worker_indices_exact:
  assumes "inventory_ok rs"
  shows "worker_indices rs unique indices gs =
    (if distinct gs \<and> set gs \<inter> unique = {} \<and> (\<forall>g\<in>set gs. \<exists>r. resource_lookup rs g = Some r \<and> available r)
     then Inr (indices @ map (\<lambda>g. lower_bound_gpu g rs) gs)
     else Inl (InvalidArgument ''placement contains unavailable or duplicate GPU''))"
proof (induction gs arbitrary: unique indices)
  case (Cons g gs)
  have "(lower_bound_gpu g rs = length rs \<or> res_gpu (rs ! lower_bound_gpu g rs) \<noteq> g
      \<or> \<not> healthy (rs ! lower_bound_gpu g rs) \<or> owner (rs ! lower_bound_gpu g rs) \<noteq> None)
    \<longleftrightarrow> \<not> (\<exists>r. resource_lookup rs g = Some r \<and> available r)"
    using lower_bound_lookup [OF assms, of g, symmetric]
    by (auto simp: Let_def available_def split: if_splits)
  then show ?case using Cons.IH [of "insert g unique" "indices @ [lower_bound_gpu g rs]"]
    by (auto simp: Let_def)
qed simp

lemma assign_all:
  assumes "inventory_ok rs" "\<forall>g\<in>set gs. \<exists>r. resource_lookup rs g = Some r"
  shows "fold (assign_owner job) (map (\<lambda>g. lower_bound_gpu g rs) gs) (claim job A rs) = claim job (A \<union> set gs) rs"
  using assms(2) by (induction gs arbitrary: A) (auto simp: assign_owner_claim [OF assms(1)])

lemma claim_none [simp]: "claim job {} rs = rs"
  by (simp add: claim_def)

lemma lookup_claim:
  "resource_lookup (claim job A rs) g =
     (if g \<in> A then map_option (\<lambda>r. r\<lparr>owner := Some job\<rparr>) (resource_lookup rs g) else resource_lookup rs g)"
  by (induction rs) (auto simp: resource_lookup_def claim_def)

lemma allocate_result:
  assumes "inventory_ok rs"
  shows "allocate job ws rs =
    (if ws = [] \<or> length ws > length rs \<or> (\<exists>r\<in>set rs. owner r = Some job)
     then (Inl (InvalidArgument ''invalid or duplicate allocation''), rs)
     else if distinct ws \<and> (\<forall>g\<in>set ws. \<exists>r. resource_lookup rs g = Some r \<and> available r)
     then (Inr (), claim job (set ws) rs)
     else (Inl (InvalidArgument ''placement contains unavailable or duplicate GPU''), rs))"
proof -
  have "fold (assign_owner job) (map (\<lambda>g. lower_bound_gpu g rs) ws) rs = claim job (set ws) rs"
    if "\<forall>g\<in>set ws. \<exists>r. resource_lookup rs g = Some r \<and> available r"
    using assign_all [OF assms, of ws job "{}"] that by fastforce
  then show ?thesis
    by (auto simp: allocate_def prog_defs worker_indices_exact [OF assms] list_ex_iff)
qed

lemma allocated_fits:
  assumes "inventory_ok rs" "distinct ws" "\<forall>g\<in>set ws. \<exists>r. resource_lookup rs g = Some r \<and> P r"
  shows "length ws \<le> length rs"
proof -
  have "set ws \<subseteq> res_gpu ` set rs" using assms(3) lookup_iff [OF assms(1)] by fastforce
  then have "card (set ws) \<le> card (set rs)" by (rule surj_card_le [rotated]) simp
  then show ?thesis using distinct_card [OF assms(2)] card_length [of rs] by simp
qed

lemma map_gpu_updates [simp]:
  "map res_gpu (claim job A rs) = map res_gpu rs" "map res_gpu (release job rs) = map res_gpu rs"
  by (auto simp: claim_def release_def)

lemma inventory_ok_updates [simp]:
  "inventory_ok (claim job A rs) = inventory_ok rs" "inventory_ok (release job rs) = inventory_ok rs"
  by (simp_all add: inventory_ok_def)

lemma set_health_result:
  assumes "inventory_ok rs"
  shows "set_health g h rs =
    (case resource_lookup rs g of
       None \<Rightarrow> (Inl (InvalidArgument ''unknown scheduler GPU''), rs)
     | Some r \<Rightarrow> (Inr (owner r), map (\<lambda>r. if res_gpu r = g then r\<lparr>healthy := h\<rparr> else r) rs))"
proof (cases "resource_lookup rs g")
  case None
  then show ?thesis using lower_bound_lookup [OF assms, of g]
    by (auto simp: set_health_def prog_defs Let_def split: if_splits)
next
  case (Some r)
  note found = lower_bound_found [OF assms Some]
  have "res_gpu r = g" using Some lookup_iff [OF assms] by simp
  moreover have "rs[lower_bound_gpu g rs := r\<lparr>healthy := h\<rparr>]
      = map (\<lambda>r. if res_gpu r = g then r\<lparr>healthy := h\<rparr> else r) rs"
  proof (rule nth_equalityI)
    fix i assume "i < length (rs[lower_bound_gpu g rs := r\<lparr>healthy := h\<rparr>])"
    then have i: "i < length rs" by simp
    have "i = lower_bound_gpu g rs \<longleftrightarrow> res_gpu (rs ! i) = g"
      using found \<open>res_gpu r = g\<close> i inventory_distinct [OF assms] by (metis length_map nth_eq_iff_index_eq nth_map)
    then show "rs[lower_bound_gpu g rs := r\<lparr>healthy := h\<rparr>] ! i
        = map (\<lambda>r. if res_gpu r = g then r\<lparr>healthy := h\<rparr> else r) rs ! i"
      using i found by (auto simp: nth_list_update)
  qed simp
  ultimately show ?thesis using Some found by (simp add: set_health_def prog_defs Let_def)
qed

lemma fragmentation_fold:
  "\<exists>l. fold fragmentation_step rs ([], 0, 0) = (tally res_rack (filter available rs), length (filter available rs), l)
     \<and> (\<forall>k. length (filter (\<lambda>r. res_rack r = k) (filter available rs)) \<le> l)
     \<and> (\<exists>k. length (filter (\<lambda>r. res_rack r = k) (filter available rs)) = l)"
proof (induction rs rule: rev_induct)
  case (snoc r rs)
  let ?cnt = "\<lambda>rs k. length (filter (\<lambda>r. res_rack r = k) (filter available rs))"
  obtain l where l: "fold fragmentation_step rs ([], 0, 0) = (tally res_rack (filter available rs), length (filter available rs), l)"
    "\<forall>k. ?cnt rs k \<le> l" "\<exists>k. ?cnt rs k = l" using snoc by blast
  show ?case
  proof (cases "available r")
    case False
    then have "fragmentation_step r st = st" for st by (cases st) (auto simp: fragmentation_step_def available_def)
    then show ?thesis using l False by simp
  next
    case True
    let ?m = "tally_step res_rack r (tally res_rack (filter available rs))"
    have m: "?m = tally res_rack (filter available (rs @ [r]))" using True by (simp add: tally_def)
    then have c: "the (map_of ?m (res_rack r)) = ?cnt (rs @ [r]) (res_rack r)"
      using True by (simp add: map_of_tally Let_def)
    let ?l = "max l (?cnt (rs @ [r]) (res_rack r))"
    have "fold fragmentation_step (rs @ [r]) ([], 0, 0)
        = (tally res_rack (filter available (rs @ [r])), length (filter available (rs @ [r])), ?l)"
      using True c unfolding m [symmetric] by (simp add: l(1) fragmentation_step_def Let_def available_def)
    moreover have "\<forall>k. ?cnt (rs @ [r]) k \<le> ?l" using l(2) True by (auto simp: le_max_iff_disj)
    moreover obtain k where k: "?cnt rs k = l" using l(3) by blast
    moreover have "\<exists>k. ?cnt (rs @ [r]) k = ?l"
    proof (cases "l \<le> ?cnt (rs @ [r]) (res_rack r)")
      case False
      then have "k \<noteq> res_rack r" using k by auto
      then show ?thesis using k False by (intro exI [of _ k]) auto
    qed (auto simp: max_def)
    ultimately show ?thesis by blast
  qed
qed (simp add: tally_def)

section \<open>Sequences of calls\<close>

datatype inventory_call =
    CallAllocate job_id "gpu_id list"
  | CallRelease job_id
  | CallSetHealth gpu_id bool

primrec inventory_call_step :: "inventory_call \<Rightarrow> inventory \<Rightarrow> inventory" where
  "inventory_call_step (CallAllocate job ws) rs = snd (allocate job ws rs)"
| "inventory_call_step (CallRelease job) rs = release job rs"
| "inventory_call_step (CallSetHealth g h) rs = snd (set_health g h rs)"

text \<open>What never changes about a resource.\<close>

definition place_of :: "resource \<Rightarrow> gpu_id \<times> rack_id \<times> nic_id" where
  "place_of r = (res_gpu r, res_rack r, res_nic r)"

lemma places_gpus: "map res_gpu rs = map fst (map place_of rs)"
  by (simp add: place_of_def o_def)

lemma inventory_call_places:
  "inventory_ok rs \<Longrightarrow> map place_of (inventory_call_step c rs) = map place_of rs"
  by (cases c) (auto simp: allocate_result set_health_result claim_def release_def place_of_def split: option.splits)

lemma inventory_ok_places: "map place_of rs = map place_of rs' \<Longrightarrow> inventory_ok rs = inventory_ok rs'"
  by (simp add: inventory_ok_def places_gpus)

lemma inventory_calls_places:
  "inventory_ok rs \<Longrightarrow> map place_of (fold inventory_call_step cs rs) = map place_of rs"
proof (induction cs arbitrary: rs)
  case (Cons c cs)
  then show ?case using inventory_call_places [of rs c] inventory_ok_places [of "inventory_call_step c rs" rs] by simp
qed simp

lemma dense_sorted: "dense idf xs \<Longrightarrow> sorted_wrt (<) (map idf xs)"
  by (simp add: sorted_wrt_iff_nth_less dense_def word_less_nat_alt)

lemma new_inventory_places:
  assumes "graph_ok g" "new_inventory g = Inr rs"
  shows "map place_of rs = map (\<lambda>w. (gpu_id w, gpu_rack w, attached_nic w)) (gpus g)"
proof -
  let ?r = "\<lambda>w. \<lparr>res_gpu = gpu_id w, res_rack = gpu_rack w, res_nic = attached_nic w, healthy = True, owner = None\<rparr>"
  have "dense gpu_id (gpus g)" using assms(1) by (simp add: graph_ok_def ids_ok_def)
  then have "sorted (map res_gpu (map ?r (gpus g)))" using dense_sorted [of gpu_id "gpus g"] by (simp add: o_def strict_sorted_iff)
  then have "sort_key res_gpu (map ?r (gpus g)) = map ?r (gpus g)" by (rule sort_key_id_if_sorted)
  then have "rs = map ?r (gpus g)"
    using assms(2) std_sort_key [of "\<lambda>a b :: resource. res_gpu a < res_gpu b" res_gpu] by (auto simp: new_inventory_def split: if_splits)
  then show ?thesis by (simp add: place_of_def o_def)
qed

lemma new_inventory_length:
  "gpus g \<noteq> [] \<Longrightarrow> length (gpus g) \<le> 8192 \<Longrightarrow> \<exists>rs. new_inventory g = Inr rs \<and> length rs = length (gpus g)"
  by (simp add: new_inventory_def)

section \<open>Properties of the inventory\<close>

text \<open>Allocation has the strong exception guarantee and succeeds exactly when it should. On an
  inventory ordered by GPU, allocating to a job is refused without effect unless the job owns nothing yet
  and the list of workers is non-empty, without repetition and names only GPUs that the inventory holds,
  that are healthy and that nobody owns. It then makes the job the owner of these GPUs and changes
  nothing else.\<close>

theorem allocate_exact:
  assumes "inventory_ok rs"
  shows "case allocate job ws rs of
      (Inr _, rs') \<Rightarrow>
        ws \<noteq> [] \<and> distinct ws \<and> (\<forall>r\<in>set rs. owner r \<noteq> Some job)
        \<and> (\<forall>g\<in>set ws. \<exists>r. resource_lookup rs g = Some r \<and> healthy r \<and> owner r = None)
        \<and> inventory_ok rs'
        \<and> (\<forall>g. resource_lookup rs' g =
             (if g \<in> set ws then map_option (\<lambda>r. r\<lparr>owner := Some job\<rparr>) (resource_lookup rs g)
              else resource_lookup rs g))
    | (Inl e, rs') \<Rightarrow>
        rs' = rs \<and> (ws = [] \<or> \<not> distinct ws \<or> (\<exists>r\<in>set rs. owner r = Some job)
           \<or> (\<exists>g\<in>set ws. \<forall>r. resource_lookup rs g = Some r \<longrightarrow> \<not> (healthy r \<and> owner r = None)))"
  using allocated_fits [OF assms, of ws available] assms
  by (auto simp: allocate_result lookup_claim available_def split: if_splits)

text \<open>C37. Releasing undoes allocating. After a successful allocation to a job, releasing the job gives back
  the inventory exactly as it was, whatever other jobs were released in between.\<close>

theorem release_allocate:
  assumes "inventory_ok rs" "allocate job ws rs = (Inr (), rs')"
  shows "release job rs' = rs \<and> (\<forall>j. release job (release j rs') = release j rs)"
proof -
  from assms have r: "rs' = claim job (set ws) rs" "\<forall>r\<in>set rs. owner r \<noteq> Some job"
    "\<forall>g\<in>set ws. \<exists>r. resource_lookup rs g = Some r \<and> available r"
    by (auto simp: allocate_result split: if_splits)
  have "owner r = None" if "r \<in> set rs" "res_gpu r \<in> set ws" for r
    using r(3) that lookup_iff [OF assms(1), of "res_gpu r" r] by (auto simp: available_def)
  then show ?thesis
    using r(2) by (auto simp: r(1) release_def claim_def o_def intro!: map_idI)
qed

text \<open>The fragmentation of an inventory is the number of healthy unowned GPUs outside the rack that has
  most of them, so it is zero exactly when all of them are on one rack.\<close>

theorem fragmentation_exact:
  "let free = (\<lambda>k. length (filter (\<lambda>r. res_rack r = k) (filter (\<lambda>r. healthy r \<and> owner r = None) rs)))
   in \<exists>k. (\<forall>k'. free k' \<le> free k)
        \<and> fragmentation rs = length (filter (\<lambda>r. healthy r \<and> owner r = None \<and> res_rack r \<noteq> k) rs)"
proof -
  let ?F = "filter available rs"
  let ?free = "\<lambda>k. length (filter (\<lambda>r. res_rack r = k) ?F)"
  obtain l where l: "fold fragmentation_step rs ([], 0, 0) = (tally res_rack ?F, length ?F, l)"
    "\<forall>k. ?free k \<le> l" "\<exists>k. ?free k = l"
    using fragmentation_fold by blast
  then obtain k where k: "?free k = l" by blast
  have "length ?F = ?free k + length (filter (\<lambda>r. res_rack r \<noteq> k) ?F)" 
    using sum_length_filter_compl [of "\<lambda>r. res_rack r = k" ?F] by simp
  then have "fragmentation rs = length (filter (\<lambda>r. res_rack r \<noteq> k) ?F)"
    using l(1) k by (simp add: fragmentation_def)
  moreover have "?F = filter (\<lambda>r. healthy r \<and> owner r = None) rs" by (rule filter_cong) (simp_all add: available_def)
  ultimately show ?thesis using l(2) k unfolding Let_def
    by (intro exI [of _ k]) (simp add: available_def conj_ac)
qed

text \<open>C38. The inventory stays the inventory of its topology. Built from the graph that any calls on an empty
  topology graph leave, and after any sequence of allocations, releases and health changes, accepted or
  refused, it holds every GPU of the graph exactly once, in the order of the identifiers, with the rack and
  the NIC the graph gives it.\<close>

theorem inventory_invariant:
  assumes "new_inventory (fold graph_call_step gs empty_graph) = Inr rs"
  shows "let rs' = fold inventory_call_step cs rs
    in inventory_ok rs' \<and> map (\<lambda>r. (res_gpu r, res_rack r, res_nic r)) rs'
        = map (\<lambda>w. (gpu_id w, gpu_rack w, attached_nic w)) (gpus (fold graph_call_step gs empty_graph))"
proof -
  let ?g = "fold graph_call_step gs empty_graph"
  have g: "graph_ok ?g" by (rule graph_calls_ok [OF empty_graph_ok])
  note places = new_inventory_places [OF g assms]
  have "dense gpu_id (gpus ?g)" using g by (simp add: graph_ok_def ids_ok_def)
  then have ok: "inventory_ok rs" using dense_sorted by (simp add: inventory_ok_def places_gpus places o_def)
  have "map place_of (fold inventory_call_step cs rs) = map place_of rs" by (rule inventory_calls_places [OF ok])
  moreover from this have "inventory_ok (fold inventory_call_step cs rs)" using ok inventory_ok_places by blast
  moreover have "place_of = (\<lambda>r. (res_gpu r, res_rack r, res_nic r))" by (intro ext) (simp add: place_of_def)
  ultimately show ?thesis using places by (simp add: Let_def)
qed

theorem inventory_invariant_witness:
  "let g = fold graph_call_step [CallAddRack, CallAddNic 0, CallAddGpu 0, CallAddGpu 0] empty_graph;
       rs = (case new_inventory g of Inr rs \<Rightarrow> rs | Inl _ \<Rightarrow> [])
   in length rs = 2 \<and> map res_gpu (fold inventory_call_step [CallAllocate 5 [1], CallSetHealth 0 False] rs) = map gpu_id (gpus g)"
proof -
  let ?g = "fold graph_call_step [CallAddRack, CallAddNic 0, CallAddGpu 0, CallAddGpu 0] empty_graph"
  have "length (gpus ?g) = 2" by code_simp
  then obtain rs where rs: "new_inventory ?g = Inr rs" "length rs = 2" using new_inventory_length [of ?g] by fastforce
  let ?cs = "[CallAllocate 5 [1], CallSetHealth 0 False]"
  have "map fst (map (\<lambda>r. (res_gpu r, res_rack r, res_nic r)) (fold inventory_call_step ?cs rs))
      = map fst (map (\<lambda>w. (gpu_id w, gpu_rack w, attached_nic w)) (gpus ?g))"
    using inventory_invariant [OF rs(1), of ?cs] unfolding Let_def by (metis (no_types, lifting))
  then have "map res_gpu (fold inventory_call_step ?cs rs) = map gpu_id (gpus ?g)"
    unfolding map_map by (simp only: o_def fst_conv)
  then show ?thesis unfolding Let_def rs(1) sum.case using rs(2) by blast
qed

definition sample_inventory :: inventory where
  "sample_inventory = map (\<lambda>i. \<lparr>res_gpu = i, res_rack = i div 2, res_nic = i, healthy = i \<noteq> 3,
     owner = if i = 0 then Some 7 else None\<rparr>) [0, 1, 2, 3, 4]"

theorem allocate_exact_witness:
  "inventory_ok sample_inventory \<and> (\<exists>rs'. allocate 9 [2, 4] sample_inventory = (Inr (), rs')
     \<and> resource_lookup rs' 4 = Some \<lparr>res_gpu = 4, res_rack = 2, res_nic = 4, healthy = True, owner = Some 9\<rparr>)"
proof -
  have ok: "inventory_ok sample_inventory" by (simp add: inventory_ok_def sample_inventory_def)
  obtain rs' where rs': "allocate 9 [2, 4] sample_inventory = (Inr (), rs')"
    by (simp add: allocate_result [OF ok]) (simp add: sample_inventory_def resource_lookup_def available_def)
  show ?thesis using ok allocate_exact [OF ok, where job = 9 and ws = "[2, 4]"] rs'
    by (simp add: sample_inventory_def resource_lookup_def)
qed

theorem release_allocate_witness:
  "release 9 (snd (allocate 9 [2, 4] sample_inventory)) = sample_inventory
    \<and> fst (allocate 9 [2, 4] sample_inventory) = Inr ()"
proof -
  have ok: "inventory_ok sample_inventory" by (simp add: inventory_ok_def sample_inventory_def)
  obtain rs' where rs': "allocate 9 [2, 4] sample_inventory = (Inr (), rs')"
    by (simp add: allocate_result [OF ok]) (simp add: sample_inventory_def resource_lookup_def available_def)
  show ?thesis using release_allocate [OF ok rs'] rs' by simp
qed

end
