(* ===== verification/Placement.thy ===== *)
theory Placement
  imports Inventory
begin

text \<open>
  The placement policies of the scheduler (\<^verbatim>\<open>scheduling/policy.hpp\<close>, \<^verbatim>\<open>scheduling/policy.cpp\<close>): pinned
  requests, and the first-fit, random, rack-local and compact orders in which free GPUs are handed out. A
  locale states what a client may rely on when a policy answers with a placement; the built-in policies are
  shown to provide it.
\<close>

section \<open>Requests and placements\<close>

record job_request =
  req_job :: job_id
  req_workers :: u32
  req_priority :: u32
  req_pinned :: "gpu_id list"

datatype placement_outcome = Placed | Waiting | Rejected

record placement =
  pl_outcome :: placement_outcome
  pl_workers :: "gpu_id list"
  pl_reason :: string

record builtin_policy =
  policy_name :: string
  policy_seed :: u64

definition mix_stage :: "nat \<Rightarrow> u64 \<Rightarrow> u64" where
  "mix_stage n v = xor v (drop_bit n v)"

definition mix :: "u64 \<Rightarrow> u64" where
  "mix v =
     (let v1 = mix_stage 30 v * 0xbf58476d1ce4e5b9;
          v2 = mix_stage 27 v1 * 0x94d049bb133111eb
      in mix_stage 31 v2)"

section \<open>Pinned requests\<close>

fun pinned_loop :: "inventory \<Rightarrow> gpu_id set \<Rightarrow> bool \<Rightarrow> gpu_id list \<Rightarrow> bool option" where
  "pinned_loop rs unique blocked [] = Some blocked"
| "pinned_loop rs unique blocked (g # gs) =
     (case resource_lookup rs g of
        None \<Rightarrow> None
      | Some r \<Rightarrow>
          if g \<in> unique then None
          else pinned_loop rs (insert g unique) (blocked \<or> \<not> healthy r \<or> owner r \<noteq> None) gs)"

definition pinned :: "job_request \<Rightarrow> inventory \<Rightarrow> placement" where
  "pinned req rs =
     (case pinned_loop rs {} False (req_pinned req) of
        None \<Rightarrow> \<lparr>pl_outcome = Rejected, pl_workers = [], pl_reason = ''invalid pinned GPU list''\<rparr>
      | Some True \<Rightarrow> \<lparr>pl_outcome = Waiting, pl_workers = [], pl_reason = ''pinned GPUs unavailable''\<rparr>
      | Some False \<Rightarrow> \<lparr>pl_outcome = Placed, pl_workers = req_pinned req, pl_reason = ''pinned rank order''\<rparr>)"

section \<open>Orders of the free GPUs\<close>

text \<open>\<^verbatim>\<open>map::at\<close> on the counts of the free GPUs' own racks and NICs, which are all present.\<close>

definition count_at :: "('k, size_t) omap \<Rightarrow> 'k \<Rightarrow> size_t" where
  "count_at m k = (case map_of m k of None \<Rightarrow> 0 | Some c \<Rightarrow> c)"

definition compact_less :: "(rack_id, size_t) omap \<Rightarrow> (nic_id, size_t) omap \<Rightarrow> resource \<Rightarrow> resource \<Rightarrow> bool" where
  "compact_less rks ncs a b =
     (if res_rack a \<noteq> res_rack b
      then (if count_at rks (res_rack a) \<noteq> count_at rks (res_rack b)
            then count_at rks (res_rack a) > count_at rks (res_rack b)
            else res_rack a < res_rack b)
      else if res_nic a \<noteq> res_nic b
      then (if count_at ncs (res_nic a) \<noteq> count_at ncs (res_nic b)
            then count_at ncs (res_nic a) > count_at ncs (res_nic b)
            else res_nic a < res_nic b)
      else res_gpu a < res_gpu b)"

definition compact :: "inventory \<Rightarrow> inventory" where
  "compact free = std_sort (compact_less (tally res_rack free) (tally res_nic free)) free"

definition rack_local :: "u32 \<Rightarrow> inventory \<Rightarrow> inventory" where
  "rack_local cnt free =
     (case find (\<lambda>(_, c). c \<ge> unat cnt) (tally res_rack free) of
        None \<Rightarrow> free
      | Some (rk, _) \<Rightarrow> filter (\<lambda>r. res_rack r = rk) free @ filter (\<lambda>r. res_rack r \<noteq> rk) free)"

definition random_score :: "u64 \<Rightarrow> job_id \<Rightarrow> gpu_id \<Rightarrow> u64" where
  "random_score seed job g = mix (xor (xor seed (mix (job + 0x9e3779b97f4a7c15))) (mix g))"

definition random_less :: "u64 \<Rightarrow> job_id \<Rightarrow> resource \<Rightarrow> resource \<Rightarrow> bool" where
  "random_less seed job a b =
     (let left = random_score seed job (res_gpu a); right = random_score seed job (res_gpu b)
      in if left \<noteq> right then left < right else res_gpu a < res_gpu b)"

definition order :: "builtin_policy \<Rightarrow> job_request \<Rightarrow> inventory \<Rightarrow> inventory" where
  "order p req free =
     (let sorted_free = std_sort (\<lambda>a b. res_gpu a < res_gpu b) free
      in if policy_name p = ''random'' then std_sort (random_less (policy_seed p) (req_job req)) sorted_free
         else if policy_name p = ''rack-local'' then rack_local (req_workers req) sorted_free
         else if policy_name p = ''compact'' then compact sorted_free
         else sorted_free)"

definition place :: "builtin_policy \<Rightarrow> job_request \<Rightarrow> inventory \<Rightarrow> placement" where
  "place p req rs =
     (if req_workers req = 0 \<or> unat (req_workers req) > length rs
         \<or> req_pinned req \<noteq> [] \<and> length (req_pinned req) \<noteq> unat (req_workers req)
      then \<lparr>pl_outcome = Rejected, pl_workers = [],
            pl_reason = ''request exceeds physical capacity or has invalid dimensions''\<rparr>
      else if req_pinned req \<noteq> [] then pinned req rs
      else let free = filter (\<lambda>r. healthy r \<and> owner r = None) rs
           in if length free < unat (req_workers req)
              then \<lparr>pl_outcome = Waiting, pl_workers = [], pl_reason = ''insufficient free healthy GPUs''\<rparr>
              else \<lparr>pl_outcome = Placed,
                    pl_workers = map (\<lambda>i. res_gpu (order p req free ! i)) [0..<unat (req_workers req)],
                    pl_reason = policy_name p @ '' deterministic rank order''\<rparr>)"

definition make_policy :: "string \<Rightarrow> u64 \<Rightarrow> exn + builtin_policy" where
  "make_policy name seed =
     (if name \<noteq> ''first-fit'' \<and> name \<noteq> ''random'' \<and> name \<noteq> ''rack-local'' \<and> name \<noteq> ''compact''
      then Inl (InvalidArgument ''unknown scheduling policy'')
      else Inr \<lparr>policy_name = name, policy_seed = seed\<rparr>)"

section \<open>What a placement promises\<close>

definition grants :: "job_request \<Rightarrow> inventory \<Rightarrow> gpu_id list \<Rightarrow> bool" where
  "grants req rs ws \<longleftrightarrow>
     ws \<noteq> [] \<and> length ws = unat (req_workers req) \<and> distinct ws
     \<and> (\<forall>g\<in>set ws. \<exists>r. resource_lookup rs g = Some r \<and> available r)
     \<and> (req_pinned req \<noteq> [] \<longrightarrow> ws = req_pinned req)"

locale placing_policy =
  fixes plc :: "job_request \<Rightarrow> inventory \<Rightarrow> placement"
  assumes placed_grants: "inventory_ok rs \<Longrightarrow> pl_outcome (plc req rs) = Placed \<Longrightarrow> grants req rs (pl_workers (plc req rs))"
    and refused_empty: "pl_outcome (plc req rs) \<noteq> Placed \<Longrightarrow> pl_workers (plc req rs) = []"
begin

lemma placed_allocates:
  assumes "inventory_ok rs" "pl_outcome (plc req rs) = Placed" "\<forall>r\<in>set rs. owner r \<noteq> Some (req_job req)"
  shows "allocate (req_job req) (pl_workers (plc req rs)) rs
    = (Inr (), claim (req_job req) (set (pl_workers (plc req rs))) rs)"
proof -
  have g: "grants req rs (pl_workers (plc req rs))" by (rule placed_grants [OF assms(1,2)])
  then have "length (pl_workers (plc req rs)) \<le> length rs"
    by (intro allocated_fits [OF assms(1)]) (auto simp: grants_def)
  then show ?thesis using g assms(3) by (auto simp: allocate_result [OF assms(1)] grants_def)
qed

end

section \<open>The built-in policies\<close>

lemma mset_order: "mset (order p req free) = mset free"
proof -
  have "mset (rack_local c xs) = mset xs" for c xs
    by (auto simp: rack_local_def split: option.splits)
  then show ?thesis by (simp add: order_def Let_def compact_def)
qed

lemmas order_same = mset_eq_setD [OF mset_order] mset_eq_length [OF mset_order]

lemma distinct_order: "distinct (map f (order p req free)) \<longleftrightarrow> distinct (map f free)"
proof -
  have "mset (map f (order p req free)) = mset (map f free)" by (simp add: mset_order)
  then show ?thesis by (rule mset_eq_imp_distinct_iff)
qed

lemma first_workers:
  "n \<le> length xs \<Longrightarrow> map (\<lambda>i. f (xs ! i)) [0..<n] = map f (take n xs)"
  by (intro nth_equalityI) auto

lemma pinned_loop_exact:
  assumes "inventory_ok rs"
  shows "pinned_loop rs unique blocked gs =
    (if distinct gs \<and> set gs \<inter> unique = {} \<and> set gs \<subseteq> res_gpu ` set rs
     then Some (blocked \<or> (\<exists>g\<in>set gs. \<forall>r. resource_lookup rs g = Some r \<longrightarrow> \<not> available r))
     else None)"
proof (induction gs arbitrary: unique blocked)
  case (Cons g gs)
  show ?case
  proof (cases "resource_lookup rs g")
    case None
    then have "g \<notin> res_gpu ` set rs" by (simp add: lookup_None)
    then show ?thesis using None by auto
  next
    case (Some r)
    then have "g \<in> res_gpu ` set rs" by (metis lookup_None option.distinct(1))
    then show ?thesis using Some Cons.IH [of "insert g unique" "blocked \<or> \<not> healthy r \<or> owner r \<noteq> None"]
      by (auto simp: available_def)
  qed
qed simp

lemma available_filter: "filter (\<lambda>r. healthy r \<and> owner r = None) rs = filter available rs"
  by (rule filter_cong) (simp_all add: available_def)

lemma place_unpinned:
  assumes "req_pinned req = []" "req_workers req \<noteq> 0" "unat (req_workers req) \<le> length (filter available rs)"
  shows "pl_outcome (place p req rs) = Placed"
    "pl_workers (place p req rs) = map res_gpu (take (unat (req_workers req)) (order p req (filter available rs)))"
proof -
  have "unat (req_workers req) \<le> length rs" using assms(3) length_filter_le [of available rs] by linarith
  then show "pl_outcome (place p req rs) = Placed"
    "pl_workers (place p req rs) = map res_gpu (take (unat (req_workers req)) (order p req (filter available rs)))"
    using assms by (simp_all add: place_def Let_def available_filter first_workers order_same)
qed

lemma place_grants:
  assumes "inventory_ok rs" "pl_outcome (place p req rs) = Placed"
  shows "grants req rs (pl_workers (place p req rs))"
proof (cases "req_pinned req = []")
  case True
  let ?n = "unat (req_workers req)" and ?free = "filter available rs"
  have n: "req_workers req \<noteq> 0" "?n \<le> length ?free"
    using assms(2) True by (auto simp: place_def Let_def available_filter split: if_splits)
  note ws = place_unpinned(2) [OF True n, of p]
  have "distinct (map res_gpu (order p req ?free))"
    unfolding distinct_order using inventory_distinct [OF assms(1)] by (simp add: distinct_map_filter)
  then have "distinct (pl_workers (place p req rs))" by (simp add: ws take_map [symmetric] distinct_take)
  moreover have "\<exists>r. resource_lookup rs g = Some r \<and> available r" if "g \<in> set (pl_workers (place p req rs))" for g
    using that lookup_iff [OF assms(1)] by (fastforce simp: ws order_same dest: in_set_takeD)
  moreover have "length (pl_workers (place p req rs)) = ?n" using n by (simp add: ws order_same)
  ultimately show ?thesis using True n(1) by (auto simp: grants_def unat_eq_0)
next
  case False
  then have pin: "place p req rs = pinned req rs" "length (req_pinned req) = unat (req_workers req)"
    using assms(2) by (auto simp: place_def split: if_splits)
  have ex: "\<exists>r. resource_lookup rs g = Some r" if "g \<in> res_gpu ` set rs" for g
    using that lookup_None [of rs g] by auto
  have "pinned_loop rs {} False (req_pinned req) = Some False" and "pl_workers (place p req rs) = req_pinned req"
    using assms(2) unfolding pin(1) by (auto simp: pinned_def split: option.splits bool.splits)
  then show ?thesis using False pin(2) ex by (fastforce simp: grants_def pinned_loop_exact [OF assms(1)] split: if_splits)
qed

interpretation builtin: placing_policy "place p" for p
proof unfold_locales
  show "grants req rs (pl_workers (place p req rs))" if "inventory_ok rs" "pl_outcome (place p req rs) = Placed" for rs req
    by (rule place_grants [OF that])
  show "pl_workers (place p req rs) = []" if "pl_outcome (place p req rs) \<noteq> Placed" for req rs
    using that by (auto simp: place_def pinned_def Let_def split: if_splits option.splits bool.splits)
qed

subsection \<open>Placing on one rack\<close>

definition compact_key ::
  "(rack_id, size_t) omap \<Rightarrow> (nic_id, size_t) omap \<Rightarrow> resource \<Rightarrow> (int \<times> rack_id) \<times> (int \<times> nic_id) \<times> gpu_id" where
  "compact_key rks ncs r =
     ((- int (count_at rks (res_rack r)), res_rack r), (- int (count_at ncs (res_nic r)), res_nic r), res_gpu r)"

lemma compact_less_key: "compact_less rks ncs a b \<longleftrightarrow> compact_key rks ncs a < compact_key rks ncs b"
  by (auto simp: compact_less_def compact_key_def less_prod_def')

lemma sorted_split:
  assumes "sorted (map f xs)" "\<And>x y. x \<in> set xs \<Longrightarrow> y \<in> set xs \<Longrightarrow> Q x \<Longrightarrow> \<not> Q y \<Longrightarrow> f x < (f y :: 'b::linorder)"
  shows "xs = filter Q xs @ filter (\<lambda>x. \<not> Q x) xs"
  using assms
proof (induction xs)
  case (Cons x xs)
  have tl: "xs = filter Q xs @ filter (\<lambda>x. \<not> Q x) xs" using Cons by simp
  show ?case
  proof (cases "Q x")
    case False
    then have "filter Q xs = []" using Cons.prems by (force simp: filter_empty_conv)
    then show ?thesis using False tl by simp
  qed (use tl in simp)
qed simp

lemma take_front:
  "n \<le> length (filter Q xs) \<Longrightarrow> x \<in> set (take n (filter Q xs @ ys)) \<Longrightarrow> Q x"
  by (auto dest: in_set_takeD)

lemma count_at_tally [simp]: "count_at (tally f xs) k = length (filter (\<lambda>x. f x = k) xs)"
  by (simp add: count_at_def map_of_tally Let_def)

lemma compact_front:
  assumes "n \<le> length (filter (\<lambda>r. res_rack r = rk) free)" "0 < n"
  shows "\<exists>rk'. \<forall>r\<in>set (take n (compact free)). res_rack r = rk'"
proof -
  let ?cnt = "\<lambda>k. length (filter (\<lambda>r. res_rack r = k) free)"
  let ?key = "compact_key (tally res_rack free) (tally res_nic free)"
  have c: "compact free = sort_key ?key free"
    unfolding compact_def by (rule std_sort_key) (rule compact_less_key)
  have ne: "free \<noteq> []" using assms by auto
  define x where "x = hd (compact free)"
  have xs: "compact free \<noteq> []" using ne unfolding c by (metis length_0_conv length_sort)
  then have x: "x \<in> set free" unfolding x_def c by (metis hd_in_set set_sort)
  have min: "?key x \<le> ?key y" if "y \<in> set free" for y
  proof -
    obtain t where t: "compact free = x # t" using xs unfolding x_def by (cases "compact free") auto
    have "sorted (map ?key (compact free))" unfolding c by (rule sorted_sort_key)
    moreover have "y \<in> set (compact free)" using that unfolding c by simp
    ultimately show ?thesis unfolding t by auto
  qed
  have "filter (\<lambda>r. res_rack r = rk) free \<noteq> []" using assms by auto
  then obtain z where z: "z \<in> set free" "res_rack z = rk" by (auto simp: filter_empty_conv)
  have big: "n \<le> ?cnt (res_rack x)"
    using min [OF z(1)] assms(1) z(2) by (auto simp: compact_key_def less_eq_prod_def split: if_splits)
  have front: "compact free = filter (\<lambda>r. res_rack r = res_rack x) (compact free) @ filter (\<lambda>r. res_rack r \<noteq> res_rack x) (compact free)"
  proof (rule sorted_split [where f = ?key])
    show "sorted (map ?key (compact free))" unfolding c by (rule sorted_sort_key)
    fix a b assume "a \<in> set (compact free)" "b \<in> set (compact free)" "res_rack a = res_rack x" "res_rack b \<noteq> res_rack x"
    then have "fst (?key x) < fst (?key b)" "fst (?key a) = fst (?key x)"
      using min [of b] unfolding c by (auto simp: compact_key_def less_eq_prod_def less_prod_def')
    then show "?key a < ?key b" by (simp add: less_prod_def')
  qed
  have "length (filter (\<lambda>r. res_rack r = res_rack x) (compact free)) = ?cnt (res_rack x)"
    unfolding c filter_sort by simp
  then have len: "n \<le> length (filter (\<lambda>r. res_rack r = res_rack x) (compact free))" using big by simp
  have "\<forall>r\<in>set (take n (compact free)). res_rack r = res_rack x"
    by (subst front) (use take_front [OF len] in blast)
  then show ?thesis by blast
qed

lemma rack_local_front:
  assumes "unat w \<le> length (filter (\<lambda>r. res_rack r = rk) free)" "w \<noteq> 0"
  shows "\<exists>rk'. \<forall>r\<in>set (take (unat w) (rack_local w free)). res_rack r = rk'"
proof -
  have "map_of (tally res_rack free) rk = Some (length (filter (\<lambda>r. res_rack r = rk) free))"
    using assms by (auto simp: map_of_tally Let_def unat_eq_0)
  then have "(rk, length (filter (\<lambda>r. res_rack r = rk) free)) \<in> set (tally res_rack free)" by (rule map_of_SomeD)
  then have "find (\<lambda>(_, c). c \<ge> unat w) (tally res_rack free) \<noteq> None"
    using assms(1) by (auto simp: find_None_iff)
  then obtain k c where f: "find (\<lambda>(_, c). c \<ge> unat w) (tally res_rack free) = Some (k, c)" by auto
  then have "(k, c) \<in> set (tally res_rack free)" "unat w \<le> c"
    by (auto simp: find_Some_iff) (metis nth_mem)
  then have "unat w \<le> length (filter (\<lambda>r. res_rack r = k) free)" using tally_pair by metis
  then show ?thesis unfolding rack_local_def f option.case prod.case
    using take_front [of "unat w" "\<lambda>r. res_rack r = k" free] by blast
qed

section \<open>Properties of placement\<close>

text \<open>C16. A placement can be carried out. When a built-in policy places a request on an ordered inventory, it
  names as many workers as requested, all different, healthy and unowned, in the pinned order when there is
  one; for a job that owns nothing, allocating exactly these workers succeeds and makes the job the owner of
  them and of nothing else. A request that is not placed names no worker.\<close>

theorem placement_sound:
  assumes "inventory_ok rs" "\<forall>r\<in>set rs. owner r \<noteq> Some (req_job req)"
  shows "let pl = place p req rs; ws = pl_workers pl
    in if pl_outcome pl = Placed
       then length ws = unat (req_workers req) \<and> distinct ws \<and> (req_pinned req \<noteq> [] \<longrightarrow> ws = req_pinned req)
         \<and> (\<forall>g\<in>set ws. \<exists>r\<in>set rs. res_gpu r = g \<and> healthy r \<and> owner r = None)
         \<and> (\<exists>rs'. allocate (req_job req) ws rs = (Inr (), rs')
              \<and> {res_gpu r |r. r \<in> set rs' \<and> owner r = Some (req_job req)} = set ws)
       else ws = []"
proof (cases "pl_outcome (place p req rs) = Placed")
  case True
  let ?ws = "pl_workers (place p req rs)"
  have g: "grants req rs ?ws" by (rule builtin.placed_grants [OF assms(1) True])
  have mem: "\<exists>r\<in>set rs. res_gpu r = g \<and> healthy r \<and> owner r = None" if "g \<in> set ?ws" for g
    using g that lookup_iff [OF assms(1)] by (auto simp: grants_def available_def)
  have "{res_gpu r |r. r \<in> set (claim (req_job req) (set ?ws) rs) \<and> owner r = Some (req_job req)} = set ?ws"
  proof (rule set_eqI)
    fix g
    have "r \<in> set (claim (req_job req) (set ?ws) rs) \<and> owner r = Some (req_job req)
        \<longleftrightarrow> (\<exists>r'\<in>set rs. res_gpu r' \<in> set ?ws \<and> r = r'\<lparr>owner := Some (req_job req)\<rparr>)" for r
      using assms(2) by (auto simp: claim_def split: if_splits)
    then show "g \<in> {res_gpu r |r. r \<in> set (claim (req_job req) (set ?ws) rs) \<and> owner r = Some (req_job req)}
        \<longleftrightarrow> g \<in> set ?ws"
      using mem [of g] by (auto 0 3 intro: exI [of _ "_\<lparr>owner := Some (req_job req)\<rparr>"])
  qed
  then show ?thesis using True g mem builtin.placed_allocates [OF assms(1) True assms(2)]
    by (simp add: Let_def grants_def)
qed (simp add: Let_def builtin.refused_empty)

text \<open>C39. The outcome of a request does not depend on the policy. A request of no workers, of more workers than
  there are GPUs, or with a pinned list of another length, with an unknown or a repeated GPU is rejected; of
  the others a pinned request is placed exactly when its GPUs are all healthy and unowned, and a request
  without pins exactly when enough GPUs are; otherwise it waits.\<close>

theorem place_outcome_exact:
  assumes "inventory_ok rs"
  shows "pl_outcome (place p req rs) =
    (if req_workers req = 0 \<or> length rs < unat (req_workers req)
        \<or> req_pinned req \<noteq> [] \<and> (length (req_pinned req) \<noteq> unat (req_workers req)
            \<or> \<not> distinct (req_pinned req) \<or> \<not> set (req_pinned req) \<subseteq> res_gpu ` set rs)
     then Rejected
     else if (if req_pinned req = [] then unat (req_workers req) \<le> card {r \<in> set rs. healthy r \<and> owner r = None}
              else \<forall>r\<in>set rs. res_gpu r \<in> set (req_pinned req) \<longrightarrow> healthy r \<and> owner r = None)
     then Placed else Waiting)"
proof -
  have "length (filter available rs) = card {r \<in> set rs. healthy r \<and> owner r = None}"
    using distinct_card [of "filter available rs"] inventory_distinct [OF assms]
    by (auto simp: available_def distinct_map)
  moreover have "(\<exists>g\<in>set gs. \<forall>r. resource_lookup rs g = Some r \<longrightarrow> \<not> available r)
      \<longleftrightarrow> \<not> (\<forall>r\<in>set rs. res_gpu r \<in> set gs \<longrightarrow> healthy r \<and> owner r = None)" if "set gs \<subseteq> res_gpu ` set rs" for gs
  proof -
    have l: "resource_lookup rs (res_gpu r) = Some r" if "r \<in> set rs" for r using that lookup_iff [OF assms] by simp
    have "(\<exists>g\<in>set gs. \<forall>r. resource_lookup rs g = Some r \<longrightarrow> \<not> available r)
        \<longleftrightarrow> (\<exists>r\<in>set rs. res_gpu r \<in> set gs \<and> \<not> available r)"
    proof
      assume "\<exists>g\<in>set gs. \<forall>r. resource_lookup rs g = Some r \<longrightarrow> \<not> available r"
      then obtain g where g: "g \<in> set gs" "\<forall>r. resource_lookup rs g = Some r \<longrightarrow> \<not> available r" by blast
      with that obtain r where "r \<in> set rs" "res_gpu r = g" by blast
      then show "\<exists>r\<in>set rs. res_gpu r \<in> set gs \<and> \<not> available r" using g l by auto
    next
      assume "\<exists>r\<in>set rs. res_gpu r \<in> set gs \<and> \<not> available r"
      then obtain r where r: "r \<in> set rs" "res_gpu r \<in> set gs" "\<not> available r" by blast
      then show "\<exists>g\<in>set gs. \<forall>r. resource_lookup rs g = Some r \<longrightarrow> \<not> available r"
        using l by (intro bexI [of _ "res_gpu r"]) auto
    qed
    then show ?thesis by (simp add: available_def)
  qed
  ultimately have free: "length (filter available rs) = card {r \<in> set rs. healthy r \<and> owner r = None}"
    and pins: "set (req_pinned req) \<subseteq> res_gpu ` set rs \<Longrightarrow>
      (\<exists>g\<in>set (req_pinned req). \<forall>r. resource_lookup rs g = Some r \<longrightarrow> \<not> available r)
      \<longleftrightarrow> \<not> (\<forall>r\<in>set rs. res_gpu r \<in> set (req_pinned req) \<longrightarrow> healthy r \<and> owner r = None)" by blast+
  have "pl_outcome (pinned req rs) =
      (if distinct (req_pinned req) \<and> set (req_pinned req) \<subseteq> res_gpu ` set rs
       then if \<forall>r\<in>set rs. res_gpu r \<in> set (req_pinned req) \<longrightarrow> healthy r \<and> owner r = None then Placed else Waiting
       else Rejected)"
    by (simp add: pinned_def pinned_loop_exact [OF assms] pins split: bool.split)
  then show ?thesis
    unfolding place_def Let_def available_filter by (auto simp: free not_less)
qed

text \<open>C40. The rack-local and the compact policy keep a job on one rack whenever one rack can hold it: if some
  rack has at least as many healthy unowned GPUs as a request without pins asks for, all the workers placed
  are on the same rack.\<close>

theorem place_single_rack:
  assumes "inventory_ok rs" "policy_name p = ''rack-local'' \<or> policy_name p = ''compact''"
    and "req_pinned req = []" "req_workers req \<noteq> 0"
    and "unat (req_workers req) \<le> length (filter (\<lambda>r. res_rack r = rk \<and> healthy r \<and> owner r = None) rs)"
  shows "pl_outcome (place p req rs) = Placed
    \<and> (\<exists>rk'. \<forall>r\<in>set rs. res_gpu r \<in> set (pl_workers (place p req rs)) \<longrightarrow> res_rack r = rk')"
proof -
  let ?n = "unat (req_workers req)"
  let ?free = "std_sort (\<lambda>a b. res_gpu a < res_gpu b) (filter available rs)"
  have "mset (filter (\<lambda>r. res_rack r = rk) ?free) = filter_mset (\<lambda>r. res_rack r = rk) (filter_mset available (mset rs))"
    by simp
  also have "\<dots> = mset (filter (\<lambda>r. res_rack r = rk \<and> healthy r \<and> owner r = None) rs)"
    unfolding filter_filter_mset mset_filter by (rule filter_mset_cong) (auto simp: available_def)
  finally have eq: "length (filter (\<lambda>r. res_rack r = rk) ?free)
      = length (filter (\<lambda>r. res_rack r = rk \<and> healthy r \<and> owner r = None) rs)" by (rule mset_eq_length)
  then have n: "?n \<le> length (filter (\<lambda>r. res_rack r = rk) ?free)" using assms(5) by simp
  then have fits: "?n \<le> length (filter available rs)" using length_filter_le [of "\<lambda>r. res_rack r = rk" ?free] by simp
  note ws = place_unpinned [OF assms(3,4) fits, of p]
  have "0 < ?n" using assms(4) by (simp add: unat_gt_0)
  then obtain rk' where rk': "\<forall>r\<in>set (take ?n (order p req (filter available rs))). res_rack r = rk'"
  proof -
    have "order p req (filter available rs) = rack_local (req_workers req) ?free
        \<or> order p req (filter available rs) = compact ?free" using assms(2) by (auto simp: order_def Let_def)
    then show thesis using that rack_local_front [OF n assms(4)] compact_front [OF n \<open>0 < ?n\<close>] by metis
  qed
  have "res_rack r = rk'" if "r \<in> set rs" "res_gpu r \<in> set (pl_workers (place p req rs))" for r
  proof -
    from that(2) obtain r' where r': "r' \<in> set (take ?n (order p req (filter available rs)))" "res_gpu r' = res_gpu r"
      by (auto simp: ws)
    then have "r' \<in> set rs" using order_same(1) [of p req "filter available rs"] in_set_takeD by fastforce
    then show ?thesis using inventory_unique [OF assms(1) that(1)] r' rk' by metis
  qed
  then show ?thesis using ws(1) by blast
qed

text \<open>Requests on the sample inventory: GPUs 1, 2 and 4 are free, on three racks.\<close>

definition sample_request :: job_request where
  "sample_request = \<lparr>req_job = 9, req_workers = 2, req_priority = 0, req_pinned = []\<rparr>"

lemma sample_inventory_ok: "inventory_ok sample_inventory" "\<forall>r\<in>set sample_inventory. owner r \<noteq> Some 9"
  by (simp_all add: inventory_ok_def sample_inventory_def)

theorem placement_sound_witness:
  "let pl = place \<lparr>policy_name = ''compact'', policy_seed = 0\<rparr> sample_request sample_inventory
   in pl_outcome pl = Placed \<and> (\<exists>rs'. allocate 9 (pl_workers pl) sample_inventory = (Inr (), rs'))"
proof -
  let ?pl = "place \<lparr>policy_name = ''compact'', policy_seed = 0\<rparr> sample_request sample_inventory"
  have "pl_outcome ?pl = Placed" by code_simp
  then show ?thesis
    using placement_sound [of sample_inventory sample_request "\<lparr>policy_name = ''compact'', policy_seed = 0\<rparr>"]
      sample_inventory_ok by (auto simp: Let_def sample_request_def)
qed

theorem place_outcome_exact_witness:
  "inventory_ok sample_inventory \<and>
   pl_outcome (place \<lparr>policy_name = ''random'', policy_seed = 3\<rparr> (sample_request\<lparr>req_pinned := [0, 1]\<rparr>) sample_inventory) = Waiting"
  using place_outcome_exact [OF sample_inventory_ok(1), of "\<lparr>policy_name = ''random'', policy_seed = 3\<rparr>"
      "sample_request\<lparr>req_pinned := [0, 1]\<rparr>"] sample_inventory_ok(1)
  by (simp add: sample_request_def sample_inventory_def)

theorem place_single_rack_witness:
  "let rs = release 7 sample_inventory; p = \<lparr>policy_name = ''compact'', policy_seed = 0\<rparr>
   in pl_outcome (place p sample_request rs) = Placed
    \<and> (\<exists>rk. \<forall>r\<in>set rs. res_gpu r \<in> set (pl_workers (place p sample_request rs)) \<longrightarrow> res_rack r = rk)"
  unfolding Let_def
  by (rule place_single_rack [where rk = 0])
    (simp_all add: sample_request_def sample_inventory_def release_def inventory_ok_def)

end
