(* ===== verification/Walks.thy ===== *)
theory Walks
  imports Prelude
begin

text \<open>
  Breadth-first search on a graph given by the arcs that leave each node: paths as lists of arcs, the level
  of a node (its distance from the start), and the invariant of a search that keeps a queue of nodes to
  expand. The locale states what a graph has to provide; the two searches of the sources (shortest-path
  summaries and route enumeration) use its lemmas through their own interpretations.
\<close>

section \<open>Loops over a list of arcs\<close>

text \<open>An invariant of a loop over a list that depends on the part already gone through.\<close>

lemma wp_for_each_prefix:
  assumes "\<And>pre x post t. xs = pre @ x # post \<Longrightarrow> I pre t \<Longrightarrow> wp (f x) (\<lambda>_. I (pre @ [x])) E t" and "I [] s"
  shows "wp (for_each f xs) (\<lambda>_. I xs) E s"
proof -
  have "wp (for_each f ys) (\<lambda>_. I xs) E t" if "xs = pre @ ys" "I pre t" for pre ys t
    using that
  proof (induction ys arbitrary: pre t)
    case Nil
    then show ?case by (simp add: wp_return)
  next
    case (Cons y ys)
    have "wp (f y) (\<lambda>_. I (pre @ [y])) E t" using assms(1) Cons.prems by blast
    then have "wp (f y) (\<lambda>_. wp (for_each f ys) (\<lambda>_. I xs) E) E t"
      by (rule wp_mono) (use Cons in auto)
    then show ?case by (simp add: wp_seq)
  qed
  from this [of "[]" xs s] show ?thesis using assms(2) by simp
qed

lemma seq_return [simp]: "seq (return ()) m = m"
  by (simp add: seq_def bind_def return_def)

text \<open>An iteration that does nothing can be left out.\<close>

lemma for_each_filter:
  "(\<And>x. x \<in> set xs \<Longrightarrow> \<not> Q x \<Longrightarrow> f x = return ()) \<Longrightarrow> for_each f xs = for_each f (filter Q xs)"
  by (induction xs) simp_all

section \<open>Paths and levels\<close>

fun is_path :: "('n \<Rightarrow> 'a list) \<Rightarrow> ('a \<Rightarrow> 'n) \<Rightarrow> 'n \<Rightarrow> 'a list \<Rightarrow> 'n \<Rightarrow> bool" where
  "is_path arcs hd_of s [] t \<longleftrightarrow> s = t"
| "is_path arcs hd_of s (a # as) t \<longleftrightarrow> a \<in> set (arcs s) \<and> is_path arcs hd_of (hd_of a) as t"

definition level :: "('n \<Rightarrow> 'a list) \<Rightarrow> ('a \<Rightarrow> 'n) \<Rightarrow> 'n \<Rightarrow> 'n \<Rightarrow> nat \<Rightarrow> bool" where
  "level arcs hd_of s t h \<longleftrightarrow>
     (\<exists>as. is_path arcs hd_of s as t \<and> length as = h) \<and> (\<forall>as. is_path arcs hd_of s as t \<longrightarrow> h \<le> length as)"

text \<open>The paths of a given length, and those among them that end with an arc of a given set.\<close>

definition paths_of :: "('n \<Rightarrow> 'a list) \<Rightarrow> ('a \<Rightarrow> 'n) \<Rightarrow> 'n \<Rightarrow> 'n \<Rightarrow> nat \<Rightarrow> 'a list set" where
  "paths_of arcs hd_of s t h = {as. is_path arcs hd_of s as t \<and> length as = h}"

definition paths_via :: "('n \<Rightarrow> 'a list) \<Rightarrow> ('a \<Rightarrow> 'n) \<Rightarrow> 'a set \<Rightarrow> 'n \<Rightarrow> 'n \<Rightarrow> nat \<Rightarrow> 'a list set" where
  "paths_via arcs hd_of A s t h = {as \<in> paths_of arcs hd_of s t h. as = [] \<or> last as \<in> A}"

lemma is_path_append:
  "is_path arcs hd_of s (as @ bs) t \<longleftrightarrow> (\<exists>u. is_path arcs hd_of s as u \<and> is_path arcs hd_of u bs t)"
  by (induction as arbitrary: s) auto

lemma level_unique: "level arcs hd_of s t h \<Longrightarrow> level arcs hd_of s t k \<Longrightarrow> h = k"
  unfolding level_def by (metis le_antisym)

lemma level_exists: "is_path arcs hd_of s as t \<Longrightarrow> \<exists>h\<le>length as. level arcs hd_of s t h"
proof -
  assume p: "is_path arcs hd_of s as t"
  let ?P = "\<lambda>h. \<exists>as. is_path arcs hd_of s as t \<and> length as = h"
  have ex: "?P (length as)" using p by blast
  then have "?P (LEAST h. ?P h)" by (rule LeastI)
  moreover have "(LEAST h. ?P h) \<le> h" if "?P h" for h using that by (rule Least_le)
  ultimately show ?thesis unfolding level_def using p by (intro exI [of _ "LEAST h. ?P h"]) blast
qed

lemma level_self: "level arcs hd_of s s 0"
  unfolding level_def by (intro conjI exI [of _ "[]"]) auto

lemma finite_paths_of: "finite (paths_of arcs hd_of s t h)"
proof (induction h arbitrary: s)
  case 0
  have "paths_of arcs hd_of s t 0 \<subseteq> {[]}" by (auto simp: paths_of_def)
  then show ?case by (rule finite_subset) simp
next
  case (Suc h)
  have "paths_of arcs hd_of s t (Suc h) \<subseteq> (\<Union>a\<in>set (arcs s). (#) a ` paths_of arcs hd_of (hd_of a) t h)"
    by (auto simp: paths_of_def length_Suc_conv)
  then show ?case by (rule finite_subset) (simp add: Suc)
qed

lemma finite_paths_via: "finite (paths_via arcs hd_of A s t h)"
  by (rule finite_subset [OF _ finite_paths_of]) (auto simp: paths_via_def)

section \<open>The search\<close>

text \<open>
  \<open>searching arcs hd_of s H q A\<close>: the nodes seen so far have their level in \<open>H\<close>; \<open>q\<close> holds those that
  still have arcs to follow, in the order of their levels, which differ by at most one; \<open>A\<close> holds the arcs
  followed so far, among them all arcs of the nodes seen that are not in \<open>q\<close>.
\<close>

definition searching ::
  "('n \<Rightarrow> 'a list) \<Rightarrow> ('a \<Rightarrow> 'n) \<Rightarrow> 'n \<Rightarrow> ('n \<rightharpoonup> nat) \<Rightarrow> 'n list \<Rightarrow> 'a set \<Rightarrow> bool" where
  "searching arcs hd_of s H q A \<longleftrightarrow>
     H s = Some 0 \<and> (\<forall>v h. H v = Some h \<longrightarrow> level arcs hd_of s v h)
     \<and> set q \<subseteq> dom H \<and> sorted (map (the \<circ> H) q) \<and> (\<forall>v\<in>set q. the (H v) \<le> Suc (the (H (hd q))))
     \<and> (\<forall>v\<in>dom H - set q. set (arcs v) \<subseteq> A)
     \<and> (\<forall>a\<in>A. hd_of a \<in> dom H)"

locale arc_graph =
  fixes arcs :: "'n \<Rightarrow> 'a list" and hd_of tl_of :: "'a \<Rightarrow> 'n" and nodes :: "'n set"
  assumes tl_arc: "a \<in> set (arcs n) \<Longrightarrow> tl_of a = n"
    and hd_arc: "a \<in> set (arcs n) \<Longrightarrow> hd_of a \<in> nodes"
    and finite_nodes: "finite nodes"
begin

lemma path_snoc:
  "is_path arcs hd_of s (as @ [a]) t
   \<longleftrightarrow> is_path arcs hd_of s as (tl_of a) \<and> a \<in> set (arcs (tl_of a)) \<and> hd_of a = t"
  by (auto simp: is_path_append dest: tl_arc)

lemma level_pred:
  assumes "level arcs hd_of s t (Suc h)"
  obtains a where "level arcs hd_of s (tl_of a) h" "a \<in> set (arcs (tl_of a))" "hd_of a = t"
proof -
  obtain cs where cs: "is_path arcs hd_of s cs t" "length cs = Suc h" using assms by (auto simp: level_def)
  then obtain as a where "cs = as @ [a]" "length as = h" by (cases cs rule: rev_cases) auto
  then have p: "is_path arcs hd_of s as (tl_of a)" "a \<in> set (arcs (tl_of a))" "hd_of a = t" "length as = h"
    using cs path_snoc by auto
  have "h \<le> length bs" if "is_path arcs hd_of s bs (tl_of a)" for bs
  proof -
    have "is_path arcs hd_of s (bs @ [a]) t" using that p by (simp add: path_snoc)
    then show ?thesis using assms by (fastforce simp: level_def)
  qed
  then have "level arcs hd_of s (tl_of a) h" using p by (auto simp: level_def)
  then show thesis using p that by blast
qed

lemma level_step:
  assumes "level arcs hd_of s u h" "a \<in> set (arcs u)" "level arcs hd_of s (hd_of a) k"
  shows "k \<le> Suc h"
proof -
  obtain as where "is_path arcs hd_of s as u" "length as = h" using assms by (auto simp: level_def)
  then have "is_path arcs hd_of s (as @ [a]) (hd_of a)" using assms(2) tl_arc by (simp add: path_snoc)
  then show ?thesis using assms(3) \<open>length as = h\<close> by (fastforce simp: level_def)
qed

text \<open>Every node up to the level of the first queued node has been seen, and below it completely followed.\<close>

lemma seen_level:
  assumes S: "searching arcs hd_of s H (p # q) A" and p: "H p = Some l"
  shows "level arcs hd_of s v h \<Longrightarrow> h \<le> l \<Longrightarrow> H v = Some h"
proof (induction h arbitrary: v)
  case 0
  then have "v = s" by (auto simp: level_def)
  then show ?case using S by (simp add: searching_def)
next
  case (Suc h)
  obtain a where a: "level arcs hd_of s (tl_of a) h" "a \<in> set (arcs (tl_of a))" "hd_of a = v"
    using Suc.prems(1) by (rule level_pred)
  have u: "H (tl_of a) = Some h" using Suc.IH [OF a(1)] Suc.prems by simp
  have "tl_of a \<notin> set (p # q)"
  proof
    assume "tl_of a \<in> set (p # q)"
    then have "l \<le> h" using S p u by (auto simp: searching_def)
    then show False using Suc.prems by simp
  qed
  then have "v \<in> dom H" using S u a unfolding searching_def by blast
  then obtain k where "H v = Some k" by blast
  then show ?case using S Suc.prems(1) by (metis level_unique searching_def)
qed

lemma searching_start: "searching arcs hd_of s [s \<mapsto> 0] [s] {}"
  by (simp add: searching_def level_self)

text \<open>Following an arc of the first node in the queue: its head has been seen or is seen now.\<close>

lemma searching_seen:
  assumes "searching arcs hd_of s H (p # q) A" "hd_of a \<in> dom H"
  shows "searching arcs hd_of s H (p # q) (insert a A)"
  using assms by (auto simp: searching_def)

lemma searching_new:
  assumes S: "searching arcs hd_of s H (p # q) A" and p: "H p = Some l"
    and a: "a \<in> set (arcs p)" "hd_of a \<notin> dom H"
  shows "searching arcs hd_of s (H(hd_of a \<mapsto> Suc l)) (p # q @ [hd_of a]) (insert a A)"
proof -
  have tl: "tl_of a = p" using a(1) by (rule tl_arc)
  have lp: "level arcs hd_of s p l" using S p by (simp add: searching_def)
  then obtain as where as: "is_path arcs hd_of s as p" "length as = l" by (auto simp: level_def)
  then have "is_path arcs hd_of s (as @ [a]) (hd_of a)" using a(1) tl by (simp add: path_snoc)
  from level_exists [OF this] obtain h where h: "level arcs hd_of s (hd_of a) h" by blast
  have "\<not> h \<le> l" using seen_level [OF S p h] a(2) by auto
  moreover have "h \<le> Suc l" by (rule level_step [OF lp a(1) h])
  ultimately have lv: "level arcs hd_of s (hd_of a) (Suc l)" using h by (simp add: le_Suc_eq)
  have other: "v \<in> set (p # q) \<Longrightarrow> v \<noteq> hd_of a" for v using S a(2) by (auto simp: searching_def)
  have keep: "map (the \<circ> H(hd_of a \<mapsto> Suc l)) (p # q) = map (the \<circ> H) (p # q)" using other by auto
  have spread: "the (H v) \<le> Suc l" if "v \<in> set (p # q)" for v using S p that by (auto simp: searching_def)
  have "sorted (map (the \<circ> H(hd_of a \<mapsto> Suc l)) ((p # q) @ [hd_of a]))"
    unfolding map_append keep using S spread by (auto simp: searching_def sorted_append)
  moreover have "\<forall>v\<in>set (p # q @ [hd_of a]). the ((H(hd_of a \<mapsto> Suc l)) v) \<le> Suc (the ((H(hd_of a \<mapsto> Suc l)) p))"
    using spread p other by auto
  moreover have "s \<noteq> hd_of a" using S a(2) by (auto simp: searching_def)
  ultimately show ?thesis using S lv unfolding searching_def by (auto simp: dom_def)
qed

lemma searching_pop:
  assumes S: "searching arcs hd_of s H (p # q) A" and fin: "set (arcs p) \<subseteq> A"
  shows "searching arcs hd_of s H q A"
proof -
  have "the (H v) \<le> Suc (the (H (hd q)))" if "v \<in> set q" for v
  proof -
    have "the (H p) \<le> the (H (hd q))" using S that by (cases q) (auto simp: searching_def)
    then show ?thesis using S that by (fastforce simp: searching_def)
  qed
  then show ?thesis using S fin unfolding searching_def by auto
qed

lemma searching_finished:
  assumes "searching arcs hd_of s H [] A"
  shows "H v = Some h \<longleftrightarrow> level arcs hd_of s v h"
proof
  assume lv: "level arcs hd_of s v h"
  have closed: "hd_of a \<in> dom H" if "u \<in> dom H" "a \<in> set (arcs u)" for u a
    using assms that by (fastforce simp: searching_def)
  have "t \<in> dom H" if "is_path arcs hd_of u as t" "u \<in> dom H" for u as t
    using that
  proof (induction as arbitrary: u)
    case (Cons a as)
    then have "is_path arcs hd_of (hd_of a) as t" "hd_of a \<in> dom H" using closed [of u a] by simp_all
    then show ?case by (rule Cons.IH)
  qed simp
  moreover obtain as where "is_path arcs hd_of s as v" using lv by (auto simp: level_def)
  moreover have "s \<in> dom H" using assms by (auto simp: searching_def)
  ultimately obtain k where "H v = Some k" by blast
  then show "H v = Some h" using assms lv by (metis level_unique searching_def)
qed (use assms in \<open>simp add: searching_def\<close>)

subsection \<open>Counting shortest paths\<close>

lemma all_paths_followed:
  assumes S: "searching arcs hd_of s H (p # q) A" and p: "H p = Some l"
  shows "paths_via arcs hd_of A s p l = paths_of arcs hd_of s p l"
proof -
  have "as = [] \<or> last as \<in> A" if as: "as \<in> paths_of arcs hd_of s p l" for as
  proof (cases as rule: rev_cases)
    case (snoc bs a)
    then have b: "is_path arcs hd_of s bs (tl_of a)" "a \<in> set (arcs (tl_of a))" "hd_of a = p" "l = Suc (length bs)"
      using as by (auto simp: paths_of_def path_snoc)
    obtain k where k: "level arcs hd_of s (tl_of a) k" "k \<le> length bs" using level_exists [OF b(1)] by blast
    then have u: "H (tl_of a) = Some k" using seen_level [OF S p k(1)] b(4) by simp
    have "tl_of a \<notin> set (p # q)"
    proof
      assume "tl_of a \<in> set (p # q)"
      then have "l \<le> k" using S p u by (auto simp: searching_def)
      then show False using k b(4) by simp
    qed
    then have "a \<in> A" using S u b(2) by (auto simp: searching_def)
    then show ?thesis using snoc by simp
  qed simp
  then show ?thesis by (auto simp: paths_via_def)
qed

lemma paths_via_step:
  assumes "a \<notin> A" "a \<in> set (arcs p)" "hd_of a = v"
  shows "card (paths_via arcs hd_of (insert a A) s v (Suc h))
    = card (paths_via arcs hd_of A s v (Suc h)) + card (paths_of arcs hd_of s p h)"
proof -
  let ?new = "(\<lambda>as. as @ [a]) ` paths_of arcs hd_of s p h"
  have tl: "tl_of a = p" using assms(2) by (rule tl_arc)
  have "paths_via arcs hd_of (insert a A) s v (Suc h) = paths_via arcs hd_of A s v (Suc h) \<union> ?new"
  proof (rule set_eqI)
    fix as
    show "as \<in> paths_via arcs hd_of (insert a A) s v (Suc h) \<longleftrightarrow> as \<in> paths_via arcs hd_of A s v (Suc h) \<union> ?new"
      by (cases as rule: rev_cases) (use assms tl in \<open>auto simp: paths_via_def paths_of_def path_snoc\<close>)
  qed
  moreover have "paths_via arcs hd_of A s v (Suc h) \<inter> ?new = {}" using assms(1) by (auto simp: paths_via_def)
  moreover have "card ?new = card (paths_of arcs hd_of s p h)" by (rule card_image) (auto intro: inj_onI)
  ultimately show ?thesis by (simp add: card_Un_disjoint finite_paths_via finite_paths_of)
qed

lemma paths_via_skip:
  assumes "level arcs hd_of s p l" "h \<noteq> Suc l" "level arcs hd_of s v h" "a \<in> set (arcs p)" "hd_of a = v"
  shows "paths_via arcs hd_of (insert a A) s v h = paths_via arcs hd_of A s v h"
proof -
  have "h \<le> l" using level_step [OF assms(1,4)] assms(2,3,5) by fastforce
  have "last as \<noteq> a" if "as \<in> paths_of arcs hd_of s v h" "as \<noteq> []" for as
  proof
    assume "last as = a"
    with that(2) obtain bs where "as = bs @ [a]" by (metis append_butlast_last_id)
    then have "is_path arcs hd_of s bs p" "Suc (length bs) = h"
      using that(1) tl_arc [OF assms(4)] by (auto simp: paths_of_def path_snoc)
    then show False using assms(1) \<open>h \<le> l\<close> by (fastforce simp: level_def)
  qed
  then show ?thesis by (auto simp: paths_via_def)
qed

lemma paths_via_other:
  "hd_of a \<noteq> v \<Longrightarrow> paths_via arcs hd_of (insert a A) s v h = paths_via arcs hd_of A s v h"
proof -
  assume "hd_of a \<noteq> v"
  then have "last as \<noteq> a" if "as \<in> paths_of arcs hd_of s v h" "as \<noteq> []" for as
    using that by (cases as rule: rev_cases) (auto simp: paths_of_def path_snoc)
  then show ?thesis by (auto simp: paths_via_def)
qed

end

section \<open>Graphs whose arcs come in opposite pairs\<close>

locale symmetric_graph = arc_graph +
  assumes opposite: "a \<in> set (arcs n) \<Longrightarrow> \<exists>b\<in>set (arcs (hd_of a)). hd_of b = n"
begin

lemma path_back: "is_path arcs hd_of s as t \<Longrightarrow> \<exists>bs. is_path arcs hd_of t bs s \<and> length bs = length as"
proof (induction as arbitrary: s)
  case Nil
  then show ?case by (intro exI [of _ "[]"]) simp
next
  case (Cons a as)
  then have a: "a \<in> set (arcs s)" and "is_path arcs hd_of (hd_of a) as t" by simp_all
  then obtain bs where bs: "is_path arcs hd_of t bs (hd_of a)" "length bs = length as" using Cons.IH by blast
  obtain b where b: "b \<in> set (arcs (hd_of a))" "hd_of b = s" using opposite [OF a] by blast
  then have "is_path arcs hd_of t (bs @ [b]) s" using bs tl_arc by (simp add: path_snoc)
  then show ?case using bs by (intro exI [of _ "bs @ [b]"]) simp
qed

lemma level_back: "level arcs hd_of s t h \<Longrightarrow> level arcs hd_of t s h"
  unfolding level_def using path_back by metis

lemma level_sym: "level arcs hd_of s t h \<longleftrightarrow> level arcs hd_of t s h"
  using level_back by blast

text \<open>An arc from a node at distance \<open>Suc h\<close> to one that is closer leads to a node at distance \<open>h\<close>.\<close>

lemma closer_level:
  assumes "level arcs hd_of t u k" "a \<in> set (arcs u)" "level arcs hd_of t (hd_of a) h" "h < k"
  shows "k = Suc h"
proof -
  obtain b where "b \<in> set (arcs (hd_of a))" "hd_of b = u" using opposite [OF assms(2)] by blast
  then have "k \<le> Suc h" using level_step [OF assms(3)] assms(1) by blast
  then show ?thesis using assms(4) by simp
qed

end

end
