(* ===== verification/Shortest_Paths.thy ===== *)
theory Shortest_Paths
  imports Topology_Graph Walks
begin

text \<open>
  Shortest-path queries of the topology graph (\<^verbatim>\<open>shortest_path_summary\<close>, \<^verbatim>\<open>shortest_hops\<close> and
  \<^verbatim>\<open>reachable\<close> of \<^verbatim>\<open>topology/graph.cpp\<close>): a breadth-first search over the operational directed links
  that keeps, for every node seen, its hops from the source and the number of shortest paths to it. A node
  not seen yet, which the source marks with the largest hop count, has no entry here.
\<close>

section \<open>The search\<close>

record path_metrics =
  hops :: size_t
  path_count :: u64

record search_state =
  pending :: "node_id list"
  metrics :: "node_id \<rightharpoonup> path_metrics"

record path_summary =
  summary_hops :: size_t
  equal_cost_paths :: u64

definition relax_arc :: "topology_graph \<Rightarrow> bool \<Rightarrow> path_metrics \<Rightarrow> directed_link \<Rightarrow> (search_state, unit) prog" where
  "relax_arc g count_equal cur d =
     (if \<not> is_operational g d then return ()
      else case find_port g (arc_destination d) of
        None \<Rightarrow> return ()
      | Some p \<Rightarrow>
          bind (gets (\<lambda>st. metrics st (port_owner p))) (\<lambda>nxt.
          case nxt of
            None \<Rightarrow>
              modify (\<lambda>st. st\<lparr>metrics := (metrics st)(port_owner p \<mapsto> \<lparr>hops = hops cur + 1, path_count = path_count cur\<rparr>),
                              pending := pending st @ [port_owner p]\<rparr>)
          | Some m \<Rightarrow>
              perform_if (count_equal \<and> hops m = hops cur + 1)
                (seq (throw_if (u64_max - path_count m < path_count cur)
                        (OverflowError ''equal-cost shortest-path count overflow''))
                     (modify (\<lambda>st. st\<lparr>metrics := (metrics st)(port_owner p \<mapsto> m\<lparr>path_count := path_count m + path_count cur\<rparr>)\<rparr>)))))"

definition expand_next :: "topology_graph \<Rightarrow> bool \<Rightarrow> (search_state, unit) prog" where
  "expand_next g count_equal =
     bind (gets (hd \<circ> pending)) (\<lambda>node.
     seq (modify (\<lambda>st. st\<lparr>pending := tl (pending st)\<rparr>))
     (bind (gets (\<lambda>st. the (metrics st node))) (\<lambda>cur.
      bind (lift_res (outgoing g node)) (for_each (relax_arc g count_equal cur)))))"

definition initial_search :: "node_id \<Rightarrow> search_state" where
  "initial_search src = \<lparr>pending = [src], metrics = [src \<mapsto> \<lparr>hops = 0, path_count = 1\<rparr>]\<rparr>"

definition shortest_path_summary_impl :: "topology_graph \<Rightarrow> node_id \<Rightarrow> node_id \<Rightarrow> bool \<Rightarrow> exn + path_summary option" where
  "shortest_path_summary_impl g src dst count_equal =
     (if \<not> contains_node g src \<or> \<not> contains_node g dst
      then Inl (InvalidArgument ''cannot find a path involving an unknown topology node'')
      else if \<not> node_is_operational g src \<or> \<not> node_is_operational g dst then Inr None
      else case while_prog (\<lambda>st. pending st \<noteq> []) (expand_next g count_equal) (initial_search src) of
        (Inl e, _) \<Rightarrow> Inl e
      | (Inr _, st) \<Rightarrow>
          Inr (map_option (\<lambda>m. \<lparr>summary_hops = hops m, equal_cost_paths = path_count m\<rparr>) (metrics st dst)))"

definition shortest_path_summary :: "topology_graph \<Rightarrow> node_id \<Rightarrow> node_id \<Rightarrow> exn + path_summary option" where
  "shortest_path_summary g src dst = shortest_path_summary_impl g src dst True"

definition shortest_hops :: "topology_graph \<Rightarrow> node_id \<Rightarrow> node_id \<Rightarrow> exn + size_t option" where
  "shortest_hops g src dst =
     bindR (shortest_path_summary_impl g src dst False) (\<lambda>s. Inr (map_option summary_hops s))"

definition reachable :: "topology_graph \<Rightarrow> node_id \<Rightarrow> node_id \<Rightarrow> exn + bool" where
  "reachable g src dst = bindR (shortest_hops g src dst) (\<lambda>h. Inr (h \<noteq> None))"

section \<open>The graph that is searched\<close>

text \<open>The operational directed links that leave a node, and their end points.\<close>

definition arc_tail :: "topology_graph \<Rightarrow> directed_link \<Rightarrow> node_id" where
  "arc_tail g d = port_owner (the (find_port g (arc_source d)))"

definition arc_head :: "topology_graph \<Rightarrow> directed_link \<Rightarrow> node_id" where
  "arc_head g d = port_owner (the (find_port g (arc_destination d)))"

definition live_arcs :: "topology_graph \<Rightarrow> node_id \<Rightarrow> directed_link list" where
  "live_arcs g n = filter (\<lambda>d. is_operational g d \<and> source_owner g d = Some n) (concat (map directed_links (links g)))"

lemma operational_ends:
  assumes "is_operational g d"
  shows "find_port g (arc_source d) \<noteq> None" "find_port g (arc_destination d) \<noteq> None"
    "contains_node g (arc_tail g d)" "contains_node g (arc_head g d)"
    "node_is_operational g (arc_tail g d)" "node_is_operational g (arc_head g d)"
  using assms
  by (auto simp: is_operational_def node_is_operational_def arc_tail_def arc_head_def split: option.splits if_splits)

lemma finite_node_set [simp]: "finite (A :: node_id set)"
proof -
  have "inj node_key" by (rule injI) (simp add: node_key_eq_iff)
  moreover have "finite (UNIV :: (u64 \<times> u64) set)" by simp
  ultimately have "finite (UNIV :: node_id set)" by (metis finite_imageD finite_subset subset_UNIV)
  then show ?thesis by (rule finite_subset [OF subset_UNIV])
qed

interpretation live: arc_graph "live_arcs g" "arc_head g" "arc_tail g" "{n. contains_node g n}" for g
proof unfold_locales
  show "arc_tail g a = n" if "a \<in> set (live_arcs g n)" for a n
    using that by (auto simp: live_arcs_def source_owner_def arc_tail_def)
  show "arc_head g a \<in> {n. contains_node g n}" if "a \<in> set (live_arcs g n)" for a n
    using that operational_ends(4) by (auto simp: live_arcs_def)
qed simp

lemma distinct_directed_links:
  assumes "ids_ok g"
  shows "distinct (concat (map directed_links (links g)))"
proof -
  have d: "dense link_id (links g)" using assms by (simp add: ids_ok_def)
  then have "distinct (map (unat \<circ> link_id) (links g))"
    by (auto simp: dense_def distinct_conv_nth)
  then have ids: "distinct (map link_id (links g))" by (metis distinct_map map_map)
  have sep: "dl_link (arc_id x) = link_id l" if "x \<in> set (directed_links l)" for x l
    using that by (auto simp: directed_links_def directed_link_a_to_b_def directed_link_b_to_a_def)
  have one: "distinct (directed_links l)" for l
    by (simp add: directed_links_def directed_link_a_to_b_def directed_link_b_to_a_def)
  have "distinct (map link_id ls) \<Longrightarrow> distinct (concat (map directed_links ls))" for ls
  proof (induction ls)
    case (Cons l ls)
    have "x \<notin> set (directed_links l)" if "k \<in> set ls" "x \<in> set (directed_links k)" for x k
      using Cons.prems sep [of x l] sep [of x k] that by (auto intro: rev_image_eqI)
    then show ?case using Cons by (auto simp: one)
  qed simp
  then show ?thesis using ids by blast
qed

lemma live_arcs_distinct: "ids_ok g \<Longrightarrow> distinct (live_arcs g n)"
  by (simp add: live_arcs_def distinct_directed_links)

lemma live_outgoing:
  assumes "graph_ok g" "contains_node g n"
  shows "\<exists>ds. outgoing g n = Inr ds \<and> filter (is_operational g) ds = live_arcs g n"
  using assms by (simp add: outgoing_eq live_arcs_def conj_commute)

section \<open>The invariant of the search\<close>

definition seen_hops :: "search_state \<Rightarrow> node_id \<rightharpoonup> nat" where
  "seen_hops st v = map_option hops (metrics st v)"

text \<open>With \<open>c\<close>, the counts are those of the shortest paths whose last arc has been followed.\<close>

definition counting :: "topology_graph \<Rightarrow> bool \<Rightarrow> node_id \<Rightarrow> directed_link set \<Rightarrow> search_state \<Rightarrow> bool" where
  "counting g c src A st \<longleftrightarrow>
     (c \<longrightarrow> (\<forall>v m. metrics st v = Some m \<longrightarrow>
        unat (path_count m) = card (paths_via (live_arcs g) (arc_head g) A src v (hops m))))"

definition unseen :: "topology_graph \<Rightarrow> search_state \<Rightarrow> nat" where
  "unseen g st = card {n. contains_node g n \<and> metrics st n = None}"

definition overflows :: "topology_graph \<Rightarrow> bool \<Rightarrow> node_id \<Rightarrow> exn \<Rightarrow> bool" where
  "overflows g c src e \<longleftrightarrow>
     c \<and> e = OverflowError ''equal-cost shortest-path count overflow''
     \<and> (\<exists>v h. level (live_arcs g) (arc_head g) src v h \<and> 2 ^ 64 \<le> card (paths_of (live_arcs g) (arc_head g) src v h))"

text \<open>The state while the arcs of node \<open>p\<close> are followed; \<open>q\<close> is the queue behind it.\<close>

definition expanding ::
  "topology_graph \<Rightarrow> bool \<Rightarrow> node_id \<Rightarrow> node_id \<Rightarrow> path_metrics \<Rightarrow> directed_link set \<Rightarrow> nat \<Rightarrow> search_state \<Rightarrow> bool" where
  "expanding g c src p cur A k st \<longleftrightarrow>
     searching (live_arcs g) (arc_head g) src (seen_hops st) (p # pending st) A
     \<and> counting g c src A st \<and> metrics st p = Some cur \<and> distinct (p # pending st)
     \<and> (\<forall>a\<in>A. seen_hops st (arc_tail g a) \<noteq> None \<and> arc_tail g a \<notin> set (pending st))
     \<and> 2 * unseen g st + length (pending st) < k"

lemma card_via_le: "card (paths_via arcs hd_of A s v h) \<le> card (paths_of arcs hd_of s v h)"
  by (rule card_mono [OF finite_paths_of]) (auto simp: paths_via_def)

lemma relax_new:
  assumes E: "expanding g c src p cur A k st" and a: "a \<in> set (live_arcs g p)" "a \<notin> A"
    and new: "metrics st (arc_head g a) = None"
  shows "expanding g c src p cur (insert a A) k
    (st\<lparr>metrics := (metrics st)(arc_head g a \<mapsto> \<lparr>hops = hops cur + 1, path_count = path_count cur\<rparr>),
        pending := pending st @ [arc_head g a]\<rparr>)"
proof -
  let ?v = "arc_head g a" and ?arcs = "live_arcs g" and ?hd = "arc_head g"
  let ?st = "st\<lparr>metrics := (metrics st)(?v \<mapsto> \<lparr>hops = hops cur + 1, path_count = path_count cur\<rparr>),
        pending := pending st @ [?v]\<rparr>"
  have S: "searching ?arcs ?hd src (seen_hops st) (p # pending st) A" and p: "seen_hops st p = Some (hops cur)"
    and cnt: "counting g c src A st" and mp: "metrics st p = Some cur"
    using E by (simp_all add: expanding_def seen_hops_def)
  have nd: "?v \<notin> dom (seen_hops st)" using new by (auto simp: seen_hops_def)
  have H: "seen_hops ?st = (seen_hops st)(?v \<mapsto> Suc (hops cur))" by (auto simp: seen_hops_def)
  have S': "searching ?arcs ?hd src (seen_hops ?st) (p # pending ?st) (insert a A)"
    using live.searching_new [OF S p a(1) nd] unfolding H by simp
  have "?v \<noteq> p" using mp new by auto
  have tl: "arc_tail g a = p" by (rule live.tl_arc [OF a(1)])
  have via: "paths_via ?arcs ?hd A src ?v (Suc (hops cur)) = {}"
  proof -
    have "arc_head g b \<noteq> ?v" if "b \<in> A" for b using S that nd by (auto simp: searching_def)
    then show ?thesis
    proof -
      have "False" if as: "as \<in> paths_via ?arcs ?hd A src ?v (Suc (hops cur))" for as
      proof (cases as rule: rev_cases)
        case (snoc bs b)
        then show False using as \<open>\<And>b. b \<in> A \<Longrightarrow> arc_head g b \<noteq> ?v\<close>
          by (auto simp: paths_via_def paths_of_def live.path_snoc)
      qed (use as in \<open>auto simp: paths_via_def paths_of_def\<close>)
      then show ?thesis by blast
    qed
  qed
  have "counting g c src (insert a A) ?st"
  proof -
    have "unat (path_count m) = card (paths_via ?arcs ?hd (insert a A) src w (hops m))"
      if c and m: "metrics ?st w = Some m" for w m
    proof (cases "w = ?v")
      case True
      then have "m = \<lparr>hops = hops cur + 1, path_count = path_count cur\<rparr>" using m by simp
      moreover have "unat (path_count cur) = card (paths_of ?arcs ?hd src p (hops cur))"
        using cnt mp \<open>c\<close> live.all_paths_followed [OF S p] by (simp add: counting_def)
      ultimately show ?thesis using live.paths_via_step [OF a(2,1) refl, of src "hops cur"] via True by simp
    next
      case False
      then show ?thesis using m cnt \<open>c\<close> live.paths_via_other [of g a w] by (simp add: counting_def)
    qed
    then show ?thesis by (simp add: counting_def)
  qed
  moreover have "2 * unseen g ?st + length (pending ?st) < k"
  proof -
    have "{n. contains_node g n \<and> metrics ?st n = None} = {n. contains_node g n \<and> metrics st n = None} - {?v}"
      by auto
    moreover have "?v \<in> {n. contains_node g n \<and> metrics st n = None}" using live.hd_arc [OF a(1)] new by simp
    ultimately have "Suc (unseen g ?st) = unseen g st"
      unfolding unseen_def by (metis card_Suc_Diff1 finite_node_set)
    then show ?thesis using E by (simp add: expanding_def)
  qed
  moreover have "distinct (p # pending ?st)"
  proof -
    have "?v \<notin> set (pending st)" using S nd by (auto simp: searching_def)
    then show ?thesis using E \<open>?v \<noteq> p\<close> by (simp add: expanding_def)
  qed
  moreover have "seen_hops ?st (arc_tail g b) \<noteq> None \<and> arc_tail g b \<notin> set (pending ?st)" if "b \<in> insert a A" for b
    using that E tl p \<open>?v \<noteq> p\<close> new by (auto simp: expanding_def H seen_hops_def)
  ultimately show ?thesis using S' mp \<open>?v \<noteq> p\<close> by (simp add: expanding_def)
qed

text \<open>An arc whose head has been seen: the counts grow exactly when it lies on a shortest path.\<close>

lemma relax_seen_frame:
  assumes E: "expanding g c src p cur A k st" and a: "a \<in> set (live_arcs g p)"
    and st': "seen_hops st' = seen_hops st" "pending st' = pending st" "metrics st' p = Some cur"
      "unseen g st' = unseen g st" and cnt: "counting g c src (insert a A) st'"
    and seen: "metrics st (arc_head g a) \<noteq> None"
  shows "expanding g c src p cur (insert a A) k st'"
proof -
  have "arc_tail g a = p" by (rule live.tl_arc [OF a])
  moreover have "arc_head g a \<in> dom (seen_hops st)" using seen by (auto simp: seen_hops_def)
  then have "searching (live_arcs g) (arc_head g) src (seen_hops st) (p # pending st) (insert a A)"
    using E live.searching_seen by (simp add: expanding_def)
  ultimately show ?thesis using E st' cnt by (auto simp: expanding_def seen_hops_def)
qed

lemma relax_skip:
  assumes E: "expanding g c src p cur A k st" and a: "a \<in> set (live_arcs g p)"
    and m: "metrics st (arc_head g a) = Some m" and skip: "\<not> (c \<and> hops m = hops cur + 1)"
  shows "expanding g c src p cur (insert a A) k st"
proof (rule relax_seen_frame [OF E a])
  have S: "searching (live_arcs g) (arc_head g) src (seen_hops st) (p # pending st) A"
    and cnt: "counting g c src A st" and mp: "metrics st p = Some cur" using E by (simp_all add: expanding_def)
  have lv: "level (live_arcs g) (arc_head g) src w (hops x)" if "metrics st w = Some x" for w x
    using S that by (simp add: searching_def seen_hops_def)
  have "paths_via (live_arcs g) (arc_head g) (insert a A) src w (hops x) = paths_via (live_arcs g) (arc_head g) A src w (hops x)"
    if c "metrics st w = Some x" for w x
  proof (cases "w = arc_head g a")
    case True
    then have "x = m" using m that by simp
    then show ?thesis using True live.paths_via_skip [OF lv [OF mp] _ lv [OF that(2)] a] skip that by simp
  qed (simp add: live.paths_via_other)
  then show "counting g c src (insert a A) st" using cnt by (simp add: counting_def)
  show "metrics st p = Some cur" by (rule mp)
qed (use m in simp_all)

lemma relax_count:
  assumes E: "expanding g True src p cur A k st" and a: "a \<in> set (live_arcs g p)" "a \<notin> A"
    and m: "metrics st (arc_head g a) = Some m" "hops m = hops cur + 1"
  shows "unat (path_count m) + unat (path_count cur)
      = card (paths_via (live_arcs g) (arc_head g) (insert a A) src (arc_head g a) (hops m))"
    and "\<not> u64_max - path_count m < path_count cur \<Longrightarrow>
      expanding g True src p cur (insert a A) k
        (st\<lparr>metrics := (metrics st)(arc_head g a \<mapsto> m\<lparr>path_count := path_count m + path_count cur\<rparr>)\<rparr>)"
proof -
  let ?v = "arc_head g a"
  have S: "searching (live_arcs g) (arc_head g) src (seen_hops st) (p # pending st) A"
    and cnt: "counting g True src A st" and mp: "metrics st p = Some cur" and p: "seen_hops st p = Some (hops cur)"
    using E by (simp_all add: expanding_def seen_hops_def)
  have "unat (path_count cur) = card (paths_of (live_arcs g) (arc_head g) src p (hops cur))"
    using cnt mp live.all_paths_followed [OF S p] by (simp add: counting_def)
  then show sum: "unat (path_count m) + unat (path_count cur)
      = card (paths_via (live_arcs g) (arc_head g) (insert a A) src ?v (hops m))"
    using live.paths_via_step [OF a(2,1) refl, of src "hops cur"] cnt m by (simp add: counting_def)
  assume "\<not> u64_max - path_count m < path_count cur"
  then have add: "unat (path_count m + path_count cur) = unat (path_count m) + unat (path_count cur)"
    using max_minus_less_iff [of "path_count m" "path_count cur"]
      unat_plus_no_overflow [of "path_count m" "path_count cur"] by simp
  let ?st = "st\<lparr>metrics := (metrics st)(?v \<mapsto> m\<lparr>path_count := path_count m + path_count cur\<rparr>)\<rparr>"
  show "expanding g True src p cur (insert a A) k ?st"
  proof (rule relax_seen_frame [OF E a(1)])
    have "?v \<noteq> p" using m mp by auto
    then show "metrics ?st p = Some cur" using mp by simp
    show "seen_hops ?st = seen_hops st" using m by (auto simp: seen_hops_def fun_eq_iff)
    show "unseen g ?st = unseen g st" using m by (auto simp: unseen_def intro!: arg_cong [where f = card])
    show "counting g True src (insert a A) ?st"
      using cnt add sum by (auto simp: counting_def live.paths_via_other)
  qed (use m in simp_all)
qed

lemma relax_arc_live:
  assumes E: "expanding g c src p cur A k st" and a: "a \<in> set (live_arcs g p)" "a \<notin> A"
  shows "wp (relax_arc g c cur a) (\<lambda>_. expanding g c src p cur (insert a A) k) (\<lambda>e _. overflows g c src e) st"
proof -
  have op: "is_operational g a" using a by (simp add: live_arcs_def)
  then obtain q where q: "find_port g (arc_destination a) = Some q" using operational_ends(2) by blast
  then have v: "port_owner q = arc_head g a" by (simp add: arc_head_def)
  show ?thesis
  proof (cases "metrics st (arc_head g a)")
    case None
    then show ?thesis using relax_new [OF E a None] op q v by (simp add: relax_arc_def wp_simps)
  next
    case (Some m)
    show ?thesis
    proof (cases "c \<and> hops m = hops cur + 1")
      case False
      then show ?thesis using relax_skip [OF E a(1) Some] op q v Some by (auto simp: relax_arc_def wp_simps)
    next
      case True
      then have E': "expanding g True src p cur A k st" using E by simp
      note rc = relax_count [OF E' a Some]
      have "overflows g True src (OverflowError ''equal-cost shortest-path count overflow'')"
        if "u64_max - path_count m < path_count cur"
      proof -
        have "2 ^ 64 \<le> unat (path_count m) + unat (path_count cur)"
          using that max_minus_less_iff [of "path_count m" "path_count cur"] by simp
        then have "2 ^ 64 \<le> card (paths_of (live_arcs g) (arc_head g) src (arc_head g a) (hops m))"
          using rc(1) True card_via_le [of "live_arcs g" "arc_head g" "insert a A" src "arc_head g a" "hops m"] by linarith
        moreover have "level (live_arcs g) (arc_head g) src (arc_head g a) (hops m)"
          using E Some by (simp add: expanding_def searching_def seen_hops_def)
        ultimately show ?thesis unfolding overflows_def by blast
      qed
      then show ?thesis using rc(2) True op q v Some by (simp add: relax_arc_def wp_simps)
    qed
  qed
qed

section \<open>The search is correct\<close>

definition search_ok :: "topology_graph \<Rightarrow> bool \<Rightarrow> node_id \<Rightarrow> search_state \<Rightarrow> bool" where
  "search_ok g c src st \<longleftrightarrow>
     (\<exists>A. searching (live_arcs g) (arc_head g) src (seen_hops st) (pending st) A \<and> counting g c src A st
        \<and> distinct (pending st)
        \<and> (\<forall>a\<in>A. seen_hops st (arc_tail g a) \<noteq> None \<and> arc_tail g a \<notin> set (pending st)))"

lemma path_contains:
  "is_path (live_arcs g) (arc_head g) u as v \<Longrightarrow> contains_node g u \<Longrightarrow> contains_node g v"
proof (induction as arbitrary: u)
  case (Cons a as)
  then show ?case using live.hd_arc [of a g u] by auto
qed simp

lemma expand_next_ok:
  assumes g: "graph_ok g" "contains_node g src" and ok: "search_ok g c src st" and ne: "pending st \<noteq> []"
  shows "wp (expand_next g c)
    (\<lambda>_ u. search_ok g c src u \<and> 2 * unseen g u + length (pending u) < 2 * unseen g st + length (pending st))
    (\<lambda>e _. overflows g c src e) st"
proof -
  let ?k = "2 * unseen g st + length (pending st)"
  obtain p q where pq: "pending st = p # q" using ne by (cases "pending st") auto
  obtain A where S: "searching (live_arcs g) (arc_head g) src (seen_hops st) (pending st) A"
    and cnt: "counting g c src A st" and dist: "distinct (pending st)"
    and tails: "\<forall>a\<in>A. seen_hops st (arc_tail g a) \<noteq> None \<and> arc_tail g a \<notin> set (pending st)"
    using ok by (auto simp: search_ok_def)
  obtain cur where cur: "metrics st p = Some cur" using S pq by (auto simp: searching_def seen_hops_def)
  have "level (live_arcs g) (arc_head g) src p (hops cur)" using S cur by (simp add: searching_def seen_hops_def)
  then have known: "contains_node g p" using path_contains g(2) by (auto simp: level_def)
  obtain ds where ds: "outgoing g p = Inr ds" "filter (is_operational g) ds = live_arcs g p"
    using live_outgoing [OF g(1) known] by blast
  let ?st = "st\<lparr>pending := q\<rparr>"
  have "seen_hops ?st = seen_hops st" by (simp add: seen_hops_def fun_eq_iff)
  then have start: "expanding g c src p cur A ?k ?st"
    using S cnt dist tails cur pq by (simp add: expanding_def counting_def unseen_def)
  have fe: "for_each (relax_arc g c cur) ds = for_each (relax_arc g c cur) (live_arcs g p)"
    unfolding ds(2) [symmetric] by (rule for_each_filter) (simp add: relax_arc_def)
  have "wp (for_each (relax_arc g c cur) (live_arcs g p))
      (\<lambda>_. expanding g c src p cur (A \<union> set (live_arcs g p)) ?k) (\<lambda>e _. overflows g c src e) ?st"
  proof (rule wp_for_each_prefix [where I = "\<lambda>pre. expanding g c src p cur (A \<union> set pre) ?k"])
    fix pre a post t
    assume split: "live_arcs g p = pre @ a # post" and I: "expanding g c src p cur (A \<union> set pre) ?k t"
    have a: "a \<in> set (live_arcs g p)" using split by simp
    have "distinct (live_arcs g p)" using g(1) by (simp add: live_arcs_distinct graph_ok_def)
    then have "a \<notin> set pre" using split by auto
    moreover have "a \<notin> A" using tails live.tl_arc [OF a] pq by auto
    ultimately show "wp (relax_arc g c cur a) (\<lambda>_. expanding g c src p cur (A \<union> set (pre @ [a])) ?k)
        (\<lambda>e _. overflows g c src e) t"
      using relax_arc_live [OF I a] by simp
  qed (use start in simp)
  then have "wp (for_each (relax_arc g c cur) (live_arcs g p))
      (\<lambda>_ u. search_ok g c src u \<and> 2 * unseen g u + length (pending u) < ?k) (\<lambda>e _. overflows g c src e) ?st"
  proof (rule wp_mono)
    fix u
    assume E: "expanding g c src p cur (A \<union> set (live_arcs g p)) ?k u"
    then have "searching (live_arcs g) (arc_head g) src (seen_hops u) (pending u) (A \<union> set (live_arcs g p))"
      unfolding expanding_def by (auto intro: live.searching_pop)
    then show "search_ok g c src u \<and> 2 * unseen g u + length (pending u) < ?k"
      using E unfolding search_ok_def expanding_def by (auto intro: exI [of _ "A \<union> set (live_arcs g p)"])
  qed
  then show ?thesis using pq cur ds(1) fe by (simp add: expand_next_def wp_simps)
qed

lemma search_result:
  assumes g: "graph_ok g" "contains_node g src"
  shows "case while_prog (\<lambda>st. pending st \<noteq> []) (expand_next g c) (initial_search src) of
      (Inl e, _) \<Rightarrow> overflows g c src e
    | (Inr _, st) \<Rightarrow>
        (\<forall>v h. map_option hops (metrics st v) = Some h \<longleftrightarrow> level (live_arcs g) (arc_head g) src v h)
        \<and> (c \<longrightarrow> (\<forall>v m. metrics st v = Some m \<longrightarrow>
             unat (path_count m) = card (paths_of (live_arcs g) (arc_head g) src v (hops m))))"
proof -
  let ?Q = "\<lambda>st. search_ok g c src st \<and> pending st = []"
  have init: "search_ok g c src (initial_search src)"
  proof -
    have "paths_via (live_arcs g) (arc_head g) {} src src 0 = {[]}" by (auto simp: paths_via_def paths_of_def)
    then have "counting g c src {} (initial_search src)" by (simp add: counting_def initial_search_def)
    moreover have "seen_hops (initial_search src) = [src \<mapsto> 0]" by (auto simp: seen_hops_def initial_search_def)
    ultimately show ?thesis using live.searching_start [of g src]
      by (auto simp: search_ok_def initial_search_def intro!: exI [of _ "{}"])
  qed
  have "wp (while_prog (\<lambda>st. pending st \<noteq> []) (expand_next g c)) (\<lambda>_. ?Q) (\<lambda>e _. overflows g c src e) (initial_search src)"
    by (rule wp_while_prog [where I = "search_ok g c src" and f = "\<lambda>st. 2 * unseen g st + length (pending st)"])
      (use init expand_next_ok [OF g] in auto)
  moreover have "(\<forall>v h. map_option hops (metrics st v) = Some h \<longleftrightarrow> level (live_arcs g) (arc_head g) src v h)
      \<and> (c \<longrightarrow> (\<forall>v m. metrics st v = Some m \<longrightarrow>
             unat (path_count m) = card (paths_of (live_arcs g) (arc_head g) src v (hops m))))"
    if st: "search_ok g c src st" "pending st = []" for st
  proof -
    obtain A where S: "searching (live_arcs g) (arc_head g) src (seen_hops st) [] A" and cnt: "counting g c src A st"
      using st by (auto simp: search_ok_def)
    have lv: "seen_hops st v = Some h \<longleftrightarrow> level (live_arcs g) (arc_head g) src v h" for v h
      by (rule live.searching_finished [OF S])
    have "paths_via (live_arcs g) (arc_head g) A src v h = paths_of (live_arcs g) (arc_head g) src v h" for v h
    proof -
      have "as = [] \<or> last as \<in> A" if as: "as \<in> paths_of (live_arcs g) (arc_head g) src v h" for as
      proof (cases as rule: rev_cases)
        case (snoc bs b)
        then have b: "is_path (live_arcs g) (arc_head g) src bs (arc_tail g b)" "b \<in> set (live_arcs g (arc_tail g b))"
          using as by (auto simp: paths_of_def live.path_snoc)
        then obtain k where "seen_hops st (arc_tail g b) = Some k" using level_exists [OF b(1)] lv by blast
        then have "b \<in> A" using S b(2) by (auto simp: searching_def)
        then show ?thesis using snoc by simp
      qed simp
      then show ?thesis by (auto simp: paths_via_def)
    qed
    then show ?thesis using lv cnt by (auto simp: counting_def seen_hops_def)
  qed
  ultimately show ?thesis by (auto simp: wp_def split: prod.splits sum.splits)
qed

section \<open>Properties of the queries\<close>


text \<open>Reachability and hop counts never overflow. On the graph left by any calls on an empty topology graph,
  between known nodes the hop count is the least number of operational directed links from the source to the
  destination, if both are operational and there is such a path, and reachability says whether there is one;
  with an unknown node both queries are rejected.\<close>

theorem shortest_hops_exact:
  "let g = fold graph_call_step cs empty_graph;
       P = (\<lambda>n. node_is_operational g src \<and> node_is_operational g dst
             \<and> (\<exists>as. is_path (live_arcs g) (arc_head g) src as dst \<and> length as = n))
   in if contains_node g src \<and> contains_node g dst
      then reachable g src dst = Inr (\<exists>n. P n)
        \<and> shortest_hops g src dst = Inr (if \<exists>n. P n then Some (LEAST n. P n) else None)
      else reachable g src dst = Inl (InvalidArgument ''cannot find a path involving an unknown topology node'')
        \<and> shortest_hops g src dst = Inl (InvalidArgument ''cannot find a path involving an unknown topology node'')"
proof -
  define g where "g = fold graph_call_step cs empty_graph"
  let ?P = "\<lambda>n. \<exists>as. is_path (live_arcs g) (arc_head g) src as dst \<and> length as = n"
  have ok: "graph_ok g" unfolding g_def by (rule graph_calls_ok [OF empty_graph_ok])
  have hops: "shortest_hops g src dst = Inr (if \<exists>n. ?P n then Some (LEAST n. ?P n) else None)"
    if known: "contains_node g src" "contains_node g dst" and op: "node_is_operational g src" "node_is_operational g dst"
  proof -
    obtain r st where w: "while_prog (\<lambda>st. pending st \<noteq> []) (expand_next g False) (initial_search src) = (r, st)"
      by fastforce
    note res = search_result [OF ok known(1), of False, unfolded w]
    then obtain u where r: "r = Inr u" by (cases r) (auto simp: overflows_def)
    then have lv: "map_option hops (metrics st dst) = Some h \<longleftrightarrow> level (live_arcs g) (arc_head g) src dst h" for h
      using res by simp
    have "map_option hops (metrics st dst) = (if \<exists>n. ?P n then Some (LEAST n. ?P n) else None)"
    proof (cases "\<exists>n. ?P n")
      case True
      then have "?P (LEAST n. ?P n)" by (rule LeastI_ex)
      moreover have "(LEAST n. ?P n) \<le> length as" if "is_path (live_arcs g) (arc_head g) src as dst" for as
        by (rule Least_le) (use that in blast)
      ultimately have "level (live_arcs g) (arc_head g) src dst (LEAST n. ?P n)" unfolding level_def by blast
      then show ?thesis using True lv by simp
    next
      case False
      then show ?thesis using lv by (cases "metrics st dst") (auto simp: level_def)
    qed
    then show ?thesis using known op w r
      by (simp add: shortest_hops_def shortest_path_summary_impl_def option.map_comp o_def)
  qed
  show ?thesis
  proof (cases "contains_node g src \<and> contains_node g dst")
    case False
    then show ?thesis unfolding g_def [symmetric] Let_def
      by (auto simp: reachable_def shortest_hops_def shortest_path_summary_impl_def)
  next
    case known: True
    show ?thesis
    proof (cases "node_is_operational g src \<and> node_is_operational g dst")
      case True
      then show ?thesis using known hops unfolding g_def [symmetric] Let_def by (simp add: reachable_def)
    next
      case False
      then have "shortest_hops g src dst = Inr None"
        using known by (auto simp: shortest_hops_def shortest_path_summary_impl_def)
      then show ?thesis using known False unfolding g_def [symmetric] Let_def by (auto simp: reachable_def)
    qed
  qed
qed

end
