(* ===== verification/Fabric.thy ===== *)
theory Fabric
  imports Shortest_Paths
begin

text \<open>
  The fabric of a topology graph: the operational directed links of fabric kind. Fabric links join NICs and
  switches only, which is an invariant of the building operations, and a link is operational in both
  directions or in neither, so distances in the fabric are symmetric.
\<close>

section \<open>Fabric links join NICs and switches\<close>

definition fabric_between :: "link_kind list \<Rightarrow> node_id list \<Rightarrow> bool" where
  "fabric_between ks os \<longleftrightarrow>
     (\<forall>i<length ks. ks ! i = Fabric \<longrightarrow> kind (os ! (2 * i)) \<noteq> Gpu \<and> kind (os ! Suc (2 * i)) \<noteq> Gpu)"

definition fabric_ok :: "topology_graph \<Rightarrow> bool" where
  "fabric_ok g \<longleftrightarrow> fabric_between (map link_kind (links g)) (map port_owner (ports g))"

lemma fabric_between_snoc:
  assumes "fabric_between ks os" "length os = 2 * length ks" "k = Fabric \<Longrightarrow> kind a \<noteq> Gpu \<and> kind b \<noteq> Gpu"
  shows "fabric_between (ks @ [k]) (os @ [a, b])"
  using assms by (auto simp: fabric_between_def nth_append less_Suc_eq)

lemma linked_lists:
  "map link_kind (links (linked a ra b rb k g)) = map link_kind (links g) @ [k]"
  "map port_owner (ports (linked a ra b rb k g)) = map port_owner (ports g) @ [a, b]"
  by (simp_all add: linked_def Let_def)

lemma fabric_ok_linked:
  assumes "ids_ok g" "fabric_ok g" "k = Fabric \<Longrightarrow> kind a \<noteq> Gpu \<and> kind b \<noteq> Gpu"
  shows "fabric_ok (linked a ra b rb k g)"
  unfolding fabric_ok_def linked_lists
  by (rule fabric_between_snoc) (use assms in \<open>auto simp: fabric_ok_def ids_ok_def\<close>)

lemma fabric_ok_cong:
  "fabric_ok g \<Longrightarrow> map link_kind (links h) = map link_kind (links g)
   \<Longrightarrow> map port_owner (ports h) = map port_owner (ports g) \<Longrightarrow> fabric_ok h"
  by (simp add: fabric_ok_def)

lemma fabric_connect:
  assumes ok: "graph_ok g" and fab: "fabric_ok g"
  shows "fabric_ok (snd (connect_fabric a ra b rb g))"
proof (cases "connect_rejection g a ra b rb")
  case (Some e)
  then show ?thesis using fab by (simp add: connect_fabric_rejected)
next
  case None
  then have k: "kind a \<noteq> Gpu" "kind b \<noteq> Gpu" by (auto simp: connect_rejection_def split: if_splits)
  let ?h = "own_port b (next_value (issue_id (port_ids g))) (own_port a (next_value (port_ids g)) g)"
  have "graph_ok ?h" using ok by (simp add: graph_ok_own_port)
  moreover have "fabric_ok ?h" by (rule fabric_ok_cong [OF fab]) simp_all
  ultimately have "fabric_ok (linked a ra b rb Fabric ?h)" using k by (intro fabric_ok_linked) (auto simp: graph_ok_def)
  then show ?thesis by (simp add: connect_fabric_accepted [OF ok None])
qed

lemma fabric_add_gpu:
  assumes ok: "graph_ok g" and fab: "fabric_ok g"
  shows "fabric_ok (snd (add_gpu n g))"
proof -
  consider "find_nic g n = None \<or> exhausted (gpu_ids g) \<or> exhausted (port_ids g)"
    | x where "find_nic g n = Some x" "\<not> exhausted (gpu_ids g)" "\<not> exhausted (port_ids g)"
    by (cases "find_nic g n") auto
  then show ?thesis
  proof cases
    case 1
    then have "ports (snd (add_gpu n g)) = ports g" "links (snd (add_gpu n g)) = links g"
      by (cases "find_nic g n"; cases "exhausted (gpu_ids g)";
          auto simp: add_gpu_def next_gpu_id_def next_port_id_def prog_defs topology_id_next_eq)+
    then show ?thesis by (intro fabric_ok_cong [OF fab]) simp_all
  next
    case (2 x)
    let ?h = "with_gpu n (nic_rack x) g"
    have "ids_ok ?h" using graph_ok_with_gpu [OF ok 2(2,3)] by (simp add: graph_ok_def)
    moreover have "fabric_ok ?h" by (rule fabric_ok_cong [OF fab]) (simp_all add: with_gpu_def Let_def)
    ultimately have "fabric_ok (linked (NodeId Gpu (next_value (gpu_ids g))) Local (NodeId Nic n) Local LocalAttachment ?h)"
      by (intro fabric_ok_linked) simp_all
    then show ?thesis by (simp add: add_gpu_eq [OF ok 2])
  qed
qed

lemma fabric_call_step:
  assumes ok: "graph_ok g" and fab: "fabric_ok g"
  shows "fabric_ok (graph_call_step c g)"
proof -
  have states: "map link_kind (links (snd (set_link_state l st g))) = map link_kind (links g)"
    "map link_kind (links (snd (set_port_state p st g))) = map link_kind (links g)" for l p st
    by (auto simp: set_link_state_def set_port_state_def map_update_nth split: option.splits)
  note cong = fabric_ok_cong [OF fab]
  show ?thesis
    by (cases c) (use assms cong in \<open>simp_all add: fabric_add_gpu fabric_connect untouched_links states_keep_wiring states\<close>)
qed

lemma fabric_calls: "graph_ok g \<Longrightarrow> fabric_ok g \<Longrightarrow> fabric_ok (fold graph_call_step cs g)"
  by (induction cs arbitrary: g) (simp_all add: fabric_call_step graph_call_step_ok)

lemma empty_fabric_ok: "fabric_ok empty_graph"
  by (simp add: fabric_ok_def fabric_between_def empty_graph_def)

lemma link_at:
  assumes "ids_ok g" "l \<in> set (links g)"
  shows "find_link g (link_id l) = Some l" "\<exists>i<length (links g). links g ! i = l \<and> unat (link_id l) = i"
proof -
  obtain i where i: "i < length (links g)" "links g ! i = l" using assms(2) by (auto simp: in_set_conv_nth)
  moreover have "unat (link_id l) = i" using assms(1) i by (auto simp: ids_ok_def dense_def)
  ultimately show "find_link g (link_id l) = Some l" "\<exists>i<length (links g). links g ! i = l \<and> unat (link_id l) = i"
    using find_eqs(6) [OF assms(1), of "link_id l"] by auto
qed

section \<open>The arcs of the fabric\<close>

definition is_fabric :: "topology_graph \<Rightarrow> directed_link \<Rightarrow> bool" where
  "is_fabric g d \<longleftrightarrow> link_kind (the (find_link g (dl_link (arc_id d)))) = Fabric"

definition fabric_arcs :: "topology_graph \<Rightarrow> node_id \<Rightarrow> directed_link list" where
  "fabric_arcs g n = filter (is_fabric g) (live_arcs g n)"

lemma fabric_arcD:
  assumes "a \<in> set (fabric_arcs g n)"
  shows "is_operational g a" "is_fabric g a" "arc_tail g a = n" "contains_node g (arc_head g a)" "a \<in> set (live_arcs g n)"
  using assms live.tl_arc [of a g n] live.hd_arc [of a g n] by (auto simp: fabric_arcs_def live_arcs_def)

text \<open>A link is operational in both directions or in neither.\<close>

lemma opposite_arc:
  assumes a: "a \<in> set (fabric_arcs g n)"
  shows "\<exists>b\<in>set (fabric_arcs g (arc_head g a)). arc_head g b = n"
proof -
  obtain l where fl: "find_link g (dl_link (arc_id a)) = Some l" and l2: "a \<in> set (directed_links l)"
    using fabric_arcD(1) [OF a] by (auto simp: is_operational_def split: option.splits)
  then have l: "l \<in> set (links g)" "a \<in> set (directed_links l)"
    by (auto simp: find_link_def find_dense_def Let_def split: if_splits)
  have id: "dl_link (arc_id x) = link_id l" if "x \<in> set (directed_links l)" for x
    using that by (auto simp: directed_links_def directed_link_a_to_b_def directed_link_b_to_a_def)
  have f: "find_link g (link_id l) = Some l" using fl id [OF l2] by simp
  have "a = directed_link_a_to_b l \<or> a = directed_link_b_to_a l" using l(2) by (auto simp: directed_links_def)
  then obtain b where b: "b \<in> set (directed_links l)" "arc_source b = arc_destination a" "arc_destination b = arc_source a"
  proof
    assume "a = directed_link_a_to_b l"
    then show thesis using that [of "directed_link_b_to_a l"]
      by (simp add: directed_links_def directed_link_a_to_b_def directed_link_b_to_a_def)
  next
    assume "a = directed_link_b_to_a l"
    then show thesis using that [of "directed_link_a_to_b l"]
      by (simp add: directed_links_def directed_link_a_to_b_def directed_link_b_to_a_def)
  qed
  obtain p q where pq: "find_port g (arc_source a) = Some p" "find_port g (arc_destination a) = Some q"
    using operational_ends [OF fabric_arcD(1) [OF a]] by blast
  have "is_operational g a" by (rule fabric_arcD(1) [OF a])
  then have op: "is_operational g b"
    unfolding is_operational_def b(2,3) id [OF l(2)] id [OF b(1)] f pq using b(1) by simp
  have "source_owner g b = Some (arc_head g a)"
    using operational_ends(2) [OF fabric_arcD(1) [OF a]] b by (auto simp: source_owner_def arc_head_def)
  then have "b \<in> set (fabric_arcs g (arc_head g a))"
    using op b(1) l(1) fabric_arcD(2) [OF a] id [OF l(2)] id [OF b(1)]
    by (auto simp: fabric_arcs_def live_arcs_def is_fabric_def)
  moreover have "arc_head g b = n" using b fabric_arcD(3) [OF a] by (simp add: arc_head_def arc_tail_def)
  ultimately show ?thesis by blast
qed

lemma fabric_head_kind:
  assumes ok: "graph_ok g" "fabric_ok g" and a: "a \<in> set (fabric_arcs g n)"
  shows "kind (arc_head g a) \<noteq> Gpu"
proof -
  have ids: "ids_ok g" using ok by (simp add: graph_ok_def)
  obtain l where l: "l \<in> set (links g)" "a \<in> set (directed_links l)" using a by (auto simp: fabric_arcs_def live_arcs_def)
  then obtain i where i: "i < length (links g)" "links g ! i = l" using link_at [OF ids] by blast
  have id: "dl_link (arc_id a) = link_id l"
    using l(2) by (auto simp: directed_links_def directed_link_a_to_b_def directed_link_b_to_a_def)
  then have "link_kind l = Fabric" using fabric_arcD(2) [OF a] link_at(1) [OF ids l(1)] by (simp add: is_fabric_def)
  moreover have len: "length (ports g) = 2 * length (links g)" using ids by (simp add: ids_ok_def)
  ultimately have k: "kind (port_owner (ports g ! (2 * i))) \<noteq> Gpu" "kind (port_owner (ports g ! Suc (2 * i))) \<noteq> Gpu"
    using ok(2) i by (auto simp: fabric_ok_def fabric_between_def)
  have "unat (endpoint_a l) = 2 * i" "unat (endpoint_b l) = Suc (2 * i)" using ok(1) i by (auto simp: graph_ok_def wiring_ok_def)
  moreover have "arc_destination a = endpoint_a l \<or> arc_destination a = endpoint_b l"
    using l(2) by (auto simp: directed_links_def directed_link_a_to_b_def directed_link_b_to_a_def)
  ultimately show ?thesis using k i(1) len find_eqs(5) [OF ids] by (auto simp: arc_head_def)
qed

interpretation fabric: symmetric_graph "fabric_arcs g" "arc_head g" "arc_tail g" "{n. contains_node g n}" for g
proof unfold_locales
  show "arc_tail g a = n" if "a \<in> set (fabric_arcs g n)" for a n by (rule fabric_arcD(3) [OF that])
  show "arc_head g a \<in> {n. contains_node g n}" if "a \<in> set (fabric_arcs g n)" for a n
    using fabric_arcD(4) [OF that] by simp
  show "\<exists>b\<in>set (fabric_arcs g (arc_head g a)). arc_head g b = n" if "a \<in> set (fabric_arcs g n)" for a n
    by (rule opposite_arc [OF that])
qed simp

lemma fabric_outgoing:
  assumes "graph_ok g" "contains_node g n"
  shows "\<exists>ds. outgoing g n = Inr ds \<and> filter (\<lambda>d. is_fabric g d \<and> is_operational g d) ds = fabric_arcs g n"
proof -
  obtain ds where ds: "outgoing g n = Inr ds" "filter (is_operational g) ds = live_arcs g n"
    using live_outgoing [OF assms] by blast
  have "filter (\<lambda>d. is_fabric g d \<and> is_operational g d) ds = fabric_arcs g n"
    unfolding fabric_arcs_def ds(2) [symmetric] filter_filter by (rule filter_cong) auto
  then show ?thesis using ds(1) by blast
qed

lemma fabric_arcs_distinct: "ids_ok g \<Longrightarrow> distinct (fabric_arcs g n)"
  by (simp add: fabric_arcs_def live_arcs_distinct)

text \<open>The identifier of an operational arc determines it.\<close>

lemma arc_id_unique:
  assumes "is_operational g a" "is_operational g b" "arc_id a = arc_id b"
  shows "a = b"
proof -
  obtain l where l: "find_link g (dl_link (arc_id a)) = Some l" "a \<in> set (directed_links l)"
    using assms(1) by (auto simp: is_operational_def split: option.splits)
  moreover have "b \<in> set (directed_links l)"
    using assms(2) l(1) unfolding assms(3) by (auto simp: is_operational_def split: option.splits)
  ultimately show ?thesis using assms(3)
    by (auto simp: directed_links_def directed_link_a_to_b_def directed_link_b_to_a_def)
qed

lemma path_operational: "is_path (fabric_arcs g) (arc_head g) s as t \<Longrightarrow> \<forall>a\<in>set as. is_operational g a"
  by (induction as arbitrary: s) (auto dest: fabric_arcD(1))

lemma path_ids_inj: "inj_on (map arc_id) {as. \<forall>a\<in>set as. is_operational g a}"
proof (rule inj_onI)
  fix as bs
  assume "as \<in> {as. \<forall>a\<in>set as. is_operational g a}" "bs \<in> {as. \<forall>a\<in>set as. is_operational g a}" "map arc_id as = map arc_id bs"
  then show "as = bs"
  proof (induction as arbitrary: bs)
    case (Cons a as)
    then obtain b bs' where bs: "bs = b # bs'" by (cases bs) auto
    then have "a = b" using Cons.prems by (intro arc_id_unique [of g]) simp_all
    moreover have "as = bs'" by (rule Cons.IH) (use Cons.prems bs in simp_all)
    ultimately show ?case using bs by simp
  qed simp
qed

end
