(* ===== verification/Path_Service.thy ===== *)
theory Path_Service
  imports Fabric
begin

text \<open>
  The path service of the router (\<^verbatim>\<open>routing/paths.hpp\<close>, \<^verbatim>\<open>routing/paths.cpp\<close>): all shortest fabric paths
  between two NICs or switches, found by a breadth-first search from the destination and a walk from the
  source down the distances, and a cache of them that is dropped when the operational revision of the graph
  changes and that evicts its oldest pair when it is full.

  An unreachable node, which the source marks with the largest distance, has no distance here. Identifiers
  that the graph hands out are found in it, so \<open>the\<close> stands for following the pointer of a lookup.
\<close>

section \<open>State\<close>

type_synonym path = "directed_link_id list"
type_synonym endpoints = "node_id \<times> node_id"

record path_limits =
  maximum_paths :: size_t
  maximum_hops :: size_t
  maximum_cached_pairs :: size_t
  maximum_cached_route_entries :: size_t

definition default_path_limits :: path_limits where
  "default_path_limits = \<lparr>maximum_paths = 64, maximum_hops = 64, maximum_cached_pairs = 1024,
     maximum_cached_route_entries = 262144\<rparr>"

record cache_statistics =
  hits :: u64
  misses :: u64
  invalidations :: u64
  stat_pairs :: size_t
  stat_paths :: size_t
  cache_entries :: size_t

record path_service =
  ps_limits :: path_limits
  ps_revision :: u64
  ps_statistics :: cache_statistics
  ps_cache :: "(endpoints, path list) omap"
  ps_order :: "endpoints list"

definition new_path_service :: "topology_graph \<Rightarrow> path_limits \<Rightarrow> exn + path_service" where
  "new_path_service g lim =
     (if maximum_paths lim = 0 \<or> maximum_hops lim = 0 \<or> maximum_hops lim > 1024
         \<or> maximum_cached_pairs lim = 0 \<or> maximum_cached_route_entries lim = 0
      then Inl (InvalidArgument ''invalid routing path limits'')
      else Inr \<lparr>ps_limits = lim, ps_revision = operational_revision g,
             ps_statistics = \<lparr>hits = 0, misses = 0, invalidations = 0, stat_pairs = 0, stat_paths = 0, cache_entries = 0\<rparr>,
             ps_cache = [], ps_order = []\<rparr>)"

section \<open>Enumerating shortest paths\<close>

definition route_index :: "topology_graph \<Rightarrow> node_id \<Rightarrow> exn + nat" where
  "route_index g n =
     (if kind n = Nic \<and> find_nic g (node_value n) \<noteq> None then Inr (unat (node_value n))
      else if kind n = Switch \<and> find_switch g (node_value n) \<noteq> None then Inr (length (nics g) + unat (node_value n))
      else Inl (InvalidArgument ''routing endpoint must be a known NIC or switch''))"

record frontier_state =
  frontier :: "node_id list"
  cursor :: nat
  distance :: "nat \<rightharpoonup> nat"

definition discover :: "topology_graph \<Rightarrow> node_id \<Rightarrow> directed_link \<Rightarrow> (frontier_state, unit) prog" where
  "discover g node d =
     (if link_kind (the (find_link g (dl_link (arc_id d)))) \<noteq> Fabric \<or> \<not> is_operational g d then return ()
      else let neighbor = port_owner (the (find_port g (arc_destination d)))
           in bind (lift_res (route_index g neighbor)) (\<lambda>i.
              bind (gets (\<lambda>st. distance st i)) (\<lambda>nxt.
              perform_if (nxt = None)
                (bind (lift_res (route_index g node)) (\<lambda>j.
                 modify (\<lambda>st. st\<lparr>distance := (distance st)(i \<mapsto> the (distance st j) + 1),
                                 frontier := frontier st @ [neighbor]\<rparr>))))))"

definition visit_cursor :: "topology_graph \<Rightarrow> (frontier_state, unit) prog" where
  "visit_cursor g =
     bind (gets (\<lambda>st. frontier st ! cursor st)) (\<lambda>node.
     seq (bind (lift_res (outgoing g node)) (for_each (discover g node)))
         (modify (\<lambda>st. st\<lparr>cursor := cursor st + 1\<rparr>)))"

definition push_path :: "path_limits \<Rightarrow> path \<Rightarrow> (path list, unit) prog" where
  "push_path lim pth =
     bind (gets length) (\<lambda>n.
     seq (throw_if (n = maximum_paths lim \<or> n \<ge> maximum_cached_route_entries lim div length pth)
            (LengthError ''complete shortest-path set exceeds routing limits''))
         (modify (\<lambda>r. r @ [pth])))"

definition closer :: "nat option \<Rightarrow> nat option \<Rightarrow> bool" where
  "closer a b = (case a of None \<Rightarrow> False | Some x \<Rightarrow> (case b of None \<Rightarrow> True | Some y \<Rightarrow> x < y))"

text \<open>
  The recursive walk. The first argument bounds the depth of the recursion; the distance falls with every
  call, so one more than the distance of the start is enough.
\<close>

primrec walk :: "nat \<Rightarrow> topology_graph \<Rightarrow> path_limits \<Rightarrow> (nat \<rightharpoonup> nat) \<Rightarrow> node_id \<Rightarrow> path \<Rightarrow> (path list, unit) prog" where
  "walk 0 g lim dist node pth = throw (LogicError ''walk deeper than its distance'')"
| "walk (Suc depth) g lim dist node pth =
     bind (lift_res (route_index g node)) (\<lambda>i.
     if dist i = Some 0 then push_path lim pth
     else bind (lift_res (outgoing g node)) (for_each (\<lambda>d.
       if link_kind (the (find_link g (dl_link (arc_id d)))) \<noteq> Fabric \<or> \<not> is_operational g d then return ()
       else let neighbor = port_owner (the (find_port g (arc_destination d)))
            in bind (lift_res (route_index g neighbor)) (\<lambda>j.
               perform_if (closer (dist j) (dist i)) (walk depth g lim dist neighbor (pth @ [arc_id d]))))))"

definition enumerate_paths :: "topology_graph \<Rightarrow> path_limits \<Rightarrow> endpoints \<Rightarrow> exn + path list" where
  "enumerate_paths g lim ep =
     bindR (route_index g (fst ep)) (\<lambda>s.
     bindR (route_index g (snd ep)) (\<lambda>t.
     if s = t then Inl (InvalidArgument ''routing requires distinct endpoints'')
     else case while_prog (\<lambda>st. cursor st < length (frontier st)) (visit_cursor g)
                 \<lparr>frontier = [snd ep], cursor = 0, distance = [t \<mapsto> 0]\<rparr> of
       (Inl e, _) \<Rightarrow> Inl e
     | (Inr _, st) \<Rightarrow>
         (case distance st s of
            None \<Rightarrow> Inr []
          | Some d \<Rightarrow>
              if d > maximum_hops lim then Inl (LengthError ''shortest route exceeds hop limit'')
              else (case walk (Suc d) g lim (distance st) (fst ep) [] [] of
                      (Inl e, _) \<Rightarrow> Inl e
                    | (Inr _, result) \<Rightarrow> Inr (sort result)))))"

section \<open>The cache\<close>

definition evict_oldest :: "path_service \<Rightarrow> path_service" where
  "evict_oldest sv =
     (let oldest = the (map_of (ps_cache sv) (hd (ps_order sv)));
          stats = ps_statistics sv
      in sv\<lparr>ps_statistics := stats\<lparr>cache_entries := fold (\<lambda>p n. size_sub n (length p)) oldest (cache_entries stats),
                                   stat_paths := size_sub (stat_paths stats) (length oldest)\<rparr>,
            ps_cache := omap_erase (hd (ps_order sv)) (ps_cache sv),
            ps_order := tl (ps_order sv)\<rparr>)"

definition drop_stale :: "topology_graph \<Rightarrow> path_service \<Rightarrow> path_service" where
  "drop_stale g sv =
     (if ps_revision sv \<noteq> operational_revision g
      then sv\<lparr>ps_cache := [], ps_order := [],
              ps_statistics := (ps_statistics sv)\<lparr>stat_paths := 0, cache_entries := 0,
                 invalidations := invalidations (ps_statistics sv) + 1\<rparr>,
              ps_revision := operational_revision g\<rparr>
      else sv)"

definition count_hit :: "path_service \<Rightarrow> path_service" where
  "count_hit sv = sv\<lparr>ps_statistics := (ps_statistics sv)\<lparr>hits := hits (ps_statistics sv) + 1\<rparr>\<rparr>"

definition count_miss :: "path_service \<Rightarrow> path_service" where
  "count_miss sv = sv\<lparr>ps_statistics := (ps_statistics sv)\<lparr>misses := misses (ps_statistics sv) + 1\<rparr>\<rparr>"

definition must_evict :: "size_t \<Rightarrow> path_service \<Rightarrow> bool" where
  "must_evict entries sv \<longleftrightarrow>
     length (ps_cache sv) \<ge> maximum_cached_pairs (ps_limits sv)
     \<or> entries > size_sub (maximum_cached_route_entries (ps_limits sv)) (cache_entries (ps_statistics sv))"

definition insert_pair :: "endpoints \<Rightarrow> path list \<Rightarrow> size_t \<Rightarrow> path_service \<Rightarrow> path_service" where
  "insert_pair ep ps entries sv =
     sv\<lparr>ps_cache := omap_put ep ps (ps_cache sv), ps_order := ps_order sv @ [ep],
        ps_statistics := (ps_statistics sv)\<lparr>cache_entries := cache_entries (ps_statistics sv) + entries,
           stat_paths := stat_paths (ps_statistics sv) + length ps\<rparr>\<rparr>"

definition lookup :: "topology_graph \<Rightarrow> endpoints \<Rightarrow> (path_service, path list) prog" where
  "lookup g ep =
     seq (modify (drop_stale g))
     (bind (gets (\<lambda>sv. map_of (ps_cache sv) ep)) (\<lambda>found.
      case found of
        Some ps \<Rightarrow> seq (modify count_hit) (return ps)
      | None \<Rightarrow>
          seq (modify count_miss)
          (bind (gets ps_limits) (\<lambda>lim.
           bind (lift_res (enumerate_paths g lim ep)) (\<lambda>ps.
           let entries = sum_list (map length ps)
           in seq (while_prog (must_evict entries) (modify evict_oldest))
              (seq (modify (insert_pair ep ps entries)) (return ps)))))))"

definition statistics :: "path_service \<Rightarrow> cache_statistics" where
  "statistics sv = (ps_statistics sv)\<lparr>stat_pairs := length (ps_cache sv)\<rparr>"

section \<open>The search from the destination\<close>

definition routable :: "topology_graph \<Rightarrow> node_id \<Rightarrow> bool" where
  "routable g n \<longleftrightarrow> contains_node g n \<and> kind n \<noteq> Gpu"

definition slot :: "topology_graph \<Rightarrow> node_id \<Rightarrow> nat" where
  "slot g n = (if kind n = Nic then unat (node_value n) else length (nics g) + unat (node_value n))"

lemma route_index_eq:
  "route_index g n = (if routable g n then Inr (slot g n)
     else Inl (InvalidArgument ''routing endpoint must be a known NIC or switch''))"
  by (cases "kind n") (auto simp: route_index_def routable_def slot_def contains_node_def)

lemma slot_inj:
  assumes "ids_ok g" "routable g m" "routable g n" "slot g m = slot g n"
  shows "m = n"
proof -
  have "kind x = Nic \<Longrightarrow> unat (node_value x) < length (nics g)" if "routable g x" for x
    using that contains_node_iff [OF assms(1)] by (auto simp: routable_def entity_count_def)
  then show ?thesis using assms(2-4)
    by (cases m; cases n; cases "kind m"; cases "kind n")
      (fastforce simp: slot_def routable_def word_unat_eq_iff)+
qed

definition known_distance :: "topology_graph \<Rightarrow> (nat \<rightharpoonup> nat) \<Rightarrow> node_id \<rightharpoonup> nat" where
  "known_distance g dist n = (if routable g n then dist (slot g n) else None)"

lemma known_distance_update:
  assumes "ids_ok g" "routable g v"
  shows "known_distance g (dist(slot g v \<mapsto> l)) = (known_distance g dist)(v \<mapsto> l)"
  using assms slot_inj [OF assms(1) _ assms(2)] by (auto simp: known_distance_def fun_eq_iff)

definition unvisited :: "topology_graph \<Rightarrow> frontier_state \<Rightarrow> nat" where
  "unvisited g st = card {n. contains_node g n \<and> known_distance g (distance st) n = None}"

definition visiting :: "topology_graph \<Rightarrow> node_id \<Rightarrow> nat \<Rightarrow> directed_link set \<Rightarrow> nat \<Rightarrow> frontier_state \<Rightarrow> bool" where
  "visiting g t c A k st \<longleftrightarrow>
     cursor st = c \<and> c < length (frontier st)
     \<and> searching (fabric_arcs g) (arc_head g) t (known_distance g (distance st)) (drop c (frontier st)) A
     \<and> 2 * unvisited g st + (length (frontier st) - c) \<le> k"

lemma discover_live:
  assumes ok: "graph_ok g" "fabric_ok g" and V: "visiting g t c A k st"
    and p: "frontier st ! c = p" and a: "a \<in> set (fabric_arcs g p)"
  shows "wp (discover g p a) (\<lambda>_ u. visiting g t c (insert a A) k u \<and> frontier u ! c = p) (\<lambda>_ _. False) st"
proof -
  let ?v = "arc_head g a" and ?H = "known_distance g (distance st)"
  have ids: "ids_ok g" using ok by (simp add: graph_ok_def)
  have V': "cursor st = c" "c < length (frontier st)" "2 * unvisited g st + (length (frontier st) - c) \<le> k"
    using V unfolding visiting_def by blast+
  have d: "drop c (frontier st) = p # drop (Suc c) (frontier st)" using V'(2) p Cons_nth_drop_Suc by metis
  have S: "searching (fabric_arcs g) (arc_head g) t ?H (p # drop (Suc c) (frontier st)) A"
    using V d by (simp add: visiting_def)
  then obtain l where l: "?H p = Some l" by (auto simp: searching_def)
  then have rp: "routable g p" "distance st (slot g p) = Some l" by (auto simp: known_distance_def split: if_splits)
  have rv: "routable g ?v" using fabric_arcD(4) [OF a] fabric_head_kind [OF ok a] by (simp add: routable_def)
  have fab: "link_kind (the (find_link g (dl_link (arc_id a)))) = Fabric" "is_operational g a"
    using fabric_arcD [OF a] by (auto simp: is_fabric_def)
  have hd: "port_owner (the (find_port g (arc_destination a))) = ?v" by (simp add: arc_head_def)
  have Hv: "?H ?v = distance st (slot g ?v)" using rv by (simp add: known_distance_def)
  show ?thesis
  proof (cases "?H ?v")
    case (Some h)
    then have "visiting g t c (insert a A) k st"
      using fabric.searching_seen [OF S, of a] V' d by (auto simp: visiting_def)
    then show ?thesis using fab hd rv p Some Hv by (simp add: discover_def route_index_eq wp_simps Let_def)
  next
    case None
    let ?st = "st\<lparr>distance := (distance st)(slot g ?v \<mapsto> l + 1), frontier := frontier st @ [?v]\<rparr>"
    have H': "known_distance g (distance ?st) = ?H(?v \<mapsto> Suc l)"
      using known_distance_update [OF ids rv] by simp
    have "searching (fabric_arcs g) (arc_head g) t (?H(?v \<mapsto> Suc l)) (p # drop (Suc c) (frontier st) @ [?v]) (insert a A)"
      by (rule fabric.searching_new [OF S l a]) (use None in auto)
    moreover have "drop c (frontier ?st) = p # drop (Suc c) (frontier st) @ [?v]" using d V'(2) by simp
    moreover have "2 * unvisited g ?st + (length (frontier ?st) - c) \<le> k"
    proof -
      have "{n. contains_node g n \<and> known_distance g (distance ?st) n = None}
          = {n. contains_node g n \<and> ?H n = None} - {?v}" unfolding H' by auto
      moreover have "?v \<in> {n. contains_node g n \<and> ?H n = None}" using None rv by (simp add: routable_def)
      ultimately have "Suc (unvisited g ?st) = unvisited g st"
        unfolding unvisited_def by (metis card_Suc_Diff1 finite_node_set)
      then show ?thesis using V' by simp
    qed
    ultimately have "visiting g t c (insert a A) k ?st" using V' unfolding visiting_def H' by simp
    moreover have "frontier ?st ! c = p" using p V'(2) by (simp add: nth_append)
    ultimately show ?thesis using fab hd rv rp None Hv
      by (simp add: discover_def route_index_eq wp_simps Let_def)
  qed
qed

definition search_from :: "topology_graph \<Rightarrow> node_id \<Rightarrow> frontier_state \<Rightarrow> bool" where
  "search_from g t st \<longleftrightarrow> cursor st \<le> length (frontier st) \<and>
     (\<exists>A. searching (fabric_arcs g) (arc_head g) t (known_distance g (distance st)) (drop (cursor st) (frontier st)) A)"

lemma visit_cursor_ok:
  assumes ok: "graph_ok g" "fabric_ok g" and I: "search_from g t st" and more: "cursor st < length (frontier st)"
  shows "wp (visit_cursor g)
    (\<lambda>_ u. search_from g t u \<and>
       2 * unvisited g u + (length (frontier u) - cursor u) < 2 * unvisited g st + (length (frontier st) - cursor st))
    (\<lambda>_ _. False) st"
proof -
  let ?c = "cursor st" and ?k = "2 * unvisited g st + (length (frontier st) - cursor st)"
  define p where "p = frontier st ! ?c"
  obtain A where S: "searching (fabric_arcs g) (arc_head g) t (known_distance g (distance st)) (drop ?c (frontier st)) A"
    using I by (auto simp: search_from_def)
  have "p \<in> set (drop ?c (frontier st))" unfolding p_def using more by (metis Cons_nth_drop_Suc list.set_intros(1))
  then have "routable g p" using S by (auto simp: searching_def known_distance_def split: if_splits)
  then obtain ds where ds: "outgoing g p = Inr ds"
      "filter (\<lambda>d. is_fabric g d \<and> is_operational g d) ds = fabric_arcs g p"
    using fabric_outgoing [OF ok(1), of p] by (auto simp: routable_def)
  have fe: "for_each (discover g p) ds = for_each (discover g p) (fabric_arcs g p)"
    unfolding ds(2) [symmetric] by (rule for_each_filter) (auto simp: discover_def is_fabric_def)
  have "wp (for_each (discover g p) (fabric_arcs g p))
      (\<lambda>_ u. visiting g t ?c (A \<union> set (fabric_arcs g p)) ?k u \<and> frontier u ! ?c = p) (\<lambda>_ _. False) st"
  proof (rule wp_for_each_prefix [where I = "\<lambda>pre u. visiting g t ?c (A \<union> set pre) ?k u \<and> frontier u ! ?c = p"])
    fix pre a post u
    assume "fabric_arcs g p = pre @ a # post" and u: "visiting g t ?c (A \<union> set pre) ?k u \<and> frontier u ! ?c = p"
    then have "a \<in> set (fabric_arcs g p)" by simp
    then show "wp (discover g p a) (\<lambda>_ u. visiting g t ?c (A \<union> set (pre @ [a])) ?k u \<and> frontier u ! ?c = p) (\<lambda>_ _. False) u"
      using discover_live [OF ok _ _ \<open>a \<in> _\<close>] u by simp
  qed (use S more in \<open>simp add: visiting_def p_def\<close>)
  then have "wp (seq (for_each (discover g p) (fabric_arcs g p)) (modify (\<lambda>st. st\<lparr>cursor := cursor st + 1\<rparr>)))
      (\<lambda>_ u. search_from g t u \<and> 2 * unvisited g u + (length (frontier u) - cursor u) < ?k) (\<lambda>_ _. False) st"
    unfolding wp_simps
  proof (rule wp_mono)
    fix u
    assume u: "visiting g t ?c (A \<union> set (fabric_arcs g p)) ?k u \<and> frontier u ! ?c = p"
    then have "drop ?c (frontier u) = p # drop (Suc ?c) (frontier u)"
      using Cons_nth_drop_Suc by (fastforce simp: visiting_def)
    then have "searching (fabric_arcs g) (arc_head g) t (known_distance g (distance u)) (drop (Suc ?c) (frontier u))
        (A \<union> set (fabric_arcs g p))"
      using u unfolding visiting_def by (auto intro: fabric.searching_pop)
    then show "search_from g t (u\<lparr>cursor := cursor u + 1\<rparr>) \<and>
        2 * unvisited g (u\<lparr>cursor := cursor u + 1\<rparr>) + (length (frontier (u\<lparr>cursor := cursor u + 1\<rparr>)) - cursor (u\<lparr>cursor := cursor u + 1\<rparr>)) < ?k"
      using u by (auto simp: search_from_def visiting_def unvisited_def)
  qed
  then show ?thesis using ds(1) fe by (simp add: visit_cursor_def wp_simps p_def [symmetric])
qed

lemma distances:
  assumes ok: "graph_ok g" "fabric_ok g" and t: "routable g t"
  obtains st where
    "while_prog (\<lambda>st. cursor st < length (frontier st)) (visit_cursor g)
       \<lparr>frontier = [t], cursor = 0, distance = [slot g t \<mapsto> 0]\<rparr> = (Inr (), st)"
    "\<And>v h. known_distance g (distance st) v = Some h \<longleftrightarrow> level (fabric_arcs g) (arc_head g) t v h"
proof -
  let ?init = "\<lparr>frontier = [t], cursor = 0, distance = [slot g t \<mapsto> 0]\<rparr>"
  have ids: "ids_ok g" using ok by (simp add: graph_ok_def)
  have "known_distance g (distance ?init) = [t \<mapsto> 0]"
    using known_distance_update [OF ids t, of Map.empty 0] by (simp add: known_distance_def fun_eq_iff)
  then have init: "search_from g t ?init" using fabric.searching_start [of g t] by (auto simp: search_from_def)
  have "wp (while_prog (\<lambda>st. cursor st < length (frontier st)) (visit_cursor g))
      (\<lambda>_ st. search_from g t st \<and> \<not> cursor st < length (frontier st)) (\<lambda>_ _. False) ?init"
    by (rule wp_while_prog [where I = "search_from g t" and f = "\<lambda>st. 2 * unvisited g st + (length (frontier st) - cursor st)"])
      (use init visit_cursor_ok [OF ok] in auto)
  then obtain st where st: "while_prog (\<lambda>st. cursor st < length (frontier st)) (visit_cursor g) ?init = (Inr (), st)"
    "search_from g t st" "\<not> cursor st < length (frontier st)"
    by (auto simp: wp_def split: prod.splits sum.splits)
  then obtain A where "searching (fabric_arcs g) (arc_head g) t (known_distance g (distance st)) [] A"
    by (auto simp: search_from_def)
  then show thesis using that [OF st(1)] fabric.searching_finished by blast
qed

section \<open>The walk from the source\<close>

text \<open>The shortest paths to the node the distances are from, in the order in which the walk meets them.\<close>

primrec routes :: "topology_graph \<Rightarrow> (node_id \<rightharpoonup> nat) \<Rightarrow> nat \<Rightarrow> node_id \<Rightarrow> directed_link list list" where
  "routes g H 0 v = [[]]"
| "routes g H (Suc h) v =
     concat (map (\<lambda>a. map ((#) a) (routes g H h (arc_head g a))) (filter (\<lambda>a. H (arc_head g a) = Some h) (fabric_arcs g v)))"

lemma seq_return_right [simp]: "seq m (return ()) = m"
  by (auto simp: seq_def bind_def return_def fun_eq_iff split: prod.splits sum.splits)

lemma seq_assoc: "seq (seq a b) c = seq a (seq b c)"
  by (auto simp: seq_def bind_def fun_eq_iff split: prod.splits sum.splits)

lemma for_each_append: "for_each f (xs @ ys) = seq (for_each f xs) (for_each f ys)"
  by (induction xs) (simp_all add: seq_assoc)

lemma for_each_concat: "for_each f (concat xss) = for_each (for_each f) xss"
  by (induction xss) (simp_all add: for_each_append)

lemma for_each_map: "for_each f (map h xs) = for_each (\<lambda>x. f (h x)) xs"
  by (induction xs) simp_all

lemma for_each_cong: "(\<And>x. x \<in> set xs \<Longrightarrow> f x = h x) \<Longrightarrow> for_each f xs = for_each h xs"
  by (induction xs) simp_all

lemma bind_lift_Inr [simp]: "bind (lift_res (Inr x)) f = f x"
  by (simp add: bind_def lift_res_def fun_eq_iff)

lemma walk_routes:
  assumes ok: "graph_ok g" "fabric_ok g" and t: "routable g t"
    and H: "\<And>v h. known_distance g dist v = Some h \<longleftrightarrow> level (fabric_arcs g) (arc_head g) t v h"
  shows "known_distance g dist v = Some h \<Longrightarrow> walk (Suc h) g lim dist v pth
    = for_each (\<lambda>as. push_path lim (pth @ map arc_id as)) (routes g (known_distance g dist) h v)"
proof (induction h arbitrary: v pth)
  case 0
  then have "routable g v" "dist (slot g v) = Some 0" by (auto simp: known_distance_def split: if_splits)
  then show ?case by (simp add: route_index_eq)
next
  case (Suc h)
  let ?H = "known_distance g dist"
  have v: "routable g v" "dist (slot g v) = Some (Suc h)" using Suc.prems by (auto simp: known_distance_def split: if_splits)
  obtain ds where ds: "outgoing g v = Inr ds"
      "filter (\<lambda>d. is_fabric g d \<and> is_operational g d) ds = fabric_arcs g v"
    using fabric_outgoing [OF ok(1), of v] v by (auto simp: routable_def)
  define body where "body = (\<lambda>d. if link_kind (the (find_link g (dl_link (arc_id d)))) \<noteq> Fabric \<or> \<not> is_operational g d then return ()
     else let neighbor = port_owner (the (find_port g (arc_destination d)))
          in bind (lift_res (route_index g neighbor)) (\<lambda>j.
             perform_if (closer (dist j) (dist (slot g v))) (walk (Suc h) g lim dist neighbor (pth @ [arc_id d]))))"
  have arc: "body a = (if ?H (arc_head g a) = Some h
      then for_each (\<lambda>as. push_path lim (pth @ map arc_id (a # as))) (routes g ?H h (arc_head g a)) else return ())"
    if a: "a \<in> set (fabric_arcs g v)" for a
  proof -
    have rv: "routable g (arc_head g a)" using fabric_arcD(4) [OF a] fabric_head_kind [OF ok a] by (simp add: routable_def)
    have c: "closer (dist (slot g (arc_head g a))) (Some (Suc h)) \<longleftrightarrow> ?H (arc_head g a) = Some h"
    proof (cases "?H (arc_head g a)")
      case (Some k)
      then have lk: "level (fabric_arcs g) (arc_head g) t (arc_head g a) k"
        "level (fabric_arcs g) (arc_head g) t v (Suc h)" using Suc.prems H by blast+
      have "dist (slot g (arc_head g a)) = Some k" using Some rv by (simp add: known_distance_def)
      then show ?thesis using fabric.closer_level [OF lk(2) a lk(1)] Some by (auto simp: closer_def)
    qed (use rv in \<open>auto simp: closer_def known_distance_def\<close>)
    have "link_kind (the (find_link g (dl_link (arc_id a)))) = Fabric" "is_operational g a"
      using fabric_arcD [OF a] by (auto simp: is_fabric_def)
    then show ?thesis using rv c v(2) Suc.IH [of "arc_head g a" "pth @ [arc_id a]"]
      by (simp add: body_def route_index_eq arc_head_def [symmetric] perform_if_def del: walk.simps)
  qed
  have "for_each body ds = for_each body (fabric_arcs g v)"
    unfolding ds(2) [symmetric] by (rule for_each_filter) (auto simp: body_def is_fabric_def)
  also have "\<dots> = for_each body (filter (\<lambda>a. ?H (arc_head g a) = Some h) (fabric_arcs g v))"
    by (rule for_each_filter) (simp add: arc)
  also have "\<dots> = for_each (\<lambda>a. for_each (\<lambda>as. push_path lim (pth @ map arc_id (a # as))) (routes g ?H h (arc_head g a)))
      (filter (\<lambda>a. ?H (arc_head g a) = Some h) (fabric_arcs g v))"
    by (rule for_each_cong) (simp add: arc)
  also have "\<dots> = for_each (\<lambda>as. push_path lim (pth @ map arc_id as)) (routes g ?H (Suc h) v)"
    by (simp add: for_each_concat for_each_map)
  finally have "for_each body ds = for_each (\<lambda>as. push_path lim (pth @ map arc_id as)) (routes g ?H (Suc h) v)" .
  moreover have "walk (Suc (Suc h)) g lim dist v pth = for_each body ds"
    unfolding walk.simps(2) [of "Suc h"] body_def using v ds(1) by (simp add: route_index_eq del: walk.simps)
  ultimately show ?case by simp
qed

lemma routes_paths:
  assumes H: "\<And>v h. H v = Some h \<longleftrightarrow> level (fabric_arcs g) (arc_head g) t v h"
  shows "H v = Some h \<Longrightarrow> set (routes g H h v) = paths_of (fabric_arcs g) (arc_head g) v t h"
proof (induction h arbitrary: v)
  case 0
  then have "t = v" using H by (auto simp: level_def)
  then show ?case by (auto simp: paths_of_def)
next
  case (Suc h)
  have lower: "H (arc_head g a) = Some h"
    if "a \<in> set (fabric_arcs g v)" "is_path (fabric_arcs g) (arc_head g) (arc_head g a) as t" "length as = h" for a as
  proof -
    from level_exists [OF that(2)] that(3)
    obtain k where k: "k \<le> h" "level (fabric_arcs g) (arc_head g) t (arc_head g a) k"
      using fabric.level_back by blast
    then have "Suc h = Suc k" using fabric.closer_level [of g t v "Suc h" a k] that(1) Suc.prems H by simp
    then show ?thesis using k H by simp
  qed
  have "as \<in> set (routes g H (Suc h) v) \<longleftrightarrow> as \<in> paths_of (fabric_arcs g) (arc_head g) v t (Suc h)" for as
    by (cases as) (use Suc.IH lower in \<open>auto simp: paths_of_def\<close>)
  then show ?case by blast
qed

lemma routes_distinct: "ids_ok g \<Longrightarrow> distinct (routes g H h v)"
proof (induction h arbitrary: v)
  case (Suc h)
  have "distinct (concat (map (\<lambda>a. map ((#) a) (routes g H h (arc_head g a))) xs))" if "distinct xs" for xs
    using that by (induction xs) (auto simp: distinct_map Suc inj_on_def)
  then show ?case using fabric_arcs_distinct [OF Suc.prems] by simp
qed simp

text \<open>Adding paths of one length to the result, up to the limits.\<close>

lemma push_paths:
  assumes "\<forall>p\<in>set ps. length p = l" "length r \<le> maximum_paths lim" "length r \<le> maximum_cached_route_entries lim div l"
  defines "room \<equiv> min (maximum_paths lim) (maximum_cached_route_entries lim div l)"
  shows "for_each (push_path lim) ps r =
    (if length r + length ps \<le> room then (Inr (), r @ ps)
     else (Inl (LengthError ''complete shortest-path set exceeds routing limits''), r @ take (room - length r) ps))"
  using assms(1-3)
proof (induction ps arbitrary: r)
  case Nil
  then show ?case by (simp add: return_def room_def)
next
  case (Cons p ps)
  show ?case
  proof (cases "length r < room")
    case True
    then have "for_each (push_path lim) (p # ps) r = for_each (push_path lim) ps (r @ [p])"
      using Cons.prems by (auto simp: push_path_def prog_defs room_def)
    moreover have "take (room - length r) (p # ps) = p # take (room - Suc (length r)) ps"
      using True by (metis Suc_diff_Suc take_Suc_Cons)
    ultimately show ?thesis using True Cons.IH [of "r @ [p]"] Cons.prems by (auto simp: room_def)
  next
    case False
    then have "maximum_paths lim \<le> length r \<or> maximum_cached_route_entries lim div l \<le> length r"
      unfolding room_def by (simp add: not_less min_le_iff_disj)
    then have "length r = maximum_paths lim \<or> maximum_cached_route_entries lim div l \<le> length r"
      using Cons.prems(2) le_antisym by blast
    then have "push_path lim p r = (Inl (LengthError ''complete shortest-path set exceeds routing limits''), r)"
      using Cons.prems(1) by (simp add: push_path_def prog_defs)
    then show ?thesis using False by (simp add: seq_def bind_def)
  qed
qed

section \<open>Enumeration\<close>

definition shortest_length :: "topology_graph \<Rightarrow> node_id \<Rightarrow> node_id \<Rightarrow> nat" where
  "shortest_length g s t = (LEAST n. \<exists>as. is_path (fabric_arcs g) (arc_head g) s as t \<and> length as = n)"

definition shortest_routes :: "topology_graph \<Rightarrow> node_id \<Rightarrow> node_id \<Rightarrow> path set" where
  "shortest_routes g s t =
     {map arc_id as |as. is_path (fabric_arcs g) (arc_head g) s as t \<and> length as = shortest_length g s t}"

lemma level_shortest:
  assumes "level (fabric_arcs g) (arc_head g) s t h"
  shows "shortest_length g s t = h" "shortest_routes g s t = map arc_id ` paths_of (fabric_arcs g) (arc_head g) s t h"
proof -
  show l: "shortest_length g s t = h"
    unfolding shortest_length_def by (rule Least_equality) (use assms in \<open>auto simp: level_def\<close>)
  show "shortest_routes g s t = map arc_id ` paths_of (fabric_arcs g) (arc_head g) s t h"
    unfolding shortest_routes_def l by (auto simp: paths_of_def)
qed

definition enumeration :: "topology_graph \<Rightarrow> path_limits \<Rightarrow> node_id \<Rightarrow> node_id \<Rightarrow> exn + path list" where
  "enumeration g lim s t =
     (if \<not> routable g s \<or> \<not> routable g t
      then Inl (InvalidArgument ''routing endpoint must be a known NIC or switch'')
      else if s = t then Inl (InvalidArgument ''routing requires distinct endpoints'')
      else if \<not> (\<exists>as. is_path (fabric_arcs g) (arc_head g) s as t) then Inr []
      else if shortest_length g s t > maximum_hops lim
      then Inl (LengthError ''shortest route exceeds hop limit'')
      else if card (shortest_routes g s t) \<le> maximum_paths lim
           \<and> card (shortest_routes g s t) \<le> maximum_cached_route_entries lim div shortest_length g s t
      then Inr (sorted_list_of_set (shortest_routes g s t))
      else Inl (LengthError ''complete shortest-path set exceeds routing limits''))"

lemma enumerate_paths_eq:
  assumes ok: "graph_ok g" "fabric_ok g"
  shows "enumerate_paths g lim (s, t) = enumeration g lim s t"
proof (cases "routable g s \<and> routable g t \<and> s \<noteq> t")
  case False
  have "slot g s = slot g t \<longleftrightarrow> s = t" if "routable g s" "routable g t"
    using slot_inj [of g s t] ok that by (auto simp: graph_ok_def)
  with False show ?thesis by (auto simp: enumerate_paths_def enumeration_def route_index_eq)
next
  case True
  then have r: "routable g s" "routable g t" "s \<noteq> t" by auto
  have ids: "ids_ok g" using ok by (simp add: graph_ok_def)
  have ne: "slot g s \<noteq> slot g t" using slot_inj [OF ids r(1,2)] r(3) by blast
  obtain st where st: "while_prog (\<lambda>st. cursor st < length (frontier st)) (visit_cursor g)
       \<lparr>frontier = [t], cursor = 0, distance = [slot g t \<mapsto> 0]\<rparr> = (Inr (), st)"
    and H: "\<And>v h. known_distance g (distance st) v = Some h \<longleftrightarrow> level (fabric_arcs g) (arc_head g) t v h"
    using distances [OF ok r(2)] by blast
  have ds: "distance st (slot g s) = known_distance g (distance st) s" using r by (simp add: known_distance_def)
  show ?thesis
  proof (cases "known_distance g (distance st) s")
    case None
    then have "\<not> (\<exists>as. is_path (fabric_arcs g) (arc_head g) s as t)"
      using H [of s] level_exists [of "fabric_arcs g" "arc_head g" s _ t] fabric.level_sym [of g s t] by auto
    then show ?thesis using r ne st None ds by (simp add: enumerate_paths_def enumeration_def route_index_eq)
  next
    case (Some d)
    then have lv: "level (fabric_arcs g) (arc_head g) s t d" using H fabric.level_sym by blast
    note sh = level_shortest [OF lv]
    have ex: "\<exists>as. is_path (fabric_arcs g) (arc_head g) s as t" using lv by (auto simp: level_def)
    let ?rs = "routes g (known_distance g (distance st)) d s"
    have set: "set ?rs = paths_of (fabric_arcs g) (arc_head g) s t d" by (rule routes_paths [OF H Some])
    have inj: "inj_on (map arc_id) (set ?rs)"
      by (rule inj_on_subset [OF path_ids_inj [of g]]) (auto simp: set paths_of_def dest: path_operational)
    have dist: "distinct (map (map arc_id) ?rs)" using routes_distinct [OF ids] inj by (simp add: distinct_map)
    have R: "set (map (map arc_id) ?rs) = shortest_routes g s t" by (simp add: set sh)
    then have card: "length ?rs = card (shortest_routes g s t)" using distinct_card [OF dist] by simp
    have len: "\<forall>p\<in>set (map (map arc_id) ?rs). length p = d" by (auto simp: set paths_of_def)
    have "walk (Suc d) g lim (distance st) s [] [] = for_each (push_path lim) (map (map arc_id) ?rs) []"
      by (simp add: walk_routes [OF ok r(2) H Some] for_each_map del: walk.simps)
    moreover have "sort (map (map arc_id) ?rs) = sorted_list_of_set (shortest_routes g s t)"
      using dist R by (metis distinct_remdups_id sorted_list_of_set_sort_remdups)
    ultimately show ?thesis using r ne st ds Some ex sh(1) card push_paths [OF len, of "[]" lim]
      by (simp add: enumerate_paths_def enumeration_def route_index_eq del: walk.simps)
  qed
qed

lemma sum_same_length: "\<forall>p\<in>set ps. length p = d \<Longrightarrow> sum_list (map length ps) = length ps * d"
  by (induction ps) simp_all

lemma enumeration_fits:
  assumes "enumeration g lim s t = Inr ps"
  shows "sum_list (map length ps) \<le> maximum_cached_route_entries lim"
proof (cases "ps = []")
  case False
  let ?R = "shortest_routes g s t" and ?d = "shortest_length g s t"
  have ps: "ps = sorted_list_of_set ?R" "card ?R \<le> maximum_cached_route_entries lim div ?d"
    using assms False by (auto simp: enumeration_def split: if_splits)
  have "length p = ?d" if "p \<in> set ps" for p
  proof -
    have "p \<in> ?R" using that ps(1) by (cases "finite ?R") auto
    then show ?thesis by (auto simp: shortest_routes_def)
  qed
  then have "sum_list (map length ps) = length ps * ?d" by (intro sum_same_length) blast
  also have "length ps = card ?R" using ps(1) by simp
  also have "card ?R * ?d \<le> maximum_cached_route_entries lim div ?d * ?d" using ps(2) by (rule mult_le_mono1)
  also have "\<dots> \<le> maximum_cached_route_entries lim" by simp
  finally show ?thesis .
qed simp

section \<open>The cache\<close>

lemma erase_sum:
  assumes "omap_ok m" "map_of m k = Some v"
  shows "sum_list (map f (omap_erase k m)) + f (k, v) = (sum_list (map f m) :: nat)"
    "Suc (length (omap_erase k m)) = length m"
proof -
  have "(k, v) \<in> set m" "distinct (map fst m)" using map_of_SomeD [OF assms(2)] omap_ok_distinct [OF assms(1)] by blast+
  then have "sum_list (map f (omap_erase k m)) + f (k, v) = sum_list (map f m) \<and> Suc (length (omap_erase k m)) = length m"
  proof (induction m)
    case (Cons x m)
    show ?case
    proof (cases "x = (k, v)")
      case True
      then have "filter (\<lambda>(k', _). k' \<noteq> k) m = m" using Cons.prems by (force simp: filter_id_conv)
      then show ?thesis using True by (simp add: omap_erase_def)
    next
      case False
      then have kv: "(k, v) \<in> set m" using Cons.prems by auto
      moreover have "fst x \<notin> fst ` set m" using Cons.prems by simp
      ultimately have "fst x \<noteq> k" by (metis fst_conv imageI)
      then show ?thesis using Cons kv by (cases x) (simp add: omap_erase_def)
    qed
  qed simp
  then show "sum_list (map f (omap_erase k m)) + f (k, v) = (sum_list (map f m) :: nat)"
    "Suc (length (omap_erase k m)) = length m" by blast+
qed

lemma put_sum:
  assumes "omap_ok m" "map_of m k = None"
  shows "sum_list (map f (omap_put k v m)) = (sum_list (map f m) :: nat) + f (k, v)"
  using assms
proof (induction k v m rule: omap_put.induct)
  case (2 k v k' v' m)
  then show ?case by (auto simp: omap_ok_def split: if_splits)
qed simp

definition cached_entries :: "path_service \<Rightarrow> nat" where
  "cached_entries sv = sum_list (map (\<lambda>(_, ps). sum_list (map length ps)) (ps_cache sv))"

definition cached_paths :: "path_service \<Rightarrow> nat" where
  "cached_paths sv = sum_list (map (\<lambda>(_, ps). length ps) (ps_cache sv))"

text \<open>The statistics are true, the order of insertion names the cached pairs, and the cache keeps its limits.\<close>

definition cache_ok :: "path_service \<Rightarrow> bool" where
  "cache_ok sv \<longleftrightarrow>
     omap_ok (ps_cache sv) \<and> distinct (ps_order sv) \<and> set (ps_order sv) = fst ` set (ps_cache sv)
     \<and> cache_entries (ps_statistics sv) = cached_entries sv \<and> stat_paths (ps_statistics sv) = cached_paths sv
     \<and> length (ps_cache sv) \<le> maximum_cached_pairs (ps_limits sv)
     \<and> cached_entries sv \<le> maximum_cached_route_entries (ps_limits sv)
     \<and> 0 < maximum_cached_pairs (ps_limits sv)"

lemma fold_size_sub: "sum_list (map length ps) \<le> n \<Longrightarrow> fold (\<lambda>p n. size_sub n (length p)) ps n = n - sum_list (map length ps)"
  by (induction ps arbitrary: n) simp_all

lemma evict_ok:
  assumes ok: "cache_ok sv" and evict: "must_evict n sv" and n: "n \<le> maximum_cached_route_entries (ps_limits sv)"
  shows "cache_ok (evict_oldest sv)" "length (ps_order (evict_oldest sv)) < length (ps_order sv)"
    "set (ps_cache (evict_oldest sv)) \<subseteq> set (ps_cache sv)"
    "ps_limits (evict_oldest sv) = ps_limits sv" "ps_revision (evict_oldest sv) = ps_revision sv"
proof -
  have "ps_cache sv \<noteq> []"
  proof
    assume "ps_cache sv = []"
    then show False using ok evict n by (auto simp: must_evict_def cache_ok_def cached_entries_def)
  qed
  then obtain ep rest where o: "ps_order sv = ep # rest" using ok by (cases "ps_order sv") (auto simp: cache_ok_def)
  have m: "omap_ok (ps_cache sv)" using ok by (simp add: cache_ok_def)
  have "ep \<in> fst ` set (ps_cache sv)" using ok o by (metis cache_ok_def list.set_intros(1))
  then obtain ps where ps: "map_of (ps_cache sv) ep = Some ps"
    by (metis (no_types) domIff dom_map_of_conv_image_fst option.exhaust)
  note sums = erase_sum(1) [OF m ps, of "\<lambda>(_, ps). sum_list (map length ps)"] erase_sum(2) [OF m ps] erase_sum(1) [OF m ps, of "\<lambda>(_, ps). length ps"]
  have keys: "fst ` set (omap_erase ep (ps_cache sv)) = fst ` set (ps_cache sv) - {ep}"
    by (force simp: omap_erase_def)
  have fold: "fold (\<lambda>p n. size_sub n (length p)) ps (cached_entries sv) = cached_entries sv - sum_list (map length ps)"
    by (rule fold_size_sub) (use sums(1) in \<open>simp add: cached_entries_def\<close>)
  show "cache_ok (evict_oldest sv)"
    using ok o ps sums fold keys m unfolding cache_ok_def
    by (auto simp: evict_oldest_def Let_def cached_entries_def cached_paths_def size_sub_def)
  show "length (ps_order (evict_oldest sv)) < length (ps_order sv)" by (simp add: evict_oldest_def Let_def o)
  show "set (ps_cache (evict_oldest sv)) \<subseteq> set (ps_cache sv)" by (auto simp: evict_oldest_def Let_def omap_erase_def)
qed (simp_all add: evict_oldest_def Let_def)

lemma insert_ok:
  assumes "cache_ok sv" "\<not> must_evict n sv" "map_of (ps_cache sv) ep = None" "n = sum_list (map length ps)"
  shows "cache_ok (insert_pair ep ps n sv)"
proof -
  have m: "omap_ok (ps_cache sv)" using assms(1) by (simp add: cache_ok_def)
  note sums = put_sum [OF m assms(3), of "\<lambda>(_, ps). sum_list (map length ps)" ps] put_sum [OF m assms(3), of "\<lambda>(_, ps). length ps" ps]
  have "ep \<notin> fst ` set (ps_cache sv)" using assms(3) by (simp add: map_of_eq_None_iff)
  then show ?thesis using assms m sums length_omap_put [OF m, of ep ps] keys_omap_put [of ep ps "ps_cache sv"]
    unfolding cache_ok_def must_evict_def
    by (auto simp: insert_pair_def cached_entries_def cached_paths_def)
qed

text \<open>The cached answers are those of a graph with the recorded revision, from which only operational states
  have changed since.\<close>

definition cache_true :: "topology_graph \<Rightarrow> path_service \<Rightarrow> bool" where
  "cache_true g sv \<longleftrightarrow>
     (\<exists>old cs. list_all state_call cs \<and> g = fold graph_call_step cs old \<and> operational_revision old = ps_revision sv
        \<and> (\<forall>(ep, ps)\<in>set (ps_cache sv). enumerate_paths old (ps_limits sv) ep = Inr ps))"

lemma drop_stale_true:
  assumes "cache_true g sv" "cache_ok sv"
  shows "ps_revision (drop_stale g sv) = operational_revision g" "ps_limits (drop_stale g sv) = ps_limits sv"
    "\<forall>(ep, ps)\<in>set (ps_cache (drop_stale g sv)). enumerate_paths g (ps_limits sv) ep = Inr ps"
    "cache_ok (drop_stale g sv)"
proof -
  obtain old cs where o: "list_all state_call cs" "g = fold graph_call_step cs old"
    "operational_revision old = ps_revision sv"
    "\<forall>(ep, ps)\<in>set (ps_cache sv). enumerate_paths old (ps_limits sv) ep = Inr ps"
    using assms(1) unfolding cache_true_def by blast
  show "ps_revision (drop_stale g sv) = operational_revision g" "ps_limits (drop_stale g sv) = ps_limits sv"
    by (simp_all add: drop_stale_def)
  show "cache_ok (drop_stale g sv)"
    using assms(2) by (auto simp: drop_stale_def cache_ok_def cached_entries_def cached_paths_def)
  have "g = old" if "ps_revision sv = operational_revision g"
    using state_calls_revision [OF o(1), of old] o(2,3) that by auto
  then show "\<forall>(ep, ps)\<in>set (ps_cache (drop_stale g sv)). enumerate_paths g (ps_limits sv) ep = Inr ps"
    using o(4) by (auto simp: drop_stale_def)
qed

lemma evict_loop:
  assumes ok: "cache_ok sv" and n: "n \<le> maximum_cached_route_entries (ps_limits sv)"
  shows "wp (while_prog (must_evict n) (modify evict_oldest))
    (\<lambda>_ u. cache_ok u \<and> \<not> must_evict n u \<and> set (ps_cache u) \<subseteq> set (ps_cache sv)
       \<and> ps_limits u = ps_limits sv \<and> ps_revision u = ps_revision sv) (\<lambda>_ _. False) sv"
proof -
  let ?I = "\<lambda>u. cache_ok u \<and> set (ps_cache u) \<subseteq> set (ps_cache sv) \<and> ps_limits u = ps_limits sv \<and> ps_revision u = ps_revision sv"
  show ?thesis
  proof (rule wp_while_prog [where I = ?I and f = "\<lambda>u. length (ps_order u)"])
    fix u assume u: "?I u" "must_evict n u"
    then have "cache_ok u" "n \<le> maximum_cached_route_entries (ps_limits u)" using n by simp_all
    note e = evict_ok [OF this(1) u(2) this(2)]
    then show "wp (modify evict_oldest) (\<lambda>_ v. ?I v \<and> length (ps_order v) < length (ps_order u)) (\<lambda>_ _. False) u"
      using u(1) by (auto simp: wp_modify)
  qed (use ok in auto)
qed

lemma lookup_correct:
  assumes g: "graph_ok g" "fabric_ok g" and ok: "cache_ok sv" and true: "cache_true g sv"
  shows "fst (lookup g ep sv) = enumerate_paths g (ps_limits sv) ep"
    "cache_ok (snd (lookup g ep sv))" "cache_true g (snd (lookup g ep sv))"
    "ps_limits (snd (lookup g ep sv)) = ps_limits sv"
proof -
  let ?sv = "drop_stale g sv" and ?lim = "ps_limits sv"
  note d = drop_stale_true [OF true ok]
  let ?G = "\<lambda>u. cache_ok u \<and> ps_limits u = ?lim \<and> ps_revision u = operational_revision g
    \<and> (\<forall>(ep, ps)\<in>set (ps_cache u). enumerate_paths g ?lim ep = Inr ps)"
  have now: "cache_true g u" if "?G u" for u
    unfolding cache_true_def by (rule exI [of _ g], rule exI [of _ "[]"]) (use that in simp)
  have cnt: "?G (count_hit u) = ?G u" "?G (count_miss u) = ?G u" "ps_cache (count_miss u) = ps_cache u" for u
    by (auto simp: count_hit_def count_miss_def cache_ok_def cached_entries_def cached_paths_def)
  have G: "?G ?sv" using d by simp
  have "fst (lookup g ep sv) = enumerate_paths g ?lim ep \<and> ?G (snd (lookup g ep sv))"
  proof (cases "map_of (ps_cache ?sv) ep")
    case (Some ps)
    then have "enumerate_paths g ?lim ep = Inr ps" using d(3) by (auto dest: map_of_SomeD)
    then show ?thesis using Some G cnt(1) [of ?sv] by (simp add: lookup_def prog_defs)
  next
    case None
    show ?thesis
    proof (cases "enumerate_paths g ?lim ep")
      case (Inl e)
      then show ?thesis using None G cnt(2) [of ?sv] d(2) by (simp add: lookup_def prog_defs count_miss_def)
    next
      case (Inr ps)
      let ?n = "sum_list (map length ps)"
      have Gm: "?G (count_miss ?sv)" using G cnt(2) by blast
      have fits: "?n \<le> maximum_cached_route_entries ?lim"
        using Inr enumeration_fits enumerate_paths_eq [OF g] by (metis prod.collapse)
      then have "wp (while_prog (must_evict ?n) (modify evict_oldest))
          (\<lambda>_ u. cache_ok u \<and> \<not> must_evict ?n u \<and> set (ps_cache u) \<subseteq> set (ps_cache (count_miss ?sv))
             \<and> ps_limits u = ?lim \<and> ps_revision u = operational_revision g) (\<lambda>_ _. False) (count_miss ?sv)"
        using evict_loop [of "count_miss ?sv" ?n] Gm by simp
      then obtain u where u: "while_prog (must_evict ?n) (modify evict_oldest) (count_miss ?sv) = (Inr (), u)"
        "cache_ok u" "\<not> must_evict ?n u" "set (ps_cache u) \<subseteq> set (ps_cache ?sv)" "ps_limits u = ?lim"
        "ps_revision u = operational_revision g"
        by (auto simp: wp_def cnt(3) split: prod.splits sum.splits)
      have "map_of (ps_cache u) ep = None" using u(4) None by (auto simp: map_of_eq_None_iff)
      then have "cache_ok (insert_pair ep ps ?n u)" using insert_ok [OF u(2,3)] by simp
      moreover have "\<forall>(e, q)\<in>set (ps_cache (insert_pair ep ps ?n u)). enumerate_paths g ?lim e = Inr q"
        using set_omap_put [of ep ps "ps_cache u"] u(4) d(3) Inr by (fastforce simp: insert_pair_def)
      ultimately have "?G (insert_pair ep ps ?n u)" using u(5,6) by (simp add: insert_pair_def)
      moreover have "ps_limits (count_miss ?sv) = ?lim" using Gm by blast
      then have "lookup g ep sv = (Inr ps, insert_pair ep ps ?n u)"
        using None Inr u(1) by (simp add: lookup_def prog_defs Let_def)
      ultimately show ?thesis using Inr by simp
    qed
  qed
  then show "fst (lookup g ep sv) = enumerate_paths g (ps_limits sv) ep"
    "cache_ok (snd (lookup g ep sv))" "cache_true g (snd (lookup g ep sv))"
    "ps_limits (snd (lookup g ep sv)) = ps_limits sv" using now by blast+
qed

datatype path_call = CallLookup endpoints | CallOperational graph_call

fun path_call_step :: "path_call \<Rightarrow> topology_graph \<times> path_service \<Rightarrow> topology_graph \<times> path_service" where
  "path_call_step (CallLookup ep) (g, sv) = (g, snd (lookup g ep sv))"
| "path_call_step (CallOperational c) (g, sv) = (if state_call c then graph_call_step c g else g, sv)"

lemma cache_true_step:
  assumes "cache_true g sv" "state_call c"
  shows "cache_true (graph_call_step c g) sv"
proof -
  obtain old cs where o: "list_all state_call cs" "g = fold graph_call_step cs old"
    "operational_revision old = ps_revision sv"
    "\<forall>(ep, ps)\<in>set (ps_cache sv). enumerate_paths old (ps_limits sv) ep = Inr ps"
    using assms(1) unfolding cache_true_def by blast
  have "list_all state_call (cs @ [c])" "graph_call_step c g = fold graph_call_step (cs @ [c]) old" using o assms(2) by simp_all
  then show ?thesis unfolding cache_true_def using o(3,4) by blast
qed

lemma path_calls_ok:
  assumes "graph_ok g" "fabric_ok g" "cache_ok sv" "cache_true g sv"
  shows "case fold path_call_step cs (g, sv) of
    (g', sv') \<Rightarrow> graph_ok g' \<and> fabric_ok g' \<and> cache_ok sv' \<and> cache_true g' sv' \<and> ps_limits sv' = ps_limits sv"
  using assms
proof (induction cs arbitrary: g sv)
  case (Cons c cs)
  show ?case
  proof (cases c)
    case (CallLookup ep)
    then show ?thesis using Cons.IH [of g "snd (lookup g ep sv)"] lookup_correct [OF Cons.prems, of ep] Cons.prems by simp
  next
    case (CallOperational gc)
    then show ?thesis
      using Cons.IH [of "graph_call_step gc g" sv] Cons.IH [of g sv] Cons.prems graph_call_step_ok fabric_call_step cache_true_step
      by simp
  qed
qed simp

section \<open>Properties of the path service\<close>

text \<open>C12. Route enumeration is exact. On the graph left by any calls on an empty topology graph, the path
  service answers for two different known NICs or switches with all shortest paths over operational fabric
  links, each once and in lexicographic order, and with none when there is no path. It refuses other
  endpoints, a shortest path longer than the hop limit, and a set of shortest paths that exceeds the limit
  on paths or on cached entries.\<close>

theorem enumerate_paths_exact:
  "let g = fold graph_call_step cs empty_graph;
       P = (\<lambda>as. is_path (fabric_arcs g) (arc_head g) s as t);
       d = (LEAST n. \<exists>as. P as \<and> length as = n);
       R = {map arc_id as |as. P as \<and> length as = d}
   in enumerate_paths g lim (s, t) =
     (if \<not> (contains_node g s \<and> kind s \<noteq> Gpu \<and> contains_node g t \<and> kind t \<noteq> Gpu)
      then Inl (InvalidArgument ''routing endpoint must be a known NIC or switch'')
      else if s = t then Inl (InvalidArgument ''routing requires distinct endpoints'')
      else if \<not> (\<exists>as. P as) then Inr []
      else if d > maximum_hops lim then Inl (LengthError ''shortest route exceeds hop limit'')
      else if card R \<le> maximum_paths lim \<and> card R \<le> maximum_cached_route_entries lim div d
      then Inr (sorted_list_of_set R)
      else Inl (LengthError ''complete shortest-path set exceeds routing limits''))"
proof -
  define g where "g = fold graph_call_step cs empty_graph"
  have ok: "graph_ok g" "fabric_ok g"
    unfolding g_def by (simp_all add: graph_calls_ok [OF empty_graph_ok] fabric_calls [OF empty_graph_ok empty_fabric_ok])
  show ?thesis
    unfolding g_def [symmetric] Let_def enumerate_paths_eq [OF ok] enumeration_def shortest_routes_def
      shortest_length_def routable_def by auto
qed


text \<open>C11. The cache is transparent. A path service created for a graph answers, after any sequence of lookups
  and of changes to operational states, exactly what enumerating the paths of the current graph gives,
  errors included. Its cache stays within the limits on pairs and on route entries, and the statistics count
  what it holds.\<close>

theorem lookup_transparent:
  assumes "new_path_service (fold graph_call_step gs empty_graph) lim = Inr sv"
  shows "case fold path_call_step cs (fold graph_call_step gs empty_graph, sv) of (g', sv') \<Rightarrow>
      fst (lookup g' ep sv') = enumerate_paths g' lim ep
      \<and> stat_pairs (statistics sv') \<le> maximum_cached_pairs lim
      \<and> cache_entries (statistics sv') \<le> maximum_cached_route_entries lim
      \<and> cache_entries (statistics sv') = sum_list (map (\<lambda>(_, ps). sum_list (map length ps)) (ps_cache sv'))
      \<and> stat_paths (statistics sv') = sum_list (map (\<lambda>(_, ps). length ps) (ps_cache sv'))"
proof -
  let ?g = "fold graph_call_step gs empty_graph"
  have ok: "graph_ok ?g" "fabric_ok ?g"
    by (simp_all add: graph_calls_ok [OF empty_graph_ok] fabric_calls [OF empty_graph_ok empty_fabric_ok])
  have lim: "ps_limits sv = lim" and co: "cache_ok sv" and rev: "ps_revision sv = operational_revision ?g" "ps_cache sv = []"
    using assms by (auto simp: new_path_service_def cache_ok_def cached_entries_def cached_paths_def split: if_splits)
  have ct: "cache_true ?g sv" unfolding cache_true_def by (rule exI [of _ ?g], rule exI [of _ "[]"]) (use rev in simp)
  obtain g' sv' where f: "fold path_call_step cs (?g, sv) = (g', sv')" by fastforce
  then have "graph_ok g'" "fabric_ok g'" "cache_ok sv'" "cache_true g' sv'" "ps_limits sv' = lim"
    using path_calls_ok [OF ok co ct, of cs] lim by simp_all
  then show ?thesis using f lookup_correct(1) [of g' sv' ep]
    by (simp add: statistics_def cache_ok_def cached_entries_def cached_paths_def)
qed

text \<open>A graph with two NICs on one leaf switch, and a route between them that a failed port removes.\<close>

definition two_nics :: "graph_call list" where
  "two_nics = [CallAddRack, CallAddLeaf 0, CallAddNic 0, CallAddNic 0,
     CallConnect (NodeId Nic 0) FabricUplink (NodeId Switch 0) FabricDownlink,
     CallConnect (NodeId Nic 1) FabricUplink (NodeId Switch 0) FabricDownlink]"

theorem lookup_transparent_witness:
  "let g = fold graph_call_step two_nics empty_graph; ep = (NodeId Nic 0, NodeId Nic 1)
   in case new_path_service g default_path_limits of
        Inl e \<Rightarrow> False
      | Inr sv \<Rightarrow>
          (case fold path_call_step [CallLookup ep, CallOperational (CallLinkState 1 Down)] (g, sv) of (g', sv') \<Rightarrow>
             fst (lookup g' ep sv') = enumerate_paths g' default_path_limits ep)"
proof -
  let ?g = "fold graph_call_step two_nics empty_graph" and ?ep = "(NodeId Nic 0, NodeId Nic 1)"
  obtain sv where sv: "new_path_service ?g default_path_limits = Inr sv"
    by (auto simp: new_path_service_def default_path_limits_def)
  show ?thesis
    using lookup_transparent [OF sv, of ?ep "[CallLookup ?ep, CallOperational (CallLinkState 1 Down)]"] sv
    by (simp add: Let_def split: prod.splits)
qed

end
