(* ===== verification/Routing_Policy.thy ===== *)
theory Routing_Policy
  imports Transport Path_Service "HOL-Library.Char_ord"
begin

text \<open>
  Routing policies (\<^verbatim>\<open>routing/policy.hpp\<close>, \<^verbatim>\<open>routing/policy.cpp\<close>): what a policy sees of the fabric, the
  scores of a path, the four built-in policies and the registry they are created from. A policy is a record
  of its name, its version and its choice function; a factory is what calling it gives, a policy or nothing.
\<close>

section \<open>Requests and the view of the fabric\<close>

record route_request =
  rq_flow :: u64
  rq_endpoints :: endpoints
  rq_bytes :: byte_count
  rq_maximum_chunk_bytes :: byte_count

record link_load =
  outstanding_bytes :: byte_count
  load_bandwidth :: u64
  load_propagation :: sim_duration

record route_choice =
  ch_candidate :: size_t
  ch_score :: u64
  ch_reason :: string

definition routing_add :: "u64 \<Rightarrow> u64 \<Rightarrow> exn + u64" where
  "routing_add left right =
     (if right > u64_max - left then Inl (OverflowError ''routing score overflow'') else Inr (left + right))"

definition fabric_read :: "network \<Rightarrow> directed_link_id \<Rightarrow> exn + link_load" where
  "fabric_read n link =
     (case find_service n link of
        None \<Rightarrow> Inl (InvalidArgument ''routing path uses unconfigured transport arc'')
      | Some service \<Rightarrow>
          let queue = svc_queue service
          in bindR (routing_add (snap_waiting_bytes (queue_snapshot_of queue))
                      (case lq_active queue of None \<Rightarrow> 0 | Some c \<Rightarrow> tc_bytes c)) (\<lambda>bytes.
             Inr \<lparr>outstanding_bytes = bytes, load_bandwidth = bandwidth (lq_configuration queue),
                  load_propagation = propagation_delay (lq_configuration queue)\<rparr>))"

section \<open>The built-in policies\<close>

datatype policy_kind = Shortest | Ecmp | LeastLoaded | QueueAware

definition link_score :: "network \<Rightarrow> route_request \<Rightarrow> policy_kind \<Rightarrow> u64 \<Rightarrow> directed_link_id \<Rightarrow> exn + u64" where
  "link_score n request k result link =
     bindR (fabric_read n link) (\<lambda>load.
     if k = LeastLoaded then routing_add result (outstanding_bytes load)
     else bindR (routing_add (outstanding_bytes load) (min (rq_bytes request) (rq_maximum_chunk_bytes request))) (\<lambda>bytes.
          case serialization_delay bytes (load_bandwidth load) of
            None \<Rightarrow> Inl (OverflowError ''queue-aware delay overflow'')
          | Some delay \<Rightarrow> bindR (routing_add delay (load_propagation load)) (routing_add result)))"

fun score_from :: "network \<Rightarrow> route_request \<Rightarrow> policy_kind \<Rightarrow> u64 \<Rightarrow> path \<Rightarrow> exn + u64" where
  "score_from n request k result [] = Inr result"
| "score_from n request k result (link # rest) =
     bindR (link_score n request k result link) (\<lambda>r. score_from n request k r rest)"

definition score :: "network \<Rightarrow> route_request \<Rightarrow> policy_kind \<Rightarrow> path \<Rightarrow> exn + u64" where
  "score n request k pth = score_from n request k 0 pth"

definition ecmp_byte :: "u64 \<Rightarrow> u64 \<Rightarrow> nat \<Rightarrow> u64" where
  "ecmp_byte field hash shift = xor hash (and (drop_bit shift field) 255) * 1099511628211"

definition ecmp_hash :: "route_request \<Rightarrow> u64 \<Rightarrow> u64" where
  "ecmp_hash request seed =
     (let (src, dst) = rq_endpoints request
      in fold (\<lambda>field hash. foldl (ecmp_byte field) hash [0, 8, 16, 24, 32, 40, 48, 56])
           [1, seed, rq_flow request, node_kind_code (kind src), node_value src,
            node_kind_code (kind dst), node_value dst] 14695981039346656037)"

text \<open>The loop over the candidates after the first, keeping the best so far.\<close>

fun choose_loop :: "network \<Rightarrow> route_request \<Rightarrow> policy_kind \<Rightarrow> path list \<Rightarrow> size_t \<Rightarrow> route_choice \<Rightarrow> exn + route_choice" where
  "choose_loop n request k [] index best = Inr best"
| "choose_loop n request k (pth # rest) index best =
     bindR (score n request k pth) (\<lambda>candidate_score.
     choose_loop n request k rest (index + 1)
       (if candidate_score < ch_score best then best\<lparr>ch_candidate := index, ch_score := candidate_score\<rparr> else best))"

definition choose_route :: "policy_kind \<Rightarrow> network \<Rightarrow> route_request \<Rightarrow> u64 \<Rightarrow> path list \<Rightarrow> exn + route_choice" where
  "choose_route k n request seed candidates =
     (if candidates = [] \<or> rq_bytes request = 0 \<or> rq_maximum_chunk_bytes request = 0
      then Inl (InvalidArgument ''policy requires candidates and nonzero transfer quantities'')
      else if k = Shortest
      then Inr \<lparr>ch_candidate = 0, ch_score = 0, ch_reason = ''canonical minimum-hop path''\<rparr>
      else if k = Ecmp
      then Inr \<lparr>ch_candidate = unat (ecmp_hash request seed) mod length candidates, ch_score = 0,
                ch_reason = ''stable flow hash over all equal-hop paths''\<rparr>
      else bindR (score n request k (hd candidates)) (\<lambda>first.
           choose_loop n request k (tl candidates) 1
             \<lparr>ch_candidate = 0, ch_score = first,
              ch_reason = if k = LeastLoaded then ''minimum outstanding byte sum''
                          else ''minimum estimated first-chunk delay ns''\<rparr>))"

section \<open>The registry\<close>

record routing_policy =
  rp_name :: string
  rp_version :: u64
  rp_choose :: "network \<Rightarrow> route_request \<Rightarrow> u64 \<Rightarrow> path list \<Rightarrow> exn + route_choice"

text \<open>An empty \<^verbatim>\<open>std::function\<close> is \<open>None\<close>; \<open>Some None\<close> is a factory that returns a null pointer.\<close>

type_synonym factory = "routing_policy option option"
type_synonym policy_registry = "(string, routing_policy option) omap"

definition baseline_policy :: "string \<Rightarrow> policy_kind \<Rightarrow> routing_policy" where
  "baseline_policy name k = \<lparr>rp_name = name, rp_version = 1, rp_choose = choose_route k\<rparr>"

definition registry_add :: "string \<Rightarrow> factory \<Rightarrow> policy_registry \<Rightarrow> exn + policy_registry" where
  "registry_add name factory reg =
     (case factory of
        None \<Rightarrow> Inl (InvalidArgument ''invalid or duplicate routing policy registration'')
      | Some mk \<Rightarrow>
          if name = [] \<or> map_of reg name \<noteq> None
          then Inl (InvalidArgument ''invalid or duplicate routing policy registration'')
          else Inr (omap_put name mk reg))"

definition new_policy_registry :: "exn + policy_registry" where
  "new_policy_registry =
     bindR (registry_add ''shortest-path'' (Some (Some (baseline_policy ''shortest-path'' Shortest))) []) (\<lambda>r.
     bindR (registry_add ''ecmp'' (Some (Some (baseline_policy ''ecmp'' Ecmp))) r) (\<lambda>r.
     bindR (registry_add ''least-loaded'' (Some (Some (baseline_policy ''least-loaded'' LeastLoaded))) r) (\<lambda>r.
     registry_add ''queue-aware'' (Some (Some (baseline_policy ''queue-aware'' QueueAware))) r)))"

definition registry_create :: "policy_registry \<Rightarrow> string \<Rightarrow> exn + routing_policy" where
  "registry_create reg name =
     (case map_of reg name of
        None \<Rightarrow> Inl (InvalidArgument ''unknown routing policy'')
      | Some made \<Rightarrow>
          (case made of
             None \<Rightarrow> Inl (InvalidArgument ''routing factory returned invalid policy identity'')
           | Some policy \<Rightarrow>
               if rp_name policy \<noteq> name \<or> rp_version policy = 0
               then Inl (InvalidArgument ''routing factory returned invalid policy identity'')
               else Inr policy))"

definition registry_names :: "policy_registry \<Rightarrow> string list" where
  "registry_names reg = map fst reg"

section \<open>Properties of the policies\<close>

text \<open>What the loop keeps: the best of the candidates scored so far, the first of them among equals.\<close>

definition best_of :: "network \<Rightarrow> route_request \<Rightarrow> policy_kind \<Rightarrow> path list \<Rightarrow> route_choice \<Rightarrow> bool" where
  "best_of n request k ps c \<longleftrightarrow>
     ch_candidate c < length ps \<and> score n request k (ps ! ch_candidate c) = Inr (ch_score c)
     \<and> (\<forall>i<length ps. \<exists>x. score n request k (ps ! i) = Inr x \<and> ch_score c \<le> x
          \<and> (i < ch_candidate c \<longrightarrow> ch_score c < x))"

lemma best_of_snoc:
  assumes "best_of n request k ps c" "score n request k p = Inr x"
  shows "best_of n request k (ps @ [p]) (if x < ch_score c then c\<lparr>ch_candidate := length ps, ch_score := x\<rparr> else c)"
proof (cases "x < ch_score c")
  case True
  have "\<exists>y. score n request k ((ps @ [p]) ! i) = Inr y \<and> x \<le> y \<and> (i < length ps \<longrightarrow> x < y)" if "i < Suc (length ps)" for i
  proof (cases "i < length ps")
    case True
    then obtain y where "score n request k (ps ! i) = Inr y" "ch_score c \<le> y" using assms(1) by (auto simp: best_of_def)
    then show ?thesis using True \<open>x < ch_score c\<close> by (auto simp: nth_append)
  qed (use that assms(2) in \<open>auto simp: less_Suc_eq\<close>)
  then show ?thesis using True assms(2) by (simp add: best_of_def)
next
  case False
  then show ?thesis using assms by (auto simp: best_of_def nth_append less_Suc_eq)
qed

lemma choose_loop_best:
  "best_of n request k ps best \<Longrightarrow>
   (case choose_loop n request k qs (length ps) best of
      Inr c \<Rightarrow> best_of n request k (ps @ qs) c \<and> ch_reason c = ch_reason best
    | Inl e \<Rightarrow> \<exists>p\<in>set qs. score n request k p = Inl e)"
proof (induction qs arbitrary: ps best)
  case (Cons q qs)
  show ?case
  proof (cases "score n request k q")
    case (Inr x)
    let ?b = "if x < ch_score best then best\<lparr>ch_candidate := length ps, ch_score := x\<rparr> else best"
    have "best_of n request k (ps @ [q]) ?b" by (rule best_of_snoc [OF Cons.prems Inr])
    from Cons.IH [OF this] show ?thesis using Inr by (auto split: sum.splits)
  qed simp
qed simp

text \<open>C13. The built-in routing policies choose correctly. With candidates and nonzero quantities, the
  shortest-path policy takes the first candidate and the hashing policy one of the candidates, the same for
  every request with the same flow, endpoints and seed. The two load-aware policies take a candidate whose
  score, the outstanding bytes or the estimated delay along the path, is least, and the first such
  candidate; they fail only with the error that scoring a candidate raises. Without candidates, or with
  a zero quantity, every policy refuses.\<close>

theorem choose_route_exact:
  "case choose_route k n request seed ps of
     Inr c \<Rightarrow>
       ps \<noteq> [] \<and> rq_bytes request \<noteq> 0 \<and> rq_maximum_chunk_bytes request \<noteq> 0 \<and> ch_candidate c < length ps
       \<and> (case k of
            Shortest \<Rightarrow> ch_candidate c = 0
          | Ecmp \<Rightarrow> ch_candidate c = unat (ecmp_hash request seed) mod length ps
          | _ \<Rightarrow> score n request k (ps ! ch_candidate c) = Inr (ch_score c)
              \<and> {x. \<exists>p\<in>set ps. score n request k p = Inr x \<and> x < ch_score c} = {}
              \<and> {x. \<exists>i<ch_candidate c. score n request k (ps ! i) = Inr x \<and> x = ch_score c} = {}
              \<and> {p\<in>set ps. \<exists>e. score n request k p = Inl e} = {})
   | Inl e \<Rightarrow>
       if ps = [] \<or> rq_bytes request = 0 \<or> rq_maximum_chunk_bytes request = 0
       then e = InvalidArgument ''policy requires candidates and nonzero transfer quantities''
       else (k = LeastLoaded \<or> k = QueueAware) \<and> (\<exists>p\<in>set ps. score n request k p = Inl e)"
proof (cases "ps = [] \<or> rq_bytes request = 0 \<or> rq_maximum_chunk_bytes request = 0 \<or> k = Shortest \<or> k = Ecmp")
  case True
  then show ?thesis by (cases k) (auto simp: choose_route_def)
next
  case False
  then obtain p qs where ps: "ps = p # qs" by (cases ps) auto
  have k: "k = LeastLoaded \<or> k = QueueAware" using False by (cases k) auto
  show ?thesis
  proof (cases "score n request k p")
    case (Inl e)
    then show ?thesis using False k ps by (auto simp: choose_route_def)
  next
    case (Inr x)
    define b where "b = \<lparr>ch_candidate = 0, ch_score = x,
      ch_reason = if k = LeastLoaded then ''minimum outstanding byte sum'' else ''minimum estimated first-chunk delay ns''\<rparr>"
    have eq: "choose_route k n request seed ps = choose_loop n request k qs 1 b"
      using False Inr ps by (simp add: choose_route_def b_def)
    have "best_of n request k [p] b" using Inr by (simp add: best_of_def b_def)
    from choose_loop_best [OF this, of qs] have best: "case choose_route k n request seed ps of
        Inr c \<Rightarrow> best_of n request k ps c \<and> ch_reason c = ch_reason b | Inl e \<Rightarrow> \<exists>p\<in>set qs. score n request k p = Inl e"
      using eq ps by (simp split: sum.splits)
    have least: "{x. \<exists>p\<in>set ps. score n request k p = Inr x \<and> x < ch_score c} = {}
        \<and> {x. \<exists>i<ch_candidate c. score n request k (ps ! i) = Inr x \<and> x = ch_score c} = {}
        \<and> {p\<in>set ps. \<exists>e. score n request k p = Inl e} = {}" if "best_of n request k ps c" for c
    proof -
      have all: "\<exists>x. score n request k q = Inr x \<and> ch_score c \<le> x" if "q \<in> set ps" for q
        using that \<open>best_of n request k ps c\<close> unfolding best_of_def in_set_conv_nth by blast
      have before: "\<exists>x. score n request k (ps ! i) = Inr x \<and> ch_score c < x" if "i < ch_candidate c" for i
        using that \<open>best_of n request k ps c\<close> unfolding best_of_def by (meson order_less_trans)
      show ?thesis using all before by (fastforce simp: not_less [symmetric])
    qed
    show ?thesis
    proof (cases "choose_route k n request seed ps")
      case (Inl e)
      then show ?thesis using best False k ps by auto
    next
      case (Inr c)
      then have bo: "best_of n request k ps c" using best by simp
      then have "ch_candidate c < length ps" "score n request k (ps ! ch_candidate c) = Inr (ch_score c)"
        unfolding best_of_def by blast+
      then show ?thesis using Inr False k least [OF bo] by (elim disjE) simp_all
    qed
  qed
qed

end
