(* ===== verification/Router.thy ===== *)
theory Router
  imports Routing_Policy
begin

text \<open>
  The router (\<^verbatim>\<open>routing/router.hpp\<close>, \<^verbatim>\<open>routing/router.cpp\<close>): it looks up the shortest paths of a request,
  lets the policy choose one, submits the transfer to the transport on that path and keeps a record of the
  decision. The router shares its topology graph with the transport, so its operations are programs over the
  simulation, the network and the router.
\<close>

section \<open>State\<close>

record routing_configuration =
  cfg_policy :: string
  cfg_seed :: u64
  cfg_paths :: path_limits
  cfg_maximum_decisions :: size_t

record route_decision =
  dec_request :: route_request
  dec_policy :: string
  dec_version :: u64
  dec_timestamp :: sim_time
  dec_revision :: u64
  dec_candidates :: size_t
  dec_path :: path
  dec_score :: u64
  dec_reason :: string
  dec_transfer :: "transfer_id option"

record router =
  rt_configuration :: routing_configuration
  rt_policy :: routing_policy
  rt_paths :: path_service
  rt_sink :: bool
  rt_decisions :: "route_decision list"
  rt_next_decision_id :: u64
  rt_decision_ids_exhausted :: bool

type_synonym routing_world = "simulation \<times> network \<times> router"

definition new_router :: "topology_graph \<Rightarrow> policy_registry \<Rightarrow> routing_configuration \<Rightarrow> bool \<Rightarrow> exn + router" where
  "new_router g registry config sink =
     bindR (registry_create registry (cfg_policy config)) (\<lambda>policy.
     bindR (new_path_service g (cfg_paths config)) (\<lambda>paths.
     if cfg_maximum_decisions config = 0 then Inl (InvalidArgument ''routing decision limit must be positive'')
     else Inr \<lparr>rt_configuration = config, rt_policy = policy, rt_paths = paths, rt_sink = sink,
            rt_decisions = [], rt_next_decision_id = 0, rt_decision_ids_exhausted = False\<rparr>))"

definition in_transport :: "(world, 'a) prog \<Rightarrow> (routing_world, 'a) prog" where
  "in_transport = zoom (\<lambda>(s, n, r). (s, n)) (\<lambda>(s, n) (_, _, r). (s, n, r))"

definition in_router :: "(router, 'a) prog \<Rightarrow> (routing_world, 'a) prog" where
  "in_router = zoom (\<lambda>(s, n, r). r) (\<lambda>r (s, n, _). (s, n, r))"

definition get_router :: "(router \<Rightarrow> 'a) \<Rightarrow> (routing_world, 'a) prog" where
  "get_router f = gets (\<lambda>(s, n, r). f r)"

definition get_network :: "(network \<Rightarrow> 'a) \<Rightarrow> (routing_world, 'a) prog" where
  "get_network f = gets (\<lambda>(s, n, r). f n)"

section \<open>Operations\<close>

definition next_decision_id :: "(router, routing_decision_id) prog" where
  "next_decision_id =
     bind (gets rt_decision_ids_exhausted) (\<lambda>exhausted.
     seq (throw_if exhausted (OverflowError ''routing decision ID sequence exhausted''))
     (bind (gets rt_next_decision_id) (\<lambda>i.
      seq (modify (\<lambda>r. if rt_next_decision_id r = u64_max then r\<lparr>rt_decision_ids_exhausted := True\<rparr>
                       else r\<lparr>rt_next_decision_id := rt_next_decision_id r + 1\<rparr>))
          (return i))))"

primrec routing_outcome_code :: "routing_decision_outcome \<Rightarrow> u64" where
  "routing_outcome_code RouteSelected = 1"
| "routing_outcome_code RouteNoRoute = 2"
| "routing_outcome_code RouteRejected = 3"

definition router_record :: "correlation \<Rightarrow> telemetry_observation \<Rightarrow> (routing_world, unit) prog" where
  "router_record c ob =
     bind (in_transport now) (\<lambda>t.
     bind (get_router rt_sink) (\<lambda>sink.
     zoom_sim (zoom_session (sink_record sink t c ob))))"

definition emit_decision :: "route_decision \<Rightarrow> routing_decision_outcome \<Rightarrow> routing_decision_id \<Rightarrow> (routing_world, unit) prog" where
  "emit_decision decision outcome i =
     bind (gets (\<lambda>(s, n, r). sink_enabled (rt_sink r) (sim_session s))) (\<lambda>on.
     perform_if on
       (bind (in_transport event_correlation) (\<lambda>base.
        let c = base\<lparr>cor_transfer := dec_transfer decision, cor_routing_decision := Some i\<rparr>
        in seq (router_record c (RoutingDecisionObservation
                  \<lparr>rd_decision = i, rd_policy = dec_policy decision, rd_policy_version = dec_version decision,
                   rd_operational_revision = dec_revision decision, rd_candidate_count = of_nat (dec_candidates decision),
                   rd_selected_path = dec_path decision, rd_score = dec_score decision, rd_reason = dec_reason decision,
                   rd_transfer = dec_transfer decision, rd_outcome = outcome\<rparr>))
               (router_record c (CounterObservation MetricRoutingDecisionTotal
                  [(LabelPolicy, policy_label_value (dec_policy decision)), (LabelOutcome, routing_outcome_code outcome)] 1)))))"

definition keep_decision :: "route_decision \<Rightarrow> routing_decision_outcome \<Rightarrow> (routing_world, unit) prog" where
  "keep_decision decision outcome =
     bind (in_router next_decision_id) (\<lambda>i.
     seq (emit_decision decision outcome i)
         (in_router (modify (\<lambda>r. r\<lparr>rt_decisions := rt_decisions r @ [decision]\<rparr>))))"

definition router_lookup :: "endpoints \<Rightarrow> (routing_world, path list) prog" where
  "router_lookup ep =
     bind (get_network net_topology) (\<lambda>g.
     in_router (zoom rt_paths (\<lambda>ps r. r\<lparr>rt_paths := ps\<rparr>) (lookup g ep)))"

definition router_submit :: "route_request \<Rightarrow> (routing_world, submitted_transfer option) prog" where
  "router_submit request =
     seq (throw_if (rq_bytes request = 0 \<or> rq_maximum_chunk_bytes request = 0)
            (InvalidArgument ''routing requires nonzero transfer quantities''))
     (bind (get_router (\<lambda>r. length (rt_decisions r) = cfg_maximum_decisions (rt_configuration r))) (\<lambda>full.
      seq (throw_if full (LengthError ''drain routing decisions before submitting more work''))
     (bind (router_lookup (rq_endpoints request)) (\<lambda>candidates.
      bind (get_router rt_policy) (\<lambda>policy.
      bind (in_transport now) (\<lambda>t.
      bind (get_network (operational_revision \<circ> net_topology)) (\<lambda>revision.
      let decision = \<lparr>dec_request = request, dec_policy = rp_name policy, dec_version = rp_version policy,
            dec_timestamp = t, dec_revision = revision, dec_candidates = length candidates, dec_path = [],
            dec_score = 0, dec_reason = ''no operational fabric path'', dec_transfer = None\<rparr>
      in if candidates = []
         then seq (keep_decision decision RouteNoRoute) (return None)
         else
           bind (gets (\<lambda>(s, n, r). rp_choose policy n request (cfg_seed (rt_configuration r)) candidates)) (\<lambda>chosen.
           bind (lift_res chosen) (\<lambda>choice.
           seq (throw_if (ch_candidate choice \<ge> length candidates)
                  (InvalidArgument ''routing policy returned invalid candidate index''))
           (let pth = candidates ! ch_candidate choice
            in bind (in_transport (submit_transfer
                  \<lparr>req_source = fst (rq_endpoints request), req_destination = snd (rq_endpoints request),
                   req_bytes = rq_bytes request, req_maximum_chunk_bytes = rq_maximum_chunk_bytes request,
                   req_route = pth\<rparr>)) (\<lambda>transfer.
               seq (keep_decision (decision\<lparr>dec_path := pth, dec_score := ch_score choice, dec_reason := ch_reason choice,
                      dec_transfer := Some (sub_id transfer)\<rparr>) RouteSelected)
                   (return (Some transfer)))))))))))))"

definition take_decisions :: "(router, route_decision list) prog" where
  "take_decisions = bind (gets rt_decisions) (\<lambda>ds. seq (modify (\<lambda>r. r\<lparr>rt_decisions := []\<rparr>)) (return ds))"

definition router_cache_statistics :: "router \<Rightarrow> cache_statistics" where
  "router_cache_statistics r = statistics (rt_paths r)"

section \<open>Routes the transport accepts\<close>

lemma require_fabric_arc_live:
  assumes "a \<in> set (fabric_arcs (net_topology n) v)"
  shows "require_fabric_arc n (arc_id a) = Inr a"
proof -
  note d = fabric_arcD [OF assms]
  obtain l where l: "find_link (net_topology n) (dl_link (arc_id a)) = Some l" "a \<in> set (directed_links l)"
    using d(1) by (auto simp: is_operational_def split: option.splits)
  then have "link_kind l = Fabric" using d(2) by (simp add: is_fabric_def)
  moreover have "a = (case dl_direction (arc_id a) of AToB \<Rightarrow> directed_link_a_to_b l | BToA \<Rightarrow> directed_link_b_to_a l)"
    using l(2) by (auto simp: directed_links_def directed_link_a_to_b_def directed_link_b_to_a_def)
  ultimately show ?thesis using l(1) by (cases "dl_direction (arc_id a)") (simp_all add: require_fabric_arc_def)
qed

lemma live_port_owners:
  assumes "a \<in> set (fabric_arcs (net_topology n) v)"
  shows "port_owner_of n (arc_source a) = Some v"
    "port_owner_of n (arc_destination a) = Some (arc_head (net_topology n) a)"
  using operational_ends(1,2) [OF fabric_arcD(1) [OF assms]] fabric_arcD(3) [OF assms]
  by (auto simp: port_owner_of_def arc_tail_def arc_head_def)

lemma check_hops_live:
  assumes "is_path (fabric_arcs (net_topology n)) (arc_head (net_topology n)) u as t"
    and "port_owner_of n (arc_destination previous) = Some u" "\<forall>a\<in>set as. find_service n (arc_id a) \<noteq> None"
  shows "\<exists>final. check_hops n previous (map arc_id as) = Inr final \<and> port_owner_of n (arc_destination final) = Some t"
  using assms
proof (induction as arbitrary: u previous)
  case (Cons a as)
  then have a: "a \<in> set (fabric_arcs (net_topology n) u)"
    and rest: "is_path (fabric_arcs (net_topology n)) (arc_head (net_topology n)) (arc_head (net_topology n) a) as t" by simp_all
  have "\<exists>final. check_hops n a (map arc_id as) = Inr final \<and> port_owner_of n (arc_destination final) = Some t"
    by (rule Cons.IH [OF rest live_port_owners(2) [OF a]]) (use Cons.prems in simp)
  then show ?case using Cons.prems(2,3) live_port_owners [OF a] require_fabric_arc_live [OF a] by simp
qed simp

lemma route_accepted:
  assumes p: "is_path (fabric_arcs (net_topology n)) (arc_head (net_topology n)) s as t" "as \<noteq> []"
    and svc: "\<forall>a\<in>set as. find_service n (arc_id a) \<noteq> None"
    and len: "length as \<le> maximum_route_hops (net_limits n)" "length as \<le> 1024"
  shows "validate_route n (map arc_id as) (Some s) (Some t) = Inr ()"
proof -
  obtain a bs where as: "as = a # bs" using p(2) by (cases as) auto
  then have a: "a \<in> set (fabric_arcs (net_topology n) s)"
    and rest: "is_path (fabric_arcs (net_topology n)) (arc_head (net_topology n)) (arc_head (net_topology n) a) bs t" using p(1) by simp_all
  obtain final where "check_hops n a (map arc_id bs) = Inr final" "port_owner_of n (arc_destination final) = Some t"
    using check_hops_live [OF rest live_port_owners(2) [OF a]] svc as by auto
  moreover have "validate_capacity n 0 (length as) = Inr ()" using len(1) by (simp add: validate_capacity_def)
  ultimately show ?thesis using as svc live_port_owners [OF a] require_fabric_arc_live [OF a] len
    by (simp add: validate_route_def)
qed

lemma enumerated_path:
  assumes ok: "graph_ok g" "fabric_ok g" and e: "enumerate_paths g lim (s, t) = Inr ps" and p: "p \<in> set ps"
  obtains as where "p = map arc_id as" "is_path (fabric_arcs g) (arc_head g) s as t" "as \<noteq> []"
    "length as \<le> maximum_hops lim" "\<And>bs. is_path (fabric_arcs g) (arc_head g) s bs t \<Longrightarrow> length as \<le> length bs"
proof -
  have en: "enumeration g lim s t = Inr ps" using e enumerate_paths_eq [OF ok] by simp
  then have st: "s \<noteq> t" "\<not> shortest_length g s t > maximum_hops lim" "ps = sorted_list_of_set (shortest_routes g s t)"
    and ex: "\<exists>as. is_path (fabric_arcs g) (arc_head g) s as t"
    using p by (auto simp: enumeration_def split: if_splits)
  from ex obtain bs where "is_path (fabric_arcs g) (arc_head g) s bs t" by blast
  from level_exists [OF this] obtain h where h: "level (fabric_arcs g) (arc_head g) s t h" by blast
  have "finite (shortest_routes g s t)" unfolding level_shortest [OF h] by (simp add: finite_paths_of)
  then have "p \<in> shortest_routes g s t" using p st(3) by simp
  then obtain as where as: "p = map arc_id as" "is_path (fabric_arcs g) (arc_head g) s as t" "length as = h"
    unfolding level_shortest [OF h] by (auto simp: paths_of_def)
  moreover have "as \<noteq> []" using as(2) st(1) by auto
  moreover have "length as \<le> maximum_hops lim" using as(3) st(2) level_shortest(1) [OF h] by simp
  ultimately show thesis using that h by (auto simp: level_def)
qed

end
