(* ===== verification/Collective_Runtime.thy ===== *)
theory Collective_Runtime
  imports Ring_Plan Router
begin

text \<open>
  The ring executor (\<^verbatim>\<open>collective/runtime.hpp\<close>, \<^verbatim>\<open>collective/runtime.cpp\<close>): it carries out the planned rounds
  of an all-reduce over the router, or over a timed local copy when both ranks share a NIC. A reference to
  a record of the source is the key of the record here, so that every change is seen through the map.
\<close>

section \<open>State\<close>

record collective_request =
  participants :: "gpu_id list"
  coll_bytes :: byte_count
  coll_chunk_bytes :: byte_count

record collective_result =
  res_id :: collective_id
  res_outcome :: phase
  res_started :: sim_time
  res_finished :: sim_time
  planned_bytes :: u64
  issued_fabric_bytes :: u64
  issued_local_bytes :: u64
  delivered_bytes :: u64
  res_reason :: string

record collective_timeline =
  tl_id :: collective_id
  tl_timestamp :: sim_time
  tl_phase :: phase
  tl_round :: u32

record collective_configuration =
  local_bandwidth :: bits_per_second
  local_latency :: sim_duration
  maximum_collectives :: size_t
  maximum_participant_entries :: size_t
  maximum_timeline_entries :: size_t

record collective_record =
  cl_request :: collective_request
  cl_result :: collective_result
  cl_phase :: phase
  cl_round :: u32
  cl_pending :: size_t
  cl_failed :: bool
  cl_cancelled :: bool
  cl_finished :: bool

record pending_transfer =
  pend_collective :: collective_id
  pend_bytes :: u64

record local_pending =
  loc_transfer :: pending_transfer
  loc_event :: event_payload

record collective_progress =
  pr_phase :: phase
  pr_round :: u32
  pr_pending :: size_t
  pr_issued_fabric_bytes :: u64
  pr_issued_local_bytes :: u64
  pr_delivered_bytes :: u64
  pr_completion :: "collective_result option"

record executor =
  ex_configuration :: collective_configuration
  ex_sink :: bool
  participant_entries :: size_t
  next_flow :: u64
  ex_records :: "(collective_id, collective_record) omap"
  ex_transfers :: "(transfer_id, pending_transfer) omap"
  ex_locals :: "(event_id, local_pending) omap"
  ex_completed :: "collective_result list"
  ex_timeline :: "collective_timeline list"

type_synonym collective_world = "simulation \<times> network \<times> router \<times> executor"

definition new_executor :: "collective_configuration \<Rightarrow> bool \<Rightarrow> exn + executor" where
  "new_executor config sink =
     (if local_bandwidth config = 0 \<or> maximum_collectives config = 0 \<or> maximum_participant_entries config = 0
         \<or> maximum_timeline_entries config = 0
      then Inl (InvalidArgument ''invalid collective configuration'')
      else Inr \<lparr>ex_configuration = config, ex_sink = sink, participant_entries = 0, next_flow = 0, ex_records = [],
             ex_transfers = [], ex_locals = [], ex_completed = [], ex_timeline = []\<rparr>)"

definition in_routing :: "(routing_world, 'a) prog \<Rightarrow> (collective_world, 'a) prog" where
  "in_routing = zoom (\<lambda>(s, n, r, x). (s, n, r)) (\<lambda>(s, n, r) (_, _, _, x). (s, n, r, x))"

definition get_executor :: "(executor \<Rightarrow> 'a) \<Rightarrow> (collective_world, 'a) prog" where
  "get_executor f = gets (\<lambda>(s, n, r, x). f x)"

definition mod_executor :: "(executor \<Rightarrow> executor) \<Rightarrow> (collective_world, unit) prog" where
  "mod_executor f = modify (\<lambda>(s, n, r, x). (s, n, r, f x))"

definition get_gpus :: "(topology_graph \<Rightarrow> 'a) \<Rightarrow> (collective_world, 'a) prog" where
  "get_gpus f = gets (\<lambda>(s, n, r, x). f (net_topology n))"

definition context_now :: "(simulation \<times> 'c, sim_time) prog" where
  "context_now = gets (sim_now \<circ> fst)"

text \<open>\<^verbatim>\<open>records_.at(id)\<close>, and an update through a reference into the map.\<close>

definition collective_at :: "collective_id \<Rightarrow> (collective_world, collective_record) prog" where
  "collective_at i =
     bind (get_executor (\<lambda>x. map_of (ex_records x) i)) (\<lambda>found.
     case found of None \<Rightarrow> throw (OutOfRange ''map::at'') | Some c \<Rightarrow> return c)"

definition mod_collective :: "collective_id \<Rightarrow> (collective_record \<Rightarrow> collective_record) \<Rightarrow> (collective_world, unit) prog" where
  "mod_collective i f =
     bind (collective_at i) (\<lambda>c. mod_executor (\<lambda>x. x\<lparr>ex_records := omap_put i (f c) (ex_records x)\<rparr>))"

definition mod_result :: "collective_id \<Rightarrow> (collective_result \<Rightarrow> collective_result) \<Rightarrow> (collective_world, unit) prog" where
  "mod_result i f = mod_collective i (\<lambda>c. c\<lparr>cl_result := f (cl_result c)\<rparr>)"

section \<open>Telemetry\<close>

definition context_correlation :: "(simulation \<times> 'c, correlation) prog" where
  "context_correlation =
     bind (zoom_sim current_event_id) (\<lambda>i.
     bind (zoom_sim current_cause) (\<lambda>cs.
     return (no_correlation\<lparr>cor_event := Some i, cor_cause := cs\<rparr>)))"

definition context_record :: "bool \<Rightarrow> correlation \<Rightarrow> telemetry_observation \<Rightarrow> (simulation \<times> 'c, unit) prog" where
  "context_record sink c ob = bind context_now (\<lambda>t. zoom_sim (zoom_session (sink_record sink t c ob)))"

text \<open>An emission: nothing when the sink is off, else the observation with the correlation of the event.\<close>

definition when_enabled :: "bool \<Rightarrow> (correlation \<Rightarrow> (simulation \<times> 'c, unit) prog) \<Rightarrow> (simulation \<times> 'c, unit) prog" where
  "when_enabled sink f =
     bind (gets (\<lambda>w. sink_enabled sink (sim_session (fst w)))) (\<lambda>on.
     perform_if on (bind context_correlation f))"

definition emit :: "collective_id \<Rightarrow> collective_transition \<Rightarrow> transfer_id option \<Rightarrow> u64 \<Rightarrow> (collective_world, unit) prog" where
  "emit i tr transfer bytes =
     bind (get_executor ex_sink) (\<lambda>sink.
     bind (collective_at i) (\<lambda>c.
     when_enabled sink (\<lambda>cor.
       context_record sink (cor\<lparr>cor_collective := Some (res_id (cl_result c)), cor_transfer := transfer\<rparr>)
         (CollectiveObservation tr (cl_phase c) (cl_round c) bytes))))"

definition emit_counter :: "collective_id \<Rightarrow> metric_id \<Rightarrow> u64 \<Rightarrow> transfer_id option \<Rightarrow> (collective_world, unit) prog" where
  "emit_counter i metric amount transfer =
     bind (get_executor ex_sink) (\<lambda>sink.
     bind (collective_at i) (\<lambda>c.
     when_enabled sink (\<lambda>cor.
       context_record sink (cor\<lparr>cor_collective := Some (res_id (cl_result c)), cor_transfer := transfer\<rparr>)
         (CounterObservation metric [] amount))))"

section \<open>Operations\<close>

text \<open>\<^verbatim>\<open>std::map::emplace\<close> leaves an entry with the key as it is.\<close>

definition omap_emplace :: "'k::linorder \<Rightarrow> 'v \<Rightarrow> ('k, 'v) omap \<Rightarrow> ('k, 'v) omap" where
  "omap_emplace k v m = (if map_of m k = None then omap_put k v m else m)"

definition trace :: "collective_id \<Rightarrow> (collective_world, unit) prog" where
  "trace i =
     bind context_now (\<lambda>t.
     bind (collective_at i) (\<lambda>c.
     bind (get_executor (\<lambda>x. length (ex_timeline x) = maximum_timeline_entries (ex_configuration x))) (\<lambda>full.
     seq (throw_if full (LengthError ''collective timeline limit exceeded''))
         (mod_executor (\<lambda>x. x\<lparr>ex_timeline := ex_timeline x @
            [\<lparr>tl_id = res_id (cl_result c), tl_timestamp = t, tl_phase = cl_phase c, tl_round = cl_round c\<rparr>]\<rparr>)))))"

definition final_phase :: "collective_record \<Rightarrow> phase" where
  "final_phase c = (if cl_cancelled c then PhaseCancelled else if cl_failed c then PhaseFailed else PhaseSucceeded)"

definition final_transition :: "phase \<Rightarrow> collective_transition" where
  "final_transition p =
     (if p = PhaseFailed then CollectiveFailed else if p = PhaseCancelled then CollectiveCancelled else CollectiveSucceeded)"

definition finish :: "collective_id \<Rightarrow> (collective_world, unit) prog" where
  "finish i =
     bind (collective_at i) (\<lambda>c0.
     seq (throw_if (cl_finished c0) (LogicError ''collective completed twice''))
    (seq (mod_collective i (\<lambda>c. c\<lparr>cl_finished := True, cl_phase := final_phase c\<rparr>))
    (bind (collective_at i) (\<lambda>c1.
     seq (throw_if (cl_phase c1 = PhaseSucceeded \<and> delivered_bytes (cl_result c1) \<noteq> planned_bytes (cl_result c1))
           (LogicError ''ring byte conservation failure''))
    (bind context_now (\<lambda>t.
     seq (mod_result i (\<lambda>r. r\<lparr>res_outcome := cl_phase c1, res_finished := t\<rparr>))
    (seq (trace i)
    (bind (collective_at i) (\<lambda>c2.
     seq (mod_executor (\<lambda>x. x\<lparr>ex_completed := ex_completed x @ [cl_result c2]\<rparr>))
    (seq (emit i (final_transition (cl_phase c2)) None (delivered_bytes (cl_result c2)))
    (bind (get_executor ex_sink) (\<lambda>sink.
     when_enabled sink (\<lambda>cor.
       context_record sink (cor\<lparr>cor_collective := Some (res_id (cl_result c2))\<rparr>)
         (HistogramObservation MetricCollectiveDurationNs [] (t - res_started (cl_result c2))))))))))))))))"

text \<open>The NIC of a participant. The source dereferences the pointer that the search gives: \<open>submit\<close> has checked that
  the GPU is known, so that the branch for a null pointer, an error here, is never taken.\<close>

definition participant_nic :: "collective_record \<Rightarrow> u32 \<Rightarrow> topology_graph \<Rightarrow> nic_id option" where
  "participant_nic c rank g = map_option attached_nic (find_gpu g (participants (cl_request c) ! unat rank))"

definition issue_local :: "collective_id \<Rightarrow> ring_transfer \<Rightarrow> (collective_world, unit) prog" where
  "issue_local i transfer =
     bind (get_executor ex_configuration) (\<lambda>config.
     bind (collective_at i) (\<lambda>c.
     case serialization_delay (ring_bytes transfer) (local_bandwidth config) of
       None \<Rightarrow> throw (OverflowError ''local collective delay overflow'')
     | Some duration \<Rightarrow>
         bind context_now (\<lambda>t.
         case Option.bind (checked_add t duration) (\<lambda>end_time. checked_add end_time (local_latency config)) of
           None \<Rightarrow> throw (OverflowError ''local collective arrival overflow'')
         | Some arrival \<Rightarrow>
             let event = LocalCompletionEvent (res_id (cl_result c)) (cl_round c) (ring_source transfer) (cl_phase c)
             in bind (zoom_sim (schedule \<lparr>spec_timestamp = arrival, spec_priority = Control, spec_payload = event\<rparr>)) (\<lambda>e.
                seq (mod_executor (\<lambda>x. x\<lparr>ex_locals := omap_emplace e
                       \<lparr>loc_transfer = \<lparr>pend_collective = res_id (cl_result c), pend_bytes = ring_bytes transfer\<rparr>,
                        loc_event = event\<rparr> (ex_locals x)\<rparr>))
               (seq (mod_result i (\<lambda>r. r\<lparr>issued_local_bytes := issued_local_bytes r + ring_bytes transfer\<rparr>))
               (seq (emit i CollectiveTransferIssued None (ring_bytes transfer))
               (seq (emit_counter i MetricCollectiveIssuedLocalBytes (ring_bytes transfer) None)
                    (mod_collective i (\<lambda>c. c\<lparr>cl_pending := cl_pending c + 1\<rparr>)))))))))"

definition issue_fabric :: "collective_id \<Rightarrow> ring_transfer \<Rightarrow> nic_id \<Rightarrow> nic_id \<Rightarrow> (collective_world, unit) prog" where
  "issue_fabric i transfer source destination =
     bind (collective_at i) (\<lambda>c.
     bind (get_executor next_flow) (\<lambda>flow.
     seq (throw_if (flow = u64_max) (OverflowError ''collective routing key exhausted''))
    (seq (mod_executor (\<lambda>x. x\<lparr>next_flow := next_flow x + 1\<rparr>))
    (bind (in_routing (router_submit \<lparr>rq_flow = flow, rq_endpoints = (NodeId Nic source, NodeId Nic destination),
             rq_bytes = ring_bytes transfer, rq_maximum_chunk_bytes = coll_chunk_bytes (cl_request c)\<rparr>)) (\<lambda>submitted.
     case submitted of
       None \<Rightarrow> mod_collective i (\<lambda>c. c\<lparr>cl_failed := True, cl_result := (cl_result c)\<lparr>res_reason := ''no route for collective round''\<rparr>\<rparr>)
     | Some made \<Rightarrow>
         seq (mod_executor (\<lambda>x. x\<lparr>ex_transfers := omap_emplace (sub_id made)
                \<lparr>pend_collective = res_id (cl_result c), pend_bytes = ring_bytes transfer\<rparr> (ex_transfers x)\<rparr>))
        (seq (mod_result i (\<lambda>r. r\<lparr>issued_fabric_bytes := issued_fabric_bytes r + ring_bytes transfer\<rparr>))
        (seq (emit i CollectiveTransferIssued (Some (sub_id made)) (ring_bytes transfer))
        (seq (emit_counter i MetricCollectiveIssuedFabricBytes (ring_bytes transfer) (Some (sub_id made)))
             (mod_collective i (\<lambda>c. c\<lparr>cl_pending := cl_pending c + 1\<rparr>))))))))))"

definition issue :: "collective_id \<Rightarrow> ring_transfer \<Rightarrow> (collective_world, unit) prog" where
  "issue i transfer =
     bind (collective_at i) (\<lambda>c.
     bind (get_gpus (participant_nic c (ring_source transfer))) (\<lambda>source.
     bind (get_gpus (participant_nic c (ring_destination transfer))) (\<lambda>destination.
     case (source, destination) of
       (Some a, Some b) \<Rightarrow> if a = b then issue_local i transfer else issue_fabric i transfer a b
     | _ \<Rightarrow> throw (LogicError ''null dereference''))))"

definition start_round :: "collective_id \<Rightarrow> (collective_world, unit) prog" where
  "start_round i =
     seq (trace i)
    (bind (collective_at i) (\<lambda>c.
     seq (perform_if (cl_round c = 0) (emit i CollectivePhaseStarted None 0))
    (seq (emit i CollectiveRoundStarted None 0)
    (bind (lift_res (plan_round (of_nat (length (participants (cl_request c)))) (coll_bytes (cl_request c))
             (cl_phase c) (cl_round c))) (\<lambda>plan.
     seq (for_each (\<lambda>transfer.
            bind (collective_at i) (\<lambda>c. perform_if (ring_bytes transfer \<noteq> 0 \<and> \<not> cl_failed c) (issue i transfer))) plan)
    (bind (collective_at i) (\<lambda>c. perform_if (cl_pending c = 0) (finish i))))))))"

definition advance :: "collective_id \<Rightarrow> (collective_world, unit) prog" where
  "advance i =
     bind (collective_at i) (\<lambda>c.
     perform_if (cl_pending c = 0)
      (seq (emit i CollectiveRoundCompleted None 0)
       (if cl_failed c \<or> cl_cancelled c then finish i
        else
          seq (mod_collective i (\<lambda>c. c\<lparr>cl_round := cl_round c + 1\<rparr>))
         (bind (collective_at i) (\<lambda>c.
          if unat (cl_round c) = size_sub (length (participants (cl_request c))) 1
          then if cl_phase c = AllGather then finish i
               else seq (mod_collective i (\<lambda>c. c\<lparr>cl_phase := AllGather, cl_round := 0\<rparr>)) (start_round i)
          else start_round i)))))"

text \<open>The loop over the participants: known and not seen before.\<close>

fun distinct_known :: "topology_graph \<Rightarrow> gpu_id set \<Rightarrow> gpu_id list \<Rightarrow> bool" where
  "distinct_known g unique [] = True"
| "distinct_known g unique (gpu # rest) =
     (if find_gpu g gpu = None \<or> gpu \<in> unique then False else distinct_known g (insert gpu unique) rest)"

definition collective_submit :: "collective_request \<Rightarrow> (collective_world, collective_id) prog" where
  "collective_submit request =
     seq (throw_if (participants request = [] \<or> length (participants request) > 8192 \<or> coll_chunk_bytes request = 0)
           (InvalidArgument ''invalid collective participants or chunk size''))
    (bind (lift_res (planned_volume (of_nat (length (participants request))) (coll_bytes request))) (\<lambda>volume.
     bind (get_executor (\<lambda>x. length (ex_records x) \<ge> maximum_collectives (ex_configuration x)
             \<or> length (participants request) > size_sub (maximum_participant_entries (ex_configuration x)) (participant_entries x))) (\<lambda>full.
     seq (throw_if full (LengthError ''collective retained-state limit exceeded''))
    (bind (get_gpus (\<lambda>g. distinct_known g {} (participants request))) (\<lambda>known.
     seq (throw_if (\<not> known) (InvalidArgument ''unknown or duplicate collective GPU''))
    (bind (get_executor (\<lambda>x. of_nat (length (ex_records x)))) (\<lambda>i.
     bind context_now (\<lambda>t.
     seq (mod_executor (\<lambda>x. x\<lparr>
            ex_records := omap_emplace i
              \<lparr>cl_request = request,
               cl_result = \<lparr>res_id = i, res_outcome = ReduceScatter, res_started = t, res_finished = t, planned_bytes = volume,
                 issued_fabric_bytes = 0, issued_local_bytes = 0, delivered_bytes = 0, res_reason = []\<rparr>,
               cl_phase = ReduceScatter, cl_round = 0, cl_pending = 0, cl_failed = False, cl_cancelled = False,
               cl_finished = False\<rparr> (ex_records x),
            participant_entries := participant_entries x + length (participants request)\<rparr>))
    (seq (emit i CollectiveSubmitted None volume)
    (seq (emit_counter i MetricCollectivePlannedBytes volume None)
    (seq (if length (participants request) = 1 then finish i else start_round i)
         (return i))))))))))))"

definition handle_local :: "event_payload \<Rightarrow> (collective_world, unit) prog" where
  "handle_local event =
     bind (zoom_sim current_event_id) (\<lambda>e.
     bind (get_executor (\<lambda>x. map_of (ex_locals x) e)) (\<lambda>found.
     case (found, event) of
       (Some p, LocalCompletionEvent i round rank ph) \<Rightarrow>
         seq (throw_if (loc_event p \<noteq> event) (LogicError ''unexpected local collective event''))
        (bind (collective_at i) (\<lambda>c.
         seq (throw_if (cl_round c \<noteq> round \<or> cl_phase c \<noteq> ph \<or> unat rank \<ge> length (participants (cl_request c)))
               (LogicError ''stale local collective event''))
        (seq (mod_result i (\<lambda>r. r\<lparr>delivered_bytes := delivered_bytes r + pend_bytes (loc_transfer p)\<rparr>))
        (seq (emit_counter i MetricCollectiveDeliveredBytes (pend_bytes (loc_transfer p)) None)
        (seq (mod_executor (\<lambda>x. x\<lparr>ex_locals := omap_erase e (ex_locals x)\<rparr>))
        (seq (mod_collective i (\<lambda>c. c\<lparr>cl_pending := size_sub (cl_pending c) 1\<rparr>))
             (advance i)))))))
     | _ \<Rightarrow> throw (LogicError ''unexpected local collective event'')))"

definition handle_transfer :: "transfer_completion \<Rightarrow> (collective_world, unit) prog" where
  "handle_transfer completion =
     bind (get_executor (\<lambda>x. map_of (ex_transfers x) (tcm_transfer completion))) (\<lambda>found.
     case found of
       None \<Rightarrow> throw (LogicError ''collective executor received unowned transfer outcome'')
     | Some p \<Rightarrow>
         bind (lift_res (bindR (add_traffic (tcm_dropped_buffer_full completion) (tcm_dropped_link_down completion))
                 (add_traffic (tcm_delivered completion)))) (\<lambda>accounted.
         seq (throw_if (traffic_bytes accounted \<noteq> pend_bytes p) (LogicError ''collective transfer byte mismatch''))
        (let i = pend_collective p; delivered = traffic_bytes (tcm_delivered completion)
         in seq (mod_result i (\<lambda>r. r\<lparr>delivered_bytes := delivered_bytes r + delivered\<rparr>))
           (seq (emit_counter i MetricCollectiveDeliveredBytes delivered (Some (tcm_transfer completion)))
           (seq (perform_if (tcm_outcome completion \<noteq> OutcomeSucceeded)
                  (mod_collective i (\<lambda>c. c\<lparr>cl_failed := True,
                     cl_result := (cl_result c)\<lparr>res_reason := ''collective fabric transfer failed''\<rparr>\<rparr>)))
           (seq (mod_executor (\<lambda>x. x\<lparr>ex_transfers := omap_erase (tcm_transfer completion) (ex_transfers x)\<rparr>))
           (seq (mod_collective i (\<lambda>c. c\<lparr>cl_pending := size_sub (cl_pending c) 1\<rparr>))
                (advance i))))))))"

definition collective_cancel :: "collective_id \<Rightarrow> (collective_world, unit) prog" where
  "collective_cancel i =
     bind (collective_at i) (\<lambda>c.
     perform_if (\<not> cl_finished c)
       (mod_collective i (\<lambda>c. c\<lparr>cl_cancelled := True, cl_result := (cl_result c)\<lparr>res_reason := ''collective cancelled''\<rparr>\<rparr>)))"

definition take_completed :: "(collective_world, collective_result list) prog" where
  "take_completed =
     bind (get_executor ex_completed) (\<lambda>done_list.
     seq (mod_executor (\<lambda>x. x\<lparr>ex_completed := []\<rparr>)) (return done_list))"

definition collective_snapshot :: "executor \<Rightarrow> collective_id \<Rightarrow> collective_progress option" where
  "collective_snapshot x i =
     map_option (\<lambda>c. \<lparr>pr_phase = cl_phase c, pr_round = cl_round c, pr_pending = cl_pending c,
        pr_issued_fabric_bytes = issued_fabric_bytes (cl_result c), pr_issued_local_bytes = issued_local_bytes (cl_result c),
        pr_delivered_bytes = delivered_bytes (cl_result c),
        pr_completion = (if cl_finished c then Some (cl_result c) else None)\<rparr>) (map_of (ex_records x) i)"

end
