(* ===== verification/Workload_Model.thy ===== *)
theory Workload_Model
  imports Collective_Runtime Placement
begin

text \<open>
  The data of the training workload (\<^verbatim>\<open>workload/model.hpp\<close>, \<^verbatim>\<open>workload/model.cpp\<close>, \<^verbatim>\<open>workload/engine.hpp\<close>) and
  its pure functions: checked arithmetic, the validation of a job, the times at which the gradient buckets of
  a worker become ready, and the accounting of a job's time.
\<close>

section \<open>Data\<close>

datatype job_state =
    StateScheduled | StateComputing | StateOverlapping | StateCommunicating | StateSucceeded | StateFailed
  | StateCancelled | StateWaiting

primrec job_state_code :: "job_state \<Rightarrow> u64" where
  "job_state_code StateScheduled = 1"
| "job_state_code StateComputing = 2"
| "job_state_code StateOverlapping = 3"
| "job_state_code StateCommunicating = 4"
| "job_state_code StateSucceeded = 5"
| "job_state_code StateFailed = 6"
| "job_state_code StateCancelled = 7"
| "job_state_code StateWaiting = 8"

datatype collective_kind = AllReduce
datatype collective_algorithm = Ring

record job_spec =
  spec_name :: string
  workers :: "gpu_id list"
  requested_workers :: u32
  compute :: "sim_duration list"
  arrival :: sim_time
  steps :: u32
  gradient_bytes :: byte_count
  bucket_bytes :: byte_count
  chunk_bytes :: byte_count
  spec_job_priority :: u32
  overlap :: bool
  spec_collective :: collective_kind
  spec_algorithm :: collective_algorithm

record workload_limits =
  lim_jobs :: size_t
  lim_worker_entries :: size_t
  lim_compute_event_entries :: size_t
  lim_workers_per_job :: size_t
  lim_steps_per_job :: u32
  lim_buckets_per_step :: u32
  lim_compute_events_per_job :: size_t
  lim_timeline_entries :: size_t

record job_snapshot =
  js_id :: job_id
  js_state :: job_state
  js_completed_steps :: u32
  js_arrival :: sim_time
  js_finished :: "sim_time option"
  js_compute_gpu_ns :: u64
  js_idle_gpu_ns :: u64
  js_elapsed_ns :: u64
  js_reason :: string
  js_allocated_at :: "sim_time option"
  js_waiting_ns :: u64

record job_timeline =
  jt_job :: job_id
  jt_timestamp :: sim_time
  jt_state :: job_state
  jt_step :: u32
  jt_bucket :: u32
  jt_action :: string
  jt_collective :: "collective_id option"

record job_record =
  jb_id :: job_id
  jb_spec :: job_spec
  jb_state :: job_state
  jb_step :: u32
  jb_buckets :: u32
  jb_completed_buckets :: u32
  jb_compute_complete :: u32
  jb_step_started :: sim_time
  jb_compute_gpu_ns :: u64
  jb_finished :: "sim_time option"
  jb_arrival_event :: "event_id option"
  jb_active_collective :: "collective_id option"
  jb_ready :: "u32 list"
  jb_events :: "event_id option list"
  jb_reason :: string
  jb_assigned :: bool
  jb_allocated_at :: "sim_time option"

record scheduling_configuration =
  sc_policy :: string
  sc_seed :: u64
  sc_decision_entries :: size_t
  sc_allocation_entries :: size_t

record placement_decision =
  pn_job :: job_id
  pn_timestamp :: sim_time
  pn_policy :: string
  pn_version :: u32
  pn_priority :: u32
  pn_requested_workers :: u32
  pn_outcome :: placement_outcome
  pn_workers :: "gpu_id list"
  pn_reason :: string
  pn_locality :: locality
  fragmentation_before :: size_t
  fragmentation_after :: size_t

section \<open>Arithmetic\<close>

definition checked_sum :: "u64 \<Rightarrow> u64 \<Rightarrow> exn + u64" where
  "checked_sum left right =
     (if right > u64_max - left then Inl (OverflowError ''workload quantity overflow'') else Inr (left + right))"

definition checked_product :: "u64 \<Rightarrow> u64 \<Rightarrow> exn + u64" where
  "checked_product left right =
     (if right \<noteq> 0 \<and> left > u64_max div right then Inl (OverflowError ''workload quantity overflow'') else Inr (left * right))"

definition terminal :: "job_state \<Rightarrow> bool" where
  "terminal st \<longleftrightarrow> st = StateSucceeded \<or> st = StateFailed \<or> st = StateCancelled"

section \<open>Validation of a job\<close>

text \<open>The loop over the workers: known and distinct GPUs, positive durations, and sums that do not overflow.\<close>

fun validate_workers :: "topology_graph \<Rightarrow> job_spec \<Rightarrow> gpu_id set \<Rightarrow> u64 \<Rightarrow> nat list \<Rightarrow> exn + u64" where
  "validate_workers g spec unique compute_total [] = Inr compute_total"
| "validate_workers g spec unique compute_total (index # rest) =
     (if workers spec \<noteq> [] \<and> (find_gpu g (workers spec ! index) = None \<or> workers spec ! index \<in> unique)
         \<or> compute spec ! index = 0
      then Inl (InvalidArgument ''invalid worker assignment or compute duration'')
      else bindR (checked_sum compute_total (compute spec ! index)) (\<lambda>compute_total.
           bindR (checked_product (ucast (steps spec)) (compute spec ! index)) (\<lambda>all_steps.
           bindR (checked_sum (arrival spec) all_steps) (\<lambda>_.
           validate_workers g spec
             (if workers spec \<noteq> [] then insert (workers spec ! index) unique else unique) compute_total rest))))"

definition bucket_count :: "job_spec \<Rightarrow> u64" where
  "bucket_count spec = gradient_bytes spec div bucket_bytes spec + (if gradient_bytes spec mod bucket_bytes spec \<noteq> 0 then 1 else 0)"

definition worker_count :: "job_spec \<Rightarrow> size_t" where
  "worker_count spec = (if requested_workers spec \<noteq> 0 then unat (requested_workers spec) else length (workers spec))"

definition malformed_job :: "workload_limits \<Rightarrow> job_spec \<Rightarrow> bool" where
  "malformed_job lims spec \<longleftrightarrow>
     spec_collective spec \<noteq> AllReduce \<or> spec_algorithm spec \<noteq> Ring \<or> spec_name spec = [] \<or> length (spec_name spec) > 256
     \<or> worker_count spec = 0 \<or> worker_count spec > lim_workers_per_job lims \<or> length (compute spec) \<noteq> worker_count spec
     \<or> steps spec = 0 \<or> steps spec > lim_steps_per_job lims \<or> gradient_bytes spec = 0 \<or> bucket_bytes spec = 0 \<or> chunk_bytes spec = 0"

definition validate_job :: "topology_graph \<Rightarrow> workload_limits \<Rightarrow> bool \<Rightarrow> job_spec \<Rightarrow> exn + u32" where
  "validate_job g lims scheduling spec =
     (if requested_workers spec \<noteq> 0 \<and> (\<not> scheduling \<or> workers spec \<noteq> [])
      then Inl (InvalidArgument ''requested workers require scheduling and exclude pinned workers'')
      else if malformed_job lims spec then Inl (InvalidArgument ''invalid workload job specification'')
      else if bucket_count spec > ucast (lim_buckets_per_step lims)
      then Inl (LengthError ''workload bucket or compute-event limit exceeded'')
      else bindR (checked_product (of_nat (worker_count spec)) (if overlap spec then bucket_count spec else 1)) (\<lambda>events.
           if unat events > lim_compute_events_per_job lims
           then Inl (LengthError ''workload bucket or compute-event limit exceeded'')
           else bindR (validate_workers g spec {} 0 [0..<worker_count spec]) (\<lambda>compute_total.
                bindR (checked_product compute_total (ucast (steps spec))) (\<lambda>_.
                Inr (ucast (bucket_count spec))))))"

section \<open>Times of a step\<close>

definition events_per_worker :: "job_record \<Rightarrow> u32" where
  "events_per_worker j = (if overlap (jb_spec j) then jb_buckets j else 1)"

text \<open>When the part \<open>index\<close> of a worker's computation is done, from the start of the step.\<close>

definition compute_offset :: "u64 \<Rightarrow> u32 \<Rightarrow> u32 \<Rightarrow> exn + u64" where
  "compute_offset duration per_worker index =
     (let fraction = index + 1
      in bindR (checked_product (duration div ucast per_worker) (ucast fraction)) (\<lambda>whole.
         bindR (checked_product (duration mod ucast per_worker) (ucast fraction)) (\<lambda>part.
         checked_sum whole ((part + ucast per_worker - 1) div ucast per_worker))))"

section \<open>Accounting\<close>

fun sum_compute :: "(u64 \<Rightarrow> u64) \<Rightarrow> u64 \<Rightarrow> sim_duration list \<Rightarrow> exn + u64" where
  "sum_compute f acc [] = Inr acc"
| "sum_compute f acc (d # ds) = bindR (checked_sum acc (f d)) (\<lambda>acc. sum_compute f acc ds)"

definition inspect :: "job_record \<Rightarrow> sim_time \<Rightarrow> exn + job_snapshot" where
  "inspect j now_time =
     (let end_time = (case jb_finished j of None \<Rightarrow> now_time | Some t \<Rightarrow> t); arrived = arrival (jb_spec j)
      in if end_time < arrived
         then Inr \<lparr>js_id = jb_id j, js_state = jb_state j, js_completed_steps = jb_step j, js_arrival = arrived,
                js_finished = jb_finished j, js_compute_gpu_ns = 0, js_idle_gpu_ns = 0, js_elapsed_ns = 0,
                js_reason = jb_reason j, js_allocated_at = jb_allocated_at j, js_waiting_ns = 0\<rparr>
         else
           bindR (if jb_assigned j \<and> \<not> terminal (jb_state j)
                  then if now_time < jb_step_started j then Inl (InvalidArgument ''snapshot precedes current step'')
                       else sum_compute (\<lambda>d. min d (now_time - jb_step_started j)) (jb_compute_gpu_ns j) (compute (jb_spec j))
                  else Inr (jb_compute_gpu_ns j)) (\<lambda>computed.
           bindR (case jb_allocated_at j of
                    None \<Rightarrow> Inr 0
                  | Some t \<Rightarrow> checked_product (end_time - t) (of_nat (length (workers (jb_spec j))))) (\<lambda>allocated.
           if computed > allocated then Inl (LogicError ''GPU compute exceeds allocated time'')
           else Inr \<lparr>js_id = jb_id j, js_state = jb_state j, js_completed_steps = jb_step j, js_arrival = arrived,
                js_finished = jb_finished j, js_compute_gpu_ns = computed, js_idle_gpu_ns = allocated - computed,
                js_elapsed_ns = end_time - arrived, js_reason = jb_reason j, js_allocated_at = jb_allocated_at j,
                js_waiting_ns = (case jb_allocated_at j of None \<Rightarrow> end_time | Some t \<Rightarrow> t) - arrived\<rparr>)))"

end
