(* ===== verification/Workload_Times.thy ===== *)
theory Workload_Times
  imports Workload_Model
begin

text \<open>
  The times at which the parts of a worker's computation are done: \<^verbatim>\<open>start_step\<close> splits a duration into equal parts
  with a quotient and a rounded remainder, so that no intermediate product overflows.
\<close>

lemma checked_sum_nat: "unat a + unat b < 2 ^ 64 \<Longrightarrow> checked_sum a b = Inr (a + b) \<and> unat (a + b) = unat a + unat b"
  by (simp add: checked_sum_def max_minus_less_iff unat_plus_no_overflow not_le)

lemma checked_product_nat: "unat a * unat b < 2 ^ 64 \<Longrightarrow> checked_product a b = Inr (a * b) \<and> unat (a * b) = unat a * unat b"
proof -
  assume h: "unat a * unat b < 2 ^ 64"
  then have "a \<le> u64_max div b" if "b \<noteq> 0" using le_max_div_iff [of b a] that by (simp add: word_gt_0)
  then show ?thesis using h by (auto simp: checked_product_def unat_mult_no_overflow not_less)
qed

lemma split_ceiling:
  fixes d p f :: nat
  assumes "0 < p" "f \<le> p"
  shows "d div p * f + (d mod p * f + p - 1) div p = (d * f + p - 1) div p" "(d * f + p - 1) div p \<le> d"
proof -
  have "d * f = d div p * f * p + d mod p * f" by (metis add_mult_distrib div_mult_mod_eq mult.assoc mult.commute)
  then have "d * f + p - 1 = d div p * f * p + (d mod p * f + p - 1)" using assms(1) by simp
  then have "(d * f + p - 1) div p = (d div p * f * p + (d mod p * f + p - 1)) div p" by (simp only:)
  also have "\<dots> = d div p * f + (d mod p * f + p - 1) div p" using assms(1) by (intro div_mult_self3 [THEN trans]) simp_all
  finally show "d div p * f + (d mod p * f + p - 1) div p = (d * f + p - 1) div p" ..
  have "d * f + p - 1 < d * p + p" using assms mult_le_mono2 [of f p d] by linarith
  then have "d * f + p - 1 < (d + 1) * p" by simp
  then have "(d * f + p - 1) div p < d + 1" by (rule less_mult_imp_div_less)
  then show "(d * f + p - 1) div p \<le> d" by simp
qed

lemma remainder_bound:
  fixes d p f :: nat
  assumes "0 < p" "f \<le> p" "p < 2 ^ 32"
  shows "d mod p * f + p < 2 ^ 64"
proof -
  have "d mod p * f \<le> (p - 1) * p" using assms mod_less_divisor [OF assms(1), of d] by (intro mult_le_mono) linarith+
  moreover have "(p - 1) * p + p = p * p" using assms(1) by (simp add: mult_eq_if)
  moreover have "p * p < 2 ^ 32 * 2 ^ 32" using assms(1,3) by (intro mult_strict_mono) auto
  ultimately show ?thesis by simp
qed

text \<open>C34. Part \<open>index\<close> of the \<open>per_worker\<close> equal parts of a computation ends after the duration's fraction
  \<open>(index + 1) / per_worker\<close>, rounded up: the checked arithmetic never throws, and the last part ends with the computation.\<close>

theorem compute_offset_exact:
  assumes "index < per_worker"
  shows "\<exists>offset. compute_offset duration per_worker index = Inr offset
    \<and> unat offset = (unat duration * (unat index + 1) + unat per_worker - 1) div unat per_worker
    \<and> offset \<le> duration \<and> (index + 1 = per_worker \<longrightarrow> offset = duration)"
proof -
  let ?d = "unat duration" and ?p = "unat per_worker" and ?f = "unat index + 1"
  let ?P = "ucast per_worker :: u64" and ?F = "ucast (index + 1) :: u64"
  have p: "0 < ?p" "?f \<le> ?p" "?p < 2 ^ 32"
    using assms unsigned_less [of per_worker, where 'a = nat] by (auto simp: word_less_nat_alt)
  have f: "unat (index + 1) = ?f" using p by (simp add: unat_word_ariths)
  have u: "unat ?P = ?p" "unat ?F = ?f" using f by (simp_all add: unat_wide)
  note sc = split_ceiling [OF p(1,2), of ?d] and rb = remainder_bound [OF p, of ?d]
  have whole: "unat (duration div ?P) * unat ?F < 2 ^ 64" using sc u unat_u64_bound [of duration] by (simp add: unat_div)
  have part: "unat (duration mod ?P) * unat ?F < 2 ^ 64" using rb u by (simp add: unat_mod)
  note w = checked_product_nat [OF whole] and q = checked_product_nat [OF part]
  have r: "unat ((duration mod ?P * ?F + ?P - 1) div ?P) = (?d mod ?p * ?f + ?p - 1) div ?p"
  proof -
    have "unat (duration mod ?P * ?F + ?P) = ?d mod ?p * ?f + ?p" using q u rb by (simp add: unat_plus_no_overflow unat_mod)
    moreover have "(1 :: u64) \<le> duration mod ?P * ?F + ?P" using calculation p(1) by (simp add: word_le_nat_alt)
    ultimately have "unat (duration mod ?P * ?F + ?P - 1) = ?d mod ?p * ?f + ?p - 1" by (simp add: unat_sub)
    then show ?thesis by (simp add: unat_div u)
  qed
  define offset where "offset = duration div ?P * ?F + (duration mod ?P * ?F + ?P - 1) div ?P"
  have "unat (duration div ?P * ?F) + unat ((duration mod ?P * ?F + ?P - 1) div ?P) = (?d * ?f + ?p - 1) div ?p"
    using w r u sc(1) by (simp add: unat_div)
  moreover have "(?d * ?f + ?p - 1) div ?p < 2 ^ 64" using sc(2) unat_u64_bound [of duration] by linarith
  ultimately have v: "compute_offset duration per_worker index = Inr offset" "unat offset = (?d * ?f + ?p - 1) div ?p"
    using w q checked_sum_nat [of "duration div ?P * ?F" "(duration mod ?P * ?F + ?P - 1) div ?P"]
    by (simp_all add: compute_offset_def Let_def bindR_def offset_def)
  have "offset \<le> duration" using v(2) sc(2) by (simp add: word_le_nat_alt)
  moreover have "offset = duration" if "index + 1 = per_worker"
  proof -
    have "?f = ?p" using f that by simp
    then have "(?d * ?f + ?p - 1) div ?p = (?d * ?p + (?p - 1)) div ?p" using p(1) by simp
    also have "\<dots> = ?d" using p(1) by (simp only: div_mult_self3 [of ?p "?d" "?p - 1"]) simp
    finally have "(?d * ?f + ?p - 1) div ?p = ?d" .
    then show ?thesis using v(2) by (simp add: word_unat_eq_iff)
  qed
  ultimately show ?thesis using v by blast
qed

theorem compute_offset_exact_witness: "\<exists>offset. compute_offset 10 3 1 = Inr offset \<and> unat offset = 7"
  using compute_offset_exact [of 1 3 10] by auto

end
