(* ===== verification/Workload_Engine.thy ===== *)
theory Workload_Engine
  imports Workload_Model
begin

text \<open>
  The workload engine (\<^verbatim>\<open>workload/engine.cpp\<close>, \<^verbatim>\<open>workload/scheduling.cpp\<close>, \<^verbatim>\<open>workload/metrics.cpp\<close>,
  \<^verbatim>\<open>workload/telemetry.cpp\<close>): training jobs that arrive, are given GPUs, compute their steps and hand the gradient
  buckets to the ring executor; and the dispatcher that composes the engine with the executor and the transport
  (\<^verbatim>\<open>workload/dispatcher.hpp\<close>). A reference to a record of the source is the key of the record here.
\<close>

section \<open>State\<close>

text \<open>A scheduling policy is a virtual class with one constant member, so a function that may throw.\<close>

type_synonym scheduling_policy = "job_request \<Rightarrow> inventory \<Rightarrow> exn + placement"

record engine =
  en_limits :: workload_limits
  en_scheduling :: "scheduling_configuration option"
  en_inventory :: "inventory option"
  en_policy :: "scheduling_policy option"
  en_sink :: bool
  admission_pending :: bool
  allocation_entries :: size_t
  en_placements :: "placement_decision list"
  worker_entries :: size_t
  event_entries :: size_t
  en_jobs :: "(job_id, job_record) omap"
  assignments :: "(gpu_id, job_id) omap"
  en_collectives :: "(collective_id, job_id) omap"
  en_completed :: "job_snapshot list"
  en_timeline :: "job_timeline list"

type_synonym training_world = "simulation \<times> network \<times> router \<times> executor \<times> engine"

definition scheduling_parts ::
  "topology_graph \<Rightarrow> scheduling_configuration option \<Rightarrow> scheduling_policy option \<Rightarrow> exn + inventory option \<times> scheduling_policy option" where
  "scheduling_parts g scheduling policy =
     (case scheduling of
        None \<Rightarrow>
          if policy \<noteq> None then Inl (InvalidArgument ''custom policy requires scheduler configuration'') else Inr (None, None)
      | Some sc \<Rightarrow>
          if sc_decision_entries sc = 0 \<or> sc_allocation_entries sc = 0 \<or> sc_policy sc = [] \<or> length (sc_policy sc) > 256
          then Inl (InvalidArgument ''invalid scheduling configuration'')
          else bindR (new_inventory g) (\<lambda>rs.
               case policy of
                 Some p \<Rightarrow> Inr (Some rs, Some p)
               | None \<Rightarrow> bindR (make_policy (sc_policy sc) (sc_seed sc)) (\<lambda>p.
                   Inr (Some rs, Some (\<lambda>req rs. Inr (place p req rs))))))"

definition new_engine ::
  "topology_graph \<Rightarrow> workload_limits \<Rightarrow> scheduling_configuration option \<Rightarrow> scheduling_policy option \<Rightarrow> bool \<Rightarrow> exn + engine" where
  "new_engine g lims scheduling policy sink =
     bindR (scheduling_parts g scheduling policy) (\<lambda>(inv, pol).
       if lim_worker_entries lims = 0 \<or> lim_compute_event_entries lims = 0 \<or> lim_jobs lims = 0
          \<or> lim_workers_per_job lims = 0 \<or> lim_workers_per_job lims > 8192 \<or> lim_steps_per_job lims = 0
          \<or> lim_buckets_per_step lims = 0 \<or> lim_compute_events_per_job lims = 0 \<or> lim_timeline_entries lims = 0
       then Inl (InvalidArgument ''invalid workload limits'')
       else Inr \<lparr>en_limits = lims, en_scheduling = scheduling, en_inventory = inv, en_policy = pol, en_sink = sink,
              admission_pending = False, allocation_entries = 0, en_placements = [], worker_entries = 0,
              event_entries = 0, en_jobs = [], assignments = [], en_collectives = [], en_completed = [], en_timeline = []\<rparr>)"

definition in_collective :: "(collective_world, 'a) prog \<Rightarrow> (training_world, 'a) prog" where
  "in_collective = zoom (\<lambda>(s, n, r, x, g). (s, n, r, x)) (\<lambda>(s, n, r, x) (_, _, _, _, g). (s, n, r, x, g))"

definition in_fabric :: "(world, 'a) prog \<Rightarrow> (training_world, 'a) prog" where
  "in_fabric = zoom (\<lambda>(s, n, r, x, g). (s, n)) (\<lambda>(s, n) (_, _, r, x, g). (s, n, r, x, g))"

definition get_engine :: "(engine \<Rightarrow> 'a) \<Rightarrow> (training_world, 'a) prog" where
  "get_engine f = gets (\<lambda>(s, n, r, x, g). f g)"

definition mod_engine :: "(engine \<Rightarrow> engine) \<Rightarrow> (training_world, unit) prog" where
  "mod_engine f = modify (\<lambda>(s, n, r, x, g). (s, n, r, x, f g))"

definition get_graph :: "(topology_graph \<Rightarrow> 'a) \<Rightarrow> (training_world, 'a) prog" where
  "get_graph f = gets (\<lambda>(s, n, r, x, g). f (net_topology n))"

definition in_inventory :: "(inventory, 'a) prog \<Rightarrow> (training_world, 'a) prog" where
  "in_inventory = zoom (\<lambda>(s, n, r, x, g). the (en_inventory g)) (\<lambda>rs (s, n, r, x, g). (s, n, r, x, g\<lparr>en_inventory := Some rs\<rparr>))"

text \<open>\<^verbatim>\<open>jobs_.at(id)\<close>, and an update through a reference into the map.\<close>

definition job_at :: "job_id \<Rightarrow> (training_world, job_record) prog" where
  "job_at i =
     bind (get_engine (\<lambda>g. map_of (en_jobs g) i)) (\<lambda>found.
     case found of None \<Rightarrow> throw (OutOfRange ''map::at'') | Some j \<Rightarrow> return j)"

definition mod_job :: "job_id \<Rightarrow> (job_record \<Rightarrow> job_record) \<Rightarrow> (training_world, unit) prog" where
  "mod_job i f = bind (job_at i) (\<lambda>j. mod_engine (\<lambda>g. g\<lparr>en_jobs := omap_put i (f j) (en_jobs g)\<rparr>))"

section \<open>Telemetry and timeline\<close>

definition emit_job :: "job_id \<Rightarrow> job_transition \<Rightarrow> u32 \<Rightarrow> (training_world, unit) prog" where
  "emit_job i tr worker =
     bind (get_engine en_sink) (\<lambda>sink.
     bind (job_at i) (\<lambda>j.
     when_enabled sink (\<lambda>cor.
       context_record sink (cor\<lparr>cor_job := Some (jb_id j), cor_collective := jb_active_collective j\<rparr>)
         (JobObservation tr (jb_step j) (jb_completed_buckets j) worker
            (if jb_assigned j then of_nat (length (workers (jb_spec j))) else 0)))))"

definition emit_terminal_metrics :: "job_snapshot \<Rightarrow> (training_world, unit) prog" where
  "emit_terminal_metrics snap =
     bind (get_engine en_sink) (\<lambda>sink.
     when_enabled sink (\<lambda>base.
       let cor = base\<lparr>cor_job := Some (js_id snap)\<rparr>
       in seq (context_record sink cor (HistogramObservation MetricJobCompletionTimeNs [] (js_elapsed_ns snap)))
         (seq (context_record sink cor (HistogramObservation MetricJobSchedulingWaitNs [] (js_waiting_ns snap)))
         (seq (context_record sink cor (CounterObservation MetricJobComputeGpuNs [] (js_compute_gpu_ns snap)))
         (seq (context_record sink cor (CounterObservation MetricJobGpuIdleNs [] (js_idle_gpu_ns snap)))
         (seq (context_record sink cor (CounterObservation MetricJobCompletedSteps [] (ucast (js_completed_steps snap))))
              (context_record sink cor (CounterObservation MetricJobTerminalTotal
                 [(LabelOutcome, job_state_code (js_state snap))] 1))))))))"

primrec placement_outcome_code :: "placement_decision_outcome \<Rightarrow> u64" where
  "placement_outcome_code PlacementPlaced = 1"
| "placement_outcome_code PlacementWaiting = 2"
| "placement_outcome_code PlacementRejected = 3"

definition telemetry_outcome :: "placement_outcome \<Rightarrow> placement_decision_outcome" where
  "telemetry_outcome out =
     (if out = Placed then PlacementPlaced else if out = Waiting then PlacementWaiting else PlacementRejected)"

definition emit_placement :: "placement_decision \<Rightarrow> placement_decision_id \<Rightarrow> (training_world, unit) prog" where
  "emit_placement decision i =
     bind (get_engine en_sink) (\<lambda>sink.
     when_enabled sink (\<lambda>base.
       let cor = base\<lparr>cor_job := Some (pn_job decision), cor_placement_decision := Some i\<rparr>;
           outcome = telemetry_outcome (pn_outcome decision); near = pn_locality decision
       in seq (context_record sink cor (PlacementDecisionObservation
                 \<lparr>pd_decision = i, pd_policy = pn_policy decision, pd_policy_version = ucast (pn_version decision),
                  pd_priority = pn_priority decision, pd_requested_workers = pn_requested_workers decision,
                  pd_selected_workers = pn_workers decision, pd_rack_count = of_nat (loc_racks near),
                  pd_nic_count = of_nat (loc_nics near), pd_cross_rack_ring_edges = of_nat (cross_rack_ring_edges near),
                  pd_reason = pn_reason decision, pd_outcome = outcome\<rparr>))
         (seq (context_record sink cor (CounterObservation MetricPlacementDecisionTotal
                 [(LabelPolicy, policy_label_value (pn_policy decision)), (LabelOutcome, placement_outcome_code outcome)] 1))
              (perform_if (pn_outcome decision = Placed)
                (seq (context_record sink cor (HistogramObservation MetricPlacementCrossRackRingEdges [] (of_nat (cross_rack_ring_edges near))))
                (seq (context_record sink cor (HistogramObservation MetricPlacementRackCount [] (of_nat (loc_racks near))))
                     (context_record sink cor (HistogramObservation MetricPlacementNicCount [] (of_nat (loc_nics near))))))))))"

definition job_trace :: "job_id \<Rightarrow> string \<Rightarrow> (training_world, unit) prog" where
  "job_trace i act =
     bind context_now (\<lambda>t.
     bind (job_at i) (\<lambda>j.
     bind (get_engine (\<lambda>g. length (en_timeline g) = lim_timeline_entries (en_limits g))) (\<lambda>full.
     seq (throw_if full (LengthError ''workload timeline limit exceeded''))
         (mod_engine (\<lambda>g. g\<lparr>en_timeline := en_timeline g @
            [\<lparr>jt_job = jb_id j, jt_timestamp = t, jt_state = jb_state j, jt_step = jb_step j,
              jt_bucket = jb_completed_buckets j, jt_action = act, jt_collective = jb_active_collective j\<rparr>]\<rparr>)))))"

section \<open>The end of a job\<close>

definition terminal_transition :: "job_state \<Rightarrow> job_transition" where
  "terminal_transition st =
     (if st = StateSucceeded then JobSucceeded else if st = StateCancelled then JobCancelled else JobFailed)"

text \<open>The releases of \<open>finish_job\<close>: pending events, the collective under way, the GPUs.\<close>

definition cancel_event :: "event_id option \<Rightarrow> (training_world, unit) prog" where
  "cancel_event e = (case e of None \<Rightarrow> return () | Some i \<Rightarrow> bind (zoom_sim (cancel i)) (\<lambda>_. return ()))"

definition release_gpus :: "job_id \<Rightarrow> (training_world, unit) prog" where
  "release_gpus i =
     bind (job_at i) (\<lambda>j.
     seq (perform_if (jb_assigned j)
           (for_each (\<lambda>worker. mod_engine (\<lambda>g. g\<lparr>assignments := omap_erase worker (assignments g)\<rparr>)) (workers (jb_spec j))))
         (mod_engine (\<lambda>g. case en_inventory g of
            None \<Rightarrow> g
          | Some rs \<Rightarrow> g\<lparr>en_inventory := Some (release (jb_id j) rs), admission_pending := True\<rparr>)))"

definition finish_job :: "job_id \<Rightarrow> job_state \<Rightarrow> string \<Rightarrow> (training_world, unit) prog" where
  "finish_job i st reason =
     bind (job_at i) (\<lambda>j.
     perform_if (\<not> terminal (jb_state j))
      (bind context_now (\<lambda>t.
       seq (perform_if (st \<noteq> StateSucceeded \<and> jb_assigned j)
             (bind (lift_res (inspect j t)) (\<lambda>snap. mod_job i (\<lambda>j. j\<lparr>jb_compute_gpu_ns := js_compute_gpu_ns snap\<rparr>))))
      (seq (for_each cancel_event (jb_events j))
      (seq (perform_if (jb_arrival_event j \<noteq> None)
             (seq (cancel_event (jb_arrival_event j)) (mod_job i (\<lambda>j. j\<lparr>jb_arrival_event := None\<rparr>))))
      (seq (case jb_active_collective j of None \<Rightarrow> return () | Some k \<Rightarrow> in_collective (collective_cancel k))
      (seq (release_gpus i)
      (seq (mod_job i (\<lambda>j. j\<lparr>jb_state := st, jb_reason := reason, jb_finished := Some t\<rparr>))
      (seq (job_trace i ''job_terminal'')
      (bind (job_at i) (\<lambda>j.
       bind (lift_res (inspect j t)) (\<lambda>snap.
       seq (mod_engine (\<lambda>g. g\<lparr>en_completed := en_completed g @ [snap]\<rparr>))
      (seq (emit_job i (terminal_transition st) 0)
           (emit_terminal_metrics snap))))))))))))))"

section \<open>A step of training\<close>

text \<open>The body of the inner loop of \<open>start_step\<close>: the event for part \<open>index\<close> of a worker's computation.\<close>

definition schedule_compute :: "job_id \<Rightarrow> nat \<Rightarrow> nat \<Rightarrow> (training_world, unit) prog" where
  "schedule_compute i worker index =
     bind (job_at i) (\<lambda>j.
     let per_worker = events_per_worker j
     in bind (lift_res (compute_offset (compute (jb_spec j) ! worker) per_worker (of_nat index))) (\<lambda>offset.
        bind context_now (\<lambda>t.
        case checked_add t offset of
          None \<Rightarrow> throw (OverflowError ''compute event time overflow'')
        | Some time \<Rightarrow>
            let bucket = (if overlap (jb_spec j) then of_nat index else jb_buckets j - 1)
            in bind (zoom_sim (schedule \<lparr>spec_timestamp = time, spec_priority = Normal,
                      spec_payload = WorkloadEvent (jb_id j) ComputeReady (of_nat worker) (jb_step j) bucket\<rparr>)) (\<lambda>e.
               mod_job i (\<lambda>j. j\<lparr>jb_events := (jb_events j)[worker * unat per_worker + index := Some e]\<rparr>)))))"

definition start_step :: "job_id \<Rightarrow> (training_world, unit) prog" where
  "start_step i =
     bind context_now (\<lambda>t.
     seq (mod_job i (\<lambda>j. j\<lparr>jb_state := StateComputing, jb_step_started := t, jb_completed_buckets := 0,
            jb_compute_complete := 0, jb_ready := replicate (unat (jb_buckets j)) 0,
            jb_events := replicate (length (workers (jb_spec j)) * unat (events_per_worker j)) None\<rparr>))
    (bind (job_at i) (\<lambda>j.
     seq (for_each (\<lambda>worker. for_each (schedule_compute i worker) [0..<unat (events_per_worker j)])
           [0..<length (workers (jb_spec j))])
    (seq (job_trace i ''step_compute_started'')
         (emit_job i JobComputeStarted 0)))))"

text \<open>\<^verbatim>\<open>record.ready[record.completed_buckets]\<close> is in range in every job under way; the error stands for the
  undefined access otherwise.\<close>

definition bucket_bytes_left :: "job_record \<Rightarrow> exn + u64" where
  "bucket_bytes_left j =
     bindR (checked_product (ucast (jb_completed_buckets j)) (bucket_bytes (jb_spec j))) (\<lambda>consumed.
     Inr (min (bucket_bytes (jb_spec j)) (gradient_bytes (jb_spec j) - consumed)))"

definition start_collective :: "job_id \<Rightarrow> (training_world, unit) prog" where
  "start_collective i =
     bind (job_at i) (\<lambda>j.
     perform_if (jb_active_collective j = None)
      (seq (throw_if (unat (jb_completed_buckets j) \<ge> length (jb_ready j)) (OutOfRange ''record.ready''))
       (perform_if (unat (jb_ready j ! unat (jb_completed_buckets j)) = length (workers (jb_spec j)))
        (bind (lift_res (bucket_bytes_left j)) (\<lambda>bytes.
         bind (in_collective (collective_submit \<lparr>participants = workers (jb_spec j), coll_bytes = bytes,
                 coll_chunk_bytes = chunk_bytes (jb_spec j)\<rparr>)) (\<lambda>k.
         seq (mod_job i (\<lambda>j. j\<lparr>jb_active_collective := Some k\<rparr>))
        (seq (mod_engine (\<lambda>g. g\<lparr>en_collectives := omap_emplace k (jb_id j) (en_collectives g)\<rparr>))
        (seq (mod_job i (\<lambda>j. j\<lparr>jb_state :=
                if unat (jb_compute_complete j) = length (workers (jb_spec j)) then StateCommunicating else StateOverlapping\<rparr>))
        (seq (job_trace i ''bucket_collective_started'')
             (emit_job i JobCollectiveStarted 0))))))))))"

text \<open>The index of the event of a worker and a bucket; \<open>record.events[index]\<close> is in range, as above.\<close>

definition event_slot :: "job_record \<Rightarrow> u32 \<Rightarrow> u32 \<Rightarrow> nat" where
  "event_slot j worker bucket =
     unat worker * unat (events_per_worker j) + (if overlap (jb_spec j) then unat bucket else 0)"

definition mark_ready :: "u32 \<Rightarrow> job_record \<Rightarrow> job_record" where
  "mark_ready bucket j =
     (if overlap (jb_spec j) then j\<lparr>jb_ready := (jb_ready j)[unat bucket := jb_ready j ! unat bucket + 1]\<rparr>
      else j\<lparr>jb_ready := map (\<lambda>k. k + 1) (jb_ready j)\<rparr>)"

definition compute_ready :: "job_id \<Rightarrow> u32 \<Rightarrow> u32 \<Rightarrow> u32 \<Rightarrow> (training_world, unit) prog" where
  "compute_ready i worker step bucket =
     bind (job_at i) (\<lambda>j.
     seq (throw_if (jb_state j = StateScheduled \<or> jb_state j = StateWaiting \<or> step \<noteq> jb_step j
            \<or> unat worker \<ge> length (workers (jb_spec j)) \<or> bucket \<ge> jb_buckets j)
           (LogicError ''stale workload compute event''))
    (let slot = event_slot j worker bucket
     in seq (throw_if (slot \<ge> length (jb_events j)) (OutOfRange ''record.events''))
       (bind (if jb_events j ! slot = None then return True
              else bind (zoom_sim current_event_id) (\<lambda>e. return (jb_events j ! slot \<noteq> Some e))) (\<lambda>unexpected.
        seq (throw_if unexpected (LogicError ''unexpected compute completion''))
       (seq (mod_job i (\<lambda>j. j\<lparr>jb_events := (jb_events j)[slot := None]\<rparr>))
       (seq (mod_job i (mark_ready bucket))
       (seq (perform_if (bucket = jb_buckets j - 1)
              (seq (mod_job i (\<lambda>j. j\<lparr>jb_compute_complete := jb_compute_complete j + 1\<rparr>))
              (bind (job_at i) (\<lambda>j.
               perform_if (jb_compute_complete j = 1 \<and> length (workers (jb_spec j)) > 1)
                 (emit_job i JobStragglerStarted worker)))))
       (bind (job_at i) (\<lambda>j.
        seq (perform_if (unat (jb_compute_complete j) = length (workers (jb_spec j)))
              (seq (perform_if (jb_active_collective j \<noteq> None) (mod_job i (\<lambda>j. j\<lparr>jb_state := StateCommunicating\<rparr>)))
              (seq (job_trace i ''step_compute_finished'')
                   (emit_job i JobComputeCompleted worker))))
            (start_collective i))))))))))"

section \<open>Arrival and admission\<close>

definition assign_gpus :: "job_id \<Rightarrow> gpu_id list \<Rightarrow> (training_world, unit) prog" where
  "assign_gpus i gs = for_each (\<lambda>gpu. mod_engine (\<lambda>g. g\<lparr>assignments := omap_emplace gpu i (assignments g)\<rparr>)) gs"

definition arrive :: "job_id \<Rightarrow> (training_world, unit) prog" where
  "arrive i =
     seq (emit_job i JobArrived 0)
    (bind (get_engine (\<lambda>g. en_inventory g \<noteq> None)) (\<lambda>scheduled.
     if scheduled
     then seq (mod_job i (\<lambda>j. j\<lparr>jb_state := StateWaiting\<rparr>))
         (seq (job_trace i ''job_waiting'')
         (seq (emit_job i JobWaiting 0)
              (mod_engine (\<lambda>g. g\<lparr>admission_pending := True\<rparr>))))
     else
       bind (job_at i) (\<lambda>j.
       bind (get_engine (\<lambda>g. list_ex (\<lambda>w. map_of (assignments g) w \<noteq> None) (workers (jb_spec j)))) (\<lambda>conflict.
       if conflict then finish_job i StateFailed ''GPU assignment conflict''
       else
         seq (assign_gpus (jb_id j) (workers (jb_spec j)))
        (bind context_now (\<lambda>t.
         seq (mod_job i (\<lambda>j. j\<lparr>jb_assigned := True, jb_allocated_at := Some t\<rparr>))
        (seq (emit_job i JobAdmitted 0)
             (start_step i)))))))) "

definition sound_placement :: "placement \<Rightarrow> bool" where
  "sound_placement p \<longleftrightarrow>
     pl_reason p \<noteq> [] \<and> length (pl_reason p) \<le> 256 \<and> (pl_outcome p \<noteq> Placed \<longrightarrow> pl_workers p = [])"

text \<open>The part of \<open>admit\<close> for a placed job: the allocation and its locality.\<close>

definition allocate_placement :: "job_id \<Rightarrow> u32 \<Rightarrow> scheduling_configuration \<Rightarrow> placement \<Rightarrow> (training_world, locality) prog" where
  "allocate_placement i requested config p =
     bind (job_at i) (\<lambda>j.
     seq (throw_if (length (pl_workers p) \<noteq> unat requested \<or> workers (jb_spec j) \<noteq> [] \<and> pl_workers p \<noteq> workers (jb_spec j))
           (LogicError ''policy violated allocation dimensions or pinned order''))
    (bind (get_engine (\<lambda>g. length (pl_workers p) > size_sub (sc_allocation_entries config) (allocation_entries g))) (\<lambda>full.
     seq (throw_if full (LengthError ''scheduler allocation record limit exceeded''))
    (seq (in_inventory (allocate (jb_id j) (pl_workers p)))
    (seq (mod_engine (\<lambda>g. g\<lparr>allocation_entries := allocation_entries g + length (pl_workers p)\<rparr>))
    (bind (get_engine (\<lambda>g. locality_of (the (en_inventory g)) (pl_workers p))) lift_res))))))"

definition admit_placed :: "job_id \<Rightarrow> gpu_id list \<Rightarrow> (training_world, unit) prog" where
  "admit_placed i gs =
     seq (mod_job i (\<lambda>j. j\<lparr>jb_spec := (jb_spec j)\<lparr>workers := gs\<rparr>\<rparr>))
    (bind (job_at i) (\<lambda>j.
     seq (assign_gpus (jb_id j) (workers (jb_spec j)))
    (bind context_now (\<lambda>t.
     seq (mod_job i (\<lambda>j. j\<lparr>jb_assigned := True, jb_allocated_at := Some t\<rparr>))
    (seq (job_trace i ''job_allocated'')
    (seq (emit_job i JobAdmitted 0)
         (start_step i)))))))"

definition admit :: "job_id \<Rightarrow> (training_world, unit) prog" where
  "admit i =
     bind (get_engine en_scheduling) (\<lambda>sched.
     case sched of
       None \<Rightarrow> throw (LogicError ''admission requires scheduler'')
     | Some config \<Rightarrow>
         bind (get_engine (\<lambda>g. length (en_placements g) = sc_decision_entries config)) (\<lambda>full.
         seq (throw_if full (LengthError ''scheduler decision limit exceeded''))
        (bind (get_engine (\<lambda>g. fragmentation (the (en_inventory g)))) (\<lambda>earlier.
         bind (job_at i) (\<lambda>j.
         let requested = of_nat (length (compute (jb_spec j)))
         in bind (get_engine (\<lambda>g. (the (en_policy g)) \<lparr>req_job = jb_id j, req_workers = requested,
                     req_priority = spec_job_priority (jb_spec j), req_pinned = workers (jb_spec j)\<rparr> (the (en_inventory g)))) (\<lambda>res.
            bind (lift_res res) (\<lambda>p.
            seq (throw_if (\<not> sound_placement p) (LogicError ''invalid scheduling policy result''))
           (bind (if pl_outcome p = Placed then allocate_placement i requested config p
                  else return \<lparr>loc_racks = 0, loc_nics = 0, cross_rack_ring_edges = 0\<rparr>) (\<lambda>near.
            bind (get_engine (\<lambda>g. of_nat (length (en_placements g)))) (\<lambda>decision_id.
            bind context_now (\<lambda>t.
            bind (get_engine (\<lambda>g. fragmentation (the (en_inventory g)))) (\<lambda>later.
            let decision = \<lparr>pn_job = jb_id j, pn_timestamp = t, pn_policy = sc_policy config, pn_version = 1,
                  pn_priority = spec_job_priority (jb_spec j), pn_requested_workers = requested, pn_outcome = pl_outcome p,
                  pn_workers = pl_workers p, pn_reason = pl_reason p, pn_locality = near,
                  fragmentation_before = earlier, fragmentation_after = later\<rparr>
            in seq (mod_engine (\<lambda>g. g\<lparr>en_placements := en_placements g @ [decision]\<rparr>))
              (seq (emit_placement decision decision_id)
              (seq (mod_job i (\<lambda>j. j\<lparr>jb_reason := pl_reason p\<rparr>))
                   (if pl_outcome p = Rejected then finish_job i StateFailed (pl_reason p)
                    else perform_if (pl_outcome p = Placed) (admit_placed i (pl_workers p)))))))))))))))))"

text \<open>The order of the waiting jobs: higher priority, then earlier arrival, then smaller identifier.\<close>

definition admit_before :: "job_record \<Rightarrow> job_record \<Rightarrow> bool" where
  "admit_before a b =
     (if spec_job_priority (jb_spec a) \<noteq> spec_job_priority (jb_spec b) then spec_job_priority (jb_spec a) > spec_job_priority (jb_spec b)
      else if arrival (jb_spec a) \<noteq> arrival (jb_spec b) then arrival (jb_spec a) < arrival (jb_spec b)
      else jb_id a < jb_id b)"

definition waiting_jobs :: "engine \<Rightarrow> job_id list" where
  "waiting_jobs g =
     map fst (std_sort (\<lambda>a b. admit_before (snd a) (snd b)) (filter (\<lambda>(i, j). jb_state j = StateWaiting) (en_jobs g)))"

definition dispatch_waiting :: "(training_world, unit) prog" where
  "dispatch_waiting =
     bind (get_engine (\<lambda>g. admission_pending g \<and> en_inventory g \<noteq> None)) (\<lambda>due.
     perform_if due
      (seq (mod_engine (\<lambda>g. g\<lparr>admission_pending := False\<rparr>))
      (bind (get_engine waiting_jobs) (\<lambda>waiting.
       seq (for_each admit waiting)
           (mod_engine (\<lambda>g. g\<lparr>admission_pending := False\<rparr>))))))"

definition gpu_state :: "workload_event_kind \<Rightarrow> u32 \<Rightarrow> (training_world, unit) prog" where
  "gpu_state knd worker =
     bind (get_engine (\<lambda>g. en_inventory g = None)) (\<lambda>none.
     seq (throw_if none (LogicError ''GPU state without scheduler''))
    (bind (in_inventory (set_health (ucast worker) (knd = GpuUp))) (\<lambda>own.
     seq (case own of
            None \<Rightarrow> return ()
          | Some i \<Rightarrow> perform_if (knd = GpuDown)
              (bind (job_at i) (\<lambda>_. finish_job i StateFailed ''allocated GPU failed'')))
         (mod_engine (\<lambda>g. g\<lparr>admission_pending := True\<rparr>)))))"

section \<open>Entry points\<close>

definition schedule_job :: "job_spec \<Rightarrow> (training_world, job_id) prog" where
  "schedule_job spec =
     bind (get_engine (\<lambda>g. g)) (\<lambda>g0.
     bind (get_graph (\<lambda>graph. validate_job graph (en_limits g0) (en_scheduling g0 \<noteq> None) spec)) (\<lambda>valid.
     bind (lift_res valid) (\<lambda>buckets.
     seq (throw_if (length (en_jobs g0) = lim_jobs (en_limits g0)) (LengthError ''workload job limit exceeded''))
    (let count = length (compute spec); slots = count * unat (if overlap spec then buckets else 1)
     in seq (throw_if (count > size_sub (lim_worker_entries (en_limits g0)) (worker_entries g0)
               \<or> slots > size_sub (lim_compute_event_entries (en_limits g0)) (event_entries g0))
              (LengthError ''workload global retained-state limit exceeded''))
       (let i = of_nat (length (en_jobs g0))
        in bind (zoom_sim (schedule \<lparr>spec_timestamp = arrival spec, spec_priority = Normal,
                   spec_payload = WorkloadEvent i Arrival 0 0 0\<rparr>)) (\<lambda>e.
           seq (mod_engine (\<lambda>g. g\<lparr>
                  worker_entries := worker_entries g + count,
                  event_entries := event_entries g + slots,
                  en_jobs := omap_emplace i
                    \<lparr>jb_id = i, jb_spec = spec, jb_state = StateScheduled, jb_step = 0, jb_buckets = buckets,
                     jb_completed_buckets = 0, jb_compute_complete = 0, jb_step_started = 0, jb_compute_gpu_ns = 0,
                     jb_finished = None, jb_arrival_event = Some e, jb_active_collective = None, jb_ready = [],
                     jb_events = [], jb_reason = [], jb_assigned = False, jb_allocated_at = None\<rparr> (en_jobs g)\<rparr>))
               (return i)))))))"

definition schedule_control :: "job_id \<Rightarrow> workload_event_kind \<Rightarrow> sim_time \<Rightarrow> u32 \<Rightarrow> (training_world, event_id) prog" where
  "schedule_control i knd at worker =
     bind (job_at i) (\<lambda>j.
     seq (throw_if (knd \<noteq> CancelJob \<and> knd \<noteq> WorkerFailure \<or> unat worker \<ge> length (compute (jb_spec j)))
           (InvalidArgument ''invalid workload control event''))
         (zoom_sim (schedule \<lparr>spec_timestamp = at, spec_priority = Critical, spec_payload = WorkloadEvent i knd worker 0 0\<rparr>)))"

definition schedule_gpu_state :: "gpu_id \<Rightarrow> bool \<Rightarrow> sim_time \<Rightarrow> (training_world, event_id) prog" where
  "schedule_gpu_state gpu up at =
     bind (get_engine (\<lambda>g. en_inventory g = None)) (\<lambda>none.
     bind (get_graph (\<lambda>graph. find_gpu graph gpu = None)) (\<lambda>unknown.
     seq (throw_if (none \<or> unknown \<or> gpu > 2 ^ 32 - 1) (InvalidArgument ''GPU state requires scheduler and known GPU''))
         (zoom_sim (schedule \<lparr>spec_timestamp = at, spec_priority = Critical,
            spec_payload = WorkloadEvent 0 (if up then GpuUp else GpuDown) (ucast gpu) 0 0\<rparr>))))"

definition job_event :: "job_id \<Rightarrow> workload_event_kind \<Rightarrow> u32 \<Rightarrow> u32 \<Rightarrow> u32 \<Rightarrow> (training_world, unit) prog" where
  "job_event i knd worker step bucket =
     bind (job_at i) (\<lambda>j.
     perform_if (\<not> terminal (jb_state j))
      (case knd of
         Arrival \<Rightarrow>
           bind (if jb_arrival_event j = None then return True
                 else bind (zoom_sim current_event_id) (\<lambda>e. return (jb_arrival_event j \<noteq> Some e))) (\<lambda>unexpected.
           seq (throw_if unexpected (LogicError ''unexpected job arrival''))
          (seq (mod_job i (\<lambda>j. j\<lparr>jb_arrival_event := None\<rparr>))
               (arrive i)))
       | ComputeReady \<Rightarrow> compute_ready i worker step bucket
       | CancelJob \<Rightarrow> finish_job i StateCancelled ''job cancelled''
       | WorkerFailure \<Rightarrow>
           seq (throw_if (unat worker \<ge> length (compute (jb_spec j))) (InvalidArgument ''unknown failed worker''))
               (finish_job i StateFailed ''worker failed'')
       | _ \<Rightarrow> throw (InvalidArgument ''unknown workload event'')))"

definition handle_workload :: "job_id \<Rightarrow> workload_event_kind \<Rightarrow> u32 \<Rightarrow> u32 \<Rightarrow> u32 \<Rightarrow> (training_world, unit) prog" where
  "handle_workload i knd worker step bucket =
     (if knd = GpuDown \<or> knd = GpuUp then gpu_state knd worker else job_event i knd worker step bucket)"

text \<open>The work of a collective that ended well: the next bucket, the next step, or the end of the job.\<close>

definition add_compute :: "job_id \<Rightarrow> sim_duration \<Rightarrow> (training_world, unit) prog" where
  "add_compute i d =
     bind (job_at i) (\<lambda>j.
     bind (lift_res (checked_sum (jb_compute_gpu_ns j) d)) (\<lambda>v. mod_job i (\<lambda>j. j\<lparr>jb_compute_gpu_ns := v\<rparr>)))"

definition bucket_done :: "job_id \<Rightarrow> (training_world, unit) prog" where
  "bucket_done i =
     seq (mod_job i (\<lambda>j. j\<lparr>jb_active_collective := None, jb_completed_buckets := jb_completed_buckets j + 1\<rparr>))
    (bind (job_at i) (\<lambda>j.
     if jb_completed_buckets j = jb_buckets j
     then
       seq (for_each (add_compute i) (compute (jb_spec j)))
      (seq (emit_job i JobStepCompleted 0)
      (seq (mod_job i (\<lambda>j. j\<lparr>jb_step := jb_step j + 1\<rparr>))
      (bind (job_at i) (\<lambda>j.
       if jb_step j = steps (jb_spec j) then finish_job i StateSucceeded ''all training steps completed''
       else start_step i))))
     else
       seq (mod_job i (\<lambda>j. j\<lparr>jb_state :=
              if unat (jb_compute_complete j) = length (workers (jb_spec j)) then StateCommunicating else StateComputing\<rparr>))
           (start_collective i)))"

definition handle_result :: "collective_result \<Rightarrow> (training_world, unit) prog" where
  "handle_result completion =
     bind (get_engine (\<lambda>g. map_of (en_collectives g) (res_id completion))) (\<lambda>found.
     case found of
       None \<Rightarrow> throw (LogicError ''unowned collective result'')
     | Some i \<Rightarrow>
         bind (job_at i) (\<lambda>j.
         seq (mod_engine (\<lambda>g. g\<lparr>en_collectives := omap_erase (res_id completion) (en_collectives g)\<rparr>))
         (if terminal (jb_state j) then mod_job i (\<lambda>j. j\<lparr>jb_active_collective := None\<rparr>)
          else if res_outcome completion \<noteq> PhaseSucceeded
          then seq (emit_job i JobCollectiveCompleted 0)
              (seq (mod_job i (\<lambda>j. j\<lparr>jb_active_collective := None\<rparr>))
                   (finish_job i StateFailed (res_reason completion)))
          else seq (job_trace i ''bucket_collective_completed'')
              (seq (emit_job i JobCollectiveCompleted 0)
                   (bucket_done i)))))"

definition job_snapshot_of :: "engine \<Rightarrow> job_id \<Rightarrow> sim_time \<Rightarrow> exn + job_snapshot option" where
  "job_snapshot_of g i t =
     (case map_of (en_jobs g) i of None \<Rightarrow> Inr None | Some j \<Rightarrow> bindR (inspect j t) (\<lambda>snap. Inr (Some snap)))"

definition take_jobs :: "(training_world, job_snapshot list) prog" where
  "take_jobs =
     bind (get_engine en_completed) (\<lambda>ended.
     seq (mod_engine (\<lambda>g. g\<lparr>en_completed := []\<rparr>)) (return ended))"

section \<open>The dispatcher\<close>

text \<open>
  \<^verbatim>\<open>TrainingDispatcher\<close>: every event goes to the component it belongs to, and \<open>pump\<close> then carries the outcomes
  upwards: completed transfers to the executor, completed collectives to the engine, until nothing is left. The
  loop's variable \<^verbatim>\<open>completed\<close> is the second component of its state.
\<close>

definition pump_transfers :: "(training_world, unit) prog" where
  "pump_transfers =
     bind (in_fabric (zoom_net take_completed_transfers)) (for_each (\<lambda>completion. in_collective (handle_transfer completion)))"

definition gather :: "(training_world, collective_result list) prog" where
  "gather = seq dispatch_waiting (in_collective take_completed)"

definition pump_round :: "(training_world \<times> collective_result list, unit) prog" where
  "pump_round =
     bind (gets snd) (\<lambda>completed.
     seq (zoom fst (\<lambda>w (_, c). (w, c)) (for_each handle_result completed))
    (bind (zoom fst (\<lambda>w (_, c). (w, c)) gather) (\<lambda>completed. modify (\<lambda>(w, _). (w, completed)))))"

definition pump_loop :: "collective_result list \<Rightarrow> (training_world, unit) prog" where
  "pump_loop completed = (\<lambda>w. map_prod id fst (while_prog (\<lambda>(w, c). c \<noteq> []) pump_round (w, completed)))"

definition pump :: "(training_world, unit) prog" where
  "pump = seq pump_transfers (bind gather pump_loop)"

primrec training_dispatch :: "event_payload \<Rightarrow> (training_world, unit) prog" where
  "training_dispatch (NoOpEvent v) = throw (LogicError ''unexpected no-op in training simulation'')"
| "training_dispatch (WorkloadEvent i knd worker step bucket) = seq (handle_workload i knd worker step bucket) pump"
| "training_dispatch (LocalCompletionEvent i round rank ph) =
     seq (in_collective (handle_local (LocalCompletionEvent i round rank ph))) pump"
| "training_dispatch (ChunkArrivalEvent c hop) = seq (in_fabric (handle_arrival c hop)) pump"
| "training_dispatch (TransmissionCompleteEvent l c hop d) = seq (in_fabric (handle_completion l c hop d)) pump"
| "training_dispatch (LinkStateChangeEvent l st) = seq (in_fabric (handle_link_state_change l st)) pump"
| "training_dispatch (PortStateChangeEvent p st) = seq (in_fabric (handle_port_state_change p st)) pump"
| "training_dispatch (SwitchStateChangeEvent v st) = seq (in_fabric (handle_switch_state_change v st)) pump"

end
