(* ===== verification/Workload_Frames.thy ===== *)
theory Workload_Frames
  imports Workload_Engine Frames
begin

text \<open>
  A weakest precondition of the engine alone. Most of what an operation of the engine does to the rest of the
  world (telemetry, scheduled events, submitted collectives) does not matter for the engine's books, so that a
  program is followed on the engine while everything else may become anything. Each operation of the engine
  gets one rule that says how it changes the job it works on.
\<close>

section \<open>The calculus\<close>

abbreviation engine_of :: "training_world \<Rightarrow> engine" where
  "engine_of w \<equiv> snd (snd (snd (snd w)))"

definition ewp :: "(training_world, 'a) prog \<Rightarrow> ('a \<Rightarrow> engine \<Rightarrow> bool) \<Rightarrow> engine \<Rightarrow> bool" where
  "ewp m R g \<longleftrightarrow> (\<forall>w. engine_of w = g \<longrightarrow> wp m (\<lambda>x w'. R x (engine_of w')) (\<lambda>_ _. True) w)"

named_theorems ewp_intros \<open>rules of the engine's weakest precondition\<close>

lemma ewpI: "(\<And>w. engine_of w = g \<Longrightarrow> wp m (\<lambda>x w'. R x (engine_of w')) (\<lambda>_ _. True) w) \<Longrightarrow> ewp m R g"
  by (simp add: ewp_def)

lemma ewpD: "ewp m R g \<Longrightarrow> engine_of w = g \<Longrightarrow> m w = (Inr x, w') \<Longrightarrow> R x (engine_of w')"
  unfolding ewp_def by (blast dest: wp_normal)

lemma ewp_mono: "ewp m R g \<Longrightarrow> (\<And>x g'. R x g' \<Longrightarrow> R' x g') \<Longrightarrow> ewp m R' g"
  unfolding ewp_def by (intro allI impI, erule allE, drule (1) mp, erule wp_mono) simp_all

lemma ewp_bind [ewp_intros]: "ewp m (\<lambda>x g'. ewp (f x) R g') g \<Longrightarrow> ewp (bind m f) R g"
  unfolding ewp_def wp_bind by (intro allI impI, erule allE, drule (1) mp, erule wp_mono) blast+

lemma ewp_seq [ewp_intros]: "ewp m (\<lambda>_ g'. ewp k R g') g \<Longrightarrow> ewp (seq m k) R g"
  unfolding seq_def by (rule ewp_bind)

lemma ewp_return [ewp_intros]: "R x g \<Longrightarrow> ewp (return x) R g"
  and ewp_throw [ewp_intros]: "ewp (throw e) R g"
  and ewp_get [ewp_intros]: "R (f g) g \<Longrightarrow> ewp (get_engine f) R g"
  and ewp_mod [ewp_intros]: "P () (h g) \<Longrightarrow> ewp (mod_engine h) P g"
  and ewp_guard [ewp_intros]: "(\<not> c \<Longrightarrow> P () g) \<Longrightarrow> ewp (throw_if c e) P g"
  by (auto simp: ewp_def wp_simps get_engine_def mod_engine_def)

lemma ewp_lift [ewp_intros]: "(\<And>x. v = Inr x \<Longrightarrow> R x g) \<Longrightarrow> ewp (lift_res v) R g"
  by (auto simp: ewp_def wp_simps split: sum.split)

lemma ewp_perform_if [ewp_intros]: "(c \<Longrightarrow> ewp m R g) \<Longrightarrow> (\<not> c \<Longrightarrow> R () g) \<Longrightarrow> ewp (perform_if c m) R g"
  by (simp add: perform_if_def ewp_return)

lemma ewp_if [ewp_intros]: "(c \<Longrightarrow> ewp m R g) \<Longrightarrow> (\<not> c \<Longrightarrow> ewp k R g) \<Longrightarrow> ewp (if c then m else k) R g"
  by simp

lemma ewp_option [ewp_intros]:
  "(v = None \<Longrightarrow> ewp m R g) \<Longrightarrow> (\<And>x. v = Some x \<Longrightarrow> ewp (f x) R g) \<Longrightarrow> ewp (case v of None \<Rightarrow> m | Some x \<Rightarrow> f x) R g"
  by (cases v) simp_all

lemma ewp_for_each:
  assumes "\<And>x g. x \<in> set xs \<Longrightarrow> I g \<Longrightarrow> ewp (f x) (\<lambda>_. I) g" "I g" "\<And>g. I g \<Longrightarrow> R () g"
  shows "ewp (for_each f xs) R g"
proof -
  have "ewp (for_each f xs) (\<lambda>_. I) g"
    by (rule ewpI, rule wp_for_each_inv) (use assms in \<open>auto simp: ewp_def\<close>)
  then show ?thesis by (rule ewp_mono) (use assms(3) in simp)
qed

text \<open>Programs that leave the engine alone.\<close>

definition aside :: "(training_world, 'a) prog \<Rightarrow> bool" where
  "aside m \<longleftrightarrow> moves (\<lambda>_. True) (\<lambda>w w'. engine_of w' = engine_of w) m"

lemma ewp_aside: "aside m \<Longrightarrow> (\<And>x. R x g) \<Longrightarrow> ewp m R g"
  unfolding aside_def moves_def by (rule ewpI) (fastforce elim: wp_mono)

interpretation aside: state_frame "\<lambda>_. True" "\<lambda>w w'. engine_of w' = engine_of w"
  by unfold_locales auto

lemma aside_zooms: "aside (zoom_sim m)" "aside (in_collective c)" "aside (in_fabric f)"
  by (auto simp: aside_def moves_def zoom_sim_def in_collective_def in_fabric_def wp_simps wp_def split: prod.splits sum.splits)

lemma aside_context: "aside context_now" "aside (context_record sink cor ob)" "aside context_correlation"
  unfolding context_record_def context_correlation_def context_now_def aside_def
  by (intro aside.moves_rules aside_zooms [unfolded aside_def])+

lemma aside_when_enabled: "(\<And>cor. aside (f cor)) \<Longrightarrow> aside (when_enabled sink f)"
  unfolding when_enabled_def aside_def by (intro aside.moves_rules aside_context [unfolded aside_def])

lemma aside_reads: "aside (get_engine f)" "aside (get_graph h)" "aside (job_at i)"
  unfolding get_engine_def get_graph_def job_at_def aside_def by (intro aside.moves_rules)+

lemma aside_emissions: "aside (emit_job i tr w)" "aside (emit_terminal_metrics snap)" "aside (emit_placement d k)"
  unfolding emit_job_def emit_terminal_metrics_def emit_placement_def Let_def aside_def
  by (intro aside.moves_rules aside_reads [unfolded aside_def] aside_when_enabled [unfolded aside_def] aside_context [unfolded aside_def])+

lemma aside_cancel_event: "aside (cancel_event e)"
  unfolding cancel_event_def aside_def by (intro aside.moves_rules aside_zooms [unfolded aside_def])

lemmas [ewp_intros] = ewp_aside [OF aside_zooms(1)] ewp_aside [OF aside_zooms(2)] ewp_aside [OF aside_zooms(3)]
  ewp_aside [OF aside_context(1)] ewp_aside [OF aside_reads(2)] ewp_aside [OF aside_emissions(1)]
  ewp_aside [OF aside_emissions(2)] ewp_aside [OF aside_emissions(3)] ewp_aside [OF aside_cancel_event]

section \<open>Jobs\<close>

abbreviation put_job :: "job_id \<Rightarrow> job_record \<Rightarrow> engine \<Rightarrow> engine" where
  "put_job i j g \<equiv> g\<lparr>en_jobs := omap_put i j (en_jobs g)\<rparr>"

lemma ewp_job_at [ewp_intros]: "(\<And>j. map_of (en_jobs g) i = Some j \<Longrightarrow> R j g) \<Longrightarrow> ewp (job_at i) R g"
  unfolding job_at_def by (intro ewp_intros) auto

lemma ewp_mod_job [ewp_intros]:
  "(\<And>j. map_of (en_jobs g) i = Some j \<Longrightarrow> R () (put_job i (f j) g)) \<Longrightarrow> ewp (mod_job i f) R g"
  unfolding mod_job_def by (intro ewp_intros) auto

lemma ewp_job_trace [ewp_intros]: "(\<And>l. R () (g\<lparr>en_timeline := l\<rparr>)) \<Longrightarrow> ewp (job_trace i a) R g"
  unfolding job_trace_def by (intro ewp_intros) auto

lemma ewp_known:
  "map_of (en_jobs g) i = Some j \<Longrightarrow> R j g \<Longrightarrow> ewp (job_at i) R g"
  and ewp_mod_known: "map_of (en_jobs g) i = Some j \<Longrightarrow> P () (put_job i (f j) g) \<Longrightarrow> ewp (mod_job i f) P g"
  by (auto intro: ewp_intros)

text \<open>
  The fields of a job that the books speak of, and the fields of the engine that few operations touch. A job
  \<open>becomes\<close> another one when nothing else of these changes.
\<close>

definition core :: "job_record \<Rightarrow> job_id \<times> job_spec \<times> job_state \<times> u32 \<times> u32 \<times> u32 \<times> sim_time option \<times> event_id option
    \<times> collective_id option \<times> bool" where
  "core j = (jb_id j, jb_spec j, jb_state j, jb_step j, jb_buckets j, jb_completed_buckets j, jb_finished j,
     jb_arrival_event j, jb_active_collective j, jb_assigned j)"

definition rest :: "engine \<Rightarrow> (gpu_id, job_id) omap \<times> inventory option \<times> job_snapshot list \<times> workload_limits" where
  "rest g = (assignments g, en_inventory g, en_completed g, en_limits g)"

definition becomes :: "job_id \<Rightarrow> job_record \<Rightarrow> engine \<Rightarrow> engine \<Rightarrow> bool" where
  "becomes i j g g' \<longleftrightarrow> (\<exists>j'. en_jobs g' = omap_put i j' (en_jobs g) \<and> core j' = core j) \<and> rest g' = rest g"

lemma becomesI: "en_jobs g' = omap_put i j' (en_jobs g) \<Longrightarrow> core j' = core j \<Longrightarrow> rest g' = rest g \<Longrightarrow> becomes i j g g'"
  by (auto simp: becomes_def)

lemmas core_simps = core_def rest_def

lemma becomes_timeline [simp]: "becomes i j g (g'\<lparr>en_timeline := l\<rparr>) = becomes i j g g'"
  by (simp add: becomes_def rest_def)

lemma becomes_trans: "becomes i a g g1 \<Longrightarrow> becomes i b g1 g2 \<Longrightarrow> becomes i b g g2"
  by (auto simp: becomes_def)

lemma becomes_core: "becomes i a g g' \<Longrightarrow> core a = core b \<Longrightarrow> becomes i b g g'"
  by (simp add: becomes_def)

lemma becomesE:
  assumes "becomes i a g g'"
  obtains j' where "map_of (en_jobs g') i = Some j'" "core j' = core a"
  using assms by (auto simp: becomes_def)

lemma becomes_put: "becomes i a g g' \<Longrightarrow> becomes i b g (put_job i b g')"
  by (auto simp: becomes_def rest_def)

lemma ewp_start_step:
  assumes j: "map_of (en_jobs g) i = Some j"
    and R: "\<And>g'. becomes i (j\<lparr>jb_state := StateComputing, jb_completed_buckets := 0\<rparr>) g g' \<Longrightarrow>
      en_collectives g' = en_collectives g \<Longrightarrow> R () g'"
  shows "ewp (start_step i) R g"
proof -
  let ?I = "\<lambda>g'. becomes i (j\<lparr>jb_state := StateComputing, jb_completed_buckets := 0\<rparr>) g g' \<and> en_collectives g' = en_collectives g"
  have body: "ewp (schedule_compute i w k) (\<lambda>_. ?I) g'" if "?I g'" for w k g'
    using that unfolding schedule_compute_def Let_def becomes_def by (auto intro!: ewp_intros simp: core_simps)
  have loop: "ewp (for_each (\<lambda>w. for_each (schedule_compute i w) ks) ws) P g'" if "?I g'" "\<And>g'. ?I g' \<Longrightarrow> P () g'" for P g' ks ws
    by (rule ewp_for_each [where I = ?I]) (use that in \<open>auto intro!: ewp_for_each [where I = ?I] body\<close>)
  have "?I (put_job i (j\<lparr>jb_state := StateComputing, jb_step_started := t, jb_completed_buckets := 0, jb_compute_complete := 0,
      jb_ready := rd, jb_events := evs\<rparr>) g)" for t rd evs
    by (auto simp: core_simps intro!: becomesI)
  then show ?thesis
    unfolding start_step_def
    by (intro ewp_bind ewp_seq ewp_aside [OF aside_context(1)] ewp_mod_known [OF j] ewp_job_at loop ewp_job_trace
        ewp_aside [OF aside_emissions(1)]) (auto intro: R)
qed

lemma ewp_start_collective:
  assumes j: "map_of (en_jobs g) i = Some j" and none: "R () g"
    and R: "\<And>k st g'. becomes i (j\<lparr>jb_active_collective := Some k, jb_state := st\<rparr>) g g' \<Longrightarrow>
      en_collectives g' = omap_emplace k (jb_id j) (en_collectives g) \<Longrightarrow>
      jb_active_collective j = None \<Longrightarrow> st \<in> {StateCommunicating, StateOverlapping} \<Longrightarrow> R () g'"
  shows "ewp (start_collective i) R g"
proof -
  have "R () (g\<lparr>en_collectives := omap_emplace k (jb_id j) (en_collectives g),
      en_jobs := omap_put i (j\<lparr>jb_active_collective := Some k, jb_state := st\<rparr>) (en_jobs g),
      en_timeline := l\<rparr>)" if "jb_active_collective j = None" "st \<in> {StateCommunicating, StateOverlapping}" for k st l
    by (rule R [OF becomesI]) (use that in \<open>auto simp: core_simps\<close>)
  then show ?thesis
    unfolding start_collective_def
    by (intro ewp_bind ewp_seq ewp_known [OF j] ewp_intros) (use j none in auto)
qed

lemma mark_ready_core: "core (mark_ready b j) = core j"
  by (simp add: mark_ready_def core_def)

text \<open>The part of \<open>compute_ready\<close> before the collective changes at most the state.\<close>

lemma ewp_compute_ready:
  assumes j: "map_of (en_jobs g) i = Some j"
    and R: "\<And>st g'. becomes i (j\<lparr>jb_state := st\<rparr>) g g' \<Longrightarrow> en_collectives g' = en_collectives g \<Longrightarrow>
        jb_state j \<notin> {StateScheduled, StateWaiting} \<Longrightarrow> st = jb_state j \<or> st = StateCommunicating \<Longrightarrow> R () g'"
      "\<And>k st g'. becomes i (j\<lparr>jb_active_collective := Some k, jb_state := st\<rparr>) g g' \<Longrightarrow>
        en_collectives g' = omap_emplace k (jb_id j) (en_collectives g) \<Longrightarrow> jb_state j \<notin> {StateScheduled, StateWaiting} \<Longrightarrow>
        jb_active_collective j = None \<Longrightarrow> st \<in> {StateCommunicating, StateOverlapping} \<Longrightarrow> R () g'"
  shows "ewp (compute_ready i wk sp b) R g"
proof -
  define I where "I g' \<longleftrightarrow> (\<exists>st. becomes i (j\<lparr>jb_state := st\<rparr>) g g' \<and> (st = jb_state j \<or> st = StateCommunicating))
    \<and> en_collectives g' = en_collectives g" for g'
  have first: "I (put_job i (j\<lparr>jb_events := evs\<rparr>) g)" for evs
    unfolding I_def by (auto intro!: exI [of _ "jb_state j"] becomesI simp: core_simps)
  have put: "I (put_job i b g')" if "I g'" "map_of (en_jobs g') i = Some j'" "core b = core (j'\<lparr>jb_state := st\<rparr>)"
    "st = jb_state j' \<or> st = StateCommunicating" for b j' g' st
  proof -
    note I = that(1)
    obtain st0 where st0: "becomes i (j\<lparr>jb_state := st0\<rparr>) g g'" "st0 = jb_state j \<or> st0 = StateCommunicating"
      using I unfolding I_def by blast
    then have "core j' = core (j\<lparr>jb_state := st0\<rparr>)" using that(2) by (auto elim: becomesE)
    then have "core b = core (j\<lparr>jb_state := st\<rparr>)" "st = jb_state j \<or> st = StateCommunicating"
      using that(3,4) st0(2) by (auto simp: core_def)
    then show ?thesis using becomes_core [OF becomes_put [OF st0(1)]] that(1) by (auto simp: I_def)
  qed
  have same: "I (put_job i b g')" if "I g'" "map_of (en_jobs g') i = Some j'" "core b = core j'" for b j' g'
    using put [OF that(1,2), of b "jb_state j'"] that(3) by simp
  have line: "I (g'\<lparr>en_timeline := l\<rparr>)" if "I g'" for g' l using that by (simp add: I_def)
  have last: "ewp (start_collective i) R g'" if "I g'" "jb_state j \<notin> {StateScheduled, StateWaiting}" for g'
  proof -
    note I = that(1)
    obtain st where st: "becomes i (j\<lparr>jb_state := st\<rparr>) g g'" "st = jb_state j \<or> st = StateCommunicating" "en_collectives g' = en_collectives g"
      using I unfolding I_def by blast
    obtain j' where j': "map_of (en_jobs g') i = Some j'" "core j' = core (j\<lparr>jb_state := st\<rparr>)" by (rule becomesE [OF st(1)])
    show ?thesis
    proof (rule ewp_start_collective [OF j'(1)])
      show "R () g'" by (rule R(1) [OF st(1,3) that(2) st(2)])
      fix k st' g''
      assume "becomes i (j'\<lparr>jb_active_collective := Some k, jb_state := st'\<rparr>) g' g''"
      from becomes_core [OF becomes_trans [OF st(1) this], of "j\<lparr>jb_active_collective := Some k, jb_state := st'\<rparr>"]
      have "becomes i (j\<lparr>jb_active_collective := Some k, jb_state := st'\<rparr>) g g''" using j'(2) by (simp add: core_def)
      then show "en_collectives g'' = omap_emplace k (jb_id j') (en_collectives g') \<Longrightarrow> jb_active_collective j' = None \<Longrightarrow>
          st' \<in> {StateCommunicating, StateOverlapping} \<Longrightarrow> R () g''"
        using R(2) [where k = k and st = st' and g' = g''] j'(2) st(3) that(2) by (simp add: core_def)
    qed
  qed
  have mark: "ewp (mod_job i (mark_ready b)) (\<lambda>_. I) g'" if "I g'" for g'
    by (rule ewp_mod_job, rule same [OF that]) (simp_all add: mark_ready_core)
  have count: "ewp (perform_if c (seq (mod_job i (\<lambda>j. j\<lparr>jb_compute_complete := jb_compute_complete j + 1\<rparr>))
      (bind (job_at i) (\<lambda>j. perform_if (d j) (emit_job i JobStragglerStarted wk))))) (\<lambda>_. I) g'" if "I g'" for c d g'
    by (intro ewp_intros that) (erule same [OF that], auto simp: core_def)+
  have comm: "ewp (perform_if c (mod_job i (\<lambda>j. j\<lparr>jb_state := StateCommunicating\<rparr>))) (\<lambda>_. I) g'" if "I g'" for c g'
    by (intro ewp_intros that) (erule put [OF that, where st = StateCommunicating], simp_all add: core_def)
  have full: "ewp (perform_if c (seq (perform_if d (mod_job i (\<lambda>j. j\<lparr>jb_state := StateCommunicating\<rparr>)))
      (seq (job_trace i ''step_compute_finished'') (emit_job i JobComputeCompleted wk)))) (\<lambda>_. I) g'" if "I g'" for c d g'
    by (intro ewp_perform_if ewp_seq ewp_mono [OF comm [OF that]] ewp_job_trace ewp_aside [OF aside_emissions(1)] line that)
  show ?thesis
    unfolding compute_ready_def Let_def
    by (intro ewp_bind ewp_seq ewp_known [OF j] ewp_guard ewp_mod_known [OF j] ewp_if ewp_return ewp_aside [OF aside_zooms(1)]
        ewp_mono [OF mark [OF first]] ewp_mono [OF count] ewp_job_at ewp_mono [OF full] last) auto
qed

section \<open>The end of a job\<close>

lemma for_each_mod: "R () (fold h xs g) \<Longrightarrow> ewp (for_each (\<lambda>x. mod_engine (h x)) xs) R g"
proof (induction xs arbitrary: g)
  case Nil
  then show ?case by (simp add: ewp_return)
next
  case (Cons x xs)
  then show ?case by (auto intro!: ewp_seq ewp_mod)
qed

lemma fold_assignments:
  "fold (\<lambda>w g. g\<lparr>assignments := h w (assignments g)\<rparr>) ws g = g\<lparr>assignments := fold h ws (assignments g)\<rparr>"
  by (induction ws arbitrary: g) simp_all

lemma ewp_assign_gpus:
  assumes "R () (g\<lparr>assignments := fold (\<lambda>w. omap_emplace w i) gs (assignments g)\<rparr>)"
  shows "ewp (assign_gpus i gs) R g"
  unfolding assign_gpus_def by (rule for_each_mod) (simp add: assms fold_assignments [of "\<lambda>w. omap_emplace w i"])

text \<open>What the books keep of the engine once a job has given its GPUs back.\<close>

definition freed :: "job_record \<Rightarrow> job_snapshot \<Rightarrow> engine \<Rightarrow> engine \<Rightarrow> bool" where
  "freed j snap g g' \<longleftrightarrow>
     assignments g' = (if jb_assigned j then fold omap_erase (workers (jb_spec j)) (assignments g) else assignments g)
     \<and> en_inventory g' = map_option (release (jb_id j)) (en_inventory g)
     \<and> en_completed g' = en_completed g @ [snap] \<and> en_collectives g' = en_collectives g \<and> en_limits g' = en_limits g"

lemma ewp_release:
  assumes "map_of (en_jobs g) i = Some j"
    and "\<And>g'. en_jobs g' = en_jobs g \<Longrightarrow>
      assignments g' = (if jb_assigned j then fold omap_erase (workers (jb_spec j)) (assignments g) else assignments g) \<Longrightarrow>
      en_inventory g' = map_option (release (jb_id j)) (en_inventory g) \<Longrightarrow>
      en_completed g' = en_completed g \<Longrightarrow> en_collectives g' = en_collectives g \<Longrightarrow> en_limits g' = en_limits g \<Longrightarrow> R () g'"
  shows "ewp (release_gpus i) R g"
  unfolding release_gpus_def
  by (intro ewp_bind ewp_seq ewp_known [OF assms(1)] ewp_perform_if for_each_mod ewp_mod)
    (auto intro!: assms(2) simp: fold_assignments split: option.split)

definition ended :: "job_record \<Rightarrow> job_state \<Rightarrow> string \<Rightarrow> sim_time \<Rightarrow> job_record \<Rightarrow> bool" where
  "ended j st m t j' \<longleftrightarrow> core j' = core (j\<lparr>jb_state := st, jb_finished := Some t, jb_arrival_event := None\<rparr>) \<and> jb_reason j' = m"

lemma ewp_finish:
  assumes j: "map_of (en_jobs g) i = Some j" and none: "terminal (jb_state j) \<Longrightarrow> R () g"
    and R: "\<And>t j' snap g'. en_jobs g' = omap_put i j' (en_jobs g) \<Longrightarrow> ended j st m t j' \<Longrightarrow> freed j snap g g' \<Longrightarrow>
      inspect j' t = Inr snap \<Longrightarrow> \<not> terminal (jb_state j) \<Longrightarrow> R () g'"
  shows "ewp (finish_job i st m) R g"
proof -
  define I where "I a g' \<longleftrightarrow> (\<exists>j'. map_of (en_jobs g') i = Some j' \<and> core j' = core (j\<lparr>jb_arrival_event := a\<rparr>))
    \<and> (\<forall>b. omap_put i b (en_jobs g') = omap_put i b (en_jobs g)) \<and> rest g' = rest g \<and> en_collectives g' = en_collectives g" for a g'
  have start: "I (jb_arrival_event j) g" using j by (simp add: I_def)
  have put: "I a (put_job i b g')" if "I a' g'" "core b = core (j\<lparr>jb_arrival_event := a\<rparr>)" for a a' b g'
    using that by (auto simp: I_def rest_def)
  have last: "ewp (seq (release_gpus i) (seq (mod_job i (\<lambda>j. j\<lparr>jb_state := st, jb_reason := m, jb_finished := Some t\<rparr>))
      (seq (job_trace i ''job_terminal'')
      (bind (job_at i) (\<lambda>j. bind (lift_res (inspect j t)) (\<lambda>snap.
       seq (mod_engine (\<lambda>g. g\<lparr>en_completed := en_completed g @ [snap]\<rparr>))
      (seq (emit_job i (terminal_transition st) 0) (emit_terminal_metrics snap)))))))) R g'"
    if "I None g'" "\<not> terminal (jb_state j)" for t g'
  proof -
    note I = that(1)
    obtain j' where j': "map_of (en_jobs g') i = Some j'" "core j' = core (j\<lparr>jb_arrival_event := None\<rparr>)"
      using I by (auto simp: I_def)
    have g': "\<And>b. omap_put i b (en_jobs g') = omap_put i b (en_jobs g)" "rest g' = rest g" "en_collectives g' = en_collectives g"
      using I by (auto simp: I_def)
    have fin: "R () g''" if "en_jobs g'' = omap_put i b (en_jobs g')" "freed j' snap g' g''" "inspect b t = Inr snap"
      "b = j'\<lparr>jb_state := st, jb_reason := m, jb_finished := Some t\<rparr>" for g'' b snap
      using R [of g'' b t snap] that g' j'(2) \<open>\<not> terminal (jb_state j)\<close> by (auto simp: freed_def ended_def core_simps)
    show ?thesis
      by (intro ewp_seq ewp_release [OF j'(1)] ewp_mod_known ewp_job_trace ewp_bind ewp_known ewp_lift ewp_mod
          ewp_aside [OF aside_emissions(1)] ewp_aside [OF aside_emissions(2)]) (auto simp: j' freed_def intro!: fin)
  qed
  have events: "ewp (for_each cancel_event es) P g'" if "P () g'" for es P g'
    by (rule ewp_aside) (use that in \<open>auto simp: aside_def intro!: aside.moves_rules aside_cancel_event [unfolded aside_def]\<close>)
  have inspected: "ewp (perform_if c (bind (lift_res v) (\<lambda>snap. mod_job i (\<lambda>j. j\<lparr>jb_compute_gpu_ns := h snap\<rparr>)))) P g"
    if "\<And>g'. I (jb_arrival_event j) g' \<Longrightarrow> P () g'" for c v h P
    by (intro ewp_perform_if ewp_bind ewp_lift ewp_mod_known [OF j] that start put [OF start]) (simp add: core_def)
  have arrival: "ewp (perform_if (jb_arrival_event j \<noteq> None) (seq (cancel_event e) (mod_job i (\<lambda>j. j\<lparr>jb_arrival_event := None\<rparr>)))) P g'"
    if I: "I (jb_arrival_event j) g'" and P: "\<And>g'. I None g' \<Longrightarrow> P () g'" for e P g'
    by (intro ewp_perform_if ewp_seq ewp_aside [OF aside_cancel_event] ewp_mod_job P put [OF I])
      (use I in \<open>auto simp: I_def core_def\<close>)
  show ?thesis
    unfolding finish_job_def
    by (intro ewp_bind ewp_known [OF j] ewp_perform_if ewp_aside [OF aside_context(1)] ewp_seq inspected events arrival
        ewp_option ewp_return ewp_aside [OF aside_zooms(2)] last none) auto
qed

section \<open>The end of a bucket\<close>

abbreviation bucket_over :: "job_record \<Rightarrow> job_record" where
  "bucket_over j \<equiv> j\<lparr>jb_active_collective := None, jb_completed_buckets := jb_completed_buckets j + 1\<rparr>"

lemma freed_cong: "freed j snap g g' \<Longrightarrow> core j = core a \<Longrightarrow> rest g = rest h \<Longrightarrow> en_collectives g = en_collectives h \<Longrightarrow> freed a snap h g'"
  by (auto simp: freed_def core_simps)

lemma ewp_add_compute:
  assumes I: "becomes i a g0 g" "en_collectives g = en_collectives g0" and P: "\<And>g'. becomes i a g0 g' \<Longrightarrow> en_collectives g' = en_collectives g0 \<Longrightarrow> R () g'"
  shows "ewp (for_each (add_compute i) ds) R g"
proof (rule ewp_for_each [where I = "\<lambda>g'. becomes i a g0 g' \<and> en_collectives g' = en_collectives g0"])
  fix d g
  assume I: "becomes i a g0 g \<and> en_collectives g = en_collectives g0"
  then obtain j where j: "map_of (en_jobs g) i = Some j" "core j = core a" by (auto elim: becomesE)
  have "core (j\<lparr>jb_compute_gpu_ns := v\<rparr>) = core a" for v using j(2) by (simp add: core_def)
  then have "becomes i a g0 (put_job i (j\<lparr>jb_compute_gpu_ns := v\<rparr>) g)" for v
    using becomes_core [OF becomes_put] I by blast
  then show "ewp (add_compute i d) (\<lambda>_ g'. becomes i a g0 g' \<and> en_collectives g' = en_collectives g0) g"
    unfolding add_compute_def using I by (intro ewp_bind ewp_known [OF j(1)] ewp_lift ewp_mod_known [OF j(1)]) simp_all
qed (use I P in auto)

lemma ewp_bucket_done:
  assumes j: "map_of (en_jobs g) i = Some j"
    and R1: "\<And>t m j' snap g'. en_jobs g' = omap_put i j' (en_jobs g) \<Longrightarrow>
        ended ((bucket_over j)\<lparr>jb_step := jb_step j + 1\<rparr>) StateSucceeded m t j' \<Longrightarrow> freed j snap g g' \<Longrightarrow>
        inspect j' t = Inr snap \<Longrightarrow> R () g'"
    and R2: "\<And>g'. becomes i ((bucket_over j)\<lparr>jb_step := jb_step j + 1, jb_state := StateComputing, jb_completed_buckets := 0\<rparr>) g g' \<Longrightarrow>
        en_collectives g' = en_collectives g \<Longrightarrow> jb_completed_buckets j + 1 = jb_buckets j \<Longrightarrow> jb_step j + 1 \<noteq> steps (jb_spec j) \<Longrightarrow> R () g'"
    and R3: "\<And>st g'. becomes i ((bucket_over j)\<lparr>jb_state := st\<rparr>) g g' \<Longrightarrow> en_collectives g' = en_collectives g \<Longrightarrow>
        jb_completed_buckets j + 1 \<noteq> jb_buckets j \<Longrightarrow> st \<in> {StateCommunicating, StateComputing} \<Longrightarrow> R () g'"
    and R4: "\<And>k st g'. becomes i ((bucket_over j)\<lparr>jb_active_collective := Some k, jb_state := st\<rparr>) g g' \<Longrightarrow>
        en_collectives g' = omap_emplace k (jb_id j) (en_collectives g) \<Longrightarrow> jb_completed_buckets j + 1 \<noteq> jb_buckets j \<Longrightarrow>
        st \<in> {StateCommunicating, StateOverlapping} \<Longrightarrow> R () g'"
    and live: "\<not> terminal (jb_state j)"
  shows "ewp (bucket_done i) R g"
proof -
  let ?b = "bucket_over j"
  let ?n = "?b\<lparr>jb_step := jb_step j + 1\<rparr>"
  have start: "becomes i ?b g (put_job i ?b g)" by (rule becomesI [OF _ refl]) (simp_all add: rest_def)
  have next_step: "ewp (bind (job_at i) (\<lambda>j. if jb_step j = steps (jb_spec j) then finish_job i StateSucceeded m else start_step i)) R g1"
    if "becomes i ?n g g1" "en_collectives g1 = en_collectives g" "jb_completed_buckets j + 1 = jb_buckets j" for g1 m
  proof -
    note g1 = that
    obtain a where a: "map_of (en_jobs g1) i = Some a" "core a = core ?n" by (rule becomesE [OF g1(1)])
    have jobs: "omap_put i b (en_jobs g1) = omap_put i b (en_jobs g)" for b using g1(1) by (auto simp: becomes_def)
    have fin: "ewp (finish_job i StateSucceeded m) R g1"
    proof (rule ewp_finish [OF a(1)])
      show "terminal (jb_state a) \<Longrightarrow> R () g1" using a(2) live by (simp add: core_def)
      fix t j' snap g'
      assume h: "en_jobs g' = omap_put i j' (en_jobs g1)" "ended a StateSucceeded m t j'" "freed a snap g1 g'" "inspect j' t = Inr snap"
      have "ended ?n StateSucceeded m t j'" using h(2) a(2) by (simp add: ended_def core_def)
      moreover have "freed j snap g g'" using h(3) g1(1,2) a(2) by (auto simp: freed_def core_simps becomes_def)
      ultimately show "R () g'" using R1 h(1,4) jobs by simp
    qed
    have "ewp (start_step i) R g1" if "jb_step j + 1 \<noteq> steps (jb_spec j)"
    proof (rule ewp_start_step [OF a(1)])
      fix g' assume h: "becomes i (a\<lparr>jb_state := StateComputing, jb_completed_buckets := 0\<rparr>) g1 g'" "en_collectives g' = en_collectives g1"
      show "R () g'"
        by (rule R2 [OF becomes_core [OF becomes_trans [OF g1(1) h(1)]]]) (use a(2) h(2) g1 that in \<open>simp_all add: core_def\<close>)
    qed
    with fin show ?thesis using a by (intro ewp_bind ewp_known [OF a(1)] ewp_if) (simp_all add: core_def)
  qed
  have next_bucket: "ewp (start_collective i) R g1"
    if "becomes i (?b\<lparr>jb_state := st\<rparr>) g g1" "en_collectives g1 = en_collectives g" "jb_completed_buckets j + 1 \<noteq> jb_buckets j"
      "st \<in> {StateCommunicating, StateComputing}" for g1 st
  proof -
    note g1 = that
    obtain a where a: "map_of (en_jobs g1) i = Some a" "core a = core (?b\<lparr>jb_state := st\<rparr>)" by (rule becomesE [OF g1(1)])
    show ?thesis
    proof (rule ewp_start_collective [OF a(1)])
      show "R () g1" by (rule R3 [OF g1])
      fix k st' g'
      assume h: "becomes i (a\<lparr>jb_active_collective := Some k, jb_state := st'\<rparr>) g1 g'" "en_collectives g' = omap_emplace k (jb_id a) (en_collectives g1)"
        "st' \<in> {StateCommunicating, StateOverlapping}"
      show "R () g'"
        by (rule R4 [OF becomes_core [OF becomes_trans [OF g1(1) h(1)]]]) (use a(2) h g1 in \<open>simp_all add: core_def\<close>)
    qed
  qed
  have full: "ewp (for_each (add_compute i) ds) (\<lambda>_. ewp (seq (emit_job i JobStepCompleted 0) (seq (mod_job i (\<lambda>j. j\<lparr>jb_step := jb_step j + 1\<rparr>))
      (bind (job_at i) (\<lambda>j. if jb_step j = steps (jb_spec j) then finish_job i StateSucceeded m else start_step i)))) R) (put_job i ?b g)"
    if "jb_completed_buckets j + 1 = jb_buckets j" for ds m
  proof (rule ewp_add_compute [OF start])
    fix g1 assume g1: "becomes i ?b g g1" "en_collectives g1 = en_collectives g"
    then obtain a where a: "map_of (en_jobs g1) i = Some a" "core a = core ?b" by (auto elim: becomesE)
    have "becomes i ?n g (put_job i (a\<lparr>jb_step := jb_step a + 1\<rparr>) g1)"
      by (rule becomes_core [OF becomes_put [OF g1(1)]]) (use a(2) in \<open>simp add: core_def\<close>)
    then show "ewp (seq (emit_job i JobStepCompleted 0) (seq (mod_job i (\<lambda>j. j\<lparr>jb_step := jb_step j + 1\<rparr>))
        (bind (job_at i) (\<lambda>j. if jb_step j = steps (jb_spec j) then finish_job i StateSucceeded m else start_step i)))) R g1"
      by (intro ewp_seq ewp_aside [OF aside_emissions(1)] ewp_mod_known [OF a(1)] next_step) (use g1(2) that in simp_all)
  qed simp
  have part: "ewp (mod_job i (\<lambda>j. j\<lparr>jb_state := if c j then StateCommunicating else StateComputing\<rparr>)) (\<lambda>_. ewp (start_collective i) R) (put_job i ?b g)"
    if "jb_completed_buckets j + 1 \<noteq> jb_buckets j" for c
  proof (rule ewp_mod_known)
    show "map_of (en_jobs (put_job i ?b g)) i = Some ?b" by simp
    show "ewp (start_collective i) R (put_job i (?b\<lparr>jb_state := if c ?b then StateCommunicating else StateComputing\<rparr>) (put_job i ?b g))"
      by (rule next_bucket [where st = "if c ?b then StateCommunicating else StateComputing"])
        (use that in \<open>auto intro!: becomesI [OF _ refl] simp: rest_def\<close>)
  qed
  show ?thesis
    unfolding bucket_done_def
    by (intro ewp_seq ewp_mod_known [OF j] ewp_bind ewp_known ewp_if full part) simp+
qed

end
