(* ===== verification/Transport_Wiring.thy ===== *)
theory Transport_Wiring
  imports Transport Frames
begin

text \<open>
  What every operation of the transport keeps of the network it works on: the topology changes only by
  operational states, the configured links stay the same and transfer identifiers are not reused. The
  components above the transport rely on it.
\<close>

section \<open>The frame\<close>

definition net_wiring :: "network \<Rightarrow> network \<Rightarrow> bool" where
  "net_wiring n n' \<longleftrightarrow>
     (\<exists>cs. list_all state_call cs \<and> net_topology n' = fold graph_call_step cs (net_topology n))
     \<and> dom (map_of (services n')) = dom (map_of (services n)) \<and> net_limits n' = net_limits n
     \<and> id_position (transfer_ids n) \<le> id_position (transfer_ids n')"

abbreviation wired :: "(world, 'a) prog \<Rightarrow> bool" where
  "wired \<equiv> moves (\<lambda>_. True) (\<lambda>w w'. net_wiring (snd w) (snd w'))"

abbreviation wired_net :: "(network, 'a) prog \<Rightarrow> bool" where
  "wired_net \<equiv> moves (\<lambda>_. True) net_wiring"

lemma net_wiring_refl [simp]: "net_wiring n n"
  by (auto simp: net_wiring_def intro: exI [of _ "[]"])

lemma net_wiring_trans: "net_wiring n n1 \<Longrightarrow> net_wiring n1 n2 \<Longrightarrow> net_wiring n n2"
proof -
  assume a: "net_wiring n n1" and b: "net_wiring n1 n2"
  obtain cs ds where "list_all state_call cs" "net_topology n1 = fold graph_call_step cs (net_topology n)"
    "list_all state_call ds" "net_topology n2 = fold graph_call_step ds (net_topology n1)"
    using a b by (auto simp: net_wiring_def)
  then have "list_all state_call (cs @ ds) \<and> net_topology n2 = fold graph_call_step (cs @ ds) (net_topology n)" by simp
  then show ?thesis using a b unfolding net_wiring_def by (metis le_trans)
qed

interpretation wiring: state_frame "\<lambda>_. True" "\<lambda>w w'. net_wiring (snd w) (snd (w' :: world))"
  by unfold_locales (auto intro: net_wiring_trans)

interpretation net_wired: state_frame "\<lambda>_. True" net_wiring
  by unfold_locales (auto intro: net_wiring_trans)

lemma wired_zoom_sim: "wired (zoom_sim m)"
  by (rule movesI) (auto simp: wp_def zoom_sim_def zoom_def split: prod.splits sum.splits)

lemma wired_zoom_net: "wired_net m \<Longrightarrow> wired (zoom_net m)"
proof (rule movesI)
  fix w :: world assume "wired_net m"
  from movesD [OF this TrueI, of "snd w"]
  show "wp (zoom_net m) (\<lambda>_ w'. net_wiring (snd w) (snd w')) (\<lambda>_ w'. net_wiring (snd w) (snd w')) w"
    by (simp add: zoom_net_def wp_zoom)
qed

lemma wired_modn: "(\<And>n. net_wiring n (f n)) \<Longrightarrow> wired (modn f)"
  unfolding modn_def by (intro wired_zoom_net net_wired.moves_modify) simp

lemma wired_reads: "wired (getn f)" "wired now" "wired net_telemetry_enabled"
  unfolding getn_def now_def net_telemetry_enabled_def by (intro wiring.moves_pure)+

lemma wired_require: "wired (require_chunk i)" "wired (require_service l)" "wired (transfer_at t)"
  unfolding require_chunk_def require_service_def transfer_at_def
  by (intro wiring.moves_rules wired_reads)+

lemma wired_put: "wired (put_chunk i r)" "wired (put_transfer t x)"
  unfolding put_chunk_def put_transfer_def
  by (intro wired_modn; auto simp: net_wiring_def intro: exI [of _ "[]"])+

lemma wired_in_service: "wired (in_service l m)"
proof (rule movesI)
  fix w :: world
  show "wp (in_service l m) (\<lambda>_ w'. net_wiring (snd w) (snd w')) (\<lambda>_ w'. net_wiring (snd w) (snd w')) w"
  proof (cases "find_service (snd w) l")
    case None
    then show ?thesis by (simp add: in_service_def require_service_def getn_def wp_simps)
  next
    case (Some svc)
    then have "insert l (dom (map_of (services (snd w)))) = dom (map_of (services (snd w)))"
      by (auto simp: find_service_def)
    then have "net_wiring (snd w) ((snd w)\<lparr>services := omap_put l svc' (services (snd w))\<rparr>)" for svc'
      by (auto simp: net_wiring_def intro: exI [of _ "[]"])
    moreover have "in_service l m w = (case m (fst w, svc) of
        (r, sim, svc') \<Rightarrow> (r, sim, (snd w)\<lparr>services := omap_put l svc' (services (snd w))\<rparr>))"
      using Some by (simp add: in_service_def require_service_def getn_def prog_defs)
    ultimately show ?thesis by (auto simp: wp_def split: prod.splits sum.splits)
  qed
qed

lemma wired_net_record: "wired (net_record c ob)"
  unfolding net_record_def by (intro wiring.moves_rules wired_reads wired_zoom_sim)

lemma wired_event_correlation: "wired event_correlation"
  unfolding event_correlation_def by (intro wiring.moves_rules wired_zoom_sim)

lemma wired_link_statistics_now: "wired (link_statistics_now l)"
  unfolding link_statistics_now_def by (intro wiring.moves_rules wired_reads wired_require)

lemmas wired_rules = wiring.moves_rules wired_zoom_sim wired_reads wired_require wired_put wired_in_service
  wired_net_record wired_event_correlation wired_link_statistics_now

section \<open>The operations\<close>

lemma wired_busy: "wired (modn (\<lambda>n. n\<lparr>reported_busy_time := f n\<rparr>))" "wired (modn (\<lambda>n. n\<lparr>completions := h n\<rparr>))"
  by (intro wired_modn; auto simp: net_wiring_def intro: exI [of _ "[]"])+

lemma wired_emissions: "wired (emit_transfer r tr lo reason)" "wired (emit_queue r l qt)"
  "wired (emit_delta c ls b k e x)" "wired (emit_queue_gauges l s)" "wired (emit_terminal_transfer tc y)"
  unfolding emit_transfer_def emit_queue_def emit_delta_def emit_queue_gauges_def emit_terminal_transfer_def Let_def
  by (intro wired_rules)+

lemma wired_emit_busy_time: "wired (emit_busy_time c ls l busy)"
  unfolding emit_busy_time_def by (intro wired_rules wired_busy)

lemma wired_metrics: "wired (emit_link_metrics l b a)" "wired (emit_gauges_now l)" "wired (emit_admission r l adm)"
  unfolding emit_link_metrics_def emit_gauges_now_def emit_admission_def Let_def
  by (intro wired_rules wired_emissions wired_emit_busy_time)+

lemmas wired_emit = wired_emissions wired_metrics

lemma wired_terminal: "wired (net_record_terminal r)"
  unfolding net_record_terminal_def Let_def by (intro wired_rules wired_busy wired_emit)

lemma wired_mark: "wired (mark_dropped l c)" "wired (mark_dropped_link_down d l)"
  unfolding mark_dropped_link_down_def mark_dropped_def Let_def by (intro wired_rules wired_emit wired_terminal)+

lemma wired_drain_link: "wired (drain_link l)"
  unfolding drain_link_def by (intro wired_rules wired_emit wired_mark)

lemma wired_handle_arrival: "wired (handle_arrival i h)"
  unfolding handle_arrival_def handle_arrival_down_def handle_arrival_admit_def Let_def
  by (intro wired_rules wired_emit wired_terminal)

lemma wired_handle_completion: "wired (handle_completion l i h d)"
  unfolding handle_completion_def Let_def by (intro wired_rules wired_emit wired_terminal)

lemma state_operation: "\<exists>cs. list_all state_call cs \<and> snd (set_link_state l st g) = fold graph_call_step cs g"
  "\<exists>cs. list_all state_call cs \<and> snd (set_port_state p st g) = fold graph_call_step cs g"
  "\<exists>cs. list_all state_call cs \<and> snd (set_switch_state s st g) = fold graph_call_step cs g"
  by (rule exI [of _ "[CallLinkState l st]"], simp add: state_call_def)
    (rule exI [of _ "[CallPortState p st]"], simp add: state_call_def,
     rule exI [of _ "[CallSwitchState s st]"], simp add: state_call_def)

lemma wired_set_topology:
  assumes f: "\<And>g. \<exists>cs. list_all state_call cs \<and> snd (f g) = fold graph_call_step cs g" and k: "\<And>ok. wired (k ok)"
  shows "wired (bind (getn (\<lambda>n. f (net_topology n))) (\<lambda>(ok, g). seq (modn (\<lambda>n. n\<lparr>net_topology := g\<rparr>)) (k ok)))"
proof (rule movesI)
  fix w :: world
  obtain ok g where fg: "f (net_topology (snd w)) = (ok, g)" by fastforce
  let ?w = "(fst w, (snd w)\<lparr>net_topology := g\<rparr>)"
  have step: "net_wiring (snd w) (snd ?w)" using f [of "net_topology (snd w)"] fg by (simp add: net_wiring_def)
  have "wp (k ok) (\<lambda>_ w'. net_wiring (snd w) (snd w')) (\<lambda>_ w'. net_wiring (snd w) (snd w')) ?w"
    by (rule wp_mono [OF movesD [OF k TrueI]]) (auto intro: net_wiring_trans [OF step])
  then show "wp (bind (getn (\<lambda>n. f (net_topology n))) (\<lambda>(ok, g). seq (modn (\<lambda>n. n\<lparr>net_topology := g\<rparr>)) (k ok)))
      (\<lambda>_ w'. net_wiring (snd w) (snd w')) (\<lambda>_ w'. net_wiring (snd w) (snd w')) w"
    by (simp add: getn_def modn_def zoom_net_def wp_simps fg)
qed

lemma wired_reconcile_unavailable: "wired reconcile_unavailable"
  unfolding reconcile_unavailable_def by (intro wired_rules wired_drain_link)

lemma wired_state_changes: "wired (handle_link_state_change l st)" "wired (handle_port_state_change p st)"
  "wired (handle_switch_state_change s st)"
  unfolding handle_link_state_change_def handle_port_state_change_def handle_switch_state_change_def Let_def
  by (intro wired_set_topology wired_rules state_operation wired_drain_link wired_reconcile_unavailable)+

lemma wired_dispatch: "wired (transport_dispatch p)"
  by (cases p) (simp_all add: wired_handle_arrival wired_handle_completion wired_state_changes wiring.moves_pure)

section \<open>Submission\<close>

lemma position_advances: "id_position g \<le> id_position (advance_past t g)" "id_position g \<le> id_position (snd (transport_id_next g))"
  by (simp_all add: id_position_advance_past transport_id_next_eq id_position_issue)

lemma wired_ids:
  "wired_net (zoom transfer_ids (\<lambda>g n. n\<lparr>transfer_ids := g\<rparr>) transport_id_next)"
  "wired_net (zoom chunk_ids (\<lambda>g n. n\<lparr>chunk_ids := g\<rparr>) transport_id_next)"
  using position_advances(2)
  by (auto simp: moves_def wp_def zoom_def net_wiring_def split: prod.splits sum.splits intro: exI [of _ "[]"])
    (metis snd_conv)+

lemma wired_register_chunk: "wired_net (register_chunk rc)"
  unfolding register_chunk_def Let_def
  by (intro net_wired.moves_rules net_wired.moves_modify)
    (auto simp: net_wiring_def position_advances Let_def intro: exI [of _ "[]"])

lemma wired_submit_chunks: "wired_net (submit_chunks rq t full rest ks)"
proof (induction ks)
  case (Cons k ks)
  then show ?case unfolding submit_chunks.simps Let_def
    by (intro net_wired.moves_rules wired_ids wired_register_chunk)
qed (simp add: net_wired.moves_pure)

lemma wired_schedule_initial_arrival: "wired (schedule_initial_arrival i)"
  unfolding schedule_initial_arrival_def by (intro wired_rules)

lemma wired_submit_transfer: "wired (submit_transfer rq)"
  unfolding submit_transfer_def Let_def
  by (intro wired_rules wired_zoom_net wired_ids wired_submit_chunks wired_schedule_initial_arrival)

end
