(* ===== verification/Router_Correct.thy ===== *)
theory Router_Correct
  imports Router Transport_Wiring Transport_Run
begin

text \<open>
  The router over the transport: whatever the policy, the calls and the failures of links, ports and switches
  between them, a transfer is submitted on a shortest operational fabric path and its decision is recorded.
\<close>

section \<open>Invariant\<close>

definition routing_ok :: "network \<Rightarrow> router \<Rightarrow> bool" where
  "routing_ok n r \<longleftrightarrow> graph_ok (net_topology n) \<and> fabric_ok (net_topology n) \<and> cache_ok (rt_paths r)
     \<and> cache_true (net_topology n) (rt_paths r) \<and> ps_limits (rt_paths r) = cfg_paths (rt_configuration r)
     \<and> length (rt_decisions r) \<le> cfg_maximum_decisions (rt_configuration r)"

lemma cache_true_calls: "list_all state_call cs \<Longrightarrow> cache_true g sv \<Longrightarrow> cache_true (fold graph_call_step cs g) sv"
  by (induction cs arbitrary: g) (auto intro: cache_true_step)

lemma routing_ok_wired:
  assumes "routing_ok n r" "net_wiring n n'"
  shows "routing_ok n' r"
proof -
  obtain cs where "list_all state_call cs" "net_topology n' = fold graph_call_step cs (net_topology n)"
    using assms(2) by (auto simp: net_wiring_def)
  then show ?thesis using assms(1) cache_true_calls graph_calls_ok fabric_calls
    by (auto simp: routing_ok_def)
qed

section \<open>Weakest preconditions\<close>

lemma wp_get_router [wp_simps]: "wp (get_router f) Q E = (\<lambda>(s, n, r). Q (f r) (s, n, r))"
  by (simp add: fun_eq_iff get_router_def wp_simps)

lemma wp_get_network [wp_simps]: "wp (get_network h) Q E = (\<lambda>(s, n, r). Q (h n) (s, n, r))"
  by (simp add: fun_eq_iff get_network_def wp_simps)

lemma wp_router_now [wp_simps]: "wp (in_transport now) Q E = (\<lambda>(s, n, r). Q (sim_now s) (s, n, r))"
  by (simp add: fun_eq_iff in_transport_def now_def wp_simps)

lemmas wp_router_reads = wp_get_router wp_get_network wp_router_now

lemma wp_in_router [wp_simps]: "wp (in_router m) Q E = (\<lambda>(s, n, r). wp m (\<lambda>x r. Q x (s, n, r)) (\<lambda>e r. E e (s, n, r)) r)"
  by (simp add: fun_eq_iff in_router_def wp_zoom split: prod.splits)

lemma wp_in_transport:
  "wp (in_transport m) Q E (s, n, r) = wp m (\<lambda>x (s, n). Q x (s, n, r)) (\<lambda>e (s, n). E e (s, n, r)) (s, n)"
  by (simp add: in_transport_def wp_zoom split_beta')

text \<open>Telemetry only touches the simulation.\<close>

abbreviation sim_only :: "(simulation \<times> 'c, 'a) prog \<Rightarrow> bool" where
  "sim_only \<equiv> moves (\<lambda>_. True) (\<lambda>w w'. snd w' = snd w)"

interpretation sim_only: state_frame "\<lambda>_. True" "\<lambda>w w' :: simulation \<times> 'c. snd w' = snd w"
  by unfold_locales auto

lemma sim_only_zoom: "sim_only (zoom_sim m)"
  by (rule movesI) (auto simp: wp_def zoom_sim_def zoom_def split: prod.splits sum.splits)

lemma sim_only_now: "sim_only now"
  unfolding now_def by (intro sim_only.moves_pure)

lemma sim_only_event_correlation: "sim_only event_correlation"
  unfolding event_correlation_def by (intro sim_only.moves_rules sim_only_zoom)

lemma sim_only_in_transport: "sim_only m \<Longrightarrow> sim_only (in_transport m)"
proof (rule movesI)
  fix w :: routing_world assume m: "sim_only m"
  obtain s n r where w: "w = (s, n, r)" by (cases w)
  from movesD [OF m, of "(s, n)"]
  show "wp (in_transport m) (\<lambda>_ t. snd t = snd w) (\<lambda>_ t. snd t = snd w) w"
    unfolding w wp_in_transport by (auto elim!: wp_mono)
qed

lemma sim_only_emit_decision: "sim_only (emit_decision d out i)"
  unfolding emit_decision_def router_record_def get_router_def Let_def
  by (intro sim_only.moves_rules sim_only_in_transport sim_only_zoom sim_only_event_correlation sim_only_now)

abbreviation kept_router :: "router \<Rightarrow> router \<Rightarrow> bool" where
  "kept_router r r' \<equiv> rt_paths r' = rt_paths r \<and> rt_configuration r' = rt_configuration r"

lemma keep_decision_wp:
  "wp (keep_decision d out)
     (\<lambda>_ (s', n', r'). n' = n \<and> kept_router r r' \<and> rt_decisions r' = rt_decisions r @ [d])
     (\<lambda>_ (s', n', r'). n' = n \<and> kept_router r r' \<and> rt_decisions r' = rt_decisions r) (s, n, r)"
proof -
  have emit: "wp (emit_decision d out i) (\<lambda>_ (s', n', r'). n' = n \<and> r' = r1) (\<lambda>_ (s', n', r'). n' = n \<and> r' = r1) (s, n, r1)" for i r1
    by (rule wp_mono [OF movesD [OF sim_only_emit_decision TrueI]]) auto
  have id: "wp next_decision_id (\<lambda>_ r'. kept_router r r' \<and> rt_decisions r' = rt_decisions r) (\<lambda>_ r'. r' = r) r"
    by (simp add: next_decision_id_def wp_simps)
  show ?thesis
    unfolding keep_decision_def wp_bind wp_seq wp_in_router prod.case
  proof (rule wp_mono [OF id], goal_cases)
    case (1 i r1)
    show ?case by (rule wp_mono [OF emit]) (use 1 in \<open>auto simp: wp_modify\<close>)
  next
    case (2 e r1)
    then show ?case by simp
  qed
qed

lemma lookup_wp:
  assumes "routing_ok n r"
  shows "wp (router_lookup ep)
     (\<lambda>ps (s', n', r'). s' = s \<and> n' = n \<and> routing_ok n r' \<and> (\<exists>sv. r' = r\<lparr>rt_paths := sv\<rparr>)
        \<and> enumerate_paths (net_topology n) (cfg_paths (rt_configuration r)) ep = Inr ps)
     (\<lambda>_ (s', n', r'). n' = n \<and> routing_ok n r' \<and> rt_decisions r' = rt_decisions r) (s, n, r)"
proof -
  let ?g = "net_topology n"
  have ok: "graph_ok ?g" "fabric_ok ?g" "cache_ok (rt_paths r)" "cache_true ?g (rt_paths r)"
    using assms by (simp_all add: routing_ok_def)
  obtain res sv where l: "lookup ?g ep (rt_paths r) = (res, sv)" by fastforce
  note c = lookup_correct [OF ok, of ep, unfolded l fst_conv snd_conv]
  have w: "wp (lookup ?g ep) Q E (rt_paths r) = (case res of Inl e \<Rightarrow> E e sv | Inr x \<Rightarrow> Q x sv)" for Q E
    by (simp add: wp_def l)
  show ?thesis using assms c unfolding router_lookup_def
    by (auto simp: wp_bind wp_router_reads wp_in_router wp_zoom w routing_ok_def split: sum.splits)
qed

section \<open>Submission\<close>

text \<open>What a submission leaves behind: one more decision, which names the request and, when there is a path,
  a shortest one and the transfer.\<close>

definition decided :: "network \<Rightarrow> route_request \<Rightarrow> submitted_transfer option \<Rightarrow> route_decision \<Rightarrow> bool" where
  "decided n q res d \<longleftrightarrow> dec_request d = q \<and> dec_transfer d = map_option sub_id res \<and>
     (let P = (\<lambda>as. is_path (fabric_arcs (net_topology n)) (arc_head (net_topology n)) (fst (rq_endpoints q)) as (snd (rq_endpoints q)))
      in case res of
           None \<Rightarrow> dec_path d = [] \<and> (\<forall>as. \<not> P as)
         | Some _ \<Rightarrow> (\<exists>as. dec_path d = map arc_id as \<and> P as \<and> (\<forall>bs. P bs \<longrightarrow> length as \<le> length bs)))"

lemma no_candidates:
  assumes "graph_ok g" "fabric_ok g" "enumerate_paths g lim (s, t) = Inr []"
  shows "\<not> is_path (fabric_arcs g) (arc_head g) s as t"
proof
  assume p: "is_path (fabric_arcs g) (arc_head g) s as t"
  from level_exists [OF this] obtain h where h: "level (fabric_arcs g) (arc_head g) s t h" by blast
  have "enumeration g lim s t = Inr []" using assms enumerate_paths_eq by simp
  then have "sorted_list_of_set (shortest_routes g s t) = []" using p by (auto simp: enumeration_def split: if_splits)
  moreover have "finite (shortest_routes g s t)" unfolding level_shortest [OF h] by (simp add: finite_paths_of)
  ultimately have "shortest_routes g s t = {}" by simp
  then have "paths_of (fabric_arcs g) (arc_head g) s t h = {}" unfolding level_shortest [OF h] by simp
  then show False using h by (auto simp: level_def paths_of_def)
qed

lemma submit_in_transport:
  "wp (in_transport (submit_transfer rq)) (\<lambda>_ (s', n', r'). net_wiring n1 n' \<and> r' = r1)
     (\<lambda>_ (s', n', r'). net_wiring n1 n' \<and> r' = r1) (s, n1, r1)"
  unfolding wp_in_transport by (rule wp_mono [OF movesD [OF wired_submit_transfer TrueI]]) auto

lemma router_submit_wp:
  assumes ok: "routing_ok n r"
  shows "wp (router_submit q)
     (\<lambda>res (s', n', r'). routing_ok n' r' \<and> (\<exists>d. rt_decisions r' = rt_decisions r @ [d] \<and> decided n q res d))
     (\<lambda>_ (s', n', r'). routing_ok n' r' \<and> rt_decisions r' = rt_decisions r) (s, n, r)"
    (is "wp _ ?Q ?E _")
proof (cases "rq_bytes q = 0 \<or> rq_maximum_chunk_bytes q = 0 \<or> length (rt_decisions r) = cfg_maximum_decisions (rt_configuration r)")
  case True
  then show ?thesis using ok by (auto simp: router_submit_def wp_simps)
next
  case False
  obtain a b where ep: "rq_endpoints q = (a, b)" by fastforce
  have g: "graph_ok (net_topology n)" "fabric_ok (net_topology n)" using ok by (simp_all add: routing_ok_def)
  have kept: "wp (keep_decision d out) (\<lambda>_ (s', n', r'). routing_ok n' r' \<and> rt_decisions r' = rt_decisions r @ [d]) ?E (s1, n1, r1)"
    if "routing_ok n1 r1" "rt_decisions r1 = rt_decisions r" "rt_configuration r1 = rt_configuration r" for d out s1 n1 r1
    by (rule wp_mono [OF keep_decision_wp]) (use False that in \<open>auto simp: routing_ok_def\<close>)
  show ?thesis
    unfolding router_submit_def Let_def wp_seq wp_throw_if wp_bind wp_router_reads prod.case o_def
    using False
  proof (simp, intro wp_mono [OF lookup_wp [OF ok]], goal_cases)
    case (1 ps t)
    then obtain sv where t: "t = (s, n, r\<lparr>rt_paths := sv\<rparr>)" and ok1: "routing_ok n (r\<lparr>rt_paths := sv\<rparr>)"
      and en: "enumerate_paths (net_topology n) (cfg_paths (rt_configuration r)) (a, b) = Inr ps" by (auto simp: ep)
    show ?case
    proof (cases "ps = []")
      case True
      then show ?thesis using no_candidates [OF g, of "cfg_paths (rt_configuration r)" a b] en
        by (simp add: t wp_simps) (rule wp_mono [OF kept], auto simp: ok1 decided_def ep)
    next
      case False
      let ?r = "r\<lparr>rt_paths := sv\<rparr>"
      show ?thesis
      proof (cases "rp_choose (rt_policy r) n q (cfg_seed (rt_configuration r)) ps")
        case (Inl e)
        then show ?thesis using False ok1 by (simp add: t wp_simps)
      next
        case (Inr c)
        show ?thesis
        proof (cases "ch_candidate c < length ps")
          case True
          let ?p = "ps ! ch_candidate c"
          obtain as where as: "?p = map arc_id as" "is_path (fabric_arcs (net_topology n)) (arc_head (net_topology n)) a as b"
            "\<And>bs. is_path (fabric_arcs (net_topology n)) (arc_head (net_topology n)) a bs b \<Longrightarrow> length as \<le> length bs"
            using enumerated_path [OF g en nth_mem [OF True]] by metis
          show ?thesis using False Inr True
            by (simp add: t wp_simps not_le) (rule wp_mono [OF submit_in_transport [of _ n ?r]],
              auto intro!: wp_mono [OF kept] routing_ok_wired [OF ok1] exI [of _ as] simp: decided_def ep as)
        next
          case False
          then show ?thesis using \<open>ps \<noteq> []\<close> Inr ok1 by (simp add: t wp_simps)
        qed
      qed
    qed
  next
    case (2 e t)
    then show ?case by auto
  qed
qed

section \<open>Sequences of calls\<close>

text \<open>The events the transport handles and the calls on the router, in any order.\<close>

datatype routing_call = CallRoute route_request | CallTakeDecisions | CallTransport event_payload

primrec routing_call_step :: "routing_call \<Rightarrow> routing_world \<Rightarrow> routing_world" where
  "routing_call_step (CallRoute q) w = snd (router_submit q w)"
| "routing_call_step CallTakeDecisions w = snd (in_router take_decisions w)"
| "routing_call_step (CallTransport p) w = snd (in_transport (transport_dispatch p) w)"

abbreviation world_ok :: "routing_world \<Rightarrow> bool" where
  "world_ok \<equiv> \<lambda>(s, n, r). routing_ok n r"

lemma wp_snd: "wp m (\<lambda>_. I) (\<lambda>_. I) w \<Longrightarrow> I (snd (m w))"
  by (simp add: wp_def split: prod.splits sum.splits)

lemma routing_calls_ok: "world_ok w \<Longrightarrow> world_ok (fold routing_call_step cs w)"
proof (induction cs arbitrary: w)
  case (Cons c cs)
  obtain s n r where w: "w = (s, n, r)" by (cases w)
  then have ok: "routing_ok n r" using Cons.prems by simp
  have "world_ok (routing_call_step c w)"
  proof (cases c)
    case (CallRoute q)
    show ?thesis unfolding CallRoute w routing_call_step.simps
      by (rule wp_snd, rule wp_mono [OF router_submit_wp [OF ok]]) auto
  next
    case CallTakeDecisions
    show ?thesis unfolding CallTakeDecisions w routing_call_step.simps
      by (rule wp_snd) (use ok in \<open>simp add: take_decisions_def wp_simps routing_ok_def\<close>)
  next
    case (CallTransport p)
    show ?thesis unfolding CallTransport w routing_call_step.simps
      by (rule wp_snd, unfold wp_in_transport, rule wp_mono [OF movesD [OF wired_dispatch TrueI]])
        (auto intro: routing_ok_wired [OF ok])
  qed
  then show ?case using Cons.IH by simp
qed simp

lemma new_router_ok:
  assumes "new_router (net_topology n) reg cfg sink = Inr r" "net_topology n = fold graph_call_step gs empty_graph"
  shows "routing_ok n r"
proof -
  have ok: "graph_ok (net_topology n)" "fabric_ok (net_topology n)"
    by (simp_all add: assms(2) graph_calls_ok [OF empty_graph_ok] fabric_calls [OF empty_graph_ok empty_fabric_ok])
  have "cache_true (net_topology n) sv" if "ps_cache sv = []" "ps_revision sv = operational_revision (net_topology n)" for sv
    unfolding cache_true_def by (rule exI [of _ "net_topology n"], rule exI [of _ "[]"]) (use that in simp)
  then show ?thesis using assms(1) ok
    by (auto simp: new_router_def new_path_service_def bindR_def routing_ok_def cache_ok_def cached_entries_def
        cached_paths_def split: sum.splits if_splits)
qed

lemma new_transport_topology:
  assumes "new_transport g cfgs lim sink = Inr n"
  shows "net_topology n = g"
proof -
  have "wp (add_service c) (\<lambda>_ m. net_topology m = g) (\<lambda>_ _. True) m" if "net_topology m = g" for c m
    using that by (auto simp: add_service_def wp_simps split: sum.splits)
  from wp_for_each_inv [of cfgs "\<lambda>m. net_topology m = g" add_service "\<lambda>_ _. True", OF this]
  have keep: "wp (for_each add_service cfgs) (\<lambda>_ m. net_topology m = g) (\<lambda>_ _. True) m" if "net_topology m = g" for m
    using that by blast
  obtain m where "for_each add_service cfgs m = (Inr (), n)" "net_topology m = g"
    using assms by (fastforce simp: new_transport_def split: if_splits prod.splits sum.splits)
  then show ?thesis using wp_normal [OF keep] by blast
qed

section \<open>Properties of the router\<close>

text \<open>C4. The router submits on shortest paths and records what it decided. Start from a router over any built
  topology, with any policy, and let submissions, drains of the decisions and transport events, failures of
  links, ports and switches among them, happen in any order. A submission that returns then appends exactly
  one decision for its request: it names a shortest path over the fabric links that are operational now and
  the transfer that was submitted, or no path when there is none, in which case nothing is submitted. A
  submission that throws records no decision. The number of retained decisions never exceeds the limit.\<close>

theorem router_submit_shortest:
  assumes "new_router (net_topology n) registry cfg sink = Inr r" and "net_topology n = fold graph_call_step gs empty_graph"
    and "fold routing_call_step cs (s, n, r) = (s1, n1, r1)" and "router_submit q (s1, n1, r1) = (res, (s2, n2, r2))"
  shows "length (rt_decisions r2) \<le> cfg_maximum_decisions (rt_configuration r2) \<and>
         (case res of
           Inl e \<Rightarrow> rt_decisions r2 = rt_decisions r1
         | Inr submitted \<Rightarrow>
             (\<exists>d. rt_decisions r2 = rt_decisions r1 @ [d] \<and> dec_request d = q
               \<and> dec_transfer d = map_option sub_id submitted \<and>
               (let P = (\<lambda>as. is_path (fabric_arcs (net_topology n1)) (arc_head (net_topology n1))
                                (fst (rq_endpoints q)) as (snd (rq_endpoints q)))
                in case submitted of
                     None \<Rightarrow> dec_path d = [] \<and> (\<forall>as. \<not> P as)
                   | Some _ \<Rightarrow> (\<exists>as. dec_path d = map arc_id as \<and> P as \<and> (\<forall>bs. P bs \<longrightarrow> length as \<le> length bs)))))"
proof -
  have "routing_ok n1 r1" using routing_calls_ok [of "(s, n, r)" cs] new_router_ok [OF assms(1,2)] assms(3) by simp
  from router_submit_wp [OF this, of q s1] assms(4)
  show ?thesis
    by (auto simp: wp_def routing_ok_def decided_def split: sum.splits)
qed

definition example_routing :: routing_configuration where
  "example_routing = \<lparr>cfg_policy = ''shortest-path'', cfg_seed = 1,
     cfg_paths = \<lparr>maximum_paths = 4, maximum_hops = 4, maximum_cached_pairs = 4, maximum_cached_route_entries = 8\<rparr>,
     cfg_maximum_decisions = 3\<rparr>"

definition example_route :: route_request where
  "example_route = \<lparr>rq_flow = 7, rq_endpoints = (NodeId Nic 0, NodeId Nic 1), rq_bytes = 60, rq_maximum_chunk_bytes = 40\<rparr>"

definition example_routed :: "bool" where
  "example_routed = (case (example_network, bindR new_policy_registry (\<lambda>reg. new_router example_topology reg example_routing False)) of
      (Inr n, Inr r) \<Rightarrow> (case router_submit example_route (fold routing_call_step [CallTakeDecisions] (example_simulation, n, r)) of
           (Inr (Some _), _) \<Rightarrow> True | _ \<Rightarrow> False)
    | _ \<Rightarrow> False)"

lemma example_routes: "example_routed"
  by code_simp

theorem router_submit_shortest_witness:
  "\<exists>n reg r s1 n1 r1 t s2 n2 r2. example_network = Inr n \<and> new_router (net_topology n) reg example_routing False = Inr r
     \<and> fold routing_call_step [CallTakeDecisions] (example_simulation, n, r) = (s1, n1, r1)
     \<and> router_submit example_route (s1, n1, r1) = (Inr (Some t), (s2, n2, r2))
     \<and> (\<exists>d. rt_decisions r2 = rt_decisions r1 @ [d] \<and> dec_transfer d = Some (sub_id t))"
proof -
  obtain n reg r where n: "example_network = Inr n" and reg: "new_policy_registry = Inr reg"
    and r: "new_router example_topology reg example_routing False = Inr r"
    and run: "case router_submit example_route (fold routing_call_step [CallTakeDecisions] (example_simulation, n, r)) of
       (Inr (Some _), _) \<Rightarrow> True | _ \<Rightarrow> False"
    using example_routes unfolding example_routed_def bindR_def by (auto split: sum.splits prod.splits)
  have g: "net_topology n = example_topology"
    using n unfolding example_network_def by (rule new_transport_topology)
  obtain s1 n1 r1 where c: "fold routing_call_step [CallTakeDecisions] (example_simulation, n, r) = (s1, n1, r1)" by (metis prod_cases3)
  obtain t s2 n2 r2 where u: "router_submit example_route (s1, n1, r1) = (Inr (Some t), (s2, n2, r2))"
    using run unfolding c by (auto split: sum.splits prod.splits option.splits)
  from router_submit_shortest [OF r [folded g] g [unfolded example_topology_def] c u]
  have "\<exists>d. rt_decisions r2 = rt_decisions r1 @ [d] \<and> dec_transfer d = Some (sub_id t)" by auto
  then show ?thesis using n r [folded g] c u by blast
qed

end
