(* ===== verification/Collective_Frames.thy ===== *)
theory Collective_Frames
  imports Collective_Runtime Router_Correct "HOL-Library.Multiset"
begin

text \<open>
  What the ring executor has in flight, as a multiset, and what the programs it calls leave alone: telemetry
  touches only the session, and a routed submission issues identifiers that were not issued before.
\<close>

section \<open>What is in flight\<close>

definition pool :: "executor \<Rightarrow> collective_id \<Rightarrow> pending_transfer multiset" where
  "pool x i = {#p \<in># image_mset snd (mset (ex_transfers x)) + image_mset (loc_transfer \<circ> snd) (mset (ex_locals x)).
     pend_collective p = i#}"

definition inflight :: "pending_transfer multiset \<Rightarrow> nat" where
  "inflight P = (\<Sum>p\<in>#P. unat (pend_bytes p))"

lemma inflight_simps [simp]: "inflight {#} = 0" "inflight (add_mset p P) = unat (pend_bytes p) + inflight P"
  by (simp_all add: inflight_def)

lemma mset_omap_put: "map_of m k = None \<Longrightarrow> mset (omap_put k v m) = add_mset (k, v) (mset m)"
  by (induction k v m rule: omap_put.induct) (auto split: if_splits)

lemma mset_omap_erase: "omap_ok m \<Longrightarrow> map_of m k = Some v \<Longrightarrow> mset m = add_mset (k, v) (mset (omap_erase k m))"
proof (induction m)
  case (Cons a m)
  obtain k' v' where a: "a = (k', v')" by (cases a)
  have ok: "omap_ok m" and lt: "\<forall>y\<in>fst ` set m. k' < y" using Cons.prems(1) a by (auto simp: omap_ok_def)
  show ?case
  proof (cases "k' = k")
    case True
    then have "map_of m k = None" using lt by (auto simp: map_of_eq_None_iff)
    then have "omap_erase k m = m" by (rule omap_erase_absent)
    then show ?thesis using True Cons.prems a by (simp add: omap_erase_def)
  next
    case False
    then show ?thesis using Cons.IH [OF ok] Cons.prems(2) a by (simp add: omap_erase_def)
  qed
qed simp

lemma size_filter_image: "size {#p \<in># image_mset f (mset xs). P p#} = length (filter (\<lambda>y. P (f y)) xs)"
  by (induction xs) simp_all

lemma pool_transfer:
  "map_of (ex_transfers x) t = None \<Longrightarrow> pool (x\<lparr>ex_transfers := omap_put t p (ex_transfers x)\<rparr>) i =
     (if pend_collective p = i then add_mset p (pool x i) else pool x i)"
  by (simp add: pool_def mset_omap_put)

lemma pool_local:
  "map_of (ex_locals x) e = None \<Longrightarrow> pool (x\<lparr>ex_locals := omap_put e p (ex_locals x)\<rparr>) i =
     (if pend_collective (loc_transfer p) = i then add_mset (loc_transfer p) (pool x i) else pool x i)"
  by (simp add: pool_def mset_omap_put)

lemma pool_transfer_erase:
  "omap_ok (ex_transfers x) \<Longrightarrow> map_of (ex_transfers x) t = Some p \<Longrightarrow>
   pool x i = (if pend_collective p = i then add_mset p (pool (x\<lparr>ex_transfers := omap_erase t (ex_transfers x)\<rparr>) i)
     else pool (x\<lparr>ex_transfers := omap_erase t (ex_transfers x)\<rparr>) i)"
  using mset_omap_erase [of "ex_transfers x" t p] by (simp add: pool_def)

lemma pool_local_erase:
  "omap_ok (ex_locals x) \<Longrightarrow> map_of (ex_locals x) e = Some p \<Longrightarrow>
   pool x i = (if pend_collective (loc_transfer p) = i
     then add_mset (loc_transfer p) (pool (x\<lparr>ex_locals := omap_erase e (ex_locals x)\<rparr>) i)
     else pool (x\<lparr>ex_locals := omap_erase e (ex_locals x)\<rparr>) i)"
  using mset_omap_erase [of "ex_locals x" e p] by (simp add: pool_def)

lemma pool_records [simp]: "pool (x\<lparr>ex_records := m\<rparr>) = pool x" "pool (x\<lparr>ex_completed := l\<rparr>) = pool x"
  "pool (x\<lparr>ex_timeline := l'\<rparr>) = pool x" "pool (x\<lparr>next_flow := f\<rparr>) = pool x" "pool (x\<lparr>participant_entries := k\<rparr>) = pool x"
  by (simp_all add: pool_def fun_eq_iff)

section \<open>Calm programs\<close>

text \<open>Telemetry and reads: the simulation stays as in a context and schedules nothing, the rest is untouched.\<close>

abbreviation calm_rel :: "simulation \<times> 'c \<Rightarrow> simulation \<times> 'c \<Rightarrow> bool" where
  "calm_rel \<equiv> \<lambda>w w'. stays (\<lambda>_. False) (fst w) (fst w') \<and> snd w' = snd w"

abbreviation calm :: "(simulation \<times> 'c, 'a) prog \<Rightarrow> bool" where
  "calm \<equiv> moves (\<lambda>w. sim_ok (fst w)) calm_rel"

interpretation calm: state_frame "\<lambda>w. sim_ok (fst w)" calm_rel
  by unfold_locales (auto simp: stays_refl stays_def intro: context_frame_trans)

lemma calm_zoom:
  fixes m :: "(simulation, 'a) prog"
  assumes "in_context (\<lambda>_. False) (zoom_sim m :: (simulation \<times> 'c, 'a) prog)"
  shows "calm (zoom_sim m :: (simulation \<times> 'c, 'a) prog)"
proof (rule movesI)
  fix w :: "simulation \<times> 'c" assume "sim_ok (fst w)"
  from wp_conj [OF movesD [OF assms this] movesD [OF sim_only_zoom TrueI]]
  show "wp (zoom_sim m) (\<lambda>_. calm_rel w) (\<lambda>_. calm_rel w) w" by (rule wp_mono) auto
qed

lemma calm_context: "calm context_now" "calm context_correlation" "calm (context_record sink c ob)"
  unfolding context_now_def context_correlation_def context_record_def
  by (intro calm.moves_rules calm_zoom in_context_current in_context_session_record)+

lemma calm_when_enabled: "(\<And>cor. calm (f cor)) \<Longrightarrow> calm (when_enabled sink f)"
  unfolding when_enabled_def by (intro calm.moves_rules calm_context)

lemma calm_get_executor: "calm (get_executor f)" "calm (get_gpus h)"
  unfolding get_executor_def get_gpus_def by (intro calm.moves_rules)+

lemma calm_collective_at: "calm (collective_at i)"
  unfolding collective_at_def by (intro calm.moves_rules calm_get_executor)

lemma calm_emit: "calm (emit i tr t b)" "calm (emit_counter i metric a t)"
  unfolding emit_def emit_counter_def
  by (intro calm.moves_rules calm_get_executor calm_collective_at calm_when_enabled calm_context)+

section \<open>Identifiers of submitted transfers\<close>

lemma next_transfer_id:
  "wp (zoom_net (zoom transfer_ids (\<lambda>g n. n\<lparr>transfer_ids := g\<rparr>) transport_id_next))
     (\<lambda>t w'. id_position (transfer_ids (snd w)) \<le> unat t \<and> unat t < id_position (transfer_ids (snd w'))) (\<lambda>_ _. True) w"
  by (simp add: zoom_net_def wp_zoom wp_def transport_id_next_eq id_position_issue) (simp add: id_position_def)

lemma submit_transfer_id:
  "wp (submit_transfer rq)
     (\<lambda>sub w'. id_position (transfer_ids (snd w)) \<le> unat (sub_id sub) \<and> unat (sub_id sub) < id_position (transfer_ids (snd w')))
     (\<lambda>_ _. True) w"
proof -
  note over = wp_moves_bind [where holds = "\<lambda>_. True" and rel = "\<lambda>w w' :: world. net_wiring (snd w) (snd w')", OF _ TrueI]
    and over_seq = wp_moves_seq [where holds = "\<lambda>_. True" and rel = "\<lambda>w w' :: world. net_wiring (snd w) (snd w')", OF _ TrueI]
  have pos: "id_position (transfer_ids n) \<le> id_position (transfer_ids n')" if "net_wiring n n'" for n n'
    using that by (simp add: net_wiring_def)
  have last: "wp (bind (zoom_net (zoom transfer_ids (\<lambda>g n. n\<lparr>transfer_ids := g\<rparr>) transport_id_next)) (\<lambda>transfer.
        bind (zoom_net (submit_chunks rq transfer full rest ks)) (\<lambda>made.
        seq (for_each (\<lambda>(i, _). bind (schedule_initial_arrival i) (\<lambda>_. return ())) made)
            (return \<lparr>sub_id = transfer, sub_chunks = made\<rparr>))))
      (\<lambda>sub w'. id_position (transfer_ids (snd w)) \<le> unat (sub_id sub) \<and> unat (sub_id sub) < id_position (transfer_ids (snd w')))
      (\<lambda>_ _. True) u" if "id_position (transfer_ids (snd w)) \<le> id_position (transfer_ids (snd u))" for full rest ks u
    unfolding wp_bind
  proof (rule wp_mono [OF next_transfer_id], goal_cases)
    case (1 t u1)
    show ?case unfolding wp_bind [symmetric]
      by (rule over [OF wired_zoom_net [OF wired_submit_chunks]], rule over_seq,
          intro wired_rules wired_schedule_initial_arrival) (use 1 that in \<open>auto simp: wp_return dest!: pos\<close>)
  qed simp
  show ?thesis
    unfolding submit_transfer_def Let_def
    by (rule wp_guard, rule wp_guard, (rule over, intro wired_rules)+, rule over_seq, intro wired_rules,
      (rule over, intro wired_rules)+, rule last) (auto dest!: pos)
qed

section \<open>The router as the executor sees it\<close>

abbreviation routed :: "(routing_world, 'a) prog \<Rightarrow> bool" where
  "routed \<equiv> moves (\<lambda>_. True) (\<lambda>w w'. net_wiring (fst (snd w)) (fst (snd w')))"

interpretation routed: state_frame "\<lambda>_. True" "\<lambda>w w'. net_wiring (fst (snd w)) (fst (snd (w' :: routing_world)))"
  by unfold_locales (auto intro: net_wiring_trans)

lemma routed_in_router: "routed (in_router m)" "routed (get_router f)" "routed (get_network h)"
  by (rule movesI, auto simp: in_router_def zoom_def wp_def split: prod.splits sum.splits)
    (auto simp: get_router_def get_network_def intro: routed.moves_rules)

lemma routed_in_transport: "wired m \<Longrightarrow> routed (in_transport m)"
proof (rule movesI)
  fix w :: routing_world assume m: "wired m"
  obtain s n r where w: "w = (s, n, r)" by (cases w)
  from movesD [OF m TrueI, of "(s, n)"]
  show "wp (in_transport m) (\<lambda>_ t. net_wiring (fst (snd w)) (fst (snd t))) (\<lambda>_ t. net_wiring (fst (snd w)) (fst (snd t))) w"
    unfolding w wp_in_transport by (auto elim!: wp_mono)
qed

lemma routed_sim_only: "sim_only m \<Longrightarrow> routed m"
  by (erule moves_mono) auto

lemma routed_keep_decision: "routed (keep_decision d out)"
  unfolding keep_decision_def by (intro routed.moves_rules routed_in_router routed_sim_only sim_only_emit_decision)

lemma routed_router_lookup: "routed (router_lookup ep)"
  unfolding router_lookup_def by (intro routed.moves_rules routed_in_router)

lemmas routed_rules = routed.moves_rules routed_in_router routed_in_transport routed_keep_decision routed_router_lookup
  wired_submit_transfer wired_reads

lemma routed_router_submit: "routed (router_submit q)"
  unfolding router_submit_def Let_def by (intro routed_rules)

lemma in_context_nested:
  assumes "in_context P m"
  shows "in_context P (in_transport m)"
proof (rule movesI)
  fix w :: routing_world assume ok: "sim_ok (fst w)"
  obtain s n r where w: "w = (s, n, r)" by (cases w)
  from movesD [OF assms, of "(s, n)"] ok
  show "wp (in_transport m) (\<lambda>_ t. stays P (fst w) (fst t)) (\<lambda>_ t. stays P (fst w) (fst t)) w"
    unfolding w wp_in_transport by (auto elim!: wp_mono)
qed

lemma in_context_in_router: "in_context P (in_router m)" "in_context P (get_router f)" "in_context P (get_network h)"
  by (rule movesI, auto simp: in_router_def zoom_def wp_def stays_refl split: prod.splits sum.splits)
    (auto simp: get_router_def get_network_def intro: ctx.moves_rules)

lemma in_context_reads: "in_context P now" "in_context P event_correlation"
  unfolding now_def event_correlation_def by (intro context_intros)+

lemma in_context_keep_decision: "in_context P (keep_decision d out)"
  unfolding keep_decision_def emit_decision_def router_record_def Let_def
  by (intro context_intros in_context_in_router in_context_nested in_context_reads)

lemma in_context_router_submit: "in_context transport_payload (router_submit q)"
  unfolding router_submit_def router_lookup_def Let_def
  by (intro context_intros in_context_in_router in_context_keep_decision in_context_nested in_context_reads
      in_context_submit_transfer)

lemma router_submit_id:
  "wp (router_submit q)
     (\<lambda>res w'. \<forall>made. res = Some made \<longrightarrow> id_position (transfer_ids (fst (snd w))) \<le> unat (sub_id made)
        \<and> unat (sub_id made) < id_position (transfer_ids (fst (snd w')))) (\<lambda>_ _. True) w" (is "wp _ ?Q _ _")
proof -
  note over = wp_moves_bind [where holds = "\<lambda>_. True" and rel = "\<lambda>w w' :: routing_world. net_wiring (fst (snd w)) (fst (snd w'))", OF _ TrueI]
    and over_seq = wp_moves_seq [where holds = "\<lambda>_. True" and rel = "\<lambda>w w' :: routing_world. net_wiring (fst (snd w)) (fst (snd w'))", OF _ TrueI]
  have pos: "id_position (transfer_ids n) \<le> id_position (transfer_ids n')" if "net_wiring n n'" for n n'
    using that by (simp add: net_wiring_def)
  have last: "wp (bind (in_transport (submit_transfer rq)) (\<lambda>transfer. seq (keep_decision (d transfer) out) (return (Some transfer))))
      ?Q (\<lambda>_ _. True) u" if "id_position (transfer_ids (fst (snd w))) \<le> id_position (transfer_ids (fst (snd u)))" for rq d out u
  proof -
    obtain s n r where u: "u = (s, n, r)" by (cases u)
    show ?thesis unfolding wp_bind u wp_in_transport
      by (rule wp_mono [OF submit_transfer_id])
        (use that u in \<open>auto intro!: over_seq routed_keep_decision simp: wp_return dest!: pos\<close>)
  qed
  have none: "wp (seq (keep_decision d out) (return None)) ?Q (\<lambda>_ _. True) u" for d out u
    by (rule over_seq [OF routed_keep_decision]) (simp add: wp_return)
  show ?thesis
    unfolding router_submit_def Let_def
  proof (rule wp_guard, rule over, intro routed_rules, rule wp_guard, (rule over, intro routed_rules)+, goal_cases)
    case (1 a u1 b u2 c u3 d u4 e u5)
    then have p: "id_position (transfer_ids (fst (snd w))) \<le> id_position (transfer_ids (fst (snd u5)))"
      by (auto dest!: pos)
    show ?case unfolding wp_if
      by (simp only: none simp_thms if_True if_False split: if_split, intro impI,
          rule over, intro routed_rules, rule over, intro routed_rules, rule wp_guard, rule last)
        (use p in \<open>auto dest!: pos\<close>)
  qed
qed

text \<open>What the executor relies on: identifiers of transfers and of events are issued upwards.\<close>

lemma wp_in_routing:
  "wp (in_routing m) Q E (s, n, r, x) = wp m (\<lambda>y (s, n, r). Q y (s, n, r, x)) (\<lambda>e (s, n, r). E e (s, n, r, x)) (s, n, r)"
  by (simp add: in_routing_def wp_zoom split_beta')

lemma route_wp:
  assumes "sim_ok s"
  shows "wp (in_routing (router_submit q))
     (\<lambda>res (s', n', r', x'). x' = x \<and> stays transport_payload s s' \<and> net_wiring n n' \<and>
        (\<forall>made. res = Some made \<longrightarrow> id_position (transfer_ids n) \<le> unat (sub_id made) \<and> unat (sub_id made) < id_position (transfer_ids n')))
     (\<lambda>_ (s', n', r', x'). x' = x) (s, n, r, x)"
  unfolding wp_in_routing
  by (rule wp_mono [OF wp_conj [OF router_submit_id wp_conj [OF movesD [OF routed_router_submit TrueI]
        movesD [OF in_context_router_submit]]]]) (use assms in auto)

end
