(* ===== verification/Workload_Books.thy ===== *)
theory Workload_Books
  imports Workload_Frames Collective_Frames
begin

text \<open>
  The books of the workload engine: every job is in order, the assignments and the inventory name exactly the jobs
  that hold a GPU, and every ended job has been reported once. The weight of the books bounds how many more
  results of collectives the engine can take.
\<close>

section \<open>The books\<close>

definition holder :: "(job_id, job_record) omap \<Rightarrow> gpu_id \<Rightarrow> job_id \<Rightarrow> bool" where
  "holder m gpu i \<longleftrightarrow> (\<exists>j. map_of m i = Some j \<and> jb_assigned j \<and> \<not> terminal (jb_state j) \<and> gpu \<in> set (workers (jb_spec j)))"

definition job_ok :: "job_id \<Rightarrow> job_record \<Rightarrow> bool" where
  "job_ok i j \<longleftrightarrow> jb_id j = i
     \<and> (jb_arrival_event j \<noteq> None \<longrightarrow> jb_state j = StateScheduled)
     \<and> (jb_state j \<in> {StateScheduled, StateWaiting} \<longrightarrow> \<not> jb_assigned j \<and> jb_completed_buckets j = 0)
     \<and> (\<not> terminal (jb_state j) \<longrightarrow> jb_completed_buckets j < jb_buckets j \<and> jb_step j < steps (jb_spec j))
     \<and> (jb_finished j \<noteq> None \<longleftrightarrow> terminal (jb_state j))"

definition jobs_ok :: "engine \<Rightarrow> bool" where
  "jobs_ok g \<longleftrightarrow> omap_ok (en_jobs g) \<and> (\<forall>i j. map_of (en_jobs g) i = Some j \<longrightarrow> job_ok i j)
     \<and> (\<forall>i. map_of (en_jobs g) i \<noteq> None \<longrightarrow> unat i < length (en_jobs g))
     \<and> length (en_jobs g) \<le> lim_jobs (en_limits g) \<and> lim_jobs (en_limits g) < 2 ^ 64"

definition holdings_ok :: "engine \<Rightarrow> bool" where
  "holdings_ok g \<longleftrightarrow> (\<forall>gpu i. map_of (assignments g) gpu = Some i \<longleftrightarrow> holder (en_jobs g) gpu i)"

definition stocked :: "engine \<Rightarrow> bool" where
  "stocked g \<longleftrightarrow> (\<forall>rs. en_inventory g = Some rs \<longrightarrow>
     inventory_ok rs \<and> (\<forall>r\<in>set rs. \<forall>i. owner r = Some i \<longleftrightarrow> holder (en_jobs g) (res_gpu r) i))"

definition reports_ok :: "job_snapshot list \<Rightarrow> engine \<Rightarrow> bool" where
  "reports_ok taken g \<longleftrightarrow> distinct (map js_id (taken @ en_completed g))
     \<and> (\<forall>i. i \<in> js_id ` set (taken @ en_completed g) \<longleftrightarrow> (\<exists>j. map_of (en_jobs g) i = Some j \<and> terminal (jb_state j)))
     \<and> (\<forall>s\<in>set (taken @ en_completed g). \<exists>j. map_of (en_jobs g) (js_id s) = Some j \<and> (\<forall>t. inspect j t = Inr s))"

text \<open>A job is under way once it has left the queue; only such jobs have collectives.\<close>

definition begun :: "job_record \<Rightarrow> bool" where
  "begun j \<longleftrightarrow> jb_state j \<noteq> StateScheduled \<and> jb_state j \<noteq> StateWaiting"

definition collectives_ok :: "engine \<Rightarrow> bool" where
  "collectives_ok g \<longleftrightarrow> omap_ok (en_collectives g)
     \<and> (\<forall>k i. map_of (en_collectives g) k = Some i \<longrightarrow> (\<exists>j. map_of (en_jobs g) i = Some j \<and> begun j))"

definition books :: "job_snapshot list \<Rightarrow> engine \<Rightarrow> bool" where
  "books taken g \<longleftrightarrow> jobs_ok g \<and> holdings_ok g \<and> stocked g \<and> reports_ok taken g \<and> collectives_ok g"

definition collectives_kept :: "job_id \<Rightarrow> job_record \<Rightarrow> engine \<Rightarrow> engine \<Rightarrow> bool" where
  "collectives_kept i a g g' \<longleftrightarrow> en_collectives g' = en_collectives g
     \<or> begun a \<and> (\<exists>k. en_collectives g' = omap_emplace k i (en_collectives g))"

definition job_weight :: "job_record \<Rightarrow> nat" where
  "job_weight j = (if terminal (jb_state j) then 0
     else Suc ((unat (steps (jb_spec j)) - unat (jb_step j)) * unat (jb_buckets j) - unat (jb_completed_buckets j)))"

definition jobs_weight :: "engine \<Rightarrow> nat" where
  "jobs_weight g = sum_list (map (job_weight \<circ> snd) (en_jobs g))"

lemmas books_defs = books_def jobs_ok_def holdings_ok_def stocked_def reports_ok_def collectives_ok_def

text \<open>All of this is a matter of the core of the jobs.\<close>

lemma core_fields:
  assumes "core a = core b"
  shows "jb_id a = jb_id b" "jb_spec a = jb_spec b" "jb_state a = jb_state b" "jb_assigned a = jb_assigned b"
    "job_ok i a = job_ok i b" "job_weight a = job_weight b" "begun a = begun b"
  using assms by (simp_all add: core_def job_ok_def job_weight_def begun_def)

lemma books_job: "books taken g \<Longrightarrow> map_of (en_jobs g) i = Some j \<Longrightarrow> job_ok i j"
  by (simp add: books_def jobs_ok_def)

lemma jobs_ok_put:
  assumes "jobs_ok g" "map_of (en_jobs g) i = Some j" "job_ok i b" "en_jobs g' = omap_put i b (en_jobs g)" "en_limits g' = en_limits g"
  shows "jobs_ok g'"
  using assms by (auto simp: jobs_ok_def length_omap_put)

lemma weight_put:
  assumes "jobs_ok g" "map_of (en_jobs g) i = Some j" "en_jobs g' = omap_put i b (en_jobs g)"
  shows "jobs_weight g' + job_weight j = jobs_weight g + job_weight b"
  using sum_omap_put [OF _ assms(2), of job_weight b] assms(1,3) by (simp add: jobs_ok_def jobs_weight_def)

lemma emplace_facts: "omap_ok m \<Longrightarrow> omap_ok (omap_emplace k v m)" "omap_ok m \<Longrightarrow> length (omap_emplace k v m) \<le> Suc (length m)"
  by (auto simp: omap_emplace_def length_omap_put)

lemma map_of_emplaced: "map_of (omap_emplace k v m) q = Some i \<Longrightarrow> map_of m q = Some i \<or> q = k \<and> i = v"
  by (auto simp: omap_emplace_def split: if_splits)

lemma collectives_put:
  assumes "collectives_ok g" "map_of (en_jobs g) i = Some j" "begun j \<Longrightarrow> begun b" "en_jobs g' = omap_put i b (en_jobs g)" "collectives_kept i b g g'"
  shows "collectives_ok g'"
proof -
  have old: "\<exists>j. map_of (en_jobs g') q = Some j \<and> begun j" if "map_of (en_collectives g) k = Some q" for k q
    using assms(1-4) that by (cases "q = i") (force simp: collectives_ok_def)+
  have new: "\<exists>j. map_of (en_jobs g') i = Some j \<and> begun j" if "begun b" using assms(4) that by simp
  show ?thesis
    using assms(1,5) old new unfolding collectives_ok_def collectives_kept_def
    by (auto simp del: map_of_omap_put simp: emplace_facts dest!: map_of_emplaced)
qed

lemma holder_put:
  "holder (omap_put i b m) gpu k \<longleftrightarrow>
     (if k = i then jb_assigned b \<and> \<not> terminal (jb_state b) \<and> gpu \<in> set (workers (jb_spec b)) else holder m gpu k)"
  by (auto simp: holder_def)

text \<open>The reports are of jobs that no longer change.\<close>

lemma reports_put:
  assumes r: "reports_ok taken g" and j: "map_of (en_jobs g) i = Some j" "\<not> terminal (jb_state j)" and b: "\<not> terminal (jb_state b)"
    and g': "en_jobs g' = omap_put i b (en_jobs g)" "en_completed g' = en_completed g"
  shows "reports_ok taken g'"
proof -
  have t: "(\<exists>j. map_of (en_jobs g') k = Some j \<and> terminal (jb_state j)) \<longleftrightarrow> (\<exists>j. map_of (en_jobs g) k = Some j \<and> terminal (jb_state j))" for k
    using j b unfolding g'(1) by auto
  have "js_id s \<noteq> i" if "s \<in> set (taken @ en_completed g)" for s using r j that unfolding reports_ok_def by (metis image_eqI option.inject)
  then have "\<exists>j. map_of (en_jobs g') (js_id s) = Some j \<and> (\<forall>t. inspect j t = Inr s)" if "s \<in> set (taken @ en_completed g)" for s
    using r that unfolding reports_ok_def g'(1) by auto
  with r show ?thesis unfolding reports_ok_def g'(2) t by simp
qed

lemma reports_stay:
  assumes r: "reports_ok taken g" and j: "map_of (en_jobs g) i = Some j" and b: "jb_state b = jb_state j" "\<And>t. inspect b t = inspect j t"
    and g': "en_jobs g' = omap_put i b (en_jobs g)" "en_completed g' = en_completed g"
  shows "reports_ok taken g'"
proof -
  have t: "(\<exists>j. map_of (en_jobs g') k = Some j \<and> terminal (jb_state j)) \<longleftrightarrow> (\<exists>j. map_of (en_jobs g) k = Some j \<and> terminal (jb_state j))" for k
    using j b unfolding g'(1) by auto
  have "\<exists>j. map_of (en_jobs g') (js_id s) = Some j \<and> (\<forall>t. inspect j t = Inr s)" if "s \<in> set (taken @ en_completed g)" for s
  proof -
    have "\<exists>k. map_of (en_jobs g) (js_id s) = Some k \<and> (\<forall>t. inspect k t = Inr s)" using r that unfolding reports_ok_def by blast
    then show ?thesis using j b(2) unfolding g'(1) by auto
  qed
  with r show ?thesis unfolding reports_ok_def g'(2) t by simp
qed

section \<open>A job goes on\<close>

lemma books_becomes:
  assumes b: "books taken g" and j: "map_of (en_jobs g) i = Some j" "\<not> terminal (jb_state j)" and g': "becomes i a g g'"
    and a: "job_ok i a" "\<not> terminal (jb_state a)" "jb_assigned a = jb_assigned j" "workers (jb_spec a) = workers (jb_spec j)"
      "begun j \<Longrightarrow> begun a" and k: "collectives_kept i a g g'"
  shows "books taken g'" "jobs_weight g' + job_weight j = jobs_weight g + job_weight a"
proof -
  obtain c where c: "en_jobs g' = omap_put i c (en_jobs g)" "core c = core a" "rest g' = rest g" using g' by (auto simp: becomes_def)
  note cf = core_fields [OF c(2)]
  have r: "assignments g' = assignments g" "en_inventory g' = en_inventory g" "en_completed g' = en_completed g" "en_limits g' = en_limits g"
    using c(3) by (simp_all add: rest_def)
  have h: "holder (en_jobs g') gpu k = holder (en_jobs g) gpu k" for gpu k
    using j a(2-4) cf unfolding c(1) holder_put by (auto simp: holder_def)
  have rep: "reports_ok taken g'"
    by (rule reports_put [OF _ j _ c(1)]) (use b a(2) cf r in \<open>simp_all add: books_def\<close>)
  have "jobs_ok g'" by (rule jobs_ok_put [OF _ j(1) _ c(1) r(4)]) (use b a(1) cf in \<open>simp_all add: books_def\<close>)
  moreover have "collectives_ok g'" by (rule collectives_put [OF _ j(1) _ c(1)]) (use b a(5) cf k in \<open>auto simp: books_def collectives_kept_def\<close>)
  ultimately show "books taken g'" using b h rep by (simp add: books_def holdings_ok_def stocked_def r)
  show "jobs_weight g' + job_weight j = jobs_weight g + job_weight a"
    using weight_put [OF _ j(1) c(1)] b cf by (simp add: books_def)
qed

section \<open>A job ends\<close>

lemma map_of_erases: "map_of (fold omap_erase gs m) g = (if g \<in> set gs then None else map_of m g)"
  by (induction gs arbitrary: m) auto

lemma inspect_id: "inspect j t = Inr snap \<Longrightarrow> js_id snap = jb_id j"
  by (auto simp: inspect_def Let_def bindR_def split: if_splits sum.splits)

text \<open>The account of an ended job does not depend on when it is taken.\<close>

lemma inspect_ended: "terminal (jb_state j) \<Longrightarrow> jb_finished j = Some e \<Longrightarrow> inspect j t = inspect j u"
  by (cases "jb_allocated_at j") (simp_all add: inspect_def Let_def)

lemma inspect_active: "inspect (j\<lparr>jb_active_collective := k\<rparr>) t = inspect j t"
  by (simp add: inspect_def Let_def cong: if_cong option.case_cong)

lemma books_idle:
  assumes b: "books taken g" and j: "map_of (en_jobs g) i = Some j"
  shows "books taken (put_job i (j\<lparr>jb_active_collective := None\<rparr>) g)" "jobs_weight (put_job i (j\<lparr>jb_active_collective := None\<rparr>) g) = jobs_weight g"
proof -
  let ?b = "j\<lparr>jb_active_collective := None\<rparr>" and ?g = "put_job i (j\<lparr>jb_active_collective := None\<rparr>) g"
  have ok: "job_ok i ?b" "job_weight ?b = job_weight j" "begun ?b = begun j" using books_job [OF b j] by (simp_all add: job_ok_def job_weight_def begun_def)
  have h: "holder (en_jobs ?g) gpu k = holder (en_jobs g) gpu k" for gpu k using j by (auto simp: holder_def)
  have "reports_ok taken ?g" by (rule reports_stay [OF _ j, of _ ?b]) (use b in \<open>simp_all add: books_def inspect_active\<close>)
  moreover have "jobs_ok ?g" by (rule jobs_ok_put [OF _ j ok(1)]) (use b in \<open>simp_all add: books_def\<close>)
  moreover have "collectives_ok ?g"
    by (rule collectives_put [OF _ j, of ?b]) (use b ok(3) in \<open>simp_all add: books_def collectives_kept_def\<close>)
  ultimately show "books taken ?g" using b h by (simp add: books_def holdings_ok_def stocked_def)
  show "jobs_weight ?g = jobs_weight g" using weight_put [OF _ j, of ?g ?b] b ok(2) by (simp add: books_def)
qed

lemma books_ended:
  assumes b: "books taken g" and j: "map_of (en_jobs g) i = Some j" "\<not> terminal (jb_state j)"
    and a: "jb_id a = i" "jb_spec a = jb_spec j" "jb_assigned a = jb_assigned j"
    and e: "ended a st m t j'" "terminal st" and g': "en_jobs g' = omap_put i j' (en_jobs g)" "freed j snap g g'" and s: "inspect j' t = Inr snap"
  shows "books taken g'" "jobs_weight g' + job_weight j = jobs_weight g"
proof -
  have c: "jb_id j' = i" "jb_state j' = st" "jb_spec j' = jb_spec j" "jb_assigned j' = jb_assigned j" "jb_finished j' = Some t" "jb_arrival_event j' = None"
    using e(1) a by (auto simp: ended_def core_def)
  have f: "en_completed g' = en_completed g @ [snap]" "en_limits g' = en_limits g" "en_inventory g' = map_option (release i) (en_inventory g)"
    "assignments g' = (if jb_assigned j then fold omap_erase (workers (jb_spec j)) (assignments g) else assignments g)"
    using g'(2) books_job [OF b j(1)] by (simp_all add: freed_def job_ok_def)
  have nsw: "st \<noteq> StateScheduled" "st \<noteq> StateWaiting" using e(2) by (auto simp: terminal_def)
  have sid: "js_id snap = i" using inspect_id [OF s] c(1) by simp
  have h: "holder (en_jobs g') gpu k \<longleftrightarrow> k \<noteq> i \<and> holder (en_jobs g) gpu k" for gpu k
    using c(2) e(2) unfolding g'(1) holder_put by simp
  have old: "map_of (assignments g) gpu = Some k \<longleftrightarrow> holder (en_jobs g) gpu k" for gpu k using b by (simp add: books_def holdings_ok_def)
  have own: "holder (en_jobs g) gpu i \<longleftrightarrow> jb_assigned j \<and> gpu \<in> set (workers (jb_spec j))" for gpu using j by (auto simp: holder_def)
  have "jobs_ok g'" by (rule jobs_ok_put [OF _ j(1) _ g'(1) f(2)]) (use b c e(2) nsw in \<open>simp_all add: books_def job_ok_def\<close>)
  moreover have "holdings_ok g'"
    unfolding holdings_ok_def h f(4) using old own by (auto simp: map_of_erases) (metis option.inject)
  moreover have "stocked g'"
    using b unfolding stocked_def books_def h f(3) by (auto simp: release_def inventory_ok_def o_def if_distrib cong: if_cong) (metis option.inject)
  moreover have "reports_ok taken g'"
  proof -
    have r: "reports_ok taken g" using b by (simp add: books_def)
    then have "i \<notin> js_id ` set (taken @ en_completed g)" using j by (simp add: reports_ok_def)
    moreover have "js_id ` set (taken @ en_completed g') = insert i (js_id ` set (taken @ en_completed g))" using f(1) sid by auto
    moreover have "(\<exists>j. map_of (en_jobs g') k = Some j \<and> terminal (jb_state j)) \<longleftrightarrow> k = i \<or> (\<exists>j. map_of (en_jobs g) k = Some j \<and> terminal (jb_state j))" for k
      using c(2) e(2) unfolding g'(1) by auto
    moreover have "\<exists>j. map_of (en_jobs g') (js_id u) = Some j \<and> (\<forall>t. inspect j t = Inr u)" if "u \<in> set (taken @ en_completed g')" for u
    proof (cases "js_id u = i")
      case True
      then have "u = snap" using that f(1) r \<open>i \<notin> js_id ` set (taken @ en_completed g)\<close> by auto
      moreover have "inspect j' v = Inr snap" for v using inspect_ended [of j' t v t] c(2,5) e(2) s by simp
      ultimately show ?thesis using True g'(1) by simp
    next
      case False
      then have "u \<in> set (taken @ en_completed g)" using that f(1) sid by auto
      then show ?thesis using r False g'(1) by (simp add: reports_ok_def)
    qed
    ultimately show ?thesis using r sid unfolding reports_ok_def f(1) by auto
  qed
  moreover have "collectives_ok g'"
    by (rule collectives_put [OF _ j(1) _ g'(1)]) (use b c(2) nsw g'(2) in \<open>auto simp: books_def begun_def freed_def collectives_kept_def\<close>)
  ultimately show "books taken g'" by (simp add: books_def)
  show "jobs_weight g' + job_weight j = jobs_weight g"
    using weight_put [OF _ j(1) g'(1)] b c(2) e(2) by (simp add: books_def job_weight_def)
qed

lemma books_finish:
  assumes b: "books taken g" and j: "map_of (en_jobs g) i = Some j" and st: "terminal st"
    and R: "\<And>g'. books taken g' \<Longrightarrow> jobs_weight g' \<le> jobs_weight g \<Longrightarrow> en_collectives g' = en_collectives g \<Longrightarrow>
      (\<forall>k. k \<noteq> i \<longrightarrow> map_of (en_jobs g') k = map_of (en_jobs g) k) \<Longrightarrow> (en_inventory g' = None \<longleftrightarrow> en_inventory g = None) \<Longrightarrow> R () g'"
  shows "ewp (finish_job i st m) R g"
proof (rule ewp_finish [OF j])
  fix t j' snap g'
  assume h: "en_jobs g' = omap_put i j' (en_jobs g)" "ended j st m t j'" "freed j snap g g'" "inspect j' t = Inr snap" "\<not> terminal (jb_state j)"
  have "jb_id j = i" using books_job [OF b j] by (simp add: job_ok_def)
  note e = books_ended [OF b j h(5) this refl refl h(2) st h(1,3,4)]
  show "R () g'" by (rule R [OF e(1)]) (use e(2) h(1,3) in \<open>simp_all add: freed_def\<close>)
qed (use R b in simp)

section \<open>A job is given its GPUs\<close>

lemma map_of_emplace: "map_of m w = None \<or> map_of m w = Some i \<Longrightarrow> map_of (omap_emplace w i m) = (map_of m)(w \<mapsto> i)"
  by (auto simp: omap_emplace_def fun_eq_iff)

lemma map_of_emplaces:
  "\<forall>w\<in>set gs. map_of m w = None \<or> map_of m w = Some i \<Longrightarrow>
   map_of (fold (\<lambda>w. omap_emplace w i) gs m) g = (if g \<in> set gs then Some i else map_of m g)"
  by (induction gs arbitrary: m) (auto simp: map_of_emplace)

lemma books_given:
  assumes b: "books taken g" and j: "map_of (en_jobs g) i = Some j" "\<not> terminal (jb_state j)" "\<not> jb_assigned j"
    and c: "job_ok i c" "jb_assigned c" "\<not> terminal (jb_state c)" "begun c"
    and free: "\<forall>w\<in>set (workers (jb_spec c)). map_of (assignments g) w = None"
    and g': "en_jobs g' = omap_put i c (en_jobs g)" "en_completed g' = en_completed g" "en_limits g' = en_limits g" "en_collectives g' = en_collectives g"
      "assignments g' = fold (\<lambda>w. omap_emplace w i) (workers (jb_spec c)) (assignments g)"
      "en_inventory g' = map_option (claim i (set (workers (jb_spec c)))) (en_inventory g)"
  shows "books taken g'" "jobs_weight g' + job_weight j = jobs_weight g + job_weight c"
proof -
  have h: "holder (en_jobs g') gpu k \<longleftrightarrow> (if k = i then gpu \<in> set (workers (jb_spec c)) else holder (en_jobs g) gpu k)" for gpu k
    using c(2,3) unfolding g'(1) holder_put by simp
  have old: "map_of (assignments g) gpu = Some k \<longleftrightarrow> holder (en_jobs g) gpu k" for gpu k using b by (simp add: books_def holdings_ok_def)
  have nh: "\<not> holder (en_jobs g) gpu k" if "gpu \<in> set (workers (jb_spec c))" for gpu k using old [of gpu k] free that by simp
  have ni: "\<not> holder (en_jobs g) gpu i" for gpu using j by (auto simp: holder_def)
  have "jobs_ok g'" by (rule jobs_ok_put [OF _ j(1) c(1) g'(1,3)]) (use b in \<open>simp add: books_def\<close>)
  moreover have "holdings_ok g'"
    unfolding holdings_ok_def h g'(5) using free old nh ni by (auto simp: map_of_emplaces)
  moreover have "stocked g'"
    using b nh ni unfolding stocked_def books_def h g'(6) by (auto simp: claim_def inventory_ok_def o_def if_distrib cong: if_cong)
  moreover have "reports_ok taken g'"
    by (rule reports_put [OF _ j(1,2) c(3) g'(1,2)]) (use b in \<open>simp add: books_def\<close>)
  moreover have "collectives_ok g'"
    by (rule collectives_put [OF _ j(1) _ g'(1)]) (use b c(4) g'(4) in \<open>auto simp: books_def collectives_kept_def\<close>)
  ultimately show "books taken g'" by (simp add: books_def)
  show "jobs_weight g' + job_weight j = jobs_weight g + job_weight c"
    by (rule weight_put [OF _ j(1) g'(1)]) (use b in \<open>simp add: books_def\<close>)
qed

text \<open>GPUs that the inventory offers are not assigned.\<close>

lemma books_offer:
  assumes "books taken g" "en_inventory g = Some rs" "resource_lookup rs w = Some r" "available r"
  shows "map_of (assignments g) w = None"
proof -
  have "r \<in> set rs" "res_gpu r = w" using assms lookup_iff [of rs w r] by (simp_all add: books_def stocked_def)
  then have "\<not> holder (en_jobs g) w k" for k using assms by (auto simp: books_def stocked_def available_def)
  then have "map_of (assignments g) w \<noteq> Some k" for k using assms(1) by (simp add: books_def holdings_ok_def)
  then show ?thesis by blast
qed

lemma ewp_admit_placed:
  assumes j: "map_of (en_jobs g) i = Some j"
    and R: "\<And>c g'. en_jobs g' = omap_put i c (en_jobs g) \<Longrightarrow>
      core c = core (j\<lparr>jb_spec := (jb_spec j)\<lparr>workers := gs\<rparr>, jb_assigned := True, jb_state := StateComputing, jb_completed_buckets := 0\<rparr>) \<Longrightarrow>
      assignments g' = fold (\<lambda>w. omap_emplace w (jb_id j)) gs (assignments g) \<Longrightarrow> en_inventory g' = en_inventory g \<Longrightarrow>
      en_completed g' = en_completed g \<Longrightarrow> en_limits g' = en_limits g \<Longrightarrow> en_collectives g' = en_collectives g \<Longrightarrow> R () g'"
  shows "ewp (admit_placed i gs) R g"
proof -
  have fin: "ewp (start_step i) R (g1\<lparr>en_timeline := l\<rparr>)"
    if "map_of (en_jobs g1) i = Some b" "b = j\<lparr>jb_spec := (jb_spec j)\<lparr>workers := gs\<rparr>, jb_assigned := True, jb_allocated_at := a\<rparr>"
      "\<And>c. omap_put i c (en_jobs g1) = omap_put i c (en_jobs g)" "assignments g1 = fold (\<lambda>w. omap_emplace w (jb_id j)) gs (assignments g)"
      "rest g1 = rest (g\<lparr>assignments := assignments g1\<rparr>)" "en_collectives g1 = en_collectives g" for g1 l b a
  proof (rule ewp_start_step)
    show "map_of (en_jobs (g1\<lparr>en_timeline := l\<rparr>)) i = Some b" using that(1) by simp
    fix g' assume h: "becomes i (b\<lparr>jb_state := StateComputing, jb_completed_buckets := 0\<rparr>) (g1\<lparr>en_timeline := l\<rparr>) g'"
      "en_collectives g' = en_collectives (g1\<lparr>en_timeline := l\<rparr>)"
    then obtain c where c: "en_jobs g' = omap_put i c (en_jobs g1)" "core c = core (b\<lparr>jb_state := StateComputing, jb_completed_buckets := 0\<rparr>)"
      "rest g' = rest (g1\<lparr>en_timeline := l\<rparr>)" by (auto simp: becomes_def)
    show "R () g'" by (rule R [of g' c]) (use c h(2) that in \<open>simp_all add: core_simps\<close>)
  qed
  show ?thesis
    unfolding admit_placed_def
    by (intro ewp_seq ewp_mod_known [OF j] ewp_bind ewp_known ewp_assign_gpus ewp_aside [OF aside_context(1)] ewp_mod_known
        ewp_job_trace ewp_aside [OF aside_emissions(1)] fin) (simp add: rest_def)+
qed

section \<open>Admission\<close>

text \<open>An operation on job \<open>i\<close> that gives no job more to do.\<close>

definition settled_by :: "job_snapshot list \<Rightarrow> job_id \<Rightarrow> engine \<Rightarrow> engine \<Rightarrow> bool" where
  "settled_by taken i g g' \<longleftrightarrow> books taken g' \<and> jobs_weight g' \<le> jobs_weight g \<and> en_collectives g' = en_collectives g
     \<and> (\<forall>k. k \<noteq> i \<longrightarrow> map_of (en_jobs g') k = map_of (en_jobs g) k) \<and> (en_inventory g' = None \<longleftrightarrow> en_inventory g = None)"

lemma settled_finish:
  "books taken g \<Longrightarrow> map_of (en_jobs g) i = Some j \<Longrightarrow> terminal st \<Longrightarrow> ewp (finish_job i st m) (\<lambda>_. settled_by taken i g) g"
  by (rule books_finish) (auto simp: settled_by_def)

lemma ewp_in_inventory:
  assumes "en_inventory g = Some rs" "\<And>x rs'. m rs = (Inr x, rs') \<Longrightarrow> R x (g\<lparr>en_inventory := Some rs'\<rparr>)"
  shows "ewp (in_inventory m) R g"
  using assms by (auto simp: ewp_def in_inventory_def wp_zoom wp_def split: prod.splits sum.splits)

lemma ewp_allocate_placement:
  assumes i: "en_inventory g = Some rs" "inventory_ok rs" and j: "map_of (en_jobs g) i = Some j"
    and R: "\<And>near n. \<forall>w\<in>set (pl_workers p). \<exists>r. resource_lookup rs w = Some r \<and> available r \<Longrightarrow>
      R near (g\<lparr>en_inventory := Some (claim (jb_id j) (set (pl_workers p)) rs), allocation_entries := n\<rparr>)"
  shows "ewp (allocate_placement i q cfg p) R g"
  unfolding allocate_placement_def
  by (intro ewp_bind ewp_known [OF j] ewp_seq ewp_guard ewp_get ewp_in_inventory [OF i(1)] ewp_mod ewp_lift)
    (auto simp: allocate_result [OF i(2)] split: if_splits intro!: R)

lemma admit_settled:
  assumes b: "books taken g" and i: "en_inventory g = Some rs" and j: "map_of (en_jobs g) i = Some j" "jb_state j = StateWaiting"
  shows "ewp (admit i) (\<lambda>_. settled_by taken i g) g"
proof -
  have ok: "inventory_ok rs" "job_ok i j" using b i books_job [OF b j(1)] by (simp_all add: books_def stocked_def)
  have live: "\<not> terminal (jb_state j)" "\<not> jb_assigned j" "jb_completed_buckets j = 0" "jb_id j = i" using ok(2) j(2) by (simp_all add: job_ok_def terminal_def)
  let ?a = "\<lambda>gs m n l. g\<lparr>en_inventory := Some (claim i (set gs) rs), allocation_entries := n, en_placements := l,
    en_jobs := omap_put i (j\<lparr>jb_reason := m\<rparr>) (en_jobs g)\<rparr>"
  let ?r = "\<lambda>m l. g\<lparr>en_placements := l, en_jobs := omap_put i (j\<lparr>jb_reason := m\<rparr>) (en_jobs g)\<rparr>"
  have "becomes i j g (?r m l)" for m l
    by (rule becomesI [where j' = "j\<lparr>jb_reason := m\<rparr>"]) (simp_all add: core_simps)
  then have r: "books taken (?r m l)" "jobs_weight (?r m l) = jobs_weight g" for m l
    using books_becomes [OF b j(1) live(1) _ ok(2) live(1) refl refl] by (simp_all add: collectives_kept_def)
  have waiting: "settled_by taken i g (?r m l)" for m l using r by (simp add: settled_by_def)
  have rejected: "ewp (finish_job i StateFailed m) (\<lambda>_. settled_by taken i g) (?r m' l)" for m m' l
    by (rule ewp_mono [OF settled_finish [OF r(1)]]) (use waiting [of m' l] in \<open>auto simp: settled_by_def terminal_def\<close>)
  have placed: "ewp (admit_placed i gs) (\<lambda>_. settled_by taken i g)
      (?a gs m n l)"
    if offer: "\<forall>w\<in>set gs. \<exists>r. resource_lookup rs w = Some r \<and> available r" for gs m n l
  proof (rule ewp_admit_placed, simp)
    fix c :: job_record and g' :: engine
    assume g': "en_jobs g' = omap_put i c (en_jobs (?a gs m n l))"
      "core c = core (j\<lparr>jb_reason := m, jb_spec := (jb_spec (j\<lparr>jb_reason := m\<rparr>))\<lparr>workers := gs\<rparr>, jb_assigned := True,
        jb_state := StateComputing, jb_completed_buckets := 0\<rparr>)"
      "assignments g' = fold (\<lambda>w. omap_emplace w (jb_id (j\<lparr>jb_reason := m\<rparr>))) gs (assignments (?a gs m n l))"
      "en_inventory g' = en_inventory (?a gs m n l)"
      "en_completed g' = en_completed (?a gs m n l)"
      "en_limits g' = en_limits (?a gs m n l)"
      "en_collectives g' = en_collectives (?a gs m n l)"
    have c: "job_ok i c" "jb_assigned c" "\<not> terminal (jb_state c)" "begun c" "workers (jb_spec c) = gs" "job_weight c = job_weight j"
      using g'(2) ok(2) live j(2) by (auto simp: core_def job_ok_def terminal_def job_weight_def begun_def)
    have free: "\<forall>w\<in>set (workers (jb_spec c)). map_of (assignments g) w = None"
      using books_offer [OF b i] offer c(5) by blast
    have "books taken g'" "jobs_weight g' + job_weight j = jobs_weight g + job_weight c"
      by (rule books_given [OF b j(1) live(1,2) c(1-4) free]; use g' c(5) i live(4) in simp)+
    then show "settled_by taken i g g'" using g' c(6) i by (simp add: settled_by_def)
  qed
  show ?thesis
    unfolding admit_def Let_def
    by (intro ewp_bind ewp_get ewp_option ewp_throw ewp_seq ewp_guard ewp_known [OF j(1)] ewp_lift ewp_if
        ewp_allocate_placement [OF i ok(1) j(1)] ewp_return ewp_aside [OF aside_context(1)] ewp_mod ewp_aside [OF aside_emissions(3)]
        ewp_mod_known ewp_perform_if) (auto simp: j live(4) intro: rejected placed waiting)
qed

lemma admits_settled:
  assumes "books taken g" "en_inventory g \<noteq> None" "distinct is" "\<forall>i\<in>set is. \<exists>j. map_of (en_jobs g) i = Some j \<and> jb_state j = StateWaiting"
  shows "ewp (for_each admit is) (\<lambda>_ g'. books taken g' \<and> jobs_weight g' \<le> jobs_weight g \<and> en_collectives g' = en_collectives g) g"
  using assms
proof (induction "is" arbitrary: g)
  case Nil
  then show ?case by (simp add: ewp_return)
next
  case (Cons i "is")
  obtain rs where rs: "en_inventory g = Some rs" using Cons.prems(2) by blast
  obtain j where j: "map_of (en_jobs g) i = Some j" "jb_state j = StateWaiting" using Cons.prems(4) by auto
  show ?case
    unfolding for_each.simps
  proof (rule ewp_seq, rule ewp_mono [OF admit_settled [OF Cons.prems(1) rs j]])
    fix g' assume s: "settled_by taken i g g'"
    have "ewp (for_each admit is) (\<lambda>_ h. books taken h \<and> jobs_weight h \<le> jobs_weight g' \<and> en_collectives h = en_collectives g') g'"
      by (rule Cons.IH) (use s Cons.prems in \<open>auto simp: settled_by_def\<close>)
    then show "ewp (for_each admit is) (\<lambda>_ h. books taken h \<and> jobs_weight h \<le> jobs_weight g \<and> en_collectives h = en_collectives g) g'"
      by (rule ewp_mono) (use s in \<open>auto simp: settled_by_def\<close>)
  qed
qed

lemma waiting_jobs_facts:
  assumes "omap_ok (en_jobs g)"
  shows "distinct (waiting_jobs g)" "set (waiting_jobs g) = {i. \<exists>j. map_of (en_jobs g) i = Some j \<and> jb_state j = StateWaiting}"
proof -
  have d: "distinct (map fst (en_jobs g))" by (rule omap_ok_distinct [OF assms])
  then show "distinct (waiting_jobs g)" by (simp add: waiting_jobs_def distinct_map_filter)
  show "set (waiting_jobs g) = {i. \<exists>j. map_of (en_jobs g) i = Some j \<and> jb_state j = StateWaiting}"
    using d by (force simp: waiting_jobs_def)
qed

lemma books_flag [simp]: "books taken (g\<lparr>admission_pending := b\<rparr>) = books taken g" "jobs_weight (g\<lparr>admission_pending := b\<rparr>) = jobs_weight g"
  by (simp_all add: books_defs jobs_weight_def)

lemma dispatch_settled:
  assumes b: "books taken g"
  shows "ewp dispatch_waiting (\<lambda>_ g'. books taken g' \<and> jobs_weight g' \<le> jobs_weight g \<and> en_collectives g' = en_collectives g) g"
proof -
  have ok: "omap_ok (en_jobs g)" using b by (simp add: books_def jobs_ok_def)
  let ?g = "g\<lparr>admission_pending := False\<rparr>"
  have "ewp (for_each admit (waiting_jobs ?g)) (\<lambda>_ g'. books taken g' \<and> jobs_weight g' \<le> jobs_weight ?g \<and> en_collectives g' = en_collectives ?g) ?g"
    if "en_inventory g \<noteq> None" by (rule admits_settled) (use b ok that waiting_jobs_facts [of ?g] in auto)
  then show ?thesis
    unfolding dispatch_waiting_def
    by (intro ewp_bind ewp_get ewp_perform_if ewp_seq ewp_mod) (use b in \<open>auto elim!: ewp_mono intro!: ewp_mod\<close>)
qed

section \<open>Events\<close>

lemma arrive_books:
  assumes b: "books taken g" and j: "map_of (en_jobs g) i = Some j" "jb_state j = StateScheduled" "jb_arrival_event j = None"
  shows "ewp (arrive i) (\<lambda>_. books taken) g"
proof -
  have ok: "job_ok i j" using books_job [OF b j(1)] .
  have live: "\<not> terminal (jb_state j)" "\<not> jb_assigned j" "jb_completed_buckets j = 0" "jb_id j = i" using ok j(2) by (simp_all add: job_ok_def terminal_def)
  have w: "becomes i (j\<lparr>jb_state := StateWaiting\<rparr>) g (g\<lparr>en_jobs := omap_put i (j\<lparr>jb_state := StateWaiting\<rparr>) (en_jobs g), en_timeline := l\<rparr>)" for l
    by (rule becomesI [OF _ refl]) (simp_all add: rest_def)
  have waiting: "books taken (g\<lparr>en_jobs := omap_put i (j\<lparr>jb_state := StateWaiting\<rparr>) (en_jobs g), en_timeline := l\<rparr>)" for l
    by (rule books_becomes(1) [OF b j(1) live(1) w]) (use ok j live in \<open>auto simp: job_ok_def terminal_def begun_def collectives_kept_def\<close>)
  have failed: "ewp (finish_job i StateFailed m) (\<lambda>_. books taken) g" for m
    by (rule ewp_mono [OF settled_finish [OF b j(1)]]) (auto simp: settled_by_def terminal_def)
  have given: "ewp (start_step i) (\<lambda>_. books taken) (g\<lparr>assignments := fold (\<lambda>w. omap_emplace w i) (workers (jb_spec j)) (assignments g),
      en_jobs := omap_put i (j\<lparr>jb_assigned := True, jb_allocated_at := a\<rparr>) (en_jobs g)\<rparr>)"
    if free: "\<forall>w\<in>set (workers (jb_spec j)). map_of (assignments g) w = None" and none: "en_inventory g = None" for a
  proof (rule ewp_start_step, simp)
    let ?g = "g\<lparr>assignments := fold (\<lambda>w. omap_emplace w i) (workers (jb_spec j)) (assignments g),
      en_jobs := omap_put i (j\<lparr>jb_assigned := True, jb_allocated_at := a\<rparr>) (en_jobs g)\<rparr>"
    fix g' assume h: "becomes i (j\<lparr>jb_assigned := True, jb_allocated_at := a, jb_state := StateComputing, jb_completed_buckets := 0\<rparr>) ?g g'"
      "en_collectives g' = en_collectives ?g"
    then obtain c where c: "en_jobs g' = omap_put i c (en_jobs g)" "rest g' = rest ?g"
      "core c = core (j\<lparr>jb_assigned := True, jb_allocated_at := a, jb_state := StateComputing, jb_completed_buckets := 0\<rparr>)" by (auto simp: becomes_def)
    have "job_ok i c" "jb_assigned c" "\<not> terminal (jb_state c)" "begun c" "workers (jb_spec c) = workers (jb_spec j)"
      using c(3) ok live j by (auto simp: core_def job_ok_def terminal_def begun_def)
    then show "books taken g'" by (intro books_given(1) [OF b j(1) live(1,2), of c]) (use c h(2) free none in \<open>simp_all add: rest_def\<close>)
  qed
  show ?thesis
    unfolding arrive_def
    by (intro ewp_seq ewp_aside [OF aside_emissions(1)] ewp_bind ewp_get ewp_if ewp_mod_known [OF j(1)] ewp_job_trace ewp_mod ewp_known [OF j(1)]
        failed ewp_assign_gpus ewp_aside [OF aside_context(1)] ewp_mod_known)
      (auto simp: j live(4) list_ex_iff waiting intro!: given)
qed

lemma books_health:
  assumes b: "books taken g" and rs: "en_inventory g = Some rs"
  shows "books taken (g\<lparr>en_inventory := Some (map (\<lambda>r. if res_gpu r = w then r\<lparr>healthy := h\<rparr> else r) rs)\<rparr>)"
  using assms by (auto simp: books_defs inventory_ok_def o_def if_distrib cong: if_cong)

lemma gpu_state_books:
  assumes b: "books taken g"
  shows "ewp (gpu_state k w) (\<lambda>_. books taken) g"
proof -
  have fin: "ewp (finish_job i StateFailed m) (\<lambda>_ g'. ewp (mod_engine (\<lambda>g. g\<lparr>admission_pending := True\<rparr>)) (\<lambda>_. books taken) g') g1"
    if "books taken g1" "map_of (en_jobs g1) i = Some j" for g1 i m j
    by (rule ewp_mono [OF settled_finish [OF that]]) (auto simp: settled_by_def terminal_def intro!: ewp_mod)
  have upd: "books taken (g\<lparr>en_inventory := Some rs'\<rparr>)"
    if "en_inventory g = Some rs" "set_health (ucast w) h rs = (Inr x, rs')" for rs rs' h x
    using that b books_health [OF b that(1)] by (auto simp: set_health_result books_def stocked_def split: option.splits)
  show ?thesis
    unfolding gpu_state_def
    by (intro ewp_bind ewp_get ewp_seq ewp_guard)
      (auto intro!: ewp_in_inventory ewp_option ewp_return ewp_mod ewp_seq ewp_perform_if ewp_bind ewp_job_at fin upd dest: upd)
qed

lemma compute_books:
  assumes b: "books taken g" and j: "map_of (en_jobs g) i = Some j" "\<not> terminal (jb_state j)"
  shows "ewp (compute_ready i w sp k) (\<lambda>_. books taken) g"
proof -
  have ok: "job_ok i j" using books_job [OF b j(1)] .
  have upd: "books taken g'" if "becomes i (j\<lparr>jb_active_collective := k, jb_state := st\<rparr>) g g'" "jb_state j \<notin> {StateScheduled, StateWaiting}"
    "st = jb_state j \<or> st \<in> {StateCommunicating, StateOverlapping}"
    "en_collectives g' = en_collectives g \<or> (\<exists>k. en_collectives g' = omap_emplace k i (en_collectives g))" for g' st k
    by (rule books_becomes(1) [OF b j that(1)]) (use that(2-) ok j(2) in \<open>auto simp: job_ok_def terminal_def begun_def collectives_kept_def\<close>)
  have "jb_id j = i" using ok by (simp add: job_ok_def)
  then show ?thesis
    by (intro ewp_compute_ready [OF j(1)]) (use upd [where k = "jb_active_collective j"] upd in auto)
qed

lemma event_books:
  assumes b: "books taken g"
  shows "ewp (handle_workload i k w sp bk) (\<lambda>_. books taken) g"
proof -
  have fin: "ewp (finish_job i st m) (\<lambda>_. books taken) g" if "map_of (en_jobs g) i = Some j" "terminal st" for j st m
    by (rule ewp_mono [OF settled_finish [OF b that]]) (auto simp: settled_by_def)
  have arr: "ewp (arrive i) (\<lambda>_. books taken) (put_job i (j\<lparr>jb_arrival_event := None\<rparr>) g)"
    if j: "map_of (en_jobs g) i = Some j" "jb_arrival_event j \<noteq> None" "\<not> terminal (jb_state j)" for j
  proof (rule arrive_books)
    have ok: "job_ok i j" by (rule books_job [OF b j(1)])
    then show "jb_state (j\<lparr>jb_arrival_event := None\<rparr>) = StateScheduled" using j(2) by (simp add: job_ok_def)
    have "becomes i (j\<lparr>jb_arrival_event := None\<rparr>) g (put_job i (j\<lparr>jb_arrival_event := None\<rparr>) g)"
      by (rule becomesI [OF _ refl]) (simp_all add: rest_def)
    then show "books taken (put_job i (j\<lparr>jb_arrival_event := None\<rparr>) g)"
      by (rule books_becomes(1) [OF b j(1,3)]) (use ok j(3) in \<open>auto simp: job_ok_def begun_def collectives_kept_def\<close>)
  qed simp_all
  have "ewp (job_event i k w sp bk) (\<lambda>_. books taken) g" if "k \<noteq> GpuDown" "k \<noteq> GpuUp"
    unfolding job_event_def
  proof (intro ewp_bind ewp_job_at ewp_perform_if b, goal_cases)
    case (1 j)
    note j = this
    show ?case
    proof (cases k)
      case Arrival
      show ?thesis
        unfolding Arrival workload_event_kind.case
        by (intro ewp_bind ewp_if ewp_return ewp_aside [OF aside_zooms(1)] ewp_seq ewp_guard ewp_mod_known [OF j(1)]) (auto intro!: arr [OF j(1) _ j(2)])
    next
      case ComputeReady
      then show ?thesis using compute_books [OF b j] by simp
    next
      case CancelJob
      then show ?thesis using fin [OF j(1)] by (simp add: terminal_def)
    next
      case WorkerFailure
      then show ?thesis using fin [OF j(1)] by (auto simp: terminal_def intro!: ewp_seq ewp_guard)
    qed (use that in auto)
  qed
  then show ?thesis using gpu_state_books [OF b] by (auto simp: handle_workload_def)
qed

section \<open>Results\<close>

definition load :: "engine \<Rightarrow> nat" where
  "load g = jobs_weight g + length (en_collectives g)"

lemma length_erase: "omap_ok m \<Longrightarrow> map_of m k = Some v \<Longrightarrow> Suc (length (omap_erase k m)) = length m"
  using mset_omap_erase [of m k v] by (metis size_add_mset size_mset)

lemma unat_next: "a < (b :: 'a::len word) \<Longrightarrow> unat (a + 1) = unat a + 1"
proof -
  assume "a < b"
  moreover have "unat b < 2 ^ LENGTH('a)" by (rule unsigned_less)
  ultimately have "unat a + 1 < 2 ^ LENGTH('a)" unfolding word_less_nat_alt by linarith
  then show ?thesis by (simp add: unat_word_ariths)
qed

lemma next_bucket:
  assumes "job_ok i j" "\<not> terminal (jb_state j)" "jb_completed_buckets j + 1 \<noteq> jb_buckets j"
  shows "jb_completed_buckets j + 1 < jb_buckets j"
    "job_weight (j\<lparr>jb_active_collective := k, jb_completed_buckets := jb_completed_buckets j + 1, jb_state := st\<rparr>) < job_weight j"
proof -
  have lt: "jb_completed_buckets j < jb_buckets j" "jb_step j < steps (jb_spec j)" using assms by (simp_all add: job_ok_def)
  note u = unat_next [OF lt(1)]
  show le: "jb_completed_buckets j + 1 < jb_buckets j" using assms(3) lt(1) inc_le [OF lt(1)] by simp
  define n where "n = (unat (steps (jb_spec j)) - unat (jb_step j)) * unat (jb_buckets j)"
  have "unat (jb_buckets j) \<le> n" unfolding n_def using lt(2) by (auto simp: word_less_nat_alt Suc_le_eq)
  then show "job_weight (j\<lparr>jb_active_collective := k, jb_completed_buckets := jb_completed_buckets j + 1, jb_state := st\<rparr>) < job_weight j"
    using assms(2) lt(1) u by (auto simp: job_weight_def word_less_nat_alt n_def [symmetric])
qed

lemma next_step:
  assumes "job_ok i j" "\<not> terminal (jb_state j)" "jb_completed_buckets j + 1 = jb_buckets j" "jb_step j + 1 \<noteq> steps (jb_spec j)"
  shows "jb_step j + 1 < steps (jb_spec j)"
    "job_weight (j\<lparr>jb_active_collective := k, jb_step := jb_step j + 1, jb_state := st, jb_completed_buckets := 0\<rparr>) < job_weight j"
proof -
  have lt: "jb_completed_buckets j < jb_buckets j" "jb_step j < steps (jb_spec j)" using assms by (simp_all add: job_ok_def)
  show "jb_step j + 1 < steps (jb_spec j)" using assms(4) lt(2) inc_le [OF lt(2)] by simp
  have u: "unat (jb_buckets j) = unat (jb_completed_buckets j) + 1" using unat_next [OF lt(1)] assms(3) by simp
  have "unat (steps (jb_spec j)) - unat (jb_step j) = Suc (unat (steps (jb_spec j)) - unat (jb_step j + 1))"
    using unat_next [OF lt(2)] lt(2) by (simp add: word_less_nat_alt)
  then show "job_weight (j\<lparr>jb_active_collective := k, jb_step := jb_step j + 1, jb_state := st, jb_completed_buckets := 0\<rparr>) < job_weight j"
    using assms(2) u by (simp add: job_weight_def)
qed

lemma result_books:
  assumes b: "books taken g"
  shows "ewp (handle_result res) (\<lambda>_ g'. books taken g' \<and> load g' < load g) g"
proof (unfold handle_result_def, intro ewp_bind ewp_get ewp_option ewp_throw ewp_job_at ewp_seq ewp_mod, goal_cases)
  case (1 i j)
  let ?g = "g\<lparr>en_collectives := omap_erase (res_id res) (en_collectives g)\<rparr>"
  let ?R = "\<lambda>_ g'. books taken g' \<and> load g' < load g"
  have c: "omap_ok (en_collectives g)" "begun j" using b 1 by (force simp: books_def collectives_ok_def)+
  have b': "books taken ?g" using b by (auto simp: books_defs)
  have j: "map_of (en_jobs ?g) i = Some j" and ok: "job_ok i j" using 1 books_job [OF b 1(2)] by simp_all
  have id: "jb_id j = i" using ok by (simp add: job_ok_def)
  have l: "Suc (length (en_collectives ?g)) = length (en_collectives g)" "omap_ok (en_collectives ?g)" "jobs_weight ?g = jobs_weight g"
    using length_erase [OF c(1) 1(1)] c by (simp_all add: jobs_weight_def)
  have go: "?R () g'" if "books taken g'" "jobs_weight g' \<le> jobs_weight ?g" "en_collectives g' = en_collectives ?g" for g'
    using that l by (auto simp: load_def)
  note ib = books_idle [OF b' j]
  have failed: "ewp (finish_job i StateFailed m) ?R (put_job i (j\<lparr>jb_active_collective := None\<rparr>) ?g)" for m
    by (rule ewp_mono [OF settled_finish [OF ib(1)]]) (use ib(2) go in \<open>auto simp: settled_by_def terminal_def\<close>)
  have line: "map_of (en_jobs (?g\<lparr>en_timeline := l\<rparr>)) i = Some j" "books taken (?g\<lparr>en_timeline := l\<rparr>)" for l
    using j b by (simp_all add: books_defs)
  have lw: "jobs_weight (?g\<lparr>en_timeline := l\<rparr>) = jobs_weight ?g" for l by (simp add: jobs_weight_def)
  have bucket: "ewp (bucket_done i) ?R (?g\<lparr>en_timeline := l\<rparr>)" if live: "\<not> terminal (jb_state j)" for l
  proof (rule ewp_bucket_done [OF line(1) _ _ _ _ live], goal_cases)
    case (1 t m j' snap g')
    have "books taken g'" "jobs_weight g' + job_weight j = jobs_weight (?g\<lparr>en_timeline := l\<rparr>)"
      using id books_ended [OF line(2,1) live _ _ _ 1(2) _ 1(1,3,4)] by (simp_all add: terminal_def)
    then show ?case using 1(3) lw by (intro go) (simp_all add: freed_def)
  next
    case (2 g')
    note n = next_step(1) [OF ok live 2(3,4)] next_step(2) [OF ok live 2(3,4), where k = None and st = StateComputing]
    have pos: "0 < jb_buckets j" using ok live by (auto simp: job_ok_def intro: le_less_trans [OF word_zero_le])
    have "books taken g'" "jobs_weight g' + job_weight j < jobs_weight (?g\<lparr>en_timeline := l\<rparr>) + job_weight j"
      using books_becomes [OF line(2,1) live 2(1)] ok live n pos c(2) 2(2) by (auto simp: job_ok_def terminal_def begun_def collectives_kept_def)
    then show ?case using 2(2) lw by (intro go) simp_all
  next
    case (3 st g')
    note n = next_bucket(1) [OF ok live 3(3)] next_bucket(2) [OF ok live 3(3), where k = None and st = st]
    have "books taken g'" "jobs_weight g' + job_weight j < jobs_weight (?g\<lparr>en_timeline := l\<rparr>) + job_weight j"
      using books_becomes [OF line(2,1) live 3(1)] ok live n c(2) 3(2,4) by (auto simp: job_ok_def terminal_def begun_def collectives_kept_def)
    then show ?case using 3(2) lw by (intro go) simp_all
  next
    case (4 k st g')
    have "(bucket_over j)\<lparr>jb_active_collective := Some k, jb_state := st\<rparr>
        = j\<lparr>jb_active_collective := Some k, jb_completed_buckets := jb_completed_buckets j + 1, jb_state := st\<rparr>" by simp
    then have n: "jb_completed_buckets j + 1 < jb_buckets j" "job_weight ((bucket_over j)\<lparr>jb_active_collective := Some k, jb_state := st\<rparr>) < job_weight j"
      using next_bucket [OF ok live 4(3)] by metis+
    have kept: "collectives_kept i ((bucket_over j)\<lparr>jb_active_collective := Some k, jb_state := st\<rparr>) (?g\<lparr>en_timeline := l\<rparr>) g'"
      using 4(2,4) id by (auto simp: collectives_kept_def begun_def)
    have "books taken g'" "jobs_weight g' + job_weight j < jobs_weight (?g\<lparr>en_timeline := l\<rparr>) + job_weight j"
      using books_becomes [OF line(2,1) live 4(1) _ _ _ _ _ kept] ok live n c(2) 4(4) by (auto simp: job_ok_def terminal_def begun_def)
    then show ?case using 4(2) lw l(1,3) emplace_facts(2) [OF l(2), of k "jb_id j"] by (simp add: load_def)
  qed
  show ?case
    by (intro ewp_if ewp_mod_known [OF j] ewp_seq ewp_aside [OF aside_emissions(1)] ewp_job_trace failed bucket go ib) (use ib(2) in simp_all)
qed

section \<open>New jobs, and reports\<close>

lemma bucket_count_nat:
  assumes "0 < bucket_bytes spec"
  shows "unat (bucket_count spec) = unat (gradient_bytes spec) div unat (bucket_bytes spec)
    + (if unat (gradient_bytes spec) mod unat (bucket_bytes spec) = 0 then 0 else 1)"
proof -
  let ?a = "gradient_bytes spec" and ?b = "bucket_bytes spec"
  have m: "?a mod ?b = 0 \<longleftrightarrow> unat ?a mod unat ?b = 0" by (metis unat_eq_zero unat_mod)
  have "unat (?a div ?b + 1) = unat ?a div unat ?b + 1" if "unat ?a mod unat ?b \<noteq> 0"
  proof -
    have "unat ?b \<noteq> 1" using that by (intro notI) simp
    moreover have "unat ?b \<noteq> 0" using assms by (simp add: word_less_nat_alt)
    ultimately have "1 < unat ?b" by linarith
    then have "unat ?a div unat ?b < unat ?a \<or> unat ?a = 0" by (auto intro: div_less_dividend)
    then have "unat ?a div unat ?b + 1 < 2 ^ 64" using unat_u64_bound [of ?a] by auto
    then show ?thesis by (simp add: unat_word_ariths unat_div)
  qed
  then show ?thesis using m by (simp add: bucket_count_def unat_div)
qed

lemma validate_buckets:
  assumes "validate_job gr lims sc spec = Inr n"
  shows "0 < n" "0 < steps spec"
proof -
  have ok: "\<not> malformed_job lims spec" and v1: "bucket_count spec \<le> ucast (lim_buckets_per_step lims)"
    using assms unfolding validate_job_def by (fastforce simp only: split: if_split_asm)+
  have "n = ucast (bucket_count spec)"
    using assms ok v1 by (auto simp: validate_job_def bindR_eq_Inr not_less split: if_split_asm)
  with v1 have v: "bucket_count spec \<le> ucast (lim_buckets_per_step lims)" "n = ucast (bucket_count spec)" by simp_all
  note ok
  then have w: "gradient_bytes spec \<noteq> 0" "bucket_bytes spec \<noteq> 0" "steps spec \<noteq> 0" by (simp_all add: malformed_job_def)
  show "0 < steps spec" using w(3) by (simp add: word_gt_0)
  have pos: "0 < bucket_bytes spec" "0 < unat (gradient_bytes spec)" using w(1,2) by (simp_all add: word_gt_0 unat_gt_0)
  have "unat (gradient_bytes spec) div unat (bucket_bytes spec) \<noteq> 0 \<or> unat (gradient_bytes spec) mod unat (bucket_bytes spec) \<noteq> 0"
    using pos(2) by (metis add.right_neutral div_mult_mod_eq mult_zero_left not_gr_zero)
  then have "0 < unat (bucket_count spec)" using bucket_count_nat [OF pos(1)] by auto
  moreover have "unat (bucket_count spec) < 2 ^ 32"
  proof -
    have "unat (bucket_count spec) \<le> unat (lim_buckets_per_step lims)" using v(1) by (simp add: word_le_nat_alt unat_wide)
    moreover have "unat (lim_buckets_per_step lims) < 2 ^ 32" using unsigned_less [of "lim_buckets_per_step lims", where 'a = nat] by simp
    ultimately show ?thesis by simp
  qed
  ultimately show "0 < n" using v(2) by (simp add: word_less_nat_alt unsigned_ucast_eq take_bit_nat_eq_self)
qed

lemma books_enter:
  assumes b: "books taken g" and full: "length (en_jobs g) \<noteq> lim_jobs (en_limits g)"
    and i: "i = of_nat (length (en_jobs g))"
    and j: "job_ok i j" "jb_state j = StateScheduled"
    and g': "en_jobs g' = omap_emplace i j (en_jobs g)" "rest g' = rest g" "en_collectives g' = en_collectives g"
  shows "books taken g'"
proof -
  have len: "length (en_jobs g) < lim_jobs (en_limits g)" "lim_jobs (en_limits g) < 2 ^ 64" using b full by (simp_all add: books_def jobs_ok_def)
  then have u: "unat i = length (en_jobs g)" using i by (simp add: unat_of_nat)
  have none: "map_of (en_jobs g) i = None" using b u unfolding books_def jobs_ok_def by (metis less_irrefl)
  have jobs: "en_jobs g' = omap_put i j (en_jobs g)" using g'(1) none by (simp add: omap_emplace_def)
  have r: "assignments g' = assignments g" "en_inventory g' = en_inventory g" "en_completed g' = en_completed g" "en_limits g' = en_limits g"
    using g'(2) by (simp_all add: rest_def)
  have "\<not> jb_assigned j" "\<not> terminal (jb_state j)" using j by (auto simp: job_ok_def terminal_def)
  then have h: "holder (en_jobs g') gpu k = holder (en_jobs g) gpu k" for gpu k unfolding jobs holder_put using none by (auto simp: holder_def)
  have t: "(\<exists>j. map_of (en_jobs g') k = Some j \<and> terminal (jb_state j)) \<longleftrightarrow> (\<exists>j. map_of (en_jobs g) k = Some j \<and> terminal (jb_state j))" for k
    using none \<open>\<not> terminal (jb_state j)\<close> unfolding jobs by auto
  have "omap_ok (en_jobs g)" using b by (simp add: books_def jobs_ok_def)
  then have ln: "length (en_jobs g') = Suc (length (en_jobs g))" unfolding jobs using none by (simp add: length_omap_put)
  have "jobs_ok g'" using b j u len unfolding books_def jobs_ok_def ln r
    by (auto simp: less_Suc_eq jobs)
  moreover have "collectives_ok g'" using b none unfolding books_def collectives_ok_def g'(3) jobs by fastforce
  moreover have "reports_ok taken g'"
  proof -
    have "js_id s \<noteq> i" if "s \<in> set (taken @ en_completed g)" for s using b none that unfolding books_def reports_ok_def by (metis image_eqI option.distinct(1))
    then show ?thesis using b t unfolding books_def reports_ok_def r jobs by auto
  qed
  ultimately show ?thesis using b h by (simp add: books_def holdings_ok_def stocked_def r)
qed

lemma ewp_get_graph: "(\<And>gr. R (f gr) g) \<Longrightarrow> ewp (get_graph f) R g"
  by (auto simp: ewp_def get_graph_def wp_gets)

lemma schedule_books:
  assumes b: "books taken g"
  shows "ewp (schedule_job spec) (\<lambda>_. books taken) g"
  unfolding schedule_job_def Let_def
  by (intro ewp_bind ewp_get ewp_get_graph ewp_lift ewp_seq ewp_guard ewp_aside [OF aside_zooms(1)] ewp_mod ewp_return
      books_enter [OF b _ refl]) (auto simp: job_ok_def terminal_def rest_def dest: validate_buckets)

lemma take_books:
  assumes b: "books taken g"
  shows "ewp take_jobs (\<lambda>l. books (taken @ l)) g"
  unfolding take_jobs_def using b by (intro ewp_bind ewp_get ewp_seq ewp_mod ewp_return) (simp add: books_defs)

lemma new_books:
  assumes "new_engine gr lims sc pol sink = Inr g" "graph_ok gr" "lim_jobs lims < 2 ^ 64"
  shows "books [] g"
proof -
  obtain inv pol' where e: "scheduling_parts gr sc pol = Inr (inv, pol')" "en_inventory g = inv" "en_limits g = lims" "en_jobs g = []"
    "assignments g = []" "en_completed g = []" "en_collectives g = []"
    using assms(1) by (auto simp: new_engine_def bindR_def split: sum.splits if_splits)
  have "inventory_ok rs \<and> (\<forall>r\<in>set rs. owner r = None)" if "inv = Some rs" for rs
  proof -
    have n: "new_inventory gr = Inr rs"
      using e(1) that by (auto simp: scheduling_parts_def bindR_def split: option.splits if_splits sum.splits)
    have "map res_gpu rs = map gpu_id (gpus gr)" using new_inventory_places [OF assms(2) n] by (simp add: places_gpus o_def)
    moreover have "dense gpu_id (gpus gr)" using assms(2) by (simp add: graph_ok_def ids_ok_def)
    ultimately have "inventory_ok rs" using dense_sorted by (simp add: inventory_ok_def)
    then show ?thesis using n by (auto simp: new_inventory_def split: if_splits)
  qed
  then show ?thesis using e assms(3) by (auto simp: books_defs holder_def)
qed

end
