(* ===== verification/Collective_Books.thy ===== *)
theory Collective_Books
  imports Collective_Frames
begin

text \<open>
  The invariant of the ring executor and its proof for the steps of a collective: issuing a transfer, starting
  a round, closing it and finishing. The transfers a collective waits for are exactly those issued for it that
  have not been reported, and the bytes delivered or in flight are those its rounds have issued so far.
\<close>

section \<open>Invariant\<close>

abbreviation ranks :: "collective_record \<Rightarrow> nat" where
  "ranks c \<equiv> length (participants (cl_request c))"

abbreviation volume :: "collective_record \<Rightarrow> nat" where
  "volume c \<equiv> unat (coll_bytes (cl_request c))"

definition issued :: "collective_result \<Rightarrow> nat" where
  "issued r = unat (issued_fabric_bytes r) + unat (issued_local_bytes r)"

definition rounds_before :: "collective_record \<Rightarrow> nat" where
  "rounds_before c = (if cl_phase c = AllGather then ranks c - 1 else 0) + unat (cl_round c)"

definition shape :: "collective_id \<Rightarrow> collective_record \<Rightarrow> bool" where
  "shape i c \<longleftrightarrow> res_id (cl_result c) = i \<and> 0 < ranks c \<and> ranks c \<le> 8192
     \<and> planned_volume (of_nat (ranks c)) (coll_bytes (cl_request c)) = Inr (planned_bytes (cl_result c))"

text \<open>Every pending transfer is in flight, and unless a transfer failed every byte issued is delivered or in flight.\<close>

definition accounts :: "collective_record \<Rightarrow> pending_transfer multiset \<Rightarrow> bool" where
  "accounts c P \<longleftrightarrow> cl_pending c = size P
     \<and> unat (delivered_bytes (cl_result c)) + inflight P \<le> issued (cl_result c)
     \<and> (\<not> cl_failed c \<longrightarrow> unat (delivered_bytes (cl_result c)) + inflight P = issued (cl_result c))"

text \<open>Within a round, with \<open>rest\<close> bytes of its plan still to be issued.\<close>

definition in_round :: "collective_record \<Rightarrow> nat \<Rightarrow> bool" where
  "in_round c rest \<longleftrightarrow> \<not> cl_finished c \<and> (cl_phase c = ReduceScatter \<or> cl_phase c = AllGather)
     \<and> unat (cl_round c) + 1 < ranks c
     \<and> issued (cl_result c) + rest \<le> (rounds_before c + 1) * volume c
     \<and> (\<not> cl_failed c \<longrightarrow> issued (cl_result c) + rest = (rounds_before c + 1) * volume c)"

definition closed :: "collective_record \<Rightarrow> bool" where
  "closed c \<longleftrightarrow> cl_finished c \<and> cl_pending c = 0 \<and> res_outcome (cl_result c) = cl_phase c
     \<and> cl_phase c \<in> {PhaseSucceeded, PhaseFailed, PhaseCancelled}
     \<and> issued (cl_result c) \<le> unat (planned_bytes (cl_result c))
     \<and> (cl_phase c = PhaseSucceeded \<longrightarrow> delivered_bytes (cl_result c) = planned_bytes (cl_result c)
          \<and> issued (cl_result c) = unat (planned_bytes (cl_result c)))"

definition settled :: "collective_id \<Rightarrow> collective_record \<Rightarrow> pending_transfer multiset \<Rightarrow> bool" where
  "settled i c P \<longleftrightarrow> shape i c \<and> accounts c P \<and> (closed c \<or> in_round c 0 \<and> 0 < cl_pending c)"

text \<open>The maps, with keys that are not issued again, and what has been reported: \<open>taken\<close> were drained before.\<close>

definition own_event :: "local_pending \<Rightarrow> bool" where
  "own_event p \<longleftrightarrow> (\<exists>rnd rank ph. loc_event p = LocalCompletionEvent (pend_collective (loc_transfer p)) rnd rank ph)"

definition storage :: "simulation \<Rightarrow> network \<Rightarrow> executor \<Rightarrow> bool" where
  "storage s n x \<longleftrightarrow> sim_ok s \<and> omap_ok (ex_records x) \<and> omap_ok (ex_transfers x) \<and> omap_ok (ex_locals x)
     \<and> (\<forall>t\<in>fst ` set (ex_transfers x). unat t < id_position (transfer_ids n))
     \<and> (\<forall>e\<in>fst ` set (ex_locals x). unat e < id_position (sim_event_ids s))
     \<and> (\<forall>j. map_of (ex_records x) j = None \<longrightarrow> pool x j = {#})
     \<and> (\<forall>j\<in>fst ` set (ex_records x). unat j < length (ex_records x)) \<and> length (ex_records x) < 2 ^ 64
     \<and> maximum_collectives (ex_configuration x) < 2 ^ 64
     \<and> (\<forall>q\<in>set (ex_locals x). own_event (snd q))"

definition reported :: "collective_result list \<Rightarrow> (collective_id, collective_record) omap \<Rightarrow> bool" where
  "reported rs m \<longleftrightarrow> distinct (map res_id rs)
     \<and> (\<forall>r\<in>set rs. \<exists>c. map_of m (res_id r) = Some c \<and> closed c \<and> cl_result c = r)
     \<and> (\<forall>j c. map_of m j = Some c \<longrightarrow> cl_finished c \<longrightarrow> cl_result c \<in> set rs)"

definition ledger :: "collective_result list \<Rightarrow> simulation \<Rightarrow> network \<Rightarrow> executor \<Rightarrow> bool" where
  "ledger taken s n x \<longleftrightarrow> storage s n x \<and> reported (taken @ ex_completed x) (ex_records x)"

definition steady :: "collective_id set \<Rightarrow> executor \<Rightarrow> bool" where
  "steady A x \<longleftrightarrow> (\<forall>j c. map_of (ex_records x) j = Some c \<longrightarrow> j \<notin> A \<longrightarrow> settled j c (pool x j))"

text \<open>No collective was closed as a success with the wrong number of bytes, the state the conservation check
  would leave behind.\<close>

definition sound :: "executor \<Rightarrow> bool" where
  "sound x \<longleftrightarrow> (\<forall>j c. map_of (ex_records x) j = Some c \<longrightarrow> cl_finished c \<longrightarrow> cl_phase c = PhaseSucceeded \<longrightarrow>
     delivered_bytes (cl_result c) = planned_bytes (cl_result c))"

abbreviation sound_exit :: "exn \<Rightarrow> collective_world \<Rightarrow> bool" where
  "sound_exit \<equiv> \<lambda>_ (s, n, r, x). sound x"

abbreviation put_record :: "collective_id \<Rightarrow> collective_record \<Rightarrow> executor \<Rightarrow> executor" where
  "put_record i c x \<equiv> x\<lparr>ex_records := omap_put i c (ex_records x)\<rparr>"

lemma settled_sound: "settled j c P \<Longrightarrow> cl_finished c \<Longrightarrow> cl_phase c = PhaseSucceeded \<Longrightarrow>
    delivered_bytes (cl_result c) = planned_bytes (cl_result c)"
  by (auto simp: settled_def closed_def in_round_def)

lemma steady_sound: "steady {i} x \<Longrightarrow> map_of (ex_records x) i = Some c \<Longrightarrow> \<not> cl_finished c \<Longrightarrow> sound x"
  unfolding sound_def steady_def by (metis insertE empty_iff option.inject settled_sound)

lemma steady_all_sound: "steady {} x \<Longrightarrow> sound x"
  unfolding sound_def steady_def by (blast intro: settled_sound)

lemma steady_put:
  assumes "steady {i} x" "settled i c (pool x i)"
  shows "steady {} (put_record i c x)"
  using assms by (auto simp: steady_def)

lemma steady_put_open: "steady {i} x \<Longrightarrow> steady {i} (put_record i c x)"
  by (simp add: steady_def)

lemma steady_open: "steady {} x \<Longrightarrow> steady {i} x"
  by (simp add: steady_def)

lemma volume_bound:
  assumes "shape i c"
  shows "unat (planned_bytes (cl_result c)) = 2 * (ranks c - 1) * volume c" "0 < volume c"
proof -
  have n: "unat (of_nat (ranks c) :: u32) = ranks c" using assms by (simp add: shape_def unat_small)
  have v: "planned_volume (of_nat (ranks c)) (coll_bytes (cl_request c)) = Inr (planned_bytes (cl_result c))"
    using assms by (simp add: shape_def)
  show "unat (planned_bytes (cl_result c)) = 2 * (ranks c - 1) * volume c" "0 < volume c"
    using volume_dimensions(3,4) [OF v] n by (simp_all add: unat_gt_0)
qed

lemma round_within:
  assumes "shape i c" "in_round c rest"
  shows "issued (cl_result c) + rest \<le> unat (planned_bytes (cl_result c))"
proof -
  have "rounds_before c + 1 \<le> 2 * (ranks c - 1)" using assms(2) by (auto simp: in_round_def rounds_before_def)
  then have "(rounds_before c + 1) * volume c \<le> 2 * (ranks c - 1) * volume c" by (rule mult_le_mono1)
  then show ?thesis using assms volume_bound [OF assms(1)] by (simp add: in_round_def)
qed

section \<open>Weakest preconditions of the executor's primitives\<close>

lemma wp_executor_reads [wp_simps]:
  "wp (get_executor f) Q E = (\<lambda>(s, n, r, x). Q (f x) (s, n, r, x))"
  by (simp add: fun_eq_iff get_executor_def wp_simps)

lemma wp_get_gpus [wp_simps]: "wp (get_gpus f) Q E = (\<lambda>(s, n, r, x). Q (f (net_topology n)) (s, n, r, x))"
  by (simp add: fun_eq_iff get_gpus_def wp_simps)

lemma wp_mod_executor [wp_simps]: "wp (mod_executor f) Q E = (\<lambda>(s, n, r, x). Q () (s, n, r, f x))"
  by (simp add: fun_eq_iff mod_executor_def wp_simps)

lemma wp_context_now [wp_simps]: "wp context_now Q E = (\<lambda>w. Q (sim_now (fst w)) w)"
  by (simp add: fun_eq_iff context_now_def wp_simps)

lemma wp_collective_at:
  "map_of (ex_records x) i = Some c \<Longrightarrow> wp (collective_at i) Q E (s, n, r, x) = Q c (s, n, r, x)"
  by (simp add: collective_at_def wp_simps)

lemma wp_mod_collective:
  "map_of (ex_records x) i = Some c \<Longrightarrow> wp (mod_collective i f) Q E (s, n, r, x) = Q () (s, n, r, put_record i (f c) x)"
  by (simp add: mod_collective_def wp_simps wp_collective_at)

lemma wp_mod_result:
  "map_of (ex_records x) i = Some c \<Longrightarrow>
   wp (mod_result i f) Q E (s, n, r, x) = Q () (s, n, r, put_record i (c\<lparr>cl_result := f (cl_result c)\<rparr>) x)"
  by (simp add: mod_result_def wp_mod_collective)

text \<open>Stepping over telemetry.\<close>

lemma wp_calm:
  assumes "calm m" "sim_ok s" "\<And>y s'. stays (\<lambda>_. False) s s' \<Longrightarrow> Q y (s', n, r, x)" "\<And>e s'. E e (s', n, r, x)"
  shows "wp m Q E (s, n, r, x)"
  by (rule wp_mono [OF movesD [OF assms(1)]]) (use assms in auto)

lemma storage_stays: "storage s n x \<Longrightarrow> stays P s s' \<Longrightarrow> storage s' n x"
  unfolding storage_def stays_def by (fastforce dest: order_less_le_trans)

lemma ledger_stays: "ledger taken s n x \<Longrightarrow> stays P s s' \<Longrightarrow> ledger taken s' n x"
  by (auto simp: ledger_def intro: storage_stays)

lemma ledger_moves: "ledger taken s n x \<Longrightarrow> stays P s s' \<Longrightarrow> net_wiring n n' \<Longrightarrow> ledger taken s' n' x"
  unfolding ledger_def storage_def stays_def net_wiring_def by (fastforce dest: order_less_le_trans)

lemma length_put_present: "omap_ok m \<Longrightarrow> map_of m k = Some v \<Longrightarrow> length (omap_put k u m) = length m"
  using length_omap_put [of m k u] by simp

lemma put_keys: "map_of m k = Some v \<Longrightarrow> fst ` set (omap_put k u m) = fst ` set m"
  by (force dest: map_of_SomeD)

lemma storage_put:
  assumes "storage s n x" "map_of (ex_records x) i = Some c0"
  shows "storage s n (put_record i c x)"
  using assms length_put_present [OF _ assms(2), of c] put_keys [OF assms(2), of c] unfolding storage_def by simp

lemma reported_other:
  assumes "reported rs m" "map_of m i = Some c0" "\<not> cl_finished c0" "r \<in> set rs"
  shows "res_id r \<noteq> i"
proof
  assume i: "res_id r = i"
  obtain c where "map_of m (res_id r) = Some c" "closed c" using assms(1,4) unfolding reported_def by blast
  then show False using assms(2,3) i by (simp add: closed_def)
qed

lemma reported_put:
  assumes "reported rs m" "map_of m i = Some c0" "\<not> cl_finished c0" "\<not> cl_finished c"
  shows "reported rs (omap_put i c m)"
  using assms(1,4) reported_other [OF assms(1-3)] unfolding reported_def by auto

lemma ledger_put:
  "ledger taken s n x \<Longrightarrow> map_of (ex_records x) i = Some c0 \<Longrightarrow> \<not> cl_finished c0 \<Longrightarrow> \<not> cl_finished c \<Longrightarrow>
   ledger taken s n (put_record i c x)"
  by (simp add: ledger_def storage_put reported_put)

section \<open>Finishing\<close>

abbreviation finished_record :: "collective_record \<Rightarrow> sim_time \<Rightarrow> collective_record" where
  "finished_record c t \<equiv> c\<lparr>cl_finished := True, cl_phase := final_phase c,
     cl_result := (cl_result c)\<lparr>res_outcome := final_phase c, res_finished := t\<rparr>\<rparr>"

definition ready :: "collective_id \<Rightarrow> collective_record \<Rightarrow> pending_transfer multiset \<Rightarrow> bool" where
  "ready i c P \<longleftrightarrow> shape i c \<and> accounts c P \<and> \<not> cl_finished c \<and> cl_pending c = 0
     \<and> issued (cl_result c) \<le> unat (planned_bytes (cl_result c))
     \<and> (\<not> cl_failed c \<longrightarrow> \<not> cl_cancelled c \<longrightarrow> issued (cl_result c) = unat (planned_bytes (cl_result c)))"

lemma ready_conserves:
  assumes "ready i c P" "final_phase c = PhaseSucceeded"
  shows "delivered_bytes (cl_result c) = planned_bytes (cl_result c)" "issued (cl_result c) = unat (planned_bytes (cl_result c))"
proof -
  have "\<not> cl_failed c" "\<not> cl_cancelled c" using assms(2) by (auto simp: final_phase_def split: if_splits)
  then have "unat (delivered_bytes (cl_result c)) = unat (planned_bytes (cl_result c))"
    "issued (cl_result c) = unat (planned_bytes (cl_result c))"
    using assms(1) by (auto simp: ready_def accounts_def)
  then show "delivered_bytes (cl_result c) = planned_bytes (cl_result c)" "issued (cl_result c) = unat (planned_bytes (cl_result c))"
    by (auto dest: word_unat_eq_iff [THEN iffD2])
qed

lemma finished_closed:
  assumes "ready i c P"
  shows "closed (finished_record c t)" "settled i (finished_record c t) P"
proof -
  show cl: "closed (finished_record c t)" using assms ready_conserves [OF assms]
    by (auto simp: closed_def ready_def issued_def final_phase_def)
  then show "settled i (finished_record c t) P" using assms
    by (simp add: settled_def ready_def shape_def accounts_def issued_def)
qed

lemma reported_finish:
  assumes rep: "reported rs m" and c: "map_of m i = Some c" "\<not> cl_finished c" and d: "closed d" "res_id (cl_result d) = i"
  shows "reported (rs @ [cl_result d]) (omap_put i d m)"
proof -
  have ne: "\<And>r. r \<in> set rs \<Longrightarrow> res_id r \<noteq> i" by (rule reported_other [OF rep c])
  then have "i \<notin> res_id ` set rs" by blast
  then have "distinct (map res_id (rs @ [cl_result d]))" using rep d(2) by (simp add: reported_def)
  moreover have "\<exists>c. map_of (omap_put i d m) (res_id r) = Some c \<and> closed c \<and> cl_result c = r" if "r \<in> set (rs @ [cl_result d])" for r
    using that rep ne d by (auto simp: reported_def)
  moreover have "cl_result c' \<in> set (rs @ [cl_result d])" if "map_of (omap_put i d m) j = Some c'" "cl_finished c'" for j c'
    using that rep by (auto simp: reported_def split: if_splits)
  ultimately show ?thesis by (simp add: reported_def)
qed

lemma ledger_finish:
  assumes l: "ledger taken s n x" and c: "map_of (ex_records x) i = Some c" and rdy: "ready i c P"
  shows "ledger taken s n (put_record i (finished_record c t) x\<lparr>ex_timeline := tr,
     ex_completed := ex_completed x @ [cl_result (finished_record c t)]\<rparr>)"
proof -
  let ?d = "finished_record c t"
  have "storage s n (put_record i ?d x\<lparr>ex_timeline := tr, ex_completed := l\<rparr>)" for l
    using storage_put [OF _ c, of s n ?d] l by (simp add: ledger_def storage_def)
  moreover have "reported ((taken @ ex_completed x) @ [cl_result ?d]) (omap_put i ?d (ex_records x))"
    by (rule reported_finish [OF _ c _ finished_closed(1) [OF rdy]]) (use l rdy in \<open>simp_all add: ledger_def ready_def shape_def\<close>)
  ultimately show ?thesis by (simp add: ledger_def)
qed

lemma finish_wp:
  assumes l: "ledger taken s n x" and st: "steady {i} x" and c: "map_of (ex_records x) i = Some c" and rdy: "ready i c (pool x i)"
  shows "wp (finish i) (\<lambda>_ (s', n', r', x'). n' = n \<and> r' = r \<and> ledger taken s' n x' \<and> steady {} x') sound_exit (s, n, r, x)"
proof -
  let ?c = "finished_record c (sim_now s)"
  let ?x = "put_record i ?c x"
  have steady: "steady {} ?x" by (rule steady_put [OF st finished_closed(2) [OF rdy]])
  have ok: "sim_ok s" using l by (simp add: ledger_def storage_def)
  have open_c: "\<not> cl_finished c" using rdy by (simp add: ready_def)
  have last: "wp (seq (emit i tr t b) (bind (get_executor ex_sink) (\<lambda>sink. when_enabled sink (\<lambda>cor. context_record sink (f cor) ob))))
      (\<lambda>_ (s', n', r', x'). n' = n \<and> r' = r \<and> ledger taken s' n x' \<and> steady {} x') sound_exit (s, n, r, y)"
    if "ledger taken s n y" "steady {} y" for tr t b f ob y
    by (rule wp_calm [OF _ ok]) (use that steady_all_sound in
      \<open>auto intro!: calm.moves_rules calm_emit calm_get_executor calm_when_enabled calm_context intro: ledger_stays\<close>)
  have check: "(final_phase c = PhaseSucceeded \<and> delivered_bytes (cl_result c) \<noteq> planned_bytes (cl_result c)) = False"
    using ready_conserves(1) [OF rdy] by blast
  have "ledger taken s n (?x\<lparr>ex_timeline := tr, ex_completed := ex_completed x @ [cl_result ?c]\<rparr>)"
    "steady {} (?x\<lparr>ex_timeline := tr, ex_completed := cs\<rparr>)" for tr cs
    using ledger_finish [OF l c rdy] steady by (simp_all add: steady_def)
  note last = last [OF this, unfolded wp_seq wp_bind wp_executor_reads]
  show ?thesis
    using open_c steady_all_sound [OF steady]
    by (simp add: finish_def wp_seq wp_bind wp_throw_if wp_collective_at [OF c] wp_mod_collective [OF c] wp_collective_at wp_mod_result
      wp_context_now trace_def wp_executor_reads wp_mod_executor check) (intro impI, rule last [simplified])
qed

section \<open>Issuing transfers\<close>

definition running :: "collective_result list \<Rightarrow> collective_id \<Rightarrow> nat \<Rightarrow> simulation \<Rightarrow> network \<Rightarrow> executor \<Rightarrow> bool" where
  "running taken i rest s n x \<longleftrightarrow> ledger taken s n x \<and> steady {i} x
     \<and> (\<exists>c. map_of (ex_records x) i = Some c \<and> shape i c \<and> accounts c (pool x i) \<and> in_round c rest
          \<and> (cl_pending c = 0 \<longrightarrow> cl_failed c \<or> rest = volume c))"

abbreviation runs :: "collective_result list \<Rightarrow> collective_id \<Rightarrow> nat \<Rightarrow> 'a \<Rightarrow> collective_world \<Rightarrow> bool" where
  "runs taken i rest \<equiv> \<lambda>_ (s, n, r, x). running taken i rest s n x"

lemma running_sound: "running taken i rest s n x \<Longrightarrow> sound x"
  by (auto simp: running_def in_round_def intro: steady_sound)

lemma rounds_before_simps [simp]: "rounds_before (c\<lparr>cl_result := r\<rparr>) = rounds_before c"
  "rounds_before (c\<lparr>cl_pending := k\<rparr>) = rounds_before c" "rounds_before (c\<lparr>cl_failed := b\<rparr>) = rounds_before c"
  "rounds_before (c\<lparr>cl_cancelled := b\<rparr>) = rounds_before c"
  by (simp_all add: rounds_before_def)

text \<open>One more transfer of \<open>b\<close> bytes is in flight.\<close>

lemma issued_more:
  assumes c: "shape i c" "accounts c P" "in_round c (unat b + rest)" "\<not> cl_failed c"
    and r: "res_id r = res_id (cl_result c)" "planned_bytes r = planned_bytes (cl_result c)"
      "delivered_bytes r = delivered_bytes (cl_result c)" "issued r = issued (cl_result c) + unat b"
    and p: "pend_bytes p = b"
  shows "shape i (c\<lparr>cl_result := r, cl_pending := Suc (cl_pending c)\<rparr>)"
    "accounts (c\<lparr>cl_result := r, cl_pending := Suc (cl_pending c)\<rparr>) (add_mset p P)"
    "in_round (c\<lparr>cl_result := r, cl_pending := Suc (cl_pending c)\<rparr>) rest"
  using assms by (simp_all add: shape_def accounts_def in_round_def add.assoc)

lemma issue_no_wrap:
  assumes "shape i c" "in_round c (unat (b :: u64) + rest)"
  shows "issued ((cl_result c)\<lparr>issued_local_bytes := issued_local_bytes (cl_result c) + b\<rparr>) = issued (cl_result c) + unat b"
    "issued ((cl_result c)\<lparr>issued_fabric_bytes := issued_fabric_bytes (cl_result c) + b\<rparr>) = issued (cl_result c) + unat b"
proof -
  have "issued (cl_result c) + unat b < 2 ^ 64"
    using round_within [OF assms] unat_u64_bound [of "planned_bytes (cl_result c)"] by simp
  then show "issued ((cl_result c)\<lparr>issued_local_bytes := issued_local_bytes (cl_result c) + b\<rparr>) = issued (cl_result c) + unat b"
    "issued ((cl_result c)\<lparr>issued_fabric_bytes := issued_fabric_bytes (cl_result c) + b\<rparr>) = issued (cl_result c) + unat b"
    by (simp_all add: issued_def unat_plus_no_overflow)
qed

lemma schedule_id:
  assumes "sim_ok s"
  shows "wp (schedule spec) (\<lambda>i t. stays (\<lambda>_. True) s t \<and> unat i = id_position (sim_event_ids s)
     \<and> id_position (sim_event_ids t) = Suc (unat i)) (\<lambda>_ _. True) s"
proof (cases "schedule_rejection spec s")
  case (Some e)
  then show ?thesis using schedule_rejected [OF Some] by (simp add: wp_def)
next
  case None
  from schedule_accepted [OF assms None] obtain r t where rt: "schedule spec s = (r, t)"
    "quiet (scheduled spec s) t" "\<forall>i. r = Inr i \<longrightarrow> i = next_value (sim_event_ids s)" by blast
  have "\<not> exhausted (sim_event_ids s)" using None by (auto simp: schedule_rejection_def split: if_splits)
  then have "unat (next_value (sim_event_ids s)) = id_position (sim_event_ids s)"
    "id_position (sim_event_ids t) = Suc (id_position (sim_event_ids s))"
    using quiet_fields(2) [OF rt(2)] by (simp_all add: id_position_issue scheduled_def Let_def) (simp add: id_position_def)
  moreover have "stays (\<lambda>_. True) s t"
    using movesD [OF in_context_schedule [of "\<lambda>_. True" spec], of "(s, ())"] assms rt(1)
    by (auto simp: zoom_sim_def wp_zoom wp_def split: sum.splits)
  ultimately show ?thesis using rt(1,3) by (auto simp: wp_def split: sum.splits)
qed

lemma storage_local:
  assumes "storage s n x" "stays P s s'" "unat e = id_position (sim_event_ids s)" "id_position (sim_event_ids s') = Suc (unat e)"
    and "map_of (ex_records x) (pend_collective (loc_transfer p)) \<noteq> None"
    and "own_event p"
  shows "map_of (ex_locals x) e = None" "storage s' n (x\<lparr>ex_locals := omap_put e p (ex_locals x)\<rparr>)"
proof -
  show none: "map_of (ex_locals x) e = None" using assms(1,3) by (force simp: storage_def map_of_eq_None_iff)
  have "\<forall>q\<in>set (omap_put e p (ex_locals x)). own_event (snd q)"
  proof
    fix q assume "q \<in> set (omap_put e p (ex_locals x))"
    then have "q = (e, p) \<or> q \<in> set (ex_locals x)" using set_omap_put [of e p "ex_locals x"] by blast
    then show "own_event (snd q)" using assms(1,6) by (auto simp: storage_def)
  qed
  moreover have "\<forall>e'\<in>fst ` set (ex_locals x). unat e' < id_position (sim_event_ids s')"
    using assms(1,3,4) by (auto simp: storage_def)
  ultimately show "storage s' n (x\<lparr>ex_locals := omap_put e p (ex_locals x)\<rparr>)"
    using assms(1,2,4,5) unfolding storage_def by (auto simp: pool_local [OF none] stays_def)
qed

lemma storage_transfer:
  assumes "storage s n x" "stays P s s'" "net_wiring n n'" "id_position (transfer_ids n) \<le> unat t" "unat t < id_position (transfer_ids n')"
    and "map_of (ex_records x) (pend_collective p) \<noteq> None"
  shows "map_of (ex_transfers x) t = None" "storage s' n' (x\<lparr>ex_transfers := omap_put t p (ex_transfers x)\<rparr>)"
proof -
  show none: "map_of (ex_transfers x) t = None" using assms(1,4) by (force simp: storage_def map_of_eq_None_iff)
  have "\<forall>u\<in>fst ` set (ex_transfers x). unat u < id_position (transfer_ids n')"
    "\<forall>e\<in>fst ` set (ex_locals x). unat e < id_position (sim_event_ids s')"
    using assms(1-3) by (force simp: storage_def net_wiring_def stays_def)+
  then show "storage s' n' (x\<lparr>ex_transfers := omap_put t p (ex_transfers x)\<rparr>)"
    using assms(1,2,5,6) unfolding storage_def by (auto simp: pool_transfer [OF none] stays_def)
qed

lemma running_stays: "running taken i rest s n x \<Longrightarrow> stays P s s' \<Longrightarrow> running taken i rest s' n x"
  by (auto simp: running_def intro: ledger_stays)

lemma issued_running:
  assumes l: "ledger taken s n x" "steady {i} x" and c: "map_of (ex_records x) i = Some c" "shape i c" "accounts c (pool x i)"
      "in_round c (unat b + rest)" "\<not> cl_failed c"
    and x': "storage s' n' x'" "ex_records x' = ex_records x" "ex_completed x' = ex_completed x"
      "\<And>j. pool x' j = (if j = i then add_mset p (pool x i) else pool x j)" "pend_bytes p = b"
    and r: "res_id r = res_id (cl_result c)" "planned_bytes r = planned_bytes (cl_result c)"
      "delivered_bytes r = delivered_bytes (cl_result c)" "issued r = issued (cl_result c) + unat b"
  shows "running taken i rest s' n' (put_record i (c\<lparr>cl_result := r, cl_pending := Suc (cl_pending c)\<rparr>) x')"
    "sound (put_record i (c\<lparr>cl_result := r\<rparr>) x')"
proof -
  note m = issued_more [OF c(2-5) r x'(5)]
  have fin: "\<not> cl_finished c" using c(4) by (simp add: in_round_def)
  have led: "ledger taken s' n' x'" using l(1) x' by (simp add: ledger_def)
  have st: "steady {i} x'" using l(2) x' by (simp add: steady_def)
  have c': "map_of (ex_records x') i = Some c" using c x' by simp
  show "running taken i rest s' n' (put_record i (c\<lparr>cl_result := r, cl_pending := Suc (cl_pending c)\<rparr>) x')"
    unfolding running_def
    using ledger_put [OF led c' fin] steady_put_open [OF st] m fin x'(4) by simp
  show "sound (put_record i (c\<lparr>cl_result := r\<rparr>) x')"
    by (rule steady_sound [OF steady_put_open [OF st], where c = "c\<lparr>cl_result := r\<rparr>"]) (use fin in simp_all)
qed

lemma issue_tail:
  assumes run: "running taken i rest s n (put_record i (c\<lparr>cl_result := r, cl_pending := Suc (cl_pending c)\<rparr>) x)"
    and snd: "sound (put_record i (c\<lparr>cl_result := r\<rparr>) x)"
  shows "wp (seq (emit i tr t b) (seq (emit_counter i metric a t') (mod_collective i (\<lambda>c. c\<lparr>cl_pending := cl_pending c + 1\<rparr>))))
     (runs taken i rest) sound_exit (s, n, rt, put_record i (c\<lparr>cl_result := r\<rparr>) x)"
proof -
  have "sim_ok s" using run by (simp add: running_def ledger_def storage_def)
  then show ?thesis unfolding seq_assoc [symmetric] wp_seq [of "seq (emit i tr t b) (emit_counter i metric a t')"]
    by (rule wp_calm [OF calm.moves_seq [OF calm_emit(1) calm_emit(2)]])
      (use snd running_stays [OF run] in \<open>simp_all add: wp_mod_collective [where c = "c\<lparr>cl_result := r\<rparr>"]\<close>)
qed

lemma issue_local_wp:
  assumes l: "ledger taken s n x" "steady {i} x" and c: "map_of (ex_records x) i = Some c" "shape i c" "accounts c (pool x i)"
      "in_round c (unat (ring_bytes t) + rest)" "\<not> cl_failed c"
  shows "wp (issue_local i t) (runs taken i rest) sound_exit (s, n, r, x)"
proof -
  have ok: "sim_ok s" and stor: "storage s n x" using l(1) by (simp_all add: ledger_def storage_def)
  have snd: "sound x" using l(2) c(1,4) by (auto simp: in_round_def intro: steady_sound)
  have i: "res_id (cl_result c) = i" using c(2) by (simp add: shape_def)
  let ?e = "LocalCompletionEvent i (cl_round c) (ring_source t) (cl_phase c)"
  let ?p = "\<lparr>loc_transfer = \<lparr>pend_collective = i, pend_bytes = ring_bytes t\<rparr>, loc_event = ?e\<rparr>"
  let ?r = "(cl_result c)\<lparr>issued_local_bytes := issued_local_bytes (cl_result c) + ring_bytes t\<rparr>"
  have sched: "wp (zoom_sim (schedule spec)) (\<lambda>e (s', n', r', x'). n' = n \<and> r' = r \<and> x' = x \<and> stays (\<lambda>_. True) s s'
       \<and> unat e = id_position (sim_event_ids s) \<and> id_position (sim_event_ids s') = Suc (unat e)) sound_exit (s, n, r, x)" for spec
    unfolding zoom_sim_def wp_zoom fst_conv snd_conv by (rule wp_mono [OF schedule_id [OF ok]]) (auto simp: snd)
  have rest: "wp (seq (emit i CollectiveTransferIssued None (ring_bytes t))
        (seq (emit_counter i MetricCollectiveIssuedLocalBytes (ring_bytes t) None)
          (mod_collective i (\<lambda>c. c\<lparr>cl_pending := cl_pending c + 1\<rparr>)))) (runs taken i rest) sound_exit
      (s', n, r, put_record i (c\<lparr>cl_result := ?r\<rparr>) (x\<lparr>ex_locals := omap_emplace e ?p (ex_locals x)\<rparr>))"
    if "stays (\<lambda>_. True) s s'" "unat e = id_position (sim_event_ids s)" "id_position (sim_event_ids s') = Suc (unat e)" for s' e
  proof -
    have own: "own_event ?p" "map_of (ex_records x) (pend_collective (loc_transfer ?p)) \<noteq> None" using c(1) by (simp_all add: own_event_def)
    note f = storage_local [OF stor that own(2,1)]
    let ?x = "x\<lparr>ex_locals := omap_put e ?p (ex_locals x)\<rparr>"
    note run = issued_running [OF l c f(2), of "loc_transfer ?p" ?r] 
    have r: "running taken i rest s' n (put_record i (c\<lparr>cl_result := ?r, cl_pending := Suc (cl_pending c)\<rparr>) ?x)"
      "sound (put_record i (c\<lparr>cl_result := ?r\<rparr>) ?x)"
      by (rule run; simp add: pool_local [OF f(1)] issue_no_wrap [OF c(2,4)])+
    show ?thesis unfolding omap_emplace_def using issue_tail [OF r] f(1) by simp
  qed
  have body: "wp (seq (mod_executor (\<lambda>x. x\<lparr>ex_locals := omap_emplace e ?p (ex_locals x)\<rparr>))
      (seq (mod_result i (\<lambda>r. r\<lparr>issued_local_bytes := issued_local_bytes r + ring_bytes t\<rparr>))
      (seq (emit i CollectiveTransferIssued None (ring_bytes t))
      (seq (emit_counter i MetricCollectiveIssuedLocalBytes (ring_bytes t) None)
        (mod_collective i (\<lambda>c. c\<lparr>cl_pending := cl_pending c + 1\<rparr>)))))) (runs taken i rest) sound_exit (s', n, r, x)"
    if "stays (\<lambda>_. True) s s'" "unat e = id_position (sim_event_ids s)" "id_position (sim_event_ids s') = Suc (unat e)" for s' e
    using rest [OF that] by (simp add: wp_seq wp_mod_executor wp_mod_result [where c = c] c(1))
  show ?thesis
    unfolding issue_local_def wp_bind wp_executor_reads prod.case wp_collective_at [OF c(1)] i
  proof (intro wp_option, goal_cases)
    case (1 d)
    show ?case unfolding wp_bind wp_context_now Let_def
      by (intro wp_option) (auto simp: wp_bind wp_throw snd simp del: One_nat_def add_Suc_right intro!: wp_mono [OF sched] body)
  qed (simp add: wp_throw snd)
qed

lemma next_flow_frame:
  "ledger taken s n x \<Longrightarrow> ledger taken s n (x\<lparr>next_flow := f\<rparr>)" "steady A x \<Longrightarrow> steady A (x\<lparr>next_flow := f\<rparr>)"
  "sound (x\<lparr>next_flow := f\<rparr>) = sound x"
  by (simp_all add: ledger_def storage_def steady_def sound_def)

lemma issue_fabric_wp:
  assumes l: "ledger taken s n x" "steady {i} x" and c: "map_of (ex_records x) i = Some c" "shape i c" "accounts c (pool x i)"
      "in_round c (unat (ring_bytes t) + rest)" "\<not> cl_failed c"
  shows "wp (issue_fabric i t a b) (runs taken i rest) sound_exit (s, n, r, x)"
proof -
  have snd: "sound x" using l(2) c(1,4) by (auto simp: in_round_def intro: steady_sound)
  have i: "res_id (cl_result c) = i" and fin: "\<not> cl_finished c" using c(2,4) by (simp_all add: shape_def in_round_def)
  define x1 where "x1 = x\<lparr>next_flow := next_flow x + 1\<rparr>"
  have l1: "ledger taken s n x1" "steady {i} x1" using l by (simp_all add: x1_def next_flow_frame)
  have c1: "map_of (ex_records x1) i = Some c" "accounts c (pool x1 i)" using c by (simp_all add: x1_def)
  have snd1: "sound x1" using snd by (simp add: x1_def next_flow_frame)
  have ok: "sim_ok s" and stor: "storage s n x1" using l1(1) by (simp_all add: ledger_def storage_def)
  let ?p = "\<lparr>pend_collective = i, pend_bytes = ring_bytes t\<rparr>"
  let ?r = "(cl_result c)\<lparr>issued_fabric_bytes := issued_fabric_bytes (cl_result c) + ring_bytes t\<rparr>"
  have none: "running taken i rest s' n' (put_record i (c\<lparr>cl_failed := True, cl_result := (cl_result c)\<lparr>res_reason := m\<rparr>\<rparr>) x1)"
    if "stays transport_payload s s'" "net_wiring n n'" for s' n' m
  proof -
    let ?c = "c\<lparr>cl_failed := True, cl_result := (cl_result c)\<lparr>res_reason := m\<rparr>\<rparr>"
    have "in_round ?c rest" using c(4) by (simp add: in_round_def issued_def)
    moreover have "shape i ?c" "accounts ?c (pool x1 i)" using c(2) c1(2) by (simp_all add: shape_def accounts_def issued_def)
    ultimately show ?thesis
      using ledger_put [OF ledger_moves [OF l1(1) that] c1(1) fin] steady_put_open [OF l1(2)] fin by (simp add: running_def)
  qed
  have some: "wp (seq (mod_executor (\<lambda>x. x\<lparr>ex_transfers := omap_emplace u ?p (ex_transfers x)\<rparr>))
      (seq (mod_result i (\<lambda>r. r\<lparr>issued_fabric_bytes := issued_fabric_bytes r + ring_bytes t\<rparr>))
      (seq (emit i CollectiveTransferIssued (Some u) (ring_bytes t))
      (seq (emit_counter i MetricCollectiveIssuedFabricBytes (ring_bytes t) (Some u))
        (mod_collective i (\<lambda>c. c\<lparr>cl_pending := cl_pending c + 1\<rparr>)))))) (runs taken i rest) sound_exit (s', n', r', x1)"
    if "stays transport_payload s s'" "net_wiring n n'" "id_position (transfer_ids n) \<le> unat u" "unat u < id_position (transfer_ids n')" for s' n' r' u
  proof -
    have own: "map_of (ex_records x1) (pend_collective ?p) \<noteq> None" using c1(1) by simp
    note f = storage_transfer [OF stor that own]
    let ?x = "x1\<lparr>ex_transfers := omap_put u ?p (ex_transfers x1)\<rparr>"
    note run = issued_running [OF l1 c1(1) c(2) c1(2) c(4,5) f(2), of ?p ?r]
    have r: "running taken i rest s' n' (put_record i (c\<lparr>cl_result := ?r, cl_pending := Suc (cl_pending c)\<rparr>) ?x)"
      "sound (put_record i (c\<lparr>cl_result := ?r\<rparr>) ?x)"
      by (rule run; simp add: pool_transfer [OF f(1)] issue_no_wrap [OF c(2,4)])+
    show ?thesis using issue_tail [OF r] f(1)
      by (simp add: omap_emplace_def wp_seq wp_mod_executor wp_mod_result [where c = c] c1(1))
  qed
  show ?thesis
    unfolding issue_fabric_def wp_bind wp_executor_reads prod.case wp_collective_at [OF c(1)] wp_seq wp_throw_if wp_mod_executor i
      x1_def [symmetric]
  proof (cases "next_flow x = u64_max", goal_cases)
    case 2
    show ?case
      by (simp only: 2 if_False, rule wp_mono [OF route_wp [OF ok]])
        (auto intro!: wp_option some none simp: wp_mod_collective [OF c1(1)] snd1 simp del: One_nat_def add_Suc_right)
  qed (simp add: snd)
qed

lemma issue_wp:
  assumes run: "running taken i (unat (ring_bytes t) + rest) s n x" and nf: "map_of (ex_records x) i = Some c" "\<not> cl_failed c"
  shows "wp (issue i t) (runs taken i rest) sound_exit (s, n, r, x)"
proof -
  have c: "ledger taken s n x" "steady {i} x" "map_of (ex_records x) i = Some c" "shape i c" "accounts c (pool x i)"
      "in_round c (unat (ring_bytes t) + rest)" "\<not> cl_failed c"
    using run nf by (auto simp: running_def)
  show ?thesis unfolding issue_def
    using issue_local_wp [OF c] issue_fabric_wp [OF c] running_sound [OF run]
    by (auto simp: wp_bind wp_get_gpus wp_collective_at [OF c(3)] wp_throw split: option.splits)
qed

section \<open>Rounds\<close>

abbreviation plan_left :: "ring_transfer list \<Rightarrow> nat" where
  "plan_left ts \<equiv> \<Sum>t\<leftarrow>ts. unat (ring_bytes t)"

lemma issue_loop_wp:
  "running taken i (plan_left ts) s n x \<Longrightarrow>
   wp (for_each (\<lambda>t. bind (collective_at i) (\<lambda>c. perform_if (ring_bytes t \<noteq> 0 \<and> \<not> cl_failed c) (issue i t))) ts)
     (runs taken i 0) sound_exit (s, n, r, x)"
proof (induction ts arbitrary: s n r x)
  case Nil
  then show ?case by (simp add: wp_return)
next
  case (Cons t ts)
  obtain c where c: "map_of (ex_records x) i = Some c" "in_round c (plan_left (t # ts))"
      "cl_pending c = 0 \<longrightarrow> cl_failed c \<or> plan_left (t # ts) = volume c"
    using Cons.prems by (auto simp: running_def)
  show ?case
  proof (cases "ring_bytes t \<noteq> 0 \<and> \<not> cl_failed c")
    case True
    then have "wp (issue i t) (runs taken i (plan_left ts)) sound_exit (s, n, r, x)"
      by (intro issue_wp [where c = c]) (use Cons.prems c(1) in simp_all)
    then show ?thesis using True by (auto simp: wp_seq wp_bind wp_collective_at [OF c(1)] wp_perform_if intro: Cons.IH elim!: wp_mono)
  next
    case False
    then have "running taken i (plan_left ts) s n x" using Cons.prems c by (auto simp: running_def in_round_def)
    then show ?thesis using False Cons.IH by (auto simp: wp_seq wp_bind wp_collective_at [OF c(1)] wp_perform_if)
  qed
qed

abbreviation kept :: "collective_result list \<Rightarrow> 'a \<Rightarrow> collective_world \<Rightarrow> bool" where
  "kept taken \<equiv> \<lambda>_ (s, n, r, x). ledger taken s n x \<and> steady {} x"

lemma timeline_frame:
  "ledger taken s n (x\<lparr>ex_timeline := l\<rparr>) = ledger taken s n x" "steady A (x\<lparr>ex_timeline := l\<rparr>) = steady A x"
  "sound (x\<lparr>ex_timeline := l\<rparr>) = sound x" "running taken i k s n (x\<lparr>ex_timeline := l\<rparr>) = running taken i k s n x"
  by (simp_all add: ledger_def storage_def steady_def sound_def running_def)

lemma steady_close: "steady {i} x \<Longrightarrow> map_of (ex_records x) i = Some c \<Longrightarrow> settled i c (pool x i) \<Longrightarrow> steady {} x"
  unfolding steady_def by (metis insertE empty_iff option.inject)

lemma close_round_wp:
  assumes run: "running taken i 0 s n x"
  shows "wp (bind (collective_at i) (\<lambda>c. perform_if (cl_pending c = 0) (finish i))) (kept taken) sound_exit (s, n, r, x)"
proof -
  obtain c where c: "map_of (ex_records x) i = Some c" "shape i c" "accounts c (pool x i)" "in_round c 0"
      "cl_pending c = 0 \<longrightarrow> cl_failed c \<or> 0 = volume c" and l: "ledger taken s n x" "steady {i} x"
    using run by (auto simp: running_def)
  show ?thesis
  proof (cases "cl_pending c = 0")
    case True
    then have "cl_failed c" using c(5) volume_bound(2) [OF c(2)] by simp
    then have "ready i c (pool x i)" using True c round_within [OF c(2,4)] by (simp add: ready_def in_round_def)
    from wp_mono [OF finish_wp [OF l c(1) this, of r]] show ?thesis
      using True by (auto simp: wp_bind wp_collective_at [OF c(1)] wp_perform_if elim!: wp_mono)
  next
    case False
    then have "settled i c (pool x i)" using c by (simp add: settled_def)
    then have "steady {} x" by (rule steady_close [OF l(2) c(1)])
    then show ?thesis using False l(1) by (simp add: wp_bind wp_collective_at [OF c(1)] wp_perform_if)
  qed
qed

lemma plan_left_volume:
  assumes "shape i c" "plan_round (of_nat (ranks c)) (coll_bytes (cl_request c)) ph k = Inr ts"
  shows "plan_left ts = volume c"
proof (rule plan_round_inv [OF assms(2)])
  fix v assume v: "planned_volume (of_nat (ranks c)) (coll_bytes (cl_request c)) = Inr v" "unat k + 1 < unat (of_nat (ranks c) :: u32)"
    and ts: "ts = map (plan_transfer (of_nat (ranks c)) (coll_bytes (cl_request c)) ph (of_nat (unat k)) \<circ> of_nat)
      [0..<unat (of_nat (ranks c) :: u32)]"
  show ?thesis unfolding ts by (rule plan_bytes [OF v])
qed

lemma start_round_wp:
  assumes l: "ledger taken s n x" "steady {i} x" and c: "map_of (ex_records x) i = Some c" "shape i c" "accounts c (pool x i)"
      "in_round c (volume c)" "\<not> cl_failed c"
  shows "wp (start_round i) (kept taken) sound_exit (s, n, r, x)"
proof -
  have run: "running taken i (volume c) s n x" using l c by (simp add: running_def)
  note snd = running_sound [OF run]
  have loop: "wp (seq (for_each (\<lambda>t. bind (collective_at i) (\<lambda>c. perform_if (ring_bytes t \<noteq> 0 \<and> \<not> cl_failed c) (issue i t))) ts)
      (bind (collective_at i) (\<lambda>c. perform_if (cl_pending c = 0) (finish i)))) (kept taken) sound_exit (s', n, r, x\<lparr>ex_timeline := tl'\<rparr>)"
    if "plan_left ts = volume c" "running taken i (volume c) s' n x" for ts s' tl'
    unfolding wp_seq by (rule wp_mono [OF issue_loop_wp [of taken i ts]]) (use that close_round_wp in \<open>auto simp: timeline_frame\<close>)
  have emits: "calm (seq (perform_if b (emit i tr t v)) (emit i tr' t' v'))" for b tr t v tr' t' v'
    by (intro calm.moves_rules calm_emit)
  have ok: "sim_ok s" using l(1) by (simp add: ledger_def storage_def)
  have rest: "wp (seq (seq (perform_if b (emit i tr t v)) (emit i tr' t' v'))
      (bind (lift_res (plan_round (of_nat (ranks c)) (coll_bytes (cl_request c)) ph k)) (\<lambda>plan.
       seq (for_each (\<lambda>t. bind (collective_at i) (\<lambda>c. perform_if (ring_bytes t \<noteq> 0 \<and> \<not> cl_failed c) (issue i t))) plan)
      (bind (collective_at i) (\<lambda>c. perform_if (cl_pending c = 0) (finish i)))))) (kept taken) sound_exit (s, n, r, x\<lparr>ex_timeline := tl'\<rparr>)"
    for b tr t v tr' t' v' ph k tl'
    unfolding wp_seq [of "seq _ _"] wp_bind [of "lift_res _"] wp_lift_res
    by (rule wp_calm [OF emits ok])
      (auto simp: snd timeline_frame split: sum.split intro!: loop plan_left_volume [OF c(2)] running_stays [OF run])
  show ?thesis
    unfolding start_round_def trace_def
    using rest [unfolded seq_assoc] snd
    by (simp add: wp_seq [of "bind _ _"] wp_bind wp_context_now wp_collective_at c(1) wp_executor_reads wp_seq [of "throw_if _ _"]
        wp_throw_if wp_mod_executor)
qed

section \<open>Advancing\<close>

lemma advance_wp:
  assumes l: "ledger taken s n x" "steady {i} x" and c: "map_of (ex_records x) i = Some c" "shape i c" "accounts c (pool x i)"
      "in_round c 0"
  shows "wp (advance i) (kept taken) sound_exit (s, n, r, x)"
proof -
  have ok: "sim_ok s" and snd: "sound x" and fin: "\<not> cl_finished c"
    using l c by (auto simp: ledger_def storage_def in_round_def intro: steady_sound)
  have kept_finish: "wp (finish i) (kept taken) sound_exit (s', n, r, x')"
    if "ledger taken s' n x'" "steady {i} x'" "map_of (ex_records x') i = Some d" "ready i d (pool x' i)" for s' x' d
    by (rule wp_mono [OF finish_wp [OF that]]) auto
  show ?thesis
  proof (cases "cl_pending c = 0")
    case False
    then have "steady {} x" using c by (intro steady_close [OF l(2) c(1)]) (simp add: settled_def)
    then show ?thesis using False l(1) by (simp add: advance_def wp_bind wp_collective_at [OF c(1)] wp_perform_if)
  next
    case idle: True
    show ?thesis
    proof (cases "cl_failed c \<or> cl_cancelled c")
      case True
      then have "ready i c (pool x i)" using idle c round_within [OF c(2,4)] by (auto simp: ready_def in_round_def)
      then have done_now: "wp (finish i) (kept taken) sound_exit (s', n, r, x)" if "stays (\<lambda>_. False) s s'" for s'
        using kept_finish [OF ledger_stays [OF l(1) that] l(2) c(1)] by blast
      show ?thesis using True idle snd
        by (auto simp: advance_def wp_bind wp_collective_at [OF c(1)] wp_perform_if wp_seq wp_if
          intro!: wp_calm [OF calm_emit(1) ok] done_now)
    next
      case False
      let ?k = "unat (cl_round c)" and ?c = "c\<lparr>cl_round := cl_round c + 1\<rparr>" and ?d = "c\<lparr>cl_phase := AllGather, cl_round := 0\<rparr>"
      have k: "?k + 1 < ranks c" "ranks c \<le> 8192" using c(2,4) by (simp_all add: in_round_def shape_def)
      then have up: "unat (cl_round c + 1) = ?k + 1" by (simp add: unat_plus_no_overflow)
      have sub: "size_sub (ranks c) 1 = ranks c - 1" using k by (simp add: size_sub_def)
      have iss: "issued (cl_result c) = (rounds_before c + 1) * volume c" using c(4) False by (simp add: in_round_def)
      have sh: "shape i ?c" "accounts ?c (pool x i)" "shape i ?d" "accounts ?d (pool x i)"
        using c(2,3) by (simp_all add: shape_def accounts_def)
      have last: "ready i ?c (pool x i)" if "?k + 1 = ranks c - 1" "cl_phase c = AllGather"
      proof -
        have "rounds_before c + 1 = 2 * (ranks c - 1)" using that by (simp add: rounds_before_def)
        then have "issued (cl_result c) = unat (planned_bytes (cl_result c))" using iss volume_bound(1) [OF c(2)] by simp
        then show ?thesis using sh(1,2) idle fin by (simp add: ready_def)
      qed
      have gather: "in_round ?d (volume c)" if "?k + 1 = ranks c - 1" "cl_phase c \<noteq> AllGather"
      proof -
        have "rounds_before ?d + 1 = Suc (rounds_before c + 1)" using that by (simp add: rounds_before_def)
        then have "issued (cl_result c) + volume c = (rounds_before ?d + 1) * volume c" using iss by simp
        then show ?thesis using k fin by (simp add: in_round_def)
      qed
      have more: "in_round ?c (volume c)" if "?k + 1 \<noteq> ranks c - 1"
      proof -
        have "rounds_before ?c + 1 = Suc (rounds_before c + 1)" using up by (simp add: rounds_before_def)
        then have "issued (cl_result c) + volume c = (rounds_before ?c + 1) * volume c" using iss by simp
        then show ?thesis using that k fin up c(4) by (simp add: in_round_def)
      qed
      have go: "wp (start_round i) (kept taken) sound_exit (s', n, r, put_record i d x)"
        if "ledger taken s' n x" "shape i d" "accounts d (pool x i)" "in_round d (volume d)" "\<not> cl_failed d" for s' d
        by (rule start_round_wp [OF ledger_put [OF that(1) c(1) fin] steady_put_open [OF l(2)], where c = d])
          (use that in \<open>simp_all add: in_round_def\<close>)
      have fine: "wp (finish i) (kept taken) sound_exit (s', n, r, put_record i ?c x)"
        if "ledger taken s' n x" "ready i ?c (pool x i)" for s'
        by (rule kept_finish [OF ledger_put [OF that(1) c(1) fin] steady_put_open [OF l(2)], where d = ?c]) (use that fin in simp_all)
      show ?thesis
        unfolding advance_def wp_bind wp_collective_at [OF c(1)] wp_perform_if wp_seq
        using idle False snd up sub
        by (auto simp: wp_if wp_seq wp_bind wp_mod_collective [OF c(1)] wp_collective_at [where c = ?c] wp_mod_collective [where c = ?c]
          intro!: wp_calm [OF calm_emit(1) ok] fine last go gather more sh ledger_stays [OF l(1)])
    qed
  qed
qed

end
