(* ===== verification/Collective_Correct.thy ===== *)
theory Collective_Correct
  imports Collective_Books Transport_Accounting
begin

text \<open>
  The operations of the ring executor keep its books, and so do runs of them. A collective that is not finished
  always waits for something, and one that ends without a failure has delivered exactly the planned bytes.
\<close>

section \<open>Completions\<close>

lemma pool_open:
  assumes "ledger taken s n x" "steady {} x" "p \<in># pool x i"
  obtains c where "map_of (ex_records x) i = Some c" "shape i c" "accounts c (pool x i)" "in_round c 0"
proof -
  have "pool x i \<noteq> {#}" using assms(3) by auto
  then obtain c where c: "map_of (ex_records x) i = Some c"
    using assms(1) by (cases "map_of (ex_records x) i") (auto simp: ledger_def storage_def)
  then have "settled i c (pool x i)" using assms(2) by (simp add: steady_def)
  then show ?thesis using that [OF c] assms(3) by (auto simp: settled_def closed_def accounts_def)
qed

text \<open>A transfer leaves the pool and \<open>d\<close> of its bytes were delivered.\<close>

abbreviation after_delivery :: "collective_record \<Rightarrow> u64 \<Rightarrow> bool \<Rightarrow> string \<Rightarrow> collective_record" where
  "after_delivery c d f m \<equiv> c\<lparr>cl_failed := f, cl_result := (cl_result c)\<lparr>delivered_bytes := delivered_bytes (cl_result c) + d,
     res_reason := m\<rparr>, cl_pending := size_sub (cl_pending c) 1\<rparr>"

lemma delivered_step:
  assumes c: "shape i c" "accounts c (add_mset p P)" "in_round c 0"
    and d: "unat d \<le> unat (pend_bytes p)" "\<not> f \<Longrightarrow> \<not> cl_failed c \<and> d = pend_bytes p"
  shows "shape i (after_delivery c d f m)" "accounts (after_delivery c d f m) P" "in_round (after_delivery c d f m) 0"
proof -
  let ?c = "after_delivery c d f m"
  have "unat (delivered_bytes (cl_result c)) + unat d < 2 ^ 64"
    using c(2) d(1) round_within [OF c(1,3)] unat_u64_bound [of "planned_bytes (cl_result c)"] by (simp add: accounts_def)
  then have u: "unat (delivered_bytes (cl_result c) + d) = unat (delivered_bytes (cl_result c)) + unat d"
    by (simp add: unat_plus_no_overflow)
  show "shape i ?c" using c(1) by (simp add: shape_def)
  show "in_round ?c 0" using c(3) d(2) by (auto simp: in_round_def issued_def)
  show "accounts ?c P" using c(2) d u by (auto simp: accounts_def issued_def size_sub_def)
qed

lemma set_omap_erase: "set (omap_erase k m) \<subseteq> set m"
  by (auto simp: omap_erase_def)

lemma storage_erase:
  "storage s n x \<Longrightarrow> map_of (ex_transfers x) t = Some p \<Longrightarrow> storage s n (x\<lparr>ex_transfers := omap_erase t (ex_transfers x)\<rparr>)"
  "storage s n x \<Longrightarrow> map_of (ex_locals x) e = Some q \<Longrightarrow> storage s n (x\<lparr>ex_locals := omap_erase e (ex_locals x)\<rparr>)"
proof -
  assume st: "storage s n x" and t: "map_of (ex_transfers x) t = Some p"
  have "pool (x\<lparr>ex_transfers := omap_erase t (ex_transfers x)\<rparr>) j = {#}" if "pool x j = {#}" for j
    using pool_transfer_erase [of x t p j] st t that by (auto simp: storage_def split: if_splits)
  then show "storage s n (x\<lparr>ex_transfers := omap_erase t (ex_transfers x)\<rparr>)"
    using st set_omap_erase [of t "ex_transfers x"] by (auto simp: storage_def)
next
  assume st: "storage s n x" and t: "map_of (ex_locals x) e = Some q"
  have "pool (x\<lparr>ex_locals := omap_erase e (ex_locals x)\<rparr>) j = {#}" if "pool x j = {#}" for j
    using pool_local_erase [of x e q j] st t that by (auto simp: storage_def split: if_splits)
  then show "storage s n (x\<lparr>ex_locals := omap_erase e (ex_locals x)\<rparr>)"
    using st set_omap_erase [of e "ex_locals x"] by (auto simp: storage_def)
qed

text \<open>The common end of the two handlers: the executor \<open>y\<close> no longer waits for \<open>p\<close>.\<close>

lemma completion_wp:
  assumes l: "ledger taken s n x" "steady {} x" and y: "storage s n y" "ex_records y = ex_records x" "ex_completed y = ex_completed x"
      "\<And>j. pool x j = (if j = i then add_mset p (pool y i) else pool y j)"
    and c: "map_of (ex_records x) i = Some c" "shape i c" "accounts c (pool x i)" "in_round c 0"
    and d: "unat d \<le> unat (pend_bytes p)" "\<not> f \<Longrightarrow> \<not> cl_failed c \<and> d = pend_bytes p"
  shows "wp (advance i) (kept taken) sound_exit (s, n, r, put_record i (after_delivery c d f m) y)"
proof -
  have fin: "\<not> cl_finished c" using c(4) by (simp add: in_round_def)
  have led: "ledger taken s n y" using l(1) y by (simp add: ledger_def)
  have "pool y j = pool x j" if "j \<noteq> i" for j using y(4) [of j] that by simp
  then have st: "steady {i} y" using l(2) y(2) by (simp add: steady_def)
  have ac: "accounts c (add_mset p (pool y i))" using c(3) y(4) [of i] by simp
  note step = delivered_step [OF c(2) ac c(4) d, where m = m]
  show ?thesis
    by (rule advance_wp [OF ledger_put [OF led _ fin] steady_put_open [OF st], where c = "after_delivery c d f m"])
      (use step c(1) y(2) fin in simp_all)
qed

definition truthful :: "transfer_completion \<Rightarrow> bool" where
  "truthful t \<longleftrightarrow> (tcm_outcome t = OutcomeSucceeded \<longrightarrow>
     traffic_bytes (tcm_dropped_buffer_full t) = 0 \<and> traffic_bytes (tcm_dropped_link_down t) = 0)"

lemma accounted_bytes:
  assumes "bindR (add_traffic a b) (add_traffic d) = Inr t" "traffic_bytes t = v"
  shows "unat (traffic_bytes d) \<le> unat v" "traffic_bytes a = 0 \<Longrightarrow> traffic_bytes b = 0 \<Longrightarrow> traffic_bytes d = v"
proof -
  obtain u where u: "add_traffic a b = Inr u" "add_traffic d u = Inr t" using assms(1) by (auto simp: bindR_def split: sum.splits)
  have "unat (traffic_bytes u) = unat (traffic_bytes a) + unat (traffic_bytes b)"
    "unat v = unat (traffic_bytes d) + unat (traffic_bytes u)"
    using add_traffic_sum [OF u(1)] add_traffic_sum [OF u(2)] assms(2) by simp_all
  then show "unat (traffic_bytes d) \<le> unat v" "traffic_bytes a = 0 \<Longrightarrow> traffic_bytes b = 0 \<Longrightarrow> traffic_bytes d = v"
    by (auto intro: word_unat_eq_iff [THEN iffD2])
qed

lemma handle_transfer_wp:
  assumes l: "ledger taken s n x" "steady {} x" and t: "truthful t"
  shows "wp (handle_transfer t) (kept taken) sound_exit (s, n, r, x)"
proof (cases "map_of (ex_transfers x) (tcm_transfer t)")
  case None
  then show ?thesis using steady_all_sound [OF l(2)] by (simp add: handle_transfer_def wp_bind wp_executor_reads wp_throw)
next
  case (Some p)
  let ?i = "pend_collective p" and ?y = "x\<lparr>ex_transfers := omap_erase (tcm_transfer t) (ex_transfers x)\<rparr>"
  have stor: "storage s n x" and ok: "sim_ok s" using l(1) by (simp_all add: ledger_def storage_def)
  have y: "storage s n ?y" "\<And>j. pool x j = (if j = ?i then add_mset p (pool ?y ?i) else pool ?y j)"
    using storage_erase(1) [OF stor Some] pool_transfer_erase [of x _ p] stor Some by (auto simp: storage_def)
  have "p \<in># pool x ?i" using y(2) [of ?i] by simp
  then obtain c where c: "map_of (ex_records x) ?i = Some c" "shape ?i c" "accounts c (pool x ?i)" "in_round c 0"
    by (rule pool_open [OF l])
  have snd: "sound x" by (rule steady_all_sound [OF l(2)])
  let ?d = "traffic_bytes (tcm_delivered t)" and ?m = "''collective fabric transfer failed''"
  have snd1: "sound (put_record ?i (c\<lparr>cl_result := q\<rparr>) x)" for q
    by (rule steady_sound [OF steady_put_open [OF steady_open [OF l(2)]], where c = "c\<lparr>cl_result := q\<rparr>"]) (use c(4) in \<open>simp_all add: in_round_def\<close>)
  have fin: "wp (advance ?i) (kept taken) sound_exit (s', n, r, put_record ?i (after_delivery c ?d f m) ?y)"
    if "stays (\<lambda>_. False) s s'" "bindR (add_traffic (tcm_dropped_buffer_full t) (tcm_dropped_link_down t)) (add_traffic (tcm_delivered t)) = Inr a"
      "traffic_bytes a = pend_bytes p" "f = (cl_failed c \<or> tcm_outcome t \<noteq> OutcomeSucceeded)" for s' a f m
  proof (rule completion_wp [OF ledger_stays [OF l(1) that(1)] l(2) _ _ _ y(2) c])
    show "storage s' n ?y" by (rule storage_stays [OF y(1) that(1)])
  qed (use accounted_bytes [OF that(2,3)] t that(4) in \<open>auto simp: truthful_def\<close>)
  show ?thesis
    unfolding handle_transfer_def wp_bind wp_executor_reads prod.case Some option.case wp_lift_res
    using fin [where m = ?m and f = True] fin [where m = "res_reason (cl_result c)" and f = "cl_failed c"]
    by (auto simp: snd wp_seq wp_throw_if Let_def wp_mod_result [OF c(1)] wp_perform_if wp_mod_executor wp_mod_collective
        split: sum.split intro!: wp_calm [OF calm_emit(2) ok] snd1)
qed

lemma local_found_wp:
  assumes l: "ledger taken s n x" "steady {} x" and found: "map_of (ex_locals x) e = Some q"
  shows "wp (case (Some q, event) of
       (Some p, LocalCompletionEvent i round rank ph) \<Rightarrow>
         seq (throw_if (loc_event p \<noteq> event) (LogicError ''unexpected local collective event''))
        (bind (collective_at i) (\<lambda>c.
         seq (throw_if (cl_round c \<noteq> round \<or> cl_phase c \<noteq> ph \<or> unat rank \<ge> length (participants (cl_request c)))
               (LogicError ''stale local collective event''))
        (seq (mod_result i (\<lambda>r. r\<lparr>delivered_bytes := delivered_bytes r + pend_bytes (loc_transfer p)\<rparr>))
        (seq (emit_counter i MetricCollectiveDeliveredBytes (pend_bytes (loc_transfer p)) None)
        (seq (mod_executor (\<lambda>x. x\<lparr>ex_locals := omap_erase e (ex_locals x)\<rparr>))
        (seq (mod_collective i (\<lambda>c. c\<lparr>cl_pending := size_sub (cl_pending c) 1\<rparr>))
             (advance i)))))))
     | _ \<Rightarrow> throw (LogicError ''unexpected local collective event'')) (kept taken) sound_exit (s, n, r, x)"
proof -
  let ?p = "loc_transfer q" and ?y = "x\<lparr>ex_locals := omap_erase e (ex_locals x)\<rparr>"
  let ?i = "pend_collective ?p"
  have stor: "storage s n x" and ok: "sim_ok s" using l(1) by (simp_all add: ledger_def storage_def)
  have own: "own_event q" using stor map_of_SomeD [OF found] by (force simp: storage_def)
  have y: "storage s n ?y" "\<And>j. pool x j = (if j = ?i then add_mset ?p (pool ?y ?i) else pool ?y j)"
    using storage_erase(2) [OF stor found] pool_local_erase [of x _ q] stor found by (auto simp: storage_def)
  have "?p \<in># pool x ?i" using y(2) [of ?i] by simp
  then obtain c where c: "map_of (ex_records x) ?i = Some c" "shape ?i c" "accounts c (pool x ?i)" "in_round c 0"
    by (rule pool_open [OF l])
  have snd: "sound x" by (rule steady_all_sound [OF l(2)])
  have snd1: "sound (put_record ?i (c\<lparr>cl_result := v\<rparr>) x)" for v
    by (rule steady_sound [OF steady_put_open [OF steady_open [OF l(2)]], where c = "c\<lparr>cl_result := v\<rparr>"]) (use c(4) in \<open>simp_all add: in_round_def\<close>)
  have fin: "wp (advance ?i) (kept taken) sound_exit (s', n, r, put_record ?i (after_delivery c (pend_bytes ?p) (cl_failed c) (res_reason (cl_result c))) ?y)"
    if "stays (\<lambda>_. False) s s'" for s'
    by (rule completion_wp [OF ledger_stays [OF l(1) that] l(2) _ _ _ y(2) c]) (use storage_stays [OF y(1) that] in auto)
  obtain rnd rank ph where ev: "loc_event q = LocalCompletionEvent ?i rnd rank ph" using own by (auto simp: own_event_def)
  show ?thesis
  proof (cases "event = LocalCompletionEvent ?i rnd rank ph")
    case True
    show ?thesis using fin
      by (auto simp: True ev snd wp_seq wp_bind wp_throw_if wp_collective_at [OF c(1)] wp_mod_result [OF c(1)] wp_mod_executor wp_mod_collective
        intro!: wp_calm [OF calm_emit(2) ok] snd1)
  next
    case False
    then show ?thesis using snd ev by (cases event) (auto simp: wp_throw wp_seq wp_throw_if)
  qed
qed

lemma handle_local_wp:
  assumes l: "ledger taken s n x" "steady {} x"
  shows "wp (handle_local event) (kept taken) sound_exit (s, n, r, x)"
proof -
  have ok: "sim_ok s" using l(1) by (simp add: ledger_def storage_def)
  have snd: "sound x" by (rule steady_all_sound [OF l(2)])
  show ?thesis
    unfolding handle_local_def wp_bind wp_executor_reads
  proof (rule wp_calm [OF calm_zoom [OF in_context_current(1)] ok], goal_cases)
    case (1 e s')
    show ?case
    proof (cases "map_of (ex_locals x) e")
      case None
      then show ?thesis using snd by (simp add: wp_throw)
    next
      case (Some q)
      then show ?thesis using local_found_wp [OF ledger_stays [OF l(1) 1] l(2) Some, of event r] by simp
    qed
  qed (simp add: snd)
qed

section \<open>Submission, cancelling and draining\<close>

lemma cancel_wp:
  assumes l: "ledger taken s n x" "steady {} x"
  shows "wp (collective_cancel i) (kept taken) sound_exit (s, n, r, x)"
proof (cases "map_of (ex_records x) i")
  case None
  then show ?thesis using steady_all_sound [OF l(2)] by (simp add: collective_cancel_def collective_at_def wp_bind wp_executor_reads wp_throw)
next
  case (Some c)
  define d where "d m = c\<lparr>cl_cancelled := True, cl_result := (cl_result c)\<lparr>res_reason := m\<rparr>\<rparr>" for m
  have "ledger taken s n (put_record i (d m) x) \<and> steady {} (put_record i (d m) x)" if "\<not> cl_finished c" for m
  proof -
    have "settled i c (pool x i)" using l(2) Some by (simp add: steady_def)
    then have "settled i (d m) (pool x i)"
      using that by (auto simp: d_def settled_def shape_def accounts_def in_round_def closed_def issued_def)
    then show ?thesis using steady_put [OF steady_open [OF l(2)]] ledger_put [OF l(1) Some that, of "d m"] that by (simp add: d_def)
  qed
  then show ?thesis using l by (simp add: collective_cancel_def wp_bind wp_collective_at [OF Some] wp_perform_if wp_mod_collective [OF Some] d_def)
qed

lemma take_wp:
  assumes l: "ledger taken s n x" "steady {} x"
  shows "wp take_completed (\<lambda>rs. kept (taken @ rs) rs) (\<lambda>_ _. False) (s, n, r, x)"
  using l by (simp add: take_completed_def wp_bind wp_seq wp_executor_reads wp_mod_executor wp_return ledger_def storage_def steady_def)

definition new_record :: "collective_request \<Rightarrow> collective_id \<Rightarrow> sim_time \<Rightarrow> u64 \<Rightarrow> collective_record" where
  "new_record q i t v = \<lparr>cl_request = q,
     cl_result = \<lparr>res_id = i, res_outcome = ReduceScatter, res_started = t, res_finished = t, planned_bytes = v,
       issued_fabric_bytes = 0, issued_local_bytes = 0, delivered_bytes = 0, res_reason = []\<rparr>,
     cl_phase = ReduceScatter, cl_round = 0, cl_pending = 0, cl_failed = False, cl_cancelled = False, cl_finished = False\<rparr>"

lemma reported_enter:
  assumes "reported rs m" "map_of m i = None" "\<not> cl_finished c"
  shows "reported rs (omap_put i c m)"
proof -
  have "res_id r \<noteq> i" if "r \<in> set rs" for r using assms(1,2) that by (force simp: reported_def)
  then show ?thesis using assms(1,3) unfolding reported_def by auto
qed

lemma enter_record:
  assumes l: "ledger taken s n x" "steady {} x" and len: "length (ex_records x) < maximum_collectives (ex_configuration x)"
    and i: "i = of_nat (length (ex_records x))" and c: "\<not> cl_finished c"
  shows "map_of (ex_records x) i = None" "pool x i = {#}"
    "ledger taken s n (x\<lparr>ex_records := omap_put i c (ex_records x), participant_entries := k\<rparr>)"
    "steady {i} (x\<lparr>ex_records := omap_put i c (ex_records x), participant_entries := k\<rparr>)"
proof -
  have st: "storage s n x" and rep: "reported (taken @ ex_completed x) (ex_records x)" using l(1) by (simp_all add: ledger_def)
  have ui: "unat i = length (ex_records x)"
    using st i by (simp add: storage_def unat_of_nat take_bit_nat_eq_self)
  show none: "map_of (ex_records x) i = None" using st ui by (force simp: storage_def map_of_eq_None_iff)
  then show "pool x i = {#}" using st by (simp add: storage_def)
  have lm: "length (omap_put i c (ex_records x)) = Suc (length (ex_records x))"
    using length_omap_put [of "ex_records x" i c] none st by (simp add: storage_def)
  have "\<forall>j\<in>fst ` set (omap_put i c (ex_records x)). unat j < Suc (length (ex_records x))"
    unfolding keys_omap_put using st ui by (auto simp: storage_def intro: less_SucI)
  then have "storage s n (x\<lparr>ex_records := omap_put i c (ex_records x), participant_entries := k\<rparr>)"
    using st len lm by (simp add: storage_def)
  moreover have "reported (taken @ ex_completed x) (omap_put i c (ex_records x))"
    by (rule reported_enter [OF rep none c])
  ultimately show "ledger taken s n (x\<lparr>ex_records := omap_put i c (ex_records x), participant_entries := k\<rparr>)"
    by (simp add: ledger_def)
  show "steady {i} (x\<lparr>ex_records := omap_put i c (ex_records x), participant_entries := k\<rparr>)"
    using l(2) by (simp add: steady_def)
qed

lemma new_record_ok:
  assumes v: "planned_volume (of_nat (length (participants q))) (coll_bytes q) = Inr v"
    and q: "participants q \<noteq> []" "length (participants q) \<le> 8192"
  shows "shape i (new_record q i t v)" "accounts (new_record q i t v) {#}" "\<not> cl_finished (new_record q i t v)"
    "length (participants q) = 1 \<Longrightarrow> ready i (new_record q i t v) {#}"
    "length (participants q) \<noteq> 1 \<Longrightarrow> in_round (new_record q i t v) (volume (new_record q i t v))"
proof -
  show sh: "shape i (new_record q i t v)" using assms by (simp add: shape_def new_record_def)
  show ac: "accounts (new_record q i t v) {#}" "\<not> cl_finished (new_record q i t v)"
    by (simp_all add: accounts_def new_record_def issued_def)
  show "ready i (new_record q i t v) {#}" if "length (participants q) = 1"
    using sh ac volume_bound(1) [OF sh] that by (simp add: ready_def) (simp add: new_record_def issued_def)
  have "2 \<le> length (participants q)" if "length (participants q) \<noteq> 1" using q(1) that by (cases "participants q") (auto simp: Suc_le_eq)
  then show "in_round (new_record q i t v) (volume (new_record q i t v))" if "length (participants q) \<noteq> 1"
    using that by (simp add: in_round_def new_record_def issued_def rounds_before_def)
qed

lemma submit_wp:
  assumes l: "ledger taken s n x" "steady {} x"
  shows "wp (collective_submit q) (kept taken) sound_exit (s, n, r, x)"
proof -
  have snd: "sound x" by (rule steady_all_sound [OF l(2)])
  have ok: "sim_ok s" using l(1) by (simp add: ledger_def storage_def)
  let ?i = "of_nat (length (ex_records x)) :: u64" and ?k = "participant_entries x + length (participants q)"
  have run: "wp (seq (seq (emit ?i a b d) (emit_counter ?i e f g))
      (seq (if length (participants q) = 1 then finish ?i else start_round ?i) (return ?i))) (kept taken) sound_exit
      (s, n, r, x\<lparr>ex_records := omap_put ?i (new_record q ?i t v) (ex_records x), participant_entries := ?k\<rparr>)"
    (is "wp _ _ _ (s, n, r, ?x)")
    if "planned_volume (of_nat (length (participants q))) (coll_bytes q) = Inr v" "participants q \<noteq> []" "length (participants q) \<le> 8192"
      "length (ex_records x) < maximum_collectives (ex_configuration x)" for a b d e f g t v
  proof -
    let ?c = "new_record q ?i t v"
    note c = new_record_ok [OF that(1-3), of ?i t]
    note en = enter_record [OF l that(4) refl c(3)]
    have rec: "map_of (ex_records ?x) ?i = Some ?c" "pool ?x ?i = {#}" using en(2) by simp_all
    have "sound ?x" by (rule steady_sound [OF en(4) rec(1) c(3)])
    moreover have "wp (seq (if length (participants q) = 1 then finish ?i else start_round ?i) (return ?i)) (kept taken) sound_exit (s', n, r, ?x)"
      if "stays (\<lambda>_. False) s s'" for s'
    proof (cases "length (participants q) = 1")
      case True
      then show ?thesis using finish_wp [OF ledger_stays [OF en(3) that] en(4) rec(1), of r] c(4) [OF True] rec(2)
        by (auto simp: wp_seq wp_if wp_return elim!: wp_mono)
    next
      case False
      then show ?thesis using start_round_wp [OF ledger_stays [OF en(3) that] en(4) rec(1) c(1), of r] c(2) c(5) [OF False] rec(2)
        by (auto simp: wp_seq wp_if wp_return new_record_def elim!: wp_mono)
    qed
    ultimately show ?thesis unfolding wp_seq [of "seq (emit ?i a b d) (emit_counter ?i e f g)"]
      by (intro wp_calm [OF calm.moves_seq [OF calm_emit(1) calm_emit(2)] ok]) auto
  qed
  have none: "map_of (ex_records x) ?i = None" if "length (ex_records x) < maximum_collectives (ex_configuration x)"
    by (rule enter_record(1) [OF l that refl, where c = "new_record q 0 0 0"]) (simp add: new_record_def)
  show ?thesis
    unfolding collective_submit_def new_record_def [symmetric]
    using run [unfolded seq_assoc] snd none
    by (auto simp: wp_seq [of "throw_if _ _"] wp_bind wp_throw_if wp_lift_res wp_executor_reads wp_get_gpus wp_context_now
        wp_seq [of "mod_executor _"] wp_mod_executor omap_emplace_def not_le not_less split: sum.split)
qed

section \<open>Runs\<close>

text \<open>
  What happens to an executor: its operations, as long as they return, and between them whatever the rest of
  the simulation does. That is constrained only by what the kernel and the transport keep: the kernel's
  invariant, identifiers that are not issued twice, and a topology of which only operational states change.
  Completions reported as successful have dropped nothing. The list holds the results drained so far.
\<close>

inductive collective_run :: "collective_configuration \<Rightarrow> collective_result list \<Rightarrow> collective_world \<Rightarrow> bool" for cfg where
  run_new: "new_executor cfg sink = Inr x \<Longrightarrow> sim_ok s \<Longrightarrow> collective_run cfg [] (s, n, r, x)"
| run_other: "collective_run cfg taken (s, n, r, x) \<Longrightarrow> sim_ok s' \<Longrightarrow>
     id_position (sim_event_ids s) \<le> id_position (sim_event_ids s') \<Longrightarrow> net_wiring n n' \<Longrightarrow> collective_run cfg taken (s', n', r', x)"
| run_submit: "collective_run cfg taken w \<Longrightarrow> collective_submit q w = (Inr i, w') \<Longrightarrow> collective_run cfg taken w'"
| run_cancel: "collective_run cfg taken w \<Longrightarrow> collective_cancel i w = (Inr (), w') \<Longrightarrow> collective_run cfg taken w'"
| run_local: "collective_run cfg taken w \<Longrightarrow> handle_local event w = (Inr (), w') \<Longrightarrow> collective_run cfg taken w'"
| run_transfer: "collective_run cfg taken w \<Longrightarrow> truthful t \<Longrightarrow> handle_transfer t w = (Inr (), w') \<Longrightarrow> collective_run cfg taken w'"
| run_take: "collective_run cfg taken w \<Longrightarrow> take_completed w = (Inr rs, w') \<Longrightarrow> collective_run cfg (taken @ rs) w'"

lemma kept_step:
  "kept taken u w \<Longrightarrow> (\<And>s n r x. w = (s, n, r, x) \<Longrightarrow> ledger taken s n x \<Longrightarrow> steady {} x \<Longrightarrow> wp m (kept taken) sound_exit (s, n, r, x)) \<Longrightarrow>
   m w = (Inr y, w') \<Longrightarrow> kept taken v w'"
  by (cases w) (auto dest: wp_normal)

lemma collective_run_kept:
  assumes "collective_run cfg taken w" "maximum_collectives cfg < 2 ^ 64"
  shows "kept taken () w"
  using assms(1)
proof induction
  case (run_new sink x s n r)
  then show ?case using assms(2)
    by (auto simp: new_executor_def ledger_def storage_def reported_def steady_def pool_def split: if_splits)
next
  case (run_other taken s n r x s' n' r')
  then have "storage s n x" by (simp add: ledger_def)
  then have "storage s' n' x" using run_other(2-4) unfolding storage_def net_wiring_def by (fastforce dest: order_less_le_trans)
  then show ?case using run_other by (simp add: ledger_def)
next
  case (run_submit taken w q i w')
  show ?case by (rule kept_step [OF run_submit.IH submit_wp run_submit(2)])
next
  case (run_cancel taken w i w')
  show ?case by (rule kept_step [OF run_cancel.IH cancel_wp run_cancel(2)])
next
  case (run_local taken w event w')
  show ?case by (rule kept_step [OF run_local.IH handle_local_wp run_local(2)])
next
  case (run_transfer taken w t w')
  show ?case by (rule kept_step [OF run_transfer.IH handle_transfer_wp run_transfer(3)]) (use run_transfer(2) in auto)
next
  case (run_take taken w rs w')
  obtain s n r x where w: "w = (s, n, r, x)" by (cases w)
  show ?case using wp_normal [OF take_wp run_take(2) [unfolded w], of taken] run_take.IH w by auto
qed

section \<open>Properties of the executor\<close>

text \<open>C5. The ring executor keeps its books. Whatever operations and completions an executor sees, and whatever
  the rest of the simulation does between them, every collective is reported at most once, and a reported
  result says truthfully what was issued and delivered: never more delivered than issued nor more issued than
  planned, and all of it when the outcome is success. A collective that is not complete waits for at least
  one transfer, its pending count is exactly the number of fabric transfers and local copies still out for it,
  and a complete one has been reported.\<close>

theorem collective_books:
  assumes "collective_run cfg taken (s, n, r, x)" "maximum_collectives cfg < 2 ^ 64"
  shows "distinct (map res_id (taken @ ex_completed x))
    \<and> (\<forall>res\<in>set (taken @ ex_completed x).
         res_outcome res \<in> {PhaseSucceeded, PhaseFailed, PhaseCancelled}
         \<and> unat (delivered_bytes res) \<le> unat (issued_fabric_bytes res) + unat (issued_local_bytes res)
         \<and> unat (issued_fabric_bytes res) + unat (issued_local_bytes res) \<le> unat (planned_bytes res)
         \<and> (res_outcome res = PhaseSucceeded \<longrightarrow> delivered_bytes res = planned_bytes res
              \<and> unat (issued_fabric_bytes res) + unat (issued_local_bytes res) = unat (planned_bytes res)))
    \<and> (\<forall>i pr. collective_snapshot x i = Some pr \<longrightarrow>
         pr_pending pr = length (filter (\<lambda>(_, p). pend_collective p = i) (ex_transfers x))
           + length (filter (\<lambda>(_, p). pend_collective (loc_transfer p) = i) (ex_locals x))
         \<and> (case pr_completion pr of None \<Rightarrow> 0 < pr_pending pr | Some res \<Rightarrow> res \<in> set (taken @ ex_completed x)))"
proof -
  have led: "storage s n x" and rep: "reported (taken @ ex_completed x) (ex_records x)" and st: "steady {} x"
    using collective_run_kept [OF assms] by (simp_all add: ledger_def)
  have settled: "settled i c (pool x i)" if "map_of (ex_records x) i = Some c" for i c using st that by (simp add: steady_def)
  have results: "res_outcome res \<in> {PhaseSucceeded, PhaseFailed, PhaseCancelled}
         \<and> unat (delivered_bytes res) \<le> unat (issued_fabric_bytes res) + unat (issued_local_bytes res)
         \<and> unat (issued_fabric_bytes res) + unat (issued_local_bytes res) \<le> unat (planned_bytes res)
         \<and> (res_outcome res = PhaseSucceeded \<longrightarrow> delivered_bytes res = planned_bytes res
              \<and> unat (issued_fabric_bytes res) + unat (issued_local_bytes res) = unat (planned_bytes res))"
    if "res \<in> set (taken @ ex_completed x)" for res
  proof -
    obtain c where c: "map_of (ex_records x) (res_id res) = Some c" "closed c" "cl_result c = res"
      using rep \<open>res \<in> set (taken @ ex_completed x)\<close> unfolding reported_def by blast
    then show ?thesis using settled [OF c(1)] by (auto simp: settled_def closed_def accounts_def issued_def)
  qed
  have progress: "pr_pending pr = length (filter (\<lambda>(_, p). pend_collective p = i) (ex_transfers x))
           + length (filter (\<lambda>(_, p). pend_collective (loc_transfer p) = i) (ex_locals x))
         \<and> (case pr_completion pr of None \<Rightarrow> 0 < pr_pending pr | Some res \<Rightarrow> res \<in> set (taken @ ex_completed x))"
    if pr: "collective_snapshot x i = Some pr" for i pr
  proof -
    obtain c where c: "map_of (ex_records x) i = Some c" and p: "pr_pending pr = cl_pending c"
        "pr_completion pr = (if cl_finished c then Some (cl_result c) else None)"
      using pr by (auto simp: collective_snapshot_def)
    have "size (pool x i) = length (filter (\<lambda>(_, p). pend_collective p = i) (ex_transfers x))
        + length (filter (\<lambda>(_, p). pend_collective (loc_transfer p) = i) (ex_locals x))"
      unfolding pool_def filter_union_mset size_union size_filter_image by (simp add: split_beta')
    moreover have "cl_pending c = size (pool x i)" "\<not> cl_finished c \<Longrightarrow> 0 < cl_pending c"
      using settled [OF c] by (auto simp: settled_def accounts_def closed_def)
    moreover have "cl_finished c \<Longrightarrow> cl_result c \<in> set (taken @ ex_completed x)" using rep c unfolding reported_def by blast
    ultimately show ?thesis using p by simp
  qed
  have "distinct (map res_id (taken @ ex_completed x))" using rep unfolding reported_def by (rule conjunct1)
  then show ?thesis using results progress by blast
qed


text \<open>Two GPUs on one NIC; the first round of a collective over them consists of two local copies.\<close>

definition example_gpus :: topology_graph where
  "example_gpus = fold graph_call_step [CallAddRack, CallAddLeaf 0, CallAddNic 0,
     CallConnect (NodeId Nic 0) FabricUplink (NodeId Switch 0) FabricDownlink, CallAddGpu 0, CallAddGpu 0] empty_graph"

definition example_executor :: collective_configuration where
  "example_executor = \<lparr>local_bandwidth = 8, local_latency = 1, maximum_collectives = 2, maximum_participant_entries = 4,
     maximum_timeline_entries = 5\<rparr>"

definition example_cluster :: "exn + collective_world" where
  "example_cluster =
     bindR (new_transport example_gpus [] \<lparr>maximum_chunks = 10, maximum_route_entries = 20, maximum_route_hops = 4\<rparr> False) (\<lambda>n.
     bindR new_policy_registry (\<lambda>reg.
     bindR (new_router example_gpus reg example_routing False) (\<lambda>r.
     bindR (new_executor example_executor False) (\<lambda>x.
     Inr (example_simulation, n, r, x)))))"

definition example_collective :: collective_request where
  "example_collective = \<lparr>participants = [0, 1], coll_bytes = 10, coll_chunk_bytes = 4\<rparr>"

lemma example_collective_runs:
  "case example_cluster of
     Inl e \<Rightarrow> False
   | Inr w \<Rightarrow> (case collective_submit example_collective w of
        (Inr i, (s, n, r, x)) \<Rightarrow> map_option pr_pending (collective_snapshot x i) = Some 2
      | _ \<Rightarrow> False)"
  by code_simp

lemma example_collective_run:
  obtains w i s n r x where "example_cluster = Inr w" "collective_run example_executor [] w"
    "collective_submit example_collective w = (Inr i, (s, n, r, x))" "map_option pr_pending (collective_snapshot x i) = Some 2"
proof -
  have "example_cluster \<noteq> Inl e" for e using example_collective_runs by (metis sum.simps(5))
  then obtain w where w: "example_cluster = Inr w" by (metis obj_sumE)
  then obtain n r x where e: "w = (example_simulation, n, r, x)" "new_executor example_executor False = Inr x"
    by (auto simp: example_cluster_def bindR_def split: sum.splits)
  have run: "collective_run example_executor [] w" unfolding e(1) by (rule run_new [OF e(2) example_simulation_ok(1)])
  have "case collective_submit example_collective w of
      (Inr i, (s, n, r, x)) \<Rightarrow> map_option pr_pending (collective_snapshot x i) = Some 2 | _ \<Rightarrow> False"
    using example_collective_runs unfolding w by simp
  then show thesis using that [OF w run] by (auto split: prod.splits sum.splits)
qed

theorem collective_books_witness:
  "\<exists>w i s n r x. example_cluster = Inr w \<and> collective_submit example_collective w = (Inr i, (s, n, r, x))
     \<and> (\<exists>pr. collective_snapshot x i = Some pr \<and> pr_pending pr = 2
          \<and> length (filter (\<lambda>(_, p). pend_collective p = i) (ex_transfers x))
            + length (filter (\<lambda>(_, p). pend_collective (loc_transfer p) = i) (ex_locals x)) = 2)"
proof -
  obtain w i s n r x where e: "example_cluster = Inr w" "collective_run example_executor [] w"
    "collective_submit example_collective w = (Inr i, (s, n, r, x))" "map_option pr_pending (collective_snapshot x i) = Some 2"
    by (rule example_collective_run)
  have bound: "maximum_collectives example_executor < 2 ^ 64" by (simp add: example_executor_def)
  obtain pr where pr: "collective_snapshot x i = Some pr" "pr_pending pr = 2" using e(4) by auto
  with collective_books [OF run_submit [OF e(2,3)] bound] have "length (filter (\<lambda>(_, p). pend_collective p = i) (ex_transfers x))
      + length (filter (\<lambda>(_, p). pend_collective (loc_transfer p) = i) (ex_locals x)) = 2" by metis
  then show ?thesis using e(1,3) pr by blast
qed


end
