(* ===== verification/Workload_Correct.thy ===== *)
theory Workload_Correct
  imports Workload_Books Collective_Correct
begin

text \<open>
  Runs of the training composition: the engine, the ring executor and the transport under the dispatcher. The
  books hold in every run, and the dispatcher's loop ends with every result handed on.
\<close>

section \<open>The pump\<close>

lemma aside_pump_transfers: "aside pump_transfers"
  unfolding pump_transfers_def aside_def by (intro aside.moves_rules aside_zooms [unfolded aside_def])

lemma ewp_wp: "ewp m R (engine_of w) \<Longrightarrow> wp m (\<lambda>x w'. R x (engine_of w')) (\<lambda>_ _. True) w"
  unfolding ewp_def by blast

text \<open>What the last round leaves: no result in the executor, no admission due.\<close>

definition drained :: "training_world \<Rightarrow> bool" where
  "drained w \<longleftrightarrow> (case w of (s, n, r, x, g) \<Rightarrow> ex_completed x = [] \<and> (admission_pending g \<longrightarrow> en_inventory g = None))"

lemma gather_wp:
  assumes "books taken (engine_of w)"
  shows "wp gather (\<lambda>_ w'. books taken (engine_of w') \<and> load (engine_of w') \<le> load (engine_of w) \<and> drained w') (\<lambda>_ _. True) w"
proof -
  have flag: "ewp dispatch_waiting (\<lambda>_ g'. admission_pending g' \<longrightarrow> en_inventory g' = None) (engine_of w)"
    unfolding dispatch_waiting_def
    by (intro ewp_bind ewp_get ewp_perform_if ewp_seq ewp_mod) (auto intro!: ewpI wp_mono [OF wp_True] ewp_mod)
  have take: "wp (in_collective take_completed) (\<lambda>_ w'. engine_of w' = engine_of v \<and> (case w' of (s, n, r, x, g) \<Rightarrow> ex_completed x = [])) (\<lambda>_ _. True) v" for v
    by (auto simp: in_collective_def take_completed_def get_executor_def mod_executor_def wp_simps split: prod.splits)
  have "wp dispatch_waiting (\<lambda>_ w'. (books taken (engine_of w') \<and> jobs_weight (engine_of w') \<le> jobs_weight (engine_of w)
      \<and> en_collectives (engine_of w') = en_collectives (engine_of w)) \<and> (admission_pending (engine_of w') \<longrightarrow> en_inventory (engine_of w') = None))
      (\<lambda>_ _. True \<and> True) w"
    by (rule wp_conj [OF ewp_wp [OF dispatch_settled [OF assms]] ewp_wp [OF flag]])
  then show ?thesis
    unfolding gather_def wp_seq
    by (rule wp_mono) (rule wp_mono [OF take], auto simp: drained_def load_def)
qed

lemma results_books:
  assumes "books taken g"
  shows "ewp (for_each handle_result rs) (\<lambda>_ g'. books taken g' \<and> load g' \<le> load g \<and> (rs \<noteq> [] \<longrightarrow> load g' < load g)) g"
proof (cases rs)
  case Nil
  then show ?thesis using assms by (simp add: ewp_return)
next
  case (Cons c cs)
  have rest: "ewp (for_each handle_result cs) (\<lambda>_ h. books taken h \<and> load h < load g) g'" if "books taken g' \<and> load g' < load g" for g'
    by (rule ewp_for_each [where I = "\<lambda>h. books taken h \<and> load h < load g"]) (use that in \<open>auto intro: ewp_mono [OF result_books]\<close>)
  have "ewp (for_each handle_result rs) (\<lambda>_ h. books taken h \<and> load h < load g) g"
    unfolding Cons for_each.simps by (rule ewp_seq, rule ewp_mono [OF result_books [OF assms]], rule rest)
  then show ?thesis by (rule ewp_mono) simp
qed

lemma round_wp:
  assumes "books taken (engine_of w)" "c \<noteq> []"
  shows "wp pump_round (\<lambda>_ (w', c'). books taken (engine_of w') \<and> load (engine_of w') < load (engine_of w) \<and> drained w') (\<lambda>_ _. True) (w, c)"
proof -
  have g: "wp gather (\<lambda>_ w'. books taken (engine_of w') \<and> load (engine_of w') < load (engine_of w) \<and> drained w') (\<lambda>_ _. True) v"
    if "books taken (engine_of v)" "load (engine_of v) < load (engine_of w)" for v
    by (rule wp_mono [OF gather_wp [OF that(1)]]) (use that(2) in auto)
  have "wp (for_each handle_result c) (\<lambda>_ v. wp gather (\<lambda>_ w'. books taken (engine_of w') \<and> load (engine_of w') < load (engine_of w) \<and> drained w') (\<lambda>_ _. True) v)
      (\<lambda>_ _. True) w"
    by (rule wp_mono [OF ewp_wp [OF results_books [OF assms(1)]]]) (use assms(2) g in auto)
  then show ?thesis unfolding pump_round_def by (simp add: wp_simps)
qed

text \<open>One turn of the loop, which stands still once the loop is left.\<close>

definition pump_turn :: "(exn + unit) \<times> training_world \<times> collective_result list \<Rightarrow> (exn + unit) \<times> training_world \<times> collective_result list" where
  "pump_turn st = (case st of (r, w, c) \<Rightarrow> if r = Inr () \<and> c \<noteq> [] then pump_round (w, c) else st)"

lemma turn_stands: "r \<noteq> Inr () \<or> c = [] \<Longrightarrow> (pump_turn ^^ k) (r, w, c) = (r, w, c)"
  by (induction k) (auto simp: pump_turn_def)

lemma turns_end:
  assumes "books taken (engine_of w)" "load (engine_of w) < k"
  shows "case (pump_turn ^^ k) (Inr (), w, c) of (r, w', c') \<Rightarrow> r \<noteq> Inr () \<or> c' = []"
  using assms
proof (induction k arbitrary: w c)
  case (Suc k)
  show ?case
  proof (cases "c = []")
    case True
    then show ?thesis using turn_stands [of "Inr ()" c "Suc k" w] by simp
  next
    case False
    obtain r w' c' where e: "pump_round (w, c) = (r, w', c')" by (metis surj_pair)
    then have turn: "(pump_turn ^^ Suc k) (Inr (), w, c) = (pump_turn ^^ k) (r, w', c')"
      using False by (simp add: funpow_swap1 pump_turn_def)
    show ?thesis
    proof (cases r)
      case (Inl x)
      then show ?thesis unfolding turn using turn_stands [of r c' k w'] by simp
    next
      case (Inr u)
      with e have "books taken (engine_of w')" "load (engine_of w') < load (engine_of w)"
        using wp_normal [OF round_wp [OF Suc.prems(1) False]] by auto
      then show ?thesis unfolding turn using Suc.IH [of w' c'] Suc.prems(2) Inr by simp
    qed
  qed
qed simp

lemma pump_wp:
  assumes "books taken (engine_of w)"
  shows "wp pump (\<lambda>_ w'. books taken (engine_of w') \<and> drained w') (\<lambda>_ _. True) w"
proof -
  have loop: "wp (pump_loop c) (\<lambda>_ w'. books taken (engine_of w') \<and> drained w') (\<lambda>_ _. True) v"
    if "books taken (engine_of v) \<and> drained v" for v c
  proof -
    have "wp (while_prog (\<lambda>(w, c). c \<noteq> []) pump_round) (\<lambda>_ (w, c). books taken (engine_of w) \<and> drained w) (\<lambda>_ _. True) (v, c)"
      by (rule wp_while_prog [where I = "\<lambda>(w, c). books taken (engine_of w) \<and> drained w" and f = "\<lambda>(w, c). load (engine_of w)"])
        (use that in \<open>auto intro: wp_mono [OF round_wp]\<close>)
    then show ?thesis by (auto simp: pump_loop_def wp_def split: prod.splits sum.splits)
  qed
  have "wp gather (\<lambda>c. wp (pump_loop c) (\<lambda>_ w'. books taken (engine_of w') \<and> drained w') (\<lambda>_ _. True)) (\<lambda>_ _. True) v"
    if "books taken (engine_of v)" for v
    by (rule wp_mono [OF gather_wp [OF that]]) (auto intro: loop)
  then show ?thesis
    unfolding pump_def wp_seq wp_bind
    by (intro wp_mono [OF movesD [OF aside_pump_transfers [unfolded aside_def] TrueI]]) (use assms in auto)
qed

lemma dispatch_wp:
  assumes "books taken (engine_of w)"
  shows "wp (training_dispatch e) (\<lambda>_ w'. books taken (engine_of w') \<and> drained w') (\<lambda>_ _. True) w"
proof -
  have ev: "wp (seq (handle_workload i k a b c) pump) (\<lambda>_ w'. books taken (engine_of w') \<and> drained w') (\<lambda>_ _. True) w" for i k a b c
    unfolding wp_seq by (rule wp_mono [OF ewp_wp [OF event_books [OF assms]]]) (auto intro: pump_wp)
  have other: "wp (seq m pump) (\<lambda>_ w'. books taken (engine_of w') \<and> drained w') (\<lambda>_ _. True) w" if "aside m" for m
    unfolding wp_seq by (rule wp_mono [OF movesD [OF that [unfolded aside_def] TrueI]]) (use assms in \<open>auto intro: pump_wp\<close>)
  show ?thesis by (cases e) (simp_all add: ev other aside_zooms wp_throw)
qed

section \<open>Runs\<close>

text \<open>
  The states a training composition reaches: a new engine on a graph that building operations made, new jobs, events, taken reports, and
  whatever happens outside the engine between them. The list holds the reports taken so far.
\<close>

inductive training_run :: "workload_limits \<Rightarrow> job_snapshot list \<Rightarrow> training_world \<Rightarrow> bool" for lims where
  train_new: "new_engine (fold graph_call_step gcs empty_graph) lims sc pol sink = Inr g \<Longrightarrow> training_run lims [] (s, n, r, x, g)"
| train_schedule: "training_run lims taken w \<Longrightarrow> schedule_job spec w = (Inr i, w') \<Longrightarrow> training_run lims taken w'"
| train_event: "training_run lims taken w \<Longrightarrow> training_dispatch e w = (Inr (), w') \<Longrightarrow> training_run lims taken w'"
| train_take: "training_run lims taken w \<Longrightarrow> take_jobs w = (Inr l, w') \<Longrightarrow> training_run lims (taken @ l) w'"
| train_other: "training_run lims taken w \<Longrightarrow> engine_of w' = engine_of w \<Longrightarrow> training_run lims taken w'"

lemma run_books:
  assumes "training_run lims taken w" "lim_jobs lims < 2 ^ 64"
  shows "books taken (engine_of w)"
  using assms
proof (induction rule: training_run.induct)
  case (train_new gcs sc pol sink g s n r x)
  then show ?case using new_books [OF train_new(1) graph_calls_ok [OF empty_graph_ok]] by simp
next
  case (train_schedule taken w spec i w')
  then show ?case using ewpD [OF schedule_books refl] by blast
next
  case (train_event taken w e w')
  then show ?case using wp_normal [OF dispatch_wp] by blast
next
  case (train_take taken w l w')
  then show ?case using ewpD [OF take_books refl] by blast
qed simp

text \<open>C7. In every run of the training composition two jobs that hold GPUs hold different ones; each GPU of such a job is
  assigned to it in the engine's map, and the scheduler's inventory, if there is one, names the job as its owner.\<close>

theorem gpu_exclusive:
  assumes "training_run lims taken (s, n, r, x, g)" "lim_jobs lims < 2 ^ 64"
    and "map_of (en_jobs g) i = Some a" "jb_assigned a" "\<not> terminal (jb_state a)"
    and "map_of (en_jobs g) k = Some b" "jb_assigned b" "\<not> terminal (jb_state b)" and "i \<noteq> k"
  shows "set (workers (jb_spec a)) \<inter> set (workers (jb_spec b)) = {}
    \<and> (\<forall>w\<in>set (workers (jb_spec a)). map_of (assignments g) w = Some i)
    \<and> (\<forall>rs q. en_inventory g = Some rs \<longrightarrow> q \<in> set rs \<longrightarrow> res_gpu q \<in> set (workers (jb_spec a)) \<longrightarrow> owner q = Some i)"
proof -
  have b: "books taken g" using run_books [OF assms(1,2)] by simp
  have h: "holder (en_jobs g) w i \<longleftrightarrow> w \<in> set (workers (jb_spec a))" "holder (en_jobs g) w k \<longleftrightarrow> w \<in> set (workers (jb_spec b))" for w
    using assms by (auto simp: holder_def)
  have m: "map_of (assignments g) w = Some q \<longleftrightarrow> holder (en_jobs g) w q" for w q using b by (simp add: books_def holdings_ok_def)
  have "set (workers (jb_spec a)) \<inter> set (workers (jb_spec b)) = {}"
    using m [of _ i] m [of _ k] h assms(9) by (auto, metis option.inject)
  then show ?thesis using b m h by (auto simp: books_def stocked_def)
qed

text \<open>C8. In every run each job that has ended was reported exactly once, no other job was, and a report stays the
  snapshot of its job at every later time.\<close>

theorem job_reports_final:
  assumes "training_run lims taken (s, n, r, x, g)" "lim_jobs lims < 2 ^ 64"
  shows "distinct (map js_id (taken @ en_completed g))
    \<and> (\<forall>i. i \<in> js_id ` set (taken @ en_completed g) \<longleftrightarrow> (\<exists>j. map_of (en_jobs g) i = Some j \<and> terminal (jb_state j)))
    \<and> (\<forall>u\<in>set (taken @ en_completed g). \<forall>t. job_snapshot_of g (js_id u) t = Inr (Some u))"
proof -
  have r: "reports_ok taken g" using run_books [OF assms] by (simp add: books_def)
  have "job_snapshot_of g (js_id u) t = Inr (Some u)" if "u \<in> set (taken @ en_completed g)" for u t
  proof -
    have "\<exists>j. map_of (en_jobs g) (js_id u) = Some j \<and> (\<forall>t. inspect j t = Inr u)" using r that unfolding reports_ok_def by blast
    then show ?thesis by (auto simp: job_snapshot_of_def bindR_def)
  qed
  then show ?thesis using r unfolding reports_ok_def by blast
qed

text \<open>C9. The dispatcher's loop over the results of collectives ends from every state of a run, after at most one turn
  more than the load of the engine: the buckets its jobs still have to reduce, and the collectives under way.\<close>

theorem pump_ends:
  assumes "training_run lims taken (s, n, r, x, g)" "lim_jobs lims < 2 ^ 64"
  shows "\<exists>k \<le> load g + 1. case (pump_turn ^^ k) (Inr (), (s, n, r, x, g), completed) of (res, w, c) \<Rightarrow> res \<noteq> Inr () \<or> c = []"
  using turns_end [of taken "(s, n, r, x, g)" "load g + 1" completed] run_books [OF assms] by (intro exI [of _ "load g + 1"]) simp


section \<open>An example\<close>

definition example_limits :: workload_limits where
  "example_limits = \<lparr>lim_jobs = 4, lim_worker_entries = 8, lim_compute_event_entries = 8, lim_workers_per_job = 2, lim_steps_per_job = 2,
     lim_buckets_per_step = 2, lim_compute_events_per_job = 4, lim_timeline_entries = 20\<rparr>"

definition example_job :: "gpu_id \<Rightarrow> job_spec" where
  "example_job w = \<lparr>spec_name = ''job'', workers = [w], requested_workers = 0, compute = [2], arrival = 0, steps = 1,
     gradient_bytes = 4, bucket_bytes = 4, chunk_bytes = 4, spec_job_priority = 0, overlap = False,
     spec_collective = AllReduce, spec_algorithm = Ring\<rparr>"

definition example_training :: "exn + training_world" where
  "example_training =
     bindR example_cluster (\<lambda>(s, n, r, x).
     bindR (new_engine example_gpus example_limits None None False) (\<lambda>g.
     Inr (s, n, r, x, g)))"

text \<open>The event a handler runs under, at its time.\<close>

definition under_event :: "event_id \<Rightarrow> sim_time \<Rightarrow> event_payload \<Rightarrow> training_world \<Rightarrow> training_world" where
  "under_event e t p w = (case w of (s, parts) \<Rightarrow>
     (s\<lparr>sim_now := t, current_event := Some \<lparr>timestamp = t, priority = Normal, event_id = e, cause = None, payload = p\<rparr>\<rparr>, parts))"

text \<open>The state after a program that ends normally.\<close>

definition outcome :: "('s, 'a) prog \<Rightarrow> 's \<Rightarrow> exn + 's" where
  "outcome m w = (case m w of (Inl e, _) \<Rightarrow> Inl e | (Inr _, w') \<Rightarrow> Inr w')"

lemma outcome_Inr: "outcome m w = Inr w' \<longleftrightarrow> (\<exists>x. m w = (Inr x, w'))"
  by (auto simp: outcome_def split: prod.splits sum.splits)

definition example_step :: "event_id \<Rightarrow> sim_time \<Rightarrow> event_payload \<Rightarrow> exn + training_world \<Rightarrow> exn + training_world" where
  "example_step e t p r = bindR r (\<lambda>w. outcome (training_dispatch p) (under_event e t p w))"

definition example_two :: "exn + training_world" where
  "example_two = bindR example_training (\<lambda>w. bindR (outcome (schedule_job (example_job 0)) w) (outcome (schedule_job (example_job 1))))"

text \<open>Two jobs arrive; then the first one computes its step and ends.\<close>

definition example_arrived :: "exn + training_world" where
  "example_arrived = example_step 1 0 (WorkloadEvent 1 Arrival 0 0 0) (example_step 0 0 (WorkloadEvent 0 Arrival 0 0 0) example_two)"

definition example_computed :: "exn + training_world" where
  "example_computed = example_step 2 2 (WorkloadEvent 0 ComputeReady 0 0 0) example_arrived"

lemma example_arrived_jobs:
  "case example_arrived of
     Inl e \<Rightarrow> False
   | Inr w \<Rightarrow> map (\<lambda>(i, j). (i, jb_assigned j, jb_state j, workers (jb_spec j))) (en_jobs (engine_of w))
       = [(0, True, StateComputing, [0]), (1, True, StateComputing, [1])]"
  by code_simp

lemma example_computed_jobs:
  "case example_computed of
     Inl e \<Rightarrow> False
   | Inr w \<Rightarrow> map (jb_state \<circ> snd) (en_jobs (engine_of w)) = [StateSucceeded, StateComputing] \<and> map js_id (en_completed (engine_of w)) = [0]"
  by code_simp

lemma example_training_run:
  assumes "example_training = Inr w"
  shows "training_run example_limits [] w"
proof -
  obtain s n r x g where w: "w = (s, n, r, x, g)" and g: "new_engine example_gpus example_limits None None False = Inr g"
    using assms by (auto simp: example_training_def bindR_def split: sum.splits prod.splits)
  show ?thesis unfolding w by (rule training_run.train_new [OF g [unfolded example_gpus_def]])
qed

lemma example_two_run: "example_two = Inr w \<Longrightarrow> training_run example_limits [] w"
  unfolding example_two_def bindR_eq_Inr outcome_Inr
  by (elim exE conjE, drule example_training_run) (blast intro: training_run.train_schedule)

lemma under_event_engine: "engine_of (under_event e t p w) = engine_of w"
  by (simp add: under_event_def split: prod.split)

lemma example_step_dispatch:
  "example_step e t p r = Inr w' \<Longrightarrow> \<exists>w. r = Inr w \<and> training_dispatch p (under_event e t p w) = (Inr (), w')"
  unfolding example_step_def bindR_eq_Inr outcome_Inr by auto

lemma example_step_run:
  assumes "example_step e t p r = Inr w'" "\<And>w. r = Inr w \<Longrightarrow> training_run lims taken w"
  shows "training_run lims taken w'"
proof -
  obtain w where w: "r = Inr w" "training_dispatch p (under_event e t p w) = (Inr (), w')"
    using example_step_dispatch [OF assms(1)] by (elim exE conjE)
  have "training_run lims taken (under_event e t p w)" by (rule training_run.train_other [OF assms(2) [OF w(1)] under_event_engine])
  then show ?thesis by (rule training_run.train_event [OF _ w(2)])
qed

lemma example_runs:
  "example_arrived = Inr w \<Longrightarrow> training_run example_limits [] w"
  "example_computed = Inr w \<Longrightarrow> training_run example_limits [] w"
proof -
  show a: "example_arrived = Inr w \<Longrightarrow> training_run example_limits [] w" for w
    unfolding example_arrived_def using example_step_run example_two_run by blast
  show "example_computed = Inr w \<Longrightarrow> training_run example_limits [] w"
    unfolding example_computed_def using example_step_run a by blast
qed

lemma example_limits_bound: "lim_jobs example_limits < 2 ^ 64"
  by (simp add: example_limits_def)

lemma example_arrived_world:
  obtains s n r x g where "example_arrived = Inr (s, n, r, x, g)" "training_run example_limits [] (s, n, r, x, g)"
    "map (\<lambda>(i, j). (i, jb_assigned j, jb_state j, workers (jb_spec j))) (en_jobs g) = [(0, True, StateComputing, [0]), (1, True, StateComputing, [1])]"
proof -
  obtain w where w: "example_arrived = Inr w"
  proof (cases example_arrived)
    case (Inl e)
    show thesis using example_arrived_jobs unfolding Inl sum.case by (rule FalseE)
  qed (rule that)
  obtain s n r x g where e: "w = (s, n, r, x, g)" by (cases w)
  have "map (\<lambda>(i, j). (i, jb_assigned j, jb_state j, workers (jb_spec j))) (en_jobs g) = [(0, True, StateComputing, [0]), (1, True, StateComputing, [1])]"
    using example_arrived_jobs unfolding w sum.case e snd_conv .
  then show thesis by (rule that [OF w [unfolded e] example_runs(1) [OF w, unfolded e]])
qed

lemma example_computed_world:
  obtains s n r x g where "example_computed = Inr (s, n, r, x, g)" "training_run example_limits [] (s, n, r, x, g)"
    "map js_id (en_completed g) = [0]"
proof -
  obtain w where w: "example_computed = Inr w"
  proof (cases example_computed)
    case (Inl e)
    show thesis using example_computed_jobs unfolding Inl sum.case by (rule FalseE)
  qed (rule that)
  obtain s n r x g where e: "w = (s, n, r, x, g)" by (cases w)
  have "map js_id (en_completed g) = [0]" using example_computed_jobs unfolding w sum.case e snd_conv by (rule conjunct2)
  then show thesis by (rule that [OF w [unfolded e] example_runs(2) [OF w, unfolded e]])
qed

theorem gpu_exclusive_witness:
  "\<exists>s n r x g a b. example_arrived = Inr (s, n, r, x, g) \<and> map_of (en_jobs g) 0 = Some a \<and> map_of (en_jobs g) 1 = Some b
     \<and> workers (jb_spec a) = [0] \<and> workers (jb_spec b) = [1] \<and> map_of (assignments g) 0 = Some 0"
proof -
  obtain s n r x g where w: "example_arrived = Inr (s, n, r, x, g)" "training_run example_limits [] (s, n, r, x, g)"
    "map (\<lambda>(i, j). (i, jb_assigned j, jb_state j, workers (jb_spec j))) (en_jobs g) = [(0, True, StateComputing, [0]), (1, True, StateComputing, [1])]"
    by (rule example_arrived_world)
  then obtain a b where ab: "en_jobs g = [(0, a), (1, b)]" "jb_assigned a" "jb_state a = StateComputing" "workers (jb_spec a) = [0]"
    "jb_assigned b" "jb_state b = StateComputing" "workers (jb_spec b) = [1]" by (auto simp: map_eq_Cons_conv)
  have "map_of (assignments g) 0 = Some 0"
    using gpu_exclusive [OF w(2) example_limits_bound, of 0 a 1 b] ab by (simp add: terminal_def)
  then show ?thesis using w(1) ab by (intro exI conjI) (assumption | simp)+
qed

theorem job_reports_final_witness:
  "\<exists>s n r x g u. example_computed = Inr (s, n, r, x, g) \<and> en_completed g = [u] \<and> job_snapshot_of g 0 2 = Inr (Some u) \<and> job_snapshot_of g 0 100 = Inr (Some u)"
proof -
  obtain s n r x g where w: "example_computed = Inr (s, n, r, x, g)" "training_run example_limits [] (s, n, r, x, g)" "map js_id (en_completed g) = [0]"
    by (rule example_computed_world)
  then obtain u where u: "en_completed g = [u]" "js_id u = 0" by auto
  have "job_snapshot_of g 0 t = Inr (Some u)" for t using job_reports_final [OF w(2) example_limits_bound] u by simp
  then show ?thesis using w(1) u by blast
qed

theorem pump_ends_witness:
  "\<exists>s n r x g k. example_computed = Inr (s, n, r, x, g) \<and> k \<le> load g + 1
     \<and> (case (pump_turn ^^ k) (Inr (), (s, n, r, x, g), []) of (res, w, c) \<Rightarrow> res \<noteq> Inr () \<or> c = [])"
proof -
  obtain s n r x g where w: "example_computed = Inr (s, n, r, x, g)" "training_run example_limits [] (s, n, r, x, g)"
    by (rule example_computed_world)
  from pump_ends [OF w(2) example_limits_bound, of "[]"] obtain k where "k \<le> load g + 1"
    "case (pump_turn ^^ k) (Inr (), (s, n, r, x, g), []) of (res, w, c) \<Rightarrow> res \<noteq> Inr () \<or> c = []" by (elim exE conjE)
  with w(1) show ?thesis by (intro exI conjI)
qed


end
