(* ===== verification/Spec2Isabelle.thy ===== *)
theory Spec2Isabelle
  imports Metric_Catalog Transport_Correct Ring_Plan Placement Workload_Times Workload_Correct
begin

text \<open>
  A verification development for NexusLab, a deterministic discrete-event simulator of training clusters. File
  names below are relative to \<^verbatim>\<open>src/simulator/include/nexuslab\<close> (headers) and \<^verbatim>\<open>src/simulator/src\<close> (sources).

  \<^bold>\<open>The program.\<close> A simulation kernel keeps a queue of events ordered by time, priority and identifier and hands
  them one at a time to a dispatcher. Handlers schedule and cancel further events through a context, report
  telemetry and append to a trace. The components on top of the kernel are: a topology graph of racks, GPUs, NICs,
  switches and links; a transport that cuts transfers into chunks and moves them over the queues of directed
  links; a router that enumerates shortest fabric paths and picks one by a policy; an executor that carries out
  ring all-reduce collectives over routed transfers and local copies; a scheduler that places jobs on free GPUs;
  and a workload engine that takes jobs from arrival through training steps to their report. A dispatcher drives
  engine, executor and transport with the events of the kernel and hands completed transfers to the executor and
  completed collectives to the engine until none is left.

  \<^bold>\<open>How the code is modelled.\<close> \<open>Prelude\<close> holds the vocabulary. A member function that may mutate and may throw is a
  \<open>('s, 'a) prog\<close>: from a state it gives an exception or a value together with the state it leaves, so that the
  effects made before a throw are kept, as in C++. Structs are records, enumerations and variants are datatypes.
  Machine integers the code computes with are words of their width, and the sources' overflow checks are written out
  on them; sizes are natural numbers, with \<open>size_sub\<close> for the subtractions that may wrap. Ordered maps the
  sources iterate over are association lists kept sorted by key (\<open>omap\<close>), which gives iteration the order of the
  source; the hash tables of the kernel, which are only looked up, are maps and sets. A reference or pointer into a container is the key it was looked up with. The telemetry session is part of the
  state of the simulation, and the optional sink of a component is whether it has one. Virtual policies and the
  dispatcher of the kernel are parameters of the definitions that call them, so theorems on these hold for every
  policy or handler. \<^verbatim>\<open>std::mt19937_64\<close> is defined as the standard fixes it.

  \<^bold>\<open>Theories and sources.\<close>

  \<^item> \<open>Time_Ids\<close>: \<^verbatim>\<open>sim/time.hpp\<close>, \<^verbatim>\<open>sim/event_id\<close>, \<^verbatim>\<open>topology/id.hpp\<close>, \<^verbatim>\<open>transport/types.hpp\<close>. Checked time
    arithmetic and the three identifier generators.
  \<^item> \<open>Rng\<close>: \<^verbatim>\<open>sim/deterministic_rng\<close>. The engine, counted draws and bounded draws by rejection (C32).
  \<^item> \<open>Trace\<close>, \<open>Event_Queue\<close>, \<open>Simulation\<close>, \<open>Handlers\<close>: \<^verbatim>\<open>sim/event.hpp\<close>, \<^verbatim>\<open>sim/trace\<close>, \<^verbatim>\<open>sim/event_queue\<close>,
    \<^verbatim>\<open>sim/simulation\<close>, \<^verbatim>\<open>workload/events.hpp\<close>. The record \<open>simulation\<close> has the queue, the pending and cancelled
    identifiers, the clock, the counters, the trace and the session; \<open>schedule\<close>, \<open>cancel\<close>, \<open>stop\<close> and the
    dispatch loop are its operations. Shown: the kernel's invariant and its accounting of identifiers, which
    event is dispatched next, when requests are refused, the order of the queue and the digest (C17 to C21, C31).
  \<^item> \<open>Metrics\<close>, \<open>Metric_Catalog\<close>, \<open>Telemetry_Records\<close>, \<open>Summary\<close>, \<open>Session\<close>: the files of \<^verbatim>\<open>telemetry\<close> but its
    serialization. The compiled-in catalog passes its own validation; updates validate first and then cannot
    fail; the time of a job is attributed without gaps; samples fall on their boundaries (C26 to C30).
  \<^item> \<open>Entities\<close>, \<open>Topology_Graph\<close>, \<open>Walks\<close>, \<open>Shortest_Paths\<close>, \<open>Fabric\<close>: \<^verbatim>\<open>topology/entities\<close> and
    \<^verbatim>\<open>topology/graph\<close>. The record \<open>topology_graph\<close> holds the entities in creation order and the adjacency of each node.
    Building operations are refused in exactly the stated cases and keep the graph well formed and simple, the
    revision tells operational changes, and the breadth-first search counts shortest paths (C14, C22 to C25).
  \<^item> \<open>Timing\<close>, \<open>Link_Queue\<close>, \<open>Link_Service\<close>, \<open>Transport\<close>: the files of \<^verbatim>\<open>transport\<close>. The record \<open>network\<close> has the
    transfers, chunks and link services; registration, submission, the handlers of arrivals, completions and
    state changes, failure handling and snapshots are its operations. \<open>Transport_Frame\<close> and \<open>Transport_Wiring\<close> say
    what operations leave alone, \<open>Transport_Run\<close> that runs end, \<open>Transport_Accounting\<close> and \<open>Transport_Coherence\<close>
    are the invariants, \<open>Transport_Liveness\<close>, \<open>Transport_Submission\<close> and \<open>Transport_Correct\<close> draw the conclusions:
    every run returns, and after a completed one every transfer is accounted for to the byte (C1 to C3, C33, C35,
    C36).
  \<^item> \<open>Path_Service\<close>, \<open>Routing_Policy\<close>, \<open>Router\<close>, \<open>Router_Correct\<close>: the files of \<^verbatim>\<open>routing\<close>. The enumeration is
    exact, the cache is transparent across failures, and what the router submits is a shortest operational path
    under every policy (C4, C11 to C13).
  \<^item> \<open>Ring_Plan\<close>, \<open>Collective_Runtime\<close>, \<open>Collective_Frames\<close>, \<open>Collective_Books\<close>, \<open>Collective_Correct\<close>: the files
    of \<^verbatim>\<open>collective\<close>. The plan computes an all-reduce; the executor's books balance in every run, so that the
    conservation check at the end of a collective never fires (C5, C6, C15).
  \<^item> \<open>Inventory\<close>, \<open>Placement\<close>: the files of \<^verbatim>\<open>scheduling\<close>. Placements are sound, complete as stated, and allocation
    is undone by release (C16, C37 to C40).
  \<^item> \<open>Workload_Model\<close>, \<open>Workload_Times\<close>, \<open>Workload_Engine\<close>, \<open>Workload_Frames\<close>, \<open>Workload_Books\<close>,
    \<open>Workload_Correct\<close>: \<^verbatim>\<open>workload/model\<close>, \<^verbatim>\<open>workload/engine\<close>, \<^verbatim>\<open>workload/scheduling.cpp\<close>,
    \<^verbatim>\<open>workload/metrics.cpp\<close>, \<^verbatim>\<open>workload/telemetry.cpp\<close> and \<^verbatim>\<open>workload/dispatcher.hpp\<close>. In every run of the composition no GPU serves two jobs,
    every ended job is reported once and its report stays true, and the dispatcher's loop ends with nothing left
    to hand on (C7 to C10, C34).

  \<^bold>\<open>Interfaces.\<close> \<open>id_source\<close> (fresh identifiers) is interpreted by the three generators, \<open>timed_queue\<close> by the event
  queue, \<open>validated_operation\<close> (validate, then apply) by the metrics registry, \<open>fifo_link\<close> by the link queue,
  \<open>placing_policy\<close> by all built-in policies, \<open>arc_graph\<close> and \<open>symmetric_graph\<close> by the operational links and by the
  fabric of a topology. \<open>event_dispatcher\<close> and \<open>guarded_dispatcher\<close> are what the kernel asks of handlers for its
  theorems on runs; the transport's dispatcher meets them once with its routes and once with its coherence.
  \<open>state_frame\<close> is a reflexive and transitive relation between states with rules for the program combinators; its
  interpretations say what the operations of a component leave alone: the kernel's invariant (\<open>ctx\<close>, \<open>calm\<close>), the
  component beside the simulation (\<open>sim_only\<close>, \<open>silently\<close>, \<open>stillness\<close>, \<open>chunkless\<close>), the network (\<open>wiring\<close>,
  \<open>net_wired\<close>, \<open>routed\<close>), the engine (\<open>aside\<close>), or how the potential of the chunks goes down (\<open>descent\<close>).

  \<^bold>\<open>Loops.\<close> Two loops may run on and are \<open>partial_function (option)\<close>: the rejection of draws, and the kernel's
  dispatch loop under an arbitrary dispatcher. For the transport the latter is shown to return, by the number of
  events each chunk can still cause. Loops over a changing state are \<open>while_prog\<close>, which says nothing of a loop
  that does not end; so each is shown to end before anything else: the eviction of cached paths, the searches, the sampling of telemetry and the dispatcher's loop, by a measure, the last after at most as many turns as the weight of the engine's books allows. The
  enumeration of routes recurs on the distance left, which a shortest path exhausts exactly. Everything else is
  total by recursion on its data.

  \<^bold>\<open>Not modelled.\<close> The generators of topology families and of Clos fabrics call the building operations of the
  graph and keep no state of their own; theorems on every sequence of these operations cover what they build.
  Validation and summary of a topology only read it. Import and export of topologies, the serialization of
  telemetry, scenario presets, run reports and digests, the command line and the benchmarks are text input and
  output or harnesses around the library.
\<close>

end
